(* ===== verification/Prelude.thy ===== *)
theory Prelude
  imports Main "HOL-Library.Word"
begin

text \<open>
  What every theory of the development shares: the machine arithmetic of the driver's
  \<open>ULONG\<close> values, the split of a sector address into a block of eight sectors and an
  offset, the memory model (a buffer is a function from sector numbers to sectors, a sector
  a function from word indices to 32-bit words), and the counting loop of the handlers.
\<close>

section \<open>Machine arithmetic\<close>

text \<open>
  A \<open>ULONG\<close> is kept as a natural number below \<open>2 ^ 32\<close>. Where the code adds, multiplies
  or subtracts and the result can leave that range the wrap-around is written out with
  \<open>wrap32\<close> and \<open>sub32\<close>; words that are only mixed bitwise (the checksum) and words in
  memory are kept as \<open>32 word\<close>.
\<close>

type_synonym u32 = "32 word"
type_synonym u8 = "8 word"

named_theorems wrap_simps
  \<comment> \<open>the wrapped operations where nothing overflows\<close>

definition wrap32 :: "nat \<Rightarrow> nat" where
  "wrap32 n = n mod 4294967296"

definition sub32 :: "nat \<Rightarrow> nat \<Rightarrow> nat" where
  "sub32 a b = wrap32 (a + (4294967296 - b))"

lemma wrap32_id [simp, wrap_simps]: "n < 4294967296 \<Longrightarrow> wrap32 n = n"
  by (simp add: wrap32_def)

lemma wrap32_less [simp]: "wrap32 n < 4294967296"
  by (simp add: wrap32_def)

lemma wrap32_le: "wrap32 n \<le> n"
  by (simp add: wrap32_def)

lemma wrap32_over: "4294967296 \<le> n \<Longrightarrow> n < 2 * 4294967296 \<Longrightarrow> wrap32 n = n - 4294967296"
  by (simp add: wrap32_def mod_if)

lemma sub32_id [simp, wrap_simps]: "b \<le> a \<Longrightarrow> a < 4294967296 \<Longrightarrow> sub32 a b = a - b"
  by (simp add: sub32_def wrap32_def mod_if)

lemma sub32_less [simp]: "sub32 a b < 4294967296"
  by (simp add: sub32_def)

lemma unat_of_nat32 [simp]: "n < 4294967296 \<Longrightarrow> unat (of_nat n :: u32) = n"
  by (simp add: unat_of_nat take_bit_eq_mod)

lemma unat32_less [simp]: "unat (w :: u32) < 4294967296"
  using unsigned_less [where ?'a = nat, of w] by simp

section \<open>Blocks of eight sectors\<close>

text \<open>
  \<open>LBA >> 3\<close>, \<open>LBA & 7\<close> and \<open>LBA & -8\<close> of the source.
\<close>

definition blk :: "nat \<Rightarrow> nat" where "blk lba = lba div 8"
definition off8 :: "nat \<Rightarrow> nat" where "off8 lba = lba mod 8"
definition base8 :: "nat \<Rightarrow> nat" where "base8 lba = lba - lba mod 8"

lemma base8_blk: "base8 lba = 8 * blk lba"
  by (simp add: base8_def blk_def minus_mod_eq_mult_div)

lemma lba_split: "8 * blk lba + off8 lba = lba"
  by (simp add: blk_def off8_def)

lemma off8_less [simp]: "off8 lba < 8"
  by (simp add: off8_def)

lemma base8_le: "base8 lba \<le> lba"
  by (simp add: base8_def)

lemma blk_base [simp]: "blk (8 * k + r) = k" if "r < 8"
  using that by (simp add: blk_def)

lemma off8_base [simp]: "off8 (8 * k + r) = r" if "r < 8"
  using that by (simp add: off8_def)

lemma blk_mult [simp]: "blk (8 * k) = k" "off8 (8 * k) = 0"
  by (simp_all add: blk_def off8_def)

lemma mult8E:
  assumes "i mod 8 = (0::nat)"
  obtains k where "i = 8 * k"
  using assms by (metis dvd_def mod_eq_0_iff_dvd)

lemma blk_less_iff: "blk lba < n \<longleftrightarrow> lba < 8 * n"
  by (auto simp: blk_def)

section \<open>Memory\<close>

text \<open>
  A sector is 512 bytes, that is 128 words, read as a function of the word index; a buffer
  is a function of the sector number. \<open>RtlCopyMemory\<close> and \<open>RtlZeroMemory\<close> on whole sectors.
\<close>

type_synonym sector = "nat \<Rightarrow> u32"
type_synonym mem = "nat \<Rightarrow> sector"

definition zero_sector :: sector where
  "zero_sector = (\<lambda>_. 0)"

definition copy_sectors :: "mem \<Rightarrow> nat \<Rightarrow> mem \<Rightarrow> nat \<Rightarrow> nat \<Rightarrow> mem" where
  "copy_sectors dst d src s n =
     (\<lambda>p. if d \<le> p \<and> p < d + n then src (s + (p - d)) else dst p)"

definition zero_sectors :: "mem \<Rightarrow> nat \<Rightarrow> nat \<Rightarrow> mem" where
  "zero_sectors dst d n = (\<lambda>p. if d \<le> p \<and> p < d + n then zero_sector else dst p)"

lemma copy_sectors_in: "d \<le> p \<Longrightarrow> p < d + n \<Longrightarrow> copy_sectors dst d src s n p = src (s + (p - d))"
  by (simp add: copy_sectors_def)

lemma copy_sectors_out: "p < d \<or> d + n \<le> p \<Longrightarrow> copy_sectors dst d src s n p = dst p"
  by (auto simp: copy_sectors_def)

lemma copy_sectors_0 [simp]: "copy_sectors dst d src s 0 = dst"
  by (rule ext) (auto simp: copy_sectors_def)

lemma copy_sectors_append:
  "copy_sectors (copy_sectors dst d src s n) (d + n) src (s + n) m =
   copy_sectors dst d src s (n + m)"
  by (rule ext) (auto simp: copy_sectors_def)

section \<open>The counting loop\<close>

text \<open>
  \<open>for(len = i; len < n; len++) if(!P(len)) break;\<close>: the first index from \<open>i\<close> where the
  loop stops.
\<close>

function for_len :: "(nat \<Rightarrow> bool) \<Rightarrow> nat \<Rightarrow> nat \<Rightarrow> nat" where
  "for_len P n i = (if i < n \<and> P i then for_len P n (Suc i) else i)"
  by pat_completeness auto
termination
  by (relation "measure (\<lambda>(P, n, i). n - i)") auto

declare for_len.simps [simp del]

lemma for_len_ge: "i \<le> for_len P n i"
proof (induction P n i rule: for_len.induct)
  case (1 P n i)
  then show ?case by (subst for_len.simps) (auto dest: Suc_leD)
qed

lemma for_len_le: "i \<le> n \<Longrightarrow> for_len P n i \<le> n"
proof (induction P n i rule: for_len.induct)
  case (1 P n i)
  then show ?case by (subst for_len.simps) auto
qed

lemma for_len_all: "i \<le> k \<Longrightarrow> k < for_len P n i \<Longrightarrow> P k \<and> k < n"
proof (induction P n i rule: for_len.induct)
  case (1 P n i)
  show ?case
  proof (cases "i < n \<and> P i")
    case True
    with "1" show ?thesis
      by (cases "k = i") (auto simp: for_len.simps [of P n i])
  next
    case False
    with "1.prems" show ?thesis by (auto simp: for_len.simps [of P n i])
  qed
qed

lemma for_len_stop: "for_len P n i < n \<Longrightarrow> \<not> P (for_len P n i)"
proof (induction P n i rule: for_len.induct)
  case (1 P n i)
  show ?case
  proof (cases "i < n \<and> P i")
    case True
    with "1" show ?thesis by (auto simp: for_len.simps [of P n i])
  next
    case False
    with "1.prems" show ?thesis by (auto simp: for_len.simps [of P n i])
  qed
qed

end
