(* ===== verification/Leveling.thy ===== *)
theory Leveling
  imports Prelude
begin

text \<open>
  The data model of the driver: the constants of \<open>driver/config.h\<close>, \<open>driver/vscsi.h\<close>,
  \<open>driver/vreq.h\<close> and \<open>lib/common.h\<close>, the modes of a device, the requests the system sends
  (\<open>IRP\<close>, \<open>SCSI_REQUEST_BLOCK\<close>) as far as the driver reads and writes them, and the
  structures \<open>CHUNK_INFO\<close>, \<open>THREAD\<close> and \<open>LEVELING_CTX\<close>.
\<close>

section \<open>Constants\<close>

definition LEVELING_VERSION :: nat where "LEVELING_VERSION = 1000"
definition SIZE_OF_CTL :: nat where "SIZE_OF_CTL = 0x100"
definition SIZE_OF_CACHE :: nat where "SIZE_OF_CACHE = 0x200"
definition SIZE_OF_CHUNK :: nat where "SIZE_OF_CHUNK = 0x40000"
definition LAST_PURGE_POS :: nat where "LAST_PURGE_POS = SIZE_OF_CHUNK - SIZE_OF_CACHE"
definition LAST_CACHE_POS :: nat where "LAST_CACHE_POS = SIZE_OF_CACHE - 8"
definition NOT_MAPPED :: nat where "NOT_MAPPED = 0xffffffff"
definition READ_THREADS :: nat where "READ_THREADS = 10"
definition RELOCATION_LIMIT_PERCENTAGE :: nat where "RELOCATION_LIMIT_PERCENTAGE = 90"
definition RELOCATION_READ_MAX_GAP :: nat where "RELOCATION_READ_MAX_GAP = 32"
definition DEFAULT_RETRY :: nat where "DEFAULT_RETRY = 5"

lemmas size_defs [simp] =
  LEVELING_VERSION_def SIZE_OF_CTL_def SIZE_OF_CACHE_def SIZE_OF_CHUNK_def LAST_PURGE_POS_def
  LAST_CACHE_POS_def NOT_MAPPED_def READ_THREADS_def RELOCATION_LIMIT_PERCENTAGE_def
  RELOCATION_READ_MAX_GAP_def DEFAULT_RETRY_def

section \<open>Device modes\<close>

datatype vmode =
    VLTL_MODE_DIRECT | VLTL_MODE_INITIAL | VLTL_MODE_ACTIVE | VLTL_MODE_RECOVERY
  | VLTL_MODE_FORMAT | VLTL_MODE_COMPLETED | VLTL_MODE_ERROR | VLTL_MODE_CONFIG

fun mode_num :: "vmode \<Rightarrow> nat" where
  "mode_num VLTL_MODE_DIRECT = 0"
| "mode_num VLTL_MODE_INITIAL = 1"
| "mode_num VLTL_MODE_ACTIVE = 2"
| "mode_num VLTL_MODE_RECOVERY = 3"
| "mode_num VLTL_MODE_FORMAT = 4"
| "mode_num VLTL_MODE_COMPLETED = 5"
| "mode_num VLTL_MODE_ERROR = 6"
| "mode_num VLTL_MODE_CONFIG = 7"

text \<open>The code compares modes by their numbers (\<open>VLTL_MODE_ACTIVE <= Mode\<close>).\<close>

instantiation vmode :: linorder
begin

definition less_eq_vmode :: "vmode \<Rightarrow> vmode \<Rightarrow> bool" where
  "less_eq_vmode a b = (mode_num a \<le> mode_num b)"

definition less_vmode :: "vmode \<Rightarrow> vmode \<Rightarrow> bool" where
  "less_vmode a b = (mode_num a < mode_num b)"

instance
proof
  fix a b :: vmode
  show "a \<le> b \<Longrightarrow> b \<le> a \<Longrightarrow> a = b"
    by (cases a; cases b) (simp_all add: less_eq_vmode_def)
qed (auto simp: less_eq_vmode_def less_vmode_def)

end

lemma mode_num_inj [simp]: "mode_num a = mode_num b \<longleftrightarrow> a = b"
  by (cases a; cases b) simp_all

section \<open>Requests from above\<close>

text \<open>
  Status codes are symbols: only the ones the driver tells apart are named. The flag
  \<open>SRB_STATUS_AUTOSENSE_VALID\<close> of \<open>SrbStatus\<close> is a field of its own, so that
  \<open>SRB_STATUS(x)\<close>, which masks it, is the status symbol.
\<close>

datatype ntstatus =
    STATUS_SUCCESS | STATUS_PENDING | STATUS_CANCELLED | STATUS_IO_DEVICE_ERROR
  | STATUS_UNSUCCESSFUL | STATUS_INSUFFICIENT_RESOURCES | STATUS_NOT_SUPPORTED
  | NT_ERROR_OTHER nat | NT_SUCCESS_OTHER nat

fun NT_SUCCESS :: "ntstatus \<Rightarrow> bool" where
  "NT_SUCCESS STATUS_SUCCESS = True"
| "NT_SUCCESS STATUS_PENDING = True"
| "NT_SUCCESS (NT_SUCCESS_OTHER n) = True"
| "NT_SUCCESS s = False"

datatype srb_status =
    SRB_STATUS_PENDING | SRB_STATUS_SUCCESS | SRB_STATUS_ERROR | SRB_STATUS_DATA_OVERRUN
  | SRB_STATUS_OTHER nat

datatype scsi_status = SCSISTAT_GOOD | SCSISTAT_CHECK_CONDITION | SCSISTAT_OTHER nat

datatype srb_function =
    SRB_FUNCTION_EXECUTE_SCSI | SRB_FUNCTION_CLAIM_DEVICE | SRB_FUNCTION_LOCK_QUEUE
  | SRB_FUNCTION_UNLOCK_QUEUE | SRB_FUNCTION_FLUSH_QUEUE | SRB_FUNCTION_SHUTDOWN
  | SRB_FUNCTION_FLUSH | SRB_FUNCTION_OTHER nat

datatype scsiop =
    SCSIOP_TEST_UNIT_READY | SCSIOP_INQUIRY | SCSIOP_MODE_SELECT | SCSIOP_MODE_SENSE
  | SCSIOP_START_STOP_UNIT | SCSIOP_MEDIUM_REMOVAL | SCSIOP_READ_CAPACITY | SCSIOP_READ
  | SCSIOP_WRITE | SCSIOP_VERIFY | SCSIOP_SYNCHRONIZE_CACHE | SCSIOP_OTHER nat

datatype major = IRP_MJ_SCSI | IRP_MJ_PNP | IRP_MJ_SHUTDOWN | IRP_MJ_READ | IRP_MJ_WRITE
  | IRP_MJ_OTHER nat

datatype minor = IRP_MN_QUERY_REMOVE_DEVICE | IRP_MN_REMOVE_DEVICE
  | IRP_MN_DEVICE_USAGE_NOTIFICATION | IRP_MN_QUERY_CAPABILITIES | IRP_MN_OTHER nat

text \<open>
  \<open>srb_op\<close> is \<open>Cdb[0]\<close> when the function is \<open>EXECUTE_SCSI\<close>; \<open>srb_Cdb\<close> holds the bytes of
  the command block; the sense buffer is a function of the byte index.
\<close>

record srb =
  srb_Function :: srb_function
  srb_op :: scsiop
  srb_Cdb :: "nat \<Rightarrow> nat"
  srb_DataIn :: bool
  srb_DataOut :: bool
  srb_DataBuffer :: nat
  srb_DataTransferLength :: nat
  srb_SrbStatus :: srb_status
  srb_Autosense :: bool
  srb_ScsiStatus :: scsi_status
  srb_SenseInfoBufferLength :: nat
  srb_SenseInfoBuffer :: "nat \<Rightarrow> nat"

text \<open>\<open>mdl_SystemVA\<close> is what \<open>MmGetSystemAddressForMdlSafe\<close> returns for this list.\<close>

record mdl =
  mdl_Next :: bool
  mdl_VA :: nat
  mdl_ByteCount :: nat
  mdl_SystemVA :: "nat option"

record irp =
  irp_id :: nat
  irp_Major :: major
  irp_Minor :: minor
  irp_Srb :: srb
  irp_Mdl :: "mdl option"
  irp_Status :: ntstatus
  irp_Information :: nat
  irp_Pending :: bool

section \<open>Requests to the medium\<close>

text \<open>
  A request the driver passes to \<open>ScsiCallRW\<close>: the direction, the buffer and the sector in it
  where the transfer starts, the physical sector, the length, the retry limit and the routine
  that runs when it has completed.
\<close>

datatype opc = OpRead | OpWrite
datatype buffer = BufCache | BufRelocate | BufThread nat
datatype completion =
    CacheFillReadCompletion | PurgeCacheCompletion | PurgeChunkCompletion
  | PrepareRelocateCompletion | RelocateCompletion | ExecuteReadCompletion nat

record rwreq =
  rq_OPC :: opc
  rq_Buffer :: buffer
  rq_Pos :: nat
  rq_PLBA :: nat
  rq_LEN :: nat
  rq_RetryLimit :: nat
  rq_Completion :: completion

section \<open>The leveling context\<close>

record chunk_info =
  SCN :: nat
  WCN :: nat
  Used :: nat

text \<open>
  \<open>th_DataSystemAddress\<close> is the mapped address of the caller's buffer (\<open>NULL\<close> as \<open>None\<close>) and
  \<open>th_Data\<close> the contents of that buffer, sector by sector.
\<close>

record thread =
  th_Irp :: "irp option"
  th_Mdl :: "mdl option"
  th_DataSystemAddress :: "nat option"
  th_Data :: mem
  th_DataBuffer :: nat
  th_LBA :: nat
  th_LEN :: nat
  th_Transferred :: nat
  th_Marked :: bool
  th_IsRead :: bool
  th_Index :: nat
  th_FreeLink :: nat

text \<open>
  \<open>CHUNK_CTL\<close> is kept as the words it occupies: the header fields at 0 to 7, \<open>LBA[k]\<close> at
  \<open>8 + k\<close>, the checksum at the end.
\<close>

type_synonym ctl = "nat \<Rightarrow> u32"

record ctx =
  CCN :: nat
  SIZE_OF_MAP :: nat
  MAX_CHUNKS :: nat
  WEIGHT_LIFE :: nat
  WEIGHT_SPEED :: nat
  Magic :: nat
  CacheTimeout :: nat
  FlushFaithfully :: bool
  Timer :: bool
  ReadIrpQueue :: "irp list"
  OtherIrpQueue :: "irp list"
  ReadPending :: nat
  OtherPending :: nat
  ReadActive :: nat
  OtherActive :: nat
  ThreadsMarked :: nat
  WaitingMarkedThreads :: bool
  Flushing :: bool
  Finalizing :: bool
  RelocationPrepared :: bool
  RelocationDone :: bool
  CacheDirty :: bool
  FlushPending :: bool
  TimerActive :: bool
  ReadFreeList :: nat
  ReadThread :: "nat \<Rightarrow> thread"
  OtherThread :: thread
  Map :: "nat \<Rightarrow> nat"
  ChunkInfo :: "nat \<Rightarrow> chunk_info"
  ChunkNo :: nat
  NextChunkNo :: nat
  ChunkCtl :: ctl
  NextChunkCtl :: ctl
  CacheMem :: mem
  FinalizedPos :: nat
  PurgePos :: nat
  CachePos :: nat
  CacheLBA :: "nat \<Rightarrow> nat"
  RelocateMem :: mem
  RelocatePos :: nat
  RelocateWindowStart :: nat
  RelocateWindowEnd :: nat
  RelocateTarget :: nat
  RelocateSource :: nat

text \<open>The context as \<open>RtlZeroMemory\<close> leaves it, \<open>0\<close> standing for \<open>FALSE\<close> and \<open>NULL\<close>.\<close>

definition zero_thread :: thread where
  "zero_thread = \<lparr>th_Irp = None, th_Mdl = None, th_DataSystemAddress = None,
     th_Data = (\<lambda>_. zero_sector), th_DataBuffer = 0, th_LBA = 0, th_LEN = 0, th_Transferred = 0,
     th_Marked = False, th_IsRead = False, th_Index = 0, th_FreeLink = 0\<rparr>"

definition zero_ctx :: ctx where
  "zero_ctx = \<lparr>CCN = 0, SIZE_OF_MAP = 0, MAX_CHUNKS = 0, WEIGHT_LIFE = 0, WEIGHT_SPEED = 0,
     Magic = 0, CacheTimeout = 0, FlushFaithfully = False, Timer = False, ReadIrpQueue = [],
     OtherIrpQueue = [], ReadPending = 0, OtherPending = 0, ReadActive = 0, OtherActive = 0,
     ThreadsMarked = 0, WaitingMarkedThreads = False, Flushing = False, Finalizing = False,
     RelocationPrepared = False, RelocationDone = False, CacheDirty = False, FlushPending = False,
     TimerActive = False, ReadFreeList = 0, ReadThread = (\<lambda>_. zero_thread), OtherThread = zero_thread,
     Map = (\<lambda>_. 0), ChunkInfo = (\<lambda>_. \<lparr>SCN = 0, WCN = 0, Used = 0\<rparr>), ChunkNo = 0, NextChunkNo = 0,
     ChunkCtl = (\<lambda>_. 0), NextChunkCtl = (\<lambda>_. 0), CacheMem = (\<lambda>_. zero_sector), FinalizedPos = 0,
     PurgePos = 0, CachePos = 0, CacheLBA = (\<lambda>_. 0), RelocateMem = (\<lambda>_. zero_sector),
     RelocatePos = 0, RelocateWindowStart = 0, RelocateWindowEnd = 0, RelocateTarget = 0,
     RelocateSource = 0\<rparr>"

text \<open>
  What a handler works on: the mode of the device, its context, the requests it has handed to
  \<open>ScsiCallRW\<close> and the \<open>IRP\<close>s it has completed, both in order.
\<close>

record hs =
  hs_Mode :: vmode
  hs_Ctx :: ctx
  hs_Issued :: "rwreq list"
  hs_Done :: "irp list"

text \<open>\<open>Timer\<close> is whether the kernel timer is queued: \<open>KeCancelTimer\<close> returns that and removes it.\<close>

definition KeCancelTimer :: "ctx \<Rightarrow> bool \<times> ctx" where
  "KeCancelTimer c = (Timer c, c\<lparr>Timer := False\<rparr>)"

section \<open>Addresses on the medium\<close>

definition phys :: "nat \<Rightarrow> nat \<Rightarrow> nat" where
  "phys chunk pos = wrap32 (wrap32 (chunk * SIZE_OF_CHUNK) + pos)"

lemma phys_eq [simp]:
  "chunk < 500 \<Longrightarrow> pos < SIZE_OF_CHUNK \<Longrightarrow> phys chunk pos = chunk * SIZE_OF_CHUNK + pos"
  by (simp add: phys_def)

lemma chunk_of_phys [simp]:
  "pos < SIZE_OF_CHUNK \<Longrightarrow> (chunk * SIZE_OF_CHUNK + pos) div SIZE_OF_CHUNK = chunk"
  by simp

lemma pos_of_phys [simp]:
  "pos < SIZE_OF_CHUNK \<Longrightarrow> (chunk * SIZE_OF_CHUNK + pos) mod SIZE_OF_CHUNK = pos"
  by simp

end
