(* ===== verification/Tables.thy ===== *)
theory Tables
  imports Leveling
begin

text \<open>
  The tables of the leveling context and the routines of \<open>driver/vscsi.c\<close> that search and
  update them: the cache directory (\<open>GetCachedPos\<close>), the block map with the per-chunk use
  counts (\<open>UpdateMap\<close>) and the choice of the chunk to write next (\<open>FindNextChunk\<close>).
\<close>

section \<open>The cache directory\<close>

function gcp_loop :: "ctx \<Rightarrow> nat \<Rightarrow> nat \<Rightarrow> nat" where
  "gcp_loop c LBA i =
     (if i < CachePos c
      then if CacheLBA c i = base8 LBA \<and> i + off8 LBA < CachePos c then i + off8 LBA
           else gcp_loop c LBA (i + 8)
      else NOT_MAPPED)"
  by pat_completeness auto
termination
  by (relation "measure (\<lambda>(c, LBA, i). CachePos c - i)") auto

declare gcp_loop.simps [simp del]

definition GetCachedPos :: "ctx \<Rightarrow> nat \<Rightarrow> nat" where
  "GetCachedPos c LBA = gcp_loop c LBA 0"

text \<open>
  The directory is well formed when every cached block starts at a multiple of eight, its
  sectors follow one another, no sector is cached twice and every cached block is in the map.
\<close>

definition cache_wf :: "ctx \<Rightarrow> bool" where
  "cache_wf c \<longleftrightarrow>
     CachePos c \<le> LAST_CACHE_POS \<and>
     (\<forall>p < CachePos c. off8 (CacheLBA c p) = off8 p \<and>
        blk (CacheLBA c p) = blk (CacheLBA c (base8 p)) \<and> blk (CacheLBA c p) < SIZE_OF_MAP c) \<and>
     inj_on (CacheLBA c) {..<CachePos c}"

definition cached :: "ctx \<Rightarrow> nat \<Rightarrow> bool" where
  "cached c LBA \<longleftrightarrow> (\<exists>p < CachePos c. CacheLBA c p = LBA)"

lemma cache_wfD:
  assumes "cache_wf c" "p < CachePos c"
  shows "off8 (CacheLBA c p) = off8 p" "blk (CacheLBA c p) = blk (CacheLBA c (base8 p))"
    "blk (CacheLBA c p) < SIZE_OF_MAP c"
  using assms unfolding cache_wf_def by blast+

lemma cache_wf_inj:
  "cache_wf c \<Longrightarrow> p < CachePos c \<Longrightarrow> q < CachePos c \<Longrightarrow> CacheLBA c p = CacheLBA c q \<Longrightarrow> p = q"
  unfolding cache_wf_def by (blast dest: inj_onD)

lemma cache_wf_head:
  assumes "cache_wf c" "p < CachePos c"
  shows "CacheLBA c (base8 p) = base8 (CacheLBA c p)"
proof -
  have b: "base8 p < CachePos c" using assms(2) base8_le [of p] by simp
  have "off8 (CacheLBA c (base8 p)) = 0" "blk (CacheLBA c (base8 p)) = blk (CacheLBA c p)"
    using cache_wfD [OF assms(1) b] cache_wfD [OF assms] by (simp_all add: base8_blk)
  then show ?thesis using lba_split [of "CacheLBA c (base8 p)"] by (simp add: base8_blk)
qed

lemma gcp_hit:
  assumes wf: "cache_wf c" and p: "p < CachePos c"
  shows "i mod 8 = 0 \<Longrightarrow> i \<le> base8 p \<Longrightarrow> gcp_loop c (CacheLBA c p) i = p"
proof (induction "CachePos c - i" arbitrary: i rule: less_induct)
  case less
  let ?L = "CacheLBA c p"
  have i: "i < CachePos c" using less.prems p base8_le [of p] by simp
  have off: "off8 ?L = off8 p" using cache_wfD [OF wf p] by simp
  show ?case
  proof (cases "i = base8 p")
    case True
    have "i + off8 ?L = p" by (simp add: True off base8_blk lba_split)
    then show ?thesis using p i cache_wf_head [OF wf p] by (simp add: True gcp_loop.simps [of c _ "base8 p"])
  next
    case False
    have b: "base8 p < CachePos c" using p base8_le [of p] by simp
    have "CacheLBA c i \<noteq> base8 ?L"
      using False cache_wf_inj [OF wf i b] cache_wf_head [OF wf p] by auto
    moreover have "i + 8 \<le> base8 p" using less.prems False by (auto simp: base8_blk elim!: mult8E)
    ultimately show ?thesis
      using less.hyps [of "i + 8"] less.prems(1) i by (simp add: gcp_loop.simps [of c _ i])
  qed
qed

lemma gcp_miss:
  assumes wf: "cache_wf c" and no: "\<not> cached c LBA"
  shows "i mod 8 = 0 \<Longrightarrow> gcp_loop c LBA i = NOT_MAPPED"
proof (induction "CachePos c - i" arbitrary: i rule: less_induct)
  case less
  have False if "CacheLBA c i = base8 LBA" "i + off8 LBA < CachePos c"
  proof -
    obtain k where k: "i = 8 * k" using less.prems by (rule mult8E)
    have bi: "base8 (i + off8 LBA) = i" and oi: "off8 (i + off8 LBA) = off8 LBA"
      by (simp_all add: k base8_blk)
    let ?x = "CacheLBA c (i + off8 LBA)"
    have "off8 ?x = off8 LBA" "base8 ?x = base8 LBA"
      using that cache_wfD(1) [OF wf that(2)] cache_wf_head [OF wf that(2)] by (simp_all add: oi bi)
    then have "?x = LBA" using lba_split [of ?x] lba_split [of LBA] by (simp add: base8_blk)
    with no that(2) show False by (auto simp: cached_def)
  qed
  then show ?case
    using less.hyps [of "i + 8"] less.prems by (auto simp: gcp_loop.simps [of c _ i])
qed

lemma GetCachedPos_hit:
  "cache_wf c \<Longrightarrow> p < CachePos c \<Longrightarrow> CacheLBA c p = LBA \<Longrightarrow> GetCachedPos c LBA = p"
  using gcp_hit [of c p 0] by (auto simp: GetCachedPos_def)

lemma GetCachedPos_miss: "cache_wf c \<Longrightarrow> \<not> cached c LBA \<Longrightarrow> GetCachedPos c LBA = NOT_MAPPED"
  using gcp_miss [of c LBA 0] by (simp add: GetCachedPos_def)

text \<open>
  The interface the read and write handlers rely on: a lookup that finds the position of a
  tag, or reports that there is none with a value that is no position.
\<close>

locale tag_lookup =
  fixes lookup :: "'c \<Rightarrow> nat \<Rightarrow> nat"
    and slots :: "'c \<Rightarrow> nat"
    and tag :: "'c \<Rightarrow> nat \<Rightarrow> nat"
    and wf :: "'c \<Rightarrow> bool"
    and none :: nat
  assumes hit: "wf c \<Longrightarrow> p < slots c \<Longrightarrow> tag c p = t \<Longrightarrow> lookup c t = p"
    and miss: "wf c \<Longrightarrow> \<forall>p < slots c. tag c p \<noteq> t \<Longrightarrow> lookup c t = none"
    and bounded: "wf c \<Longrightarrow> slots c \<le> none"
begin

lemma found_iff: "wf c \<Longrightarrow> lookup c t \<noteq> none \<longleftrightarrow> (\<exists>p < slots c. tag c p = t)"
  using hit [of c] miss [of c t] bounded [of c] by (metis less_irrefl_nat order_less_le_trans)

lemma found: "wf c \<Longrightarrow> lookup c t \<noteq> none \<Longrightarrow> lookup c t < slots c \<and> tag c (lookup c t) = t"
  using found_iff [of c t] hit [of c] by auto

lemma not_found: "wf c \<Longrightarrow> lookup c t = none \<longleftrightarrow> (\<forall>p < slots c. tag c p \<noteq> t)"
  using found_iff [of c t] by blast

lemma unique: "wf c \<Longrightarrow> p < slots c \<Longrightarrow> q < slots c \<Longrightarrow> tag c p = tag c q \<Longrightarrow> p = q"
  using hit by metis

end

interpretation cd: tag_lookup GetCachedPos CachePos CacheLBA cache_wf NOT_MAPPED
  by unfold_locales (auto simp: cached_def GetCachedPos_hit GetCachedPos_miss, simp add: cache_wf_def)

lemma cached_iff: "cache_wf c \<Longrightarrow> cached c LBA \<longleftrightarrow> GetCachedPos c LBA \<noteq> NOT_MAPPED"
  using cd.found_iff [of c LBA] by (simp add: cached_def)
section \<open>The block map and the use counts\<close>

definition used_set :: "ctx \<Rightarrow> nat \<Rightarrow> nat set" where
  "used_set c ch = {j. j < SIZE_OF_MAP c \<and> Map c j \<noteq> NOT_MAPPED \<and> Map c j div SIZE_OF_CHUNK = ch}"

definition dec_used :: "nat \<Rightarrow> ctx \<Rightarrow> ctx" where
  "dec_used ch c = c\<lparr>ChunkInfo := (ChunkInfo c)(ch := (ChunkInfo c ch)\<lparr>Used := sub32 (Used (ChunkInfo c ch)) 1\<rparr>)\<rparr>"

definition set_map :: "nat \<Rightarrow> nat \<Rightarrow> nat \<Rightarrow> ctx \<Rightarrow> ctx" where
  "set_map j ch PLBA c =
     c\<lparr>Map := (Map c)(j := PLBA),
       ChunkInfo := (ChunkInfo c)(ch := (ChunkInfo c ch)\<lparr>Used := wrap32 (Used (ChunkInfo c ch) + 1)\<rparr>)\<rparr>"

text \<open>One round of the loop: \<open>j\<close> is the block, \<open>ch\<close> the chunk of \<open>PLBA\<close>.\<close>

definition um_step :: "nat \<Rightarrow> nat \<Rightarrow> nat \<Rightarrow> ctx \<Rightarrow> ctx" where
  "um_step j ch PLBA c =
     (if SIZE_OF_MAP c \<le> j then c
      else let OldPLBA = Map c j in
        if OldPLBA \<noteq> NOT_MAPPED
        then let OldChunkNo = OldPLBA div SIZE_OF_CHUNK in
          if SCN (ChunkInfo c OldChunkNo) > SCN (ChunkInfo c ch) then c
          else set_map j ch PLBA (dec_used OldChunkNo c)
        else set_map j ch PLBA c)"

function um_loop :: "(nat \<Rightarrow> nat) \<Rightarrow> nat \<Rightarrow> nat \<Rightarrow> nat \<Rightarrow> nat \<Rightarrow> ctx \<Rightarrow> ctx" where
  "um_loop LBA Sectors ch PLBA i c =
     (if i < Sectors
      then um_loop LBA Sectors ch (wrap32 (PLBA + 8)) (i + 8) (um_step (blk (LBA (i div 8))) ch PLBA c)
      else c)"
  by pat_completeness auto
termination
  by (relation "measure (\<lambda>(LBA, Sectors, ch, PLBA, i, c). Sectors - i)") auto

declare um_loop.simps [simp del]

definition UpdateMap :: "ctx \<Rightarrow> (nat \<Rightarrow> nat) \<Rightarrow> nat \<Rightarrow> nat \<Rightarrow> ctx" where
  "UpdateMap c LBA Sectors PLBA = um_loop LBA Sectors (PLBA div SIZE_OF_CHUNK) PLBA 0 c"

text \<open>
  The bookkeeping invariant: every mapped block lies in a chunk of the medium, and \<open>Used\<close> of
  a chunk is the number of blocks the map places in it.
\<close>

definition map_in_range :: "ctx \<Rightarrow> bool" where
  "map_in_range c \<longleftrightarrow>
     (\<forall>j < SIZE_OF_MAP c. Map c j \<noteq> NOT_MAPPED \<longrightarrow> Map c j div SIZE_OF_CHUNK < MAX_CHUNKS c)"

definition used_ok :: "ctx \<Rightarrow> bool" where
  "used_ok c \<longleftrightarrow> (\<forall>ch < MAX_CHUNKS c. Used (ChunkInfo c ch) = card (used_set c ch))"

lemma finite_used_set [simp]: "finite (used_set c ch)"
  by (rule finite_subset [of _ "{..<SIZE_OF_MAP c}"]) (auto simp: used_set_def)

lemma card_used_set_le: "card (used_set c ch) \<le> SIZE_OF_MAP c"
  using card_mono [of "{..<SIZE_OF_MAP c}" "used_set c ch"] by (auto simp: used_set_def)

lemma used_set_set_map:
  "j < SIZE_OF_MAP c \<Longrightarrow> PLBA \<noteq> NOT_MAPPED \<Longrightarrow>
   used_set (set_map j ch PLBA c) k =
     (if PLBA div SIZE_OF_CHUNK = k then insert j (used_set c k) else used_set c k - {j})"
  by (auto simp: used_set_def set_map_def)

lemma used_set_dec_used [simp]: "used_set (dec_used ch c) k = used_set c k"
  by (simp add: used_set_def dec_used_def)

lemma dec_used_simps [simp]:
  "SIZE_OF_MAP (dec_used ch c) = SIZE_OF_MAP c" "MAX_CHUNKS (dec_used ch c) = MAX_CHUNKS c"
  "Map (dec_used ch c) = Map c"
  by (simp_all add: dec_used_def)

lemma set_map_simps [simp]:
  "SIZE_OF_MAP (set_map j ch p c) = SIZE_OF_MAP c" "MAX_CHUNKS (set_map j ch p c) = MAX_CHUNKS c"
  "Map (set_map j ch p c) = (Map c)(j := p)"
  by (simp_all add: set_map_def)

lemma um_step_frame [simp]:
  "SIZE_OF_MAP (um_step j ch p c) = SIZE_OF_MAP c" "MAX_CHUNKS (um_step j ch p c) = MAX_CHUNKS c"
  "SCN (ChunkInfo (um_step j ch p c) k) = SCN (ChunkInfo c k)"
  "WCN (ChunkInfo (um_step j ch p c) k) = WCN (ChunkInfo c k)"
  by (auto simp: um_step_def Let_def dec_used_def set_map_def)

lemma um_step_used_ok:
  assumes ok: "used_ok c" "map_in_range c" "SIZE_OF_MAP c < 4294967296"
    and p: "p \<noteq> NOT_MAPPED" "p div SIZE_OF_CHUNK = ch" "ch < MAX_CHUNKS c"
  shows "used_ok (um_step j ch p c) \<and> map_in_range (um_step j ch p c)"
proof (cases "j < SIZE_OF_MAP c")
  case j: True
  have small: "card (used_set c k) < 4294967296" for k
    using card_used_set_le [of c k] ok(3) by simp
  have ins: "Suc (card (used_set c k - {j})) \<le> SIZE_OF_MAP c" for k
  proof -
    have "used_set c k - {j} \<subseteq> {..<SIZE_OF_MAP c} - {j}" by (auto simp: used_set_def)
    from card_mono [OF _ this] j show ?thesis by simp
  qed
  show ?thesis
  proof (cases "Map c j = NOT_MAPPED")
    case True
    then have "j \<notin> used_set c k" for k by (simp add: used_set_def)
    then show ?thesis
      using j True ok p ins [of ch] small
      by (auto simp: um_step_def Let_def used_ok_def used_set_set_map map_in_range_def)
         (auto simp: set_map_def)
  next
    case False
    let ?oc = "Map c j div SIZE_OF_CHUNK"
    have mem: "j \<in> used_set c k \<longleftrightarrow> k = ?oc" for k using False j by (auto simp: used_set_def)
    have oc: "?oc < MAX_CHUNKS c" using False j ok(2) by (auto simp: map_in_range_def)
    have pos: "0 < card (used_set c ?oc)" using mem [of ?oc] by (auto simp: card_gt_0_iff)
    have u: "Used (ChunkInfo (dec_used ?oc c) k) = card (used_set c k - {j})" if "k < MAX_CHUNKS c" for k
      using that ok(1) mem [of k] pos small [of k]
      by (auto simp: dec_used_def used_ok_def card_Diff_singleton_if)
    have "card (insert j (used_set c k)) = Suc (card (used_set c k - {j}))" for k
      by (metis card_insert_disjoint finite_Diff finite_used_set insertI1 insert_Diff_single Diff_iff)
    moreover have "Used (ChunkInfo (set_map j ch p (dec_used ?oc c)) k) =
        (if k = ch then wrap32 (card (used_set c k - {j}) + 1) else card (used_set c k - {j}))"
      if "k < MAX_CHUNKS c" for k
      using u [OF that] by (auto simp: set_map_def)
    moreover have "wrap32 (card (used_set c ch - {j}) + 1) = Suc (card (used_set c ch - {j}))"
      using ins [of ch] ok(3) by simp
    ultimately have "used_ok (set_map j ch p (dec_used ?oc c))"
      using p j by (auto simp: used_ok_def used_set_set_map)
    then show ?thesis
      using j False ok p by (auto simp: um_step_def Let_def map_in_range_def)
  qed
next
  case False
  then show ?thesis using ok by (simp add: um_step_def)
qed

lemma um_loop_frame [simp]:
  "SIZE_OF_MAP (um_loop L n ch p i c) = SIZE_OF_MAP c" "MAX_CHUNKS (um_loop L n ch p i c) = MAX_CHUNKS c"
  "SCN (ChunkInfo (um_loop L n ch p i c) k) = SCN (ChunkInfo c k)"
  "WCN (ChunkInfo (um_loop L n ch p i c) k) = WCN (ChunkInfo c k)"
  by (induction L n ch p i c rule: um_loop.induct) (subst um_loop.simps, simp)+

text \<open>
  The entries a run of \<open>UpdateMap\<close> writes lie in one chunk: it is called for a range that
  starts and ends inside it.
\<close>

lemma um_loop_used_ok:
  "used_ok c \<Longrightarrow> map_in_range c \<Longrightarrow> SIZE_OF_MAP c < 4294967296 \<Longrightarrow> ch < MAX_CHUNKS c \<Longrightarrow>
   ch * SIZE_OF_CHUNK \<le> p \<Longrightarrow> p + (n - i) \<le> Suc ch * SIZE_OF_CHUNK \<Longrightarrow> MAX_CHUNKS c \<le> 500 \<Longrightarrow>
   (i < n \<longrightarrow> (n - i) mod 8 = 0) \<Longrightarrow>
   used_ok (um_loop L n ch p i c) \<and> map_in_range (um_loop L n ch p i c)"
proof (induction L n ch p i c rule: um_loop.induct)
  case (1 L n ch p i c)
  show ?case
  proof (cases "i < n")
    case False
    with "1.prems" show ?thesis by (simp add: um_loop.simps [of _ _ _ _ i])
  next
    case True
    let ?c = "um_step (blk (L (i div 8))) ch p c"
    have p: "p < Suc ch * SIZE_OF_CHUNK" "p \<noteq> NOT_MAPPED" "p + 8 < 4294967296"
      using True "1.prems" by auto
    have "p div SIZE_OF_CHUNK = ch"
      using p(1) "1.prems"(5) by (simp add: div_nat_eqI)
    with um_step_used_ok [of c p ch] "1.prems" p
    have step: "used_ok ?c \<and> map_in_range ?c" by simp
    have m: "(n - (i + 8)) mod 8 = 0" "8 \<le> n - i" using True "1.prems"(8) by presburger+
    show ?thesis
      using "1.IH" [OF True] step "1.prems" p m by (simp add: um_loop.simps [of _ _ _ _ i] True)
  qed
qed

text \<open>
  What the map holds after a run for a chunk that no mapped block's chunk is newer than, when
  the listed blocks are distinct and in the map.
\<close>

lemma um_step_Map:
  assumes "j < SIZE_OF_MAP c" "map_in_range c"
    and "\<forall>k < MAX_CHUNKS c. SCN (ChunkInfo c k) \<le> SCN (ChunkInfo c ch)"
  shows "Map (um_step j ch p c) = (Map c)(j := p)"
  using assms by (auto simp: um_step_def Let_def map_in_range_def leD)

lemma um_loop_Map:
  assumes "map_in_range c" "ch < MAX_CHUNKS c" "MAX_CHUNKS c \<le> 500"
    "ch * SIZE_OF_CHUNK \<le> p" "p + (n - i) \<le> Suc ch * SIZE_OF_CHUNK"
    "i mod 8 = 0" "n mod 8 = 0"
    "\<forall>k < MAX_CHUNKS c. SCN (ChunkInfo c k) \<le> SCN (ChunkInfo c ch)"
    "\<forall>k. 8 * k < n \<longrightarrow> blk (L k) < SIZE_OF_MAP c"
    "\<forall>k k'. 8 * k < n \<longrightarrow> 8 * k' < n \<longrightarrow> blk (L k) = blk (L k') \<longrightarrow> k = k'"
  shows "(\<forall>k. i \<le> 8 * k \<longrightarrow> 8 * k < n \<longrightarrow> Map (um_loop L n ch p i c) (blk (L k)) = p + (8 * k - i)) \<and>
    (\<forall>j. (\<forall>k. i \<le> 8 * k \<longrightarrow> 8 * k < n \<longrightarrow> blk (L k) \<noteq> j) \<longrightarrow> Map (um_loop L n ch p i c) j = Map c j)"
  using assms
proof (induction L n ch p i c rule: um_loop.induct)
  case (1 L n ch p i c)
  show ?case
  proof (cases "i < n")
    case False
    then show ?thesis by (auto simp: um_loop.simps [of _ _ _ _ i])
  next
    case True
    let ?c = "um_step (blk (L (i div 8))) ch p c"
    obtain k0 where k0: "i = 8 * k0" using "1.prems"(6) by (rule mult8E)
    have n8: "i + 8 \<le> n" using True "1.prems"(6,7) by presburger
    have p: "p + 8 < 4294967296" using n8 "1.prems" by simp
    have b0: "blk (L k0) < SIZE_OF_MAP c" using "1.prems"(9) True k0 by blast
    have M: "Map ?c = (Map c)(blk (L k0) := p)"
      using um_step_Map [OF b0 "1.prems"(1,8)] k0 by simp
    have "p div SIZE_OF_CHUNK = ch"
      using n8 "1.prems"(4,5) by (intro div_nat_eqI) simp_all
    then have range: "map_in_range ?c"
      using "1.prems"(1,2) M by (simp add: map_in_range_def)
    have e: "um_loop L n ch p i c = um_loop L n ch (p + 8) (i + 8) ?c"
      using True p by (simp add: um_loop.simps [of _ _ _ _ i])
    let ?M = "Map (um_loop L n ch p i c)"
    have IH: "(\<forall>k. i + 8 \<le> 8 * k \<longrightarrow> 8 * k < n \<longrightarrow> ?M (blk (L k)) = p + 8 + (8 * k - (i + 8))) \<and>
      (\<forall>j. (\<forall>k. i + 8 \<le> 8 * k \<longrightarrow> 8 * k < n \<longrightarrow> blk (L k) \<noteq> j) \<longrightarrow> ?M j = Map ?c j)"
      unfolding e using "1.IH" [OF True] range "1.prems" n8 p by simp
    have IH1: "?M (blk (L k)) = p + (8 * k - i)" if "i + 8 \<le> 8 * k" "8 * k < n" for k
      using conjunct1 [OF IH, rule_format, OF that] that(1) by simp
    have IH2: "?M j = Map ?c j" if "\<And>k. i + 8 \<le> 8 * k \<Longrightarrow> 8 * k < n \<Longrightarrow> blk (L k) \<noteq> j" for j
      using conjunct2 [OF IH, rule_format, OF that] .
    have "?M (blk (L k0)) = Map ?c (blk (L k0))"
    proof (rule IH2)
      fix k assume "i + 8 \<le> 8 * k" "8 * k < n"
      then have "k \<noteq> k0" using k0 by simp
      moreover have "8 * k0 < n" using True k0 by simp
      ultimately show "blk (L k) \<noteq> blk (L k0)" using "1.prems"(10) \<open>8 * k < n\<close> by blast
    qed
    then have first: "?M (blk (L k0)) = p" by (simp add: M)
    show ?thesis
    proof (intro conjI allI impI)
      fix k assume k: "i \<le> 8 * k" "8 * k < n"
      show "?M (blk (L k)) = p + (8 * k - i)"
      proof (cases "k = k0")
        case True then show ?thesis using first k0 by simp
      next
        case False
        then have "i + 8 \<le> 8 * k" using k k0 by simp
        then show ?thesis using IH1 k by blast
      qed
    next
      fix j assume j: "\<forall>k. i \<le> 8 * k \<longrightarrow> 8 * k < n \<longrightarrow> blk (L k) \<noteq> j"
      have "i \<le> 8 * k0" "8 * k0 < n" using True k0 by simp_all
      then have "j \<noteq> blk (L k0)" using j by blast
      then have "Map ?c j = Map c j" by (simp add: M)
      moreover have "?M j = Map ?c j"
        by (rule IH2) (use j in \<open>simp add: k0\<close>)
      ultimately show "?M j = Map c j" by simp
    qed
  qed
qed

section \<open>The next chunk\<close>

text \<open>
  Both loops of \<open>FindNextChunk\<close> have this round: \<open>cur\<close> is \<open>Ctx->ChunkNo\<close>, the pair is
  \<open>(next, min_score)\<close>, \<open>ok\<close> the test of the \<open>continue\<close> before the score.
\<close>

definition pick_step :: "nat \<Rightarrow> (nat \<Rightarrow> bool) \<Rightarrow> (nat \<Rightarrow> nat) \<Rightarrow> nat \<Rightarrow> nat \<times> nat \<Rightarrow> nat \<times> nat" where
  "pick_step cur ok score i st =
     (if i = cur then st
      else if \<not> ok i then st
      else let s = score i in
        if cur = fst st \<or> snd st > s then (i, s) else st)"

definition under_limit :: "ctx \<Rightarrow> nat \<Rightarrow> bool" where
  "under_limit c i \<longleftrightarrow>
     \<not> (wrap32 (Used (ChunkInfo c i) * 100)
        \<ge> wrap32 ((sub32 LAST_PURGE_POS (PurgePos c) div 8) * RELOCATION_LIMIT_PERCENTAGE))"

definition chunk_score :: "ctx \<Rightarrow> nat \<Rightarrow> nat" where
  "chunk_score c i =
     (let wcn = WCN (ChunkInfo c (ChunkNo c));
          score_speed = Used (ChunkInfo c i);
          score_life = (if WCN (ChunkInfo c i) < wcn then wrap32 (2 * WCN (ChunkInfo c i))
                        else wrap32 (wcn + WCN (ChunkInfo c i)))
      in wrap32 (wrap32 (score_speed * wrap32 (1 + WEIGHT_SPEED c)) div 32
                 + wrap32 (score_life * wrap32 (1 + WEIGHT_LIFE c))))"

text \<open>\<open>m0\<close> stands for the uninitialised \<open>min_score\<close>, which the first round never reads.\<close>

definition find_next :: "nat \<Rightarrow> ctx \<Rightarrow> nat" where
  "find_next m0 c =
     (let cur = ChunkNo c;
          r1 = fold (pick_step cur (under_limit c) (chunk_score c)) [0..<MAX_CHUNKS c] (cur, m0)
      in if cur = fst r1
         then fst (fold (pick_step cur (\<lambda>_. True) (\<lambda>i. Used (ChunkInfo c i))) [0..<MAX_CHUNKS c] r1)
         else fst r1)"

definition FindNextChunk :: "nat \<Rightarrow> ctx \<Rightarrow> ctx" where
  "FindNextChunk m0 c =
     c\<lparr>NextChunkNo := find_next m0 c, RelocationDone := False, RelocationPrepared := False\<rparr>"

lemma pick_fold:
  assumes "fst st = cur"
  shows "let r = fold (pick_step cur ok score) [0..<n] st in
     (fst r = cur \<and> (\<forall>i < n. i \<noteq> cur \<longrightarrow> \<not> ok i)) \<or>
     (fst r \<noteq> cur \<and> fst r < n \<and> ok (fst r) \<and> snd r = score (fst r) \<and>
      (\<forall>i < n. i \<noteq> cur \<longrightarrow> ok i \<longrightarrow> score (fst r) \<le> score i))"
proof (induction n)
  case 0
  then show ?case by (simp add: assms)
next
  case (Suc n)
  then show ?case
    by (auto simp: pick_step_def Let_def less_Suc_eq)
qed

lemma find_next_spec:
  assumes "i < MAX_CHUNKS c" "i \<noteq> ChunkNo c"
  shows "find_next m0 c \<noteq> ChunkNo c \<and> find_next m0 c < MAX_CHUNKS c \<and>
    (under_limit c i \<longrightarrow> under_limit c (find_next m0 c) \<and> chunk_score c (find_next m0 c) \<le> chunk_score c i) \<and>
    (under_limit c (find_next m0 c) \<or> Used (ChunkInfo c (find_next m0 c)) \<le> Used (ChunkInfo c i))"
proof -
  let ?cur = "ChunkNo c" and ?xs = "[0..<MAX_CHUNKS c]"
  define r1 where "r1 = fold (pick_step ?cur (under_limit c) (chunk_score c)) ?xs (?cur, m0)"
  define r2 where "r2 = fold (pick_step ?cur (\<lambda>_. True) (\<lambda>i. Used (ChunkInfo c i))) ?xs r1"
  have f: "find_next m0 c = (if ?cur = fst r1 then fst r2 else fst r1)"
    by (simp add: find_next_def r1_def r2_def Let_def)
  have P1: "(fst r1 = ?cur \<and> (\<forall>i < MAX_CHUNKS c. i \<noteq> ?cur \<longrightarrow> \<not> under_limit c i)) \<or>
     (fst r1 \<noteq> ?cur \<and> fst r1 < MAX_CHUNKS c \<and> under_limit c (fst r1) \<and> snd r1 = chunk_score c (fst r1) \<and>
      (\<forall>i < MAX_CHUNKS c. i \<noteq> ?cur \<longrightarrow> under_limit c i \<longrightarrow> chunk_score c (fst r1) \<le> chunk_score c i))"
    using pick_fold [of "(?cur, m0)" ?cur "under_limit c" "chunk_score c" "MAX_CHUNKS c"]
    by (simp add: r1_def Let_def)
  show ?thesis
  proof (cases "fst r1 = ?cur")
    case True
    have P2: "(fst r2 = ?cur \<and> (\<forall>i < MAX_CHUNKS c. i = ?cur)) \<or>
      (fst r2 \<noteq> ?cur \<and> fst r2 < MAX_CHUNKS c \<and>
       (\<forall>i < MAX_CHUNKS c. i \<noteq> ?cur \<longrightarrow> Used (ChunkInfo c (fst r2)) \<le> Used (ChunkInfo c i)))"
      using pick_fold [OF True, of "\<lambda>_. True" "\<lambda>i. Used (ChunkInfo c i)" "MAX_CHUNKS c"]
      by (auto simp: r2_def Let_def)
    show ?thesis using True P1 P2 assms f by auto
  next
    case False
    then show ?thesis using P1 assms f by auto
  qed
qed

text \<open>
  The guard of \<open>InitializeLevelingCtx\<close> leaves a fifth of the medium spare. With ten chunks or
  more that is enough for the first loop: while the current chunk is new, some other chunk is
  under the limit.
\<close>

lemma used_set_disjoint: "ch \<noteq> ch' \<Longrightarrow> used_set c ch \<inter> used_set c ch' = {}"
  by (auto simp: used_set_def)

lemma sum_used_le: "(\<Sum>ch \<in> A. card (used_set c ch)) \<le> SIZE_OF_MAP c" if "finite A"
proof -
  have "(\<Sum>ch \<in> A. card (used_set c ch)) = card (\<Union>ch \<in> A. used_set c ch)"
    using that by (subst card_UN_disjoint) (auto simp: used_set_def)
  also have "\<dots> \<le> card {..<SIZE_OF_MAP c}"
    by (rule card_mono) (auto simp: used_set_def)
  finally show ?thesis by simp
qed

lemma some_under_limit:
  assumes "used_ok c" "SIZE_OF_MAP c * 10 \<le> MAX_CHUNKS c * SIZE_OF_CHUNK"
    "10 \<le> MAX_CHUNKS c" "MAX_CHUNKS c \<le> 500" "ChunkNo c < MAX_CHUNKS c" "PurgePos c \<le> SIZE_OF_CACHE"
  shows "\<exists>i < MAX_CHUNKS c. i \<noteq> ChunkNo c \<and> under_limit c i"
proof (rule ccontr)
  assume none: "\<not> ?thesis"
  let ?A = "{..<MAX_CHUNKS c} - {ChunkNo c}"
  have u: "29376 \<le> card (used_set c i)" if "i \<in> ?A" for i
  proof -
    have i: "i < MAX_CHUNKS c" "i \<noteq> ChunkNo c" using that by auto
    have le: "card (used_set c i) \<le> 13107200"
      using card_used_set_le [of c i] assms(2,4) by simp
    have s: "sub32 LAST_PURGE_POS (PurgePos c) = 0x3fe00 - PurgePos c"
      using assms(6) by simp
    have "\<not> under_limit c i" using none i by blast
    then have "wrap32 ((sub32 LAST_PURGE_POS (PurgePos c) div 8) * 90) \<le> wrap32 (card (used_set c i) * 100)"
      using i assms(1) by (simp add: under_limit_def used_ok_def)
    moreover have "32640 \<le> sub32 LAST_PURGE_POS (PurgePos c) div 8"
      unfolding s using assms(6) by simp
    moreover have "sub32 LAST_PURGE_POS (PurgePos c) div 8 \<le> 32704" unfolding s by simp
    ultimately show ?thesis using le by simp
  qed
  have "(MAX_CHUNKS c - 1) * 29376 = (\<Sum>i \<in> ?A. 29376)"
    using assms(5) by simp
  also have "\<dots> \<le> (\<Sum>i \<in> ?A. card (used_set c i))"
    by (rule sum_mono) (rule u)
  also have "\<dots> \<le> SIZE_OF_MAP c" by (rule sum_used_le) simp
  finally show False using assms(2,3) by simp
qed

lemma find_next_under_limit:
  assumes "used_ok c" "SIZE_OF_MAP c * 10 \<le> MAX_CHUNKS c * SIZE_OF_CHUNK"
    "10 \<le> MAX_CHUNKS c" "MAX_CHUNKS c \<le> 500" "ChunkNo c < MAX_CHUNKS c" "PurgePos c \<le> SIZE_OF_CACHE"
  shows "find_next m0 c < MAX_CHUNKS c \<and> find_next m0 c \<noteq> ChunkNo c \<and> under_limit c (find_next m0 c)"
  using some_under_limit [OF assms] find_next_spec [of _ c m0] by blast

end
