(* ===== verification/Requests.thy ===== *)
theory Requests
  imports Leveling
begin

text \<open>
  How the driver answers the requests of the system: \<open>SetCheckCondition\<close> of
  \<open>driver/vltl.c\<close>, \<open>CompleteNotReadyNoMedia\<close> and \<open>GetDataSystemAddress\<close> of
  \<open>driver/vgate.c\<close>, the threads of the context, and the results \<open>ScsiCallRW\<close> reports
  (\<open>REQ_SUCCESS\<close> of \<open>driver/vreq.h\<close>).
\<close>

section \<open>Threads\<close>

datatype tid = TRead nat | TOther

fun get_thread :: "ctx \<Rightarrow> tid \<Rightarrow> thread" where
  "get_thread c (TRead i) = ReadThread c i"
| "get_thread c TOther = OtherThread c"

fun set_thread :: "tid \<Rightarrow> thread \<Rightarrow> ctx \<Rightarrow> ctx" where
  "set_thread (TRead i) t c = c\<lparr>ReadThread := (ReadThread c)(i := t)\<rparr>"
| "set_thread TOther t c = c\<lparr>OtherThread := t\<rparr>"

definition upd_ctx :: "(ctx \<Rightarrow> ctx) \<Rightarrow> hs \<Rightarrow> hs" where
  "upd_ctx f h = h\<lparr>hs_Ctx := f (hs_Ctx h)\<rparr>"

definition upd_thread :: "tid \<Rightarrow> (thread \<Rightarrow> thread) \<Rightarrow> hs \<Rightarrow> hs" where
  "upd_thread t f = upd_ctx (\<lambda>c. set_thread t (f (get_thread c t)) c)"

text \<open>\<open>IoMarkIrpPending(Irp)\<close> on the thread's request.\<close>

definition IoMarkIrpPending :: "tid \<Rightarrow> hs \<Rightarrow> hs" where
  "IoMarkIrpPending t =
     upd_thread t (\<lambda>th. th\<lparr>th_Irp := map_option (\<lambda>i. i\<lparr>irp_Pending := True\<rparr>) (th_Irp th)\<rparr>)"

text \<open>
  The request is filled in by \<open>f\<close>, completed (\<open>IoCompleteRequest\<close>) and taken off the
  thread (\<open>Thread->Irp = NULL\<close>).
\<close>

definition complete_irp :: "tid \<Rightarrow> (irp \<Rightarrow> irp) \<Rightarrow> hs \<Rightarrow> hs" where
  "complete_irp t f h =
     (case th_Irp (get_thread (hs_Ctx h) t) of
        None \<Rightarrow> h
      | Some i \<Rightarrow> upd_thread t (\<lambda>th. th\<lparr>th_Irp := None\<rparr>) (h\<lparr>hs_Done := hs_Done h @ [f i]\<rparr>))"

text \<open>A request handed to \<open>ScsiCallRW\<close>.\<close>

definition issue :: "rwreq \<Rightarrow> hs \<Rightarrow> hs" where
  "issue r h = h\<lparr>hs_Issued := hs_Issued h @ [r]\<rparr>"

section \<open>Sense data\<close>

text \<open>Sense keys and additional sense codes of the SCSI standard.\<close>

definition SCSI_SENSE_NOT_READY :: nat where "SCSI_SENSE_NOT_READY = 0x02"
definition SCSI_SENSE_ILLEGAL_REQUEST :: nat where "SCSI_SENSE_ILLEGAL_REQUEST = 0x05"
definition SCSI_ADSENSE_LUN_NOT_READY :: nat where "SCSI_ADSENSE_LUN_NOT_READY = 0x04"
definition SCSI_ADSENSE_NO_MEDIA_IN_DEVICE :: nat where "SCSI_ADSENSE_NO_MEDIA_IN_DEVICE = 0x3a"
definition SCSI_ADSENSE_INVALID_CDB :: nat where "SCSI_ADSENSE_INVALID_CDB = 0x24"

definition SetCheckCondition :: "nat \<Rightarrow> nat \<Rightarrow> nat \<Rightarrow> srb \<Rightarrow> srb" where
  "SetCheckCondition SenseKey ASC ASCQ s =
     (let s1 = s\<lparr>srb_SrbStatus := SRB_STATUS_ERROR, srb_Autosense := False,
                 srb_ScsiStatus := SCSISTAT_CHECK_CONDITION, srb_DataTransferLength := 0\<rparr>
      in if 18 \<le> srb_SenseInfoBufferLength s
         then s1\<lparr>srb_SenseInfoBufferLength := 18,
                 srb_SenseInfoBuffer :=
                   (\<lambda>i. if i < 18 then 0 else srb_SenseInfoBuffer s i)
                     (0 := 0x70, 2 := SenseKey, 7 := 0x0a, 12 := ASC, 13 := ASCQ),
                 srb_Autosense := True\<rparr>
         else s1)"

definition good_srb :: "nat \<Rightarrow> srb \<Rightarrow> srb" where
  "good_srb n s = s\<lparr>srb_SrbStatus := SRB_STATUS_SUCCESS, srb_Autosense := False,
     srb_ScsiStatus := SCSISTAT_GOOD, srb_SenseInfoBufferLength := 0, srb_DataTransferLength := n\<rparr>"

definition bad_srb :: "srb \<Rightarrow> srb" where
  "bad_srb s = s\<lparr>srb_SrbStatus := SRB_STATUS_ERROR, srb_Autosense := False,
     srb_ScsiStatus := SCSISTAT_CHECK_CONDITION, srb_SenseInfoBufferLength := 0,
     srb_DataTransferLength := 0\<rparr>"

text \<open>\<open>CompleteNotReadyNoMedia\<close>: the status it returns and the request it completes.\<close>

definition not_ready :: "vmode \<Rightarrow> irp \<Rightarrow> ntstatus \<times> irp" where
  "not_ready mode i =
     (if irp_Major i = IRP_MJ_SCSI
      then let s0 = (irp_Srb i)\<lparr>srb_SrbStatus := SRB_STATUS_ERROR, srb_Autosense := False\<rparr>;
               s1 = (if srb_Function s0 = SRB_FUNCTION_EXECUTE_SCSI
                     then if mode = VLTL_MODE_RECOVERY
                          then SetCheckCondition SCSI_SENSE_NOT_READY SCSI_ADSENSE_LUN_NOT_READY 5 s0
                          else SetCheckCondition SCSI_SENSE_NOT_READY SCSI_ADSENSE_NO_MEDIA_IN_DEVICE 0 s0
                     else s0)
           in (STATUS_IO_DEVICE_ERROR,
               i\<lparr>irp_Srb := s1\<lparr>srb_DataTransferLength := 0\<rparr>, irp_Information := 0,
                 irp_Status := STATUS_IO_DEVICE_ERROR\<rparr>)
      else (STATUS_UNSUCCESSFUL, i\<lparr>irp_Information := 0, irp_Status := STATUS_UNSUCCESSFUL\<rparr>))"

text \<open>\<open>CompleteNotReadyNoMedia(DeviceObject, Thread->Irp)\<close> followed by \<open>Thread->Irp = NULL\<close>.\<close>

definition CompleteNotReadyNoMedia :: "tid \<Rightarrow> hs \<Rightarrow> ntstatus \<times> hs" where
  "CompleteNotReadyNoMedia t h =
     (case th_Irp (get_thread (hs_Ctx h) t) of
        None \<Rightarrow> (STATUS_UNSUCCESSFUL, h)
      | Some i \<Rightarrow> (fst (not_ready (hs_Mode h) i), complete_irp t (\<lambda>i. snd (not_ready (hs_Mode h) i)) h))"

text \<open>The two answers the read and write handlers give themselves.\<close>

definition complete_success :: "tid \<Rightarrow> hs \<Rightarrow> ntstatus \<times> hs" where
  "complete_success t h =
     (let n = wrap32 (th_Transferred (get_thread (hs_Ctx h) t) * 512)
      in (STATUS_SUCCESS,
          complete_irp t (\<lambda>i. i\<lparr>irp_Srb := good_srb n (irp_Srb i), irp_Information := n,
                               irp_Status := STATUS_SUCCESS\<rparr>) h))"

definition complete_no_resources :: "tid \<Rightarrow> hs \<Rightarrow> ntstatus \<times> hs" where
  "complete_no_resources t h =
     (STATUS_INSUFFICIENT_RESOURCES,
      complete_irp t (\<lambda>i. i\<lparr>irp_Information := 0, irp_Status := STATUS_INSUFFICIENT_RESOURCES\<rparr>) h)"

section \<open>The caller's buffer\<close>

definition direction_ok :: "srb \<Rightarrow> bool" where
  "direction_ok s =
     (case srb_op s of
        SCSIOP_READ \<Rightarrow> srb_DataIn s
      | SCSIOP_READ_CAPACITY \<Rightarrow> srb_DataIn s
      | SCSIOP_MODE_SENSE \<Rightarrow> srb_DataIn s
      | SCSIOP_WRITE \<Rightarrow> srb_DataOut s
      | _ \<Rightarrow> False)"

text \<open>
  The tests of \<open>GetDataSystemAddress\<close>: the request has one memory descriptor, a direction
  flag that fits its operation, and a buffer of at least \<open>Length\<close> bytes inside it.
\<close>

definition buffer_ok :: "irp \<Rightarrow> mdl option \<Rightarrow> nat \<Rightarrow> bool" where
  "buffer_ok i mo Length =
     (case mo of None \<Rightarrow> False
      | Some m \<Rightarrow>
          let s = irp_Srb i in
          \<not> mdl_Next m \<and> direction_ok s \<and> Length \<le> srb_DataTransferLength s \<and>
          mdl_VA m \<le> srb_DataBuffer s \<and>
          srb_DataBuffer s + Length \<le> mdl_VA m + mdl_ByteCount m)"

definition GetDataSystemAddress :: "nat \<Rightarrow> bool \<Rightarrow> thread \<Rightarrow> bool \<times> thread" where
  "GetDataSystemAddress Length CheckOnly th =
     (case th_Irp th of None \<Rightarrow> (False, th)
      | Some i \<Rightarrow>
          if \<not> buffer_ok i (th_Mdl th) Length then (False, th)
          else if CheckOnly then (True, th)
          else (case th_Mdl th of None \<Rightarrow> (False, th)
                | Some m \<Rightarrow>
                    (case mdl_SystemVA m of None \<Rightarrow> (False, th)
                     | Some a \<Rightarrow>
                         (True, th\<lparr>th_DataSystemAddress :=
                                     Some (a + (srb_DataBuffer (irp_Srb i) - mdl_VA m))\<rparr>))))"

section \<open>Results of a transfer\<close>

record reqres =
  res_Status :: ntstatus
  res_SrbStatus :: srb_status
  res_ScsiStatus :: scsi_status
  res_Transferred :: nat
  res_SenseTransferred :: nat
  res_SenseBuffer :: "nat \<Rightarrow> nat"

definition REQ_SUCCESS :: "reqres \<Rightarrow> bool" where
  "REQ_SUCCESS r \<longleftrightarrow> NT_SUCCESS (res_Status r) \<and>
     (res_SrbStatus r = SRB_STATUS_SUCCESS \<or> res_SrbStatus r = SRB_STATUS_DATA_OVERRUN) \<and>
     res_ScsiStatus r = SCSISTAT_GOOD"

section \<open>Marking the reading threads\<close>

text \<open>
  \<open>MarkReadingThreads\<close>: every read thread in use (\<open>FreeLink == 255\<close>) is marked once and
  counted.
\<close>

definition mark_one :: "nat \<Rightarrow> ctx \<Rightarrow> ctx" where
  "mark_one i c =
     (let t = ReadThread c i in
      if th_FreeLink t = 255
      then if \<not> th_Marked t
           then c\<lparr>ReadThread := (ReadThread c)(i := t\<lparr>th_Marked := True\<rparr>),
                  ThreadsMarked := ThreadsMarked c + 1\<rparr>
           else c
      else c)"

definition MarkReadingThreads :: "ctx \<Rightarrow> ctx" where
  "MarkReadingThreads c = fold mark_one [0..<READ_THREADS] c"

section \<open>Frame facts\<close>

text \<open>
  The tables of the context: everything that decides where a sector is. Threads, queues and
  counters are not part of it.
\<close>

definition tables_eq :: "ctx \<Rightarrow> ctx \<Rightarrow> bool" where
  "tables_eq c d \<longleftrightarrow>
     (\<exists>rt ot tm. d = c\<lparr>ReadThread := rt, OtherThread := ot, ThreadsMarked := tm\<rparr>)"

lemma tables_eqI: "d = c\<lparr>ReadThread := rt, OtherThread := ot, ThreadsMarked := tm\<rparr> \<Longrightarrow> tables_eq c d"
  by (auto simp: tables_eq_def)

lemma tables_eq_refl [simp]: "tables_eq c c"
  by (rule tables_eqI [where rt = "ReadThread c" and ot = "OtherThread c" and tm = "ThreadsMarked c"]) simp

lemma tables_eq_trans: "tables_eq c d \<Longrightarrow> tables_eq d e \<Longrightarrow> tables_eq c e"
  unfolding tables_eq_def by (elim exE) (simp, blast)

lemma tables_eq_set_thread [simp]: "tables_eq c (set_thread t th c)"
proof (cases t)
  case (TRead i)
  then show ?thesis
    by (intro tables_eqI [where rt = "(ReadThread c)(i := th)" and ot = "OtherThread c" and tm = "ThreadsMarked c"]) simp
next
  case TOther
  then show ?thesis
    by (intro tables_eqI [where rt = "ReadThread c" and ot = th and tm = "ThreadsMarked c"]) simp
qed

lemma tables_eq_mark_one: "tables_eq c (mark_one i c)"
  by (rule tables_eqI [where rt = "ReadThread (mark_one i c)" and ot = "OtherThread c" and tm = "ThreadsMarked (mark_one i c)"])
     (simp add: mark_one_def Let_def)

lemma tables_eq_fold_mark: "tables_eq c (fold mark_one xs c)"
proof (induction xs arbitrary: c)
  case (Cons x xs)
  show ?case using tables_eq_trans [OF tables_eq_mark_one Cons.IH] by simp
qed simp

lemma tables_eq_MarkReadingThreads [simp]: "tables_eq c (MarkReadingThreads c)"
  unfolding MarkReadingThreads_def by (rule tables_eq_fold_mark)

lemma hs_upd_ctx [simp]:
  "hs_Ctx (upd_ctx f h) = f (hs_Ctx h)" "hs_Mode (upd_ctx f h) = hs_Mode h"
  "hs_Issued (upd_ctx f h) = hs_Issued h" "hs_Done (upd_ctx f h) = hs_Done h"
  by (simp_all add: upd_ctx_def)

lemma hs_upd_thread [simp]:
  "hs_Mode (upd_thread t f h) = hs_Mode h" "hs_Issued (upd_thread t f h) = hs_Issued h"
  "hs_Done (upd_thread t f h) = hs_Done h"
  "hs_Ctx (upd_thread t f h) = set_thread t (f (get_thread (hs_Ctx h) t)) (hs_Ctx h)"
  by (simp_all add: upd_thread_def)

lemma hs_issue [simp]:
  "hs_Ctx (issue r h) = hs_Ctx h" "hs_Mode (issue r h) = hs_Mode h"
  "hs_Issued (issue r h) = hs_Issued h @ [r]" "hs_Done (issue r h) = hs_Done h"
  by (simp_all add: issue_def)

lemma hs_IoMarkIrpPending [simp]:
  "hs_Mode (IoMarkIrpPending t h) = hs_Mode h" "hs_Issued (IoMarkIrpPending t h) = hs_Issued h"
  "hs_Done (IoMarkIrpPending t h) = hs_Done h" "tables_eq (hs_Ctx h) (hs_Ctx (IoMarkIrpPending t h))"
  by (simp_all add: IoMarkIrpPending_def)

lemma hs_complete_irp [simp]:
  "hs_Mode (complete_irp t f h) = hs_Mode h" "hs_Issued (complete_irp t f h) = hs_Issued h"
  "tables_eq (hs_Ctx h) (hs_Ctx (complete_irp t f h))"
  by (simp_all add: complete_irp_def split: option.split)

lemma get_set_thread [simp]: "get_thread (set_thread t th c) t = th"
  by (cases t) simp_all

lemma get_set_thread_other [simp]: "t \<noteq> u \<Longrightarrow> get_thread (set_thread t th c) u = get_thread c u"
  by (cases t; cases u) simp_all

end
