(* ===== verification/Relocation.thy ===== *)
theory Relocation
  imports Tables Requests
begin

text \<open>
  \<open>driver/vrelocation.c\<close>: before the driver writes the next chunk it moves the blocks that are
  still used there into the cache, a share of them with every cache it writes.
\<close>

section \<open>Reading the directory of the next chunk\<close>

definition PrepareRelocate :: "hs \<Rightarrow> hs" where
  "PrepareRelocate h =
     issue \<lparr>rq_OPC = OpRead, rq_Buffer = BufCache, rq_Pos = 0,
            rq_PLBA = phys (NextChunkNo (hs_Ctx h)) LAST_PURGE_POS, rq_LEN = SIZE_OF_CTL,
            rq_RetryLimit = DEFAULT_RETRY, rq_Completion = PrepareRelocateCompletion\<rparr> h"

text \<open>
  \<open>sizeof(CHUNK_CTL)\<close> in words; \<open>RtlCopyMemory\<close> between the structure and the cache memory,
  128 words to a sector.
\<close>

definition CTL_WORDS :: nat where "CTL_WORDS = 8 + LAST_PURGE_POS div 8 + 4"

definition ctl_of_mem :: "mem \<Rightarrow> ctl \<Rightarrow> ctl" where
  "ctl_of_mem m old = (\<lambda>w. if w < CTL_WORDS then m (w div 128) (w mod 128) else old w)"

definition mem_of_ctl :: "ctl \<Rightarrow> mem \<Rightarrow> mem" where
  "mem_of_ctl ctl m = (\<lambda>p w. if w < 128 \<and> 128 * p + w < CTL_WORDS then ctl (128 * p + w) else m p w)"

text \<open>\<open>ChunkCtl->LBA[k]\<close>.\<close>

definition ctl_LBA :: "ctl \<Rightarrow> nat \<Rightarrow> nat" where
  "ctl_LBA ctl k = unat (ctl (8 + k))"

text \<open>The part of \<open>PrepareRelocateCompletion\<close> that runs when the directory has been read.\<close>

definition relocation_prepared :: "ctx \<Rightarrow> ctx" where
  "relocation_prepared c =
     c\<lparr>NextChunkCtl := ctl_of_mem (CacheMem c) (NextChunkCtl c),
       RelocateTarget := sub32 LAST_PURGE_POS (PurgePos c) div 8,
       RelocateSource := Used (ChunkInfo c (NextChunkNo c)),
       RelocateWindowStart := 0, RelocateWindowEnd := 0, RelocatePos := 0,
       RelocationPrepared := True\<rparr>"

section \<open>Moving blocks from the window into the cache\<close>

text \<open>\<open>put_lba\<close> enters \<open>n\<close> consecutive sectors in the cache directory, from position \<open>pos\<close>.\<close>

text \<open>\<open>PLBA\<close> of position \<open>i\<close> of the next chunk, and whether the map still places a block there.\<close>

definition next_phys :: "ctx \<Rightarrow> nat \<Rightarrow> nat" where
  "next_phys c i = phys (NextChunkNo c) i"

definition live_at :: "ctx \<Rightarrow> nat \<Rightarrow> bool" where
  "live_at c i \<longleftrightarrow>
     \<not> (SIZE_OF_MAP c \<le> blk (ctl_LBA (NextChunkCtl c) (i div 8))) \<and>
     Map c (blk (ctl_LBA (NextChunkCtl c) (i div 8))) = next_phys c i"

definition put_lba :: "(nat \<Rightarrow> nat) \<Rightarrow> nat \<Rightarrow> nat \<Rightarrow> nat \<Rightarrow> nat \<Rightarrow> nat" where
  "put_lba f pos LBA n = (\<lambda>p. if pos \<le> p \<and> p < pos + n then wrap32 (LBA + (p - pos)) else f p)"

definition relocate_block :: "ctx \<Rightarrow> ctx" where
  "relocate_block c =
     (let LBA = ctl_LBA (NextChunkCtl c) (RelocatePos c div 8) in
      c\<lparr>CacheLBA := put_lba (CacheLBA c) (CachePos c) LBA 8,
        CacheMem := copy_sectors (CacheMem c) (CachePos c) (RelocateMem c)
                      (RelocatePos c - RelocateWindowStart c) 8,
        CachePos := CachePos c + 8\<rparr>)"

text \<open>
  The loop of \<open>ExecuteRelocateCached\<close>; \<open>True\<close> stands for \<open>goto done\<close> and the normal end,
  \<open>False\<close> for \<open>goto exit\<close>.
\<close>

function reloc_loop :: "ctx \<Rightarrow> bool \<times> ctx" where
  "reloc_loop c =
     (if RelocatePos c < LAST_PURGE_POS
      then if \<not> live_at c (RelocatePos c)
           then reloc_loop (c\<lparr>RelocatePos := RelocatePos c + 8\<rparr>)
           else if CachePos c \<ge> LAST_CACHE_POS then (True, c)
           else if \<not> (RelocateWindowStart c \<le> RelocatePos c \<and> RelocatePos c < RelocateWindowEnd c)
                then (False, c)
           else reloc_loop ((relocate_block c)\<lparr>RelocatePos := RelocatePos c + 8\<rparr>)
      else (True, c))"
  by pat_completeness auto
termination
  by (relation "measure (\<lambda>c. LAST_PURGE_POS - RelocatePos c)") auto

declare reloc_loop.simps [simp del]

text \<open>The test before the loop: relocation is on schedule for the cache about to be written.\<close>

definition on_schedule :: "ctx \<Rightarrow> bool" where
  "on_schedule c \<longleftrightarrow>
     wrap32 (RelocateSource c * (sub32 (LAST_PURGE_POS - SIZE_OF_CACHE) (PurgePos c) div 8))
     \<ge> wrap32 (RelocateTarget c * sub32 (Used (ChunkInfo c (NextChunkNo c))) (CachePos c div 8))"

definition ExecuteRelocateCached :: "ctx \<Rightarrow> ctx" where
  "ExecuteRelocateCached c =
     (if on_schedule c then c\<lparr>RelocationDone := True\<rparr>
      else let (done, c') = reloc_loop c in if done then c'\<lparr>RelocationDone := True\<rparr> else c')"

section \<open>Reading a window of the next chunk\<close>

function window_loop :: "ctx \<Rightarrow> nat \<Rightarrow> nat \<Rightarrow> nat" where
  "window_loop c i wend =
     (if i < LAST_PURGE_POS \<and> i < RelocatePos c + SIZE_OF_CACHE \<and> i < wend + RELOCATION_READ_MAX_GAP
      then window_loop c (i + 8) (if live_at c i then i + 8 else wend)
      else wend)"
  by pat_completeness auto
termination
  by (relation "measure (\<lambda>(c, i, wend). LAST_PURGE_POS - i)") auto

declare window_loop.simps [simp del]

definition set_window :: "ctx \<Rightarrow> ctx" where
  "set_window c = c\<lparr>RelocateWindowStart := RelocatePos c,
     RelocateWindowEnd := window_loop c (RelocatePos c) (RelocatePos c)\<rparr>"

definition ExecuteRelocate :: "hs \<Rightarrow> hs" where
  "ExecuteRelocate h =
     (let c = set_window (hs_Ctx h) in
      issue \<lparr>rq_OPC = OpRead, rq_Buffer = BufRelocate, rq_Pos = 0,
             rq_PLBA = next_phys c (RelocateWindowStart c),
             rq_LEN = RelocateWindowEnd c - RelocateWindowStart c,
             rq_RetryLimit = DEFAULT_RETRY, rq_Completion = RelocateCompletion\<rparr>
        (h\<lparr>hs_Ctx := c\<rparr>))"

end
