(* ===== verification/Checksum.thy ===== *)
theory Checksum
  imports Prelude
begin

text \<open>
  \<open>lib/common.c\<close>: the 128-bit block checksum that guards every control block the driver
  keeps on the medium (\<open>LEVELING_CONF\<close>, \<open>CHUNK_CTL\<close>, \<open>PURGE_CTL\<close>) and the mode page it
  exchanges with the control panel. A control block is a list of 32-bit words whose last
  four are the checksum.
\<close>

unbundle bit_operations_syntax

section \<open>The mixing step\<close>

definition rotl :: "u32 \<Rightarrow> nat \<Rightarrow> u32" where
  "rotl x n = word_rotl n x"

record hash =
  hh1 :: u32
  hh2 :: u32
  hh3 :: u32
  hh4 :: u32

definition c1 :: u32 where "c1 = 0x239b961b"
definition c2 :: u32 where "c2 = 0xab0e9789"
definition c3 :: u32 where "c3 = 0x38b34ae5"
definition c4 :: u32 where "c4 = 0xa1e38b93"

text \<open>One word scrambled, and one lane of the state updated.\<close>

definition scramble :: "u32 \<Rightarrow> nat \<Rightarrow> u32 \<Rightarrow> u32 \<Rightarrow> u32" where
  "scramble ca r cb k = rotl (k * ca) r * cb"

definition lane :: "u32 \<Rightarrow> u32 \<Rightarrow> nat \<Rightarrow> u32 \<Rightarrow> u32 \<Rightarrow> u32" where
  "lane h k r nxt c = (rotl (h XOR k) r + nxt) * 5 + c"

definition mix_block :: "u32 \<Rightarrow> u32 \<Rightarrow> u32 \<Rightarrow> u32 \<Rightarrow> hash \<Rightarrow> hash" where
  "mix_block k1 k2 k3 k4 h =
     (let h1' = lane (hh1 h) (scramble c1 15 c2 k1) 19 (hh2 h) 0x561ccd1b;
          h2' = lane (hh2 h) (scramble c2 16 c3 k2) 17 (hh3 h) 0x0bcaa747;
          h3' = lane (hh3 h) (scramble c3 17 c4 k3) 15 (hh4 h) 0x96cd1c35;
          h4' = lane (hh4 h) (scramble c4 18 c1 k4) 13 h1' 0x32ac3b17
      in \<lparr>hh1 = h1', hh2 = h2', hh3 = h3', hh4 = h4'\<rparr>)"

section \<open>Producing and verifying\<close>

text \<open>
  \<open>len\<close> is the length of the buffer in bytes; the loop runs for \<open>i = 0, 4, ...\<close> while
  \<open>i < (len - 13) / 4\<close> and reads four words at a time.
\<close>

definition nblocks :: "nat \<Rightarrow> nat" where
  "nblocks len = (len - 13) div 4"

function mix_from :: "u32 list \<Rightarrow> nat \<Rightarrow> nat \<Rightarrow> hash \<Rightarrow> hash" where
  "mix_from ws n i h =
     (if i < n
      then mix_from ws n (i + 4) (mix_block (ws ! i) (ws ! (i + 1)) (ws ! (i + 2)) (ws ! (i + 3)) h)
      else h)"
  by pat_completeness auto
termination
  by (relation "measure (\<lambda>(ws, n, i, h). n - i)") auto

declare mix_from.simps [simp del]

definition hash0 :: hash where
  "hash0 = \<lparr>hh1 = 0, hh2 = 0, hh3 = 0, hh4 = 0\<rparr>"

definition set_tail :: "u32 list \<Rightarrow> hash \<Rightarrow> u32 list" where
  "set_tail ws h = take (length ws - 4) ws @ [hh1 h, hh2 h, hh3 h, hh4 h]"

definition tail4 :: "u32 list \<Rightarrow> u32 list" where
  "tail4 ws = drop (length ws - 4) ws"

definition ProduceChecksum128 :: "u32 list \<Rightarrow> u32 list" where
  "ProduceChecksum128 ws =
     (let ws0 = set_tail ws hash0
      in set_tail ws0 (mix_from ws0 (nblocks (4 * length ws)) 0 hash0))"

text \<open>
  \<open>VerifyChecksum128\<close> keeps the stored checksum, recomputes it in place and compares; it
  puts the stored one back when they differ. The buffer is returned with the verdict.
\<close>

definition VerifyChecksum128 :: "u32 list \<Rightarrow> bool \<times> u32 list" where
  "VerifyChecksum128 ws =
     (let checksum = tail4 ws; ws' = ProduceChecksum128 ws
      in if checksum = tail4 ws' then (True, ws')
         else (False, take (length ws' - 4) ws' @ checksum))"

section \<open>The mixing step loses nothing\<close>

text \<open>
  Every constant is odd, so each multiplication can be undone; rotation and exclusive or can
  be undone too. A lane is therefore one-to-one in each of its inputs.
\<close>

lemma mult_eq_iff:
  assumes "c * d = 1" shows "(x * c = y * c) = (x = (y :: u32))"
proof
  assume "x * c = y * c"
  then have "x * c * d = y * c * d" by simp
  then show "x = y" by (simp add: mult.assoc assms)
qed simp
lemma odd_mult_iff:
  "(x * c1 = y * c1) = (x = y)" 
  "(x * c2 = y * c2) = (x = y)"
  "(x * c3 = y * c3) = (x = y)"
  "(x * c4 = y * c4) = (x = y)"
  "(x * 5 = y * 5) = (x = (y::u32))"
      apply (rule mult_eq_iff [of _ "0x89c95413"], simp add: c1_def)
     apply (rule mult_eq_iff [of _ "0xdf130eb9"], simp add: c2_def)
    apply (rule mult_eq_iff [of _ "0x747862ed"], simp add: c3_def)
   apply (rule mult_eq_iff [of _ "0x58d64a9b"], simp add: c4_def)
  apply (rule mult_eq_iff [of _ "0xcccccccd"], simp)
  done

lemma rotl_iff: "(rotl x r = rotl y r) = (x = y)"
  unfolding rotl_def by (metis word_rot_lr)

lemma scramble_iff [simp]:
  "(scramble c1 r c2 x = scramble c1 r c2 y) = (x = y)"
  "(scramble c2 r c3 x = scramble c2 r c3 y) = (x = y)"
  "(scramble c3 r c4 x = scramble c3 r c4 y) = (x = y)"
  "(scramble c4 r c1 x = scramble c4 r c1 y) = (x = y)"
  by (simp_all add: scramble_def odd_mult_iff rotl_iff)

lemma xor_left_iff: "(x XOR k = y XOR k) = (x = (y::u32))"
  by (metis xor.assoc xor.right_neutral xor_self_eq)
lemma xor_right_iff: "(h XOR x = h XOR y) = (x = (y::u32))"
  by (metis xor_left_iff xor.commute)

lemma lane_iff [simp]:
  "(lane h k r nxt c = lane h k' r nxt c) = (k = k')"
  "(lane h k r nxt c = lane h' k r nxt c) = (h = h')"
  "(lane h k r nxt c = lane h k r nxt' c) = (nxt = nxt')"
  by (simp_all add: lane_def odd_mult_iff rotl_iff xor_left_iff xor_right_iff)

lemma mix_block_inj_words:
  "mix_block k1 k2 k3 k4 h = mix_block l1 l2 l3 l4 h \<Longrightarrow> k1 = l1 \<and> k2 = l2 \<and> k3 = l3 \<and> k4 = l4"
  by (auto simp: mix_block_def Let_def)

lemma mix_block_inj_state:
  assumes "mix_block k1 k2 k3 k4 h = mix_block k1 k2 k3 k4 h'" shows "h = h'"
proof -
  have "hh4 h = hh4 h'" using assms by (auto simp: mix_block_def Let_def)
  moreover from this have "hh3 h = hh3 h'" using assms by (simp add: mix_block_def Let_def)
  moreover from this have "hh2 h = hh2 h'" using assms by (simp add: mix_block_def Let_def)
  moreover from this have "hh1 h = hh1 h'" using assms by (simp add: mix_block_def Let_def)
  ultimately show ?thesis by (cases h, cases h') simp
qed

text \<open>The loop, with equal words from \<open>i\<close> on: the state can be run backwards.\<close>

lemma mix_from_inj_state:
  assumes "\<forall>k. i \<le> k \<longrightarrow> ws ! k = ws' ! k"
  shows "mix_from ws n i h = mix_from ws' n i h' \<Longrightarrow> h = h'"
  using assms
proof (induction ws n i h arbitrary: h' rule: mix_from.induct)
  case (1 ws n i h)
  show ?case
  proof (cases "i < n")
    case True
    have eq: "ws ! i = ws' ! i" "ws ! (i+1) = ws' ! (i+1)" "ws ! (i+2) = ws' ! (i+2)" "ws ! (i+3) = ws' ! (i+3)"
      using "1.prems"(2) by simp_all
    have "mix_from ws n (i + 4) (mix_block (ws ! i) (ws ! (i+1)) (ws ! (i+2)) (ws ! (i+3)) h)
        = mix_from ws' n (i + 4) (mix_block (ws ! i) (ws ! (i+1)) (ws ! (i+2)) (ws ! (i+3)) h')"
      using "1.prems"(1) True eq by (simp add: mix_from.simps [of _ _ i])
    from "1.IH" [OF True this] "1.prems"(2)
    have "mix_block (ws ! i) (ws ! (i+1)) (ws ! (i+2)) (ws ! (i+3)) h
        = mix_block (ws ! i) (ws ! (i+1)) (ws ! (i+2)) (ws ! (i+3)) h'" by simp
    then show ?thesis by (rule mix_block_inj_state)
  next
    case False
    with "1.prems"(1) show ?thesis by (simp add: mix_from.simps [of _ _ i])
  qed
qed

text \<open>The words the loop reads lie in one block more than differs.\<close>

lemma mix_from_burst:
  assumes "\<forall>k. k div 4 \<noteq> b \<longrightarrow> ws ! k = ws' ! k"
  shows "mix_from ws n i h = mix_from ws' n i h \<Longrightarrow> i mod 4 = 0 \<Longrightarrow> i \<le> 4 * b \<Longrightarrow> 4 * b < n
    \<Longrightarrow> \<forall>k. k div 4 = b \<longrightarrow> ws ! k = ws' ! k"
  using assms
proof (induction ws n i h rule: mix_from.induct)
  case (1 ws n i h)
  have i: "i < n" using "1.prems"(3,4) by simp
  show ?case
  proof (cases "i = 4 * b")
    case True
    have rest: "\<forall>k. i + 4 \<le> k \<longrightarrow> ws ! k = ws' ! k"
    proof (intro allI impI)
      fix k assume "i + 4 \<le> k"
      with True have "k div 4 \<noteq> b" by simp
      with "1.prems"(5) show "ws ! k = ws' ! k" by blast
    qed
    have "mix_from ws n (i + 4) (mix_block (ws ! i) (ws ! (i+1)) (ws ! (i+2)) (ws ! (i+3)) h)
        = mix_from ws' n (i + 4) (mix_block (ws' ! i) (ws' ! (i+1)) (ws' ! (i+2)) (ws' ! (i+3)) h)"
      using "1.prems"(1) i by (simp add: mix_from.simps [of _ _ i])
    from mix_block_inj_words [OF mix_from_inj_state [OF rest this]]
    have eq: "ws ! i = ws' ! i" "ws ! (i+1) = ws' ! (i+1)" "ws ! (i+2) = ws' ! (i+2)" "ws ! (i+3) = ws' ! (i+3)"
      by auto
    show ?thesis
    proof (intro allI impI)
      fix k assume "k div 4 = b"
      then have "k = i \<or> k = i + 1 \<or> k = i + 2 \<or> k = i + 3" using True by auto
      with eq show "ws ! k = ws' ! k" by auto
    qed
  next
    case False
    with "1.prems"(2,3) have le: "i + 4 \<le> 4 * b" and m: "(i + 4) mod 4 = 0" by presburger+
    have "i div 4 \<noteq> b" "(i+1) div 4 \<noteq> b" "(i+2) div 4 \<noteq> b" "(i+3) div 4 \<noteq> b"
      using le by auto
    then have eq: "ws ! i = ws' ! i" "ws ! (i+1) = ws' ! (i+1)" "ws ! (i+2) = ws' ! (i+2)" "ws ! (i+3) = ws' ! (i+3)"
      using "1.prems"(5) by auto
    have "mix_from ws n (i + 4) (mix_block (ws ! i) (ws ! (i+1)) (ws ! (i+2)) (ws ! (i+3)) h)
        = mix_from ws' n (i + 4) (mix_block (ws ! i) (ws ! (i+1)) (ws ! (i+2)) (ws ! (i+3)) h)"
      using "1.prems"(1) i eq by (simp add: mix_from.simps [of _ _ i])
    from "1.IH" [OF i this m le "1.prems"(4,5)] show ?thesis .
  qed
qed

section \<open>The control block around the loop\<close>

lemma length_set_tail [simp]: "4 \<le> length ws \<Longrightarrow> length (set_tail ws h) = length ws"
  by (simp add: set_tail_def)

lemma nth_set_tail: "k < length ws - 4 \<Longrightarrow> set_tail ws h ! k = ws ! k"
  by (simp add: set_tail_def nth_append)

lemma set_tail_twice [simp]: "4 \<le> length ws \<Longrightarrow> set_tail (set_tail ws h) h' = set_tail ws h'"
  by (simp add: set_tail_def)

lemma tail4_set_tail [simp]: "4 \<le> length ws \<Longrightarrow> tail4 (set_tail ws h) = [hh1 h, hh2 h, hh3 h, hh4 h]"
  by (simp add: tail4_def set_tail_def)

lemma take_set_tail [simp]:
  "4 \<le> length ws \<Longrightarrow> take (length ws - 4) (set_tail ws h) = take (length ws - 4) ws"
  by (simp add: set_tail_def)

lemma body_tail: "4 \<le> length ws \<Longrightarrow> take (length ws - 4) ws @ tail4 ws = ws"
  by (simp add: tail4_def)

definition checksum_of :: "u32 list \<Rightarrow> hash" where
  "checksum_of ws = mix_from (set_tail ws hash0) (nblocks (4 * length ws)) 0 hash0"

lemma Produce_eq: "4 \<le> length ws \<Longrightarrow> ProduceChecksum128 ws = set_tail ws (checksum_of ws)"
  by (simp add: ProduceChecksum128_def checksum_of_def Let_def)

lemma checksum_of_set_tail [simp]: "4 \<le> length ws \<Longrightarrow> checksum_of (set_tail ws h) = checksum_of ws"
  by (simp add: checksum_of_def)

lemma length_Produce [simp]: "4 \<le> length ws \<Longrightarrow> length (ProduceChecksum128 ws) = length ws"
  by (simp add: Produce_eq)

lemma Produce_body [simp]:
  "4 \<le> length ws \<Longrightarrow> take (length ws - 4) (ProduceChecksum128 ws) = take (length ws - 4) ws"
  by (simp add: Produce_eq)

lemma Verify_iff: "4 \<le> length ws \<Longrightarrow> fst (VerifyChecksum128 ws) \<longleftrightarrow> ProduceChecksum128 ws = ws"
proof -
  assume len: "4 \<le> length ws"
  have "tail4 ws = tail4 (ProduceChecksum128 ws) \<longleftrightarrow> ProduceChecksum128 ws = ws"
    using body_tail [OF len] body_tail [of "ProduceChecksum128 ws"] len
    by (metis Produce_body length_Produce)
  then show ?thesis by (simp add: VerifyChecksum128_def Let_def)
qed

lemma Verify_buffer: "4 \<le> length ws \<Longrightarrow> snd (VerifyChecksum128 ws) = ws"
  using Verify_iff [of ws] body_tail [of ws] by (auto simp: VerifyChecksum128_def Let_def)

lemma Verify_Produce:
  "4 \<le> length ws \<Longrightarrow> VerifyChecksum128 (ProduceChecksum128 ws) = (True, ProduceChecksum128 ws)"
  by (rule prod_eqI) (simp_all add: Verify_iff Verify_buffer, simp add: Produce_eq)

lemma nblocks_words: "4 \<le> n \<Longrightarrow> nblocks (4 * n) = n - 4"
  by (simp add: nblocks_def)

lemma nth_beyond:
  "length xs = length ys \<Longrightarrow> length xs \<le> k \<Longrightarrow> xs ! k = ys ! k"
  by (induction xs ys arbitrary: k rule: list_induct2) (auto simp: nth_Cons split: nat.split)

lemma burst_words:
  assumes len: "4 \<le> length ws" "length ws' = length ws"
    and same: "\<forall>k < length ws. k div 4 \<noteq> b \<longrightarrow> ws ! k = ws' ! k"
    and tail: "tail4 ws = tail4 ws'"
    and chk: "checksum_of ws = checksum_of ws'"
  shows "ws = ws'"
proof (cases "4 * b < length ws - 4")
  case True
  let ?u = "set_tail ws hash0" and ?u' = "set_tail ws' hash0"
  have out: "?u ! k = ?u' ! k" if k: "k div 4 \<noteq> b \<or> length ws - 4 \<le> k" for k
  proof -
    consider "length ws \<le> k" | "length ws - 4 \<le> k" "k < length ws" | "k < length ws - 4" by linarith
    then show ?thesis
    proof cases
      case 1 then show ?thesis using len by (intro nth_beyond) simp_all
    next
      case 2 then show ?thesis using len by (simp add: set_tail_def nth_append)
    next
      case 3 then show ?thesis using len k same by (simp add: nth_set_tail)
    qed
  qed
  have "\<forall>k. k div 4 = b \<longrightarrow> ?u ! k = ?u' ! k"
    using mix_from_burst [of b ?u ?u' "length ws - 4" 0 hash0] out chk True len
    by (simp add: checksum_of_def nblocks_words)
  then have "ws ! k = ws' ! k" if "k < length ws - 4" for k
    using out [of k] that len nth_set_tail [of k ws hash0] nth_set_tail [of k ws' hash0] by metis
  then have "take (length ws - 4) ws = take (length ws - 4) ws'"
    using len by (intro nth_equalityI) simp_all
  with tail show ?thesis using body_tail [of ws] body_tail [of ws'] len by metis
next
  case False
  then have "take (length ws - 4) ws = take (length ws - 4) ws'"
    using len same by (intro nth_equalityI) auto
  with tail show ?thesis using body_tail [of ws] body_tail [of ws'] len by metis
qed

section \<open>Sealed blocks\<close>

text \<open>
  What the users of a control block rely on: sealing a block and checking a block fit
  together, and a seal depends on the body only.
\<close>

locale sealed_block =
  fixes seal :: "'b \<Rightarrow> 'b"
    and check :: "'b \<Rightarrow> bool"
    and body :: "'b \<Rightarrow> 'a"
    and ok :: "'b \<Rightarrow> bool"
  assumes seal_ok: "ok b \<Longrightarrow> ok (seal b)"
    and check_iff: "ok b \<Longrightarrow> check b \<longleftrightarrow> seal b = b"
    and body_seal: "ok b \<Longrightarrow> body (seal b) = body b"
    and seal_cong: "ok b \<Longrightarrow> ok b' \<Longrightarrow> body b = body b' \<Longrightarrow> seal b = seal b'"
begin

lemma seal_idem: "ok b \<Longrightarrow> seal (seal b) = seal b"
  using seal_cong [of "seal b" b] seal_ok [of b] body_seal [of b] by simp

lemma check_seal: "ok b \<Longrightarrow> check (seal b)"
  using check_iff [of "seal b"] seal_ok [of b] seal_idem [of b] by simp

lemma accepted_unique: "ok b \<Longrightarrow> ok b' \<Longrightarrow> check b \<Longrightarrow> check b' \<Longrightarrow> body b = body b' \<Longrightarrow> b = b'"
  using seal_cong [of b b'] check_iff [of b] check_iff [of b'] by simp

end

lemma set_tail_cong:
  assumes "4 \<le> length b" "4 \<le> length b'" "take (length b - 4) b = take (length b' - 4) b'"
  shows "set_tail b h = set_tail b' h" "length b = length b'"
proof -
  have "length (take (length b - 4) b) = length (take (length b' - 4) b')" using assms(3) by simp
  then show "length b = length b'" using assms(1,2) by simp
  then show "set_tail b h = set_tail b' h" using assms(3) by (simp add: set_tail_def)
qed

interpretation ck: sealed_block ProduceChecksum128 "\<lambda>ws. fst (VerifyChecksum128 ws)"
  "\<lambda>ws. take (length ws - 4) ws" "\<lambda>ws. 4 \<le> length ws"
proof unfold_locales
  fix b b' :: "u32 list"
  assume l: "4 \<le> length b" "4 \<le> length b'" and t: "take (length b - 4) b = take (length b' - 4) b'"
  have "checksum_of b = checksum_of b'"
    using set_tail_cong(1) [OF l t, of hash0] set_tail_cong(2) [OF l t] by (simp add: checksum_of_def)
  then show "ProduceChecksum128 b = ProduceChecksum128 b'"
    using set_tail_cong [OF l t] l by (simp add: Produce_eq)
qed (simp_all add: Verify_iff)

section \<open>Properties\<close>

text \<open>
  C18. A block that has been sealed is accepted: \<open>VerifyChecksum128\<close> says yes to what
  \<open>ProduceChecksum128\<close> leaves, returns it unchanged, and sealing has changed nothing but the
  last four words.
\<close>

theorem checksum_roundtrip:
  assumes "4 \<le> length ws"
  shows "VerifyChecksum128 (ProduceChecksum128 ws) = (True, ProduceChecksum128 ws) \<and>
    take (length ws - 4) (ProduceChecksum128 ws) = take (length ws - 4) ws \<and>
    length (ProduceChecksum128 ws) = length ws"
  using ck.check_seal [OF assms] Verify_buffer [of "ProduceChecksum128 ws"] assms
  by (simp_all add: prod_eq_iff)

theorem checksum_roundtrip_witness:
  "VerifyChecksum128 (ProduceChecksum128 [1, 2, 3, 4, 5, 6]) = (True, ProduceChecksum128 [1, 2, 3, 4, 5, 6])"
  using checksum_roundtrip [of "[1, 2, 3, 4, 5, 6]"] by simp

text \<open>
  Checking a block leaves it as it was, whatever the verdict, although the checksum is
  recomputed in place; and it accepts exactly the blocks that sealing would not change.
\<close>

theorem verify_pure:
  assumes "4 \<le> length ws"
  shows "VerifyChecksum128 ws = (ProduceChecksum128 ws = ws, ws)"
  using Verify_buffer [OF assms] ck.check_iff [OF assms] by (simp add: prod_eq_iff)

theorem verify_pure_witness:
  "VerifyChecksum128 [1, 2, 3, 4, 5] = (ProduceChecksum128 [1, 2, 3, 4, 5] = [1, 2, 3, 4, 5], [1, 2, 3, 4, 5])"
  using verify_pure [of "[1, 2, 3, 4, 5]"] by simp

text \<open>
  C23. Damage confined to one aligned group of four words is always detected: no two accepted
  blocks with the same stored checksum differ in such a group only.
\<close>

theorem checksum_detects_burst:
  assumes "fst (VerifyChecksum128 ws)" "4 \<le> length ws" "length ws' = length ws"
    and "\<forall>k < length ws. k div 4 \<noteq> b \<longrightarrow> ws ! k = ws' ! k"
    and "tail4 ws = tail4 ws'" "ws \<noteq> ws'"
  shows "\<not> fst (VerifyChecksum128 ws')"
proof
  assume v: "fst (VerifyChecksum128 ws')"
  have "set_tail ws (checksum_of ws) = ws" "set_tail ws' (checksum_of ws') = ws'"
    using assms(1-3) v by (simp_all add: Verify_iff Produce_eq)
  then have "[hh1 (checksum_of ws), hh2 (checksum_of ws), hh3 (checksum_of ws), hh4 (checksum_of ws)] =
      [hh1 (checksum_of ws'), hh2 (checksum_of ws'), hh3 (checksum_of ws'), hh4 (checksum_of ws')]"
    using assms(2,3,5) tail4_set_tail by metis
  then have "checksum_of ws = checksum_of ws'" by simp
  with burst_words [OF assms(2,3,4,5)] assms(6) show False by blast
qed

theorem checksum_detects_burst_witness:
  "\<not> fst (VerifyChecksum128 ((ProduceChecksum128 [1, 2, 3, 4, 5, 6, 7, 8])[1 := 99]))"
proof -
  let ?w = "ProduceChecksum128 [1, 2, 3, 4, 5, 6, 7, 8]"
  have w: "?w = [1, 2, 3, 4] @ tail4 ?w"
    using body_tail [of ?w] Produce_body [of "[1, 2, 3, 4, 5, 6, 7, 8]"] by (simp del: Produce_body)
  have l: "length (tail4 ?w) = 4" by (simp add: tail4_def)
  have n: "?w ! 1 = 2" by (subst w) simp
  have t: "tail4 (?w[1 := 99]) = tail4 ?w" by (simp add: tail4_def drop_update_cancel)
  have d: "?w \<noteq> ?w[1 := 99]"
  proof
    assume "?w = ?w[1 := 99]"
    then have "?w ! 1 = ?w[1 := 99] ! 1" by simp
    then show False using n by simp
  qed
  have f: "fst (VerifyChecksum128 ?w)" using ck.check_seal [of "[1, 2, 3, 4, 5, 6, 7, 8]"] by simp
  show ?thesis
    by (rule checksum_detects_burst [OF f, of _ 0]) (use t d in \<open>auto simp: nth_list_update\<close>)
qed

end
