(* ===== verification/Vscsi.thy ===== *)
theory Vscsi
  imports Relocation Checksum
begin

text \<open>
  The read and write handlers of \<open>driver/vscsi.c\<close>, the routines that write the cache and the
  directory of a chunk to the medium, and the flush handler of \<open>driver/vflush.c\<close>. A handler
  runs until it has completed its request or has handed one to \<open>ScsiCallRW\<close>; it then
  returns \<open>STATUS_PENDING\<close>, and the completion routine of that transfer runs it again. A
  handler does nothing after it has issued a transfer, so it makes no difference whether the
  transfer completes inside the call or later.
\<close>

section \<open>Filling the cache\<close>

definition CacheFillReadZero :: "nat \<Rightarrow> nat \<Rightarrow> ctx \<Rightarrow> ctx" where
  "CacheFillReadZero LBA LEN c =
     c\<lparr>CacheLBA := put_lba (CacheLBA c) (CachePos c) LBA LEN,
       CacheMem := zero_sectors (CacheMem c) (CachePos c) LEN,
       CachePos := CachePos c + LEN\<rparr>"

definition ExecuteCacheFillRead :: "nat \<Rightarrow> nat \<Rightarrow> hs \<Rightarrow> hs" where
  "ExecuteCacheFillRead LBA LEN h =
     (let c = hs_Ctx h in
      issue \<lparr>rq_OPC = OpRead, rq_Buffer = BufCache, rq_Pos = CachePos c,
             rq_PLBA = wrap32 (Map c (blk LBA) + off8 LBA), rq_LEN = LEN,
             rq_RetryLimit = DEFAULT_RETRY, rq_Completion = CacheFillReadCompletion\<rparr>
        (upd_ctx (\<lambda>c. c\<lparr>CacheLBA := put_lba (CacheLBA c) (CachePos c) LBA LEN\<rparr>) h))"

section \<open>Writing the cache\<close>

text \<open>
  \<open>PURGE_CTL\<close> lies in the last used sector of the cache memory: \<open>Version\<close>, \<open>CCN\<close>, \<open>SCN\<close>,
  \<open>ChunkNo\<close>, \<open>PurgePos\<close> in words 0 to 4, \<open>LBA[64]\<close> from word 5, padding from 69, \<open>Magic\<close> in 72
  and the checksum in 73 to 76. Words the code does not assign keep what the memory held.
\<close>

definition PURGE_WORDS :: nat where "PURGE_WORDS = 77"

definition purge_lba :: "ctx \<Rightarrow> nat \<Rightarrow> nat" where
  "purge_lba c k = (if CachePos c \<le> 8 * k then NOT_MAPPED else CacheLBA c (8 * k))"

definition purge_ctl_word :: "ctx \<Rightarrow> nat \<Rightarrow> u32" where
  "purge_ctl_word c w =
     (if w = 0 then of_nat LEVELING_VERSION
      else if w = 1 then of_nat (CCN c)
      else if w = 2 then of_nat (SCN (ChunkInfo c (ChunkNo c)))
      else if w = 3 then of_nat (ChunkNo c)
      else if w = 4 then of_nat (PurgePos c)
      else if w < 69 then of_nat (purge_lba c (w - 5))
      else if w = 72 then of_nat (Magic c)
      else CacheMem c LAST_CACHE_POS w)"

definition purge_sector :: "ctx \<Rightarrow> sector" where
  "purge_sector c =
     (let sealed = ProduceChecksum128 (map (purge_ctl_word c) [0..<PURGE_WORDS])
      in (\<lambda>w. if w < PURGE_WORDS then sealed ! w else CacheMem c LAST_CACHE_POS w))"

definition purge_chunk_ctl :: "ctx \<Rightarrow> ctl" where
  "purge_chunk_ctl c =
     (\<lambda>w. if 8 + PurgePos c div 8 \<le> w \<and> w < 8 + PurgePos c div 8 + SIZE_OF_CACHE div 8
          then of_nat (purge_lba c (w - (8 + PurgePos c div 8))) else ChunkCtl c w)"

definition stop_timer :: "ctx \<Rightarrow> ctx" where
  "stop_timer c =
     (if TimerActive c
      then let (was_set, c') = KeCancelTimer c in if was_set then c'\<lparr>TimerActive := False\<rparr> else c'
      else c)"

definition purge_image :: "ctx \<Rightarrow> ctx" where
  "purge_image c =
     (let c1 = stop_timer c in
      c1\<lparr>CacheMem := (CacheMem c1)(LAST_CACHE_POS := purge_sector c1),
         ChunkCtl := purge_chunk_ctl c1\<rparr>)"

definition ExecutePurgeCache :: "hs \<Rightarrow> hs" where
  "ExecutePurgeCache h =
     (let h1 = upd_ctx purge_image h; c = hs_Ctx h1 in
      issue \<lparr>rq_OPC = OpWrite, rq_Buffer = BufCache, rq_Pos = 0,
             rq_PLBA = phys (ChunkNo c) (PurgePos c), rq_LEN = SIZE_OF_CACHE,
             rq_RetryLimit = DEFAULT_RETRY, rq_Completion = PurgeCacheCompletion\<rparr> h1)"

text \<open>\<open>PurgeCtl->LBA[k]\<close> as \<open>PurgeCacheCompletion\<close> reads it back from the cache memory.\<close>

definition purge_ctl_LBA :: "ctx \<Rightarrow> nat \<Rightarrow> nat" where
  "purge_ctl_LBA c k = unat (CacheMem c LAST_CACHE_POS (5 + k))"

definition cache_purged :: "ctx \<Rightarrow> ctx" where
  "cache_purged c =
     (let c1 = UpdateMap c (purge_ctl_LBA c) (CachePos c) (phys (ChunkNo c) (PurgePos c)) in
      c1\<lparr>CachePos := 0, PurgePos := PurgePos c1 + SIZE_OF_CACHE, RelocationDone := False,
         CacheDirty := False\<rparr>)"

section \<open>Writing the directory of a chunk\<close>

definition chunk_start :: "nat \<Rightarrow> nat" where
  "chunk_start ch = (if 0 = ch then SIZE_OF_CACHE else 0)"

definition chunk_ctl_word :: "ctx \<Rightarrow> nat \<Rightarrow> u32" where
  "chunk_ctl_word c w =
     (if w = 0 then of_nat LEVELING_VERSION
      else if w = 1 then of_nat (CCN c)
      else if w = 2 then of_nat (SCN (ChunkInfo c (ChunkNo c)))
      else if w = 3 then of_nat (WCN (ChunkInfo c (ChunkNo c)))
      else if w = 4 then of_nat (NextChunkNo c)
      else if w = 5 then of_nat (WCN (ChunkInfo c (NextChunkNo c)))
      else if w = 6 then of_nat (chunk_start (ChunkNo c))
      else if w = 7 then of_nat (PurgePos c)
      else ChunkCtl c w)"

definition seal_ctl :: "ctl \<Rightarrow> ctl" where
  "seal_ctl ctl =
     (let sealed = ProduceChecksum128 (map ctl [0..<CTL_WORDS])
      in (\<lambda>w. if w < CTL_WORDS then sealed ! w else ctl w))"

definition bump_wcn :: "ctx \<Rightarrow> ctx" where
  "bump_wcn c =
     c\<lparr>ChunkInfo := (ChunkInfo c)
         (ChunkNo c := (ChunkInfo c (ChunkNo c))
            \<lparr>WCN := wrap32 (WCN (ChunkInfo c (ChunkNo c)) + 1)\<rparr>)\<rparr>"

definition chunk_image :: "ctx \<Rightarrow> ctx" where
  "chunk_image c =
     (let c1 = bump_wcn c; ctl = seal_ctl (chunk_ctl_word c1)
      in c1\<lparr>ChunkCtl := ctl, CacheMem := mem_of_ctl ctl (CacheMem c1)\<rparr>)"

definition ExecutePurgeChunk :: "hs \<Rightarrow> hs" where
  "ExecutePurgeChunk h =
     (let h1 = upd_ctx chunk_image h; c = hs_Ctx h1 in
      issue \<lparr>rq_OPC = OpWrite, rq_Buffer = BufCache, rq_Pos = 0,
             rq_PLBA = phys (ChunkNo c) LAST_PURGE_POS, rq_LEN = SIZE_OF_CACHE,
             rq_RetryLimit = DEFAULT_RETRY, rq_Completion = PurgeChunkCompletion\<rparr> h1)"

section \<open>The write handler\<close>

text \<open>
  The loop body is a function of its own: \<open>Inl\<close> leaves the handler with a status, \<open>Inr\<close> is
  \<open>goto loop\<close>. \<open>next_chunk\<close> is the switch to the chunk that has been emptied.
\<close>

type_synonym outcome = "(ntstatus \<times> hs) + hs"

definition next_chunk :: "ctx \<Rightarrow> ctx" where
  "next_chunk c =
     (let n = NextChunkNo c; pos = chunk_start n in
      FindNextChunk 0
        (c\<lparr>ChunkInfo := (ChunkInfo c)
             (n := (ChunkInfo c n)\<lparr>SCN := wrap32 (SCN (ChunkInfo c (ChunkNo c)) + 1)\<rparr>),
           ChunkNo := n, PurgePos := pos, FinalizedPos := pos\<rparr>))"

definition write_relocate :: "hs \<Rightarrow> outcome" where
  "write_relocate h =
     (if \<not> RelocationPrepared (hs_Ctx h)
      then Inl (STATUS_PENDING, PrepareRelocate (IoMarkIrpPending TOther h))
      else if \<not> RelocationDone (hs_Ctx h)
      then let h1 = upd_ctx ExecuteRelocateCached h in
        if \<not> RelocationDone (hs_Ctx h1)
        then Inl (STATUS_PENDING, ExecuteRelocate (IoMarkIrpPending TOther h1))
        else Inr h1
      else Inr h)"

definition write_prepare :: "hs \<Rightarrow> outcome" where
  "write_prepare h =
     (if LAST_PURGE_POS \<le> PurgePos (hs_Ctx h)
      then if FinalizedPos (hs_Ctx h) < LAST_PURGE_POS
        then Inl (STATUS_PENDING,
               ExecutePurgeChunk (IoMarkIrpPending TOther (upd_ctx MarkReadingThreads h)))
        else write_relocate (upd_ctx next_chunk h)
      else write_relocate h)"

definition advance :: "nat \<Rightarrow> hs \<Rightarrow> hs" where
  "advance len = upd_thread TOther (\<lambda>t. t\<lparr>th_Transferred := th_Transferred t + len\<rparr>)"

definition cache_hit_len :: "ctx \<Rightarrow> nat \<Rightarrow> nat \<Rightarrow> nat \<Rightarrow> nat" where
  "cache_hit_len c pos LBA LEN =
     for_len (\<lambda>len. pos + len < CachePos c \<and> CacheLBA c (pos + len) = wrap32 (LBA + len)) LEN 1"

definition write_hit :: "nat \<Rightarrow> nat \<Rightarrow> nat \<Rightarrow> hs \<Rightarrow> hs" where
  "write_hit pos LBA LEN h =
     (let c = hs_Ctx h; t = OtherThread c; len = cache_hit_len c pos LBA LEN in
      advance len
        (upd_ctx (\<lambda>c. c\<lparr>CacheMem := copy_sectors (CacheMem c) pos (th_Data t) (th_Transferred t) len\<rparr>) h))"

definition cache_write_len :: "ctx \<Rightarrow> nat \<Rightarrow> nat \<Rightarrow> nat" where
  "cache_write_len c LBA LEN =
     for_len (\<lambda>len. CachePos c + len < LAST_CACHE_POS \<and>
        (off8 (wrap32 (LBA + len)) \<noteq> 0 \<or> GetCachedPos c (wrap32 (LBA + len)) = NOT_MAPPED)) LEN 1"

definition cache_write :: "nat \<Rightarrow> nat \<Rightarrow> hs \<Rightarrow> hs" where
  "cache_write LBA LEN h =
     (let c = hs_Ctx h; t = OtherThread c; pos = CachePos c; len = cache_write_len c LBA LEN in
      advance len
        (upd_ctx (\<lambda>c. c\<lparr>CacheLBA := put_lba (CacheLBA c) pos LBA len,
                        CacheMem := copy_sectors (CacheMem c) pos (th_Data t) (th_Transferred t) len,
                        CachePos := pos + len, CacheDirty := True\<rparr>) h))"

definition cache_fill_read :: "nat \<Rightarrow> nat \<Rightarrow> hs \<Rightarrow> outcome" where
  "cache_fill_read LBA len h =
     (if Map (hs_Ctx h) (blk LBA) \<noteq> NOT_MAPPED
      then Inl (STATUS_PENDING, ExecuteCacheFillRead LBA len (IoMarkIrpPending TOther h))
      else Inr (upd_ctx (CacheFillReadZero LBA len) h))"

definition write_data :: "nat \<Rightarrow> nat \<Rightarrow> hs \<Rightarrow> outcome" where
  "write_data LBA LEN h =
     (let c = hs_Ctx h; hit = GetCachedPos c LBA; pos = CachePos c in
      if hit \<noteq> NOT_MAPPED then Inr (write_hit hit LBA LEN h)
      else if LAST_CACHE_POS \<le> pos
        then Inl (STATUS_PENDING, ExecutePurgeCache (IoMarkIrpPending TOther h))
      else if off8 pos \<noteq> 0
        then let NextLBA = wrap32 (CacheLBA c (pos - 1) + 1) in
          if NextLBA = LBA then Inr (cache_write LBA LEN h)
          else cache_fill_read NextLBA (8 - off8 pos) h
      else if off8 LBA \<noteq> 0
        then cache_fill_read (base8 LBA)
               (if base8 LBA = base8 (wrap32 (LBA + LEN)) then 8 else off8 LBA) h
      else Inr (cache_write LBA LEN h))"

definition write_iter :: "hs \<Rightarrow> outcome" where
  "write_iter h =
     (if hs_Mode h \<noteq> VLTL_MODE_ACTIVE then Inl (CompleteNotReadyNoMedia TOther h)
      else let t = OtherThread (hs_Ctx h);
               LBA = wrap32 (th_LBA t + th_Transferred t);
               LEN = th_LEN t - th_Transferred t in
        if LEN = 0 then Inl (complete_success TOther h)
        else (case write_prepare h of Inl r \<Rightarrow> Inl r | Inr h1 \<Rightarrow> write_data LBA LEN h1))"

lemma cache_hit_len_bounds:
  "1 \<le> cache_hit_len c pos LBA LEN" "0 < LEN \<Longrightarrow> cache_hit_len c pos LBA LEN \<le> LEN"
  unfolding cache_hit_len_def using for_len_ge [of 1] for_len_le [of 1 LEN] by auto

lemma cache_write_len_bounds:
  "1 \<le> cache_write_len c LBA LEN" "0 < LEN \<Longrightarrow> cache_write_len c LBA LEN \<le> LEN"
  unfolding cache_write_len_def using for_len_ge [of 1] for_len_le [of 1 LEN] by auto

lemma relocate_block_frame [simp]:
  "OtherThread (relocate_block c) = OtherThread c" "CachePos (relocate_block c) = CachePos c + 8"
  "RelocatePos (relocate_block c) = RelocatePos c"
  by (simp_all add: relocate_block_def Let_def)

lemma reloc_loop_thread: "OtherThread (snd (reloc_loop c)) = OtherThread c \<and> CachePos c \<le> CachePos (snd (reloc_loop c))"
proof (induction c rule: reloc_loop.induct)
  case (1 c)
  show ?case
    by (subst (1 2) reloc_loop.simps) (use "1" in \<open>force\<close>)
qed

lemma ExecuteRelocateCached_thread:
  "OtherThread (ExecuteRelocateCached c) = OtherThread c" "CachePos c \<le> CachePos (ExecuteRelocateCached c)"
  using reloc_loop_thread [of c] by (auto simp: ExecuteRelocateCached_def split: prod.splits)

lemma next_chunk_thread: "OtherThread (next_chunk c) = OtherThread c" "CachePos (next_chunk c) = CachePos c"
  by (simp_all add: next_chunk_def FindNextChunk_def Let_def)

lemma write_relocate_thread:
  "write_relocate h = Inr h1 \<Longrightarrow>
   OtherThread (hs_Ctx h1) = OtherThread (hs_Ctx h) \<and> CachePos (hs_Ctx h) \<le> CachePos (hs_Ctx h1)"
  by (auto simp: write_relocate_def Let_def ExecuteRelocateCached_thread split: if_splits)

lemma write_prepare_thread:
  "write_prepare h = Inr h1 \<Longrightarrow>
   OtherThread (hs_Ctx h1) = OtherThread (hs_Ctx h) \<and> CachePos (hs_Ctx h) \<le> CachePos (hs_Ctx h1)"
  using write_relocate_thread [of h h1] write_relocate_thread [of "upd_ctx next_chunk h" h1]
  by (auto simp: write_prepare_def next_chunk_thread split: if_splits)

definition write_todo :: "hs \<Rightarrow> nat" where
  "write_todo h = th_LEN (OtherThread (hs_Ctx h)) - th_Transferred (OtherThread (hs_Ctx h))"

lemma write_data_progress:
  assumes "write_data LBA LEN h = Inr h'" "LEN = write_todo h" "0 < LEN"
  shows "write_todo h' < write_todo h \<or>
    (write_todo h' = write_todo h \<and> LAST_CACHE_POS - CachePos (hs_Ctx h') < LAST_CACHE_POS - CachePos (hs_Ctx h))"
proof -
  have hit: "write_todo (write_hit p LBA LEN h) < write_todo h" for p
    using cache_hit_len_bounds(1) [of "hs_Ctx h" p LBA LEN] assms(2,3)
    by (simp add: write_hit_def write_todo_def advance_def Let_def)
  have wr: "write_todo (cache_write LBA LEN h) < write_todo h"
    using cache_write_len_bounds(1) [of "hs_Ctx h" LBA LEN] assms(2,3)
    by (simp add: cache_write_def write_todo_def advance_def Let_def)
  have fill: "write_todo h' = write_todo h \<and> LAST_CACHE_POS - CachePos (hs_Ctx h') < LAST_CACHE_POS - CachePos (hs_Ctx h)"
    if "cache_fill_read b n h = Inr h'" "0 < n" "CachePos (hs_Ctx h) < LAST_CACHE_POS" for b n
    using that by (auto simp: cache_fill_read_def CacheFillReadZero_def write_todo_def split: if_splits)
  show ?thesis
    using assms(1) hit wr fill [of _ "8 - off8 (CachePos (hs_Ctx h))"] fill [of "base8 LBA" 8] fill [of "base8 LBA" "off8 LBA"]
    by (simp add: write_data_def Let_def not_le split: if_splits) blast+
qed

lemma write_iter_progress:
  assumes "write_iter h = Inr h'"
  shows "(h', h) \<in> measures [write_todo, \<lambda>h. LAST_CACHE_POS - CachePos (hs_Ctx h)]"
proof -
  obtain h1 where p: "write_prepare h = Inr h1"
    and d: "write_data (wrap32 (th_LBA (OtherThread (hs_Ctx h)) + th_Transferred (OtherThread (hs_Ctx h)))) (write_todo h) h1 = Inr h'"
    and pos: "0 < write_todo h"
    using assms by (auto simp: write_iter_def Let_def write_todo_def split: if_splits sum.splits)
  have "write_todo h1 = write_todo h" "CachePos (hs_Ctx h) \<le> CachePos (hs_Ctx h1)"
    using write_prepare_thread [OF p] by (simp_all add: write_todo_def)
  then show ?thesis using write_data_progress [OF d _ pos] by auto
qed

function write_loop :: "hs \<Rightarrow> ntstatus \<times> hs" where
  "write_loop h = (case write_iter h of Inl r \<Rightarrow> r | Inr h' \<Rightarrow> write_loop h')"
  by pat_completeness auto
termination
  by (relation "measures [write_todo, \<lambda>h. LAST_CACHE_POS - CachePos (hs_Ctx h)]")
     (simp, rule write_iter_progress)

declare write_loop.simps [simp del]

definition ExecuteWriteHandler :: "hs \<Rightarrow> ntstatus \<times> hs" where
  "ExecuteWriteHandler h =
     (let t = OtherThread (hs_Ctx h) in
      if th_DataSystemAddress t = None
      then let (ok, t') = GetDataSystemAddress (wrap32 (th_LEN t * 512)) False t in
        if \<not> ok then complete_no_resources TOther h
        else write_loop (upd_thread TOther (\<lambda>_. t') h)
      else write_loop h)"

section \<open>The read handler\<close>

text \<open>Thread \<open>i\<close> of the read threads; its transfers go straight into the caller's buffer.\<close>

definition ensure_address :: "tid \<Rightarrow> hs \<Rightarrow> (ntstatus \<times> hs) + hs" where
  "ensure_address t h =
     (let th = get_thread (hs_Ctx h) t;
          (ok, th') = GetDataSystemAddress (wrap32 (th_LEN th * 512)) False th in
      if \<not> ok then Inl (complete_no_resources t h) else Inr (upd_thread t (\<lambda>_. th') h))"

definition read_run_len :: "ctx \<Rightarrow> nat \<Rightarrow> nat \<Rightarrow> nat \<Rightarrow> nat" where
  "read_run_len c PLBA LBA LEN =
     for_len (\<lambda>len. off8 (wrap32 (LBA + len)) \<noteq> 0 \<or>
        (wrap32 (PLBA + len) = Map c (blk (wrap32 (LBA + len))) \<and>
         GetCachedPos c (wrap32 (LBA + len)) = NOT_MAPPED)) LEN 1"

definition read_hit :: "nat \<Rightarrow> nat \<Rightarrow> nat \<Rightarrow> nat \<Rightarrow> hs \<Rightarrow> hs" where
  "read_hit i pos LBA LEN h =
     (let c = hs_Ctx h; len = cache_hit_len c pos LBA LEN in
      upd_thread (TRead i)
        (\<lambda>t. t\<lparr>th_Data := copy_sectors (th_Data t) (th_Transferred t) (CacheMem c) pos len,
               th_Transferred := th_Transferred t + len\<rparr>) h)"

definition read_zero :: "nat \<Rightarrow> hs \<Rightarrow> hs" where
  "read_zero i =
     upd_thread (TRead i)
       (\<lambda>t. t\<lparr>th_Data := zero_sectors (th_Data t) (th_Transferred t) 1,
              th_Transferred := th_Transferred t + 1\<rparr>)"

definition read_medium :: "nat \<Rightarrow> nat \<Rightarrow> nat \<Rightarrow> hs \<Rightarrow> hs" where
  "read_medium i LBA LEN h =
     (let c = hs_Ctx h; t = ReadThread c i; PLBA = wrap32 (Map c (blk LBA) + off8 LBA) in
      issue \<lparr>rq_OPC = OpRead, rq_Buffer = BufThread i, rq_Pos = th_Transferred t, rq_PLBA = PLBA,
             rq_LEN = read_run_len c PLBA LBA LEN, rq_RetryLimit = 0,
             rq_Completion = ExecuteReadCompletion i\<rparr>
        (IoMarkIrpPending (TRead i) h))"

definition read_iter :: "nat \<Rightarrow> hs \<Rightarrow> outcome" where
  "read_iter i h =
     (if hs_Mode h \<noteq> VLTL_MODE_ACTIVE then Inl (CompleteNotReadyNoMedia (TRead i) h)
      else let c = hs_Ctx h; t = ReadThread c i;
               LBA = wrap32 (th_LBA t + th_Transferred t);
               LEN = th_LEN t - th_Transferred t;
               pos = GetCachedPos c LBA in
        if LEN = 0 then Inl (complete_success (TRead i) h)
        else if pos \<noteq> NOT_MAPPED
          then if th_DataSystemAddress t = None then ensure_address (TRead i) h
               else Inr (read_hit i pos LBA LEN h)
        else if Map c (blk LBA) = NOT_MAPPED
          then if th_DataSystemAddress t = None
               then (case ensure_address (TRead i) h of Inl r \<Rightarrow> Inl r | Inr h1 \<Rightarrow> Inr (read_zero i h1))
               else Inr (read_zero i h)
        else Inl (STATUS_PENDING, read_medium i LBA LEN h))"

definition read_todo :: "nat \<Rightarrow> hs \<Rightarrow> nat" where
  "read_todo i h = th_LEN (ReadThread (hs_Ctx h) i) - th_Transferred (ReadThread (hs_Ctx h) i)"

lemma GetDataSystemAddress_ok:
  "GetDataSystemAddress n False t = (True, t') \<Longrightarrow>
   \<exists>a. t' = t\<lparr>th_DataSystemAddress := Some a\<rparr>"
  by (auto simp: GetDataSystemAddress_def split: option.splits if_splits)

lemma ensure_address_Inr:
  "ensure_address t h = Inr h1 \<Longrightarrow>
   \<exists>a. h1 = upd_thread t (\<lambda>th. th\<lparr>th_DataSystemAddress := Some a\<rparr>) h"
  by (auto simp: ensure_address_def Let_def upd_thread_def upd_ctx_def split: prod.splits if_splits
      dest!: GetDataSystemAddress_ok)

lemma read_todo_simps [simp]:
  "read_todo i (read_zero i h) = read_todo i h - 1"
  "read_todo i (read_hit i p L n h) = read_todo i h - cache_hit_len (hs_Ctx h) p L n"
  "read_todo i (upd_thread (TRead i) (\<lambda>th. th\<lparr>th_DataSystemAddress := a\<rparr>) h) = read_todo i h"
  by (simp_all add: read_zero_def read_hit_def read_todo_def Let_def)

lemma read_iter_progress:
  assumes "read_iter i h = Inr h'"
  shows "(h', h) \<in> measures [read_todo i,
     \<lambda>h. if th_DataSystemAddress (ReadThread (hs_Ctx h) i) = None then 1 else 0]"
proof -
  have pos: "0 < cache_hit_len c p L n" for c p L n
    using cache_hit_len_bounds(1) [of c p L n] by simp
  have le: "th_LEN (ReadThread (hs_Ctx g) i) \<le> th_Transferred (ReadThread (hs_Ctx g) i) \<longleftrightarrow> read_todo i g = 0" for g
    by (simp add: read_todo_def)
  show ?thesis
    using assms
    by (auto simp: read_iter_def Let_def read_todo_def [symmetric] pos le
        split: if_splits sum.splits dest!: ensure_address_Inr)
qed

function read_loop :: "nat \<Rightarrow> hs \<Rightarrow> ntstatus \<times> hs" where
  "read_loop i h = (case read_iter i h of Inl r \<Rightarrow> r | Inr h' \<Rightarrow> read_loop i h')"
  by pat_completeness auto
termination
  by (relation "measures [\<lambda>(i, h). read_todo i h,
       \<lambda>(i, h). if th_DataSystemAddress (ReadThread (hs_Ctx h) i) = None then 1 else 0]")
     (simp, drule read_iter_progress, simp)

declare read_loop.simps [simp del]

definition ExecuteReadHandler :: "nat \<Rightarrow> hs \<Rightarrow> ntstatus \<times> hs" where
  "ExecuteReadHandler i h = read_loop i h"

section \<open>Completions\<close>

text \<open>
  A completion routine returns whether it has called \<open>LevelingThreadCompletion\<close> for its
  thread, and the state it leaves. \<open>failed_read\<close> is the answer to a read whose transfer failed.
\<close>

definition failed_read :: "reqres \<Rightarrow> irp \<Rightarrow> irp" where
  "failed_read r i =
     (let s = irp_Srb i; n = wrap32 (res_Transferred r * 512);
          len = min (srb_SenseInfoBufferLength s) (res_SenseTransferred r);
          s1 = s\<lparr>srb_SrbStatus := res_SrbStatus r, srb_Autosense := (0 < len),
                 srb_ScsiStatus := res_ScsiStatus r, srb_DataTransferLength := n,
                 srb_SenseInfoBufferLength := len,
                 srb_SenseInfoBuffer :=
                   (\<lambda>k. if k < len then res_SenseBuffer r k else srb_SenseInfoBuffer s k)\<rparr>
      in i\<lparr>irp_Srb := s1, irp_Information := n, irp_Status := res_Status r\<rparr>)"

definition read_completion :: "nat \<Rightarrow> reqres \<Rightarrow> hs \<Rightarrow> bool \<times> hs" where
  "read_completion i r h =
     (if \<not> REQ_SUCCESS r then (True, complete_irp (TRead i) (failed_read r) h)
      else let (st, h') = ExecuteReadHandler i
             (upd_thread (TRead i)
                (\<lambda>t. t\<lparr>th_Transferred := th_Transferred t + res_Transferred r\<rparr>) h)
        in (st \<noteq> STATUS_PENDING, h'))"

text \<open>\<open>ChangeModeAtomic(DeviceObject, VLTL_MODE_ACTIVE, VLTL_MODE_ERROR)\<close>.\<close>

definition mode_error :: "hs \<Rightarrow> hs" where
  "mode_error h = (if hs_Mode h = VLTL_MODE_ACTIVE then h\<lparr>hs_Mode := VLTL_MODE_ERROR\<rparr> else h)"

text \<open>
  What the completion routines of the cache request do before they call
  \<open>WriteCompleteHandler\<close>.
\<close>

definition fill_completed :: "reqres \<Rightarrow> hs \<Rightarrow> hs" where
  "fill_completed r h =
     (if \<not> REQ_SUCCESS r then mode_error h
      else upd_ctx (\<lambda>c. c\<lparr>CachePos := CachePos c + res_Transferred r\<rparr>) h)"

definition purge_completed :: "reqres \<Rightarrow> hs \<Rightarrow> hs" where
  "purge_completed r h = (if \<not> REQ_SUCCESS r then mode_error h else upd_ctx cache_purged h)"

definition chunk_completed :: "reqres \<Rightarrow> hs \<Rightarrow> hs" where
  "chunk_completed r h =
     (if \<not> REQ_SUCCESS r then mode_error h
      else upd_ctx (\<lambda>c. c\<lparr>FinalizedPos := PurgePos c\<rparr>) h)"

definition prepare_completed :: "reqres \<Rightarrow> hs \<Rightarrow> hs" where
  "prepare_completed r h =
     (if \<not> REQ_SUCCESS r then mode_error h else upd_ctx relocation_prepared h)"

definition relocate_completed :: "reqres \<Rightarrow> hs \<Rightarrow> hs" where
  "relocate_completed r h = (if \<not> REQ_SUCCESS r then mode_error h else h)"

section \<open>Reads and writes from above\<close>

definition be16 :: "nat \<Rightarrow> nat \<Rightarrow> nat" where
  "be16 a b = a * 256 + b"

definition be32 :: "nat \<Rightarrow> nat \<Rightarrow> nat \<Rightarrow> nat \<Rightarrow> nat" where
  "be32 a b c d = be16 a b * 65536 + be16 c d"

definition cdb_LBA :: "srb \<Rightarrow> nat" where
  "cdb_LBA s = be32 (srb_Cdb s 2) (srb_Cdb s 3) (srb_Cdb s 4) (srb_Cdb s 5)"

definition cdb_LEN :: "srb \<Rightarrow> nat" where
  "cdb_LEN s = be16 (srb_Cdb s 7) (srb_Cdb s 8)"

text \<open>The test that refuses a request, with the sum and the shift of the code in 32 bits.\<close>

definition rw_refused :: "thread \<Rightarrow> irp \<Rightarrow> ctx \<Rightarrow> bool" where
  "rw_refused th i c \<longleftrightarrow>
     wrap32 (cdb_LBA (irp_Srb i) + cdb_LEN (irp_Srb i)) > wrap32 (SIZE_OF_MAP c * 8) \<or>
     \<not> fst (GetDataSystemAddress (wrap32 (cdb_LEN (irp_Srb i) * 512)) True th)"

definition invalid_cdb :: "irp \<Rightarrow> irp" where
  "invalid_cdb i =
     i\<lparr>irp_Srb := (SetCheckCondition SCSI_SENSE_ILLEGAL_REQUEST SCSI_ADSENSE_INVALID_CDB 0 (irp_Srb i))
                    \<lparr>srb_DataTransferLength := 0\<rparr>,
       irp_Information := 0, irp_Status := STATUS_IO_DEVICE_ERROR\<rparr>"

text \<open>
  A read runs on a read thread and a write on the other thread (the assertions on
  \<open>Thread->IsRead\<close>). \<open>u\<close> stands for the status variable where neither branch assigns it.
\<close>

definition ExecuteRW :: "ntstatus \<Rightarrow> tid \<Rightarrow> hs \<Rightarrow> ntstatus \<times> hs" where
  "ExecuteRW u t h =
     (let th = get_thread (hs_Ctx h) t in
      case th_Irp th of None \<Rightarrow> (u, h)
      | Some i \<Rightarrow>
          if rw_refused th i (hs_Ctx h)
          then (STATUS_IO_DEVICE_ERROR, complete_irp t invalid_cdb h)
          else
            let h1 = upd_thread t (\<lambda>th. th\<lparr>th_DataBuffer := srb_DataBuffer (irp_Srb i),
                       th_LBA := cdb_LBA (irp_Srb i), th_LEN := cdb_LEN (irp_Srb i),
                       th_Transferred := 0\<rparr>) h
            in (case (srb_op (irp_Srb i), t) of
                  (SCSIOP_READ, TRead k) \<Rightarrow> ExecuteReadHandler k h1
                | (SCSIOP_WRITE, TOther) \<Rightarrow> ExecuteWriteHandler h1
                | _ \<Rightarrow> (u, h1)))"

end
