(* ===== verification/Vflush.thy ===== *)
theory Vflush
  imports Vscsi
begin

text \<open>
  \<open>driver/vflush.c\<close>, and what ties the handlers together: \<open>ExecutePass\<close> with its completion,
  \<open>WaitMarkedThreadsAndWriteCompleteHandler\<close> (both \<open>driver/vgate.c\<close>) and
  \<open>WriteCompleteHandler\<close> (\<open>driver/vscsi.c\<close>), which every completion routine of the cache
  request calls. The lower driver is a parameter: \<open>lower i\<close> is the status \<open>IoCallDriver\<close> returns
  for a request that is passed on, and the request as it has been completed when that status is
  not \<open>STATUS_PENDING\<close>.
\<close>

type_synonym lower = "irp \<Rightarrow> ntstatus \<times> irp"

section \<open>Passing a request on\<close>

definition ExecutePass :: "lower \<Rightarrow> tid \<Rightarrow> hs \<Rightarrow> ntstatus \<times> hs" where
  "ExecutePass lower t h =
     (case th_Irp (get_thread (hs_Ctx h) t) of
        None \<Rightarrow> (STATUS_SUCCESS, h)
      | Some i \<Rightarrow>
          let (st, i') = lower i in
          if st = STATUS_PENDING then (st, h) else (st, complete_irp t (\<lambda>_. i') h))"

text \<open>
  \<open>ExecutePassCompletion\<close> for a request the lower driver has kept and now completes as \<open>i\<close>
  (\<open>PendingReturned\<close>); \<open>LevelingThreadCompletion\<close> follows.
\<close>

definition pass_completion :: "tid \<Rightarrow> irp \<Rightarrow> hs \<Rightarrow> bool \<times> hs" where
  "pass_completion t i h = (True, complete_irp t (\<lambda>_. i\<lparr>irp_Pending := True\<rparr>) h)"

section \<open>The flush handler\<close>

definition flush_LBA :: "ctx \<Rightarrow> nat" where
  "flush_LBA c = wrap32 (CacheLBA c (CachePos c - 1) + 1)"

definition flush_LEN :: "ctx \<Rightarrow> nat" where
  "flush_LEN c = 8 - off8 (CachePos c)"

definition flush_done :: "lower \<Rightarrow> hs \<Rightarrow> ntstatus \<times> hs" where
  "flush_done lower h =
     (let h1 = upd_ctx (\<lambda>c. c\<lparr>Flushing := False\<rparr>) h in
      case th_Irp (OtherThread (hs_Ctx h)) of
        Some i \<Rightarrow>
          if irp_Major i = IRP_MJ_SHUTDOWN
          then (STATUS_SUCCESS, complete_irp TOther (\<lambda>i. i\<lparr>irp_Status := STATUS_SUCCESS\<rparr>) h1)
          else ExecutePass lower TOther h1
      | None \<Rightarrow> ExecutePass lower TOther h1)"

definition flush_purge :: "lower \<Rightarrow> hs \<Rightarrow> ntstatus \<times> hs" where
  "flush_purge lower h =
     (let c = hs_Ctx h in
      if CacheDirty c then (STATUS_PENDING, ExecutePurgeCache (IoMarkIrpPending TOther h))
      else if Finalizing c \<and> FinalizedPos c < PurgePos c
        then (STATUS_PENDING, ExecutePurgeChunk (IoMarkIrpPending TOther h))
      else flush_done lower h)"

definition ExecuteFlushHandler :: "lower \<Rightarrow> hs \<Rightarrow> ntstatus \<times> hs" where
  "ExecuteFlushHandler lower h =
     (let c = hs_Ctx h in
      if off8 (CachePos c) \<noteq> 0
      then if Map c (blk (flush_LBA c)) \<noteq> NOT_MAPPED
           then (STATUS_PENDING,
                 ExecuteCacheFillRead (flush_LBA c) (flush_LEN c) (IoMarkIrpPending TOther h))
           else flush_purge lower (upd_ctx (CacheFillReadZero (flush_LBA c) (flush_LEN c)) h)
      else flush_purge lower h)"

definition ExecuteFlush :: "lower \<Rightarrow> bool \<Rightarrow> hs \<Rightarrow> ntstatus \<times> hs" where
  "ExecuteFlush lower Finalize h =
     ExecuteFlushHandler lower (upd_ctx (\<lambda>c. c\<lparr>Flushing := True, Finalizing := Finalize\<rparr>) h)"

section \<open>Completions of the cache request\<close>

definition WriteCompleteHandler :: "lower \<Rightarrow> hs \<Rightarrow> bool \<times> hs" where
  "WriteCompleteHandler lower h =
     (let (st, h') = (if Flushing (hs_Ctx h) then ExecuteFlushHandler lower h
                      else ExecuteWriteHandler h)
      in (st \<noteq> STATUS_PENDING, h'))"

definition WaitMarkedThreadsAndWriteCompleteHandler :: "lower \<Rightarrow> hs \<Rightarrow> bool \<times> hs" where
  "WaitMarkedThreadsAndWriteCompleteHandler lower h =
     (let h1 = (if 0 < ThreadsMarked (hs_Ctx h)
                then upd_ctx (\<lambda>c. c\<lparr>WaitingMarkedThreads := True\<rparr>) h else h)
      in if \<not> WaitingMarkedThreads (hs_Ctx h1) then WriteCompleteHandler lower h1 else (False, h1))"

text \<open>The routine that runs when a transfer has ended with result \<open>r\<close>.\<close>

fun run_completion :: "lower \<Rightarrow> completion \<Rightarrow> reqres \<Rightarrow> hs \<Rightarrow> bool \<times> hs" where
  "run_completion lower CacheFillReadCompletion r h = WriteCompleteHandler lower (fill_completed r h)"
| "run_completion lower PurgeCacheCompletion r h = WriteCompleteHandler lower (purge_completed r h)"
| "run_completion lower PurgeChunkCompletion r h = WriteCompleteHandler lower (chunk_completed r h)"
| "run_completion lower PrepareRelocateCompletion r h =
     (if \<not> REQ_SUCCESS r then WriteCompleteHandler lower (prepare_completed r h)
      else WaitMarkedThreadsAndWriteCompleteHandler lower (prepare_completed r h))"
| "run_completion lower RelocateCompletion r h = WriteCompleteHandler lower (relocate_completed r h)"
| "run_completion lower (ExecuteReadCompletion i) r h = read_completion i r h"

end
