(* ===== verification/Ftl.thy ===== *)
theory Ftl
  imports Vflush
begin

text \<open>
  What the handlers and the medium together promise: the device the system sees. The medium is
  a function from physical sectors to sectors. \<open>vread\<close> is the abstraction: the contents of a
  logical sector, wherever the driver keeps it. The lemmas show what each action of the write
  handler does to the invariant and to the abstraction.
\<close>

section \<open>The medium\<close>

fun buf_mem :: "buffer \<Rightarrow> ctx \<Rightarrow> mem" where
  "buf_mem BufCache c = CacheMem c"
| "buf_mem BufRelocate c = RelocateMem c"
| "buf_mem (BufThread i) c = th_Data (ReadThread c i)"

fun set_buf :: "buffer \<Rightarrow> mem \<Rightarrow> ctx \<Rightarrow> ctx" where
  "set_buf BufCache m c = c\<lparr>CacheMem := m\<rparr>"
| "set_buf BufRelocate m c = c\<lparr>RelocateMem := m\<rparr>"
| "set_buf (BufThread i) m c = set_thread (TRead i) ((ReadThread c i)\<lparr>th_Data := m\<rparr>) c"

text \<open>A transfer that succeeds, and the result \<open>ScsiCallRW\<close> reports for it.\<close>

definition transfer :: "rwreq \<Rightarrow> mem \<times> ctx \<Rightarrow> mem \<times> ctx" where
  "transfer q dc = (let (d, c) = dc in
     case rq_OPC q of
       OpRead \<Rightarrow> (d, set_buf (rq_Buffer q)
                    (copy_sectors (buf_mem (rq_Buffer q) c) (rq_Pos q) d (rq_PLBA q) (rq_LEN q)) c)
     | OpWrite \<Rightarrow> (copy_sectors d (rq_PLBA q) (buf_mem (rq_Buffer q) c) (rq_Pos q) (rq_LEN q), c))"

definition ok_result :: "rwreq \<Rightarrow> reqres" where
  "ok_result q = \<lparr>res_Status = STATUS_SUCCESS, res_SrbStatus = SRB_STATUS_SUCCESS,
     res_ScsiStatus = SCSISTAT_GOOD, res_Transferred = rq_LEN q, res_SenseTransferred = 0,
     res_SenseBuffer = (\<lambda>_. 0)\<rparr>"

lemma ok_result_simps [simp]: "REQ_SUCCESS (ok_result q)" "res_Transferred (ok_result q) = rq_LEN q"
  by (simp_all add: ok_result_def REQ_SUCCESS_def)

section \<open>The abstraction\<close>

definition vread :: "mem \<Rightarrow> ctx \<Rightarrow> nat \<Rightarrow> sector" where
  "vread d c LBA =
     (let p = GetCachedPos c LBA in
      if p \<noteq> NOT_MAPPED then CacheMem c p
      else if Map c (blk LBA) = NOT_MAPPED then zero_sector
      else d (Map c (blk LBA) + off8 LBA))"

definition in_dev :: "ctx \<Rightarrow> nat \<Rightarrow> bool" where
  "in_dev c LBA \<longleftrightarrow> LBA < 8 * SIZE_OF_MAP c"

section \<open>The invariant\<close>

definition geom :: "ctx \<Rightarrow> bool" where
  "geom c \<longleftrightarrow> 10 \<le> MAX_CHUNKS c \<and> MAX_CHUNKS c \<le> 500 \<and>
     SIZE_OF_MAP c * 10 \<le> MAX_CHUNKS c * SIZE_OF_CHUNK \<and>
     ChunkNo c < MAX_CHUNKS c \<and> NextChunkNo c < MAX_CHUNKS c \<and> NextChunkNo c \<noteq> ChunkNo c \<and>
     PurgePos c \<le> LAST_PURGE_POS \<and> PurgePos c mod SIZE_OF_CACHE = 0"

definition map_ok :: "ctx \<Rightarrow> bool" where
  "map_ok c \<longleftrightarrow>
     (\<forall>j < SIZE_OF_MAP c. Map c j \<noteq> NOT_MAPPED \<longrightarrow>
        off8 (Map c j) = 0 \<and> Map c j div SIZE_OF_CHUNK < MAX_CHUNKS c \<and>
        Map c j mod SIZE_OF_CHUNK < LAST_PURGE_POS \<and>
        (Map c j div SIZE_OF_CHUNK = ChunkNo c \<longrightarrow> Map c j mod SIZE_OF_CHUNK < PurgePos c))"

text \<open>
  The directory of a chunk: on the medium after the data, or, for the chunk being written,
  in memory.
\<close>

definition ctl_on :: "mem \<Rightarrow> nat \<Rightarrow> ctl" where
  "ctl_on d ch = (\<lambda>w. d (ch * SIZE_OF_CHUNK + LAST_PURGE_POS + w div 128) (w mod 128))"

definition dir_word :: "mem \<Rightarrow> ctx \<Rightarrow> nat \<Rightarrow> nat \<Rightarrow> u32" where
  "dir_word d c ch k = (if ch = ChunkNo c then ChunkCtl c (8 + k) else ctl_on d ch (8 + k))"

definition dir_ok :: "mem \<Rightarrow> ctx \<Rightarrow> bool" where
  "dir_ok d c \<longleftrightarrow>
     (\<forall>j < SIZE_OF_MAP c. Map c j \<noteq> NOT_MAPPED \<longrightarrow>
        unat (dir_word d c (Map c j div SIZE_OF_CHUNK) (Map c j mod SIZE_OF_CHUNK div 8)) = 8 * j)"

definition final_ok :: "mem \<Rightarrow> ctx \<Rightarrow> bool" where
  "final_ok d c \<longleftrightarrow> FinalizedPos c \<le> PurgePos c \<and>
     (LAST_PURGE_POS \<le> FinalizedPos c \<longrightarrow>
        (\<forall>k < LAST_PURGE_POS div 8. ctl_on d (ChunkNo c) (8 + k) = ChunkCtl c (8 + k)))"

definition newest :: "ctx \<Rightarrow> bool" where
  "newest c \<longleftrightarrow>
     (\<forall>k < MAX_CHUNKS c. SCN (ChunkInfo c k) \<le> SCN (ChunkInfo c (ChunkNo c)))"

text \<open>The directory of the next chunk and the window of it that is in memory.\<close>

definition window_ok :: "mem \<Rightarrow> ctx \<Rightarrow> bool" where
  "window_ok d c \<longleftrightarrow>
     off8 (RelocatePos c) = 0 \<and> RelocatePos c \<le> LAST_PURGE_POS \<and> RelocateWindowEnd c \<le> LAST_PURGE_POS \<and>
     off8 (RelocateWindowEnd c) = 0 \<and>
     (\<forall>k < LAST_PURGE_POS div 8. NextChunkCtl c (8 + k) = ctl_on d (NextChunkNo c) (8 + k)) \<and>
     (\<forall>i. RelocateWindowStart c \<le> i \<and> i < RelocateWindowEnd c \<longrightarrow>
        RelocateMem c (i - RelocateWindowStart c) = d (NextChunkNo c * SIZE_OF_CHUNK + i)) \<and>
     (\<forall>j \<in> used_set c (NextChunkNo c). Map c j mod SIZE_OF_CHUNK < RelocatePos c \<longrightarrow> cached c (8 * j))"

text \<open>
  The pace of the relocation. \<open>room\<close> is the number of blocks the current chunk can still take,
  \<open>to_move\<close> the blocks of the next chunk that are not in the cache.
\<close>

definition room :: "ctx \<Rightarrow> nat" where
  "room c = (LAST_PURGE_POS - PurgePos c) div 8"

definition to_move :: "ctx \<Rightarrow> nat set" where
  "to_move c = {j \<in> used_set c (NextChunkNo c). \<not> cached c (8 * j)}"

definition moving :: "ctx \<Rightarrow> bool" where
  "moving c \<longleftrightarrow> off8 (CachePos c) = 0 \<and>
     (\<forall>p < CachePos c. blk (CacheLBA c p) \<in> used_set c (NextChunkNo c) \<and>
        Map c (blk (CacheLBA c p)) mod SIZE_OF_CHUNK < RelocatePos c)"

definition pace :: "ctx \<Rightarrow> bool" where
  "pace c \<longleftrightarrow>
     (if \<not> RelocationPrepared c
      then \<not> RelocationDone c \<and> CachePos c = 0 \<and> 64 * card (used_set c (NextChunkNo c)) \<le> 63 * room c
      else 0 < RelocateTarget c \<and> RelocateTarget c \<le> 32704 \<and> 64 * RelocateSource c \<le> 63 * RelocateTarget c \<and>
        (if RelocationDone c
         then 64 \<le> room c \<and> RelocateTarget c * card (to_move c) \<le> RelocateSource c * (room c - 64)
         else moving c \<and> RelocateTarget c * card (used_set c (NextChunkNo c)) \<le> RelocateSource c * room c))"

definition ftl_inv :: "mem \<Rightarrow> ctx \<Rightarrow> bool" where
  "ftl_inv d c \<longleftrightarrow> geom c \<and> cache_wf c \<and> map_ok c \<and> used_ok c \<and> dir_ok d c \<and> final_ok d c \<and> newest c \<and>
     (RelocationPrepared c \<longrightarrow> window_ok d c) \<and> pace c"

section \<open>Reading through the cache and the map\<close>

lemma vread_cached: "cache_wf c \<Longrightarrow> p < CachePos c \<Longrightarrow> CacheLBA c p = L \<Longrightarrow> vread d c L = CacheMem c p"
  using cd.bounded [of c] by (simp add: vread_def GetCachedPos_hit Let_def)

lemma vread_uncached:
  "cache_wf c \<Longrightarrow> \<not> cached c L \<Longrightarrow>
   vread d c L = (if Map c (blk L) = NOT_MAPPED then zero_sector else d (Map c (blk L) + off8 L))"
  by (simp add: vread_def GetCachedPos_miss)

lemma GetCachedPos_cases:
  assumes "cache_wf c"
  obtains (Hit) "GetCachedPos c L < CachePos c" "CacheLBA c (GetCachedPos c L) = L" "cached c L"
    | (Miss) "GetCachedPos c L = NOT_MAPPED" "\<not> cached c L"
  using cd.found [OF assms, of L] cached_iff [OF assms, of L] by (cases "cached c L") auto

lemma vread_cong:
  assumes "cache_wf c" "CachePos c' = CachePos c" "CacheLBA c' = CacheLBA c" "cache_wf c'"
    and "\<And>p. p < CachePos c \<Longrightarrow> CacheMem c' p = CacheMem c p"
    and "\<not> cached c L \<Longrightarrow> Map c' (blk L) = Map c (blk L)"
    and "\<not> cached c L \<Longrightarrow> Map c (blk L) \<noteq> NOT_MAPPED \<Longrightarrow> d' (Map c (blk L) + off8 L) = d (Map c (blk L) + off8 L)"
  shows "vread d' c' L = vread d c L"
proof (cases "cached c L")
  case True
  then obtain p where p: "p < CachePos c" "CacheLBA c p = L" by (auto simp: cached_def)
  then show ?thesis
    using vread_cached [OF assms(1) p] vread_cached [OF assms(4), of p L d'] assms(2,3,5) by simp
next
  case False
  then have "\<not> cached c' L" using assms(2,3) by (simp add: cached_def)
  then show ?thesis using False vread_uncached [OF assms(1) False] vread_uncached [OF assms(4)] assms(6,7) by simp
qed

section \<open>Extending the cache\<close>

lemma block_cached:
  assumes "cache_wf c" "off8 (CachePos c) = 0" "cached c L" "blk L' = blk L"
  shows "cached c L'"
proof -
  obtain p where p: "p < CachePos c" "CacheLBA c p = L" using assms(3) by (auto simp: cached_def)
  let ?q = "base8 p + off8 L'"
  have q: "?q < CachePos c"
  proof -
    obtain m where m: "CachePos c = 8 * m" using assms(2) by (auto simp: off8_def)
    have "blk p < m" using p(1) m by (simp add: blk_less_iff)
    then show ?thesis unfolding base8_blk using m off8_less [of L'] by linarith
  qed
  have bq: "base8 ?q = base8 p" "off8 ?q = off8 L'" by (simp_all add: base8_blk)
  have "CacheLBA c (base8 p) = base8 L" using cache_wf_head [OF assms(1) p(1)] p(2) by simp
  then have "base8 (CacheLBA c ?q) = base8 L" using cache_wf_head [OF assms(1) q] bq by simp
  moreover have "off8 (CacheLBA c ?q) = off8 L'" using cache_wfD(1) [OF assms(1) q] bq by simp
  ultimately have "CacheLBA c ?q = L'"
    using lba_split [of "CacheLBA c ?q"] lba_split [of L'] assms(4) by (simp add: base8_blk)
  then show ?thesis using q by (auto simp: cached_def)
qed

text \<open>The sector that follows the last one of a partly cached block is not cached.\<close>

lemma next_uncached:
  assumes "cache_wf c" "off8 (CachePos c) \<noteq> 0"
  defines "L \<equiv> CacheLBA c (CachePos c - 1) + 1"
  shows "blk L = blk (CacheLBA c (CachePos c - 1))" "off8 L = off8 (CachePos c)"
    "L \<le> L' \<Longrightarrow> blk L' = blk L \<Longrightarrow> \<not> cached c L'"
proof -
  let ?p = "CachePos c - 1"
  have nz: "0 < CachePos c" using assms(2) by (auto simp: off8_def)
  then have p: "?p < CachePos c" by simp
  have bp: "blk ?p = blk (CachePos c)" "off8 (CachePos c) = Suc (off8 ?p)"
    using assms(2) nz by (auto simp: blk_def off8_def mod_Suc div_Suc split: if_splits) 
      (metis Suc_pred div_Suc mod_Suc nat.simps(3))+
  have o: "off8 (CacheLBA c ?p) = off8 ?p" using cache_wfD(1) [OF assms(1) p] .
  have lt: "off8 ?p < 7" using bp(2) off8_less [of "CachePos c"] by simp
  have e: "L = 8 * blk (CacheLBA c ?p) + Suc (off8 ?p)"
    using lba_split [of "CacheLBA c ?p"] o unfolding L_def by simp
  show b: "blk L = blk (CacheLBA c ?p)" and "off8 L = off8 (CachePos c)"
    unfolding e using lt bp(2) by (simp_all del: add_Suc_right)
  assume L': "L \<le> L'" "blk L' = blk L"
  show "\<not> cached c L'"
  proof
    assume "cached c L'"
    then obtain q where q: "q < CachePos c" "CacheLBA c q = L'" by (auto simp: cached_def)
    have hp: "CacheLBA c (base8 ?p) = base8 (CacheLBA c ?p)" using cache_wf_head [OF assms(1) p] .
    have hq: "CacheLBA c (base8 q) = base8 L'" using cache_wf_head [OF assms(1) q(1)] q(2) by simp
    have "base8 L' = base8 (CacheLBA c ?p)" using L'(2) b by (simp add: base8_blk)
    then have "base8 q = base8 ?p"
      using cache_wf_inj [OF assms(1), of "base8 q" "base8 ?p"] hp hq q(1) p base8_le [of q] base8_le [of ?p] by simp
    moreover have "off8 q = off8 L'" using cache_wfD(1) [OF assms(1) q(1)] q(2) by simp
    moreover have "off8 L \<le> off8 L'" using L' lba_split [of L] lba_split [of L'] by simp
    ultimately have "CachePos c \<le> q"
      using \<open>off8 L = off8 (CachePos c)\<close> bp lba_split [of q] lba_split [of "CachePos c"] by (simp add: base8_blk)
    with q(1) show False by simp
  qed
qed

lemma put_lba_in: "pos \<le> p \<Longrightarrow> p < pos + n \<Longrightarrow> LBA + n \<le> 4294967296 \<Longrightarrow> put_lba f pos LBA n p = LBA + (p - pos)"
  by (simp add: put_lba_def)

lemma put_lba_out: "p < pos \<Longrightarrow> put_lba f pos LBA n p = f p"
  by (simp add: put_lba_def)

lemma cache_extend:
  assumes wf: "cache_wf c" and off: "off8 LBA = off8 (CachePos c)" and fit: "CachePos c + n \<le> LAST_CACHE_POS"
    and dev: "LBA + n \<le> 8 * SIZE_OF_MAP c" "8 * SIZE_OF_MAP c \<le> 4294967296"
    and new: "\<And>L. LBA \<le> L \<Longrightarrow> L < LBA + n \<Longrightarrow> \<not> cached c L"
    and head: "0 < n \<Longrightarrow> off8 (CachePos c) \<noteq> 0 \<Longrightarrow> LBA = CacheLBA c (CachePos c - 1) + 1"
    and c': "CacheLBA c' = put_lba (CacheLBA c) (CachePos c) LBA n" "CachePos c' = CachePos c + n"
      "SIZE_OF_MAP c' = SIZE_OF_MAP c"
  shows "cache_wf c'" "cached c' L \<longleftrightarrow> cached c L \<or> (LBA \<le> L \<and> L < LBA + n)"
proof -
  have inn: "CacheLBA c' p = LBA + (p - CachePos c)" if "CachePos c \<le> p" "p < CachePos c + n" for p
    unfolding c'(1) using that dev by (intro put_lba_in) simp_all
  have out: "CacheLBA c' p = CacheLBA c p" if "p < CachePos c" for p
    unfolding c'(1) using that by (rule put_lba_out)
  have o: "off8 (LBA + (p - CachePos c)) = off8 p" if "CachePos c \<le> p" for p
  proof -
    have "(LBA + (p - CachePos c)) mod 8 = (LBA mod 8 + (p - CachePos c)) mod 8" by (simp add: mod_add_left_eq)
    also have "\<dots> = (CachePos c + (p - CachePos c)) mod 8" using off by (simp add: off8_def mod_add_left_eq)
    finally show ?thesis using that by (simp add: off8_def)
  qed
  show "cached c' L \<longleftrightarrow> cached c L \<or> (LBA \<le> L \<and> L < LBA + n)"
  proof
    assume "cached c' L"
    then obtain p where p: "p < CachePos c + n" "CacheLBA c' p = L" by (auto simp: cached_def c'(2))
    then show "cached c L \<or> (LBA \<le> L \<and> L < LBA + n)"
      using inn [of p] out [of p] by (cases "p < CachePos c") (auto simp: cached_def)
  next
    assume "cached c L \<or> (LBA \<le> L \<and> L < LBA + n)"
    then show "cached c' L"
    proof
      assume "cached c L"
      then show ?thesis using out by (auto simp: cached_def c'(2)) (metis trans_less_add1)
    next
      assume "LBA \<le> L \<and> L < LBA + n"
      then show ?thesis
        using inn [of "CachePos c + (L - LBA)"] by (auto simp: cached_def c'(2) intro!: exI [of _ "CachePos c + (L - LBA)"])
    qed
  qed
  have head': "blk (CacheLBA c' p) = blk (CacheLBA c' (base8 p))" if p: "p < CachePos c + n" for p
  proof (cases "p < CachePos c")
    case True
    then show ?thesis using cache_wfD(2) [OF wf True] out [OF True] out [of "base8 p"] base8_le [of p] by simp
  next
    case False
    then have pe: "CacheLBA c' p = LBA + (p - CachePos c)" using inn p by simp
    show ?thesis
    proof (cases "CachePos c \<le> base8 p")
      case True
      then have "CacheLBA c' (base8 p) = LBA + (base8 p - CachePos c)" using inn [of "base8 p"] p base8_le [of p] by simp
      moreover have "off8 (LBA + (base8 p - CachePos c)) = 0" using o [OF True] by (simp add: base8_blk)
      moreover have "LBA + (p - CachePos c) = LBA + (base8 p - CachePos c) + off8 p"
        using True lba_split [of p] by (simp add: base8_blk)
      ultimately show ?thesis using pe
        by (metis blk_base lba_split off8_less add.right_neutral)
    next
      case part: False
      let ?q = "CachePos c - 1"
      have nz: "off8 (CachePos c) \<noteq> 0"
      proof
        assume z: "off8 (CachePos c) = 0"
        then have "CachePos c = base8 (CachePos c)" by (simp add: base8_def off8_def)
        moreover have "base8 (CachePos c) \<le> base8 p" using False by (simp add: base8_blk blk_def div_le_mono)
        ultimately show False using part by simp
      qed
      then have q: "?q < CachePos c" by (cases "CachePos c") (auto simp: off8_def)
      have n: "0 < n" using p False by simp
      have L: "LBA = CacheLBA c ?q + 1" using head n nz by blast
      have bL: "blk LBA = blk (CacheLBA c ?q)" using next_uncached(1) [OF wf nz] L by simp
      have bp: "blk p = blk (CachePos c)"
      proof (rule antisym)
        have "8 * blk p < CachePos c" using part by (simp add: base8_blk)
        then show "blk p \<le> blk (CachePos c)" by (simp add: blk_def less_eq_div_iff_mult_less_eq)
        show "blk (CachePos c) \<le> blk p" using False by (simp add: blk_def div_le_mono)
      qed
      have bq: "blk ?q = blk (CachePos c)"
      proof -
        have "CachePos c = 8 * blk (CachePos c) + off8 (CachePos c)" by (simp add: lba_split)
        then have "?q = 8 * blk (CachePos c) + (off8 (CachePos c) - 1)" using nz by simp
        then show ?thesis by (metis blk_base less_imp_diff_less off8_less)
      qed
      have "LBA + (p - CachePos c) = 8 * blk LBA + off8 p"
        using lba_split [of LBA] lba_split [of p] lba_split [of "CachePos c"] bp off False by simp
      then have "blk (CacheLBA c' p) = blk LBA" using pe by simp
      moreover have "CacheLBA c' (base8 p) = CacheLBA c (base8 ?q)"
        using out [of "base8 p"] part bp bq by (simp add: base8_blk)
      moreover have "blk (CacheLBA c (base8 ?q)) = blk (CacheLBA c ?q)" using cache_wfD(2) [OF wf q] by simp
      ultimately show ?thesis using bL by simp
    qed
  qed
  have off': "off8 (CacheLBA c' p) = off8 p" if p: "p < CachePos c + n" for p
    using inn [of p] out [of p] o [of p] cache_wfD(1) [OF wf, of p] p by (cases "p < CachePos c") auto
  have dev': "blk (CacheLBA c' p) < SIZE_OF_MAP c" if p: "p < CachePos c + n" for p
    using inn [of p] out [of p] cache_wfD(3) [OF wf, of p] p dev by (cases "p < CachePos c") (auto simp: blk_less_iff)
  have inj: "inj_on (CacheLBA c') {..<CachePos c + n}"
  proof (rule inj_onI)
    fix p q assume pq: "p \<in> {..<CachePos c + n}" "q \<in> {..<CachePos c + n}" "CacheLBA c' p = CacheLBA c' q"
    have mix: False if "a < CachePos c" "CachePos c \<le> b" "b < CachePos c + n" "CacheLBA c' a = CacheLBA c' b" for a b
      using new [of "LBA + (b - CachePos c)"] that inn [of b] out [of a] by (auto simp: cached_def)
    show "p = q"
      using pq mix [of p q] mix [of q p] inn [of p] inn [of q] out [of p] out [of q] cache_wf_inj [OF wf, of p q]
      by (cases "p < CachePos c"; cases "q < CachePos c") auto
  qed
  show "cache_wf c'"
    unfolding cache_wf_def c'(2,3) using off' head' dev' inj fit by simp
qed

section \<open>Frames\<close>

text \<open>The fields the invariant and the abstraction depend on.\<close>

definition same_ftl :: "ctx \<Rightarrow> ctx \<Rightarrow> bool" where
  "same_ftl c c' \<longleftrightarrow>
     SIZE_OF_MAP c' = SIZE_OF_MAP c \<and> MAX_CHUNKS c' = MAX_CHUNKS c \<and> Map c' = Map c \<and>
     ChunkInfo c' = ChunkInfo c \<and> ChunkNo c' = ChunkNo c \<and> NextChunkNo c' = NextChunkNo c \<and>
     ChunkCtl c' = ChunkCtl c \<and> NextChunkCtl c' = NextChunkCtl c \<and> CacheMem c' = CacheMem c \<and>
     FinalizedPos c' = FinalizedPos c \<and> PurgePos c' = PurgePos c \<and> CachePos c' = CachePos c \<and>
     CacheLBA c' = CacheLBA c \<and> RelocateMem c' = RelocateMem c \<and> RelocatePos c' = RelocatePos c \<and>
     RelocateWindowStart c' = RelocateWindowStart c \<and> RelocateWindowEnd c' = RelocateWindowEnd c \<and>
     RelocateTarget c' = RelocateTarget c \<and> RelocateSource c' = RelocateSource c \<and>
     RelocationPrepared c' = RelocationPrepared c \<and> RelocationDone c' = RelocationDone c \<and>
     CacheDirty c' = CacheDirty c \<and> CCN c' = CCN c \<and> Magic c' = Magic c"

lemma same_ftl_refl [simp]: "same_ftl c c"
  by (simp add: same_ftl_def)

lemma tables_eq_same: "tables_eq c c' \<Longrightarrow> same_ftl c c'"
  by (auto simp: tables_eq_def same_ftl_def)

lemma same_ftl_trans: "same_ftl a b \<Longrightarrow> same_ftl b c \<Longrightarrow> same_ftl a c"
  by (simp add: same_ftl_def)

lemma gcp_cong:
  "CachePos c' = CachePos c \<Longrightarrow> CacheLBA c' = CacheLBA c \<Longrightarrow> gcp_loop c' L i = gcp_loop c L i"
proof (induction c L i rule: gcp_loop.induct)
  case (1 c L i)
  then show ?case by (simp add: gcp_loop.simps [of _ _ i])
qed

lemma GetCachedPos_cong:
  "CachePos c' = CachePos c \<Longrightarrow> CacheLBA c' = CacheLBA c \<Longrightarrow> GetCachedPos c' L = GetCachedPos c L"
  using gcp_cong [of c' c L 0] by (simp add: GetCachedPos_def)

lemma cached_cong: "CachePos c' = CachePos c \<Longrightarrow> CacheLBA c' = CacheLBA c \<Longrightarrow> cached c' L = cached c L"
  by (simp add: cached_def)

lemma used_set_cong: "SIZE_OF_MAP c' = SIZE_OF_MAP c \<Longrightarrow> Map c' = Map c \<Longrightarrow> used_set c' ch = used_set c ch"
  by (simp add: used_set_def)

lemma vread_same: "same_ftl c c' \<Longrightarrow> vread d c' L = vread d c L"
  using GetCachedPos_cong [of c' c L] by (simp add: vread_def same_ftl_def Let_def)

lemmas ftl_parts = geom_def map_ok_def used_ok_def dir_ok_def final_ok_def newest_def

lemma ftl_inv_same:
  assumes "same_ftl c c'" shows "ftl_inv d c' = ftl_inv d c"
proof -
  have e: "used_set c' ch = used_set c ch" "cached c' L = cached c L" for ch L
    using assms by (simp_all add: same_ftl_def used_set_def cached_def)
  have "cache_wf c' = cache_wf c" "pace c' = pace c" "window_ok d c' = window_ok d c"
    using assms unfolding same_ftl_def
    by (simp_all add: cache_wf_def pace_def room_def to_move_def moving_def window_ok_def e)
  moreover have "geom c' = geom c" "map_ok c' = map_ok c" "used_ok c' = used_ok c" "dir_ok d c' = dir_ok d c"
    "final_ok d c' = final_ok d c" "newest c' = newest c" "RelocationPrepared c' = RelocationPrepared c"
    using assms unfolding same_ftl_def by (simp_all add: ftl_parts dir_word_def e)
  ultimately show ?thesis by (simp add: ftl_inv_def)
qed

lemma ftl_invD:
  assumes "ftl_inv d c"
  shows "geom c" "cache_wf c" "map_ok c" "used_ok c" "dir_ok d c" "final_ok d c" "newest c" "pace c"
    "RelocationPrepared c \<Longrightarrow> window_ok d c"
  using assms by (simp_all add: ftl_inv_def)

lemma geom_size: "geom c \<Longrightarrow> 8 * SIZE_OF_MAP c \<le> 104857600"
  by (simp add: geom_def)

section \<open>Adding sectors to the cache\<close>

definition extended :: "ctx \<Rightarrow> nat \<Rightarrow> nat \<Rightarrow> mem \<Rightarrow> ctx" where
  "extended c LBA n m =
     c\<lparr>CacheLBA := put_lba (CacheLBA c) (CachePos c) LBA n, CacheMem := m, CachePos := CachePos c + n\<rparr>"

lemma extended_simps [simp]:
  "SIZE_OF_MAP (extended c L n m) = SIZE_OF_MAP c" "MAX_CHUNKS (extended c L n m) = MAX_CHUNKS c"
  "Map (extended c L n m) = Map c" "ChunkInfo (extended c L n m) = ChunkInfo c"
  "ChunkNo (extended c L n m) = ChunkNo c" "NextChunkNo (extended c L n m) = NextChunkNo c"
  "ChunkCtl (extended c L n m) = ChunkCtl c" "NextChunkCtl (extended c L n m) = NextChunkCtl c"
  "CacheMem (extended c L n m) = m" "FinalizedPos (extended c L n m) = FinalizedPos c"
  "PurgePos (extended c L n m) = PurgePos c" "CachePos (extended c L n m) = CachePos c + n"
  "CacheLBA (extended c L n m) = put_lba (CacheLBA c) (CachePos c) L n"
  "RelocateMem (extended c L n m) = RelocateMem c" "RelocatePos (extended c L n m) = RelocatePos c"
  "RelocateWindowStart (extended c L n m) = RelocateWindowStart c"
  "RelocateWindowEnd (extended c L n m) = RelocateWindowEnd c"
  "RelocateTarget (extended c L n m) = RelocateTarget c" "RelocateSource (extended c L n m) = RelocateSource c"
  "RelocationPrepared (extended c L n m) = RelocationPrepared c"
  "RelocationDone (extended c L n m) = RelocationDone c"
  "used_set (extended c L n m) ch = used_set c ch"
  "dir_word d (extended c L n m) ch k = dir_word d c ch k"
  by (simp_all add: extended_def used_set_def dir_word_def)

text \<open>When sectors can be added: they follow the last one, they are in the device and not cached.\<close>

definition can_extend :: "ctx \<Rightarrow> nat \<Rightarrow> nat \<Rightarrow> bool" where
  "can_extend c LBA n \<longleftrightarrow>
     off8 LBA = off8 (CachePos c) \<and> CachePos c + n \<le> LAST_CACHE_POS \<and> LBA + n \<le> 8 * SIZE_OF_MAP c \<and>
     (\<forall>L. LBA \<le> L \<and> L < LBA + n \<longrightarrow> \<not> cached c L) \<and>
     (0 < n \<and> off8 (CachePos c) \<noteq> 0 \<longrightarrow> LBA = CacheLBA c (CachePos c - 1) + 1)"

lemma extended_wf:
  assumes "cache_wf c" "can_extend c LBA n" "geom c"
  shows "cache_wf (extended c LBA n m)"
    "cached (extended c LBA n m) L \<longleftrightarrow> cached c L \<or> (LBA \<le> L \<and> L < LBA + n)"
proof -
  have "8 * SIZE_OF_MAP c \<le> 4294967296" using geom_size [OF assms(3)] by simp
  note ex = cache_extend [of c LBA n "extended c LBA n m", OF assms(1) _ _ _ this]
  show "cache_wf (extended c LBA n m)"
    by (rule ex(1)) (use assms(2) in \<open>simp_all add: can_extend_def\<close>)
  show "cached (extended c LBA n m) L \<longleftrightarrow> cached c L \<or> (LBA \<le> L \<and> L < LBA + n)"
    by (rule ex(2)) (use assms(2) in \<open>simp_all add: can_extend_def\<close>)
qed

lemma extended_inv:
  assumes inv: "ftl_inv d c" and ext: "can_extend c LBA n" and ready: "RelocationPrepared c" "RelocationDone c"
  shows "ftl_inv d (extended c LBA n m)"
proof -
  let ?c = "extended c LBA n m"
  note inv' = ftl_invD [OF inv]
  have wf: "cache_wf ?c" and more: "\<And>L. cached c L \<Longrightarrow> cached ?c L"
    using extended_wf [OF inv'(2) ext inv'(1)] by auto
  have "to_move ?c \<subseteq> to_move c" using more by (auto simp: to_move_def)
  then have "card (to_move ?c) \<le> card (to_move c)" by (rule card_mono [rotated]) (simp add: to_move_def)
  then have "RelocateTarget c * card (to_move ?c) \<le> RelocateTarget c * card (to_move c)" by (rule mult_le_mono2)
  also have "\<dots> \<le> RelocateSource c * (room c - 64)" using inv'(8) ready by (simp add: pace_def)
  finally have "pace ?c" using inv'(8) ready by (simp add: pace_def room_def)
  moreover have "window_ok d ?c" using inv'(9) ready more by (auto simp: window_ok_def)
  ultimately show ?thesis
    using inv' wf by (simp add: ftl_inv_def ftl_parts)
qed

lemma extended_vread:
  assumes inv: "ftl_inv d c" and ext: "can_extend c LBA n" and m: "\<And>p. p < CachePos c \<Longrightarrow> m p = CacheMem c p"
  shows "vread d (extended c LBA n m) L =
    (if LBA \<le> L \<and> L < LBA + n then m (CachePos c + (L - LBA)) else vread d c L)"
proof -
  let ?c = "extended c LBA n m"
  have wf: "cache_wf c" "cache_wf ?c" using ftl_invD [OF inv] extended_wf [OF _ ext] by auto
  have c: "cached ?c L \<longleftrightarrow> cached c L \<or> (LBA \<le> L \<and> L < LBA + n)"
    using extended_wf [OF wf(1) ext] ftl_invD(1) [OF inv] by blast
  have small: "LBA + n \<le> 4294967296"
    using ext geom_size [OF ftl_invD(1) [OF inv]] by (simp add: can_extend_def)
  consider "LBA \<le> L \<and> L < LBA + n" | "cached c L" "\<not> (LBA \<le> L \<and> L < LBA + n)" 
    | "\<not> cached c L" "\<not> (LBA \<le> L \<and> L < LBA + n)" by blast
  then show ?thesis
  proof cases
    case 1
    then have "vread d ?c L = CacheMem ?c (CachePos c + (L - LBA))"
      using wf(2) small by (intro vread_cached) (auto simp: put_lba_in)
    with 1 show ?thesis by simp
  next
    case 2
    then obtain p where p: "p < CachePos c" "CacheLBA c p = L" by (auto simp: cached_def)
    then have "vread d ?c L = CacheMem ?c p" using wf(2) by (intro vread_cached) (simp_all add: put_lba_out)
    moreover have "vread d c L = CacheMem c p" using vread_cached [OF wf(1) p] .
    ultimately show ?thesis using 2(2) m p(1) by auto
  next
    case 3
    then show ?thesis using vread_uncached [OF wf(1)] vread_uncached [OF wf(2)] c by auto
  qed
qed

section \<open>Addresses\<close>

lemma addr_split:
  assumes "off8 m = 0" "r < 8"
  shows "(m + r) div SIZE_OF_CHUNK = m div SIZE_OF_CHUNK"
    "(m + r) mod SIZE_OF_CHUNK = m mod SIZE_OF_CHUNK + r"
proof -
  obtain k where k: "m = 8 * k" using assms(1) unfolding off8_def by (rule mult8E)
  have c: "SIZE_OF_CHUNK = 8 * 32768" by simp
  have "m mod SIZE_OF_CHUNK = 8 * (k mod 32768)" unfolding k c by (simp only: mult_mod_right)
  moreover have "8 * (k mod 32768) + r < SIZE_OF_CHUNK" using assms(2) by simp
  moreover have "m + r = m div SIZE_OF_CHUNK * SIZE_OF_CHUNK + (m mod SIZE_OF_CHUNK + r)" by simp
  ultimately show "(m + r) div SIZE_OF_CHUNK = m div SIZE_OF_CHUNK"
    "(m + r) mod SIZE_OF_CHUNK = m mod SIZE_OF_CHUNK + r"
    by (metis div_mult_self3 div_less add.right_neutral add.commute size_defs(4) zero_neq_numeral,
        metis mod_less mod_mult_self3)
qed

lemma write_elsewhere:
  assumes "a div SIZE_OF_CHUNK \<noteq> ch \<or> a mod SIZE_OF_CHUNK < pos \<or> pos + n \<le> a mod SIZE_OF_CHUNK"
    "pos + n \<le> SIZE_OF_CHUNK"
  shows "copy_sectors d (ch * SIZE_OF_CHUNK + pos) m s n a = d a"
proof (rule copy_sectors_out, rule ccontr)
  assume "\<not> (a < ch * SIZE_OF_CHUNK + pos \<or> ch * SIZE_OF_CHUNK + pos + n \<le> a)"
  then have "a = ch * SIZE_OF_CHUNK + (a - ch * SIZE_OF_CHUNK)" "a - ch * SIZE_OF_CHUNK < SIZE_OF_CHUNK"
    "pos \<le> a - ch * SIZE_OF_CHUNK" "a - ch * SIZE_OF_CHUNK < pos + n"
    using assms(2) by auto
  then show False using assms(1) chunk_of_phys pos_of_phys by (metis leD)
qed

lemma ctl_on_write:
  assumes "ch' \<noteq> ch \<or> pos + n \<le> LAST_PURGE_POS" "pos + n \<le> SIZE_OF_CHUNK" "w < CTL_WORDS"
  shows "ctl_on (copy_sectors d (ch * SIZE_OF_CHUNK + pos) m s n) ch' w = ctl_on d ch' w"
proof -
  have w: "w div 128 < 256" using assms(3) by (simp add: CTL_WORDS_def)
  then have "LAST_PURGE_POS + w div 128 < SIZE_OF_CHUNK" by simp
  then have "(ch' * SIZE_OF_CHUNK + LAST_PURGE_POS + w div 128) div SIZE_OF_CHUNK = ch'"
    "(ch' * SIZE_OF_CHUNK + LAST_PURGE_POS + w div 128) mod SIZE_OF_CHUNK = LAST_PURGE_POS + w div 128"
    using chunk_of_phys pos_of_phys by (simp_all only: add.assoc)
  then show ?thesis
    unfolding ctl_on_def using assms(1,2) by (subst write_elsewhere) auto
qed

section \<open>Writing the cache to the medium\<close>

lemma stop_timer_same [simp]: "same_ftl c (stop_timer c)"
  by (simp add: stop_timer_def KeCancelTimer_def same_ftl_def)

lemma purge_image_eq:
  obtains t ta where "purge_image c = c\<lparr>Timer := t, TimerActive := ta,
    CacheMem := (CacheMem c)(LAST_CACHE_POS := purge_sector c), ChunkCtl := purge_chunk_ctl c\<rparr>"
proof -
  obtain t ta where t: "stop_timer c = c\<lparr>Timer := t, TimerActive := ta\<rparr>"
  proof
    show "stop_timer c = c\<lparr>Timer := Timer (stop_timer c), TimerActive := TimerActive (stop_timer c)\<rparr>"
      by (cases c) (simp add: stop_timer_def KeCancelTimer_def)
  qed
  have "purge_lba (stop_timer c) = purge_lba c" by (rule ext) (simp add: t purge_lba_def)
  moreover from this have "purge_ctl_word (stop_timer c) = purge_ctl_word c"
    by (intro ext) (simp add: t purge_ctl_word_def)
  ultimately have "purge_sector (stop_timer c) = purge_sector c" "purge_chunk_ctl (stop_timer c) = purge_chunk_ctl c"
    by (simp_all add: t purge_sector_def purge_chunk_ctl_def cong: if_cong)
  then show ?thesis using that [of ta t] by (simp add: purge_image_def Let_def t)
qed

lemma purge_sector_lba: "k < 64 \<Longrightarrow> purge_sector c (5 + k) = of_nat (purge_lba c k)"
proof -
  assume k: "k < 64"
  let ?ws = "map (purge_ctl_word c) [0..<PURGE_WORDS]"
  have "take (length ?ws - 4) (ProduceChecksum128 ?ws) = take (length ?ws - 4) ?ws"
    by (rule Produce_body) (simp add: PURGE_WORDS_def)
  then have "take 73 (ProduceChecksum128 ?ws) ! (5 + k) = take 73 ?ws ! (5 + k)" by (simp add: PURGE_WORDS_def)
  then have "ProduceChecksum128 ?ws ! (5 + k) = ?ws ! (5 + k)" using k by simp
  then show ?thesis using k by (simp add: purge_sector_def PURGE_WORDS_def Let_def purge_ctl_word_def)
qed

lemma cache_lba_small:
  assumes "cache_wf c" "geom c" "p < CachePos c" shows "CacheLBA c p < 104857600"
  using cache_wfD(3) [OF assms(1,3)] geom_size [OF assms(2)] by (simp add: blk_less_iff)

lemma purge_image_lba:
  assumes "cache_wf c" "geom c" "8 * k < CachePos c"
  shows "purge_ctl_LBA (purge_image c) k = CacheLBA c (8 * k)"
proof -
  have k: "k < 64" using assms(1,3) by (simp add: cache_wf_def)
  obtain t ta where p: "purge_image c = c\<lparr>Timer := t, TimerActive := ta,
    CacheMem := (CacheMem c)(LAST_CACHE_POS := purge_sector c), ChunkCtl := purge_chunk_ctl c\<rparr>"
    by (rule purge_image_eq)
  show ?thesis
    using purge_sector_lba [OF k, of c] cache_lba_small [OF assms(1,2,3)] assms(3)
    by (simp add: purge_ctl_LBA_def p purge_lba_def)
qed

lemma cached_head: "cache_wf c \<Longrightarrow> p < CachePos c \<Longrightarrow> cached c (8 * blk (CacheLBA c p))"
  using cache_wf_head [of c p] base8_le [of p] by (auto simp: cached_def base8_blk intro!: exI [of _ "base8 p"])

lemma head_pos:
  assumes "cache_wf c" "cached c (8 * j)" 
  obtains k where "8 * k < CachePos c" "CacheLBA c (8 * k) = 8 * j"
proof -
  obtain p where p: "p < CachePos c" "CacheLBA c p = 8 * j" using assms(2) by (auto simp: cached_def)
  then have "off8 p = 0" using cache_wfD(1) [OF assms(1) p(1)] by simp
  then show ?thesis using that [of "blk p"] p lba_split [of p] by simp
qed

lemma um_step_form: "\<exists>M I. um_step j ch p c = c\<lparr>Map := M, ChunkInfo := I\<rparr>"
proof
  show "\<exists>I. um_step j ch p c = c\<lparr>Map := Map (um_step j ch p c), ChunkInfo := I\<rparr>"
    by (rule exI [of _ "ChunkInfo (um_step j ch p c)"])
       (cases c, simp add: um_step_def Let_def set_map_def dec_used_def)
qed

lemma um_loop_form: "\<exists>M I. um_loop L n ch p i c = c\<lparr>Map := M, ChunkInfo := I\<rparr>"
proof (induction L n ch p i c rule: um_loop.induct)
  case (1 L n ch p i c)
  show ?case
  proof (cases "i < n")
    case True
    obtain M I where "um_step (blk (L (i div 8))) ch p c = c\<lparr>Map := M, ChunkInfo := I\<rparr>"
      using um_step_form by blast
    then show ?thesis using "1.IH" [OF True] True by (simp add: um_loop.simps [of _ _ _ _ i])
  next
    case False
    show ?thesis
      by (intro exI [of _ "Map c"] exI [of _ "ChunkInfo c"]) (cases c, simp add: um_loop.simps [of _ _ _ _ i] False)
  qed
qed

text \<open>The state after the purge that \<open>ExecutePurgeCache\<close> starts has been served.\<close>

definition purge_served :: "mem \<Rightarrow> ctx \<Rightarrow> mem \<times> ctx" where
  "purge_served d c =
     (copy_sectors d (phys (ChunkNo c) (PurgePos c)) (CacheMem (purge_image c)) 0 SIZE_OF_CACHE,
      cache_purged (purge_image c))"

text \<open>What is known of it, with the map and the use counts still described by their effect.\<close>

lemma purge_served_form:
  assumes inv: "geom c" "cache_wf c" "map_ok c" "used_ok c" "newest c"
    and full: "off8 (CachePos c) = 0" and fit: "PurgePos c + SIZE_OF_CACHE \<le> LAST_PURGE_POS"
  obtains t ta M I where
    "snd (purge_served d c) = c\<lparr>Timer := t, TimerActive := ta,
       CacheMem := (CacheMem c)(LAST_CACHE_POS := purge_sector c), ChunkCtl := purge_chunk_ctl c,
       Map := M, ChunkInfo := I, CachePos := 0, PurgePos := PurgePos c + SIZE_OF_CACHE,
       RelocationDone := False, CacheDirty := False\<rparr>"
    "fst (purge_served d c) = copy_sectors d (ChunkNo c * SIZE_OF_CHUNK + PurgePos c)
       ((CacheMem c)(LAST_CACHE_POS := purge_sector c)) 0 SIZE_OF_CACHE"
    "\<And>k. 8 * k < CachePos c \<Longrightarrow> M (blk (CacheLBA c (8 * k))) = ChunkNo c * SIZE_OF_CHUNK + PurgePos c + 8 * k"
    "\<And>j. \<not> cached c (8 * j) \<Longrightarrow> M j = Map c j"
    "used_ok (snd (purge_served d c))"
    "\<And>k. SCN (I k) = SCN (ChunkInfo c k)"
proof -
  obtain t ta where pi: "purge_image c = c\<lparr>Timer := t, TimerActive := ta,
    CacheMem := (CacheMem c)(LAST_CACHE_POS := purge_sector c), ChunkCtl := purge_chunk_ctl c\<rparr>"
    by (rule purge_image_eq)
  let ?c1 = "purge_image c" and ?p = "ChunkNo c * SIZE_OF_CHUNK + PurgePos c"
  let ?u = "um_loop (purge_ctl_LBA ?c1) (CachePos c) (ChunkNo c) ?p 0 ?c1"
  have ch: "ChunkNo c < 500" "PurgePos c < SIZE_OF_CHUNK" using inv(1) fit by (auto simp: geom_def)
  have ph: "phys (ChunkNo c) (PurgePos c) = ?p" using phys_eq [OF ch] .
  have dv: "?p div SIZE_OF_CHUNK = ChunkNo c" using ch(2) by simp
  have s: "ChunkNo ?c1 = ChunkNo c" "PurgePos ?c1 = PurgePos c" "CachePos ?c1 = CachePos c" by (simp_all add: pi)
  have U: "cache_purged ?c1 = ?u\<lparr>CachePos := 0, PurgePos := PurgePos ?u + SIZE_OF_CACHE,
      RelocationDone := False, CacheDirty := False\<rparr>"
    unfolding cache_purged_def UpdateMap_def Let_def by (simp only: s ph dv)
  obtain M I where MI: "?u = ?c1\<lparr>Map := M, ChunkInfo := I\<rparr>" using um_loop_form by blast
  have range: "map_in_range ?c1" "SIZE_OF_MAP ?c1 < 4294967296" "MAX_CHUNKS ?c1 \<le> 500" "ChunkNo c < MAX_CHUNKS ?c1"
    using inv(1,3) by (auto simp: pi map_in_range_def map_ok_def geom_def)
  have used: "used_ok ?c1" using inv(4) by (simp add: pi used_ok_def used_set_def)
  have n8: "CachePos c mod 8 = 0" using full by (simp add: off8_def)
  have n: "CachePos c \<le> 504" using inv(2) by (simp add: cache_wf_def)
  have uo: "used_ok ?u"
    using um_loop_used_ok [of ?c1 "ChunkNo c" ?p "CachePos c" 0 "purge_ctl_LBA ?c1", OF used range(1,2,4) _ _ range(3)]
      n8 n fit by simp
  have L: "purge_ctl_LBA ?c1 k = CacheLBA c (8 * k)" if "8 * k < CachePos c" for k
    using purge_image_lba [OF inv(2,1) that] .
  have new: "\<forall>k < MAX_CHUNKS ?c1. SCN (ChunkInfo ?c1 k) \<le> SCN (ChunkInfo ?c1 (ChunkNo c))"
    using inv(5) by (simp add: pi newest_def)
  have dist: "k = k'" if "8 * k < CachePos c" "8 * k' < CachePos c"
      "blk (purge_ctl_LBA ?c1 k) = blk (purge_ctl_LBA ?c1 k')" for k k'
  proof -
    have "off8 (CacheLBA c (8 * k)) = 0" "off8 (CacheLBA c (8 * k')) = 0"
      using cache_wfD(1) [OF inv(2)] that(1,2) by simp_all
    then have "CacheLBA c (8 * k) = CacheLBA c (8 * k')"
      using that(3) L [OF that(1)] L [OF that(2)] lba_split by (metis add.right_neutral)
    then show ?thesis using cache_wf_inj [OF inv(2) that(1,2)] by simp
  qed
  have dev: "blk (purge_ctl_LBA ?c1 k) < SIZE_OF_MAP ?c1" if "8 * k < CachePos c" for k
    using cache_wfD(3) [OF inv(2) that] L [OF that] by (simp add: pi)
  have MU: "Map ?u = M" unfolding MI by simp
  have Mc: "Map ?c1 = Map c" by (simp add: pi)
  have "(\<forall>k. 0 \<le> 8 * k \<longrightarrow> 8 * k < CachePos c \<longrightarrow> Map ?u (blk (purge_ctl_LBA ?c1 k)) = ?p + (8 * k - 0)) \<and>
    (\<forall>j. (\<forall>k. 0 \<le> 8 * k \<longrightarrow> 8 * k < CachePos c \<longrightarrow> blk (purge_ctl_LBA ?c1 k) \<noteq> j) \<longrightarrow> Map ?u j = Map ?c1 j)"
    using n8 n fit dev dist by (intro um_loop_Map [OF range(1,4,3) _ _ _ _ new]) simp_all
  then have M: "\<And>k. 8 * k < CachePos c \<Longrightarrow> M (blk (CacheLBA c (8 * k))) = ?p + 8 * k"
    "\<And>j. (\<And>k. 8 * k < CachePos c \<Longrightarrow> blk (CacheLBA c (8 * k)) \<noteq> j) \<Longrightarrow> M j = Map c j"
    using L unfolding MU Mc by simp_all
  have M2: "M j = Map c j" if "\<not> cached c (8 * j)" for j
  proof (rule M(2))
    fix k assume k: "8 * k < CachePos c"
    show "blk (CacheLBA c (8 * k)) \<noteq> j" using cached_head [OF inv(2) k] that by auto
  qed
  have scn: "SCN (I k) = SCN (ChunkInfo c k)" for k
  proof -
    have "SCN (ChunkInfo ?u k) = SCN (ChunkInfo ?c1 k)" by simp
    then show ?thesis unfolding MI by (simp add: pi)
  qed
  have "used_ok (cache_purged ?c1)" using uo unfolding U by (simp add: used_ok_def used_set_def)
  then show thesis
    using that [where t = t and ta = ta and M = M and I = I] M(1) M2 scn
    unfolding purge_served_def fst_conv snd_conv U MI ph by (simp add: pi)
qed

text \<open>What a purge does, as far as the invariant and the abstraction depend on it.\<close>

definition purge_effect :: "mem \<Rightarrow> ctx \<Rightarrow> mem \<Rightarrow> ctx \<Rightarrow> bool" where
  "purge_effect d c d' c' \<longleftrightarrow>
     (\<exists>m. same_ftl (c\<lparr>CacheMem := m, ChunkCtl := purge_chunk_ctl c,
       Map := Map c', ChunkInfo := ChunkInfo c', CachePos := 0, PurgePos := PurgePos c + SIZE_OF_CACHE,
       RelocationDone := False, CacheDirty := False\<rparr>) c' \<and> (\<forall>p < LAST_CACHE_POS. m p = CacheMem c p) \<and> m LAST_CACHE_POS = purge_sector c \<and>
       d' = copy_sectors d (ChunkNo c * SIZE_OF_CHUNK + PurgePos c) m 0 SIZE_OF_CACHE) \<and>
     (\<forall>k. 8 * k < CachePos c \<longrightarrow> Map c' (blk (CacheLBA c (8 * k))) = ChunkNo c * SIZE_OF_CHUNK + PurgePos c + 8 * k) \<and>
     (\<forall>j. \<not> cached c (8 * j) \<longrightarrow> Map c' j = Map c j) \<and> used_ok c' \<and>
     (\<forall>k. SCN (ChunkInfo c' k) = SCN (ChunkInfo c k))"

lemma purge_served_effect:
  assumes "geom c" "cache_wf c" "map_ok c" "used_ok c" "newest c"
    "off8 (CachePos c) = 0" "PurgePos c + SIZE_OF_CACHE \<le> LAST_PURGE_POS"
  shows "purge_effect d c (fst (purge_served d c)) (snd (purge_served d c))"
proof (rule purge_served_form [OF assms, of d])
  fix t ta M I
  assume A: "snd (purge_served d c) = c\<lparr>Timer := t, TimerActive := ta,
       CacheMem := (CacheMem c)(LAST_CACHE_POS := purge_sector c), ChunkCtl := purge_chunk_ctl c,
       Map := M, ChunkInfo := I, CachePos := 0, PurgePos := PurgePos c + SIZE_OF_CACHE,
       RelocationDone := False, CacheDirty := False\<rparr>"
    and D: "fst (purge_served d c) = copy_sectors d (ChunkNo c * SIZE_OF_CHUNK + PurgePos c)
       ((CacheMem c)(LAST_CACHE_POS := purge_sector c)) 0 SIZE_OF_CACHE"
    and B: "\<And>k. 8 * k < CachePos c \<Longrightarrow> M (blk (CacheLBA c (8 * k))) = ChunkNo c * SIZE_OF_CHUNK + PurgePos c + 8 * k"
    "\<And>j. \<not> cached c (8 * j) \<Longrightarrow> M j = Map c j"
    "used_ok (snd (purge_served d c))"
    "\<And>k. SCN (I k) = SCN (ChunkInfo c k)"
  show ?thesis
    unfolding purge_effect_def D using B
    by (intro conjI exI [of _ "(CacheMem c)(LAST_CACHE_POS := purge_sector c)"])
       (simp_all add: A same_ftl_def)
qed

lemma cached_block_map:
  assumes "cache_wf c" "off8 (CachePos c) = 0" "p < CachePos c"
    and eff: "\<forall>k. 8 * k < CachePos c \<longrightarrow> M (blk (CacheLBA c (8 * k))) = b + 8 * k"
  shows "M (blk (CacheLBA c p)) = b + base8 p"
proof -
  have "8 * blk p < CachePos c" using assms(3) lba_split [of p] by simp
  moreover have "blk (CacheLBA c (8 * blk p)) = blk (CacheLBA c p)"
    using cache_wfD(2) [OF assms(1,3)] by (simp add: base8_blk)
  ultimately show ?thesis using eff by (metis base8_blk)
qed

lemma block_below: "off8 a = 0 \<Longrightarrow> off8 b = 0 \<Longrightarrow> a < b \<Longrightarrow> r < 8 \<Longrightarrow> a + r < b"
  using lba_split [of a] lba_split [of b] by (cases "blk a < blk b") simp_all

lemma geom_aligned: "geom c \<Longrightarrow> off8 (PurgePos c) = 0"
  using mod_mod_cancel [of 8 512 "PurgePos c"] by (simp add: geom_def off8_def)

lemma purge_vread:
  assumes inv: "geom c" "cache_wf c" "map_ok c" and full: "off8 (CachePos c) = 0"
    and fit: "PurgePos c + SIZE_OF_CACHE \<le> LAST_PURGE_POS"
    and eff: "purge_effect d c d' c'" and dev: "in_dev c L"
  shows "vread d' c' L = vread d c L"
proof -
  obtain m where s: "CachePos c' = 0" and d': "d' = copy_sectors d (ChunkNo c * SIZE_OF_CHUNK + PurgePos c) m 0 SIZE_OF_CACHE"
    and m: "\<And>p. p < LAST_CACHE_POS \<Longrightarrow> m p = CacheMem c p"
    using eff unfolding purge_effect_def same_ftl_def by auto
  have wf': "cache_wf c'" "\<not> cached c' L" using s by (simp_all add: cache_wf_def cached_def)
  have v': "vread d' c' L = (if Map c' (blk L) = NOT_MAPPED then zero_sector else d' (Map c' (blk L) + off8 L))"
    using vread_uncached [OF wf'] .
  have P8: "off8 (PurgePos c) = 0" using inv(1) by (rule geom_aligned)
  show ?thesis
  proof (cases "cached c L")
    case True
    then obtain p where p: "p < CachePos c" "CacheLBA c p = L" by (auto simp: cached_def)
    have p504: "p < LAST_CACHE_POS" using p(1) inv(2) by (simp add: cache_wf_def)
    have M: "Map c' (blk L) = ChunkNo c * SIZE_OF_CHUNK + PurgePos c + base8 p"
      using cached_block_map [OF inv(2) full p(1), of "Map c'"] eff p(2) unfolding purge_effect_def by blast
    have ch: "ChunkNo c < 500" using inv(1) by (simp add: geom_def)
    have "Map c' (blk L) \<noteq> NOT_MAPPED" using M ch fit base8_le [of p] p504 by simp
    moreover have "Map c' (blk L) + off8 L = ChunkNo c * SIZE_OF_CHUNK + PurgePos c + p"
      using M cache_wfD(1) [OF inv(2) p(1)] p(2) lba_split [of p] by (simp add: base8_blk)
    moreover have "d' (ChunkNo c * SIZE_OF_CHUNK + PurgePos c + p) = CacheMem c p"
      using p504 m unfolding d' by (subst copy_sectors_in) simp_all
    ultimately show ?thesis using v' vread_cached [OF inv(2) p] by simp
  next
    case False
    then have "\<not> cached c (8 * blk L)" using block_cached [OF inv(2) full, of "8 * blk L" L] by auto
    then have M: "Map c' (blk L) = Map c (blk L)" using eff unfolding purge_effect_def by blast
    have "d' (Map c (blk L) + off8 L) = d (Map c (blk L) + off8 L)" if nm: "Map c (blk L) \<noteq> NOT_MAPPED"
    proof -
      have j: "blk L < SIZE_OF_MAP c" using dev by (simp add: in_dev_def blk_less_iff)
      have a: "off8 (Map c (blk L)) = 0" "Map c (blk L) mod SIZE_OF_CHUNK < LAST_PURGE_POS"
        "Map c (blk L) div SIZE_OF_CHUNK = ChunkNo c \<Longrightarrow> Map c (blk L) mod SIZE_OF_CHUNK < PurgePos c"
        using inv(3) j nm unfolding map_ok_def by blast+
      have m8: "off8 (Map c (blk L) mod SIZE_OF_CHUNK) = 0"
        using a(1) by (simp add: off8_def mod_mod_cancel)
      have lt: "Map c (blk L) mod SIZE_OF_CHUNK + off8 L < PurgePos c" if "Map c (blk L) mod SIZE_OF_CHUNK < PurgePos c"
        by (rule block_below [OF m8 P8 that off8_less])
      show ?thesis
        unfolding d' using a lt addr_split [OF a(1), of "off8 L"] fit by (intro write_elsewhere) auto
    qed
    then show ?thesis using v' vread_uncached [OF inv(2) False] M by simp
  qed
qed

lemma purge_effectD:
  assumes "purge_effect d c d' c'"
  shows "SIZE_OF_MAP c' = SIZE_OF_MAP c" "MAX_CHUNKS c' = MAX_CHUNKS c" "ChunkNo c' = ChunkNo c"
    "NextChunkNo c' = NextChunkNo c" "ChunkCtl c' = purge_chunk_ctl c" "NextChunkCtl c' = NextChunkCtl c"
    "FinalizedPos c' = FinalizedPos c" "PurgePos c' = PurgePos c + SIZE_OF_CACHE" "CachePos c' = 0"
    "RelocateMem c' = RelocateMem c" "RelocatePos c' = RelocatePos c"
    "RelocateWindowStart c' = RelocateWindowStart c" "RelocateWindowEnd c' = RelocateWindowEnd c"
    "RelocateTarget c' = RelocateTarget c" "RelocateSource c' = RelocateSource c"
    "RelocationPrepared c' = RelocationPrepared c" "\<not> RelocationDone c'" "used_ok c'"
    "\<And>j. \<not> cached c (8 * j) \<Longrightarrow> Map c' j = Map c j" "\<And>k. SCN (ChunkInfo c' k) = SCN (ChunkInfo c k)"
    "\<And>k. 8 * k < CachePos c \<Longrightarrow> Map c' (blk (CacheLBA c (8 * k))) = ChunkNo c * SIZE_OF_CHUNK + PurgePos c + 8 * k"
    "\<exists>m. d' = copy_sectors d (ChunkNo c * SIZE_OF_CHUNK + PurgePos c) m 0 SIZE_OF_CACHE" "\<not> CacheDirty c'"
  using assms unfolding purge_effect_def same_ftl_def by auto

lemma purge_map_cases:
  assumes "purge_effect d c d' c'" "cache_wf c"
  obtains (Moved) k where "8 * k < CachePos c" "CacheLBA c (8 * k) = 8 * j"
      "Map c' j = ChunkNo c * SIZE_OF_CHUNK + PurgePos c + 8 * k"
    | (Kept) "\<not> cached c (8 * j)" "Map c' j = Map c j"
proof (cases "cached c (8 * j)")
  case True
  then obtain k where "8 * k < CachePos c" "CacheLBA c (8 * k) = 8 * j" by (rule head_pos [OF assms(2)])
  then show ?thesis using Moved purge_effectD(21) [OF assms(1), of k] by simp
next
  case False
  then show ?thesis using Kept purge_effectD(19) [OF assms(1)] by blast
qed

lemma purge_addr:
  assumes "PurgePos c + SIZE_OF_CACHE \<le> LAST_PURGE_POS" "8 * k < SIZE_OF_CACHE" "off8 (PurgePos c) = 0"
  defines "a \<equiv> ChunkNo c * SIZE_OF_CHUNK + PurgePos c + 8 * k"
  shows "a div SIZE_OF_CHUNK = ChunkNo c" "a mod SIZE_OF_CHUNK = PurgePos c + 8 * k" "off8 a = 0"
proof -
  have "PurgePos c + 8 * k < SIZE_OF_CHUNK" using assms(1,2) by simp
  then show "a div SIZE_OF_CHUNK = ChunkNo c" "a mod SIZE_OF_CHUNK = PurgePos c + 8 * k"
    unfolding a_def add.assoc by (rule chunk_of_phys, rule pos_of_phys)
  obtain p where "PurgePos c = 8 * p" using assms(3) unfolding off8_def by (rule mult8E)
  then have "a = 8 * (ChunkNo c * 32768 + p + k)" unfolding a_def by simp
  then show "off8 a = 0" by (simp only: blk_mult)
qed

lemma purge_chunk_ctl_in:
  assumes "8 * k < CachePos c" "CachePos c \<le> SIZE_OF_CACHE" "off8 (PurgePos c) = 0"
  shows "purge_chunk_ctl c (8 + (PurgePos c + 8 * k) div 8) = of_nat (CacheLBA c (8 * k))"
proof -
  obtain p where p: "PurgePos c = 8 * p" using assms(3) unfolding off8_def by (rule mult8E)
  then have "(PurgePos c + 8 * k) div 8 = p + k" by simp
  then show ?thesis using assms(1,2) p by (simp add: purge_chunk_ctl_def purge_lba_def)
qed

lemma purge_chunk_ctl_below:
  assumes "a < PurgePos c" "off8 a = 0" "off8 (PurgePos c) = 0"
  shows "purge_chunk_ctl c (8 + a div 8) = ChunkCtl c (8 + a div 8)"
proof -
  have "a div 8 < PurgePos c div 8"
    using assms lba_split [of a] lba_split [of "PurgePos c"] by (simp add: blk_def)
  then show ?thesis by (simp add: purge_chunk_ctl_def)
qed

text \<open>A purge of full blocks, from a state where the invariant holds.\<close>

definition can_purge :: "mem \<Rightarrow> ctx \<Rightarrow> mem \<Rightarrow> ctx \<Rightarrow> bool" where
  "can_purge d c d' c' \<longleftrightarrow> ftl_inv d c \<and> off8 (CachePos c) = 0 \<and>
     PurgePos c + SIZE_OF_CACHE \<le> LAST_PURGE_POS \<and> purge_effect d c d' c'"

lemma can_purgeD:
  assumes "can_purge d c d' c'"
  shows "ftl_inv d c" "off8 (CachePos c) = 0" "PurgePos c + SIZE_OF_CACHE \<le> LAST_PURGE_POS" "purge_effect d c d' c'"
  using assms by (simp_all only: can_purge_def)

lemma purge_facts:
  assumes "can_purge d c d' c'"
  shows "cache_wf c" "geom c" "off8 (PurgePos c) = 0" "CachePos c \<le> SIZE_OF_CACHE"
proof -
  show wf: "cache_wf c" and "geom c" using ftl_invD [OF can_purgeD(1) [OF assms]] by blast+
  then show "off8 (PurgePos c) = 0" by (intro geom_aligned)
  show "CachePos c \<le> SIZE_OF_CACHE" using wf by (simp add: cache_wf_def)
qed

lemma purge_geom:
  assumes A: "can_purge d c d' c'"
  shows "geom c'"
proof -
  note inv = can_purgeD(1) [OF A] and fit = can_purgeD(3) [OF A] and eff = can_purgeD(4) [OF A]
    and purge_facts = purge_facts [OF A]
  have "(PurgePos c + SIZE_OF_CACHE) mod SIZE_OF_CACHE = 0" using purge_facts(2) unfolding geom_def by simp
  then show ?thesis using purge_facts(2) fit purge_effectD [OF eff] by (simp add: geom_def)
qed

lemma purge_map_ok:
  assumes A: "can_purge d c d' c'"
  shows "map_ok c'"
  unfolding map_ok_def
proof (intro allI impI)
  note inv = can_purgeD(1) [OF A] and fit = can_purgeD(3) [OF A] and eff = can_purgeD(4) [OF A]
    and purge_facts = purge_facts [OF A]
  fix j assume j: "j < SIZE_OF_MAP c'" "Map c' j \<noteq> NOT_MAPPED"
  show "off8 (Map c' j) = 0 \<and> Map c' j div SIZE_OF_CHUNK < MAX_CHUNKS c' \<and>
        Map c' j mod SIZE_OF_CHUNK < LAST_PURGE_POS \<and>
        (Map c' j div SIZE_OF_CHUNK = ChunkNo c' \<longrightarrow> Map c' j mod SIZE_OF_CHUNK < PurgePos c')"
  proof (cases rule: purge_map_cases [OF eff purge_facts(1), of j])
    case (1 k)
    have k: "8 * k < SIZE_OF_CACHE" using 1(1) purge_facts(4) by simp
    show ?thesis
      using purge_addr [OF fit k purge_facts(3)] purge_facts(2) fit k
      unfolding 1(3) purge_effectD [OF eff] by (simp add: geom_def)
  next
    case 2
    then show ?thesis using ftl_invD(3) [OF inv] j unfolding map_ok_def purge_effectD [OF eff] 2(2)
      by (metis trans_less_add1)
  qed
qed

lemma purge_dir_ok:
  assumes A: "can_purge d c d' c'"
  shows "dir_ok d' c'"
  unfolding dir_ok_def
proof (intro allI impI)
  note inv = can_purgeD(1) [OF A] and fit = can_purgeD(3) [OF A] and eff = can_purgeD(4) [OF A]
    and purge_facts = purge_facts [OF A]
  fix j assume j: "j < SIZE_OF_MAP c'" "Map c' j \<noteq> NOT_MAPPED"
  let ?w = "\<lambda>d c. unat (dir_word d c (Map c' j div SIZE_OF_CHUNK) (Map c' j mod SIZE_OF_CHUNK div 8))"
  show "?w d' c' = 8 * j"
  proof (cases rule: purge_map_cases [OF eff purge_facts(1), of j])
    case (1 k)
    have k: "8 * k < SIZE_OF_CACHE" using 1(1) purge_facts(4) by simp
    have "unat (of_nat (CacheLBA c (8 * k)) :: u32) = CacheLBA c (8 * k)"
      using cache_lba_small [OF purge_facts(1,2) 1(1)] by (intro unat_of_nat32) simp
    then have "unat (purge_chunk_ctl c (8 + (PurgePos c + 8 * k) div 8)) = 8 * j"
      using purge_chunk_ctl_in [OF 1(1) purge_facts(4,3)] 1(2) by simp
    then show ?thesis
      unfolding 1(3) dir_word_def purge_effectD(3,5) [OF eff] purge_addr [OF fit k purge_facts(3)] by simp
  next
    case 2
    have j': "j < SIZE_OF_MAP c" "Map c j \<noteq> NOT_MAPPED" using j 2 purge_effectD [OF eff] by simp_all
    obtain m where d': "d' = copy_sectors d (ChunkNo c * SIZE_OF_CHUNK + PurgePos c) m 0 SIZE_OF_CACHE"
      using purge_effectD(22) [OF eff] by blast
    have a: "off8 (Map c j mod SIZE_OF_CHUNK) = 0" "Map c j mod SIZE_OF_CHUNK < LAST_PURGE_POS"
      "Map c j div SIZE_OF_CHUNK = ChunkNo c \<Longrightarrow> Map c j mod SIZE_OF_CHUNK < PurgePos c"
      using ftl_invD(3) [OF inv] j' unfolding map_ok_def by (simp_all add: off8_def mod_mod_cancel)
    have w: "8 + Map c j mod SIZE_OF_CHUNK div 8 < CTL_WORDS"
      using a(2) by (simp add: CTL_WORDS_def)
    have "ctl_on d' ch (8 + Map c j mod SIZE_OF_CHUNK div 8) = ctl_on d ch (8 + Map c j mod SIZE_OF_CHUNK div 8)" for ch
      unfolding d' using fit by (intro ctl_on_write) (use w in simp_all)
    then have "?w d' c' = ?w d c"
      unfolding dir_word_def purge_effectD(3,5) [OF eff] 2(2)
      using purge_chunk_ctl_below [OF a(3) a(1) purge_facts(3)] by simp
    also have "\<dots> = 8 * j" using ftl_invD(5) [OF inv] j' unfolding dir_ok_def 2(2) by blast
    finally show ?thesis .
  qed
qed

lemma purge_used_next:
  assumes A: "can_purge d c d' c'"
  shows "used_set c' (NextChunkNo c) \<subseteq> to_move c"
proof
  note inv = can_purgeD(1) [OF A] and fit = can_purgeD(3) [OF A] and eff = can_purgeD(4) [OF A]
    and purge_facts = purge_facts [OF A]
  fix j assume j: "j \<in> used_set c' (NextChunkNo c)"
  then have n: "Map c' j div SIZE_OF_CHUNK = NextChunkNo c" by (simp add: used_set_def)
  show "j \<in> to_move c"
  proof (cases rule: purge_map_cases [OF eff purge_facts(1), of j])
    case (1 k)
    have k: "8 * k < SIZE_OF_CACHE" using 1(1) purge_facts(4) by simp
    have "Map c' j div SIZE_OF_CHUNK = ChunkNo c" unfolding 1(3) by (rule purge_addr [OF fit k purge_facts(3)])
    then show ?thesis using n purge_facts(2) by (simp add: geom_def)
  next
    case 2
    then show ?thesis using j purge_effectD(1) [OF eff] by (simp add: to_move_def used_set_def)
  qed
qed

lemma purge_window_ok:
  assumes A: "can_purge d c d' c'" and B: "RelocationPrepared c"
  shows "window_ok d' c'"
proof -
  note inv = can_purgeD(1) [OF A] and fit = can_purgeD(3) [OF A] and eff = can_purgeD(4) [OF A]
    and purge_facts = purge_facts [OF A]
  obtain m where d': "d' = copy_sectors d (ChunkNo c * SIZE_OF_CHUNK + PurgePos c) m 0 SIZE_OF_CACHE"
    using purge_effectD(22) [OF eff] by blast
  note w = ftl_invD(9) [OF inv B, unfolded window_ok_def]
  have ne: "NextChunkNo c \<noteq> ChunkNo c" using purge_facts(2) by (simp add: geom_def)
  have ctl: "ctl_on d' (NextChunkNo c) (8 + k) = ctl_on d (NextChunkNo c) (8 + k)" if "k < LAST_PURGE_POS div 8" for k
    unfolding d' using fit by (intro ctl_on_write) (use that in \<open>simp_all add: CTL_WORDS_def\<close>)
  have data: "d' (NextChunkNo c * SIZE_OF_CHUNK + i) = d (NextChunkNo c * SIZE_OF_CHUNK + i)" if "i < RelocateWindowEnd c" for i
    unfolding d'
  proof (rule write_elsewhere)
    have "i < SIZE_OF_CHUNK" using that w by simp
    then show "(NextChunkNo c * SIZE_OF_CHUNK + i) div SIZE_OF_CHUNK \<noteq> ChunkNo c \<or>
      (NextChunkNo c * SIZE_OF_CHUNK + i) mod SIZE_OF_CHUNK < PurgePos c \<or>
      PurgePos c + SIZE_OF_CACHE \<le> (NextChunkNo c * SIZE_OF_CHUNK + i) mod SIZE_OF_CHUNK"
      using ne by (subst chunk_of_phys) simp_all
  qed (use fit in simp)
  have passed: "\<not> (Map c' j mod SIZE_OF_CHUNK < RelocatePos c)" if "j \<in> used_set c' (NextChunkNo c)" for j
  proof -
    have j: "j \<in> to_move c" using purge_used_next [OF A] that by blast
    then have "Map c' j = Map c j" using purge_effectD(19) [OF eff] by (simp add: to_move_def)
    then show ?thesis using j w by (auto simp: to_move_def)
  qed
  show ?thesis
    unfolding window_ok_def purge_effectD(4,6,10-13) [OF eff]
    using w ctl data passed by simp
qed

lemma purge_pace:
  assumes A: "can_purge d c d' c'" and B: "RelocationPrepared c" "RelocationDone c"
  shows "pace c'"
proof -
  note inv = can_purgeD(1) [OF A] and fit = can_purgeD(3) [OF A] and eff = can_purgeD(4) [OF A]
    and purge_facts = purge_facts [OF A]
  have p: "0 < RelocateTarget c \<and> RelocateTarget c \<le> 32704 \<and> 64 * RelocateSource c \<le> 63 * RelocateTarget c"
    "RelocateTarget c * card (to_move c) \<le> RelocateSource c * (room c - 64)"
    using ftl_invD(8) [OF inv] B by (simp_all add: pace_def)
  have r: "room c' = room c - 64" using purge_effectD(8) [OF eff] by (simp add: room_def)
  have m: "moving c'" using purge_effectD(9) [OF eff] by (simp add: moving_def off8_def)
  have "card (used_set c' (NextChunkNo c)) \<le> card (to_move c)"
    using purge_used_next [OF A] by (intro card_mono) (simp_all add: to_move_def)
  then have "RelocateTarget c * card (used_set c' (NextChunkNo c)) \<le> RelocateTarget c * card (to_move c)" by (rule mult_le_mono2)
  also note p(2)
  finally show ?thesis
    unfolding pace_def purge_effectD(4,14-17) [OF eff] r using p(1) m B(1) purge_effectD(17) [OF eff] by simp
qed

lemma purge_inv:
  assumes A: "can_purge d c d' c'" and B: "RelocationPrepared c" "RelocationDone c"
  shows "ftl_inv d' c'"
proof -
  note inv = can_purgeD(1) [OF A] and fit = can_purgeD(3) [OF A] and eff = can_purgeD(4) [OF A]
    and purge_facts = purge_facts [OF A]
  have "cache_wf c'" using purge_effectD(9) [OF eff] by (simp add: cache_wf_def)
  moreover have "final_ok d' c'"
    using ftl_invD(6) [OF inv] fit purge_effectD(7,8) [OF eff] by (simp add: final_ok_def)
  moreover have "newest c'"
    using ftl_invD(7) [OF inv] purge_effectD(2,3,20) [OF eff] by (simp add: newest_def)
  ultimately show ?thesis
    using purge_geom [OF A] purge_map_ok [OF A] purge_dir_ok [OF A] purge_window_ok [OF A B(1)] purge_pace [OF A B]
      purge_effectD(18) [OF eff] by (simp add: ftl_inv_def)
qed

section \<open>Writing the directory of a chunk\<close>

definition chunk_served :: "mem \<Rightarrow> ctx \<Rightarrow> mem \<times> ctx" where
  "chunk_served d c =
     (copy_sectors d (phys (ChunkNo c) LAST_PURGE_POS) (CacheMem (chunk_image c)) 0 SIZE_OF_CACHE,
      (chunk_image c)\<lparr>FinalizedPos := PurgePos (chunk_image c)\<rparr>)"

lemma seal_ctl_body:
  assumes "w < CTL_WORDS - 4" shows "seal_ctl ctl w = ctl w"
proof -
  let ?ws = "map ctl [0..<CTL_WORDS]"
  have l: "4 \<le> length ?ws" by (simp add: CTL_WORDS_def)
  have "take (CTL_WORDS - 4) (ProduceChecksum128 ?ws) = take (CTL_WORDS - 4) ?ws"
    using Produce_body [OF l] by (simp del: Produce_body)
  then have "take (CTL_WORDS - 4) (ProduceChecksum128 ?ws) ! w = take (CTL_WORDS - 4) ?ws ! w" by simp
  then have "ProduceChecksum128 ?ws ! w = ?ws ! w" using assms by (simp only: nth_take)
  moreover have "w < CTL_WORDS" using assms by simp
  ultimately show ?thesis by (simp add: seal_ctl_def Let_def)
qed

lemma chunk_image_form:
  obtains I ctl where "chunk_image c = c\<lparr>ChunkInfo := I, ChunkCtl := ctl, CacheMem := mem_of_ctl ctl (CacheMem c)\<rparr>"
    "\<And>k. SCN (I k) = SCN (ChunkInfo c k)" "\<And>k. Used (I k) = Used (ChunkInfo c k)"
    "\<And>k. k < LAST_PURGE_POS div 8 \<Longrightarrow> ctl (8 + k) = ChunkCtl c (8 + k)"
proof -
  let ?ctl = "seal_ctl (chunk_ctl_word (bump_wcn c))"
  have b: "chunk_image c = c\<lparr>ChunkInfo := ChunkInfo (bump_wcn c), ChunkCtl := ?ctl, CacheMem := mem_of_ctl ?ctl (CacheMem c)\<rparr>"
    by (simp add: chunk_image_def Let_def) (simp add: bump_wcn_def)
  have k: "?ctl (8 + k) = ChunkCtl c (8 + k)" if "k < LAST_PURGE_POS div 8" for k
  proof -
    have "?ctl (8 + k) = chunk_ctl_word (bump_wcn c) (8 + k)"
      using that by (intro seal_ctl_body) (simp add: CTL_WORDS_def)
    then show ?thesis by (simp add: chunk_ctl_word_def) (simp add: bump_wcn_def)
  qed
  show thesis
    by (rule that [OF b]) (use k in \<open>simp_all add: bump_wcn_def\<close>)
qed

lemma ctl_on_mem:
  assumes "w < CTL_WORDS"
  shows "ctl_on (copy_sectors d (ch * SIZE_OF_CHUNK + LAST_PURGE_POS) (mem_of_ctl ctl m) 0 SIZE_OF_CACHE) ch w = ctl w"
proof -
  have "w div 128 < SIZE_OF_CACHE" using assms by (simp add: CTL_WORDS_def)
  then have "copy_sectors d (ch * SIZE_OF_CHUNK + LAST_PURGE_POS) (mem_of_ctl ctl m) 0 SIZE_OF_CACHE
      (ch * SIZE_OF_CHUNK + LAST_PURGE_POS + w div 128) = mem_of_ctl ctl m (w div 128)"
    by (subst copy_sectors_in) simp_all
  then show ?thesis using assms by (simp add: ctl_on_def mem_of_ctl_def)
qed

lemma chunk_served_vread:
  assumes "geom c" "map_ok c" "CachePos c = 0" "in_dev c L"
  shows "vread (fst (chunk_served d c)) (snd (chunk_served d c)) L = vread d c L"
proof -
  obtain I ctl where ci: "chunk_image c = c\<lparr>ChunkInfo := I, ChunkCtl := ctl, CacheMem := mem_of_ctl ctl (CacheMem c)\<rparr>"
    by (rule chunk_image_form)
  have ph: "phys (ChunkNo c) LAST_PURGE_POS = ChunkNo c * SIZE_OF_CHUNK + LAST_PURGE_POS"
    using assms(1) by (intro phys_eq) (simp_all add: geom_def)
  have wf: "cache_wf c" "cache_wf (snd (chunk_served d c))"
    using assms(3) by (simp_all add: cache_wf_def chunk_served_def ci)
  have j: "blk L < SIZE_OF_MAP c" using assms(4) by (simp add: in_dev_def blk_less_iff)
  show ?thesis
  proof (rule vread_cong [OF wf(1) _ _ wf(2)])
    assume nm: "Map c (blk L) \<noteq> NOT_MAPPED"
    have a: "off8 (Map c (blk L)) = 0" "Map c (blk L) mod SIZE_OF_CHUNK < LAST_PURGE_POS"
      using assms(2) j nm unfolding map_ok_def by blast+
    have "off8 (Map c (blk L) mod SIZE_OF_CHUNK) = 0" using a(1) by (simp add: off8_def mod_mod_cancel)
    moreover have "off8 LAST_PURGE_POS = 0" by (simp add: off8_def)
    ultimately have "Map c (blk L) mod SIZE_OF_CHUNK + off8 L < LAST_PURGE_POS"
      using block_below a(2) off8_less by blast
    then show "fst (chunk_served d c) (Map c (blk L) + off8 L) = d (Map c (blk L) + off8 L)"
      unfolding chunk_served_def fst_conv ph using addr_split [OF a(1), of "off8 L"]
      by (intro write_elsewhere) simp_all
  qed (use assms(3) in \<open>simp_all add: chunk_served_def ci\<close>)
qed

lemma chunk_served_inv:
  assumes inv: "ftl_inv d c" and empty: "CachePos c = 0"
  shows "ftl_inv (fst (chunk_served d c)) (snd (chunk_served d c))"
proof -
  obtain I ctl where ci: "chunk_image c = c\<lparr>ChunkInfo := I, ChunkCtl := ctl, CacheMem := mem_of_ctl ctl (CacheMem c)\<rparr>"
    and I: "\<And>k. SCN (I k) = SCN (ChunkInfo c k)" "\<And>k. Used (I k) = Used (ChunkInfo c k)"
    and ctl: "\<And>k. k < LAST_PURGE_POS div 8 \<Longrightarrow> ctl (8 + k) = ChunkCtl c (8 + k)"
    by (rule chunk_image_form [of c]) blast
  note inv' = ftl_invD [OF inv]
  let ?d = "fst (chunk_served d c)"
  define c' where "c' = snd (chunk_served d c)"
  have c': "c' = c\<lparr>ChunkInfo := I, ChunkCtl := ctl, CacheMem := mem_of_ctl ctl (CacheMem c), FinalizedPos := PurgePos c\<rparr>"
    by (simp add: c'_def chunk_served_def ci)
  have ph: "phys (ChunkNo c) LAST_PURGE_POS = ChunkNo c * SIZE_OF_CHUNK + LAST_PURGE_POS"
    using inv'(1) by (intro phys_eq) (simp_all add: geom_def)
  have d': "?d = copy_sectors d (ChunkNo c * SIZE_OF_CHUNK + LAST_PURGE_POS) (mem_of_ctl ctl (CacheMem c)) 0 SIZE_OF_CACHE"
    unfolding chunk_served_def fst_conv ph by (simp add: ci)
  have own: "ctl_on ?d (ChunkNo c) w = ctl w" if "w < CTL_WORDS" for w
    unfolding d' using that by (rule ctl_on_mem)
  have other: "ctl_on ?d ch w = ctl_on d ch w" if "ch \<noteq> ChunkNo c" "w < CTL_WORDS" for ch w
    unfolding d' using that by (intro ctl_on_write) simp_all
  have us: "used_set c' ch = used_set c ch" "cached c' L = cached c L" for ch L
    by (simp_all add: used_set_def cached_def c')
  have small: "8 + k < CTL_WORDS" if "k < LAST_PURGE_POS div 8" for k using that by (simp add: CTL_WORDS_def)
  have "dir_ok ?d c'"
    unfolding dir_ok_def
  proof (intro allI impI)
    fix j assume "j < SIZE_OF_MAP c'" "Map c' j \<noteq> NOT_MAPPED"
    then have j: "j < SIZE_OF_MAP c" "Map c j \<noteq> NOT_MAPPED" by (simp_all add: c')
    let ?k = "Map c j mod SIZE_OF_CHUNK div 8"
    have k: "?k < LAST_PURGE_POS div 8"
      using inv'(3) j unfolding map_ok_def by (auto simp: less_mult_imp_div_less)
    have "dir_word ?d c' ch ?k = dir_word d c ch ?k" for ch
      using other [OF _ small [OF k]] ctl [OF k] unfolding dir_word_def c' by simp
    then show "unat (dir_word ?d c' (Map c' j div SIZE_OF_CHUNK) (Map c' j mod SIZE_OF_CHUNK div 8)) = 8 * j"
      using inv'(5) j unfolding dir_ok_def by (simp add: c')
  qed
  moreover have "final_ok ?d c'" unfolding final_ok_def using own [OF small] by (simp add: c')
  moreover have "window_ok ?d c'" if "RelocationPrepared c"
  proof -
    note w = inv'(9) [OF that, unfolded window_ok_def]
    have ne: "NextChunkNo c \<noteq> ChunkNo c" using inv'(1) by (simp add: geom_def)
    have "?d (NextChunkNo c * SIZE_OF_CHUNK + i) = d (NextChunkNo c * SIZE_OF_CHUNK + i)" if "i < RelocateWindowEnd c" for i
      unfolding d' using that w ne by (intro write_elsewhere) simp_all
    then show ?thesis using w other [OF ne small] us by (simp add: window_ok_def) (simp add: c')
  qed
  moreover have "pace c' = pace c" unfolding pace_def room_def to_move_def moving_def us by (simp add: c')
  moreover have "geom c'" "cache_wf c'" "map_ok c'" "newest c'" "used_ok c'"
    using inv' empty I unfolding geom_def cache_wf_def map_ok_def newest_def used_ok_def us by (simp_all add: c')
  ultimately show ?thesis using inv'(8) unfolding ftl_inv_def c'_def [symmetric] by (simp add: c')
qed

section \<open>Switching to the next chunk\<close>

text \<open>
  When the current chunk is full and its directory written, the next chunk is empty: that is
  what the pace of the relocation guarantees (the assertions at the switch).
\<close>

lemma pace_full:
  assumes inv: "ftl_inv d c" and full: "LAST_PURGE_POS \<le> PurgePos c"
  shows "used_set c (NextChunkNo c) = {}" "CachePos c = 0" "\<not> RelocationDone c"
    "Used (ChunkInfo c (NextChunkNo c)) = 0"
proof -
  note p = ftl_invD(8) [OF inv, unfolded pace_def]
  have r: "room c = 0" using full by (simp add: room_def)
  show nd: "\<not> RelocationDone c" using p r by (auto split: if_splits)
  have "card (used_set c (NextChunkNo c)) = 0" using p r nd by (auto split: if_splits)
  then show u: "used_set c (NextChunkNo c) = {}" by simp
  show "CachePos c = 0"
  proof (cases "RelocationPrepared c")
    case True
    then have m: "moving c" using p nd by simp
    show ?thesis
    proof (rule ccontr)
      assume "CachePos c \<noteq> 0"
      then show False using m u by (auto simp: moving_def)
    qed
  next
    case False then show ?thesis using p by simp
  qed
  have "NextChunkNo c < MAX_CHUNKS c" using ftl_invD(1) [OF inv] by (simp add: geom_def)
  then show "Used (ChunkInfo c (NextChunkNo c)) = 0" using ftl_invD(4) [OF inv] u by (simp add: used_ok_def)
qed

lemma chunk_start_cases: "chunk_start n = 0 \<or> chunk_start n = SIZE_OF_CACHE"
  by (simp add: chunk_start_def)

lemma under_limit_pace:
  assumes "under_limit c i" "used_ok c" "i < MAX_CHUNKS c" "SIZE_OF_MAP c \<le> 13107200" "PurgePos c \<le> LAST_PURGE_POS"
  shows "64 * card (used_set c i) \<le> 63 * room c"
proof -
  have u: "Used (ChunkInfo c i) = card (used_set c i)" using assms(2,3) by (simp add: used_ok_def)
  have "card (used_set c i) \<le> 13107200" using card_used_set_le [of c i] assms(4) by simp
  then have w: "wrap32 (Used (ChunkInfo c i) * 100) = card (used_set c i) * 100" by (simp add: u)
  have s: "sub32 LAST_PURGE_POS (PurgePos c) div 8 = room c" using assms(5) by (simp add: room_def)
  have "room c \<le> 32704" by (simp add: room_def)
  then have "wrap32 (room c * RELOCATION_LIMIT_PERCENTAGE) = room c * 90" by simp
  then have "card (used_set c i) * 100 < room c * 90"
    using assms(1) unfolding under_limit_def s w by simp
  then show ?thesis by simp
qed

text \<open>
  The only counter that can run out is the sequence number of the chunks, which goes up by one
  with every chunk written.
\<close>

definition scn_left :: "ctx \<Rightarrow> bool" where
  "scn_left c \<longleftrightarrow> SCN (ChunkInfo c (ChunkNo c)) < 4294967295"

lemma next_chunk_inv:
  assumes inv: "ftl_inv d c" and full: "LAST_PURGE_POS \<le> PurgePos c" and fin: "LAST_PURGE_POS \<le> FinalizedPos c"
    and scn: "scn_left c"
  shows "ftl_inv d (next_chunk c)"
proof -
  note inv' = ftl_invD [OF inv] and pf = pace_full [OF inv full]
  let ?n = "NextChunkNo c"
  define c1 where "c1 = c\<lparr>ChunkInfo := (ChunkInfo c)
             (?n := (ChunkInfo c ?n)\<lparr>SCN := wrap32 (SCN (ChunkInfo c (ChunkNo c)) + 1)\<rparr>),
           ChunkNo := ?n, PurgePos := chunk_start ?n, FinalizedPos := chunk_start ?n\<rparr>"
  define c' where "c' = next_chunk c"
  have c': "c' = c1\<lparr>NextChunkNo := find_next 0 c1, RelocationDone := False, RelocationPrepared := False\<rparr>"
    unfolding c'_def next_chunk_def FindNextChunk_def Let_def c1_def by simp
  have us: "used_set c1 ch = used_set c ch" "used_set c' ch = used_set c ch" for ch
    by (simp_all add: used_set_def c' c1_def)
  have n: "?n < MAX_CHUNKS c" "?n \<noteq> ChunkNo c" "SIZE_OF_MAP c \<le> 13107200" using inv'(1) by (auto simp: geom_def)
  have used1: "used_ok c1" using inv'(4) unfolding used_ok_def us by (simp add: c1_def)
  have st: "chunk_start ?n \<le> SIZE_OF_CACHE" using chunk_start_cases [of ?n] by auto
  have fn: "find_next 0 c1 < MAX_CHUNKS c1 \<and> find_next 0 c1 \<noteq> ChunkNo c1 \<and> under_limit c1 (find_next 0 c1)"
    using inv'(1) n st by (intro find_next_under_limit [OF used1]) (simp_all add: c1_def geom_def)
  have "geom c'" using inv'(1) fn n chunk_start_cases [of ?n] by (auto simp: geom_def c') (auto simp: c1_def)
  moreover have none: "Map c j div SIZE_OF_CHUNK \<noteq> ?n" if "j < SIZE_OF_MAP c" "Map c j \<noteq> NOT_MAPPED" for j
    using pf(1) that by (auto simp: used_set_def)
  have "map_ok c'"
    using inv'(3) none unfolding map_ok_def by (auto simp: c' c1_def)
  moreover have "dir_ok d c'"
    unfolding dir_ok_def
  proof (intro allI impI)
    fix j assume "j < SIZE_OF_MAP c'" "Map c' j \<noteq> NOT_MAPPED"
    then have j: "j < SIZE_OF_MAP c" "Map c j \<noteq> NOT_MAPPED" by (simp_all add: c' c1_def)
    let ?k = "Map c j mod SIZE_OF_CHUNK div 8"
    have k: "?k < LAST_PURGE_POS div 8"
      using inv'(3) j unfolding map_ok_def by (auto simp: less_mult_imp_div_less)
    have "dir_word d c' (Map c j div SIZE_OF_CHUNK) ?k = dir_word d c (Map c j div SIZE_OF_CHUNK) ?k"
      using none [OF j] inv'(6) fin k unfolding dir_word_def final_ok_def by (simp add: c' c1_def)
    then show "unat (dir_word d c' (Map c' j div SIZE_OF_CHUNK) (Map c' j mod SIZE_OF_CHUNK div 8)) = 8 * j"
      using inv'(5) j unfolding dir_ok_def by (simp add: c' c1_def)
  qed
  moreover have "final_ok d c'" using st unfolding final_ok_def by (simp add: c' c1_def)
  moreover have "newest c'"
    using inv'(7) scn n unfolding newest_def scn_left_def by (auto simp: c' c1_def intro: le_SucI)
  moreover have "pace c'"
  proof -
    have "64 * card (used_set c1 (find_next 0 c1)) \<le> 63 * room c1"
      using fn used1 n st by (intro under_limit_pace) (simp_all add: c1_def)
    then show ?thesis using pf(2) unfolding pace_def us by (simp add: c' room_def) (simp add: c1_def)
  qed
  moreover have "cache_wf c'" "used_ok c'"
    using used1 pf(2) unfolding used_ok_def us by (simp_all add: c' cache_wf_def) (simp_all add: c1_def)
  ultimately show ?thesis unfolding c'_def [symmetric] ftl_inv_def by (simp add: c')
qed

lemma next_chunk_vread: "vread d (next_chunk c) L = vread d c L"
proof -
  have "GetCachedPos (next_chunk c) L = GetCachedPos c L"
    by (rule GetCachedPos_cong) (simp_all add: next_chunk_def FindNextChunk_def Let_def)
  then show ?thesis by (simp add: vread_def) (simp add: next_chunk_def FindNextChunk_def Let_def)
qed

section \<open>Reading the directory of the next chunk\<close>

definition prepare_served :: "mem \<Rightarrow> ctx \<Rightarrow> ctx" where
  "prepare_served d c =
     relocation_prepared (c\<lparr>CacheMem :=
       copy_sectors (CacheMem c) 0 d (phys (NextChunkNo c) LAST_PURGE_POS) SIZE_OF_CTL\<rparr>)"

lemma prepare_ctl:
  assumes "geom c" "w < CTL_WORDS"
  shows "NextChunkCtl (prepare_served d c) w = ctl_on d (NextChunkNo c) w"
proof -
  have ph: "phys (NextChunkNo c) LAST_PURGE_POS = NextChunkNo c * SIZE_OF_CHUNK + LAST_PURGE_POS"
    using assms(1) by (intro phys_eq) (simp_all add: geom_def)
  have "w div 128 < SIZE_OF_CTL" using assms(2) by (simp add: CTL_WORDS_def)
  then show ?thesis
    using assms(2) unfolding prepare_served_def relocation_prepared_def ph
    by (simp add: ctl_of_mem_def ctl_on_def copy_sectors_in)
qed

lemma prepare_inv:
  assumes inv: "ftl_inv d c" and np: "\<not> RelocationPrepared c" and space: "PurgePos c < LAST_PURGE_POS"
  shows "ftl_inv d (prepare_served d c)" "vread d (prepare_served d c) L = vread d c L"
proof -
  note inv' = ftl_invD [OF inv]
  define c' where "c' = prepare_served d c"
  let ?m = "copy_sectors (CacheMem c) 0 d (phys (NextChunkNo c) LAST_PURGE_POS) SIZE_OF_CTL"
  obtain X where c': "c' = c\<lparr>CacheMem := ?m, NextChunkCtl := X, RelocateTarget := room c,
       RelocateSource := Used (ChunkInfo c (NextChunkNo c)),
       RelocateWindowStart := 0, RelocateWindowEnd := 0, RelocatePos := 0, RelocationPrepared := True\<rparr>"
    using space by (simp add: c'_def prepare_served_def relocation_prepared_def room_def)
  have us: "used_set c' ch = used_set c ch" for ch by (simp add: used_set_def c')
  have p: "\<not> RelocationDone c" "CachePos c = 0" "64 * card (used_set c (NextChunkNo c)) \<le> 63 * room c"
    using inv'(8) np by (simp_all add: pace_def)
  have "NextChunkNo c < MAX_CHUNKS c" using inv'(1) by (simp add: geom_def)
  then have S: "Used (ChunkInfo c (NextChunkNo c)) = card (used_set c (NextChunkNo c))"
    using inv'(4) by (simp add: used_ok_def)
  have P512: "PurgePos c mod 512 = 0" using inv'(1) by (simp add: geom_def)
  have "0 < LAST_PURGE_POS - PurgePos c" "off8 (PurgePos c) = 0" using space geom_aligned [OF inv'(1)] by simp_all
  then have r: "0 < room c" "room c \<le> 32704"
    using block_below [of "PurgePos c" LAST_PURGE_POS 7] space by (simp_all add: room_def off8_def)
  have "pace c'"
    using p r S unfolding pace_def us by (simp add: c' room_def moving_def off8_def)
  moreover have "window_ok d c'"
    using prepare_ctl [OF inv'(1), of _ d] unfolding window_ok_def us c'_def [symmetric]
    by (simp add: c' CTL_WORDS_def off8_def)
  moreover have "geom c'" "cache_wf c'" "map_ok c'" "used_ok c'" "final_ok d c'" "newest c'"
    using inv' p(2) unfolding geom_def cache_wf_def map_ok_def newest_def used_ok_def final_ok_def us
    by (simp_all add: c')
  moreover have "dir_word d c' = dir_word d c" by (intro ext) (simp add: dir_word_def c')
  then have "dir_ok d c'" using inv'(5) unfolding dir_ok_def by (simp add: c')
  ultimately show "ftl_inv d (prepare_served d c)" unfolding ftl_inv_def c'_def by simp
  have "GetCachedPos c' L = NOT_MAPPED" "GetCachedPos c L = NOT_MAPPED"
    by (simp_all add: GetCachedPos_def gcp_loop.simps p(2) c')
  then show "vread d (prepare_served d c) L = vread d c L"
    unfolding c'_def [symmetric] vread_def by (simp add: c')
qed

lemma vread_eq:
  assumes "CachePos c' = CachePos c" "CacheLBA c' = CacheLBA c" "CacheMem c' = CacheMem c" "Map c' = Map c"
  shows "vread d c' L = vread d c L"
  using GetCachedPos_cong [OF assms(1,2), of L] assms(3,4) by (simp add: vread_def Let_def)

section \<open>The relocation window\<close>

lemma window_loop_bounds:
  "off8 (RelocatePos c) = 0 \<Longrightarrow> off8 i = 0 \<Longrightarrow> off8 wend = 0 \<Longrightarrow> wend \<le> i \<Longrightarrow> wend \<le> LAST_PURGE_POS \<Longrightarrow>
   wend \<le> RelocatePos c + SIZE_OF_CACHE \<Longrightarrow>
   off8 (window_loop c i wend) = 0 \<and> wend \<le> window_loop c i wend \<and>
   window_loop c i wend \<le> LAST_PURGE_POS \<and> window_loop c i wend \<le> RelocatePos c + SIZE_OF_CACHE"
proof (induction c i wend rule: window_loop.induct)
  case (1 c i wend)
  show ?case
  proof (cases "i < LAST_PURGE_POS \<and> i < RelocatePos c + SIZE_OF_CACHE \<and> i < wend + RELOCATION_READ_MAX_GAP")
    case True
    have i8: "off8 (i + 8) = 0" using "1.prems" by (simp add: off8_def)
    have R8: "off8 (RelocatePos c + SIZE_OF_CACHE) = 0"
      using "1.prems"(1) mod_add_eq [of "RelocatePos c" 8 512] by (simp add: off8_def)
    have "i + 7 < LAST_PURGE_POS"
      using True "1.prems" by (intro block_below) (simp_all add: off8_def)
    moreover have "i + 7 < RelocatePos c + SIZE_OF_CACHE"
      using True "1.prems" R8 by (intro block_below) simp_all
    ultimately show ?thesis
      using "1.IH" [OF True] True "1.prems" i8 by (auto simp: window_loop.simps [of _ i])
  next
    case False
    then show ?thesis using "1.prems" by (auto simp: window_loop.simps [of _ i])
  qed
qed

lemma set_window_bounds:
  assumes "off8 (RelocatePos c) = 0" "RelocatePos c \<le> LAST_PURGE_POS"
  shows "off8 (RelocateWindowEnd (set_window c)) = 0" "RelocatePos c \<le> RelocateWindowEnd (set_window c)"
    "RelocateWindowEnd (set_window c) \<le> LAST_PURGE_POS"
    "RelocateWindowEnd (set_window c) \<le> RelocatePos c + SIZE_OF_CACHE"
  using window_loop_bounds [of c "RelocatePos c" "RelocatePos c"] assms by (simp_all add: set_window_def)

lemma set_window_progress:
  assumes "off8 (RelocatePos c) = 0" "RelocatePos c < LAST_PURGE_POS" "live_at c (RelocatePos c)"
  shows "RelocatePos c < RelocateWindowEnd (set_window c)"
proof -
  let ?r = "RelocatePos c"
  have "?r + 7 < LAST_PURGE_POS" using assms by (intro block_below) (simp_all add: off8_def)
  moreover have "off8 (?r + 8) = 0" using assms(1) by (simp add: off8_def)
  ultimately have "?r + 8 \<le> window_loop c (?r + 8) (?r + 8)"
    using window_loop_bounds [of c "?r + 8" "?r + 8"] assms by simp
  moreover have "window_loop c ?r ?r = window_loop c (?r + 8) (?r + 8)"
    using assms by (subst window_loop.simps) simp
  ultimately show ?thesis by (simp add: set_window_def)
qed

definition window_served :: "mem \<Rightarrow> ctx \<Rightarrow> ctx" where
  "window_served d c = (let c1 = set_window c in
     c1\<lparr>RelocateMem := copy_sectors (RelocateMem c1) 0 d (next_phys c1 (RelocateWindowStart c1))
        (RelocateWindowEnd c1 - RelocateWindowStart c1)\<rparr>)"

lemma window_inv:
  assumes inv: "ftl_inv d c" and ready: "RelocationPrepared c" and R: "RelocatePos c < LAST_PURGE_POS"
  shows "ftl_inv d (window_served d c)" "vread d (window_served d c) L = vread d c L"
proof -
  note inv' = ftl_invD [OF inv]
  note w = inv'(9) [OF ready, unfolded window_ok_def]
  note b = set_window_bounds [of c]
  define c' where "c' = window_served d c"
  obtain e m where c': "c' = c\<lparr>RelocateWindowStart := RelocatePos c, RelocateWindowEnd := e, RelocateMem := m\<rparr>"
    and e: "e = RelocateWindowEnd (set_window c)"
    and m: "m = copy_sectors (RelocateMem c) 0 d (next_phys c (RelocatePos c)) (e - RelocatePos c)"
    by (simp add: c'_def window_served_def set_window_def Let_def next_phys_def)
  have ph: "next_phys c (RelocatePos c) = NextChunkNo c * SIZE_OF_CHUNK + RelocatePos c"
    unfolding next_phys_def using inv'(1) R by (intro phys_eq) (simp_all add: geom_def)
  have us: "used_set c' ch = used_set c ch" "cached c' X = cached c X" for ch X
    by (simp_all add: used_set_def cached_def c')
  have "m (i - RelocatePos c) = d (NextChunkNo c * SIZE_OF_CHUNK + i)" if "RelocatePos c \<le> i" "i < e" for i
    unfolding m ph using that by (subst copy_sectors_in) auto
  then have "window_ok d c'" using w b unfolding window_ok_def us e [symmetric] by (simp add: c')
  moreover have "pace c' = pace c" unfolding pace_def room_def to_move_def moving_def us by (simp add: c')
  moreover have "dir_word d c' = dir_word d c" by (intro ext) (simp add: dir_word_def c')
  then have "dir_ok d c'" using inv'(5) unfolding dir_ok_def by (simp add: c')
  moreover have "cache_wf c' = cache_wf c" by (simp add: cache_wf_def c')
  moreover have "geom c'" "map_ok c'" "used_ok c'" "final_ok d c'" "newest c'"
    using inv' unfolding geom_def map_ok_def newest_def used_ok_def final_ok_def us
    by (simp_all add: c')
  ultimately show "ftl_inv d (window_served d c)" using inv'(2,8) unfolding ftl_inv_def c'_def by simp
  show "vread d (window_served d c) L = vread d c L"
    unfolding c'_def [symmetric] by (rule vread_eq) (simp_all add: c')
qed

section \<open>Relocation\<close>

text \<open>The blocks the map places in the next chunk are the live positions of its directory.\<close>

lemma live_at_iff:
  assumes inv: "ftl_inv d c" and ready: "RelocationPrepared c" and i: "i < LAST_PURGE_POS" "off8 i = 0"
  shows "live_at c i \<longleftrightarrow> (\<exists>j < SIZE_OF_MAP c. Map c j = NextChunkNo c * SIZE_OF_CHUNK + i)"
    and "live_at c i \<Longrightarrow> \<exists>j < SIZE_OF_MAP c. ctl_LBA (NextChunkCtl c) (i div 8) = 8 * j \<and>
      Map c j = NextChunkNo c * SIZE_OF_CHUNK + i"
proof -
  note inv' = ftl_invD [OF inv]
  have nc: "NextChunkNo c < 500" "NextChunkNo c \<noteq> ChunkNo c" using inv'(1) by (simp_all add: geom_def)
  have small: "i < SIZE_OF_CHUNK" using i by simp
  have ph: "next_phys c i = NextChunkNo c * SIZE_OF_CHUNK + i"
    unfolding next_phys_def using nc(1) small by (rule phys_eq)
  have k: "i div 8 < LAST_PURGE_POS div 8" using i(1) by (simp add: less_mult_imp_div_less)
  have dir: "ctl_LBA (NextChunkCtl c) (i div 8) = 8 * j"
    if "j < SIZE_OF_MAP c" "Map c j = NextChunkNo c * SIZE_OF_CHUNK + i" for j
  proof -
    have "Map c j \<noteq> NOT_MAPPED" using that nc small by simp
    then have "unat (dir_word d c (Map c j div SIZE_OF_CHUNK) (Map c j mod SIZE_OF_CHUNK div 8)) = 8 * j"
      using inv'(5) that(1) unfolding dir_ok_def by blast
    then have "unat (ctl_on d (NextChunkNo c) (8 + i div 8)) = 8 * j"
      unfolding that(2) chunk_of_phys [OF small] pos_of_phys [OF small] dir_word_def using nc(2) by simp
    then show ?thesis using inv'(9) [OF ready] k unfolding window_ok_def ctl_LBA_def by simp
  qed
  show l: "live_at c i \<Longrightarrow> \<exists>j < SIZE_OF_MAP c. ctl_LBA (NextChunkCtl c) (i div 8) = 8 * j \<and>
      Map c j = NextChunkNo c * SIZE_OF_CHUNK + i"
    using dir unfolding live_at_def ph by (metis leI)
  show "live_at c i \<longleftrightarrow> (\<exists>j < SIZE_OF_MAP c. Map c j = NextChunkNo c * SIZE_OF_CHUNK + i)"
    using l dir unfolding live_at_def ph by (metis blk_mult(1) leD)
qed

definition relocating :: "mem \<Rightarrow> ctx \<Rightarrow> bool" where
  "relocating d c \<longleftrightarrow> ftl_inv d c \<and> RelocationPrepared c \<and> \<not> RelocationDone c"

lemma relocatingD:
  assumes "relocating d c"
  shows "ftl_inv d c" "RelocationPrepared c" "\<not> RelocationDone c" "moving c" "window_ok d c" "geom c" "cache_wf c"
    "off8 (RelocatePos c) = 0" "RelocatePos c \<le> LAST_PURGE_POS"
proof -
  show i: "ftl_inv d c" and r: "RelocationPrepared c" and n: "\<not> RelocationDone c"
    using assms by (simp_all add: relocating_def)
  note i' = ftl_invD [OF i]
  show "moving c" using i'(8) r n by (simp add: pace_def)
  show "window_ok d c" using i'(9) [OF r] .
  then show "off8 (RelocatePos c) = 0" "RelocatePos c \<le> LAST_PURGE_POS" by (simp_all add: window_ok_def)
  show "geom c" "cache_wf c" using i' by blast+
qed

text \<open>A block of the next chunk lies below \<open>i + 8\<close>, but not below \<open>i\<close>: then it lies at \<open>i\<close>.\<close>

lemma same_block: "off8 x = 0 \<Longrightarrow> off8 i = 0 \<Longrightarrow> x < i + 8 \<Longrightarrow> \<not> x < i \<Longrightarrow> x = i"
  unfolding off8_def by presburger

lemma next_at:
  assumes "map_ok c" "j \<in> used_set c (NextChunkNo c)" "off8 i = 0"
    "Map c j mod SIZE_OF_CHUNK < i + 8" "\<not> Map c j mod SIZE_OF_CHUNK < i"
  shows "Map c j = NextChunkNo c * SIZE_OF_CHUNK + i"
proof -
  have j: "j < SIZE_OF_MAP c" "Map c j \<noteq> NOT_MAPPED" "Map c j div SIZE_OF_CHUNK = NextChunkNo c"
    using assms(2) by (simp_all add: used_set_def)
  have "off8 (Map c j) = 0" using assms(1) j unfolding map_ok_def by blast
  then have m: "off8 (Map c j mod SIZE_OF_CHUNK) = 0" by (simp add: off8_def mod_mod_cancel)
  have "Map c j mod SIZE_OF_CHUNK = i"
    by (rule same_block [OF m assms(3,4,5)])
  then show ?thesis using j(3) div_mult_mod_eq [of "Map c j" SIZE_OF_CHUNK] by simp
qed

lemma reloc_skip:
  assumes R: "relocating d c" and r: "RelocatePos c < LAST_PURGE_POS" and dead: "\<not> live_at c (RelocatePos c)"
  shows "relocating d (c\<lparr>RelocatePos := RelocatePos c + 8\<rparr>)"
proof -
  let ?c = "c\<lparr>RelocatePos := RelocatePos c + 8\<rparr>"
  note RD = relocatingD [OF R] and inv' = ftl_invD [OF relocatingD(1) [OF R]]
  have us: "used_set ?c ch = used_set c ch" "cached ?c X = cached c X" for ch X
    by (simp_all add: used_set_def cached_def)
  have r7: "RelocatePos c + 7 < LAST_PURGE_POS"
    using RD(8) r by (intro block_below) (simp_all add: off8_def)
  have passed: "Map c j mod SIZE_OF_CHUNK < RelocatePos c"
    if j: "j \<in> used_set c (NextChunkNo c)" "Map c j mod SIZE_OF_CHUNK < RelocatePos c + 8" for j
  proof (rule ccontr)
    assume "\<not> ?thesis"
    then have "Map c j = NextChunkNo c * SIZE_OF_CHUNK + RelocatePos c"
      using next_at [OF inv'(3) j(1) RD(8) j(2)] by blast
    moreover have "j < SIZE_OF_MAP c" using j(1) by (simp add: used_set_def)
    ultimately show False using dead live_at_iff(1) [OF RD(1,2) r RD(8)] by blast
  qed
  have "window_ok d ?c"
    using RD(5,8) r7 passed unfolding window_ok_def us by (auto simp: off8_def)
  moreover have "moving ?c" using RD(4) unfolding moving_def us by (auto intro: less_trans)
  then have "pace ?c" using inv'(8) RD(2,3) unfolding pace_def us by (simp add: room_def)
  moreover have "cache_wf ?c = cache_wf c" by (simp add: cache_wf_def)
  moreover have "dir_word d ?c = dir_word d c" by (intro ext) (simp add: dir_word_def)
  then have "dir_ok d ?c" using inv'(5) unfolding dir_ok_def by simp
  moreover have "geom ?c" "map_ok ?c" "used_ok ?c" "final_ok d ?c" "newest ?c"
    using inv' unfolding geom_def map_ok_def newest_def used_ok_def final_ok_def us by simp_all
  ultimately show ?thesis using inv'(2) RD(2,3) unfolding relocating_def ftl_inv_def by simp
qed

lemma relocate_block_extended:
  "relocate_block c = extended c (ctl_LBA (NextChunkCtl c) (RelocatePos c div 8)) 8
     (copy_sectors (CacheMem c) (CachePos c) (RelocateMem c) (RelocatePos c - RelocateWindowStart c) 8)"
  by (simp add: relocate_block_def extended_def Let_def)

lemma reloc_can_extend:
  assumes R: "relocating d c" and room: "CachePos c < LAST_CACHE_POS"
    and j: "j < SIZE_OF_MAP c" "Map c j = NextChunkNo c * SIZE_OF_CHUNK + RelocatePos c"
    and r: "RelocatePos c < LAST_PURGE_POS"
  shows "can_extend c (8 * j) 8"
proof -
  note RD = relocatingD [OF R]
  have full: "off8 (CachePos c) = 0" using RD(4) by (simp add: moving_def)
  have "CachePos c + 7 < LAST_CACHE_POS" using full room by (intro block_below) (simp_all add: off8_def)
  moreover have "\<not> cached c L" if L: "8 * j \<le> L" "L < 8 * j + 8" for L
  proof
    assume "cached c L"
    then obtain p where p: "p < CachePos c" "CacheLBA c p = L" by (auto simp: cached_def)
    have "blk L = j" using L by (simp add: blk_def)
    then have "Map c j mod SIZE_OF_CHUNK < RelocatePos c" using RD(4) p unfolding moving_def by blast
    moreover have "Map c j mod SIZE_OF_CHUNK = RelocatePos c" unfolding j(2) using r by (intro pos_of_phys) simp
    ultimately show False by simp
  qed
  ultimately show ?thesis using full j(1) unfolding can_extend_def by simp
qed

lemma reloc_copy:
  assumes R: "relocating d c" and r: "RelocatePos c < LAST_PURGE_POS" and live: "live_at c (RelocatePos c)"
    and room: "CachePos c < LAST_CACHE_POS"
    and win: "RelocateWindowStart c \<le> RelocatePos c" "RelocatePos c < RelocateWindowEnd c"
  shows "relocating d ((relocate_block c)\<lparr>RelocatePos := RelocatePos c + 8\<rparr>)"
    "vread d ((relocate_block c)\<lparr>RelocatePos := RelocatePos c + 8\<rparr>) L = vread d c L"
proof -
  note RD = relocatingD [OF R] and inv' = ftl_invD [OF relocatingD(1) [OF R]]
  obtain j where j: "j < SIZE_OF_MAP c" "ctl_LBA (NextChunkCtl c) (RelocatePos c div 8) = 8 * j"
    "Map c j = NextChunkNo c * SIZE_OF_CHUNK + RelocatePos c"
    using live_at_iff(2) [OF RD(1,2) r RD(8) live] by blast
  define m where "m = copy_sectors (CacheMem c) (CachePos c) (RelocateMem c) (RelocatePos c - RelocateWindowStart c) 8"
  define c1 where "c1 = extended c (8 * j) 8 m"
  have e: "relocate_block c = c1" unfolding c1_def m_def relocate_block_extended j(2) ..
  let ?c = "c1\<lparr>RelocatePos := RelocatePos c + 8\<rparr>"
  have ext: "can_extend c (8 * j) 8" using reloc_can_extend [OF R room j(1,3) r] .
  have wf1: "cache_wf c1" "cached c1 X \<longleftrightarrow> cached c X \<or> (8 * j \<le> X \<and> X < 8 * j + 8)" for X
    unfolding c1_def using extended_wf [OF RD(7) ext RD(6)] by blast+
  have us: "used_set ?c ch = used_set c ch" "cached ?c X = cached c1 X" for ch X
    by (simp_all add: used_set_def cached_def) (simp add: c1_def)
  have nc: "NextChunkNo c < 500" "NextChunkNo c \<noteq> ChunkNo c" using RD(6) by (simp_all add: geom_def)
  have rs: "RelocatePos c < SIZE_OF_CHUNK" using r by simp
  have nm: "Map c j \<noteq> NOT_MAPPED" using j(3) nc rs by simp
  have pos: "Map c j div SIZE_OF_CHUNK = NextChunkNo c" "Map c j mod SIZE_OF_CHUNK = RelocatePos c"
    unfolding j(3) using chunk_of_phys [OF rs] pos_of_phys [OF rs] by simp_all
  have jn: "j \<in> used_set c (NextChunkNo c)" using j(1) nm pos by (simp add: used_set_def)
  have dst: "off8 (Map c j) = 0" using inv'(3) j(1) nm unfolding map_ok_def by blast
  have r7: "RelocatePos c + 7 < LAST_PURGE_POS" "RelocatePos c + 7 < RelocateWindowEnd c"
    using RD(5,8) r win(2) by (intro block_below; simp add: off8_def window_ok_def)+
  have passed: "cached c1 (8 * i)"
    if i: "i \<in> used_set c (NextChunkNo c)" "Map c i mod SIZE_OF_CHUNK < RelocatePos c + 8" for i
  proof (cases "Map c i mod SIZE_OF_CHUNK < RelocatePos c")
    case True then show ?thesis using RD(5) i(1) wf1(2) unfolding window_ok_def by blast
  next
    case False
    then have mi: "Map c i = Map c j" using next_at [OF inv'(3) i(1) RD(8) i(2)] j(3) by simp
    have im: "i < SIZE_OF_MAP c" "Map c i \<noteq> NOT_MAPPED" using i(1) by (simp_all add: used_set_def)
    have "8 * i = 8 * j" using inv'(5) im j(1) nm mi unfolding dir_ok_def by metis
    then show ?thesis using wf1(2) by simp
  qed
  have "window_ok d ?c"
    using RD(5,8) r7 passed unfolding window_ok_def us by (simp add: c1_def off8_def)
  moreover have "moving ?c"
  proof -
    have full: "off8 (CachePos c) = 0" using RD(4) by (simp add: moving_def)
    have "blk (CacheLBA c1 p) \<in> used_set c (NextChunkNo c) \<and>
        Map c (blk (CacheLBA c1 p)) mod SIZE_OF_CHUNK < RelocatePos c + 8" if p: "p < CachePos c + 8" for p
    proof (cases "p < CachePos c")
      case True
      then have "CacheLBA c1 p = CacheLBA c p" by (simp add: c1_def put_lba_out)
      then show ?thesis using RD(4) True unfolding moving_def by (auto intro: less_trans)
    next
      case False
      then have "CacheLBA c1 p = 8 * j + (p - CachePos c)"
        using p ext geom_size [OF RD(6)] by (simp add: c1_def can_extend_def) (subst put_lba_in, simp_all)
      moreover have "p - CachePos c < 8" using False p by simp
      ultimately have "blk (CacheLBA c1 p) = j" by (simp only: blk_base)
      then show ?thesis using jn pos by simp
    qed
    then show ?thesis using full unfolding moving_def us by (simp add: c1_def off8_def)
  qed
  then have "pace ?c" using inv'(8) RD(2,3) unfolding pace_def us by (simp add: c1_def room_def)
  moreover have "cache_wf ?c = cache_wf c1" by (simp add: cache_wf_def)
  moreover have "dir_word d ?c = dir_word d c" by (intro HOL.ext) (simp add: dir_word_def c1_def)
  then have "dir_ok d ?c" using inv'(5) unfolding dir_ok_def by (simp add: c1_def)
  moreover have "geom ?c" "map_ok ?c" "used_ok ?c" "final_ok d ?c" "newest ?c"
    using inv' unfolding geom_def map_ok_def newest_def used_ok_def final_ok_def us by (simp_all add: c1_def)
  ultimately show "relocating d ((relocate_block c)\<lparr>RelocatePos := RelocatePos c + 8\<rparr>)"
    using wf1(1) RD(2,3) unfolding relocating_def ftl_inv_def e by (simp add: c1_def)
  have "vread d ?c L = vread d c1 L" by (rule vread_eq) simp_all
  also have "\<dots> = vread d c L"
  proof (cases "8 * j \<le> L \<and> L < 8 * j + 8")
    case True
    let ?o = "L - 8 * j"
    have o: "?o < 8" "L = 8 * j + ?o" using True by auto
    have bl: "blk L = j" "off8 L = ?o" using o blk_base [OF o(1), of j] off8_base [OF o(1), of j] by simp_all
    have "vread d c1 L = m (CachePos c + ?o)"
      unfolding c1_def using True by (subst extended_vread [OF RD(1) ext]) (simp_all add: m_def copy_sectors_out)
    also have "\<dots> = RelocateMem c (RelocatePos c + ?o - RelocateWindowStart c)"
      unfolding m_def using o win(1) by (subst copy_sectors_in) (simp_all add: ac_simps)
    also have "\<dots> = d (NextChunkNo c * SIZE_OF_CHUNK + (RelocatePos c + ?o))"
    proof -
      have "RelocateWindowStart c \<le> RelocatePos c + ?o" "RelocatePos c + ?o < RelocateWindowEnd c"
        using win(1) r7(2) o(1) by simp_all
      then show ?thesis using RD(5) unfolding window_ok_def by blast
    qed
    also have "\<dots> = d (Map c j + ?o)" unfolding j(3) by (simp add: add.assoc)
    also have "\<dots> = vread d c L"
    proof -
      have "\<not> cached c L" using ext True unfolding can_extend_def by blast
      then show ?thesis using vread_uncached [OF RD(7)] nm bl by simp
    qed
    finally show ?thesis .
  next
    case False
    then show ?thesis
      unfolding c1_def by (subst extended_vread [OF RD(1) ext]) (auto simp: m_def copy_sectors_out)
  qed
  finally show "vread d ((relocate_block c)\<lparr>RelocatePos := RelocatePos c + 8\<rparr>) L = vread d c L"
    unfolding e .
qed

lemma reloc_loop_form:
  "\<exists>l m p r. snd (reloc_loop c) = c\<lparr>CacheLBA := l, CacheMem := m, CachePos := p, RelocatePos := r\<rparr>"
proof (induction c rule: reloc_loop.induct)
  case (1 c)
  have id: "\<exists>l m p r. c = c\<lparr>CacheLBA := l, CacheMem := m, CachePos := p, RelocatePos := r\<rparr>"
    by (intro exI [of _ "CacheLBA c"] exI [of _ "CacheMem c"] exI [of _ "CachePos c"] exI [of _ "RelocatePos c"]) simp
  consider (skip) "RelocatePos c < LAST_PURGE_POS" "\<not> live_at c (RelocatePos c)"
    | (copy) "RelocatePos c < LAST_PURGE_POS" "live_at c (RelocatePos c)" "\<not> LAST_CACHE_POS \<le> CachePos c"
      "RelocateWindowStart c \<le> RelocatePos c \<and> RelocatePos c < RelocateWindowEnd c"
    | (stop) "snd (reloc_loop c) = c"
    by (cases "RelocatePos c < LAST_PURGE_POS"; cases "live_at c (RelocatePos c)";
        cases "LAST_CACHE_POS \<le> CachePos c";
        cases "RelocateWindowStart c \<le> RelocatePos c \<and> RelocatePos c < RelocateWindowEnd c")
       (simp_all add: reloc_loop.simps [of c])
  then show ?case
  proof cases
    case skip
    with "1.IH"(1) show ?thesis by (auto simp: reloc_loop.simps [of c])
  next
    case copy
    with "1.IH"(2) show ?thesis
      by (auto simp: reloc_loop.simps [of c] relocate_block_extended extended_def)
  next
    case stop
    then show ?thesis using id by simp
  qed
qed

lemma reloc_loop_inv:
  "relocating d c \<Longrightarrow>
   relocating d (snd (reloc_loop c)) \<and> vread d (snd (reloc_loop c)) L = vread d c L \<and>
   (if fst (reloc_loop c)
    then LAST_PURGE_POS \<le> RelocatePos (snd (reloc_loop c)) \<or> LAST_CACHE_POS \<le> CachePos (snd (reloc_loop c))
    else RelocatePos (snd (reloc_loop c)) < LAST_PURGE_POS \<and>
      live_at (snd (reloc_loop c)) (RelocatePos (snd (reloc_loop c))) \<and>
      CachePos (snd (reloc_loop c)) < LAST_CACHE_POS)"
proof (induction c rule: reloc_loop.induct)
  case (1 c)
  consider (skip) "RelocatePos c < LAST_PURGE_POS" "\<not> live_at c (RelocatePos c)"
    | (full) "RelocatePos c < LAST_PURGE_POS" "live_at c (RelocatePos c)" "LAST_CACHE_POS \<le> CachePos c"
    | (out) "RelocatePos c < LAST_PURGE_POS" "live_at c (RelocatePos c)" "\<not> LAST_CACHE_POS \<le> CachePos c"
      "\<not> (RelocateWindowStart c \<le> RelocatePos c \<and> RelocatePos c < RelocateWindowEnd c)"
    | (copy) "RelocatePos c < LAST_PURGE_POS" "live_at c (RelocatePos c)" "\<not> LAST_CACHE_POS \<le> CachePos c"
      "RelocateWindowStart c \<le> RelocatePos c \<and> RelocatePos c < RelocateWindowEnd c"
    | (last) "\<not> RelocatePos c < LAST_PURGE_POS" by blast
  then show ?case
  proof cases
    case skip
    let ?c = "c\<lparr>RelocatePos := RelocatePos c + 8\<rparr>"
    have v: "vread d ?c L = vread d c L" by (rule vread_eq) simp_all
    have e: "reloc_loop c = reloc_loop ?c" using skip by (simp add: reloc_loop.simps [of c])
    show ?thesis
      using "1.IH"(1) [OF skip reloc_skip [OF "1.prems" skip]] unfolding e v .
  next
    case copy
    let ?c = "(relocate_block c)\<lparr>RelocatePos := RelocatePos c + 8\<rparr>"
    have room: "CachePos c < LAST_CACHE_POS" using copy(3) by simp
    have w: "RelocateWindowStart c \<le> RelocatePos c" "RelocatePos c < RelocateWindowEnd c" using copy(4) by blast+
    have nn: "\<not> \<not> live_at c (RelocatePos c)" "\<not> \<not> (RelocateWindowStart c \<le> RelocatePos c \<and> RelocatePos c < RelocateWindowEnd c)"
      using copy by blast+
    have e: "reloc_loop c = reloc_loop ?c" using copy by (simp add: reloc_loop.simps [of c])
    show ?thesis
      using "1.IH"(2) [OF copy(1) nn(1) copy(3) nn(2) reloc_copy(1) [OF "1.prems" copy(1,2) room w]]
      unfolding e reloc_copy(2) [OF "1.prems" copy(1,2) room w, of L] .
  qed (use "1.prems" in \<open>simp_all add: reloc_loop.simps [of c]\<close>)
qed

section \<open>The pace of the relocation\<close>

lemma moving_card:
  assumes "cache_wf c" "moving c"
  shows "card (to_move c) + CachePos c div 8 = card (used_set c (NextChunkNo c))"
proof -
  let ?B = "(\<lambda>k. blk (CacheLBA c (8 * k))) ` {..<CachePos c div 8}"
  have C: "8 * (CachePos c div 8) = CachePos c" using assms(2) by (auto simp: moving_def off8_def)
  have k: "8 * k < CachePos c" if "k < CachePos c div 8" for k using that C by linarith
  have head: "CacheLBA c (8 * k) = 8 * blk (CacheLBA c (8 * k))" if "k < CachePos c div 8" for k
    using cache_wfD(1) [OF assms(1) k [OF that]] lba_split [of "CacheLBA c (8 * k)"] by simp
  have "inj_on (\<lambda>k. blk (CacheLBA c (8 * k))) {..<CachePos c div 8}"
  proof (rule inj_onI)
    fix a b assume ab: "a \<in> {..<CachePos c div 8}" "b \<in> {..<CachePos c div 8}" "blk (CacheLBA c (8 * a)) = blk (CacheLBA c (8 * b))"
    then have "CacheLBA c (8 * a) = CacheLBA c (8 * b)" using head [of a] head [of b] by simp
    then show "a = b" using cache_wf_inj [OF assms(1) k [of a] k [of b]] ab by simp
  qed
  then have cB: "card ?B = CachePos c div 8" by (simp add: card_image)
  have sub: "?B \<subseteq> used_set c (NextChunkNo c)" using assms(2) k unfolding moving_def by auto
  have "to_move c = used_set c (NextChunkNo c) - ?B"
  proof (intro set_eqI iffI)
    fix j assume j: "j \<in> to_move c"
    have "j \<notin> ?B"
    proof
      assume "j \<in> ?B"
      then obtain a where a: "a < CachePos c div 8" "j = blk (CacheLBA c (8 * a))" by auto
      then have "cached c (8 * j)" using cached_head [OF assms(1) k] by blast
      then show False using j by (simp add: to_move_def)
    qed
    then show "j \<in> used_set c (NextChunkNo c) - ?B" using j by (simp add: to_move_def)
  next
    fix j assume j: "j \<in> used_set c (NextChunkNo c) - ?B"
    have "\<not> cached c (8 * j)"
    proof
      assume "cached c (8 * j)"
      then obtain a where a: "8 * a < CachePos c" "CacheLBA c (8 * a) = 8 * j" by (rule head_pos [OF assms(1)])
      then have "a < CachePos c div 8" "j = blk (CacheLBA c (8 * a))" using C by simp_all
      then show False using j by blast
    qed
    then show "j \<in> to_move c" using j by (simp add: to_move_def)
  qed
  then have "card (to_move c) = card (used_set c (NextChunkNo c)) - CachePos c div 8"
    using sub cB by (simp add: card_Diff_subset finite_subset)
  moreover have "CachePos c div 8 \<le> card (used_set c (NextChunkNo c))"
    using card_mono [OF finite_used_set sub] cB by simp
  ultimately show ?thesis by simp
qed

lemma pace_arith:
  fixes T S U rm :: nat
  assumes "T * U \<le> S * rm" "64 * S \<le> 63 * T" "64 \<le> rm"
  shows "T * (U - 63) \<le> S * (rm - 64)"
proof -
  have "T * (U - 63) = T * U - 63 * T" by (simp add: diff_mult_distrib2)
  also have "\<dots> \<le> S * rm - 64 * S" using assms(1,2) by linarith
  also have "\<dots> = S * (rm - 64)" by (simp add: diff_mult_distrib2 mult.commute)
  finally show ?thesis .
qed

lemma room_64:
  assumes "geom c" "PurgePos c < LAST_PURGE_POS"
  shows "64 \<le> room c" "PurgePos c + SIZE_OF_CACHE \<le> LAST_PURGE_POS"
    "(LAST_PURGE_POS - SIZE_OF_CACHE - PurgePos c) div 8 = room c - 64"
proof -
  obtain k where k: "PurgePos c = 512 * k" using assms(1) unfolding geom_def by (auto elim: dvdE)
  then have "k < 511" using assms(2) by simp
  then show "64 \<le> room c" "PurgePos c + SIZE_OF_CACHE \<le> LAST_PURGE_POS"
    "(LAST_PURGE_POS - SIZE_OF_CACHE - PurgePos c) div 8 = room c - 64"
    by (simp_all add: room_def k)
qed

lemma relocating_pace:
  assumes "relocating d c"
  shows "0 < RelocateTarget c" "RelocateTarget c \<le> 32704" "64 * RelocateSource c \<le> 63 * RelocateTarget c"
    "RelocateTarget c * card (used_set c (NextChunkNo c)) \<le> RelocateSource c * room c"
  using ftl_invD(8) [OF relocatingD(1) [OF assms]] relocatingD(2,3) [OF assms] by (simp_all add: pace_def)

lemma on_schedule_iff:
  assumes R: "relocating d c" and space: "PurgePos c < LAST_PURGE_POS"
  shows "on_schedule c \<longleftrightarrow> RelocateTarget c * card (to_move c) \<le> RelocateSource c * (room c - 64)"
proof -
  note RD = relocatingD [OF R] and p = relocating_pace [OF R] and r = room_64 [OF RD(6) space]
  have rm: "room c \<le> 32704" by (simp add: room_def)
  have S: "RelocateSource c \<le> 32704" using p(2,3) by linarith
  have small: "RelocateSource c * n \<le> 32704 * 32704" if "n \<le> 32704" for n
    using mult_le_mono [OF S that] .
  have "NextChunkNo c < MAX_CHUNKS c" using RD(6) by (simp add: geom_def)
  then have U: "Used (ChunkInfo c (NextChunkNo c)) = card (to_move c) + CachePos c div 8"
    using ftl_invD(4) [OF RD(1)] moving_card [OF RD(7,4)] by (simp add: used_ok_def)
  have "card (to_move c) + CachePos c div 8 \<le> SIZE_OF_MAP c"
    unfolding moving_card [OF RD(7,4)] by (rule card_used_set_le)
  then have d1: "sub32 (Used (ChunkInfo c (NextChunkNo c))) (CachePos c div 8) = card (to_move c)"
    using geom_size [OF RD(6)] unfolding U by (subst sub32_id) simp_all
  have d2: "sub32 (LAST_PURGE_POS - SIZE_OF_CACHE) (PurgePos c) div 8 = room c - 64"
    using r(2) unfolding r(3) [symmetric] by (subst sub32_id) simp_all
  have "RelocateTarget c * card (to_move c) \<le> RelocateTarget c * card (used_set c (NextChunkNo c))"
    using moving_card [OF RD(7,4)] by simp
  also have "\<dots> \<le> RelocateSource c * room c" by (rule p(4))
  also have "\<dots> \<le> 32704 * 32704" by (rule small [OF rm])
  finally have a: "wrap32 (RelocateTarget c * card (to_move c)) = RelocateTarget c * card (to_move c)" by simp
  have b: "wrap32 (RelocateSource c * (room c - 64)) = RelocateSource c * (room c - 64)"
  proof -
    have "RelocateSource c * (room c - 64) \<le> 32704 * 32704" by (rule small) (use rm in simp)
    then show ?thesis by simp
  qed
  show ?thesis unfolding on_schedule_def d1 d2 a b by simp
qed

lemma set_done:
  assumes R: "relocating d c" and space: "PurgePos c < LAST_PURGE_POS"
    and pace: "RelocateTarget c * card (to_move c) \<le> RelocateSource c * (room c - 64)"
  shows "ftl_inv d (c\<lparr>RelocationDone := True\<rparr>)"
proof -
  let ?c = "c\<lparr>RelocationDone := True\<rparr>"
  note RD = relocatingD [OF R] and inv' = ftl_invD [OF relocatingD(1) [OF R]]
  have us: "used_set ?c ch = used_set c ch" "cached ?c X = cached c X" for ch X
    by (simp_all add: used_set_def cached_def)
  have "pace ?c"
    using relocating_pace [OF R] RD(2) room_64(1) [OF RD(6) space] assms(3)
    unfolding pace_def to_move_def us by (simp add: room_def)
  moreover have "window_ok d ?c" using RD(5) unfolding window_ok_def us by simp
  moreover have "cache_wf ?c = cache_wf c" by (simp add: cache_wf_def)
  moreover have "dir_word d ?c = dir_word d c" by (intro ext) (simp add: dir_word_def)
  then have "dir_ok d ?c" using inv'(5) unfolding dir_ok_def by simp
  moreover have "geom ?c" "map_ok ?c" "used_ok ?c" "final_ok d ?c" "newest ?c"
    using inv' unfolding geom_def map_ok_def newest_def used_ok_def final_ok_def us by simp_all
  ultimately show ?thesis using inv'(2) RD(2) unfolding ftl_inv_def by simp
qed

lemma reloc_loop_pace:
  assumes R: "relocating d c" and space: "PurgePos c < LAST_PURGE_POS" and stop: "fst (reloc_loop c)"
  shows "ftl_inv d ((snd (reloc_loop c))\<lparr>RelocationDone := True\<rparr>)"
proof -
  define c' where "c' = snd (reloc_loop c)"
  note L = reloc_loop_inv [OF R, of 0, folded c'_def]
  have R': "relocating d c'" using L by blast
  note RD = relocatingD [OF R'] and p = relocating_pace [OF R']
  obtain l m q r where "c' = c\<lparr>CacheLBA := l, CacheMem := m, CachePos := q, RelocatePos := r\<rparr>"
    using reloc_loop_form [of c] unfolding c'_def by blast
  then have space': "PurgePos c' < LAST_PURGE_POS" using space by simp
  have "RelocateTarget c' * card (to_move c') \<le> RelocateSource c' * (room c' - 64)"
  proof (cases "LAST_PURGE_POS \<le> RelocatePos c'")
    case True
    have "to_move c' = {}"
    proof (rule ccontr)
      assume "to_move c' \<noteq> {}"
      then obtain j where j: "j \<in> used_set c' (NextChunkNo c')" "\<not> cached c' (8 * j)" by (auto simp: to_move_def)
      then have "Map c' j mod SIZE_OF_CHUNK < LAST_PURGE_POS"
        using ftl_invD(3) [OF RD(1)] unfolding map_ok_def used_set_def by blast
      then have "Map c' j mod SIZE_OF_CHUNK < RelocatePos c'" using True by linarith
      then show False using RD(5) j unfolding window_ok_def by blast
    qed
    then show ?thesis by simp
  next
    case False
    then have "LAST_CACHE_POS \<le> CachePos c'" using L stop by (simp split: if_splits)
    moreover have "CachePos c' \<le> LAST_CACHE_POS" using RD(7) by (simp add: cache_wf_def)
    ultimately have "card (to_move c') = card (used_set c' (NextChunkNo c')) - 63"
      using moving_card [OF RD(7,4)] by simp
    then show ?thesis using pace_arith [OF p(4,3) room_64(1) [OF RD(6) space']] by simp
  qed
  then show ?thesis unfolding c'_def [symmetric] by (rule set_done [OF R' space'])
qed

lemma relocate_cached_split:
  obtains (sched) "on_schedule c" "ExecuteRelocateCached c = c\<lparr>RelocationDone := True\<rparr>"
    | (stop) "fst (reloc_loop c)" "ExecuteRelocateCached c = (snd (reloc_loop c))\<lparr>RelocationDone := True\<rparr>"
    | (exit) "\<not> fst (reloc_loop c)" "ExecuteRelocateCached c = snd (reloc_loop c)"
  by (cases "reloc_loop c"; cases "on_schedule c"; cases "fst (reloc_loop c)")
     (simp_all add: ExecuteRelocateCached_def)

lemma relocate_cached_form:
  "\<exists>l m p r t. ExecuteRelocateCached c =
     c\<lparr>CacheLBA := l, CacheMem := m, CachePos := p, RelocatePos := r, RelocationDone := t\<rparr>"
proof -
  obtain l m q r where f: "snd (reloc_loop c) = c\<lparr>CacheLBA := l, CacheMem := m, CachePos := q, RelocatePos := r\<rparr>"
    using reloc_loop_form [of c] by blast
  show ?thesis
  proof (cases rule: relocate_cached_split [of c])
    case sched
    then show ?thesis
      by (intro exI [of _ "CacheLBA c"] exI [of _ "CacheMem c"] exI [of _ "CachePos c"] exI [of _ "RelocatePos c"] exI [of _ True]) simp
  next
    case stop
    show ?thesis unfolding stop(2) f by blast
  next
    case exit
    show ?thesis unfolding exit(2) f
      by (intro exI [of _ l] exI [of _ m] exI [of _ q] exI [of _ r] exI [of _ "RelocationDone c"]) simp
  qed
qed

lemma relocate_cached_inv:
  assumes R: "relocating d c" and space: "PurgePos c < LAST_PURGE_POS"
  shows "ftl_inv d (ExecuteRelocateCached c)" "RelocationPrepared (ExecuteRelocateCached c)"
    "vread d (ExecuteRelocateCached c) L = vread d c L"
    "\<not> RelocationDone (ExecuteRelocateCached c) \<Longrightarrow>
     RelocatePos (ExecuteRelocateCached c) < LAST_PURGE_POS \<and>
     live_at (ExecuteRelocateCached c) (RelocatePos (ExecuteRelocateCached c))"
proof -
  note RD = relocatingD [OF R] and L = reloc_loop_inv [OF R, of L]
  show "RelocationPrepared (ExecuteRelocateCached c)"
    using relocate_cached_form [of c] RD(2) by auto
  show "ftl_inv d (ExecuteRelocateCached c)"
  proof (cases rule: relocate_cached_split [of c])
    case sched
    show ?thesis unfolding sched(2)
      using sched(1) by (intro set_done [OF R space]) (simp add: on_schedule_iff [OF R space])
  next
    case stop
    show ?thesis unfolding stop(2) by (rule reloc_loop_pace [OF R space stop(1)])
  next
    case exit
    show ?thesis unfolding exit(2) using L relocatingD(1) by blast
  qed
  show "vread d (ExecuteRelocateCached c) L = vread d c L"
  proof (cases rule: relocate_cached_split [of c])
    case sched
    show ?thesis unfolding sched(2) by (rule vread_eq) simp_all
  next
    case stop
    have "vread d (ExecuteRelocateCached c) L = vread d (snd (reloc_loop c)) L"
      unfolding stop(2) by (rule vread_eq) simp_all
    then show ?thesis using L by metis
  next
    case exit
    show ?thesis unfolding exit(2) using L by blast
  qed
  assume nd: "\<not> RelocationDone (ExecuteRelocateCached c)"
  show "RelocatePos (ExecuteRelocateCached c) < LAST_PURGE_POS \<and>
     live_at (ExecuteRelocateCached c) (RelocatePos (ExecuteRelocateCached c))"
  proof (cases rule: relocate_cached_split [of c])
    case exit
    show ?thesis unfolding exit(2) using L exit(1) by (simp only: if_False simp_thms)
  qed (use nd in simp_all)
qed

end
