(* ===== verification/Log.thy ===== *)
theory Log
  imports Ftl
begin

text \<open>
  The medium as a log. What a restart finds are the directories of the chunks and, in the chunk that is being written,
  the sector at the end of each block of 512 that names its contents. \<open>log_ok\<close> says that these records, taken in
  the order of the sequence numbers and positions, name the places the map of the running driver names. It is
  kept by each of the three actions that touch it: writing the cache, writing a directory, and going on to
  the next chunk.
\<close>

section \<open>Directories\<close>

definition scn_now :: "ctx \<Rightarrow> nat" where
  "scn_now c = SCN (ChunkInfo c (ChunkNo c))"

definition dir_scn :: "mem \<Rightarrow> nat \<Rightarrow> nat" where
  "dir_scn d ch = unat (ctl_on d ch 2)"

definition dir_start :: "mem \<Rightarrow> nat \<Rightarrow> nat" where
  "dir_start d ch = unat (ctl_on d ch 6)"

definition dir_end :: "mem \<Rightarrow> nat \<Rightarrow> nat" where
  "dir_end d ch = unat (ctl_on d ch 7)"

definition dir_next :: "mem \<Rightarrow> nat \<Rightarrow> nat" where
  "dir_next d ch = unat (ctl_on d ch 4)"

text \<open>A directory the recovery takes: intact, of this generation and valid.\<close>

definition dir_taken :: "mem \<Rightarrow> ctx \<Rightarrow> nat \<Rightarrow> bool" where
  "dir_taken d c ch \<longleftrightarrow> fst (VerifyChecksum128 (map (ctl_on d ch) [0..<CTL_WORDS])) \<and>
     unat (ctl_on d ch 0) = LEVELING_VERSION \<and> unat (ctl_on d ch 1) = CCN c \<and>
     dir_start d ch mod SIZE_OF_CACHE = 0 \<and> dir_end d ch mod SIZE_OF_CACHE = 0 \<and>
     dir_start d ch \<le> dir_end d ch \<and> dir_end d ch \<le> LAST_PURGE_POS \<and> dir_next d ch < MAX_CHUNKS c"

text \<open>Entry \<open>k\<close> of the directory of chunk \<open>ch\<close>, or of the one in memory, names block \<open>j\<close>.\<close>

definition dir_names :: "mem \<Rightarrow> ctx \<Rightarrow> nat \<Rightarrow> nat \<Rightarrow> nat \<Rightarrow> bool" where
  "dir_names d c ch k j \<longleftrightarrow> dir_taken d c ch \<and> dir_start d ch \<le> 8 * k \<and> 8 * k < dir_end d ch \<and>
     blk (unat (ctl_on d ch (8 + k))) = j"

definition cur_names :: "ctx \<Rightarrow> nat \<Rightarrow> nat \<Rightarrow> bool" where
  "cur_names c k j \<longleftrightarrow> chunk_start (ChunkNo c) \<le> 8 * k \<and> 8 * k < PurgePos c \<and> blk (unat (ChunkCtl c (8 + k))) = j"

definition dir_now :: "mem \<Rightarrow> ctx \<Rightarrow> bool" where
  "dir_now d c \<longleftrightarrow> dir_taken d c (ChunkNo c) \<and> dir_scn d (ChunkNo c) = scn_now c"

section \<open>Blocks of the current chunk\<close>

text \<open>The sector behind the data of a block written at \<open>pos\<close>, and one that says so.\<close>

definition tail_of :: "mem \<Rightarrow> nat \<Rightarrow> nat \<Rightarrow> sector" where
  "tail_of d ch pos = d (ch * SIZE_OF_CHUNK + pos + LAST_CACHE_POS)"

definition block_of :: "ctx \<Rightarrow> nat \<Rightarrow> nat \<Rightarrow> nat \<Rightarrow> sector \<Rightarrow> bool" where
  "block_of c scn ch pos s \<longleftrightarrow> fst (VerifyChecksum128 (map s [0..<PURGE_WORDS])) \<and> unat (s 0) = LEVELING_VERSION \<and>
     unat (s 1) = CCN c \<and> unat (s 72) = Magic c \<and> unat (s 2) = scn \<and> unat (s 3) = ch \<and> unat (s 4) = pos"

text \<open>An entry as the recovery takes it: a sector number outside the device counts as none.\<close>

definition entry_of :: "ctx \<Rightarrow> u32 \<Rightarrow> u32" where
  "entry_of c w = of_nat (if SIZE_OF_MAP c \<le> blk (unat w) then NOT_MAPPED else unat w)"

text \<open>Where the scan of the current chunk begins.\<close>

definition log_base :: "mem \<Rightarrow> ctx \<Rightarrow> nat" where
  "log_base d c = (if dir_now d c then dir_end d (ChunkNo c) else chunk_start (ChunkNo c))"

section \<open>The invariant\<close>

abbreviation place :: "ctx \<Rightarrow> nat \<Rightarrow> nat" where "place c j \<equiv> Map c j div SIZE_OF_CHUNK"
abbreviation offset :: "ctx \<Rightarrow> nat \<Rightarrow> nat" where "offset c j \<equiv> Map c j mod SIZE_OF_CHUNK"

definition dirs_ordered :: "mem \<Rightarrow> ctx \<Rightarrow> bool" where
  "dirs_ordered d c \<longleftrightarrow>
     (\<forall>ch < MAX_CHUNKS c. dir_taken d c ch \<longrightarrow>
        dir_scn d ch \<le> scn_now c \<and> (dir_scn d ch = scn_now c \<longrightarrow> ch = ChunkNo c)) \<and>
     (\<forall>ch < MAX_CHUNKS c. \<forall>ch' < MAX_CHUNKS c. dir_taken d c ch \<longrightarrow> dir_taken d c ch' \<longrightarrow>
        dir_scn d ch = dir_scn d ch' \<longrightarrow> ch = ch')"

definition own_dir_ok :: "mem \<Rightarrow> ctx \<Rightarrow> bool" where
  "own_dir_ok d c \<longleftrightarrow>
     (dir_now d c \<longrightarrow> dir_start d (ChunkNo c) = chunk_start (ChunkNo c) \<and> dir_end d (ChunkNo c) \<le> PurgePos c \<and>
        (\<forall>k. dir_start d (ChunkNo c) \<le> 8 * k \<and> 8 * k < dir_end d (ChunkNo c) \<longrightarrow>
           ctl_on d (ChunkNo c) (8 + k) = ChunkCtl c (8 + k)) \<and>
        (dir_end d (ChunkNo c) = LAST_PURGE_POS \<longrightarrow> dir_next d (ChunkNo c) = NextChunkNo c \<and> LAST_PURGE_POS \<le> FinalizedPos c)) \<and>
     (LAST_PURGE_POS \<le> FinalizedPos c \<longrightarrow> dir_now d c \<and> dir_end d (ChunkNo c) = LAST_PURGE_POS) \<and>
     (\<not> dir_now d c \<longrightarrow> (\<exists>ch < MAX_CHUNKS c. dir_taken d c ch \<and> dir_scn d ch + 1 = scn_now c \<and>
        dir_end d ch = LAST_PURGE_POS \<and> dir_next d ch = ChunkNo c))"

text \<open>Each block written since the directory has its tail, and no other tail could be taken for one of these.\<close>

definition tails_written :: "mem \<Rightarrow> ctx \<Rightarrow> bool" where
  "tails_written d c \<longleftrightarrow>
     (\<forall>pos. log_base d c \<le> pos \<longrightarrow> pos < PurgePos c \<longrightarrow> pos mod SIZE_OF_CACHE = 0 \<longrightarrow>
        block_of c (scn_now c) (ChunkNo c) pos (tail_of d (ChunkNo c) pos) \<and>
        (\<forall>k < 64. ChunkCtl c (8 + pos div 8 + k) = entry_of c (tail_of d (ChunkNo c) pos (5 + k))))"

definition tails_fresh :: "mem \<Rightarrow> ctx \<Rightarrow> bool" where
  "tails_fresh d c \<longleftrightarrow>
     (\<forall>ch < MAX_CHUNKS c. \<forall>pos < LAST_PURGE_POS. \<forall>scn. pos mod SIZE_OF_CACHE = 0 \<longrightarrow> block_of c scn ch pos (tail_of d ch pos) \<longrightarrow>
        scn < scn_now c \<or> (scn = scn_now c \<and> ch = ChunkNo c \<and> pos < PurgePos c))"

text \<open>No record of a block is newer than the place the map has for it, and that place has a record.\<close>

definition dirs_older :: "mem \<Rightarrow> ctx \<Rightarrow> bool" where
  "dirs_older d c \<longleftrightarrow>
     (\<forall>ch < MAX_CHUNKS c. \<forall>k. \<forall>j < SIZE_OF_MAP c. dir_names d c ch k j \<longrightarrow> Map c j \<noteq> NOT_MAPPED \<and>
        (place c j = ChunkNo c \<or> dir_scn d ch < dir_scn d (place c j) \<or> (place c j = ch \<and> 8 * k \<le> offset c j)))"

definition cur_older :: "ctx \<Rightarrow> bool" where
  "cur_older c \<longleftrightarrow>
     (\<forall>k. \<forall>j < SIZE_OF_MAP c. cur_names c k j \<longrightarrow> Map c j \<noteq> NOT_MAPPED \<and> place c j = ChunkNo c \<and> 8 * k \<le> offset c j)"

definition map_recorded :: "mem \<Rightarrow> ctx \<Rightarrow> bool" where
  "map_recorded d c \<longleftrightarrow>
     (\<forall>j < SIZE_OF_MAP c. Map c j \<noteq> NOT_MAPPED \<longrightarrow>
        (if place c j = ChunkNo c then chunk_start (ChunkNo c) \<le> offset c j
         else dir_taken d c (place c j) \<and> dir_start d (place c j) \<le> offset c j \<and> offset c j < dir_end d (place c j)))"

definition log_ok :: "mem \<Rightarrow> ctx \<Rightarrow> bool" where
  "log_ok d c \<longleftrightarrow> CCN c < 4294967296 \<and> Magic c < 4294967296 \<and> scn_now c < 4294967296 \<and>
     chunk_start (ChunkNo c) \<le> PurgePos c \<and> dirs_ordered d c \<and> own_dir_ok d c \<and> tails_written d c \<and> tails_fresh d c \<and>
     dirs_older d c \<and> cur_older c \<and> map_recorded d c"

lemma log_okD:
  assumes "log_ok d c"
  shows "CCN c < 4294967296" "Magic c < 4294967296" "scn_now c < 4294967296" "chunk_start (ChunkNo c) \<le> PurgePos c"
    "dirs_ordered d c" "own_dir_ok d c" "tails_written d c" "tails_fresh d c" "dirs_older d c" "cur_older c" "map_recorded d c"
  using assms by (simp_all only: log_ok_def)

lemma dirs_orderedD:
  assumes "dirs_ordered d c" "ch < MAX_CHUNKS c" "dir_taken d c ch"
  shows "dir_scn d ch \<le> scn_now c" "ch \<noteq> ChunkNo c \<Longrightarrow> dir_scn d ch < scn_now c"
    "ch' < MAX_CHUNKS c \<Longrightarrow> dir_taken d c ch' \<Longrightarrow> dir_scn d ch = dir_scn d ch' \<Longrightarrow> ch = ch'"
  using assms unfolding dirs_ordered_def by (blast, metis le_neq_implies_less, blast)

lemma own_dirD:
  assumes "own_dir_ok d c" "dir_now d c"
  shows "dir_start d (ChunkNo c) = chunk_start (ChunkNo c)" "dir_end d (ChunkNo c) \<le> PurgePos c"
    "dir_start d (ChunkNo c) \<le> 8 * k \<Longrightarrow> 8 * k < dir_end d (ChunkNo c) \<Longrightarrow> ctl_on d (ChunkNo c) (8 + k) = ChunkCtl c (8 + k)"
    "dir_end d (ChunkNo c) = LAST_PURGE_POS \<Longrightarrow> dir_next d (ChunkNo c) = NextChunkNo c"
    "dir_end d (ChunkNo c) = LAST_PURGE_POS \<Longrightarrow> LAST_PURGE_POS \<le> FinalizedPos c"
  using assms unfolding own_dir_ok_def by blast+

text \<open>What a restart would read: the medium without the cache.\<close>

definition med :: "mem \<Rightarrow> ctx \<Rightarrow> nat \<Rightarrow> sector" where
  "med d c L = (if Map c (blk L) = NOT_MAPPED then zero_sector else d (Map c (blk L) + off8 L))"

lemma med_empty: "CachePos c = 0 \<Longrightarrow> vread d c L = med d c L"
  using vread_uncached [of c L d] by (simp add: med_def cache_wf_def cached_def)

section \<open>What the invariant depends on\<close>

definition log_view where
  "log_view c = (CCN c, Magic c, SIZE_OF_MAP c, MAX_CHUNKS c, ChunkNo c, NextChunkNo c, ChunkCtl c, Map c, PurgePos c,
     FinalizedPos c, scn_now c)"

lemma log_viewD:
  assumes "log_view c' = log_view c"
  shows "CCN c' = CCN c" "Magic c' = Magic c" "SIZE_OF_MAP c' = SIZE_OF_MAP c" "MAX_CHUNKS c' = MAX_CHUNKS c"
    "ChunkNo c' = ChunkNo c" "NextChunkNo c' = NextChunkNo c" "ChunkCtl c' = ChunkCtl c" "Map c' = Map c"
    "PurgePos c' = PurgePos c" "FinalizedPos c' = FinalizedPos c" "scn_now c' = scn_now c"
  using assms by (simp_all add: log_view_def)

lemma log_ok_view:
  assumes "log_view c' = log_view c" shows "log_ok d c' = log_ok d c"
proof -
  note v = log_viewD [OF assms]
  have t: "dir_taken d c' = dir_taken d c" by (intro ext) (simp add: dir_taken_def v)
  have n: "dir_now d c' = dir_now d c" by (simp add: dir_now_def t v)
  have m: "dir_names d c' = dir_names d c" "cur_names c' = cur_names c" by (intro ext; simp add: dir_names_def cur_names_def t v)+
  have b: "block_of c' = block_of c" "entry_of c' = entry_of c" by (intro ext; simp add: block_of_def entry_of_def v)+
  show ?thesis
    unfolding log_ok_def dirs_ordered_def own_dir_ok_def tails_written_def tails_fresh_def dirs_older_def cur_older_def
      map_recorded_def log_base_def v t n m b ..
qed

lemma med_view: "log_view c' = log_view c \<Longrightarrow> med d c' L = med d c L"
  by (simp add: med_def log_view_def)

lemma same_ftl_view: "same_ftl c c' \<Longrightarrow> log_view c' = log_view c"
  by (simp add: same_ftl_def log_view_def scn_now_def)

text \<open>The medium only counts through the directories and the tails.\<close>

lemma dirs_cong:
  assumes "\<And>w. w < CTL_WORDS \<Longrightarrow> ctl_on d' ch w = ctl_on d ch w"
  shows "dir_scn d' ch = dir_scn d ch" "dir_start d' ch = dir_start d ch" "dir_end d' ch = dir_end d ch"
    "dir_next d' ch = dir_next d ch" "dir_taken d' c ch = dir_taken d c ch"
proof -
  have w: "ctl_on d' ch w = ctl_on d ch w" if "w < 8" for w using assms [of w] that by (simp add: CTL_WORDS_def)
  show 1: "dir_scn d' ch = dir_scn d ch" "dir_start d' ch = dir_start d ch" "dir_end d' ch = dir_end d ch"
    "dir_next d' ch = dir_next d ch" by (simp_all add: dir_scn_def dir_start_def dir_end_def dir_next_def w)
  have "map (ctl_on d' ch) [0..<CTL_WORDS] = map (ctl_on d ch) [0..<CTL_WORDS]" by (rule map_cong) (simp_all add: assms)
  then show "dir_taken d' c ch = dir_taken d c ch" using 1 by (simp only: dir_taken_def) (simp add: w)
qed

lemma dir_entry_word: "dir_taken d c ch \<Longrightarrow> 8 * k < dir_end d ch \<Longrightarrow> 8 + k < CTL_WORDS"
  by (simp add: dir_taken_def CTL_WORDS_def)

lemma dir_names_cong:
  assumes "\<And>w. w < CTL_WORDS \<Longrightarrow> ctl_on d' ch w = ctl_on d ch w"
  shows "dir_names d' c ch k j = dir_names d c ch k j"
  using dirs_cong [of d' ch d, OF assms] assms [of "8 + k"] dir_entry_word [of d c ch k] by (auto simp: dir_names_def)

section \<open>Writing the cache\<close>

lemma purge_sector_head:
  assumes "w < 73" shows "purge_sector c w = purge_ctl_word c w"
proof -
  let ?ws = "map (purge_ctl_word c) [0..<PURGE_WORDS]"
  have "take (length ?ws - 4) (ProduceChecksum128 ?ws) = take (length ?ws - 4) ?ws"
    by (rule Produce_body) (simp add: PURGE_WORDS_def)
  then have "take 73 (ProduceChecksum128 ?ws) ! w = take 73 ?ws ! w" by (simp add: PURGE_WORDS_def)
  then have "ProduceChecksum128 ?ws ! w = ?ws ! w" using assms by simp
  then show ?thesis using assms by (simp add: purge_sector_def PURGE_WORDS_def Let_def)
qed

lemma purge_sector_verifies: "fst (VerifyChecksum128 (map (purge_sector c) [0..<PURGE_WORDS]))"
proof -
  let ?ws = "map (purge_ctl_word c) [0..<PURGE_WORDS]"
  have l: "4 \<le> length ?ws" by (simp add: PURGE_WORDS_def)
  have "map (purge_sector c) [0..<PURGE_WORDS] = ProduceChecksum128 ?ws"
  proof (rule nth_equalityI)
    fix i assume "i < length (map (purge_sector c) [0..<PURGE_WORDS])"
    then have "i < PURGE_WORDS" by simp
    then show "map (purge_sector c) [0..<PURGE_WORDS] ! i = ProduceChecksum128 ?ws ! i" by (simp add: purge_sector_def Let_def)
  qed (simp add: length_Produce [OF l])
  then show ?thesis using ck.check_seal [OF l] by simp
qed

lemma purge_sector_block:
  assumes "log_ok d c" "geom c"
  shows "block_of c (scn_now c) (ChunkNo c) (PurgePos c) (purge_sector c)"
  using assms purge_sector_verifies [of c]
  by (simp add: block_of_def purge_sector_head purge_ctl_word_def log_ok_def geom_def scn_now_def)

lemma purge_sector_entry:
  assumes "cache_wf c" "geom c" "k < 64"
  shows "entry_of c (purge_sector c (5 + k)) = purge_sector c (5 + k)"
proof -
  have S: "SIZE_OF_MAP c \<le> 13107200" using assms(2) by (simp add: geom_def)
  have "entry_of c (of_nat (purge_lba c k)) = of_nat (purge_lba c k)"
  proof (cases "CachePos c \<le> 8 * k")
    case True
    have "SIZE_OF_MAP c \<le> blk NOT_MAPPED" using S by (simp add: blk_def)
    moreover have "unat (of_nat NOT_MAPPED :: u32) = NOT_MAPPED" by simp
    ultimately show ?thesis using True unfolding entry_of_def purge_lba_def by (simp del: NOT_MAPPED_def)
  next
    case False
    then have k: "8 * k < CachePos c" by simp
    then have "unat (of_nat (CacheLBA c (8 * k)) :: u32) = CacheLBA c (8 * k)" "blk (CacheLBA c (8 * k)) < SIZE_OF_MAP c"
      using cache_lba_small [OF assms(1,2) k] cache_wfD(3) [OF assms(1) k] by (simp_all add: unat_of_nat32)
    then show ?thesis using k by (simp add: entry_of_def purge_lba_def)
  qed
  then show ?thesis using purge_sector_lba [OF assms(3)] by simp
qed

lemma aligned_split: "a mod 512 = 0 \<Longrightarrow> b mod 512 = 0 \<Longrightarrow> a < b \<Longrightarrow> a + 512 \<le> (b :: nat)"
  by (auto elim!: dvdE simp: mod_eq_0_iff_dvd)

lemma purge_facts2:
  assumes A: "can_purge d c d' c'"
  shows "\<And>ch w. w < CTL_WORDS \<Longrightarrow> ctl_on d' ch w = ctl_on d ch w" "scn_now c' = scn_now c" "CCN c' = CCN c" "Magic c' = Magic c"
    "\<And>ch pos. pos < LAST_PURGE_POS \<Longrightarrow> pos mod SIZE_OF_CACHE = 0 \<Longrightarrow>
       tail_of d' ch pos = (if ch = ChunkNo c \<and> pos = PurgePos c then purge_sector c else tail_of d ch pos)"
proof -
  note fit = can_purgeD(3) [OF A] and eff = can_purgeD(4) [OF A] and F = purge_facts [OF A]
  obtain m where d': "d' = copy_sectors d (ChunkNo c * SIZE_OF_CHUNK + PurgePos c) m 0 SIZE_OF_CACHE"
    and m: "m LAST_CACHE_POS = purge_sector c" and k: "CCN c' = CCN c" "Magic c' = Magic c"
    using eff unfolding purge_effect_def same_ftl_def by auto
  show "ctl_on d' ch w = ctl_on d ch w" if "w < CTL_WORDS" for ch w
    unfolding d' using fit that by (intro ctl_on_write) simp_all
  show "CCN c' = CCN c" "Magic c' = Magic c" by (rule k)+
  show "scn_now c' = scn_now c" using purge_effectD(3,20) [OF eff] by (simp add: scn_now_def)
  show "tail_of d' ch pos = (if ch = ChunkNo c \<and> pos = PurgePos c then purge_sector c else tail_of d ch pos)"
    if pos: "pos < LAST_PURGE_POS" "pos mod SIZE_OF_CACHE = 0" for ch pos
  proof (cases "ch = ChunkNo c \<and> pos = PurgePos c")
    case True
    have "d' (ChunkNo c * SIZE_OF_CHUNK + PurgePos c + LAST_CACHE_POS) = m (0 + (ChunkNo c * SIZE_OF_CHUNK + PurgePos c + LAST_CACHE_POS - (ChunkNo c * SIZE_OF_CHUNK + PurgePos c)))"
      unfolding d' by (subst copy_sectors_in) simp_all
    then show ?thesis using True m by (simp add: tail_of_def)
  next
    case False
    let ?a = "ch * SIZE_OF_CHUNK + (pos + LAST_CACHE_POS)"
    have P: "PurgePos c mod 512 = 0" using F(2) by (simp add: geom_def)
    have "pos + LAST_CACHE_POS < SIZE_OF_CHUNK" using pos(1) by simp
    then have a: "?a div SIZE_OF_CHUNK = ch" "?a mod SIZE_OF_CHUNK = pos + LAST_CACHE_POS"
      using chunk_of_phys pos_of_phys by simp_all
    have "pos \<noteq> PurgePos c \<Longrightarrow> pos + LAST_CACHE_POS < PurgePos c \<or> PurgePos c + SIZE_OF_CACHE \<le> pos + LAST_CACHE_POS"
      using aligned_split [of pos "PurgePos c"] aligned_split [of "PurgePos c" pos] P pos(2) by (cases "pos < PurgePos c") simp_all
    then have "d' ?a = d ?a" unfolding d' using False a fit by (intro write_elsewhere) auto
    then show ?thesis unfolding if_not_P [OF False] tail_of_def by (simp only: add.assoc)
  qed
qed

lemma purge_ctl_at:
  assumes A: "can_purge d c d' c'" and k: "k < 64"
  shows "pos + SIZE_OF_CACHE \<le> PurgePos c \<Longrightarrow> ChunkCtl c' (8 + pos div 8 + k) = ChunkCtl c (8 + pos div 8 + k)"
    "ChunkCtl c' (8 + PurgePos c div 8 + k) = purge_sector c (5 + k)"
proof -
  have C: "ChunkCtl c' = purge_chunk_ctl c" using purge_effectD(5) [OF can_purgeD(4) [OF A]] .
  assume "pos + SIZE_OF_CACHE \<le> PurgePos c"
  then have "pos div 8 + k < PurgePos c div 8" using k by (simp add: less_eq_div_iff_mult_less_eq)
  then show "ChunkCtl c' (8 + pos div 8 + k) = ChunkCtl c (8 + pos div 8 + k)" unfolding C by (simp add: purge_chunk_ctl_def)
next
  show "ChunkCtl c' (8 + PurgePos c div 8 + k) = purge_sector c (5 + k)"
    using k purge_effectD(5) [OF can_purgeD(4) [OF A]] purge_sector_lba [OF k, of c] by (simp add: purge_chunk_ctl_def)
qed

lemma purge_log_view:
  assumes A: "can_purge d c d' c'"
  shows "dir_scn d' ch = dir_scn d ch" "dir_start d' ch = dir_start d ch" "dir_end d' ch = dir_end d ch"
    "dir_next d' ch = dir_next d ch" "dir_taken d' c' ch = dir_taken d c ch" "dir_names d' c' ch k j = dir_names d c ch k j"
    "dir_now d' c' = dir_now d c" "log_base d' c' = log_base d c" "block_of c' = block_of c" "entry_of c' = entry_of c"
proof -
  note f = purge_facts2 [OF A] and e = purge_effectD [OF can_purgeD(4) [OF A]]
  note D = dirs_cong [of d' _ d, OF f(1)]
  show d: "dir_scn d' ch = dir_scn d ch" "dir_start d' ch = dir_start d ch" "dir_end d' ch = dir_end d ch"
    "dir_next d' ch = dir_next d ch" for ch using D by simp_all
  have "dir_taken d' c' ch = dir_taken d' c ch" for ch using e f by (simp add: dir_taken_def)
  then show t: "dir_taken d' c' ch = dir_taken d c ch" for ch using D(5) by simp
  have "dir_names d' c' ch k j = dir_names d' c ch k j" using t D(5) by (simp add: dir_names_def)
  then show "dir_names d' c' ch k j = dir_names d c ch k j" using dir_names_cong [OF f(1)] by simp
  show n: "dir_now d' c' = dir_now d c" using t d e f by (simp add: dir_now_def)
  show "log_base d' c' = log_base d c" using n d e by (simp add: log_base_def)
  show "block_of c' = block_of c" "entry_of c' = entry_of c" by (intro ext; use e f in \<open>simp add: block_of_def entry_of_def\<close>)+
qed

lemma purge_tails_written:
  assumes A: "can_purge d c d' c'" and L: "log_ok d c"
  shows "tails_written d' c'"
  unfolding tails_written_def
proof (intro allI impI)
  note e = purge_effectD [OF can_purgeD(4) [OF A]] and F = purge_facts [OF A] and f = purge_facts2 [OF A] and v = purge_log_view [OF A]
  have P: "PurgePos c mod 512 = 0" "PurgePos c < LAST_PURGE_POS" using F(2) can_purgeD(3) [OF A] by (simp_all add: geom_def)
  fix pos assume "log_base d' c' \<le> pos" "pos < PurgePos c'" "pos mod SIZE_OF_CACHE = 0"
  then have pos: "log_base d c \<le> pos" "pos < PurgePos c + SIZE_OF_CACHE" "pos mod SIZE_OF_CACHE = 0" "pos < LAST_PURGE_POS"
    using v(8) e(8) can_purgeD(3) [OF A] by simp_all
  have "block_of c (scn_now c) (ChunkNo c) pos (tail_of d' (ChunkNo c) pos) \<and>
      (\<forall>k < 64. ChunkCtl c' (8 + pos div 8 + k) = entry_of c (tail_of d' (ChunkNo c) pos (5 + k)))"
  proof (cases "pos = PurgePos c")
    case True
    have t: "tail_of d' (ChunkNo c) pos = purge_sector c" using f(5) [OF pos(4,3)] True by simp
    show ?thesis unfolding t unfolding True
      using purge_sector_block [OF L F(2)] purge_ctl_at(2) [OF A] purge_sector_entry [OF F(1,2)] by simp
  next
    case False
    then have lt: "pos < PurgePos c" using pos P aligned_split [of "PurgePos c" pos] by (cases "PurgePos c < pos") auto
    then have "pos + SIZE_OF_CACHE \<le> PurgePos c" using aligned_split [of pos "PurgePos c"] P pos(3) by simp
    then have "\<forall>k < 64. ChunkCtl c' (8 + pos div 8 + k) = ChunkCtl c (8 + pos div 8 + k)" using purge_ctl_at(1) [OF A] by blast
    moreover have "tail_of d' (ChunkNo c) pos = tail_of d (ChunkNo c) pos" using f(5) [OF pos(4,3)] False by simp
    ultimately show ?thesis using log_okD(7) [OF L] lt pos(1,3) unfolding tails_written_def by simp
  qed
  then show "block_of c' (scn_now c') (ChunkNo c') pos (tail_of d' (ChunkNo c') pos) \<and>
      (\<forall>k < 64. ChunkCtl c' (8 + pos div 8 + k) = entry_of c' (tail_of d' (ChunkNo c') pos (5 + k)))"
    unfolding v(9,10) e(3) f(2) .
qed

lemma purge_tails_fresh:
  assumes A: "can_purge d c d' c'" and L: "log_ok d c"
  shows "tails_fresh d' c'"
  unfolding tails_fresh_def
proof (intro allI impI)
  note e = purge_effectD [OF can_purgeD(4) [OF A]] and F = purge_facts [OF A] and f = purge_facts2 [OF A] and v = purge_log_view [OF A]
  fix ch pos scn assume a: "ch < MAX_CHUNKS c'" "pos < LAST_PURGE_POS" "pos mod SIZE_OF_CACHE = 0" "block_of c' scn ch pos (tail_of d' ch pos)"
  have "scn < scn_now c \<or> (scn = scn_now c \<and> ch = ChunkNo c \<and> pos < PurgePos c + SIZE_OF_CACHE)"
  proof (cases "ch = ChunkNo c \<and> pos = PurgePos c")
    case True
    then have "block_of c scn ch pos (purge_sector c)" using a(4) f(5) [OF a(2,3), of ch] unfolding v(9) by simp
    then have "scn = scn_now c" using purge_sector_block [OF L F(2)] by (simp add: block_of_def)
    then show ?thesis using True by simp
  next
    case False
    have "block_of c scn ch pos (tail_of d ch pos)"
      using a(4) f(5) [OF a(2,3), of ch, unfolded if_not_P [OF False]] unfolding v(9) by simp
    then have "scn < scn_now c \<or> (scn = scn_now c \<and> ch = ChunkNo c \<and> pos < PurgePos c)"
      using log_okD(8) [OF L] a(1-3) e(2) unfolding tails_fresh_def by simp
    then show ?thesis by auto
  qed
  then show "scn < scn_now c' \<or> (scn = scn_now c' \<and> ch = ChunkNo c' \<and> pos < PurgePos c')" unfolding f(2) e(3,8) .
qed

lemma purge_moved:
  assumes A: "can_purge d c d' c'" and k: "8 * k < CachePos c" "Map c' j = ChunkNo c * SIZE_OF_CHUNK + PurgePos c + 8 * k"
  shows "Map c' j \<noteq> NOT_MAPPED" "place c' j = ChunkNo c" "offset c' j = PurgePos c + 8 * k"
proof -
  note F = purge_facts [OF A] and fit = can_purgeD(3) [OF A]
  have k8: "8 * k < SIZE_OF_CACHE" using k(1) F(4) by simp
  have "ChunkNo c < 500" using F(2) by (simp add: geom_def)
  then show "Map c' j \<noteq> NOT_MAPPED" using fit k8 k(2) by simp
  show "place c' j = ChunkNo c" "offset c' j = PurgePos c + 8 * k" unfolding k(2) by (rule purge_addr(1,2) [OF fit k8 F(3)])+
qed

text \<open>An entry of the new directory is one of the old one, or one of the block just written.\<close>

lemma purge_cur_names:
  assumes A: "can_purge d c d' c'" and n: "cur_names c' k j" "j < SIZE_OF_MAP c"
  obtains (Old) "cur_names c k j" | (New) i where "8 * i < CachePos c" "CacheLBA c (8 * i) = 8 * j" "8 * k = PurgePos c + 8 * i"
proof -
  note e = purge_effectD [OF can_purgeD(4) [OF A]] and F = purge_facts [OF A]
  have k: "chunk_start (ChunkNo c) \<le> 8 * k" "8 * k < PurgePos c + SIZE_OF_CACHE" "blk (unat (purge_chunk_ctl c (8 + k))) = j"
    using n(1) unfolding cur_names_def e(3,5,8) by simp_all
  obtain p where p: "PurgePos c = 8 * p" using F(3) unfolding off8_def by (rule mult8E)
  show thesis
  proof (cases "8 * k < PurgePos c")
    case True
    then have "purge_chunk_ctl c (8 + k) = ChunkCtl c (8 + k)" using p by (simp add: purge_chunk_ctl_def)
    then show ?thesis using Old k True by (simp add: cur_names_def)
  next
    case False
    define i where "i = k - p"
    have i: "k = p + i" using False p by (simp add: i_def)
    then have w: "purge_chunk_ctl c (8 + k) = of_nat (purge_lba c i)" using k(2) p by (simp add: purge_chunk_ctl_def)
    have S: "SIZE_OF_MAP c \<le> 13107200" using F(2) by (simp add: geom_def)
    have "8 * i < CachePos c"
    proof (rule ccontr)
      assume "\<not> 8 * i < CachePos c"
      then have "purge_lba c i = NOT_MAPPED" by (simp add: purge_lba_def)
      then have "j = blk NOT_MAPPED" using k(3) w by (simp add: unat_of_nat32)
      then show False using n(2) S by (simp add: blk_def)
    qed
    moreover from this have "CacheLBA c (8 * i) < 4294967296" "off8 (CacheLBA c (8 * i)) = 0"
      using cache_lba_small [OF F(1,2)] cache_wfD(1) [OF F(1)] by (fastforce simp: off8_def)+
    then have "CacheLBA c (8 * i) = 8 * j"
      using k(3) w \<open>8 * i < CachePos c\<close> lba_split [of "CacheLBA c (8 * i)"] by (simp add: purge_lba_def unat_of_nat32)
    ultimately show ?thesis using New i p by simp
  qed
qed

lemma purge_older:
  assumes A: "can_purge d c d' c'" and L: "log_ok d c"
  shows "dirs_older d' c'" "cur_older c'" "map_recorded d' c'"
proof -
  note e = purge_effectD [OF can_purgeD(4) [OF A]] and F = purge_facts [OF A] and v = purge_log_view [OF A] and mv = purge_moved [OF A]
  note cases = purge_map_cases [OF can_purgeD(4) [OF A] F(1)]
  show "dirs_older d' c'" unfolding dirs_older_def v e(1,2,3)
  proof (intro allI impI)
    fix ch k j assume a: "ch < MAX_CHUNKS c" "j < SIZE_OF_MAP c" "dir_names d c ch k j"
    show "Map c' j \<noteq> NOT_MAPPED \<and> (place c' j = ChunkNo c \<or> dir_scn d ch < dir_scn d (place c' j) \<or> (place c' j = ch \<and> 8 * k \<le> offset c' j))"
    proof (cases rule: cases [of j])
      case (1 i) then show ?thesis using mv by blast
    next
      case 2 show ?thesis unfolding 2(2) using log_okD(9) [OF L] a unfolding dirs_older_def by blast
    qed
  qed
  show "cur_older c'" unfolding cur_older_def e(1,3)
  proof (intro allI impI)
    fix k j assume a: "j < SIZE_OF_MAP c" "cur_names c' k j"
    show "Map c' j \<noteq> NOT_MAPPED \<and> place c' j = ChunkNo c \<and> 8 * k \<le> offset c' j"
    proof (cases rule: purge_cur_names [OF A a(2,1)])
      case old: 1
      show ?thesis
      proof (cases rule: cases [of j])
        case (1 i)
        have "8 * k < PurgePos c" using old by (simp add: cur_names_def)
        then show ?thesis using mv [OF 1(1,3)] by simp
      next
        case 2 show ?thesis unfolding 2(2) using log_okD(10) [OF L] a(1) old unfolding cur_older_def by blast
      qed
    next
      case new: (2 i)
      then have "Map c' j = ChunkNo c * SIZE_OF_CHUNK + PurgePos c + 8 * i" using e(21) [OF new(1)] by simp
      from mv [OF new(1) this] show ?thesis using new(3) by simp
    qed
  qed
  show "map_recorded d' c'" unfolding map_recorded_def v e(1,3)
  proof (intro allI impI)
    fix j assume a: "j < SIZE_OF_MAP c" "Map c' j \<noteq> NOT_MAPPED"
    show "if place c' j = ChunkNo c then chunk_start (ChunkNo c) \<le> offset c' j
      else dir_taken d c (place c' j) \<and> dir_start d (place c' j) \<le> offset c' j \<and> offset c' j < dir_end d (place c' j)"
    proof (cases rule: cases [of j])
      case (1 i) then show ?thesis using mv [OF 1(1,3)] log_okD(4) [OF L] by simp
    next
      case 2 show ?thesis unfolding 2(2) using log_okD(11) [OF L] a(1) a(2) [unfolded 2(2)] unfolding map_recorded_def by blast
    qed
  qed
qed

lemma purge_log:
  assumes A: "can_purge d c d' c'" and L: "log_ok d c"
  shows "log_ok d' c'"
proof -
  note e = purge_effectD [OF can_purgeD(4) [OF A]] and f = purge_facts2 [OF A] and v = purge_log_view [OF A]
  have "dirs_ordered d' c'" using log_okD(5) [OF L] unfolding dirs_ordered_def v e(2,3) f(2) .
  moreover have "own_dir_ok d' c'"
  proof -
    note o = log_okD(6) [OF L, unfolded own_dir_ok_def]
    have fin: "\<not> LAST_PURGE_POS \<le> FinalizedPos c"
      using ftl_invD(6) [OF can_purgeD(1) [OF A]] can_purgeD(3) [OF A] by (simp add: final_ok_def)
    have w: "ctl_on d' (ChunkNo c) (8 + k) = ctl_on d (ChunkNo c) (8 + k) \<and> ChunkCtl c' (8 + k) = ChunkCtl c (8 + k)"
      if "dir_now d c" "8 * k < dir_end d (ChunkNo c)" for k
    proof -
      have "8 + k < CTL_WORDS" using that dir_entry_word [of d c "ChunkNo c" k] by (simp add: dir_now_def)
      moreover have "8 * k < PurgePos c" using o that by auto
      moreover obtain p where "PurgePos c = 8 * p" using purge_facts(3) [OF A] unfolding off8_def by (rule mult8E)
      ultimately show ?thesis using f(1) e(5) by (simp add: purge_chunk_ctl_def)
    qed
    show ?thesis unfolding own_dir_ok_def v e(2,3,4,7,8) f(2) using o fin w by auto
  qed
  ultimately show ?thesis
    using log_okD(1-4) [OF L] purge_tails_written [OF A L] purge_tails_fresh [OF A L] purge_older [OF A L] e f
    by (simp add: log_ok_def)
qed

section \<open>Writing a directory\<close>

lemma seal_verifies: "fst (VerifyChecksum128 (map (seal_ctl f) [0..<CTL_WORDS]))"
proof -
  let ?ws = "map f [0..<CTL_WORDS]"
  have l: "4 \<le> length ?ws" by (simp add: CTL_WORDS_def)
  have "map (seal_ctl f) [0..<CTL_WORDS] = ProduceChecksum128 ?ws"
  proof (rule nth_equalityI)
    fix i assume "i < length (map (seal_ctl f) [0..<CTL_WORDS])"
    then have "i < CTL_WORDS" by simp
    then show "map (seal_ctl f) [0..<CTL_WORDS] ! i = ProduceChecksum128 ?ws ! i" by (simp add: seal_ctl_def Let_def)
  qed (simp add: length_Produce [OF l])
  then show ?thesis using ck.check_seal [OF l] by simp
qed

lemma chunk_image_words:
  obtains I ctl where "chunk_image c = c\<lparr>ChunkInfo := I, ChunkCtl := ctl, CacheMem := mem_of_ctl ctl (CacheMem c)\<rparr>"
    "\<And>k. SCN (I k) = SCN (ChunkInfo c k)"
    "ctl 0 = of_nat LEVELING_VERSION" "ctl 1 = of_nat (CCN c)" "ctl 2 = of_nat (scn_now c)" "ctl 4 = of_nat (NextChunkNo c)"
    "ctl 6 = of_nat (chunk_start (ChunkNo c))" "ctl 7 = of_nat (PurgePos c)"
    "\<And>k. k < LAST_PURGE_POS div 8 \<Longrightarrow> ctl (8 + k) = ChunkCtl c (8 + k)"
    "fst (VerifyChecksum128 (map ctl [0..<CTL_WORDS]))"
proof -
  let ?f = "chunk_ctl_word (bump_wcn c)"
  let ?ctl = "seal_ctl ?f"
  have b: "chunk_image c = c\<lparr>ChunkInfo := ChunkInfo (bump_wcn c), ChunkCtl := ?ctl, CacheMem := mem_of_ctl ?ctl (CacheMem c)\<rparr>"
    by (simp add: chunk_image_def Let_def) (simp add: bump_wcn_def)
  have w: "?ctl w = ?f w" if "w < CTL_WORDS - 4" for w using that by (rule seal_ctl_body)
  have k: "?ctl (8 + k) = ChunkCtl c (8 + k)" if "k < LAST_PURGE_POS div 8" for k
    using w [of "8 + k"] that by (simp add: CTL_WORDS_def chunk_ctl_word_def) (simp add: bump_wcn_def)
  have "?ctl 0 = of_nat LEVELING_VERSION" "?ctl 1 = of_nat (CCN c)" "?ctl 2 = of_nat (scn_now c)" "?ctl 4 = of_nat (NextChunkNo c)"
    "?ctl 6 = of_nat (chunk_start (ChunkNo c))" "?ctl 7 = of_nat (PurgePos c)"
    using w by (simp_all add: CTL_WORDS_def chunk_ctl_word_def bump_wcn_def scn_now_def)
  from that [OF b _ this k seal_verifies] show thesis by (simp add: bump_wcn_def)
qed

lemma chunk_log:
  assumes inv: "ftl_inv d c" and L: "log_ok d c"
  shows "log_ok (fst (chunk_served d c)) (snd (chunk_served d c))"
proof -
  obtain I ctl where ci: "chunk_image c = c\<lparr>ChunkInfo := I, ChunkCtl := ctl, CacheMem := mem_of_ctl ctl (CacheMem c)\<rparr>"
    and I: "\<And>k. SCN (I k) = SCN (ChunkInfo c k)"
    and h: "ctl 0 = of_nat LEVELING_VERSION" "ctl 1 = of_nat (CCN c)" "ctl 2 = of_nat (scn_now c)" "ctl 4 = of_nat (NextChunkNo c)"
      "ctl 6 = of_nat (chunk_start (ChunkNo c))" "ctl 7 = of_nat (PurgePos c)"
    and ctl: "\<And>k. k < LAST_PURGE_POS div 8 \<Longrightarrow> ctl (8 + k) = ChunkCtl c (8 + k)"
    and sealed: "fst (VerifyChecksum128 (map ctl [0..<CTL_WORDS]))"
    by (rule chunk_image_words [of c]) blast
  note g = ftl_invD(1) [OF inv]
  define d' where "d' = fst (chunk_served d c)"
  define c' where "c' = snd (chunk_served d c)"
  have c': "c' = c\<lparr>ChunkInfo := I, ChunkCtl := ctl, CacheMem := mem_of_ctl ctl (CacheMem c), FinalizedPos := PurgePos c\<rparr>"
    by (simp add: c'_def chunk_served_def ci)
  have ph: "phys (ChunkNo c) LAST_PURGE_POS = ChunkNo c * SIZE_OF_CHUNK + LAST_PURGE_POS"
    using g by (intro phys_eq) (simp_all add: geom_def)
  have d': "d' = copy_sectors d (ChunkNo c * SIZE_OF_CHUNK + LAST_PURGE_POS) (mem_of_ctl ctl (CacheMem c)) 0 SIZE_OF_CACHE"
    unfolding d'_def chunk_served_def fst_conv ph by (simp add: ci)
  have own: "ctl_on d' (ChunkNo c) w = ctl w" if "w < CTL_WORDS" for w unfolding d' using that by (rule ctl_on_mem)
  have other: "ctl_on d' ch w = ctl_on d ch w" if "ch \<noteq> ChunkNo c" "w < CTL_WORDS" for ch w
    unfolding d' using that by (intro ctl_on_write) simp_all
  have s: "scn_now c' = scn_now c" using I by (simp add: scn_now_def c')
  have G: "PurgePos c \<le> LAST_PURGE_POS" "PurgePos c mod 512 = 0" "NextChunkNo c < MAX_CHUNKS c" "MAX_CHUNKS c \<le> 500"
    using g by (simp_all add: geom_def)
  have st: "chunk_start (ChunkNo c) mod 512 = 0" "chunk_start (ChunkNo c) < 4294967296" using chunk_start_cases [of "ChunkNo c"] by auto
  note Ld = log_okD [OF L]
  have D: "dir_scn d' ch = dir_scn d ch" "dir_start d' ch = dir_start d ch" "dir_end d' ch = dir_end d ch"
    "dir_taken d' c' ch = dir_taken d c ch" "dir_names d' c' ch k j = dir_names d c ch k j" if "ch \<noteq> ChunkNo c" for ch k j
    using dirs_cong [of d' ch d, OF other [OF that]] dir_names_cong [of d' ch d c k j, OF other [OF that]]
    by (simp_all add: dir_taken_def dir_names_def c')
  have low: "8 < CTL_WORDS" by (simp add: CTL_WORDS_def)
  have O: "dir_scn d' (ChunkNo c) = scn_now c" "dir_start d' (ChunkNo c) = chunk_start (ChunkNo c)" "dir_end d' (ChunkNo c) = PurgePos c"
    "dir_next d' (ChunkNo c) = NextChunkNo c"
    using h G st(2) Ld(3) low by (simp_all add: dir_scn_def dir_start_def dir_end_def dir_next_def own unat_of_nat32)
  have "map (ctl_on d' (ChunkNo c)) [0..<CTL_WORDS] = map ctl [0..<CTL_WORDS]" by (rule map_cong) (simp_all add: own)
  then have "fst (VerifyChecksum128 (map (ctl_on d' (ChunkNo c)) [0..<CTL_WORDS]))" using sealed by (simp only:)
  then have T: "dir_taken d' c' (ChunkNo c)"
    using O G st Ld(1,4) h low unfolding dir_taken_def by (simp add: own c' unat_of_nat32)
  have n: "dir_now d' c'" using T O s by (simp add: dir_now_def c')
  have ent: "ctl_on d' (ChunkNo c) (8 + k) = ChunkCtl c (8 + k)" "ctl (8 + k) = ChunkCtl c (8 + k)" if "8 * k < PurgePos c" for k
  proof -
    have k: "k < LAST_PURGE_POS div 8" using that G(1) by simp
    then show "ctl (8 + k) = ChunkCtl c (8 + k)" by (rule ctl)
    then show "ctl_on d' (ChunkNo c) (8 + k) = ChunkCtl c (8 + k)" using k by (simp add: own CTL_WORDS_def)
  qed
  have cur: "cur_names c' k j = cur_names c k j" for k j using ent by (auto simp: cur_names_def c')
  have own_names: "dir_names d' c' (ChunkNo c) k j = cur_names c k j" for k j
    using ent(1) [of k] T O unfolding dir_names_def cur_names_def by auto
  have tail: "tail_of d' ch pos = tail_of d ch pos" if "pos < LAST_PURGE_POS" "pos mod SIZE_OF_CACHE = 0" for ch pos
  proof -
    let ?a = "ch * SIZE_OF_CHUNK + (pos + LAST_CACHE_POS)"
    have "pos + SIZE_OF_CACHE \<le> LAST_PURGE_POS" using aligned_split [of pos LAST_PURGE_POS] that by simp
    then have "pos + LAST_CACHE_POS < LAST_PURGE_POS" by simp
    moreover from this have "?a mod SIZE_OF_CHUNK = pos + LAST_CACHE_POS" by (intro pos_of_phys) simp
    ultimately have "d' ?a = d ?a" unfolding d' by (intro write_elsewhere) simp_all
    then show ?thesis unfolding tail_of_def by (simp only: add.assoc)
  qed
  have bl: "block_of c' = block_of c" by (intro ext) (simp add: block_of_def c')
  have F: "ChunkNo c' = ChunkNo c" "MAX_CHUNKS c' = MAX_CHUNKS c" "SIZE_OF_MAP c' = SIZE_OF_MAP c" "Map c' = Map c" "PurgePos c' = PurgePos c"
    "NextChunkNo c' = NextChunkNo c" "FinalizedPos c' = PurgePos c" "ChunkCtl c' = ctl" by (simp_all add: c')
  have "dirs_ordered d' c'"
    unfolding dirs_ordered_def F s
  proof (intro conjI allI impI)
    note le = dirs_orderedD [OF Ld(5)]
    fix ch assume a: "ch < MAX_CHUNKS c" "dir_taken d' c' ch"
    show "dir_scn d' ch \<le> scn_now c" using a O(1) D(1,4) le(1) by (cases "ch = ChunkNo c") simp_all
    show "ch = ChunkNo c" if "dir_scn d' ch = scn_now c"
    proof (rule ccontr)
      assume x: "ch \<noteq> ChunkNo c"
      then show False using that a D(1,4) [OF x] le(2) [OF a(1)] by simp
    qed
    fix ch' assume a': "ch' < MAX_CHUNKS c" "dir_taken d' c' ch'" and e: "dir_scn d' ch = dir_scn d' ch'"
    show "ch = ch'"
    proof (cases "ch = ChunkNo c"; cases "ch' = ChunkNo c")
      assume x: "ch = ChunkNo c" "ch' \<noteq> ChunkNo c"
      then show ?thesis using e O(1) a' D(1,4) [OF x(2)] le(2) [OF a'(1)] by simp
    next
      assume x: "ch \<noteq> ChunkNo c" "ch' = ChunkNo c"
      then show ?thesis using e O(1) a D(1,4) [OF x(1)] le(2) [OF a(1)] by simp
    next
      assume x: "ch \<noteq> ChunkNo c" "ch' \<noteq> ChunkNo c"
      then show ?thesis using e a a' D(1,4) [OF x(1)] D(1,4) [OF x(2)] le(3) [OF a(1) _ a'(1)] by simp
    qed simp
  qed
  moreover have "own_dir_ok d' c'" unfolding own_dir_ok_def F using n O ent G(1) by simp
  moreover have "tails_written d' c'" unfolding tails_written_def log_base_def F using n O by simp
  moreover have "tails_fresh d' c'" using Ld(8) tail unfolding tails_fresh_def F s bl by simp
  moreover have "dirs_older d' c'"
    unfolding dirs_older_def F
  proof (intro allI impI)
    fix ch k j assume a: "ch < MAX_CHUNKS c" "j < SIZE_OF_MAP c" "dir_names d' c' ch k j"
    show "Map c j \<noteq> NOT_MAPPED \<and> (place c j = ChunkNo c \<or> dir_scn d' ch < dir_scn d' (place c j) \<or> (place c j = ch \<and> 8 * k \<le> offset c j))"
    proof (cases "ch = ChunkNo c")
      case True
      then have "cur_names c k j" using a(3) own_names by simp
      then show ?thesis using Ld(10) a(2) unfolding cur_older_def by blast
    next
      case False
      then have "dir_names d c ch k j" using a(3) D(5) by simp
      then have "Map c j \<noteq> NOT_MAPPED \<and> (place c j = ChunkNo c \<or> dir_scn d ch < dir_scn d (place c j) \<or> (place c j = ch \<and> 8 * k \<le> offset c j))"
        using Ld(9) a(1,2) unfolding dirs_older_def by blast
      then show ?thesis using D(1) [OF False] D(1) [of "place c j"] by metis
    qed
  qed
  moreover have "cur_older c'" using Ld(10) unfolding cur_older_def cur F .
  moreover have "map_recorded d' c'"
    unfolding map_recorded_def F
  proof (intro allI impI)
    fix j assume a: "j < SIZE_OF_MAP c" "Map c j \<noteq> NOT_MAPPED"
    note r = Ld(11) [unfolded map_recorded_def, rule_format, OF a]
    show "if place c j = ChunkNo c then chunk_start (ChunkNo c) \<le> offset c j
      else dir_taken d' c' (place c j) \<and> dir_start d' (place c j) \<le> offset c j \<and> offset c j < dir_end d' (place c j)"
    proof (cases "place c j = ChunkNo c")
      case True then show ?thesis using r by argo
    next
      case False
      show ?thesis unfolding if_not_P [OF False] D(2,3,4) [OF False] using r unfolding if_not_P [OF False] .
    qed
  qed
  ultimately show ?thesis
    using Ld(1-4) s unfolding d'_def [symmetric] c'_def [symmetric] log_ok_def by (simp add: c')
qed

section \<open>Going on to the next chunk\<close>

text \<open>\<open>e\<close> is the context after the switch, as the write handler makes it or as the recovery does.\<close>

lemma switch_log:
  assumes L: "log_ok d c" and inv: "geom c" "map_ok c" and fin: "dir_now d c" "dir_end d (ChunkNo c) = LAST_PURGE_POS"
    and scn: "scn_now c + 1 < 4294967296" and free: "used_set c (NextChunkNo c) = {}"
    and e: "ChunkNo e = NextChunkNo c" "scn_now e = scn_now c + 1" "CCN e = CCN c" "Magic e = Magic c" "SIZE_OF_MAP e = SIZE_OF_MAP c"
      "MAX_CHUNKS e = MAX_CHUNKS c" "PurgePos e = chunk_start (NextChunkNo c)" "FinalizedPos e < LAST_PURGE_POS"
      "\<And>j. j < SIZE_OF_MAP c \<Longrightarrow> Map e j = Map c j"
  shows "log_ok d e"
proof -
  note Ld = log_okD [OF L]
  let ?n = "NextChunkNo c"
  have t: "dir_taken d e ch = dir_taken d c ch" "dir_names d e ch k j = dir_names d c ch k j" for ch k j
    by (simp_all add: dir_taken_def dir_names_def e)
  have T: "dir_taken d c (ChunkNo c)" "dir_scn d (ChunkNo c) = scn_now c" using fin(1) by (simp_all add: dir_now_def)
  have nn: "?n < MAX_CHUNKS c" "?n \<noteq> ChunkNo c" "ChunkNo c < MAX_CHUNKS c" using inv(1) by (simp_all add: geom_def)
  note o = own_dirD [OF Ld(6) fin(1)] and le = dirs_orderedD [OF Ld(5)]
  have not_now: "\<not> dir_now d e" using le(1) [OF nn(1)] e(2) unfolding dir_now_def e(1) t by auto
  have away: "place c j \<noteq> ?n" if "j < SIZE_OF_MAP c" "Map c j \<noteq> NOT_MAPPED" for j
    using free that unfolding used_set_def by blast
  have "dirs_ordered d e"
    unfolding dirs_ordered_def t e(1,2,6)
  proof (intro conjI allI impI)
    fix ch assume a: "ch < MAX_CHUNKS c" "dir_taken d c ch"
    show "dir_scn d ch \<le> scn_now c + 1" using le(1) [OF a] by simp
    show "ch = ?n" if "dir_scn d ch = scn_now c + 1" using le(1) [OF a] that by simp
    show "ch = ch'" if "ch' < MAX_CHUNKS c" "dir_taken d c ch'" "dir_scn d ch = dir_scn d ch'" for ch'
      by (rule le(3) [OF a that])
  qed
  moreover have "own_dir_ok d e"
  proof -
    have "\<exists>ch < MAX_CHUNKS e. dir_taken d e ch \<and> dir_scn d ch + 1 = scn_now e \<and> dir_end d ch = LAST_PURGE_POS \<and> dir_next d ch = ChunkNo e"
      unfolding e(1,2,6) t by (rule exI [of _ "ChunkNo c"]) (simp only: T fin(2) nn(3) o(4) [OF fin(2)] simp_thms)
    moreover have "\<not> LAST_PURGE_POS \<le> FinalizedPos e" using e(8) by (simp only: not_le)
    ultimately show ?thesis using not_now by (simp only: own_dir_ok_def simp_thms)
  qed
  moreover have "tails_written d e" unfolding tails_written_def log_base_def using not_now e(1,7) by simp
  moreover have "tails_fresh d e"
    unfolding tails_fresh_def e(1,2,6)
  proof (intro allI impI)
    have bl: "block_of e = block_of c" by (intro ext) (simp add: block_of_def e(3,4))
    fix ch pos scn assume a: "ch < MAX_CHUNKS c" "pos < LAST_PURGE_POS" "pos mod SIZE_OF_CACHE = 0" "block_of e scn ch pos (tail_of d ch pos)"
    have "scn < scn_now c \<or> (scn = scn_now c \<and> ch = ChunkNo c \<and> pos < PurgePos c)"
      using Ld(8) [unfolded tails_fresh_def, rule_format, OF a(1-3) a(4) [unfolded bl]] .
    then show "scn < scn_now c + 1 \<or> (scn = scn_now c + 1 \<and> ch = ?n \<and> pos < PurgePos e)" by auto
  qed
  moreover have "dirs_older d e"
    unfolding dirs_older_def e(1,5,6) t
  proof (intro allI impI)
    fix ch k j assume a: "ch < MAX_CHUNKS c" "j < SIZE_OF_MAP c" "dir_names d c ch k j"
    have old: "Map c j \<noteq> NOT_MAPPED \<and> (place c j = ChunkNo c \<or> dir_scn d ch < dir_scn d (place c j) \<or> (place c j = ch \<and> 8 * k \<le> offset c j))"
      using Ld(9) a unfolding dirs_older_def by blast
    have "dir_scn d ch < dir_scn d (place c j) \<or> (place c j = ch \<and> 8 * k \<le> offset c j)" if "place c j = ChunkNo c"
    proof (cases "ch = ChunkNo c")
      case True
      have n: "dir_start d (ChunkNo c) \<le> 8 * k" "8 * k < dir_end d (ChunkNo c)" "blk (unat (ctl_on d (ChunkNo c) (8 + k))) = j"
        using a(3) True by (simp_all add: dir_names_def)
      then have "cur_names c k j" using o(1,2) o(3) [OF n(1,2)] unfolding cur_names_def by simp
      then show ?thesis using Ld(10) a(2) True unfolding cur_older_def by blast
    next
      case False
      have "dir_taken d c ch" using a(3) by (simp add: dir_names_def)
      then show ?thesis using le(2) [OF a(1) _ False] T(2) that by simp
    qed
    then show "Map e j \<noteq> NOT_MAPPED \<and> (place e j = ?n \<or> dir_scn d ch < dir_scn d (place e j) \<or> (place e j = ch \<and> 8 * k \<le> offset e j))"
      using old unfolding e(9) [OF a(2)] by blast
  qed
  moreover have "cur_older e" unfolding cur_older_def cur_names_def e(1,7) by simp
  moreover have "map_recorded d e"
    unfolding map_recorded_def e(1,5) t
  proof (intro allI impI)
    fix j assume a: "j < SIZE_OF_MAP c" "Map e j \<noteq> NOT_MAPPED"
    then have m: "Map c j \<noteq> NOT_MAPPED" using e(9) by simp
    note r = Ld(11) [unfolded map_recorded_def, rule_format, OF a(1) m]
    have "offset c j < LAST_PURGE_POS" using inv(2) a(1) m unfolding map_ok_def by blast
    then have "dir_taken d c (place c j) \<and> dir_start d (place c j) \<le> offset c j \<and> offset c j < dir_end d (place c j)"
    proof (cases "place c j = ChunkNo c")
      case True
      show ?thesis using r T(1) o(1) fin(2) \<open>offset c j < LAST_PURGE_POS\<close> unfolding if_P [OF True] unfolding True by simp
    next
      case False
      show ?thesis using r unfolding if_not_P [OF False] .
    qed
    then show "if place e j = ?n then chunk_start ?n \<le> offset e j
      else dir_taken d c (place e j) \<and> dir_start d (place e j) \<le> offset e j \<and> offset e j < dir_end d (place e j)"
      unfolding e(9) [OF a(1)] if_not_P [OF away [OF a(1) m]] .
  qed
  ultimately show ?thesis using Ld(1-3) scn e by (simp add: log_ok_def)
qed

lemma next_chunk_log:
  assumes inv: "ftl_inv d c" and full: "LAST_PURGE_POS \<le> PurgePos c" and fin: "LAST_PURGE_POS \<le> FinalizedPos c"
    and scn: "scn_left c" and L: "log_ok d c"
  shows "log_ok d (next_chunk c)"
proof (rule switch_log [OF L ftl_invD(1,3) [OF inv]])
  show "dir_now d c" "dir_end d (ChunkNo c) = LAST_PURGE_POS" using log_okD(6) [OF L] fin unfolding own_dir_ok_def by blast+
  have s: "scn_now c < 4294967295" using scn by (simp add: scn_left_def scn_now_def)
  then show "scn_now c + 1 < 4294967296" by simp
  show "used_set c (NextChunkNo c) = {}" by (rule pace_full(1) [OF inv full])
  show "scn_now (next_chunk c) = scn_now c + 1"
    using s by (simp add: scn_now_def next_chunk_def FindNextChunk_def Let_def)
qed (simp_all add: next_chunk_def FindNextChunk_def Let_def chunk_start_def)

section \<open>Steps of the handlers\<close>

text \<open>
  What a step does to the record: it stays consistent, and what a restart would read is either unchanged
  or brought up to what the system read before the step.
\<close>

definition log_ids where
  "log_ids c = (CCN c, Magic c, MAX_CHUNKS c)"

definition logs :: "mem \<Rightarrow> ctx \<Rightarrow> mem \<Rightarrow> ctx \<Rightarrow> bool" where
  "logs d c d' c' \<longleftrightarrow> (log_ok d c \<longrightarrow> log_ok d' c' \<and> d' 0 = d 0 \<and> log_ids c' = log_ids c \<and>
     ((\<forall>L. in_dev c L \<longrightarrow> med d' c' L = med d c L) \<or> (\<forall>L. in_dev c L \<longrightarrow> med d' c' L = vread d c L)))"

lemma log_view_ids:
  assumes "log_view c' = log_view c" shows "log_ids c' = log_ids c"
  unfolding log_ids_def log_viewD [OF assms] ..

lemma logs_view:
  assumes "log_view c' = log_view c" shows "logs d c d c'"
  unfolding logs_def log_ok_view [OF assms] med_view [OF assms] log_view_ids [OF assms] by blast

lemma logs_same: "same_ftl c c' \<Longrightarrow> logs d c d c'"
  by (rule logs_view [OF same_ftl_view])

lemma logs_refl: "logs d c d c"
  by (rule logs_view) simp

lemma logs_trans:
  assumes "logs d c d1 e1" "logs d1 e1 d2 e2" "\<And>L. in_dev c L \<Longrightarrow> vread d1 e1 L = vread d c L" "SIZE_OF_MAP e1 = SIZE_OF_MAP c"
  shows "logs d c d2 e2"
  unfolding logs_def
proof (intro impI)
  assume "log_ok d c"
  then have 1: "log_ok d1 e1" "d1 0 = d 0" "log_ids e1 = log_ids c"
    "(\<forall>L. in_dev c L \<longrightarrow> med d1 e1 L = med d c L) \<or> (\<forall>L. in_dev c L \<longrightarrow> med d1 e1 L = vread d c L)"
    using assms(1) unfolding logs_def by blast+
  then have 2: "log_ok d2 e2" "d2 0 = d1 0" "log_ids e2 = log_ids e1"
    "(\<forall>L. in_dev e1 L \<longrightarrow> med d2 e2 L = med d1 e1 L) \<or> (\<forall>L. in_dev e1 L \<longrightarrow> med d2 e2 L = vread d1 e1 L)"
    using assms(2) unfolding logs_def by blast+
  have dev: "in_dev e1 L = in_dev c L" for L using assms(4) by (simp add: in_dev_def)
  show "log_ok d2 e2 \<and> d2 0 = d 0 \<and> log_ids e2 = log_ids c \<and>
     ((\<forall>L. in_dev c L \<longrightarrow> med d2 e2 L = med d c L) \<or> (\<forall>L. in_dev c L \<longrightarrow> med d2 e2 L = vread d c L))"
    using 1 2 assms(3) unfolding dev by auto
qed

lemma first_sector_kept:
  assumes "chunk_start ch \<le> pos"
  shows "copy_sectors d (ch * SIZE_OF_CHUNK + pos) m p n 0 = d 0"
proof (rule copy_sectors_out)
  have "0 < ch * SIZE_OF_CHUNK + pos" using assms by (cases "ch = 0") (simp_all add: chunk_start_def)
  then show "0 < ch * SIZE_OF_CHUNK + pos \<or> ch * SIZE_OF_CHUNK + pos + n \<le> 0" by simp
qed

lemma logs_purge:
  assumes A: "can_purge d c d' c'" shows "logs d c d' c'"
  unfolding logs_def
proof (intro impI conjI)
  assume L: "log_ok d c"
  note e = purge_effectD [OF can_purgeD(4) [OF A]]
  note i = ftl_invD [OF can_purgeD(1) [OF A]]
  show "log_ok d' c'" by (rule purge_log [OF A L])
  show "d' 0 = d 0"
    using can_purgeD(4) [OF A] first_sector_kept [OF log_okD(4) [OF L]] unfolding purge_effect_def by blast
  show "log_ids c' = log_ids c" using can_purgeD(4) [OF A] by (auto simp: purge_effect_def same_ftl_def log_ids_def)
  have "CachePos c' = 0" by (rule e)
  then have "med d' c' L = vread d' c' L" for L by (simp add: med_empty)
  then show "(\<forall>L. in_dev c L \<longrightarrow> med d' c' L = med d c L) \<or> (\<forall>L. in_dev c L \<longrightarrow> med d' c' L = vread d c L)"
    using purge_vread [OF i(1,2,3) can_purgeD(2,3,4) [OF A]] by simp
qed

lemma logs_chunk:
  assumes inv: "ftl_inv d c" and empty: "CachePos c = 0"
  shows "logs d c (fst (chunk_served d c)) (snd (chunk_served d c))"
  unfolding logs_def
proof (intro impI conjI)
  assume L: "log_ok d c"
  note i = ftl_invD [OF inv]
  show "log_ok (fst (chunk_served d c)) (snd (chunk_served d c))" by (rule chunk_log [OF inv L])
  obtain I ctl where ci: "chunk_image c = c\<lparr>ChunkInfo := I, ChunkCtl := ctl, CacheMem := mem_of_ctl ctl (CacheMem c)\<rparr>"
    by (rule chunk_image_form [of c]) (rule that)
  have c': "snd (chunk_served d c) = c\<lparr>ChunkInfo := I, ChunkCtl := ctl, CacheMem := mem_of_ctl ctl (CacheMem c), FinalizedPos := PurgePos c\<rparr>"
    by (simp add: chunk_served_def ci)
  have ph: "phys (ChunkNo c) LAST_PURGE_POS = ChunkNo c * SIZE_OF_CHUNK + LAST_PURGE_POS"
    using i(1) by (intro phys_eq) (simp_all add: geom_def)
  have "chunk_start (ChunkNo c) \<le> LAST_PURGE_POS" by (simp add: chunk_start_def)
  then show "fst (chunk_served d c) 0 = d 0"
    unfolding chunk_served_def fst_conv ph by (rule first_sector_kept)
  show "log_ids (snd (chunk_served d c)) = log_ids c" by (simp add: c' log_ids_def)
  have "CachePos (snd (chunk_served d c)) = 0" by (simp add: c' empty)
  then have "med (fst (chunk_served d c)) (snd (chunk_served d c)) L = vread (fst (chunk_served d c)) (snd (chunk_served d c)) L" for L
    by (simp add: med_empty)
  then show "(\<forall>L. in_dev c L \<longrightarrow> med (fst (chunk_served d c)) (snd (chunk_served d c)) L = med d c L) \<or>
      (\<forall>L. in_dev c L \<longrightarrow> med (fst (chunk_served d c)) (snd (chunk_served d c)) L = vread d c L)"
    using chunk_served_vread [OF i(1,3) empty] by simp
qed

lemma logs_next:
  assumes inv: "ftl_inv d c" and full: "LAST_PURGE_POS \<le> PurgePos c" and fin: "LAST_PURGE_POS \<le> FinalizedPos c"
    and scn: "scn_left c"
  shows "logs d c d (next_chunk c)"
  unfolding logs_def
proof (intro impI conjI)
  assume L: "log_ok d c"
  show "log_ok d (next_chunk c)" by (rule next_chunk_log [OF inv full fin scn L])
  show "log_ids (next_chunk c) = log_ids c" by (simp add: log_ids_def next_chunk_def FindNextChunk_def Let_def)
  have "med d (next_chunk c) L = med d c L" for L by (simp add: med_def next_chunk_def FindNextChunk_def Let_def)
  then show "(\<forall>L. in_dev c L \<longrightarrow> med d (next_chunk c) L = med d c L) \<or> (\<forall>L. in_dev c L \<longrightarrow> med d (next_chunk c) L = vread d c L)" by simp
qed simp

section \<open>The record during a request\<close>

text \<open>
  What a request is to keep: nothing when the mark is \<open>None\<close>; else the record is consistent, the
  first sector and the numbers of the device are those of the mark, and a restart would read the contents of the mark or one of \<open>F\<close>.
\<close>

type_synonym mark = "(sector \<times> (nat \<times> nat \<times> nat) \<times> (nat \<Rightarrow> sector)) option"

definition on_record :: "mark \<Rightarrow> (nat \<Rightarrow> sector) set \<Rightarrow> mem \<Rightarrow> ctx \<Rightarrow> bool" where
  "on_record M F d c \<longleftrightarrow> (case M of None \<Rightarrow> True
     | Some (s, i, m) \<Rightarrow> log_ok d c \<and> d 0 = s \<and> log_ids c = i \<and> (\<exists>g \<in> insert m F. \<forall>L. in_dev c L \<longrightarrow> med d c L = g L))"

definition mark_of :: "mem \<Rightarrow> ctx \<Rightarrow> mark" where
  "mark_of d c = (if log_ok d c then Some (d 0, log_ids c, med d c) else None)"

lemma on_record_None [simp]: "on_record None F d c"
  by (simp add: on_record_def)

lemma on_record_start: "on_record (mark_of d c) F d c"
  by (simp add: on_record_def mark_of_def)

lemma mark_of_same:
  assumes "same_ftl c c'" shows "mark_of d c' = mark_of d c"
proof -
  note v = same_ftl_view [OF assms]
  have "med d c' L = med d c L" for L by (rule med_view [OF v])
  then have "med d c' = med d c" by blast
  then show ?thesis unfolding mark_of_def log_ok_view [OF v] log_view_ids [OF v] by simp
qed

lemma on_record_step:
  assumes "on_record M F d c" "logs d c d' c'" "SIZE_OF_MAP c' = SIZE_OF_MAP c"
    and "\<And>L. in_dev c L \<Longrightarrow> vread d c L = f L" "f \<in> F'" "F \<subseteq> F'"
  shows "on_record M F' d' c'"
proof (cases M)
  case (Some q)
  obtain s i m where q: "q = (s, i, m)" by (cases q)
  have dev: "in_dev c' L = in_dev c L" for L using assms(3) by (simp add: in_dev_def)
  obtain g where g: "log_ok d c" "d 0 = s" "log_ids c = i" "g \<in> insert m F" "\<And>L. in_dev c L \<Longrightarrow> med d c L = g L"
    using assms(1) unfolding on_record_def Some q by auto
  from assms(2) g(1) have l: "log_ok d' c'" "d' 0 = d 0" "log_ids c' = log_ids c"
    "(\<forall>L. in_dev c L \<longrightarrow> med d' c' L = med d c L) \<or> (\<forall>L. in_dev c L \<longrightarrow> med d' c' L = vread d c L)"
    unfolding logs_def by blast+
  have "\<exists>g \<in> insert m F'. \<forall>L. in_dev c L \<longrightarrow> med d' c' L = g L"
    using l(4)
  proof
    assume "\<forall>L. in_dev c L \<longrightarrow> med d' c' L = med d c L"
    then show ?thesis using g(4,5) assms(6) by (intro bexI [of _ g]) auto
  next
    assume "\<forall>L. in_dev c L \<longrightarrow> med d' c' L = vread d c L"
    then show ?thesis using assms(4,5) by (intro bexI [of _ f]) auto
  qed
  then show ?thesis using l g unfolding on_record_def Some q dev by simp
qed simp

lemma on_record_mono: "on_record M F d c \<Longrightarrow> F \<subseteq> F' \<Longrightarrow> on_record M F' d c"
  by (auto simp: on_record_def split: option.splits)

lemma on_record_same:
  assumes "on_record M F d c" "same_ftl c c'" shows "on_record M F d c'"
proof -
  note v = same_ftl_view [OF assms(2)]
  have dev: "in_dev c' L = in_dev c L" for L using assms(2) by (simp add: in_dev_def same_ftl_def)
  show ?thesis
    using assms(1) unfolding on_record_def log_ok_view [OF v] med_view [OF v] log_view_ids [OF v] dev .
qed

lemma on_record_alike:
  assumes "on_record M F d c" "\<And>g. g \<in> F \<Longrightarrow> \<exists>g' \<in> F'. \<forall>L. in_dev c L \<longrightarrow> g' L = g L"
  shows "on_record M F' d c"
proof (cases M)
  case (Some q)
  obtain s i m where q: "q = (s, i, m)" by (cases q)
  obtain g where g: "log_ok d c" "d 0 = s" "log_ids c = i" "g \<in> insert m F" "\<And>L. in_dev c L \<Longrightarrow> med d c L = g L"
    using assms(1) unfolding on_record_def Some q by auto
  obtain g' where "g' \<in> insert m F'" "\<And>L. in_dev c L \<Longrightarrow> g' L = g L" using assms(2) [of g] g(4) by auto
  then show ?thesis using g unfolding on_record_def Some q by (auto intro!: bexI [of _ g'])
qed simp

lemma on_record_trans:
  assumes "on_record (mark_of d c) F d1 e1" "on_record (mark_of d1 e1) F' d2 e2" "SIZE_OF_MAP e1 = SIZE_OF_MAP c" "SIZE_OF_MAP e2 = SIZE_OF_MAP c"
  shows "on_record (mark_of d c) (F \<union> F') d2 e2"
proof (cases "log_ok d c")
  case True
  have dev: "in_dev e1 L = in_dev c L" "in_dev e2 L = in_dev c L" for L using assms(3,4) by (simp_all add: in_dev_def)
  obtain g where g: "log_ok d1 e1" "d1 0 = d 0" "log_ids e1 = log_ids c" "g \<in> insert (med d c) F" "\<And>L. in_dev c L \<Longrightarrow> med d1 e1 L = g L"
    using assms(1) True unfolding on_record_def mark_of_def dev by auto
  obtain g' where g': "log_ok d2 e2" "d2 0 = d1 0" "log_ids e2 = log_ids e1" "g' \<in> insert (med d1 e1) F'" "\<And>L. in_dev c L \<Longrightarrow> med d2 e2 L = g' L"
    using assms(2) g(1) unfolding on_record_def mark_of_def dev by auto
  have "\<exists>g \<in> insert (med d c) (F \<union> F'). \<forall>L. in_dev c L \<longrightarrow> med d2 e2 L = g L"
  proof (cases "g' = med d1 e1")
    case True
    then show ?thesis using g g' by (intro bexI [of _ g]) auto
  next
    case False
    then show ?thesis using g' by (intro bexI [of _ g']) auto
  qed
  then show ?thesis using True g g' unfolding on_record_def mark_of_def dev by simp
qed (simp add: mark_of_def)

text \<open>When the cache is empty a restart would read what the system reads.\<close>

lemma on_record_now:
  assumes "on_record M F d c" "\<And>L. in_dev c L \<Longrightarrow> med d c L = f L"
  shows "on_record M {f} d c"
  using assms unfolding on_record_def by (cases M) auto

end
