(* ===== verification/FtlWrite.thy ===== *)
theory FtlWrite
  imports Log
begin

text \<open>
  The write handler as a machine over the medium: each step is one round of the loop of
  \<open>ExecuteWriteHandler\<close> and, where that round issues a transfer, the transfer and its completion
  routine up to the point where the loop starts again. The lemmas show that a step either
  leaves the device the system sees alone or writes the next sectors of the request.
\<close>

section \<open>The machine\<close>

fun completed :: "completion \<Rightarrow> reqres \<Rightarrow> hs \<Rightarrow> hs" where
  "completed CacheFillReadCompletion r h = fill_completed r h"
| "completed PurgeCacheCompletion r h = purge_completed r h"
| "completed PurgeChunkCompletion r h = chunk_completed r h"
| "completed PrepareRelocateCompletion r h = prepare_completed r h"
| "completed RelocateCompletion r h = relocate_completed r h"
| "completed (ExecuteReadCompletion i) r h = h"

definition served :: "mem \<Rightarrow> hs \<Rightarrow> mem \<times> hs" where
  "served d h =
     (let q = last (hs_Issued h); (d', c') = transfer q (d, hs_Ctx h)
      in (d', completed (rq_Completion q) (ok_result q) (h\<lparr>hs_Ctx := c'\<rparr>)))"

text \<open>\<open>Inr\<close> is a state at the label \<open>loop\<close>, \<open>Inl\<close> the end of the request.\<close>

definition write_step :: "mem \<Rightarrow> hs \<Rightarrow> (ntstatus \<times> mem \<times> hs) + (mem \<times> hs)" where
  "write_step d h =
     (case write_iter h of
        Inr h' \<Rightarrow> Inr (d, h')
      | Inl (st, h') \<Rightarrow> if st = STATUS_PENDING then Inr (served d h') else Inl (st, d, h'))"

text \<open>
  The handler and the completion routines go through exactly these states.
\<close>


section \<open>Quiet steps\<close>

text \<open>What the request being written consists of, apart from the \<open>IRP\<close> itself.\<close>

definition job :: "ctx \<Rightarrow> nat \<times> nat \<times> nat \<times> mem" where
  "job c = (th_LBA (OtherThread c), th_LEN (OtherThread c), th_Transferred (OtherThread c), th_Data (OtherThread c))"

definition quiet :: "mem \<Rightarrow> hs \<Rightarrow> mem \<Rightarrow> hs \<Rightarrow> bool" where
  "quiet d h d' h' \<longleftrightarrow> ftl_inv d' (hs_Ctx h') \<and>
     (\<forall>L. in_dev (hs_Ctx h) L \<longrightarrow> vread d' (hs_Ctx h') L = vread d (hs_Ctx h) L) \<and>
     SIZE_OF_MAP (hs_Ctx h') = SIZE_OF_MAP (hs_Ctx h) \<and> hs_Mode h' = hs_Mode h \<and>
     job (hs_Ctx h') = job (hs_Ctx h) \<and> hs_Done h' = hs_Done h \<and> logs d (hs_Ctx h) d' (hs_Ctx h')"

lemma quietI:
  assumes "logs d (hs_Ctx h) d' (hs_Ctx h')" "ftl_inv d' (hs_Ctx h')" "\<And>L. in_dev (hs_Ctx h) L \<Longrightarrow> vread d' (hs_Ctx h') L = vread d (hs_Ctx h) L"
    "SIZE_OF_MAP (hs_Ctx h') = SIZE_OF_MAP (hs_Ctx h)" "hs_Mode h' = hs_Mode h"
    "job (hs_Ctx h') = job (hs_Ctx h)" "hs_Done h' = hs_Done h"
  shows "quiet d h d' h'"
  using assms by (simp add: quiet_def)

lemma quiet_trans:
  assumes "quiet d h d1 h1" "quiet d1 h1 d2 h2" shows "quiet d h d2 h2"
proof -
  have "logs d (hs_Ctx h) d2 (hs_Ctx h2)"
    by (rule logs_trans [of d _ d1 "hs_Ctx h1"]) (use assms in \<open>simp_all add: quiet_def\<close>)
  then show ?thesis using assms by (simp add: quiet_def in_dev_def)
qed

lemma quiet_same:
  assumes "ftl_inv d (hs_Ctx h)" "same_ftl (hs_Ctx h) (hs_Ctx h')" "job (hs_Ctx h') = job (hs_Ctx h)"
    "hs_Mode h' = hs_Mode h" "hs_Done h' = hs_Done h"
  shows "quiet d h d h'"
  using assms ftl_inv_same [OF assms(2)] vread_same [OF assms(2)] logs_same [OF assms(2)]
  by (intro quietI) (simp_all add: same_ftl_def)

lemma job_simps [simp]:
  "job (set_thread TOther (f (OtherThread c)) c) = (th_LBA (f (OtherThread c)), th_LEN (f (OtherThread c)),
     th_Transferred (f (OtherThread c)), th_Data (f (OtherThread c)))"
  by (simp add: job_def)

lemma job_mark_one: "job (mark_one i c) = job c"
  by (simp add: mark_one_def job_def Let_def)

lemma job_MarkReadingThreads [simp]: "job (MarkReadingThreads c) = job c"
proof -
  have "job (fold mark_one xs c) = job c" for xs
    by (induction xs arbitrary: c) (simp_all add: job_mark_one)
  then show ?thesis by (simp add: MarkReadingThreads_def)
qed

lemma quiet_mark:
  assumes "ftl_inv d (hs_Ctx h)"
  shows "quiet d h d (IoMarkIrpPending TOther h)"
    "quiet d h d (IoMarkIrpPending TOther (upd_ctx MarkReadingThreads h))"
proof -
  have 1: "quiet d h d (IoMarkIrpPending TOther h)" if "ftl_inv d (hs_Ctx h)" for h
    using that by (rule quiet_same) (simp_all add: tables_eq_same, simp add: IoMarkIrpPending_def job_def)
  show "quiet d h d (IoMarkIrpPending TOther h)" using assms by (rule 1)
  have 2: "quiet d h d (upd_ctx MarkReadingThreads h)"
    using assms by (rule quiet_same) (simp_all add: tables_eq_same)
  then have "ftl_inv d (hs_Ctx (upd_ctx MarkReadingThreads h))" by (simp add: quiet_def)
  then show "quiet d h d (IoMarkIrpPending TOther (upd_ctx MarkReadingThreads h))"
    using quiet_trans [OF 2 1] by blast
qed

lemma served_issue:
  "served d (issue q h) = (let (d', c') = transfer q (d, hs_Ctx h)
     in (d', completed (rq_Completion q) (ok_result q) ((issue q h)\<lparr>hs_Ctx := c'\<rparr>)))"
  by (simp add: served_def Let_def)

lemma served_purge:
  "served d (ExecutePurgeCache h) =
    (fst (purge_served d (hs_Ctx h)),
     (ExecutePurgeCache h)\<lparr>hs_Ctx := snd (purge_served d (hs_Ctx h))\<rparr>)"
proof -
  obtain t ta where pi: "purge_image (hs_Ctx h) = (hs_Ctx h)\<lparr>Timer := t, TimerActive := ta,
    CacheMem := (CacheMem (hs_Ctx h))(LAST_CACHE_POS := purge_sector (hs_Ctx h)), ChunkCtl := purge_chunk_ctl (hs_Ctx h)\<rparr>"
    by (rule purge_image_eq)
  have "ChunkNo (purge_image (hs_Ctx h)) = ChunkNo (hs_Ctx h)" "PurgePos (purge_image (hs_Ctx h)) = PurgePos (hs_Ctx h)"
    unfolding pi by simp_all
  then show ?thesis
    by (simp add: ExecutePurgeCache_def served_issue Let_def transfer_def purge_completed_def purge_served_def upd_ctx_def)
qed

lemma served_chunk:
  "served d (ExecutePurgeChunk h) =
    (fst (chunk_served d (hs_Ctx h)),
     (ExecutePurgeChunk h)\<lparr>hs_Ctx := snd (chunk_served d (hs_Ctx h))\<rparr>)"
proof -
  have "ChunkNo (chunk_image (hs_Ctx h)) = ChunkNo (hs_Ctx h)"
    by (simp add: chunk_image_def Let_def bump_wcn_def)
  then show ?thesis
    by (simp add: ExecutePurgeChunk_def served_issue Let_def transfer_def chunk_completed_def chunk_served_def upd_ctx_def)
qed

lemma served_prepare:
  "served d (PrepareRelocate h) =
    (d, (PrepareRelocate h)\<lparr>hs_Ctx := prepare_served d (hs_Ctx h)\<rparr>)"
  by (simp add: PrepareRelocate_def served_issue Let_def transfer_def prepare_completed_def prepare_served_def upd_ctx_def)

lemma served_window:
  "served d (ExecuteRelocate h) =
    (d, (ExecuteRelocate h)\<lparr>hs_Ctx := window_served d (hs_Ctx h)\<rparr>)"
  by (simp add: ExecuteRelocate_def served_issue Let_def transfer_def relocate_completed_def window_served_def)

definition fill_served :: "mem \<Rightarrow> nat \<Rightarrow> nat \<Rightarrow> ctx \<Rightarrow> ctx" where
  "fill_served d LBA n c = extended c LBA n
     (copy_sectors (CacheMem c) (CachePos c) d (wrap32 (Map c (blk LBA) + off8 LBA)) n)"

lemma served_fill:
  "served d (ExecuteCacheFillRead LBA n h) =
    (d, (ExecuteCacheFillRead LBA n h)\<lparr>hs_Ctx := fill_served d LBA n (hs_Ctx h)\<rparr>)"
  by (simp add: ExecuteCacheFillRead_def served_issue Let_def transfer_def fill_completed_def fill_served_def extended_def upd_ctx_def)

lemma purge_served_job [simp]:
  "job (snd (purge_served d c)) = job c" "SIZE_OF_MAP (snd (purge_served d c)) = SIZE_OF_MAP c"
proof -
  obtain t ta where pi: "purge_image c = c\<lparr>Timer := t, TimerActive := ta,
    CacheMem := (CacheMem c)(LAST_CACHE_POS := purge_sector c), ChunkCtl := purge_chunk_ctl c\<rparr>"
    by (rule purge_image_eq)
  let ?p = "phys (ChunkNo (purge_image c)) (PurgePos (purge_image c))"
  obtain M I where u: "um_loop (purge_ctl_LBA (purge_image c)) (CachePos (purge_image c)) (?p div SIZE_OF_CHUNK) ?p 0 (purge_image c)
      = (purge_image c)\<lparr>Map := M, ChunkInfo := I\<rparr>"
    using um_loop_form by blast
  have f: "snd (purge_served d c) = (purge_image c)\<lparr>Map := M, ChunkInfo := I, CachePos := 0,
     PurgePos := PurgePos c + SIZE_OF_CACHE, RelocationDone := False, CacheDirty := False\<rparr>"
    unfolding purge_served_def snd_conv cache_purged_def UpdateMap_def Let_def u by (simp add: pi)
  show "job (snd (purge_served d c)) = job c" "SIZE_OF_MAP (snd (purge_served d c)) = SIZE_OF_MAP c"
    unfolding f by (simp_all add: pi job_def)
qed

lemma hs_issuers [simp]:
  "hs_Mode (ExecutePurgeCache h) = hs_Mode h" "hs_Done (ExecutePurgeCache h) = hs_Done h"
  "hs_Mode (ExecutePurgeChunk h) = hs_Mode h" "hs_Done (ExecutePurgeChunk h) = hs_Done h"
  "hs_Mode (PrepareRelocate h) = hs_Mode h" "hs_Done (PrepareRelocate h) = hs_Done h"
  "hs_Mode (ExecuteRelocate h) = hs_Mode h" "hs_Done (ExecuteRelocate h) = hs_Done h"
  "hs_Mode (ExecuteCacheFillRead LBA n h) = hs_Mode h" "hs_Done (ExecuteCacheFillRead LBA n h) = hs_Done h"
  by (simp_all add: ExecutePurgeCache_def ExecutePurgeChunk_def PrepareRelocate_def ExecuteRelocate_def
      ExecuteCacheFillRead_def Let_def)

lemma quiet_purge:
  assumes inv: "ftl_inv d (hs_Ctx h)" and ready: "RelocationPrepared (hs_Ctx h)" "RelocationDone (hs_Ctx h)"
    and full: "off8 (CachePos (hs_Ctx h)) = 0"
  shows "case served d (ExecutePurgeCache h) of (d', h') \<Rightarrow> quiet d h d' h'"
proof -
  let ?c = "hs_Ctx h"
  note i = ftl_invD [OF inv]
  have "64 \<le> room ?c" using i(8) ready by (simp add: pace_def)
  then have fit: "PurgePos ?c + SIZE_OF_CACHE \<le> LAST_PURGE_POS" by (simp add: room_def)
  have eff: "purge_effect d ?c (fst (purge_served d ?c)) (snd (purge_served d ?c))"
    using purge_served_effect [OF i(1,2,3,4,7) full fit] .
  then have "can_purge d ?c (fst (purge_served d ?c)) (snd (purge_served d ?c))"
    using inv full fit by (simp only: can_purge_def)
  from purge_inv [OF this ready] purge_vread [OF i(1,2,3) full fit eff] logs_purge [OF this]
  show ?thesis unfolding served_purge prod.case by (intro quietI) simp_all
qed

lemma quiet_chunk:
  assumes inv: "ftl_inv d (hs_Ctx h)" and empty: "CachePos (hs_Ctx h) = 0"
  shows "case served d (ExecutePurgeChunk h) of (d', h') \<Rightarrow> quiet d h d' h'"
proof -
  note i = ftl_invD [OF inv]
  have "job (snd (chunk_served d c)) = job c" "SIZE_OF_MAP (snd (chunk_served d c)) = SIZE_OF_MAP c" for c
    by (simp_all add: chunk_served_def chunk_image_def Let_def bump_wcn_def job_def)
  then show ?thesis
    unfolding served_chunk prod.case
    using chunk_served_inv [OF inv empty] chunk_served_vread [OF i(1,3) empty] logs_chunk [OF inv empty] by (intro quietI) simp_all
qed

text \<open>Steps the record does not see.\<close>

lemma logs_prepare [simp]: "logs d c d (prepare_served d c)"
  by (rule logs_view) (simp add: log_view_def scn_now_def prepare_served_def relocation_prepared_def)

lemma logs_window [simp]: "logs d c d (window_served d c)"
  by (rule logs_view) (simp add: log_view_def scn_now_def window_served_def set_window_def Let_def)

lemma logs_extended [simp]: "logs d c d (extended c L n m)"
  by (rule logs_view) (simp add: log_view_def scn_now_def extended_def)

lemma logs_relocate: "logs d c d (ExecuteRelocateCached c)"
proof (rule logs_view)
  obtain l m p r t where "ExecuteRelocateCached c = c\<lparr>CacheLBA := l, CacheMem := m, CachePos := p, RelocatePos := r, RelocationDone := t\<rparr>"
    using relocate_cached_form by blast
  then show "log_view (ExecuteRelocateCached c) = log_view c" by (simp add: log_view_def scn_now_def)
qed

lemma quiet_prepare:
  assumes "ftl_inv d (hs_Ctx h)" "\<not> RelocationPrepared (hs_Ctx h)" "PurgePos (hs_Ctx h) < LAST_PURGE_POS"
  shows "case served d (PrepareRelocate h) of (d', h') \<Rightarrow> quiet d h d' h'"
proof -
  have "job (prepare_served d c) = job c" "SIZE_OF_MAP (prepare_served d c) = SIZE_OF_MAP c" for c
    by (simp_all add: prepare_served_def relocation_prepared_def job_def)
  then show ?thesis unfolding served_prepare prod.case
    using prepare_inv [OF assms] by (intro quietI) (simp_all add: logs_prepare)
qed

lemma quiet_window:
  assumes "ftl_inv d (hs_Ctx h)" "RelocationPrepared (hs_Ctx h)" "RelocatePos (hs_Ctx h) < LAST_PURGE_POS"
  shows "case served d (ExecuteRelocate h) of (d', h') \<Rightarrow> quiet d h d' h'"
proof -
  have "job (window_served d c) = job c" "SIZE_OF_MAP (window_served d c) = SIZE_OF_MAP c" for c
    by (simp_all add: window_served_def set_window_def job_def Let_def)
  then show ?thesis unfolding served_window prod.case
    using window_inv [OF assms] by (intro quietI) (simp_all add: logs_window)
qed

lemma extended_job [simp]: "job (extended c LBA n m) = job c"
  by (simp add: extended_def job_def)

lemma block_range:
  assumes "blk (a + n - 1) = blk a" "a \<le> L" "L < a + n" shows "blk L = blk a"
proof (rule antisym)
  have "L \<le> a + n - 1" using assms(3) by linarith
  then have "blk L \<le> blk (a + n - 1)" unfolding blk_def by (rule div_le_mono)
  then show "blk L \<le> blk a" using assms(1) by simp
  show "blk a \<le> blk L" using assms(2) unfolding blk_def by (rule div_le_mono)
qed

lemma quiet_zero:
  assumes inv: "ftl_inv d (hs_Ctx h)" and ext: "can_extend (hs_Ctx h) LBA n" "blk (LBA + n - 1) = blk LBA" "0 < n"
    and ready: "RelocationPrepared (hs_Ctx h)" "RelocationDone (hs_Ctx h)"
    and free: "Map (hs_Ctx h) (blk LBA) = NOT_MAPPED"
  shows "quiet d h d (upd_ctx (CacheFillReadZero LBA n) h)"
proof -
  let ?c = "hs_Ctx h"
  let ?m = "zero_sectors (CacheMem ?c) (CachePos ?c) n"
  have e: "CacheFillReadZero LBA n ?c = extended ?c LBA n ?m"
    by (simp add: CacheFillReadZero_def extended_def)
  have "vread d (extended ?c LBA n ?m) L = vread d ?c L" for L
  proof (cases "LBA \<le> L \<and> L < LBA + n")
    case True
    then have "\<not> cached ?c L" using ext(1) unfolding can_extend_def by blast
    moreover have "blk L = blk LBA" using block_range [OF ext(2)] True by blast
    ultimately have "vread d ?c L = zero_sector"
      using vread_uncached [OF ftl_invD(2) [OF inv]] free by simp
    then show ?thesis using True by (subst extended_vread [OF inv ext(1)]) (auto simp: zero_sectors_def)
  next
    case False
    then show ?thesis by (subst extended_vread [OF inv ext(1)]) (auto simp: zero_sectors_def)
  qed
  then show ?thesis
    using extended_inv [OF inv ext(1) ready] by (intro quietI) (simp_all add: e)
qed

lemma quiet_fill:
  assumes inv: "ftl_inv d (hs_Ctx h)" and ext: "can_extend (hs_Ctx h) LBA n" "blk (LBA + n - 1) = blk LBA" "0 < n"
    and ready: "RelocationPrepared (hs_Ctx h)" "RelocationDone (hs_Ctx h)"
    and mapped: "Map (hs_Ctx h) (blk LBA) \<noteq> NOT_MAPPED"
  shows "case served d (ExecuteCacheFillRead LBA n h) of (d', h') \<Rightarrow> quiet d h d' h'"
proof -
  let ?c = "hs_Ctx h" and ?a = "Map (hs_Ctx h) (blk LBA) + off8 LBA"
  let ?m = "copy_sectors (CacheMem ?c) (CachePos ?c) d (wrap32 ?a) n"
  note i = ftl_invD [OF inv]
  have b: "blk LBA < SIZE_OF_MAP ?c" using ext(1,3) by (simp add: can_extend_def blk_less_iff)
  have M: "Map ?c (blk LBA) div SIZE_OF_CHUNK < 500"
    using i(1,3) b mapped unfolding map_ok_def geom_def by fastforce
  have "Map ?c (blk LBA) < 500 * SIZE_OF_CHUNK" using M by (simp add: div_less_iff_less_mult)
  then have a: "wrap32 ?a = ?a" using off8_less [of LBA] by (intro wrap32_id) (simp del: off8_less)
  have "vread d (extended ?c LBA n ?m) L = vread d ?c L" for L
  proof (cases "LBA \<le> L \<and> L < LBA + n")
    case True
    have bl: "blk L = blk LBA" using block_range [OF ext(2)] True by blast
    have "\<not> cached ?c L" using ext(1) True unfolding can_extend_def by blast
    then have "vread d ?c L = d (Map ?c (blk LBA) + off8 L)"
      using vread_uncached [OF i(2)] mapped bl by simp
    also have "Map ?c (blk LBA) + off8 L = ?a + (L - LBA)"
      using bl True lba_split [of L] lba_split [of LBA] by simp
    finally have v: "vread d ?c L = d (?a + (L - LBA))" .
    have "?m (CachePos ?c + (L - LBA)) = d (?a + (L - LBA))"
      unfolding a using True by (subst copy_sectors_in) auto
    then show ?thesis
      using True v by (subst extended_vread [OF inv ext(1)]) (simp_all add: copy_sectors_out)
  next
    case False
    then show ?thesis by (subst extended_vread [OF inv ext(1)]) (auto simp: copy_sectors_out)
  qed
  then show ?thesis
    unfolding served_fill prod.case fill_served_def
    using extended_inv [OF inv ext(1) ready] by (intro quietI) simp_all
qed

section \<open>Writing steps\<close>

text \<open>A step that writes the next \<open>n\<close> sectors of the request.\<close>

definition wrote :: "nat \<Rightarrow> mem \<Rightarrow> hs \<Rightarrow> mem \<Rightarrow> hs \<Rightarrow> bool" where
  "wrote n d h d' h' \<longleftrightarrow> (case job (hs_Ctx h) of (LBA, LEN, T, data) \<Rightarrow>
     ftl_inv d' (hs_Ctx h') \<and> T + n \<le> LEN \<and> job (hs_Ctx h') = (LBA, LEN, T + n, data) \<and>
     (\<forall>L. in_dev (hs_Ctx h) L \<longrightarrow> vread d' (hs_Ctx h') L =
        (if LBA + T \<le> L \<and> L < LBA + T + n then data (L - LBA) else vread d (hs_Ctx h) L)) \<and>
     SIZE_OF_MAP (hs_Ctx h') = SIZE_OF_MAP (hs_Ctx h) \<and> hs_Mode h' = hs_Mode h \<and> hs_Done h' = hs_Done h \<and>
     logs d (hs_Ctx h) d' (hs_Ctx h'))"

lemma cache_mem [simp]: "cache_wf (c\<lparr>CacheMem := m\<rparr>) = cache_wf c" "cached (c\<lparr>CacheMem := m\<rparr>) L = cached c L"
  by (simp_all add: cache_wf_def cached_def)

lemma ftl_inv_mem: "ftl_inv d (c\<lparr>CacheMem := m\<rparr>) = ftl_inv d c"
proof -
  let ?c = "c\<lparr>CacheMem := m\<rparr>"
  have e: "used_set ?c ch = used_set c ch" "cached ?c L = cached c L" for ch L
    by (simp_all add: used_set_def cached_def)
  have "cache_wf ?c = cache_wf c" "pace ?c = pace c" "window_ok d ?c = window_ok d c"
    by (simp_all add: cache_wf_def pace_def room_def to_move_def moving_def window_ok_def e)
  moreover have "geom ?c = geom c" "map_ok ?c = map_ok c" "used_ok ?c = used_ok c" "dir_ok d ?c = dir_ok d c"
    "final_ok d ?c = final_ok d c" "newest ?c = newest c"
    by (simp_all add: ftl_parts dir_word_def e)
  ultimately show ?thesis by (simp add: ftl_inv_def)
qed

lemma ftl_inv_dirty: "ftl_inv d (c\<lparr>CacheDirty := b\<rparr>) = ftl_inv d c"
proof -
  let ?c = "c\<lparr>CacheDirty := b\<rparr>"
  have e: "used_set ?c ch = used_set c ch" "cached ?c L = cached c L" for ch L
    by (simp_all add: used_set_def cached_def)
  have "cache_wf ?c = cache_wf c" "pace ?c = pace c" "window_ok d ?c = window_ok d c"
    by (simp_all add: cache_wf_def pace_def room_def to_move_def moving_def window_ok_def e)
  moreover have "geom ?c = geom c" "map_ok ?c = map_ok c" "used_ok ?c = used_ok c" "dir_ok d ?c = dir_ok d c"
    "final_ok d ?c = final_ok d c" "newest ?c = newest c"
    by (simp_all add: ftl_parts dir_word_def e)
  ultimately show ?thesis by (simp add: ftl_inv_def)
qed

lemma vread_dirty: "vread d (c\<lparr>CacheDirty := b\<rparr>) L = vread d c L"
  using GetCachedPos_cong [of "c\<lparr>CacheDirty := b\<rparr>" c L] by (simp add: vread_def Let_def)

lemma hit_run:
  assumes "GetCachedPos c L \<noteq> NOT_MAPPED" "cache_wf c" "0 < LEN" "L + LEN \<le> 4294967296"
    "i < cache_hit_len c (GetCachedPos c L) L LEN"
  shows "GetCachedPos c L + i < CachePos c \<and> CacheLBA c (GetCachedPos c L + i) = L + i"
proof (cases "i = 0")
  case True
  then show ?thesis using cd.found [OF assms(2,1)] by simp
next
  case False
  then have "GetCachedPos c L + i < CachePos c \<and> CacheLBA c (GetCachedPos c L + i) = wrap32 (L + i)"
    using for_len_all [of 1 i "\<lambda>len. GetCachedPos c L + len < CachePos c \<and> CacheLBA c (GetCachedPos c L + len) = wrap32 (L + len)" LEN]
      assms(5) unfolding cache_hit_len_def by simp
  moreover have "i < LEN" using assms(5) cache_hit_len_bounds(2) [OF assms(3)] by (meson order_less_le_trans)
  ultimately show ?thesis using assms(4) by simp
qed

lemma write_hit_wrote:
  assumes inv: "ftl_inv d (hs_Ctx h)" and job: "job (hs_Ctx h) = (LBA, LEN, T, data)" and T: "T < LEN"
    and dev: "LBA + LEN \<le> 8 * SIZE_OF_MAP (hs_Ctx h)"
    and hit: "GetCachedPos (hs_Ctx h) (LBA + T) \<noteq> NOT_MAPPED"
  shows "\<exists>n. wrote n d h d (write_hit (GetCachedPos (hs_Ctx h) (LBA + T)) (LBA + T) (LEN - T) h)"
proof
  let ?c = "hs_Ctx h" and ?p = "GetCachedPos (hs_Ctx h) (LBA + T)" and ?L = "LBA + T"
  let ?n = "cache_hit_len ?c ?p ?L (LEN - T)"
  let ?m = "copy_sectors (CacheMem ?c) ?p data T ?n"
  let ?h = "write_hit ?p ?L (LEN - T) h"
  note i = ftl_invD [OF inv]
  have n: "1 \<le> ?n" "?n \<le> LEN - T" using cache_hit_len_bounds T by simp_all
  have th: "th_Data (OtherThread ?c) = data" "th_Transferred (OtherThread ?c) = T" "th_LBA (OtherThread ?c) = LBA"
    "th_LEN (OtherThread ?c) = LEN" using job by (simp_all add: job_def)
  have e: "hs_Ctx ?h = set_thread TOther ((OtherThread ?c)\<lparr>th_Transferred := T + ?n\<rparr>) (?c\<lparr>CacheMem := ?m\<rparr>)"
    by (simp add: write_hit_def advance_def Let_def th)
  have same: "same_ftl (?c\<lparr>CacheMem := ?m\<rparr>) (hs_Ctx ?h)" unfolding e by (simp add: same_ftl_def)
  have run: "?p + k < CachePos ?c \<and> CacheLBA ?c (?p + k) = ?L + k" if "k < ?n" for k
    using that T dev geom_size [OF i(1)] by (intro hit_run [OF hit i(2)]) auto
  have v: "vread d (?c\<lparr>CacheMem := ?m\<rparr>) L = (if ?L \<le> L \<and> L < ?L + ?n then data (L - LBA) else vread d ?c L)" for L
  proof (cases "?L \<le> L \<and> L < ?L + ?n")
    case True
    let ?q = "?p + (L - ?L)"
    have q: "?q < CachePos ?c" "CacheLBA ?c ?q = L" using run [of "L - ?L"] True by auto
    have "vread d (?c\<lparr>CacheMem := ?m\<rparr>) L = ?m ?q"
      using q i(2) by (subst vread_cached [of _ ?q]) simp_all
    also have "\<dots> = data (L - LBA)" using True by (subst copy_sectors_in) auto
    finally show ?thesis using True by simp
  next
    case False
    have "vread d (?c\<lparr>CacheMem := ?m\<rparr>) L = vread d ?c L"
    proof (cases "cached ?c L")
      case True
      then obtain q where q: "q < CachePos ?c" "CacheLBA ?c q = L" by (auto simp: cached_def)
      have "q < ?p \<or> ?p + ?n \<le> q"
      proof (rule ccontr)
        assume "\<not> ?thesis"
        then have "CacheLBA ?c q = ?L + (q - ?p)" "q - ?p < ?n" using run [of "q - ?p"] by auto
        then show False using False q(2) by auto
      qed
      then have "?m q = CacheMem ?c q" by (rule copy_sectors_out)
      then show ?thesis
        using vread_cached [OF i(2) q] q i(2) by (subst vread_cached [of _ q]) simp_all
    next
      case nc: False
      then show ?thesis
        using vread_uncached [OF i(2) nc] i(2) by (subst vread_uncached) simp_all
    qed
    then show ?thesis using False by auto
  qed
  show "wrote ?n d h d ?h"
    unfolding wrote_def job prod.case
  proof (intro conjI allI impI)
    show "ftl_inv d (hs_Ctx ?h)" using inv ftl_inv_same [OF same] by (simp only: ftl_inv_mem)
    show "T + ?n \<le> LEN" using n T by simp
    show "job (hs_Ctx ?h) = (LBA, LEN, T + ?n, data)" unfolding e by (simp add: job_def th)
    show "SIZE_OF_MAP (hs_Ctx ?h) = SIZE_OF_MAP ?c" unfolding e by simp
    show "hs_Mode ?h = hs_Mode h" "hs_Done ?h = hs_Done h" by (simp_all add: write_hit_def advance_def Let_def)
    show "logs d ?c d (hs_Ctx ?h)" by (rule logs_view) (simp add: e log_view_def scn_now_def)
  next
    fix L
    show "vread d (hs_Ctx ?h) L = (if LBA + T \<le> L \<and> L < LBA + T + ?n then data (L - LBA) else vread d ?c L)"
      using v [of L] vread_same [OF same] by simp
  qed
qed

lemma cache_write_len_run:
  assumes "0 < LEN" "0 < i" "i < cache_write_len c L LEN"
  shows "CachePos c + i < LAST_CACHE_POS" "off8 (wrap32 (L + i)) \<noteq> 0 \<or> GetCachedPos c (wrap32 (L + i)) = NOT_MAPPED"
  using for_len_all [of 1 i "\<lambda>len. CachePos c + len < LAST_CACHE_POS \<and>
      (off8 (wrap32 (L + len)) \<noteq> 0 \<or> GetCachedPos c (wrap32 (L + len)) = NOT_MAPPED)" LEN] assms
  unfolding cache_write_len_def by auto

lemma cache_write_can_extend:
  assumes g: "geom c" and wf: "cache_wf c" and L: "L + LEN \<le> 8 * SIZE_OF_MAP c" "0 < LEN"
    and miss: "\<not> cached c L" and room: "CachePos c < LAST_CACHE_POS" and off: "off8 L = off8 (CachePos c)"
    and follow: "off8 (CachePos c) \<noteq> 0 \<Longrightarrow> L = CacheLBA c (CachePos c - 1) + 1"
  shows "can_extend c L (cache_write_len c L LEN)"
proof -
  let ?n = "cache_write_len c L LEN"
  have n: "1 \<le> ?n" "?n \<le> LEN" using cache_write_len_bounds L(2) by simp_all
  have small: "L + LEN \<le> 4294967295" using L geom_size [OF g] by simp
  have fit: "CachePos c + ?n \<le> LAST_CACHE_POS"
  proof (cases "?n = 1")
    case False
    then have "CachePos c + (?n - 1) < LAST_CACHE_POS" using n by (intro cache_write_len_run(1) [OF L(2), where L = L]) auto
    then show ?thesis using n by simp
  qed (use room in simp)
  have "\<not> cached c (L + i)" if i: "i < ?n" for i
  proof
    assume ca: "cached c (L + i)"
    let ?b = "8 * blk (L + i)"
    obtain p where p: "p < CachePos c" "CacheLBA c p = L + i" using ca by (auto simp: cached_def)
    have head: "cached c ?b" using cached_head [OF wf p(1)] p(2) by simp
    show False
    proof (cases "?b \<le> L")
      case True
      have "blk (L + i) \<le> blk L" using True by (simp add: blk_def less_eq_div_iff_mult_less_eq mult.commute)
      moreover have "blk L \<le> blk (L + i)" unfolding blk_def by (rule div_le_mono) simp
      ultimately have b: "blk (L + i) = blk L" by simp
      show False
      proof (cases "off8 (CachePos c) = 0")
        case True
        then show False using block_cached [OF wf True ca, of L] b miss by simp
      next
        case False
        then have "L = CacheLBA c (CachePos c - 1) + 1" by (rule follow)
        then show False using next_uncached(3) [OF wf False, of "L + i"] b ca by simp
      qed
    next
      case False
      define k where "k = ?b - L"
      have k: "?b = L + k" "0 < k" using False by (simp_all add: k_def)
      have "?b \<le> L + i" using lba_split [of "L + i"] by linarith
      then have ki: "k \<le> i" using k by simp
      have "wrap32 (L + k) = L + k" using ki i n(2) small by (intro wrap32_id) linarith
      then have "GetCachedPos c (L + k) = NOT_MAPPED"
        using cache_write_len_run(2) [OF L(2) k(2), of c L] ki i k(1) [symmetric] by simp
      then show False using head cached_iff [OF wf] k(1) by metis
    qed
  qed
  then have "\<forall>K. L \<le> K \<and> K < L + ?n \<longrightarrow> \<not> cached c K"
    by (metis add_less_cancel_left le_add_diff_inverse)
  then show ?thesis using off fit L n follow unfolding can_extend_def by simp
qed

lemma cache_write_wrote:
  assumes inv: "ftl_inv d (hs_Ctx h)" and job: "job (hs_Ctx h) = (LBA, LEN, T, data)" and T: "T < LEN"
    and dev: "LBA + LEN \<le> 8 * SIZE_OF_MAP (hs_Ctx h)"
    and ready: "RelocationPrepared (hs_Ctx h)" "RelocationDone (hs_Ctx h)"
    and miss: "\<not> cached (hs_Ctx h) (LBA + T)" and room: "CachePos (hs_Ctx h) < LAST_CACHE_POS"
    and off: "off8 (LBA + T) = off8 (CachePos (hs_Ctx h))"
    and follow: "off8 (CachePos (hs_Ctx h)) \<noteq> 0 \<Longrightarrow> LBA + T = CacheLBA (hs_Ctx h) (CachePos (hs_Ctx h) - 1) + 1"
  shows "\<exists>n. wrote n d h d (cache_write (LBA + T) (LEN - T) h)"
proof
  let ?c = "hs_Ctx h" and ?L = "LBA + T"
  let ?n = "cache_write_len ?c ?L (LEN - T)"
  let ?m = "copy_sectors (CacheMem ?c) (CachePos ?c) data T ?n"
  let ?h = "cache_write ?L (LEN - T) h"
  note i = ftl_invD [OF inv]
  have n: "1 \<le> ?n" "?n \<le> LEN - T" using cache_write_len_bounds T by simp_all
  have th: "th_Data (OtherThread ?c) = data" "th_Transferred (OtherThread ?c) = T" "th_LBA (OtherThread ?c) = LBA"
    "th_LEN (OtherThread ?c) = LEN" using job by (simp_all add: job_def)
  have ext: "can_extend ?c ?L ?n"
    using T dev follow by (intro cache_write_can_extend [OF i(1,2) _ _ miss room off]) simp_all
  have e: "hs_Ctx ?h = (extended ?c ?L ?n ?m)\<lparr>CacheDirty := True, OtherThread := (OtherThread ?c)\<lparr>th_Transferred := T + ?n\<rparr>\<rparr>"
    by (simp add: cache_write_def advance_def Let_def th extended_def)
  have same: "same_ftl ((extended ?c ?L ?n ?m)\<lparr>CacheDirty := True\<rparr>) (hs_Ctx ?h)" unfolding e by (simp add: same_ftl_def)
  show "wrote ?n d h d ?h"
    unfolding wrote_def job prod.case
  proof (intro conjI allI impI)
    show "ftl_inv d (hs_Ctx ?h)" using extended_inv [OF inv ext ready] ftl_inv_same [OF same] ftl_inv_dirty by simp
    show "T + ?n \<le> LEN" using n T by simp
    show "job (hs_Ctx ?h) = (LBA, LEN, T + ?n, data)" unfolding e by (simp add: job_def th)
    show "SIZE_OF_MAP (hs_Ctx ?h) = SIZE_OF_MAP ?c" unfolding e by simp
    show "hs_Mode ?h = hs_Mode h" "hs_Done ?h = hs_Done h" by (simp_all add: cache_write_def advance_def Let_def)
    show "logs d ?c d (hs_Ctx ?h)" by (rule logs_view) (simp add: e extended_def log_view_def scn_now_def)
  next
    fix L
    have "vread d (hs_Ctx ?h) L = vread d (extended ?c ?L ?n ?m) L" using vread_same [OF same] vread_dirty by simp
    also have "\<dots> = (if ?L \<le> L \<and> L < ?L + ?n then ?m (CachePos ?c + (L - ?L)) else vread d ?c L)"
      by (rule extended_vread [OF inv ext]) (simp add: copy_sectors_out)
    also have "\<dots> = (if ?L \<le> L \<and> L < ?L + ?n then data (L - LBA) else vread d ?c L)"
      by (auto simp: copy_sectors_in)
    finally show "vread d (hs_Ctx ?h) L = (if LBA + T \<le> L \<and> L < LBA + T + ?n then data (L - LBA) else vread d ?c L)" .
  qed
qed

section \<open>One round of the loop\<close>

text \<open>What a part of the round may lead to.\<close>

definition fine :: "mem \<Rightarrow> hs \<Rightarrow> outcome \<Rightarrow> bool" where
  "fine d h out \<longleftrightarrow> (case out of
     Inr h' \<Rightarrow> (\<exists>n. wrote n d h d h')
   | Inl (st, h') \<Rightarrow> st = STATUS_PENDING \<and> (case served d h' of (d', h'') \<Rightarrow> quiet d h d' h''))"

lemma quiet_wrote:
  assumes "quiet d h d' h'" "job (hs_Ctx h) = (LBA, LEN, T, data)" "T \<le> LEN" shows "wrote 0 d h d' h'"
  using assms unfolding quiet_def wrote_def by auto

lemma quiet_wrote_trans:
  assumes "quiet d h d1 h1" "wrote n d1 h1 d' h'" shows "wrote n d h d' h'"
proof -
  have "logs d (hs_Ctx h) d' (hs_Ctx h')"
    by (rule logs_trans [of d _ d1 "hs_Ctx h1"]) (use assms in \<open>simp_all add: quiet_def wrote_def split: prod.splits\<close>)
  then show ?thesis using assms unfolding quiet_def wrote_def in_dev_def by (auto split: prod.splits)
qed

lemma quiet_fine:
  assumes q: "quiet d h d h1" and f: "fine d h1 out" shows "fine d h out"
proof (cases out)
  case (Inl r)
  obtain st h' where r: "r = (st, h')" by (cases r)
  obtain d' h'' where s: "served d h' = (d', h'')" by (cases "served d h'")
  show ?thesis using f quiet_trans [OF q] unfolding fine_def Inl r sum.case prod.case s by blast
next
  case (Inr h')
  show ?thesis using f quiet_wrote_trans [OF q] unfolding fine_def Inr sum.case by blast
qed

lemma fill_fine:
  assumes inv: "ftl_inv d (hs_Ctx h)" and job: "job (hs_Ctx h) = (LBA, LEN, T, data)" "T \<le> LEN"
    and ext: "can_extend (hs_Ctx h) L n" "blk (L + n - 1) = blk L" "0 < n"
    and ready: "RelocationPrepared (hs_Ctx h)" "RelocationDone (hs_Ctx h)"
  shows "fine d h (cache_fill_read L n h)"
proof (cases "Map (hs_Ctx h) (blk L) = NOT_MAPPED")
  case True
  have "wrote 0 d h d (upd_ctx (CacheFillReadZero L n) h)"
    using quiet_wrote [OF quiet_zero [OF inv ext ready True] job] .
  then show ?thesis using True unfolding fine_def cache_fill_read_def by auto
next
  case False
  let ?h = "IoMarkIrpPending TOther h"
  have q: "quiet d h d ?h" using quiet_mark(1) [OF inv] .
  have same: "same_ftl (hs_Ctx h) (hs_Ctx ?h)" by (rule tables_eq_same) simp
  then have ext': "can_extend (hs_Ctx ?h) L n"
    using ext(1) cached_cong [of "hs_Ctx ?h" "hs_Ctx h"] unfolding can_extend_def same_ftl_def by simp
  obtain d' h' where s: "served d (ExecuteCacheFillRead L n ?h) = (d', h')" by (cases "served d (ExecuteCacheFillRead L n ?h)")
  have "quiet d ?h d' h'"
    using quiet_fill [OF _ ext' ext(2,3), of d] q same ready False unfolding s quiet_def same_ftl_def by simp
  then have "quiet d h d' h'" by (rule quiet_trans [OF q])
  then show ?thesis using False s unfolding fine_def cache_fill_read_def by simp
qed

lemma partial_can_extend:
  assumes g: "geom c" and wf: "cache_wf c" and part: "off8 (CachePos c) \<noteq> 0" and room: "CachePos c < LAST_CACHE_POS"
  defines "L \<equiv> CacheLBA c (CachePos c - 1) + 1"
  shows "can_extend c L (8 - off8 (CachePos c))" "blk (L + (8 - off8 (CachePos c)) - 1) = blk L" "wrap32 L = L"
proof -
  let ?n = "8 - off8 (CachePos c)"
  note nx = next_uncached [OF wf part, folded L_def]
  have p: "CachePos c - 1 < CachePos c" using part by (cases "CachePos c") (auto simp: off8_def)
  have e: "L + ?n - 1 = 8 * blk L + 7" using lba_split [of L] nx(2) off8_less [of "CachePos c"] by linarith
  then show b: "blk (L + ?n - 1) = blk L" by simp
  have "blk L < SIZE_OF_MAP c" using cache_wfD(3) [OF wf p] nx(1) by simp
  then have dev: "L + ?n \<le> 8 * SIZE_OF_MAP c" using lba_split [of L] nx(2) off8_less [of "CachePos c"] by linarith
  then show "wrap32 L = L" using geom_size [OF g] off8_less [of "CachePos c"] by (intro wrap32_id) linarith
  have "CachePos c + ?n \<le> LAST_CACHE_POS"
  proof -
    have "blk (CachePos c) < 63" using room by (simp add: blk_less_iff)
    moreover have "8 * blk (CachePos c) + off8 (CachePos c) = CachePos c" "off8 (CachePos c) < 8" by (simp_all add: lba_split)
    ultimately show ?thesis unfolding size_defs by linarith
  qed
  moreover have "\<not> cached c K" if "L \<le> K" "K < L + ?n" for K
    using nx(3) block_range [OF b that] that(1) by blast
  ultimately show "can_extend c L ?n" using dev nx(2) unfolding can_extend_def L_def by simp
qed

lemma aligned_can_extend:
  assumes g: "geom c" and wf: "cache_wf c" and al: "off8 (CachePos c) = 0" and room: "CachePos c < LAST_CACHE_POS"
    and miss: "\<not> cached c L" and dev: "L < 8 * SIZE_OF_MAP c" and n: "0 < n" "n \<le> 8"
  shows "can_extend c (base8 L) n" "blk (base8 L + n - 1) = blk (base8 L)"
proof -
  have e: "base8 L + n - 1 = 8 * blk L + (n - 1)" using n by (simp add: base8_blk)
  have "n - 1 < 8" using n by linarith
  then show b: "blk (base8 L + n - 1) = blk (base8 L)" unfolding e by (simp add: base8_blk)
  have "CachePos c + 7 < LAST_CACHE_POS" using al room by (intro block_below) (simp_all add: off8_def)
  moreover have "\<not> cached c K" if "base8 L \<le> K" "K < base8 L + n" for K
  proof
    assume "cached c K"
    moreover have "blk L = blk K" using block_range [OF b that] by (simp add: base8_blk)
    ultimately show False using block_cached [OF wf al] miss by blast
  qed
  moreover have "blk L < SIZE_OF_MAP c" using dev by (simp add: blk_less_iff)
  ultimately show "can_extend c (base8 L) n" using al n unfolding can_extend_def by (simp add: base8_blk)
qed

lemma write_data_fine:
  assumes inv: "ftl_inv d (hs_Ctx h)" and job: "job (hs_Ctx h) = (LBA, LEN, T, data)" and T: "T < LEN"
    and dev: "LBA + LEN \<le> 8 * SIZE_OF_MAP (hs_Ctx h)"
    and ready: "RelocationPrepared (hs_Ctx h)" "RelocationDone (hs_Ctx h)"
  shows "fine d h (write_data (LBA + T) (LEN - T) h)"
proof -
  let ?c = "hs_Ctx h" and ?L = "LBA + T"
  note i = ftl_invD [OF inv]
  have Ld: "?L < 8 * SIZE_OF_MAP ?c" and Tl: "T \<le> LEN" using T dev by simp_all
  consider (hit) "GetCachedPos ?c ?L \<noteq> NOT_MAPPED"
    | (full) "GetCachedPos ?c ?L = NOT_MAPPED" "LAST_CACHE_POS \<le> CachePos ?c"
    | (part) "GetCachedPos ?c ?L = NOT_MAPPED" "CachePos ?c < LAST_CACHE_POS" "off8 (CachePos ?c) \<noteq> 0"
    | (aligned) "GetCachedPos ?c ?L = NOT_MAPPED" "CachePos ?c < LAST_CACHE_POS" "off8 (CachePos ?c) = 0"
    by linarith
  then show ?thesis
  proof cases
    case hit
    then show ?thesis using write_hit_wrote [OF inv job T dev hit] unfolding fine_def write_data_def Let_def by simp
  next
    case full
    have c504: "CachePos ?c = LAST_CACHE_POS" using full(2) i(2) by (simp add: cache_wf_def)
    let ?h = "IoMarkIrpPending TOther h"
    have q: "quiet d h d ?h" using quiet_mark(1) [OF inv] .
    have same: "same_ftl ?c (hs_Ctx ?h)" by (rule tables_eq_same) simp
    obtain d' h' where s: "served d (ExecutePurgeCache ?h) = (d', h')" by (cases "served d (ExecutePurgeCache ?h)")
    have "quiet d ?h d' h'"
      using quiet_purge [of d ?h] q same ready c504 unfolding s quiet_def same_ftl_def by (simp add: off8_def)
    then have "quiet d h d' h'" by (rule quiet_trans [OF q])
    then show ?thesis using full s unfolding fine_def write_data_def Let_def by simp
  next
    case part
    let ?N = "CacheLBA ?c (CachePos ?c - 1) + 1"
    note pe = partial_can_extend [OF i(1,2) part(3,2)]
    have miss: "\<not> cached ?c ?L" using part(1) cached_iff [OF i(2)] by blast
    show ?thesis
    proof (cases "?N = ?L")
      case True
      then have "off8 ?L = off8 (CachePos ?c)" using next_uncached(2) [OF i(2) part(3)] by simp
      then have "\<exists>n. wrote n d h d (cache_write ?L (LEN - T) h)"
        using True by (intro cache_write_wrote [OF inv job T dev ready miss part(2)]) simp_all
      then show ?thesis using part pe(3) True unfolding fine_def write_data_def Let_def by simp
    next
      case False
      have "fine d h (cache_fill_read ?N (8 - off8 (CachePos ?c)) h)"
        using part(3) by (intro fill_fine [OF inv job Tl pe(1,2) _ ready]) simp
      then show ?thesis using part pe(3) False unfolding write_data_def Let_def by simp
    qed
  next
    case aligned
    have miss: "\<not> cached ?c ?L" using aligned(1) cached_iff [OF i(2)] by blast
    show ?thesis
    proof (cases "off8 ?L = 0")
      case True
      have "\<exists>n. wrote n d h d (cache_write ?L (LEN - T) h)"
        using True aligned(3) by (intro cache_write_wrote [OF inv job T dev ready miss aligned(2)]) simp_all
      then show ?thesis using aligned True unfolding fine_def write_data_def Let_def by simp
    next
      case False
      define n where "n = (if base8 ?L = base8 (wrap32 (?L + (LEN - T))) then 8 else off8 ?L)"
      have n: "0 < n" "n \<le> 8" using False off8_less [of ?L] by (auto simp: n_def simp del: off8_less)
      have "fine d h (cache_fill_read (base8 ?L) n h)"
        using aligned_can_extend [OF i(1,2) aligned(3,2) miss Ld n] by (intro fill_fine [OF inv job Tl _ _ n(1) ready])
      then show ?thesis using aligned False unfolding write_data_def Let_def n_def by simp
    qed
  qed
qed

text \<open>The first half of the round: the chunk and its relocation are ready, or a transfer is issued.\<close>

definition prepared_out :: "mem \<Rightarrow> hs \<Rightarrow> outcome \<Rightarrow> bool" where
  "prepared_out d h out \<longleftrightarrow> (case out of
     Inr h' \<Rightarrow> quiet d h d h' \<and> RelocationPrepared (hs_Ctx h') \<and> RelocationDone (hs_Ctx h')
   | Inl (st, h') \<Rightarrow> st = STATUS_PENDING \<and> (case served d h' of (d', h'') \<Rightarrow> quiet d h d' h''))"

lemma prepared_out_trans:
  assumes q: "quiet d h d h1" and p: "prepared_out d h1 out" shows "prepared_out d h out"
proof (cases out)
  case (Inl r)
  obtain st h' where r: "r = (st, h')" by (cases r)
  obtain d' h'' where s: "served d h' = (d', h'')" by (cases "served d h'")
  show ?thesis using p quiet_trans [OF q] unfolding prepared_out_def Inl r sum.case prod.case s by blast
next
  case (Inr h')
  show ?thesis using p quiet_trans [OF q] unfolding prepared_out_def Inr sum.case by blast
qed

text \<open>An action that issues a transfer, after \<open>IoMarkIrpPending\<close>.\<close>

lemma issue_prepared:
  assumes q: "quiet d h d h1" and s: "case served d h2 of (d', h') \<Rightarrow> quiet d h1 d' h'"
  shows "prepared_out d h (Inl (STATUS_PENDING, h2))"
proof -
  obtain d' h' where e: "served d h2 = (d', h')" by (cases "served d h2")
  show ?thesis using s quiet_trans [OF q] unfolding prepared_out_def e by (simp add: e)
qed

lemma write_relocate_out:
  assumes inv: "ftl_inv d (hs_Ctx h)" and space: "PurgePos (hs_Ctx h) < LAST_PURGE_POS"
  shows "prepared_out d h (write_relocate h)"
proof -
  have mark: "quiet d g d (IoMarkIrpPending TOther g)" "same_ftl (hs_Ctx g) (hs_Ctx (IoMarkIrpPending TOther g))"
    if "ftl_inv d (hs_Ctx g)" for g
    using quiet_mark(1) [OF that] by (simp_all add: tables_eq_same)
  have refl: "quiet d h d h" using inv by (rule quiet_same) simp_all
  consider (prep) "\<not> RelocationPrepared (hs_Ctx h)" | (ready) "RelocationPrepared (hs_Ctx h)" "RelocationDone (hs_Ctx h)"
    | (move) "relocating d (hs_Ctx h)" using inv by (auto simp: relocating_def)
  then show ?thesis
  proof cases
    case prep
    let ?h = "IoMarkIrpPending TOther h"
    have "case served d (PrepareRelocate ?h) of (d', h') \<Rightarrow> quiet d ?h d' h'"
      using mark [OF inv] prep space by (intro quiet_prepare) (simp_all add: quiet_def same_ftl_def)
    then show ?thesis using issue_prepared [OF mark(1) [OF inv]] prep by (simp add: write_relocate_def)
  next
    case ready
    then show ?thesis using refl by (simp add: write_relocate_def prepared_out_def)
  next
    case move
    note RD = relocatingD [OF move] and RI = relocate_cached_inv [OF move space]
    define h1 where "h1 = upd_ctx ExecuteRelocateCached h"
    have c1: "hs_Ctx h1 = ExecuteRelocateCached (hs_Ctx h)" by (simp add: h1_def)
    have "SIZE_OF_MAP (hs_Ctx h1) = SIZE_OF_MAP (hs_Ctx h)" "job (hs_Ctx h1) = job (hs_Ctx h)"
      using relocate_cached_form [of "hs_Ctx h"] unfolding c1 by (auto simp: job_def)
    then have q: "quiet d h d h1" using RI(1,3) logs_relocate [of d "hs_Ctx h"] by (intro quietI) (simp_all add: c1, simp_all add: h1_def)
    show ?thesis
    proof (cases "RelocationDone (hs_Ctx h1)")
      case True
      then show ?thesis
        using q RI(2) RD(2,3) unfolding write_relocate_def prepared_out_def h1_def [symmetric] Let_def c1 [symmetric] by simp
    next
      case False
      let ?h = "IoMarkIrpPending TOther h1"
      have inv1: "ftl_inv d (hs_Ctx h1)" using RI(1) by (simp add: c1)
      have "RelocatePos (hs_Ctx h1) < LAST_PURGE_POS" using RI(4) False by (simp add: c1)
      then have "case served d (ExecuteRelocate ?h) of (d', h') \<Rightarrow> quiet d ?h d' h'"
        using mark [OF inv1] RI(2) by (intro quiet_window) (simp_all add: quiet_def same_ftl_def c1)
      then have "prepared_out d h1 (Inl (STATUS_PENDING, ExecuteRelocate ?h))"
        by (rule issue_prepared [OF mark(1) [OF inv1]])
      then have "prepared_out d h (Inl (STATUS_PENDING, ExecuteRelocate ?h))" by (rule prepared_out_trans [OF q])
      then show ?thesis using False RD(2,3) unfolding write_relocate_def h1_def [symmetric] Let_def by simp
    qed
  qed
qed

lemma next_chunk_facts:
  "PurgePos (next_chunk c) < LAST_PURGE_POS" "SIZE_OF_MAP (next_chunk c) = SIZE_OF_MAP c" "job (next_chunk c) = job c"
  by (simp_all add: next_chunk_def FindNextChunk_def Let_def chunk_start_def job_def)

lemma write_prepare_out:
  assumes inv: "ftl_inv d (hs_Ctx h)" and scn: "scn_left (hs_Ctx h)"
  shows "prepared_out d h (write_prepare h)"
proof (cases "LAST_PURGE_POS \<le> PurgePos (hs_Ctx h)")
  case full: True
  show ?thesis
  proof (cases "FinalizedPos (hs_Ctx h) < LAST_PURGE_POS")
    case True
    let ?h = "IoMarkIrpPending TOther (upd_ctx MarkReadingThreads h)"
    have q: "quiet d h d ?h" using quiet_mark(2) [OF inv] .
    have "same_ftl (hs_Ctx h) (hs_Ctx (upd_ctx MarkReadingThreads h))" by (rule tables_eq_same) simp
    moreover have "same_ftl (hs_Ctx (upd_ctx MarkReadingThreads h)) (hs_Ctx ?h)"
      by (rule tables_eq_same, rule hs_IoMarkIrpPending)
    ultimately have same: "same_ftl (hs_Ctx h) (hs_Ctx ?h)" by (rule same_ftl_trans)
    have "CachePos (hs_Ctx ?h) = 0" using pace_full(2) [OF inv full] same by (simp add: same_ftl_def)
    then have "case served d (ExecutePurgeChunk ?h) of (d', h') \<Rightarrow> quiet d ?h d' h'"
      using q by (intro quiet_chunk) (simp_all add: quiet_def)
    then show ?thesis using issue_prepared [OF q] full True by (simp add: write_prepare_def)
  next
    case False
    define h1 where "h1 = upd_ctx next_chunk h"
    have c1: "hs_Ctx h1 = next_chunk (hs_Ctx h)" by (simp add: h1_def)
    have inv1: "ftl_inv d (hs_Ctx h1)" unfolding c1 using next_chunk_inv [OF inv full _ scn] False by simp
    have q: "quiet d h d h1"
      using inv1 logs_next [OF inv full _ scn] False by (intro quietI) (simp_all add: c1 next_chunk_vread next_chunk_facts, simp_all add: h1_def)
    have "prepared_out d h1 (write_relocate h1)"
      using next_chunk_facts(1) by (intro write_relocate_out inv1) (simp add: c1)
    then have "prepared_out d h (write_relocate h1)" by (rule prepared_out_trans [OF q])
    then show ?thesis using full False by (simp add: write_prepare_def h1_def)
  qed
next
  case False
  then show ?thesis using write_relocate_out [OF inv] by (simp add: write_prepare_def)
qed

text \<open>One step of the machine.\<close>

lemma write_step_ok:
  assumes inv: "ftl_inv d (hs_Ctx h)" and mode: "hs_Mode h = VLTL_MODE_ACTIVE"
    and job: "job (hs_Ctx h) = (LBA, LEN, T, data)" "T \<le> LEN"
    and dev: "LBA + LEN \<le> 8 * SIZE_OF_MAP (hs_Ctx h)" and scn: "scn_left (hs_Ctx h)"
  shows "case write_step d h of
      Inr (d', h') \<Rightarrow> \<exists>n. wrote n d h d' h'
    | Inl (st, d', h') \<Rightarrow> T = LEN \<and> d' = d \<and> (st, h') = complete_success TOther h"
proof (cases "T = LEN")
  case True
  then have "write_iter h = Inl (complete_success TOther h)"
    using job mode by (simp add: write_iter_def Let_def job_def)
  moreover have "fst (complete_success TOther h) = STATUS_SUCCESS" by (simp add: complete_success_def Let_def)
  ultimately show ?thesis
    using True by (cases "complete_success TOther h") (simp add: write_step_def)
next
  case False
  then have T: "T < LEN" using job(2) by simp
  have small: "LBA + T < 4294967296" using T dev geom_size [OF ftl_invD(1) [OF inv]] by simp
  have wi: "write_iter h = (case write_prepare h of Inl r \<Rightarrow> Inl r | Inr h1 \<Rightarrow> write_data (LBA + T) (LEN - T) h1)"
    using job mode T small by (simp add: write_iter_def Let_def job_def cong: sum.case_cong)
  have po: "prepared_out d h (write_prepare h)" by (rule write_prepare_out [OF inv scn])
  have "fine d h (write_iter h)"
  proof (cases "write_prepare h")
    case (Inl r)
    then show ?thesis using po unfolding wi prepared_out_def fine_def by simp
  next
    case (Inr h1)
    then have q: "quiet d h d h1" and r: "RelocationPrepared (hs_Ctx h1)" "RelocationDone (hs_Ctx h1)"
      using po by (simp_all add: prepared_out_def)
    have "fine d h1 (write_data (LBA + T) (LEN - T) h1)"
      using q job dev r by (intro write_data_fine T) (simp_all add: quiet_def)
    then show ?thesis unfolding wi Inr sum.case by (rule quiet_fine [OF q])
  qed
  then show ?thesis
  proof (cases "write_iter h")
    case (Inl r)
    obtain st h' where r: "r = (st, h')" by (cases r)
    obtain d' h'' where s: "served d h' = (d', h'')" by (cases "served d h'")
    have "st = STATUS_PENDING" "quiet d h d' h''"
      using \<open>fine d h (write_iter h)\<close> unfolding fine_def Inl r sum.case prod.case s by blast+
    moreover from this have "wrote 0 d h d' h''" using quiet_wrote job by blast
    ultimately show ?thesis unfolding write_step_def Inl r sum.case prod.case s by auto
  next
    case (Inr h')
    then show ?thesis using \<open>fine d h (write_iter h)\<close> unfolding write_step_def fine_def by simp
  qed
qed

section \<open>Runs of the handler\<close>

inductive write_run :: "mem \<Rightarrow> hs \<Rightarrow> mem \<Rightarrow> hs \<Rightarrow> bool" where
  start: "write_run d h d h"
| step: "write_run d h d1 h1 \<Longrightarrow> scn_left (hs_Ctx h1) \<Longrightarrow> write_step d1 h1 = Inr (d2, h2) \<Longrightarrow> write_run d h d2 h2"

text \<open>The device after the first \<open>T\<close> sectors of a request have been written.\<close>

definition overwritten :: "(nat \<Rightarrow> sector) \<Rightarrow> nat \<Rightarrow> nat \<Rightarrow> mem \<Rightarrow> nat \<Rightarrow> sector" where
  "overwritten f LBA T data = (\<lambda>L. if LBA \<le> L \<and> L < LBA + T then data (L - LBA) else f L)"

definition write_state :: "mark \<Rightarrow> (nat \<Rightarrow> sector) \<Rightarrow> nat \<Rightarrow> nat \<Rightarrow> mem \<Rightarrow> irp list \<Rightarrow> nat \<Rightarrow> mem \<Rightarrow> hs \<Rightarrow> bool" where
  "write_state M f LBA LEN data ds T d h \<longleftrightarrow>
     ftl_inv d (hs_Ctx h) \<and> hs_Mode h = VLTL_MODE_ACTIVE \<and> job (hs_Ctx h) = (LBA, LEN, T, data) \<and> T \<le> LEN \<and>
     LBA + LEN \<le> 8 * SIZE_OF_MAP (hs_Ctx h) \<and> hs_Done h = ds \<and>
     (\<forall>L. in_dev (hs_Ctx h) L \<longrightarrow> vread d (hs_Ctx h) L = overwritten f LBA T data L) \<and>
     on_record M ((\<lambda>t. overwritten f LBA t data) ` {..T}) d (hs_Ctx h)"

lemma overwritten_more:
  "(if LBA + T \<le> L \<and> L < LBA + T + n then data (L - LBA) else overwritten f LBA T data L) =
   overwritten f LBA (T + n) data L"
  by (auto simp: overwritten_def)

lemma write_state_wrote:
  assumes "write_state M f LBA LEN data ds T d h" "wrote n d h d' h'"
  shows "write_state M f LBA LEN data ds (T + n) d' h'"
proof -
  have "on_record M ((\<lambda>t. overwritten f LBA t data) ` {..T + n}) d' (hs_Ctx h')"
    by (rule on_record_step [of M "(\<lambda>t. overwritten f LBA t data) ` {..T}" d "hs_Ctx h" _ _ "overwritten f LBA T data"])
       (use assms in \<open>auto simp: write_state_def wrote_def\<close>)
  then show ?thesis
    using assms unfolding write_state_def wrote_def in_dev_def overwritten_more [of LBA T _ n data f, symmetric] by simp
qed

lemma write_state_step:
  assumes "write_state M f LBA LEN data ds T d h" "scn_left (hs_Ctx h)" "write_step d h = Inr (d', h')"
  shows "\<exists>T'. write_state M f LBA LEN data ds T' d' h'"
proof -
  have "\<exists>n. wrote n d h d' h'"
    using write_step_ok [of d h LBA LEN T data] assms unfolding write_state_def by simp
  then show ?thesis using write_state_wrote [OF assms(1)] by blast
qed

lemma write_state_run:
  assumes "write_run d0 h0 d h" "write_state M f LBA LEN data ds T0 d0 h0"
  shows "\<exists>T. write_state M f LBA LEN data ds T d h"
  using assms
proof (induction rule: write_run.induct)
  case (step d h d1 h1 d2 h2)
  then show ?case using write_state_step by blast
qed blast

lemma write_state_end:
  assumes "write_state M f LBA LEN data ds T d h" "scn_left (hs_Ctx h)" "write_step d h = Inl (st, d', h')"
  shows "T = LEN \<and> d' = d \<and> (st, h') = complete_success TOther h"
  using write_step_ok [of d h LBA LEN T data] assms unfolding write_state_def by simp

lemma complete_success_same:
  "same_ftl (hs_Ctx h) (hs_Ctx (snd (complete_success t h)))"
  unfolding complete_success_def Let_def snd_conv by (intro tables_eq_same hs_complete_irp)

section \<open>The handler and the completions as the code runs them\<close>

definition code_step :: "lower \<Rightarrow> mem \<Rightarrow> hs \<Rightarrow> bool \<times> mem \<times> hs" where
  "code_step lower d h =
     (let q = last (hs_Issued h); (d', c') = transfer q (d, hs_Ctx h);
          (fin, h') = run_completion lower (rq_Completion q) (ok_result q) (h\<lparr>hs_Ctx := c'\<rparr>)
      in (fin, d', h'))"

text \<open>
  No read thread is in use, no marked thread is waited for, no flush is running and the caller's
  buffer has been mapped: a write on its own. \<open>side\<close> is what the write leaves alone; its request
  is marked pending at most.
\<close>

definition side :: "ctx \<Rightarrow> bool \<times> bool \<times> nat \<times> (nat \<Rightarrow> thread) \<times> nat option \<times> irp option \<times> nat" where
  "side c = (Flushing c, WaitingMarkedThreads c, ThreadsMarked c, ReadThread c,
     th_DataSystemAddress (OtherThread c), map_option (\<lambda>i. i\<lparr>irp_Pending := True\<rparr>) (th_Irp (OtherThread c)), SIZE_OF_MAP c)"

definition alone :: "ctx \<Rightarrow> bool" where
  "alone c \<longleftrightarrow> \<not> Flushing c \<and> \<not> WaitingMarkedThreads c \<and> ThreadsMarked c = 0 \<and>
     th_DataSystemAddress (OtherThread c) \<noteq> None \<and>
     (\<forall>i < READ_THREADS. th_FreeLink (ReadThread c i) \<noteq> 255)"

lemma alone_side: "side c' = side c \<Longrightarrow> alone c \<Longrightarrow> alone c'"
  by (simp add: side_def alone_def)

lemma mark_alone: "alone c \<Longrightarrow> MarkReadingThreads c = c"
proof -
  assume a: "alone c"
  have "(\<And>i. i \<in> set xs \<Longrightarrow> i < READ_THREADS) \<Longrightarrow> fold mark_one xs c = c" for xs
  proof (induction xs)
    case (Cons x xs)
    then have "mark_one x c = c" using a by (simp add: mark_one_def alone_def Let_def)
    with Cons show ?case by simp
  qed simp
  from this [of "[0..<READ_THREADS]"] show ?thesis by (simp add: MarkReadingThreads_def)
qed

lemma side_upd [simp]:
  "th_DataSystemAddress t = th_DataSystemAddress (OtherThread c) \<Longrightarrow> th_Irp t = th_Irp (OtherThread c) \<Longrightarrow> side (c\<lparr>OtherThread := t\<rparr>) = side c"
  "side (c\<lparr>CacheMem := m\<rparr>) = side c" "side (c\<lparr>CacheLBA := f\<rparr>) = side c"
  "side (c\<lparr>CachePos := n\<rparr>) = side c" "side (c\<lparr>CacheDirty := b\<rparr>) = side c" "side (c\<lparr>FinalizedPos := n\<rparr>) = side c"
  "side (c\<lparr>PurgePos := n\<rparr>) = side c" "side (c\<lparr>RelocationDone := b\<rparr>) = side c" "side (c\<lparr>RelocateMem := m\<rparr>) = side c"
  "side (c\<lparr>Map := M\<rparr>) = side c" "side (c\<lparr>ChunkInfo := I\<rparr>) = side c" "side (c\<lparr>ChunkCtl := x\<rparr>) = side c"
  by (simp_all add: side_def)

lemma scn_upd [simp]:
  "scn_now (c\<lparr>OtherThread := t\<rparr>) = scn_now c" "scn_now (c\<lparr>CacheMem := m\<rparr>) = scn_now c"
  "scn_now (c\<lparr>CacheLBA := f\<rparr>) = scn_now c" "scn_now (c\<lparr>CachePos := n\<rparr>) = scn_now c"
  "scn_now (c\<lparr>CacheDirty := b\<rparr>) = scn_now c" "scn_now (c\<lparr>FinalizedPos := n\<rparr>) = scn_now c"
  "scn_now (c\<lparr>PurgePos := n\<rparr>) = scn_now c" "scn_now (c\<lparr>RelocationDone := b\<rparr>) = scn_now c"
  "scn_now (c\<lparr>RelocateMem := m\<rparr>) = scn_now c" "scn_now (c\<lparr>ChunkCtl := x\<rparr>) = scn_now c"
  by (simp_all add: scn_now_def)

lemma side_mark [simp]: "side (hs_Ctx (IoMarkIrpPending TOther h)) = side (hs_Ctx h)"
  "scn_now (hs_Ctx (IoMarkIrpPending TOther h)) = scn_now (hs_Ctx h)"
  by (simp_all add: IoMarkIrpPending_def side_def option.map_comp o_def)

lemma side_extended [simp]: "side (extended c L n m) = side c" "scn_now (extended c L n m) = scn_now c"
  by (simp_all add: extended_def side_def scn_now_def)

lemma side_relocate [simp]: "side (ExecuteRelocateCached c) = side c" "scn_now (ExecuteRelocateCached c) = scn_now c"
  using relocate_cached_form [of c] by (auto simp: side_def scn_now_def)

lemma side_purge_image [simp]: "side (purge_image c) = side c" "scn_now (purge_image c) = scn_now c"
  by (rule purge_image_eq [of c], simp add: side_def scn_now_def)+

lemma side_next_chunk:
  "side (next_chunk c) = side c" "\<not> RelocationPrepared (next_chunk c)"
  "scn_now (next_chunk c) \<le> scn_now c + 1"
  using wrap32_le [of "SCN (ChunkInfo c (ChunkNo c)) + 1"]
  by (simp_all add: next_chunk_def FindNextChunk_def Let_def side_def scn_now_def)

lemma side_write_data:
  "case write_data L LEN h of Inr h' \<Rightarrow> side (hs_Ctx h') = side (hs_Ctx h) \<and> scn_now (hs_Ctx h') = scn_now (hs_Ctx h)
   | Inl (st, h') \<Rightarrow> side (hs_Ctx h') = side (hs_Ctx h) \<and> scn_now (hs_Ctx h') = scn_now (hs_Ctx h)"
  by (simp add: write_data_def write_hit_def cache_write_def cache_fill_read_def CacheFillReadZero_def advance_def
      ExecutePurgeCache_def ExecuteCacheFillRead_def Let_def)


text \<open>A transfer the write handler has issued: it uses the driver's own buffers.\<close>

definition own_req :: "hs \<Rightarrow> bool" where
  "own_req h \<longleftrightarrow> (\<forall>i. rq_Buffer (last (hs_Issued h)) \<noteq> BufThread i \<and>
     rq_Completion (last (hs_Issued h)) \<noteq> ExecuteReadCompletion i)"

lemma own_req_issuers [simp]:
  "own_req (ExecutePurgeCache h)" "own_req (ExecutePurgeChunk h)" "own_req (PrepareRelocate h)"
  "own_req (ExecuteRelocate h)" "own_req (ExecuteCacheFillRead L n h)"
  by (simp_all add: own_req_def ExecutePurgeCache_def ExecutePurgeChunk_def PrepareRelocate_def
      ExecuteRelocate_def ExecuteCacheFillRead_def Let_def issue_def)

lemma side_issuers [simp]:
  "side (hs_Ctx (ExecutePurgeCache h)) = side (hs_Ctx h)" "scn_now (hs_Ctx (ExecutePurgeCache h)) = scn_now (hs_Ctx h)"
  "side (hs_Ctx (ExecutePurgeChunk h)) = side (hs_Ctx h)" "scn_now (hs_Ctx (ExecutePurgeChunk h)) = scn_now (hs_Ctx h)"
  "side (hs_Ctx (PrepareRelocate h)) = side (hs_Ctx h)" "scn_now (hs_Ctx (PrepareRelocate h)) = scn_now (hs_Ctx h)"
  "side (hs_Ctx (ExecuteRelocate h)) = side (hs_Ctx h)" "scn_now (hs_Ctx (ExecuteRelocate h)) = scn_now (hs_Ctx h)"
  "side (hs_Ctx (ExecuteCacheFillRead L n h)) = side (hs_Ctx h)"
  "scn_now (hs_Ctx (ExecuteCacheFillRead L n h)) = scn_now (hs_Ctx h)"
  by (simp_all add: ExecutePurgeCache_def ExecutePurgeChunk_def PrepareRelocate_def
      ExecuteRelocate_def ExecuteCacheFillRead_def Let_def chunk_image_def bump_wcn_def set_window_def)
     (simp_all add: side_def scn_now_def)

text \<open>What a round does to the flags; it moves the sequence number by one at most.\<close>

definition tame :: "hs \<Rightarrow> outcome \<Rightarrow> bool" where
  "tame h out \<longleftrightarrow> (case out of
     Inr h' \<Rightarrow> side (hs_Ctx h') = side (hs_Ctx h) \<and> scn_now (hs_Ctx h') = scn_now (hs_Ctx h)
   | Inl (st, h') \<Rightarrow> st = STATUS_PENDING \<longrightarrow>
       side (hs_Ctx h') = side (hs_Ctx h) \<and> scn_now (hs_Ctx h') \<le> scn_now (hs_Ctx h) + 1 \<and> own_req h')"

lemma tame_write_data: "tame h (write_data L LEN h)"
  by (simp add: tame_def write_data_def write_hit_def cache_write_def cache_fill_read_def CacheFillReadZero_def advance_def Let_def)

lemma tame_write_relocate: "tame h (write_relocate h)"
  by (simp add: tame_def write_relocate_def Let_def)

lemma tame_write_prepare:
  assumes "alone (hs_Ctx h)" shows "tame h (write_prepare h)"
proof -
  have "write_relocate (upd_ctx next_chunk h) =
      Inl (STATUS_PENDING, PrepareRelocate (IoMarkIrpPending TOther (upd_ctx next_chunk h)))"
    using side_next_chunk(2) by (simp add: write_relocate_def)
  then show ?thesis
    using tame_write_relocate [of h] mark_alone [OF assms] side_next_chunk(1,3) [of "hs_Ctx h"]
    by (simp add: tame_def write_prepare_def)
qed

lemma tame_write_iter:
  assumes a: "alone (hs_Ctx h)" shows "tame h (write_iter h)"
proof -
  have fin: "fst (CompleteNotReadyNoMedia TOther h) \<noteq> STATUS_PENDING" "fst (complete_success TOther h) \<noteq> STATUS_PENDING"
    by (simp_all add: CompleteNotReadyNoMedia_def complete_success_def not_ready_def Let_def split: option.split)
  have t: "tame h (case write_prepare h of Inl r \<Rightarrow> Inl r | Inr h1 \<Rightarrow> write_data L LEN h1)" for L LEN
  proof (cases "write_prepare h")
    case (Inl r)
    then show ?thesis using tame_write_prepare [OF a] by simp
  next
    case (Inr h1)
    then show ?thesis using tame_write_prepare [OF a] tame_write_data [of h1 L LEN]
      by (simp add: tame_def split: sum.splits prod.splits)
  qed
  show ?thesis
    using fin t unfolding write_iter_def Let_def
    by (cases "CompleteNotReadyNoMedia TOther h"; cases "complete_success TOther h") (simp add: tame_def split: sum.splits)
qed

lemma side_cache_purged [simp]: "side (cache_purged c) = side c" "scn_now (cache_purged c) = scn_now c"
proof -
  obtain M I where u: "UpdateMap c (purge_ctl_LBA c) (CachePos c) (phys (ChunkNo c) (PurgePos c)) = c\<lparr>Map := M, ChunkInfo := I\<rparr>"
    unfolding UpdateMap_def using um_loop_form by blast
  have "SCN (I k) = SCN (ChunkInfo c k)" for k
    using um_loop_frame(3) [of "purge_ctl_LBA c" "CachePos c" "phys (ChunkNo c) (PurgePos c) div SIZE_OF_CHUNK" "phys (ChunkNo c) (PurgePos c)" 0 c k]
    unfolding UpdateMap_def [symmetric] u by simp
  then show "side (cache_purged c) = side c" "scn_now (cache_purged c) = scn_now c"
    unfolding cache_purged_def Let_def u by (simp_all add: scn_now_def)
qed

lemma side_prepared [simp]: "side (relocation_prepared c) = side c" "scn_now (relocation_prepared c) = scn_now c"
  by (simp_all add: relocation_prepared_def side_def scn_now_def)

lemma side_set_buf: "(\<And>i. b \<noteq> BufThread i) \<Longrightarrow> side (set_buf b m c) = side c"
  by (cases b) auto

lemma scn_set_buf [simp]: "scn_now (set_buf b m c) = scn_now c"
  by (cases b) (simp_all add: scn_now_def)

lemma side_transfer:
  "(\<And>i. rq_Buffer q \<noteq> BufThread i) \<Longrightarrow> side (snd (transfer q (d, c))) = side c"
  "scn_now (snd (transfer q (d, c))) = scn_now c"
  by (simp_all add: transfer_def side_set_buf split: opc.split)

lemma side_completed:
  assumes "\<And>i. cm \<noteq> ExecuteReadCompletion i"
  shows "side (hs_Ctx (completed cm (ok_result q) h)) = side (hs_Ctx h)"
    "scn_now (hs_Ctx (completed cm (ok_result q) h)) = scn_now (hs_Ctx h)"
  using assms by (cases cm; simp add: fill_completed_def purge_completed_def chunk_completed_def
      prepare_completed_def relocate_completed_def)+

lemma side_served:
  assumes "own_req h"
  shows "side (hs_Ctx (snd (served d h))) = side (hs_Ctx h)" "scn_now (hs_Ctx (snd (served d h))) = scn_now (hs_Ctx h)"
  using assms side_transfer [of "last (hs_Issued h)" d "hs_Ctx h"] side_completed [of "rq_Completion (last (hs_Issued h))"]
  by (simp_all add: served_def own_req_def Let_def case_prod_beta)

lemma handler_mapped: "alone (hs_Ctx h) \<Longrightarrow> ExecuteWriteHandler h = write_loop h"
  by (auto simp: ExecuteWriteHandler_def alone_def Let_def)

lemma code_step_write:
  assumes own: "own_req h" and a: "alone (hs_Ctx h)"
  shows "code_step lower d h =
    (case write_loop (snd (served d h)) of (st, h2) \<Rightarrow> (st \<noteq> STATUS_PENDING, fst (served d h), h2))"
proof -
  let ?q = "last (hs_Issued h)"
  define g where "g = h\<lparr>hs_Ctx := snd (transfer ?q (d, hs_Ctx h))\<rparr>"
  define s where "s = snd (served d h)"
  have s: "s = completed (rq_Completion ?q) (ok_result ?q) g" "fst (served d h) = fst (transfer ?q (d, hs_Ctx h))"
    by (simp_all add: s_def g_def served_def Let_def case_prod_beta)
  have as: "alone (hs_Ctx s)" using alone_side [OF _ a] side_served(1) [OF own] by (simp add: s_def)
  then have nf: "\<not> Flushing (hs_Ctx s)" "\<not> WaitingMarkedThreads (hs_Ctx s)" "ThreadsMarked (hs_Ctx s) = 0"
    "th_DataSystemAddress (OtherThread (hs_Ctx s)) \<noteq> None" by (simp_all add: alone_def)
  have wc: "WriteCompleteHandler lower s = (case write_loop s of (st, h2) \<Rightarrow> (st \<noteq> STATUS_PENDING, h2))"
    using nf(1) by (simp add: WriteCompleteHandler_def handler_mapped [OF as])
  have "run_completion lower (rq_Completion ?q) (ok_result ?q) g = WriteCompleteHandler lower s"
    using own nf unfolding s
    by (cases "rq_Completion ?q") (auto simp: own_req_def WaitMarkedThreadsAndWriteCompleteHandler_def Let_def)
  then show ?thesis
    unfolding code_step_def Let_def wc s_def [symmetric] s(2) g_def
    by (simp add: case_prod_beta)
qed

text \<open>The local rounds the loop makes before it issues a transfer or ends.\<close>

lemma loop_run:
  "write_loop h = (st, h') \<Longrightarrow> write_state M f LBA LEN data ds T d h \<Longrightarrow> alone (hs_Ctx h) \<Longrightarrow> scn_left (hs_Ctx h) \<Longrightarrow>
   \<exists>g T'. write_state M f LBA LEN data ds T' d g \<and> write_iter g = Inl (st, h') \<and> alone (hs_Ctx g) \<and>
     scn_now (hs_Ctx g) = scn_now (hs_Ctx h)"
proof (induction h arbitrary: T rule: write_loop.induct)
  case (1 h)
  show ?case
  proof (cases "write_iter h")
    case (Inl r)
    then have "write_iter h = Inl (st, h')" using "1.prems"(1) by (simp add: write_loop.simps [of h])
    then show ?thesis using "1.prems" by blast
  next
    case (Inr h1)
    have "tame h (write_iter h)" using tame_write_iter "1.prems"(3) .
    then have t: "side (hs_Ctx h1) = side (hs_Ctx h)" "scn_now (hs_Ctx h1) = scn_now (hs_Ctx h)"
      using Inr by (simp_all add: tame_def)
    have "write_step d h = Inr (d, h1)" using Inr by (simp add: write_step_def)
    then obtain T1 where ws: "write_state M f LBA LEN data ds T1 d h1"
      using write_state_step [OF "1.prems"(2,4)] by blast
    have "write_loop h1 = (st, h')" using "1.prems"(1) Inr by (simp add: write_loop.simps [of h])
    moreover have "alone (hs_Ctx h1)" using alone_side [OF t(1) "1.prems"(3)] .
    moreover have "scn_left (hs_Ctx h1)" using "1.prems"(4) t(2) by (simp add: scn_left_def scn_now_def)
    ultimately show ?thesis using "1.IH" [OF Inr] ws t(2) by simp
  qed
qed

inductive code_run :: "lower \<Rightarrow> mem \<Rightarrow> hs \<Rightarrow> nat \<Rightarrow> bool \<Rightarrow> mem \<Rightarrow> hs \<Rightarrow> bool" for lower d0 h0 where
  begin_run: "ExecuteWriteHandler h0 = (st, h) \<Longrightarrow> code_run lower d0 h0 0 (st \<noteq> STATUS_PENDING) d0 h"
| serve: "code_run lower d0 h0 n False d h \<Longrightarrow> code_step lower d h = (fin, d', h') \<Longrightarrow>
    code_run lower d0 h0 (Suc n) fin d' h'"

lemma code_run_state:
  assumes "code_run lower d0 h0 n fin d h" "write_state M f LBA LEN data ds 0 d0 h0" "alone (hs_Ctx h0)"
    "scn_now (hs_Ctx h0) + n < 4294967295"
  shows "\<exists>g T st. write_state M f LBA LEN data ds T d g \<and> write_iter g = Inl (st, h) \<and> fin = (st \<noteq> STATUS_PENDING) \<and>
    alone (hs_Ctx g) \<and> scn_now (hs_Ctx g) \<le> scn_now (hs_Ctx h0) + n"
  using assms
proof (induction rule: code_run.induct)
  case (begin_run st h)
  have "write_loop h0 = (st, h)"
    using begin_run.hyps by (simp add: handler_mapped [OF begin_run.prems(2)])
  moreover have "scn_left (hs_Ctx h0)" using begin_run.prems(3) by (simp add: scn_left_def scn_now_def)
  ultimately show ?case using loop_run begin_run.prems by (metis Nat.add_0_right order_refl)
next
  case (serve n d h fin d' h')
  from serve.IH [OF serve.prems(1,2)] serve.prems(3)
  obtain g T st where g: "write_state M f LBA LEN data ds T d g" "write_iter g = Inl (st, h)" "st = STATUS_PENDING"
    "alone (hs_Ctx g)" "scn_now (hs_Ctx g) \<le> scn_now (hs_Ctx h0) + n" by auto
  have t: "side (hs_Ctx h) = side (hs_Ctx g)" "scn_now (hs_Ctx h) \<le> scn_now (hs_Ctx g) + 1" "own_req h"
    using tame_write_iter [OF g(4)] g(2,3) by (simp_all add: tame_def)
  have ah: "alone (hs_Ctx h)" using alone_side [OF t(1) g(4)] .
  define h1 where "h1 = snd (served d h)"
  have cs: "fin = (fst (write_loop h1) \<noteq> STATUS_PENDING)" "d' = fst (served d h)" "write_loop h1 = (fst (write_loop h1), h')"
    using serve.hyps(2) unfolding code_step_write [OF t(3) ah] h1_def by (auto simp: case_prod_beta prod_eq_iff)
  have sl: "scn_left (hs_Ctx g)" using g(5) serve.prems(3) by (simp add: scn_left_def scn_now_def)
  have "write_step d g = Inr (d', h1)" using g(2,3) cs(2) by (simp add: write_step_def h1_def)
  then obtain T1 where w1: "write_state M f LBA LEN data ds T1 d' h1" using write_state_step [OF g(1) sl] by blast
  have s1: "side (hs_Ctx h1) = side (hs_Ctx g)" "scn_now (hs_Ctx h1) \<le> scn_now (hs_Ctx h0) + Suc n"
    using side_served [OF t(3), of d] t g(5) by (simp_all add: h1_def)
  have a1: "alone (hs_Ctx h1)" using alone_side [OF s1(1) g(4)] .
  have "scn_left (hs_Ctx h1)" using s1(2) serve.prems(3) by (simp add: scn_left_def scn_now_def)
  from loop_run [OF cs(3) w1 a1 this] s1(2) cs(1) show ?case by (metis)
qed

text \<open>The answer to a completed write.\<close>

definition write_answer :: "nat \<Rightarrow> irp \<Rightarrow> irp" where
  "write_answer LEN i = i\<lparr>irp_Srb := good_srb (wrap32 (LEN * 512)) (irp_Srb i),
     irp_Information := wrap32 (LEN * 512), irp_Status := STATUS_SUCCESS\<rparr>"

lemma code_run_end:
  assumes run: "code_run lower d0 h0 n True d h" and ws: "write_state M f LBA LEN data ds 0 d0 h0"
    and a: "alone (hs_Ctx h0)" and scn: "scn_now (hs_Ctx h0) + n < 4294967295"
  shows "ftl_inv d (hs_Ctx h) \<and>
    (\<forall>L. in_dev (hs_Ctx h) L \<longrightarrow> vread d (hs_Ctx h) L = overwritten f LBA LEN data L) \<and>
    th_Irp (OtherThread (hs_Ctx h)) = None \<and>
    (\<exists>is. hs_Done h = ds @ map (write_answer LEN) is)"
proof -
  obtain g T st where g: "write_state M f LBA LEN data ds T d g" "write_iter g = Inl (st, h)" "st \<noteq> STATUS_PENDING"
    "scn_now (hs_Ctx g) \<le> scn_now (hs_Ctx h0) + n"
    using code_run_state [OF run ws a scn] by auto
  have sl: "scn_left (hs_Ctx g)" using g(4) scn by (simp add: scn_left_def scn_now_def)
  have "write_step d g = Inl (st, d, h)" using g(2,3) by (simp add: write_step_def)
  from write_state_end [OF g(1) sl this]
  have T: "T = LEN" and e: "h = snd (complete_success TOther g)" by (auto simp: prod_eq_iff)
  have same: "same_ftl (hs_Ctx g) (hs_Ctx h)" unfolding e by (rule complete_success_same)
  have tr: "th_Transferred (OtherThread (hs_Ctx g)) = LEN" using g(1) T by (simp add: write_state_def job_def)
  have "\<exists>is. hs_Done h = ds @ map (write_answer LEN) is"
  proof (cases "th_Irp (OtherThread (hs_Ctx g))")
    case None
    then show ?thesis using g(1) by (intro exI [of _ "[]"]) (simp add: e complete_success_def complete_irp_def write_state_def Let_def)
  next
    case (Some i)
    then show ?thesis using g(1) tr
      by (intro exI [of _ "[i]"]) (simp add: e complete_success_def complete_irp_def write_state_def Let_def write_answer_def)
  qed
  moreover have "th_Irp (OtherThread (hs_Ctx h)) = None"
    by (cases "th_Irp (OtherThread (hs_Ctx g))") (simp_all add: e complete_success_def complete_irp_def Let_def)
  moreover have "ftl_inv d (hs_Ctx h)" using g(1) ftl_inv_same [OF same] by (simp add: write_state_def)
  moreover have "\<forall>L. in_dev (hs_Ctx h) L \<longrightarrow> vread d (hs_Ctx h) L = overwritten f LBA LEN data L"
    using g(1) vread_same [OF same] same T by (simp add: write_state_def in_dev_def same_ftl_def)
  ultimately show ?thesis by blast
qed

end
