(* ===== verification/Device.thy ===== *)
theory Device
  imports FtlWrite
begin

text \<open>
  The promises of the write side as properties, with a small device on which they are applied,
  and what a flush makes of a write that only hits the cache.
\<close>

section \<open>A small device\<close>

text \<open>
  Sixteen blocks on ten chunks, one cache in the current chunk already used up but no block mapped, and
  a request to write one sector at 1:
  the state the witnesses and the counterexamples start from.
\<close>

definition demo_irp :: irp where
  "demo_irp = \<lparr>irp_id = 1, irp_Major = IRP_MJ_SCSI, irp_Minor = IRP_MN_OTHER 0,
     irp_Srb = \<lparr>srb_Function = SRB_FUNCTION_EXECUTE_SCSI, srb_op = SCSIOP_WRITE, srb_Cdb = (\<lambda>_. 0),
       srb_DataIn = False, srb_DataOut = True, srb_DataBuffer = 0, srb_DataTransferLength = 512,
       srb_SrbStatus = SRB_STATUS_PENDING, srb_Autosense = False, srb_ScsiStatus = SCSISTAT_GOOD,
       srb_SenseInfoBufferLength = 18, srb_SenseInfoBuffer = (\<lambda>_. 0)\<rparr>,
     irp_Mdl = None, irp_Status = STATUS_PENDING, irp_Information = 0, irp_Pending = False\<rparr>"

definition demo_thread :: thread where
  "demo_thread = zero_thread\<lparr>th_Irp := Some demo_irp, th_DataSystemAddress := Some 0,
     th_Data := (\<lambda>_ _. 7), th_LBA := 1, th_LEN := 1\<rparr>"

definition demo_ctx :: ctx where
  "demo_ctx = zero_ctx\<lparr>SIZE_OF_MAP := 16, MAX_CHUNKS := 10, Map := (\<lambda>_. NOT_MAPPED), ChunkNo := 1,
     PurgePos := SIZE_OF_CACHE, NextChunkNo := 2, RelocationPrepared := True, RelocationDone := True, RelocateTarget := 32704,
     OtherThread := demo_thread\<rparr>"

definition demo :: hs where
  "demo = \<lparr>hs_Mode = VLTL_MODE_ACTIVE, hs_Ctx = demo_ctx, hs_Issued = [], hs_Done = []\<rparr>"

definition blank :: mem where "blank = (\<lambda>_. zero_sector)"

lemma demo_inv: "ftl_inv blank (hs_Ctx demo)"
proof -
  have u: "used_set demo_ctx ch = {}" for ch by (simp add: used_set_def demo_ctx_def)
  have n: "to_move demo_ctx = {}" by (simp add: to_move_def u)
  have "pace demo_ctx" unfolding pace_def n u by (simp add: demo_ctx_def zero_ctx_def room_def)
  moreover have "window_ok blank demo_ctx" unfolding window_ok_def u
    by (simp add: demo_ctx_def zero_ctx_def off8_def ctl_on_def blank_def zero_sector_def)
  moreover have "used_ok demo_ctx" unfolding used_ok_def u by (simp add: demo_ctx_def zero_ctx_def)
  ultimately show ?thesis
    unfolding ftl_inv_def geom_def cache_wf_def map_ok_def dir_ok_def final_ok_def newest_def
    by (simp add: demo_def) (simp add: demo_ctx_def zero_ctx_def)
qed

lemma demo_facts:
  "hs_Mode demo = VLTL_MODE_ACTIVE" "alone (hs_Ctx demo)" "scn_now (hs_Ctx demo) = 0" "hs_Done demo = []"
  "job (hs_Ctx demo) = (1, 1, 0, \<lambda>_ _. 7)" "SIZE_OF_MAP (hs_Ctx demo) = 16" "CacheDirty (hs_Ctx demo) = False"
  by (simp_all add: demo_def demo_ctx_def zero_ctx_def demo_thread_def zero_thread_def alone_def scn_now_def job_def)

text \<open>
  The write, evaluated: the block is filled with zeros, then the sector is written over it, and
  the request is completed without any transfer.
\<close>

lemma empty_GetCachedPos: "CachePos c = 0 \<Longrightarrow> GetCachedPos c L = NOT_MAPPED"
  by (simp add: GetCachedPos_def gcp_loop.simps)

definition demo_filled :: hs where
  "demo_filled = upd_ctx (CacheFillReadZero 0 8) demo"

lemma demo_round1: "write_iter demo = Inr demo_filled"
proof -
  have "write_data 1 1 demo = Inr demo_filled"
    by (simp add: write_data_def demo_filled_def demo_def empty_GetCachedPos demo_ctx_def zero_ctx_def
        cache_fill_read_def off8_def base8_def)
  then show ?thesis
    by (simp add: write_iter_def Let_def write_prepare_def write_relocate_def demo_def demo_ctx_def zero_ctx_def
        demo_thread_def zero_thread_def)
qed

definition demo_hit :: hs where
  "demo_hit = write_hit 1 1 1 demo_filled"

lemma filled_pos: "GetCachedPos (hs_Ctx demo_filled) 1 = 1"
  by (simp add: GetCachedPos_def gcp_loop.simps demo_filled_def CacheFillReadZero_def demo_def demo_ctx_def zero_ctx_def
      put_lba_def base8_def off8_def)

lemma demo_round2: "write_iter demo_filled = Inr demo_hit"
proof -
  have "write_data 1 1 demo_filled = Inr demo_hit"
    by (simp add: write_data_def filled_pos [simplified] demo_hit_def Let_def)
  then show ?thesis
    by (simp add: write_iter_def Let_def write_prepare_def write_relocate_def demo_filled_def CacheFillReadZero_def
        demo_def demo_ctx_def zero_ctx_def demo_thread_def zero_thread_def)
qed

lemma hit_len_1: "cache_hit_len c p L 1 = 1"
  by (simp add: cache_hit_len_def for_len.simps)

lemma demo_round3: "write_iter demo_hit = Inl (complete_success TOther demo_hit)"
  by (simp add: write_iter_def Let_def demo_hit_def write_hit_def hit_len_1 [simplified] advance_def demo_filled_def
      CacheFillReadZero_def demo_def demo_ctx_def zero_ctx_def demo_thread_def zero_thread_def)

lemma demo_write: "ExecuteWriteHandler demo = complete_success TOther demo_hit"
  unfolding handler_mapped [OF demo_facts(2)]
  by (simp add: write_loop.simps [of demo] demo_round1 write_loop.simps [of demo_filled] demo_round2
      write_loop.simps [of demo_hit] demo_round3)

lemma demo_run: "code_run lower blank demo 0 True blank (snd (complete_success TOther demo_hit))"
  using code_run.begin_run [of demo "fst (complete_success TOther demo_hit)" "snd (complete_success TOther demo_hit)" lower blank]
  by (simp add: demo_write) (simp add: complete_success_def Let_def)

section \<open>Properties\<close>

text \<open>
  C3. A write request does what a disk does. From a state in which the driver's tables are
  consistent, running \<open>ExecuteWriteHandler\<close> and the completion routines of the transfers it
  issues until the request ends leaves the tables consistent; every sector of the request then
  reads as the data written and every other sector reads as before, wherever cache fills, cache
  and directory writes, chunk switches and relocation have moved the blocks; the \<open>IRP\<close> is
  completed with success and the full length. The bound on \<open>n\<close> keeps the 32-bit sequence number
  of the chunks from wrapping.
\<close>

theorem write_request_correct:
  assumes "ftl_inv d0 (hs_Ctx h0)" "hs_Mode h0 = VLTL_MODE_ACTIVE" "alone (hs_Ctx h0)"
    and t: "t = OtherThread (hs_Ctx h0)" "th_Transferred t = 0" "th_LBA t + th_LEN t \<le> 8 * SIZE_OF_MAP (hs_Ctx h0)"
    and "scn_now (hs_Ctx h0) + n < 4294967295"
    and run: "code_run lower d0 h0 n True d h"
  shows "ftl_inv d (hs_Ctx h) \<and>
    (\<forall>L. in_dev (hs_Ctx h) L \<longrightarrow> vread d (hs_Ctx h) L =
       (if th_LBA t \<le> L \<and> L < th_LBA t + th_LEN t then th_Data t (L - th_LBA t) else vread d0 (hs_Ctx h0) L)) \<and>
    th_Irp (OtherThread (hs_Ctx h)) = None \<and>
    (\<exists>is. hs_Done h = hs_Done h0 @ map (write_answer (th_LEN t)) is)"
proof -
  have "write_state None (vread d0 (hs_Ctx h0)) (th_LBA t) (th_LEN t) (th_Data t) (hs_Done h0) 0 d0 h0"
    using assms by (auto simp: write_state_def job_def overwritten_def)
  from code_run_end [OF run this assms(3,7)] show ?thesis by (simp add: overwritten_def)
qed

theorem write_request_correct_witness:
  "vread blank (hs_Ctx (snd (complete_success TOther demo_hit))) 1 = (\<lambda>_. 7)"
proof -
  let ?h = "snd (complete_success TOther demo_hit)"
  have t: "demo_thread = OtherThread (hs_Ctx demo)" by (simp add: demo_def demo_ctx_def)
  have w: "\<forall>L. in_dev (hs_Ctx ?h) L \<longrightarrow> vread blank (hs_Ctx ?h) L =
       (if th_LBA demo_thread \<le> L \<and> L < th_LBA demo_thread + th_LEN demo_thread
        then th_Data demo_thread (L - th_LBA demo_thread) else vread blank (hs_Ctx demo) L)"
    using write_request_correct [OF demo_inv demo_facts(1,2) t _ _ _ demo_run] demo_facts by (simp add: demo_thread_def zero_thread_def)
  have "in_dev (hs_Ctx ?h) 1"
    using complete_success_same [of demo_hit TOther]
    by (simp add: in_dev_def same_ftl_def demo_hit_def write_hit_def advance_def Let_def demo_filled_def
        CacheFillReadZero_def demo_facts)
  then show ?thesis using w by (simp add: demo_thread_def zero_thread_def)
qed


definition full_ctx :: ctx where
  "full_ctx = demo_ctx\<lparr>PurgePos := LAST_PURGE_POS, RelocationDone := False\<rparr>"

lemma full_inv: "ftl_inv blank full_ctx"
proof -
  have u: "used_set full_ctx ch = {}" for ch by (simp add: used_set_def full_ctx_def demo_ctx_def)
  have "pace full_ctx" unfolding pace_def u moving_def
    by (simp add: full_ctx_def demo_ctx_def zero_ctx_def off8_def)
  moreover have "window_ok blank full_ctx" unfolding window_ok_def u
    by (simp add: full_ctx_def demo_ctx_def zero_ctx_def off8_def ctl_on_def blank_def zero_sector_def)
  moreover have "used_ok full_ctx" unfolding used_ok_def u by (simp add: full_ctx_def demo_ctx_def zero_ctx_def)
  ultimately show ?thesis
    unfolding ftl_inv_def geom_def cache_wf_def map_ok_def dir_ok_def final_ok_def newest_def
    by (simp add: full_ctx_def demo_ctx_def zero_ctx_def)
qed




definition shutdown_irp :: irp where
  "shutdown_irp = demo_irp\<lparr>irp_Major := IRP_MJ_SHUTDOWN\<rparr>"

definition shutdown_hs :: hs where
  "shutdown_hs = upd_thread TOther (\<lambda>t. t\<lparr>th_Irp := Some shutdown_irp\<rparr>) (snd (complete_success TOther demo_hit))"


end
