(* ===== verification/WriteEnds.thy ===== *)
theory WriteEnds
  imports Device
begin

text \<open>
  A write request ends. Relocation, cache writes and chunk switches can hold a request up, but not
  for ever: the driver chooses a next chunk with less than 90 per cent of the room of the current one
  in use, so that relocation catches up with its schedule after at most twelve cache writes that carry
  nothing of the request. The measure counts those, and the transfers between two of them.
\<close>

section \<open>The pace that lets requests through\<close>

text \<open>
  \<open>brisk\<close> is what \<open>FindNextChunk\<close> establishes with \<open>RELOCATION_LIMIT_PERCENTAGE\<close>. The cache is dirty only
  when relocation is up to its schedule, so that it can be written at any time.
\<close>

definition brisk :: "ctx \<Rightarrow> bool" where
  "brisk c \<longleftrightarrow>
     (if RelocationPrepared c then 64 * RelocateSource c \<le> 58 * RelocateTarget c
      else 64 * card (used_set c (NextChunkNo c)) \<le> 58 * room c) \<and>
     (\<not> RelocationDone c \<longrightarrow> CachePos c < LAST_CACHE_POS) \<and>
     (CacheDirty c \<longrightarrow> RelocationPrepared c \<and> RelocationDone c) \<and>
     (RelocationPrepared c \<longrightarrow> RelocateTarget c * card (used_set c (NextChunkNo c)) \<le> RelocateSource c * room c)"

text \<open>How far relocation is ahead of its schedule.\<close>

definition slack :: "ctx \<Rightarrow> nat" where
  "slack c = (if RelocationDone c then RelocateSource c * (room c - 64) - RelocateTarget c * card (to_move c)
     else if RelocationPrepared c
     then RelocateSource c * room c - RelocateTarget c * card (used_set c (NextChunkNo c)) else 0)"

text \<open>Cache writes that relocation alone can fill, and those the current chunk has room for.\<close>

definition lag :: "ctx \<Rightarrow> nat" where
  "lag c = (if RelocationPrepared c then (63 * RelocateTarget c - slack c) div (5 * RelocateTarget c) else 12)"

definition left :: "ctx \<Rightarrow> nat" where
  "left c = (if RelocationDone c then room c - 64 else room c) div 64"

definition turns :: "ctx \<Rightarrow> nat" where
  "turns c = (if lag c < left c then lag c else 100 + left c)"

text \<open>The next sectors of the request can go into the cache.\<close>

definition ready_for :: "nat \<Rightarrow> ctx \<Rightarrow> bool" where
  "ready_for L c \<longleftrightarrow> RelocationDone c \<and>
     (cached c L \<or> (CachePos c < LAST_CACHE_POS \<and> (off8 (CachePos c) \<noteq> 0 \<longrightarrow> CacheLBA c (CachePos c - 1) + 1 = L)))"

definition stage :: "ctx \<Rightarrow> nat" where
  "stage c =
     (if RelocationDone c then if off8 (CachePos c) \<noteq> 0 then 600004 else 600003
      else if LAST_PURGE_POS \<le> PurgePos c then if FinalizedPos c < LAST_PURGE_POS then 600002 else 600001
      else if \<not> RelocationPrepared c then 600000
      else 2 * (LAST_PURGE_POS - RelocatePos c) +
        (if RelocateWindowStart c \<le> RelocatePos c \<and> RelocatePos c < RelocateWindowEnd c then 0 else 1))"

definition rank :: "nat \<Rightarrow> ctx \<Rightarrow> nat" where
  "rank L c =
     (if ready_for L c then if \<not> cached c L \<and> off8 (CachePos c) = 0 \<and> off8 L \<noteq> 0 then 1 else 0
      else 2 + (turns c * 600010 + stage c))"

text \<open>One step nearer to the next sectors of the request; \<open>TIGHT\<close>: the chunk may have to be switched before.\<close>

definition TIGHT :: nat where "TIGHT = 60001000"

definition calmer :: "nat \<Rightarrow> ctx \<Rightarrow> ctx \<Rightarrow> bool" where
  "calmer L c c' \<longleftrightarrow> brisk c' \<and> rank L c' < rank L c \<and>
     (scn_now c' = scn_now c \<or> (scn_now c' \<le> scn_now c + 1 \<and> rank L c' < TIGHT \<and> TIGHT \<le> rank L c))"

lemma room_same: "PurgePos c' = PurgePos c \<Longrightarrow> room c' = room c"
  by (simp add: room_def)

lemma to_move_same:
  "SIZE_OF_MAP c' = SIZE_OF_MAP c \<Longrightarrow> Map c' = Map c \<Longrightarrow> NextChunkNo c' = NextChunkNo c \<Longrightarrow>
   CachePos c' = CachePos c \<Longrightarrow> CacheLBA c' = CacheLBA c \<Longrightarrow> to_move c' = to_move c"
  by (simp add: to_move_def used_set_def cached_def)

lemma same_rank:
  assumes "same_ftl c c'"
  shows "rank L c' = rank L c" "brisk c' = brisk c" "scn_now c' = scn_now c"
proof -
  have s: "used_set c' ch = used_set c ch" "cached c' X = cached c X" "to_move c' = to_move c" "room c' = room c" for ch X
    using assms by (simp_all add: same_ftl_def used_set_def cached_def to_move_def room_def)
  show "brisk c' = brisk c" "scn_now c' = scn_now c"
    using assms unfolding brisk_def s scn_now_def by (simp_all add: same_ftl_def)
  have "slack c' = slack c" using assms unfolding slack_def s by (simp add: same_ftl_def)
  then have "turns c' = turns c" using assms unfolding turns_def lag_def left_def s by (simp add: same_ftl_def)
  moreover have "stage c' = stage c" "ready_for L c' = ready_for L c"
    using assms unfolding stage_def ready_for_def s by (simp_all add: same_ftl_def)
  ultimately show "rank L c' = rank L c" using assms unfolding rank_def s by (simp add: same_ftl_def)
qed

lemma calmer_same1: "same_ftl c e \<Longrightarrow> calmer L e c' \<Longrightarrow> calmer L c c'"
  by (simp add: calmer_def same_rank)

lemma calmer_trans: "calmer L a b \<Longrightarrow> calmer L b c \<Longrightarrow> scn_now b = scn_now a \<Longrightarrow> calmer L a c"
  by (auto simp: calmer_def)

text \<open>In most steps the sequence number stays and the state is not yet ready.\<close>

lemma rank_ready: "ready_for L c \<Longrightarrow> rank L c \<le> 1"
  by (simp add: rank_def)

lemma calmer_ready: "brisk c' \<Longrightarrow> scn_now c' = scn_now c \<Longrightarrow> \<not> ready_for L c \<Longrightarrow> ready_for L c' \<Longrightarrow> calmer L c c'"
  by (simp add: calmer_def rank_def)

lemma calmer_stage:
  "brisk c' \<Longrightarrow> scn_now c' = scn_now c \<Longrightarrow> \<not> ready_for L c \<Longrightarrow> turns c' \<le> turns c \<Longrightarrow> stage c' < stage c \<Longrightarrow> calmer L c c'"
  using mult_le_mono1 [of "turns c'" "turns c" 600010] by (simp add: calmer_def rank_def)

lemma stage_bound: "stage c \<le> 600004"
  by (auto simp: stage_def)

lemma stage_undone: "\<not> RelocationDone c \<Longrightarrow> stage c \<le> 600002"
  by (auto simp: stage_def)

lemma calmer_turns:
  assumes "brisk c'" "scn_now c' = scn_now c" "\<not> ready_for L c" "turns c' < turns c"
  shows "calmer L c c'"
proof -
  have "(turns c' + 1) * 600010 \<le> turns c * 600010" using assms(4) by (intro mult_le_mono1) simp
  then have "turns c' * 600010 + stage c' < turns c * 600010 + stage c" using stage_bound [of c'] by simp
  then show ?thesis using assms by (simp add: calmer_def rank_def)
qed

text \<open>The room left is enough for the next chunk, with relocation prepared or not.\<close>

lemma brisk_next:
  assumes "brisk c" "RelocationPrepared c \<Longrightarrow> 0 < RelocateTarget c"
  shows "64 * card (used_set c (NextChunkNo c)) \<le> 58 * room c"
proof (cases "RelocationPrepared c")
  case True
  let ?n = "card (used_set c (NextChunkNo c))"
  have t: "RelocateTarget c * ?n \<le> RelocateSource c * room c" "64 * RelocateSource c \<le> 58 * RelocateTarget c"
    using assms(1) True by (simp_all add: brisk_def)
  have "RelocateTarget c * (64 * ?n) \<le> 64 * RelocateSource c * room c" using t(1) by simp
  also have "\<dots> \<le> 58 * RelocateTarget c * room c" using t(2) by (rule mult_le_mono1)
  finally have "RelocateTarget c * (64 * ?n) \<le> RelocateTarget c * (58 * room c)" by (simp only: mult_ac)
  then show ?thesis using assms(2) True by simp
qed (use assms(1) in \<open>simp add: brisk_def\<close>)

lemma purge_brisk:
  assumes A: "can_purge d c d' c'" and b: "brisk c" and ready: "RelocationPrepared c" "RelocationDone c"
  shows "brisk c'"
proof -
  note E = purge_effectD [OF can_purgeD(4) [OF A]]
  have "card (used_set c' (NextChunkNo c)) \<le> card (to_move c)"
    using purge_used_next [OF A] by (intro card_mono) (simp_all add: to_move_def)
  then have "RelocateTarget c * card (used_set c' (NextChunkNo c)) \<le> RelocateTarget c * card (to_move c)" by (rule mult_le_mono2)
  also have "\<dots> \<le> RelocateSource c * (room c - 64)"
    using ftl_invD(8) [OF can_purgeD(1) [OF A]] ready by (simp add: pace_def)
  also have "room c - 64 = room c'" using E(8) by (simp add: room_def)
  finally have "RelocateTarget c * card (used_set c' (NextChunkNo c)) \<le> RelocateSource c * room c'" .
  then show ?thesis using b E ready by (simp add: brisk_def)
qed

section \<open>Arithmetic of the schedule\<close>

lemma lag_mono:
  fixes T D D' :: nat
  shows "D \<le> D' \<Longrightarrow> (63 * T - D') div (5 * T) \<le> (63 * T - D) div (5 * T)"
  by (intro div_le_mono) simp

lemma lag_12: "0 < T \<Longrightarrow> (63 * T - D) div (5 * T) \<le> (12 :: nat)"
  using lag_mono [of 0 D T] div_mult_mult2 [of T 63 5] by (simp add: mult.commute)

lemma lag_drop:
  fixes T D D' :: nat
  assumes "0 < T" "D + 5 * T \<le> D'" "D < 58 * T"
  shows "(63 * T - D') div (5 * T) < (63 * T - D) div (5 * T)"
proof -
  let ?x = "63 * T - D"
  have x: "5 * T \<le> ?x" using assms(3) by simp
  have "(63 * T - D') div (5 * T) \<le> (?x - 5 * T) div (5 * T)" using assms(2) by (intro div_le_mono) simp
  also have "\<dots> < ?x div (5 * T)"
  proof -
    have "?x div (5 * T) = Suc ((?x - 5 * T) div (5 * T))" using x assms(1) by (intro le_div_geq) simp_all
    then show ?thesis by simp
  qed
  finally show ?thesis .
qed

lemma turns_mono:
  assumes "lag c' \<le> lag c" "left c' = left c"
  shows "turns c' \<le> turns c"
  using assms by (auto simp: turns_def)

lemma turns_drop:
  assumes "lag c' < lag c" "lag c \<le> 12" "left c' + 1 = left c"
  shows "turns c' < turns c"
  using assms by (auto simp: turns_def)

section \<open>Writing the cache and filling it\<close>

lemma purge_calmer:
  assumes inv: "ftl_inv d c" and b: "brisk c" and ready: "RelocationPrepared c" "RelocationDone c"
    and full: "off8 (CachePos c) = 0" and nr: "\<not> ready_for L c"
  shows "calmer L c (snd (purge_served d c))"
proof -
  let ?c = "snd (purge_served d c)"
  note i = ftl_invD [OF inv]
  have "64 \<le> room c" using i(8) ready by (simp add: pace_def)
  then have fit: "PurgePos c + SIZE_OF_CACHE \<le> LAST_PURGE_POS" by (simp add: room_def)
  have eff: "purge_effect d c (fst (purge_served d c)) ?c"
    using purge_served_effect [OF i(1,2,3,4,7) full fit] .
  then have A: "can_purge d c (fst (purge_served d c)) ?c"
    using inv full fit by (simp only: can_purge_def)
  note E = purge_effectD [OF eff]
  have r: "room ?c = room c - 64" using E(8) by (simp add: room_def)
  have "card (used_set ?c (NextChunkNo c)) \<le> card (to_move c)"
    using purge_used_next [OF A] by (intro card_mono) (simp_all add: to_move_def)
  then have "RelocateTarget c * card (used_set ?c (NextChunkNo c)) \<le> RelocateTarget c * card (to_move c)" by (rule mult_le_mono2)
  moreover have "slack c = RelocateSource c * (room c - 64) - RelocateTarget c * card (to_move c)"
    "slack ?c = RelocateSource c * (room c - 64) - RelocateTarget c * card (used_set ?c (NextChunkNo c))"
    using E ready by (simp_all add: slack_def r)
  ultimately have "slack c \<le> slack ?c" by (simp only: diff_le_mono2)
  then have "lag ?c \<le> lag c" using E ready lag_mono unfolding lag_def by simp
  moreover have "left ?c = left c" using E ready by (simp add: left_def r)
  ultimately have "turns ?c \<le> turns c" by (rule turns_mono)
  moreover have "stage ?c < stage c" using stage_undone [OF E(17)] ready full by (simp add: stage_def)
  moreover have "brisk ?c" by (rule purge_brisk [OF A b ready])
  moreover have "scn_now ?c = scn_now c" using E by (simp add: scn_now_def)
  ultimately show ?thesis using nr by (intro calmer_stage)
qed

lemma extended_slack:
  assumes "ftl_inv d c" "can_extend c N n" "RelocationDone c" "RelocationPrepared c"
  shows "turns (extended c N n m) \<le> turns c"
proof -
  let ?c = "extended c N n m"
  note i = ftl_invD [OF assms(1)]
  have "\<And>L. cached c L \<Longrightarrow> cached ?c L" using extended_wf [OF i(2) assms(2) i(1)] by auto
  then have "to_move ?c \<subseteq> to_move c" by (auto simp: to_move_def)
  then have "card (to_move ?c) \<le> card (to_move c)" by (rule card_mono [rotated]) (simp add: to_move_def)
  then have "RelocateTarget c * card (to_move ?c) \<le> RelocateTarget c * card (to_move c)" by (rule mult_le_mono2)
  moreover have "slack c = RelocateSource c * (room c - 64) - RelocateTarget c * card (to_move c)"
    "slack ?c = RelocateSource c * (room c - 64) - RelocateTarget c * card (to_move ?c)"
    using assms(3) by (simp_all add: slack_def room_def)
  ultimately have "slack c \<le> slack ?c" by (simp only: diff_le_mono2)
  then have "lag ?c \<le> lag c" using assms(4) lag_mono unfolding lag_def by simp
  moreover have "left ?c = left c" by (simp add: left_def room_def)
  ultimately show ?thesis by (rule turns_mono)
qed

lemma tail_calmer:
  assumes inv: "ftl_inv d c" and b: "brisk c" and ready: "RelocationPrepared c" "RelocationDone c"
    and ext: "can_extend c N n" and al: "off8 (CachePos c) \<noteq> 0" "off8 (CachePos c + n) = 0" and nr: "\<not> ready_for L c"
  shows "calmer L c (extended c N n m)"
proof (rule calmer_stage)
  show "stage (extended c N n m) < stage c" using ready al by (simp add: stage_def)
  show "turns (extended c N n m) \<le> turns c" using extended_slack [OF inv ext ready(2,1)] .
qed (use b ready nr in \<open>simp_all add: brisk_def room_def\<close>)

lemma head_calmer:
  assumes inv: "ftl_inv d c" and b: "brisk c" and ready: "RelocationPrepared c" "RelocationDone c"
    and ext: "can_extend c (base8 L) n" and al: "off8 (CachePos c) = 0" "CachePos c < LAST_CACHE_POS"
    and L: "\<not> cached c L" "off8 L \<noteq> 0" and n: "n = 8 \<or> n = off8 L" and small: "L < 4294967296"
  shows "calmer L c (extended c (base8 L) n m)"
proof -
  let ?c = "extended c (base8 L) n m"
  note i = ftl_invD [OF inv]
  have r1: "rank L c = 1" using ready al L by (simp add: rank_def ready_for_def)
  have "rank L ?c = 0"
  proof (cases "n = 8")
    case True
    have "base8 L \<le> L \<and> L < base8 L + 8" using lba_split [of L] off8_less [of L] by (simp add: base8_blk del: off8_less)
    then have "cached ?c L" using extended_wf(2) [OF i(2) ext i(1)] True by simp
    then show ?thesis using ready by (simp add: rank_def ready_for_def)
  next
    case False
    with n have n: "n = off8 L" by simp
    have o: "off8 (CachePos c + n) = n" using al(1) n by (simp add: off8_def mod_add_left_eq [symmetric])
    have lt: "CachePos c + n < LAST_CACHE_POS" using al n by (intro block_below) (simp_all add: off8_def)
    have "put_lba (CacheLBA c) (CachePos c) (base8 L) n (CachePos c + n - 1) = base8 L + (n - 1)"
      using L(2) n small lba_split [of L] by (subst put_lba_in) (simp_all add: base8_blk)
    then have "CacheLBA ?c (CachePos ?c - 1) + 1 = L" using L(2) n lba_split [of L] by (simp add: base8_blk)
    then show ?thesis using ready lt o L(2) n by (simp add: rank_def ready_for_def)
  qed
  then show ?thesis using r1 b ready by (simp add: calmer_def brisk_def room_def)
qed

section \<open>Preparing the relocation\<close>

lemma not_ready: "\<not> RelocationDone c \<Longrightarrow> \<not> ready_for L c"
  by (simp add: ready_for_def)

lemma chunk_calmer:
  assumes inv: "ftl_inv d c" and b: "brisk c" and full: "LAST_PURGE_POS \<le> PurgePos c" "FinalizedPos c < LAST_PURGE_POS"
  shows "calmer L c (snd (chunk_served d c))"
proof -
  obtain I ctl where ci: "chunk_image c = c\<lparr>ChunkInfo := I, ChunkCtl := ctl, CacheMem := mem_of_ctl ctl (CacheMem c)\<rparr>"
    and I: "\<And>k. SCN (I k) = SCN (ChunkInfo c k)" by (rule chunk_image_form [of c]) (rule that)
  let ?c = "snd (chunk_served d c)"
  have e: "?c = c\<lparr>ChunkInfo := I, ChunkCtl := ctl, CacheMem := mem_of_ctl ctl (CacheMem c), FinalizedPos := PurgePos c\<rparr>"
    by (simp add: chunk_served_def ci)
  have s: "used_set ?c ch = used_set c ch" "to_move ?c = to_move c" "room ?c = room c" for ch
    unfolding e by (simp_all add: used_set_def to_move_def cached_def room_def)
  note nd = pace_full(3) [OF inv full(1)]
  show ?thesis
  proof (rule calmer_stage)
    show "brisk ?c" using b unfolding brisk_def s by (simp add: e)
    have "slack ?c = slack c" unfolding slack_def s by (simp add: e)
    then have "lag ?c = lag c" "left ?c = left c" unfolding lag_def left_def s by (simp_all add: e)
    then show "turns ?c \<le> turns c" by (simp add: turns_def)
    show "stage ?c < stage c" using nd full by (simp add: stage_def e)
    show "scn_now ?c = scn_now c" using I by (simp add: scn_now_def e)
  qed (use nd in \<open>simp add: not_ready\<close>)
qed

lemma prepare_form:
  assumes "PurgePos c < LAST_PURGE_POS"
  obtains m X where "prepare_served d c = c\<lparr>CacheMem := m, NextChunkCtl := X, RelocateTarget := room c,
       RelocateSource := Used (ChunkInfo c (NextChunkNo c)),
       RelocateWindowStart := 0, RelocateWindowEnd := 0, RelocatePos := 0, RelocationPrepared := True\<rparr>"
  using assms by (simp add: prepare_served_def relocation_prepared_def room_def)

text \<open>A relocation that has just been prepared is neither ahead nor behind.\<close>

lemma prepared_turns:
  assumes inv: "ftl_inv d c" and np: "\<not> RelocationPrepared c" and space: "PurgePos c < LAST_PURGE_POS" and b: "brisk c"
  shows "lag (prepare_served d c) \<le> 12" "left (prepare_served d c) = left c" "brisk (prepare_served d c)"
    "scn_now (prepare_served d c) = scn_now c" "stage (prepare_served d c) < 600000" "\<not> RelocationDone (prepare_served d c)"
proof -
  obtain m X where e: "prepare_served d c = c\<lparr>CacheMem := m, NextChunkCtl := X, RelocateTarget := room c,
       RelocateSource := Used (ChunkInfo c (NextChunkNo c)),
       RelocateWindowStart := 0, RelocateWindowEnd := 0, RelocatePos := 0, RelocationPrepared := True\<rparr>"
    by (rule prepare_form [OF space])
  note i = ftl_invD [OF inv]
  have nd: "\<not> RelocationDone c" using i(8) np by (simp add: pace_def)
  have U: "Used (ChunkInfo c (NextChunkNo c)) = card (used_set c (NextChunkNo c))"
    using i(1,4) by (simp add: used_ok_def geom_def)
  have "0 < room c" using room_64(1) [OF i(1) space] by simp
  then show "lag (prepare_served d c) \<le> 12" unfolding lag_def e by (simp add: lag_12)
  show "left (prepare_served d c) = left c" "scn_now (prepare_served d c) = scn_now c"
    "stage (prepare_served d c) < 600000" "\<not> RelocationDone (prepare_served d c)"
    using nd space by (simp_all add: e left_def room_def scn_now_def stage_def)
  show "brisk (prepare_served d c)" using b np nd U by (simp add: brisk_def e room_def used_set_def)
qed

lemma prepare_calmer:
  assumes inv: "ftl_inv d c" and np: "\<not> RelocationPrepared c" and space: "PurgePos c < LAST_PURGE_POS" and b: "brisk c"
  shows "calmer L c (prepare_served d c)"
proof -
  note p = prepared_turns [OF inv np space b]
  have nd: "\<not> RelocationDone c" using ftl_invD(8) [OF inv] np by (simp add: pace_def)
  have "lag (prepare_served d c) \<le> lag c" using p(1) np by (simp add: lag_def)
  then have "turns (prepare_served d c) \<le> turns c" using p(2) by (rule turns_mono)
  moreover have "stage c = 600000" using nd np space by (simp add: stage_def)
  ultimately show ?thesis using p nd by (intro calmer_stage) (simp_all add: not_ready)
qed

section \<open>The switch of chunks\<close>

lemma under_limit_brisk:
  assumes "under_limit c i" "used_ok c" "i < MAX_CHUNKS c" "SIZE_OF_MAP c \<le> 13107200" "PurgePos c \<le> LAST_PURGE_POS"
  shows "64 * card (used_set c i) \<le> 58 * room c"
proof -
  have u: "Used (ChunkInfo c i) = card (used_set c i)" using assms(2,3) by (simp add: used_ok_def)
  have "card (used_set c i) \<le> 13107200" using card_used_set_le [of c i] assms(4) by simp
  then have w: "wrap32 (Used (ChunkInfo c i) * 100) = card (used_set c i) * 100" by (simp add: u)
  have s: "sub32 LAST_PURGE_POS (PurgePos c) div 8 = room c" using assms(5) by (simp add: room_def)
  have "room c \<le> 32704" by (simp add: room_def)
  then have "wrap32 (room c * RELOCATION_LIMIT_PERCENTAGE) = room c * 90" by simp
  then have "card (used_set c i) * 100 < room c * 90"
    using assms(1) unfolding under_limit_def s w by simp
  then show ?thesis by simp
qed

lemma next_chunk_brisk:
  assumes inv: "ftl_inv d c" and b: "brisk c" and full: "LAST_PURGE_POS \<le> PurgePos c"
  shows "brisk (next_chunk c)" "510 \<le> left (next_chunk c)"
proof -
  note inv' = ftl_invD [OF inv] and pf = pace_full [OF inv full]
  let ?n = "NextChunkNo c"
  define c1 where "c1 = c\<lparr>ChunkInfo := (ChunkInfo c)
             (?n := (ChunkInfo c ?n)\<lparr>SCN := wrap32 (SCN (ChunkInfo c (ChunkNo c)) + 1)\<rparr>),
           ChunkNo := ?n, PurgePos := chunk_start ?n, FinalizedPos := chunk_start ?n\<rparr>"
  have c': "next_chunk c = c1\<lparr>NextChunkNo := find_next 0 c1, RelocationDone := False, RelocationPrepared := False\<rparr>"
    unfolding next_chunk_def FindNextChunk_def Let_def c1_def by simp
  have us: "used_set c1 ch = used_set c ch" "used_set (next_chunk c) ch = used_set c ch" for ch
    by (simp_all add: used_set_def c' c1_def)
  have n: "?n < MAX_CHUNKS c" "?n \<noteq> ChunkNo c" "SIZE_OF_MAP c \<le> 13107200" using inv'(1) by (auto simp: geom_def)
  have used1: "used_ok c1" using inv'(4) unfolding used_ok_def us by (simp add: c1_def)
  have st: "chunk_start ?n \<le> SIZE_OF_CACHE" using chunk_start_cases [of ?n] by auto
  have fn: "find_next 0 c1 < MAX_CHUNKS c1 \<and> find_next 0 c1 \<noteq> ChunkNo c1 \<and> under_limit c1 (find_next 0 c1)"
    using inv'(1) n st by (intro find_next_under_limit [OF used1]) (simp_all add: c1_def geom_def)
  have "64 * card (used_set c1 (find_next 0 c1)) \<le> 58 * room c1"
    using fn used1 n st by (intro under_limit_brisk) (simp_all add: c1_def)
  moreover have "\<not> CacheDirty c" using b pf(3) by (simp add: brisk_def)
  ultimately show "brisk (next_chunk c)" using pf(2) unfolding brisk_def us by (simp add: c' room_def) (simp add: c1_def)
  show "510 \<le> left (next_chunk c)" using st by (simp add: left_def room_def c') (simp add: c1_def div_le_mono)
qed

lemma next_calmer:
  assumes inv: "ftl_inv d c" and brisk: "brisk c" and full: "LAST_PURGE_POS \<le> PurgePos c" "LAST_PURGE_POS \<le> FinalizedPos c" and scn: "scn_left c"
    and S: "same_ftl (next_chunk c) e"
  shows "calmer L c (prepare_served d e)"
proof -
  let ?c = "prepare_served d e"
  note nb = next_chunk_brisk [OF inv brisk full(1)] and ni = next_chunk_inv [OF inv full scn]
  have np: "\<not> RelocationPrepared e" "PurgePos e < LAST_PURGE_POS" "left e = left (next_chunk c)"
    using side_next_chunk(2) [of c] next_chunk_facts(1) [of c] S by (simp_all add: same_ftl_def left_def room_def)
  have b: "brisk e" "ftl_inv d e" "scn_now e = scn_now (next_chunk c)"
    using nb(1) ni same_rank(2,3) [OF S] ftl_inv_same [OF S] by simp_all
  note p = prepared_turns [OF b(2) np(1,2) b(1)]
  have "turns ?c \<le> 12" using p(1,2) nb(2) np(3) by (simp add: turns_def)
  then have "turns ?c * 600010 \<le> 12 * 600010" by (rule mult_le_mono1)
  then have small: "rank L ?c < TIGHT" using p(5,6) by (simp add: rank_def not_ready TIGHT_def)
  have "turns c = 100" "\<not> RelocationDone c" using pace_full [OF inv full(1)] full by (simp_all add: turns_def left_def room_def)
  then have "TIGHT \<le> rank L c" by (simp add: rank_def not_ready TIGHT_def)
  moreover have "scn_now ?c \<le> scn_now c + 1" using p(4) b(3) side_next_chunk(3) [of c] by simp
  ultimately show ?thesis using small p(3) by (simp add: calmer_def)
qed

section \<open>Relocation\<close>

lemma reloc_loop_exit:
  "RelocatePos c \<le> RelocatePos (snd (reloc_loop c)) \<and>
   (\<not> fst (reloc_loop c) \<longrightarrow>
     \<not> (RelocateWindowStart c \<le> RelocatePos (snd (reloc_loop c)) \<and> RelocatePos (snd (reloc_loop c)) < RelocateWindowEnd c))"
proof (induction c rule: reloc_loop.induct)
  case (1 c)
  consider (skip) "RelocatePos c < LAST_PURGE_POS" "\<not> live_at c (RelocatePos c)"
    | (copy) "RelocatePos c < LAST_PURGE_POS" "live_at c (RelocatePos c)" "\<not> LAST_CACHE_POS \<le> CachePos c"
      "RelocateWindowStart c \<le> RelocatePos c \<and> RelocatePos c < RelocateWindowEnd c"
    | (stop) "reloc_loop c = (True, c)"
    | (out) "reloc_loop c = (False, c)" "\<not> (RelocateWindowStart c \<le> RelocatePos c \<and> RelocatePos c < RelocateWindowEnd c)"
    by (cases "RelocatePos c < LAST_PURGE_POS"; cases "live_at c (RelocatePos c)";
        cases "LAST_CACHE_POS \<le> CachePos c";
        cases "RelocateWindowStart c \<le> RelocatePos c \<and> RelocatePos c < RelocateWindowEnd c")
       (simp_all add: reloc_loop.simps [of c])
  then show ?case
  proof cases
    case skip
    have e: "reloc_loop c = reloc_loop (c\<lparr>RelocatePos := RelocatePos c + 8\<rparr>)" using skip by (simp add: reloc_loop.simps [of c])
    show ?thesis using "1.IH"(1) [OF skip] unfolding e by simp
  next
    case copy
    have e: "reloc_loop c = reloc_loop ((relocate_block c)\<lparr>RelocatePos := RelocatePos c + 8\<rparr>)"
      using copy by (simp add: reloc_loop.simps [of c])
    have w: "RelocateWindowStart (relocate_block c) = RelocateWindowStart c" "RelocateWindowEnd (relocate_block c) = RelocateWindowEnd c"
      by (simp_all add: relocate_block_def Let_def)
    show ?thesis using "1.IH"(2) copy w unfolding e by simp
  qed simp_all
qed

text \<open>What the loop does not touch.\<close>

lemma reloc_loop_keeps:
  assumes "c' = snd (reloc_loop c) \<or> c' = (snd (reloc_loop c))\<lparr>RelocationDone := t\<rparr>"
  shows "RelocateTarget c' = RelocateTarget c" "RelocateSource c' = RelocateSource c" "PurgePos c' = PurgePos c"
    "NextChunkNo c' = NextChunkNo c" "used_set c' ch = used_set c ch" "scn_now c' = scn_now c"
    "RelocationPrepared c' = RelocationPrepared c" "RelocateWindowStart c' = RelocateWindowStart c"
    "RelocateWindowEnd c' = RelocateWindowEnd c" "room c' = room c" "FinalizedPos c' = FinalizedPos c"
proof -
  obtain l m p r where "snd (reloc_loop c) = c\<lparr>CacheLBA := l, CacheMem := m, CachePos := p, RelocatePos := r\<rparr>"
    using reloc_loop_form [of c] by blast
  then have e: "c' = c\<lparr>CacheLBA := l, CacheMem := m, CachePos := p, RelocatePos := r\<rparr> \<or>
     c' = c\<lparr>CacheLBA := l, CacheMem := m, CachePos := p, RelocatePos := r, RelocationDone := t\<rparr>"
    using assms by auto
  then show "RelocateTarget c' = RelocateTarget c" "RelocateSource c' = RelocateSource c" "PurgePos c' = PurgePos c"
    "NextChunkNo c' = NextChunkNo c" "used_set c' ch = used_set c ch" "scn_now c' = scn_now c"
    "RelocationPrepared c' = RelocationPrepared c" "RelocateWindowStart c' = RelocateWindowStart c"
    "RelocateWindowEnd c' = RelocateWindowEnd c" "room c' = room c" "FinalizedPos c' = FinalizedPos c"
    by (auto simp: used_set_def scn_now_def room_def)
qed

lemma window_calmer:
  assumes R: "relocating d c" and space: "PurgePos c < LAST_PURGE_POS" and b: "brisk c"
    and nd: "\<not> RelocationDone (ExecuteRelocateCached c)" and S: "same_ftl (ExecuteRelocateCached c) e"
  shows "calmer L c (window_served d e)"
proof -
  note RD = relocatingD [OF R]
  define c0 where "c0 = snd (reloc_loop c)"
  have f: "\<not> fst (reloc_loop c)" "ExecuteRelocateCached c = c0"
    using nd by (cases rule: relocate_cached_split [of c]; simp add: c0_def)+
  note S' = S [unfolded f(2)]
  note k0 = reloc_loop_keeps [OF disjI1 [OF c0_def]] and x0 = reloc_loop_exit [of c, folded c0_def] and l = reloc_loop_inv [OF R, of 0, folded c0_def]
  have s1: "used_set e ch = used_set c0 ch" "room e = room c0" "scn_now e = scn_now c0" "RelocatePos e = RelocatePos c0"
    "live_at e i = live_at c0 i" "CachePos e = CachePos c0" "RelocationDone e = RelocationDone c0" for ch i
    using S' by (simp_all add: same_ftl_def used_set_def room_def scn_now_def live_at_def next_phys_def)
  have k: "RelocateTarget e = RelocateTarget c" "RelocateSource e = RelocateSource c" "PurgePos e = PurgePos c"
    "NextChunkNo e = NextChunkNo c" "used_set e ch = used_set c ch" "scn_now e = scn_now c"
    "RelocationPrepared e = RelocationPrepared c" "room e = room c" for ch
    using k0 s1 S' by (simp_all add: same_ftl_def)
  have dirty: "CacheDirty e = CacheDirty c"
    using S relocate_cached_form [of c] by (auto simp: same_ftl_def)
  note x = x0 [folded s1(4)]
  have p1: "RelocatePos e < LAST_PURGE_POS" "live_at e (RelocatePos e)" "CachePos e < LAST_CACHE_POS" using l f(1) by (simp_all add: s1)
  have "off8 (RelocatePos e) = 0" using l relocatingD(5) [of d c0] by (simp add: window_ok_def s1)
  then have we: "RelocatePos e < RelocateWindowEnd (set_window e)" by (rule set_window_progress [OF _ p1(1,2)])
  let ?c = "window_served d e"
  have w: "RelocationDone ?c = RelocationDone e" "RelocationPrepared ?c = RelocationPrepared e" "RelocatePos ?c = RelocatePos e"
    "RelocateWindowStart ?c = RelocatePos e" "RelocateWindowEnd ?c = RelocateWindowEnd (set_window e)"
    "PurgePos ?c = PurgePos e" "NextChunkNo ?c = NextChunkNo e" "RelocateTarget ?c = RelocateTarget e"
    "RelocateSource ?c = RelocateSource e" "CachePos ?c = CachePos e" "used_set ?c ch = used_set e ch" "scn_now ?c = scn_now e"
    "room ?c = room e" "CacheDirty ?c = CacheDirty e" for ch
    by (simp_all add: window_served_def set_window_def Let_def used_set_def scn_now_def room_def)
  have nd1: "\<not> RelocationDone e" using nd f(2) by (simp add: s1)
  show ?thesis
  proof (rule calmer_stage)
    show "brisk ?c" using b RD(2,3) nd1 p1(3) k dirty unfolding brisk_def w by simp
    show "scn_now ?c = scn_now c" using k by (simp add: w)
    show "\<not> ready_for L c" using RD(3) by (rule not_ready)
    have "slack ?c = slack c" using RD(2,3) nd1 k unfolding slack_def w by simp
    then have "lag ?c = lag c" "left ?c = left c" using RD(2,3) nd1 k unfolding lag_def left_def w by simp_all
    then show "turns ?c \<le> turns c" by (simp add: turns_def)
    have s: "stage ?c = 2 * (LAST_PURGE_POS - RelocatePos e)"
      using nd1 space we RD(2) k unfolding stage_def w by simp
    have s0: "stage c = 2 * (LAST_PURGE_POS - RelocatePos c) +
        (if RelocateWindowStart c \<le> RelocatePos c \<and> RelocatePos c < RelocateWindowEnd c then 0 else 1)"
      using RD(2,3) space by (simp add: stage_def)
    show "stage ?c < stage c"
    proof (cases "RelocatePos e = RelocatePos c")
      case True
      then show ?thesis using x f(1) unfolding s s0 by (simp only: simp_thms if_False)
    next
      case False
      then have "RelocatePos c < RelocatePos e" using x by simp
      then show ?thesis using p1(1) unfolding s s0 by simp
    qed
  qed
qed

lemma moved_arith:
  fixes p q S T :: nat
  assumes "q \<le> p" "63 * T \<le> q" "64 * S \<le> 58 * T"
  shows "p - q + 5 * T \<le> (p - 64 * S) - (q - 63 * T)"
  using assms by linarith

lemma relocated_calmer:
  assumes R: "relocating d c" and space: "PurgePos c < LAST_PURGE_POS" and b: "brisk c"
    and dn: "RelocationDone (ExecuteRelocateCached c)"
  shows "calmer L c (ExecuteRelocateCached c)"
proof -
  note RD = relocatingD [OF R] and P = relocating_pace [OF R]
  have nr: "\<not> ready_for L c" using RD(3) by (rule not_ready)
  have T58: "64 * RelocateSource c \<le> 58 * RelocateTarget c" "CachePos c < LAST_CACHE_POS"
    "RelocateTarget c * card (used_set c (NextChunkNo c)) \<le> RelocateSource c * room c" using b RD(2,3) by (simp_all add: brisk_def)
  show ?thesis
  proof (cases rule: relocate_cached_split [of c])
    case sched
    have "off8 (CachePos c) = 0" using RD(4) by (simp add: moving_def)
    then show ?thesis unfolding sched(2)
      using T58 RD(2) nr by (intro calmer_ready) (simp_all add: brisk_def ready_for_def scn_now_def used_set_def room_def)
  next
    case exit
    then show ?thesis using dn reloc_loop_form [of c] RD(3) by auto
  next
    case stop
    define c0 where "c0 = snd (reloc_loop c)"
    define c1 where "c1 = c0\<lparr>RelocationDone := True\<rparr>"
    have e: "ExecuteRelocateCached c = c1" using stop(2) by (simp add: c1_def c0_def)
    note k = reloc_loop_keeps [OF disjI2 [OF c1_def [unfolded c0_def]]]
    have R0: "relocating d c0" using reloc_loop_inv [OF R, of 0] by (simp add: c0_def)
    note R0D = relocatingD [OF R0]
    have b1: "brisk c1" using T58 RD(2) k by (simp add: brisk_def) (simp add: c1_def)
    have d1: "RelocationDone c1" and cp: "CachePos c1 = CachePos c0" by (simp_all add: c1_def)
    have al: "off8 (CachePos c1) = 0" using R0D(4) by (simp add: moving_def cp)
    show ?thesis
    proof (cases "ready_for L c1")
      case True
      then show ?thesis unfolding e using b1 k nr by (intro calmer_ready)
    next
      case False
      have "LAST_CACHE_POS \<le> CachePos c1" using False al d1 by (auto simp: ready_for_def not_less)
      moreover have "CachePos c0 \<le> LAST_CACHE_POS" using R0D(7) by (simp add: cache_wf_def)
      ultimately have "CachePos c0 = LAST_CACHE_POS" using cp by simp
      then have "card (to_move c0) + 63 = card (used_set c0 (NextChunkNo c0))" using moving_card [OF R0D(7,4)] by simp
      moreover have "to_move c1 = to_move c0" by (simp add: c1_def to_move_def used_set_def cached_def)
      moreover have "used_set c0 ch = used_set c1 ch" "NextChunkNo c0 = NextChunkNo c1" for ch by (simp_all add: c1_def used_set_def)
      ultimately have U: "card (used_set c (NextChunkNo c)) = card (to_move c1) + 63" using k by simp
      let ?S = "RelocateSource c" and ?T = "RelocateTarget c" and ?U = "card (used_set c (NextChunkNo c))"
      have rm: "64 \<le> room c" using room_64(1) [OF RD(6) space] .
      have s0: "slack c = ?S * room c - ?T * ?U" using RD(2,3) by (simp add: slack_def)
      have "?S * (room c - 64) = ?S * room c - 64 * ?S" "?T * (?U - 63) = ?T * ?U - 63 * ?T" by (simp_all add: diff_mult_distrib2)
      moreover have "card (to_move c1) = ?U - 63" using U by simp
      ultimately have s1: "slack c1 = (?S * room c - 64 * ?S) - (?T * ?U - 63 * ?T)"
        using d1 k by (simp add: slack_def)
      have "63 * ?T \<le> ?T * ?U" using U by simp
      then have more: "slack c + 5 * ?T \<le> slack c1" unfolding s0 s1 by (intro moved_arith P(4) T58(1))
      have "\<not> on_schedule c"
      proof
        assume "on_schedule c"
        then have "ExecuteRelocateCached c = c\<lparr>RelocationDone := True\<rparr>" by (simp add: ExecuteRelocateCached_def)
        then have "c1 = c\<lparr>RelocationDone := True\<rparr>" using e by simp
        then have "CachePos c1 = CachePos (c\<lparr>RelocationDone := True\<rparr>)" by (rule arg_cong)
        then show False using T58(2) \<open>LAST_CACHE_POS \<le> CachePos c1\<close> by simp
      qed
      then have "?S * (room c - 64) < ?T * card (to_move c)" using on_schedule_iff [OF R space] by simp
      also have "\<dots> \<le> ?T * ?U" using moving_card [OF RD(7,4)] by simp
      finally have "?S * room c - 64 * ?S < ?T * ?U" by (simp add: diff_mult_distrib2)
      then have "slack c < 58 * ?T" using T58(1) P(1) unfolding s0 by linarith
      then have "lag c1 < lag c" using lag_drop [OF P(1) more] RD(2) k by (simp add: lag_def)
      moreover have "lag c \<le> 12" using lag_12 [OF P(1)] RD(2) by (simp add: lag_def)
      moreover have "left c1 + 1 = left c" using rm d1 RD(3) k le_div_geq [of 64 "room c"] by (simp add: left_def)
      ultimately have "turns c1 < turns c" by (rule turns_drop)
      then show ?thesis unfolding e using b1 k nr by (intro calmer_turns)
    qed
  qed
qed

section \<open>The two halves of a round\<close>

text \<open>A half that does not move the request forward brings it nearer.\<close>

definition prep_down :: "mem \<Rightarrow> nat \<Rightarrow> hs \<Rightarrow> outcome \<Rightarrow> bool" where
  "prep_down d L h out \<longleftrightarrow> (case out of
     Inr h' \<Rightarrow> h' = h \<or> (calmer L (hs_Ctx h) (hs_Ctx h') \<and> scn_now (hs_Ctx h') = scn_now (hs_Ctx h))
   | Inl (st, h') \<Rightarrow> calmer L (hs_Ctx h) (hs_Ctx (snd (served d h'))))"

lemma mark_same: "same_ftl (hs_Ctx h) (hs_Ctx (IoMarkIrpPending TOther h))"
  by (rule tables_eq_same) simp

lemma write_relocate_down:
  assumes inv: "ftl_inv d (hs_Ctx h)" and space: "PurgePos (hs_Ctx h) < LAST_PURGE_POS" and b: "brisk (hs_Ctx h)"
  shows "prep_down d L h (write_relocate h)"
proof -
  consider (prep) "\<not> RelocationPrepared (hs_Ctx h)" | (ready) "RelocationPrepared (hs_Ctx h)" "RelocationDone (hs_Ctx h)"
    | (move) "relocating d (hs_Ctx h)" using inv by (auto simp: relocating_def)
  then show ?thesis
  proof cases
    case prep
    let ?h = "IoMarkIrpPending TOther h"
    note S = mark_same [of h]
    have "calmer L (hs_Ctx ?h) (prepare_served d (hs_Ctx ?h))"
      using inv b space prep ftl_inv_same [OF S] same_rank(2) [OF S] S by (intro prepare_calmer) (simp_all add: same_ftl_def)
    from calmer_same1 [OF S this] show ?thesis using prep by (simp add: write_relocate_def prep_down_def served_prepare)
  next
    case ready
    then show ?thesis by (simp add: write_relocate_def prep_down_def)
  next
    case move
    note RD = relocatingD [OF move]
    define h1 where "h1 = upd_ctx ExecuteRelocateCached h"
    have c1: "hs_Ctx h1 = ExecuteRelocateCached (hs_Ctx h)" by (simp add: h1_def)
    show ?thesis
    proof (cases "RelocationDone (hs_Ctx h1)")
      case True
      have "calmer L (hs_Ctx h) (hs_Ctx h1)" unfolding c1
        by (rule relocated_calmer [OF move space b]) (use True in \<open>simp add: c1\<close>)
      then show ?thesis using True RD(2,3) unfolding write_relocate_def h1_def [symmetric] Let_def
        by (simp add: prep_down_def) (simp add: c1)
    next
      case False
      let ?h = "IoMarkIrpPending TOther h1"
      have "calmer L (hs_Ctx h) (window_served d (hs_Ctx ?h))"
        using mark_same [of h1] False unfolding c1 by (intro window_calmer [OF move space b])
      then show ?thesis using False RD(2,3) unfolding write_relocate_def h1_def [symmetric] Let_def
        by (simp add: prep_down_def served_window)
    qed
  qed
qed

lemma write_prepare_down:
  assumes inv: "ftl_inv d (hs_Ctx h)" and scn: "scn_left (hs_Ctx h)" and b: "brisk (hs_Ctx h)"
  shows "prep_down d L h (write_prepare h)"
proof (cases "LAST_PURGE_POS \<le> PurgePos (hs_Ctx h)")
  case full: True
  show ?thesis
  proof (cases "FinalizedPos (hs_Ctx h) < LAST_PURGE_POS")
    case True
    let ?h = "IoMarkIrpPending TOther (upd_ctx MarkReadingThreads h)"
    have "same_ftl (hs_Ctx h) (hs_Ctx (upd_ctx MarkReadingThreads h))" by (rule tables_eq_same) simp
    then have S: "same_ftl (hs_Ctx h) (hs_Ctx ?h)" using mark_same same_ftl_trans by blast
    have "calmer L (hs_Ctx ?h) (snd (chunk_served d (hs_Ctx ?h)))"
      using inv b full True ftl_inv_same [OF S] same_rank(2) [OF S] S by (intro chunk_calmer) (simp_all add: same_ftl_def)
    from calmer_same1 [OF S this] show ?thesis using full True by (simp add: write_prepare_def prep_down_def served_chunk)
  next
    case False
    let ?h = "IoMarkIrpPending TOther (upd_ctx next_chunk h)"
    have "calmer L (hs_Ctx h) (prepare_served d (hs_Ctx ?h))"
      using mark_same [of "upd_ctx next_chunk h"] False by (intro next_calmer [OF inv b full _ scn]) simp_all
    then show ?thesis using full False side_next_chunk(2) by (simp add: write_prepare_def write_relocate_def prep_down_def served_prepare)
  qed
next
  case False
  then show ?thesis using write_relocate_down [OF inv _ b] by (simp add: write_prepare_def)
qed

definition data_down :: "mem \<Rightarrow> nat \<Rightarrow> hs \<Rightarrow> outcome \<Rightarrow> bool" where
  "data_down d L h out \<longleftrightarrow> (case out of
     Inr h' \<Rightarrow> scn_now (hs_Ctx h') = scn_now (hs_Ctx h) \<and> brisk (hs_Ctx h') \<and>
       (write_todo h' < write_todo h \<or> (write_todo h' = write_todo h \<and> calmer L (hs_Ctx h) (hs_Ctx h')))
   | Inl (st, h') \<Rightarrow> calmer L (hs_Ctx h) (hs_Ctx (snd (served d h'))))"

lemma fill_down:
  assumes calm: "\<And>e m. same_ftl (hs_Ctx h) e \<Longrightarrow> calmer L e (extended e N n m)"
  shows "data_down d L h (cache_fill_read N n h)"
proof (cases "Map (hs_Ctx h) (blk N) = NOT_MAPPED")
  case True
  let ?e = "extended (hs_Ctx h) N n (zero_sectors (CacheMem (hs_Ctx h)) (CachePos (hs_Ctx h)) n)"
  have e: "CacheFillReadZero N n (hs_Ctx h) = ?e"
    by (simp add: CacheFillReadZero_def extended_def)
  have "calmer L (hs_Ctx h) ?e" by (rule calm [OF same_ftl_refl])
  then show ?thesis using True by (simp add: cache_fill_read_def data_down_def e write_todo_def calmer_def) (simp add: extended_def)
next
  case False
  let ?h = "IoMarkIrpPending TOther h"
  have "calmer L (hs_Ctx ?h) (fill_served d N n (hs_Ctx ?h))" unfolding fill_served_def by (rule calm [OF mark_same])
  from calmer_same1 [OF mark_same this] show ?thesis using False by (simp add: cache_fill_read_def data_down_def served_fill)
qed

text \<open>Conditions that do not depend on threads.\<close>

lemma can_extend_same: "same_ftl c e \<Longrightarrow> can_extend e N n = can_extend c N n"
  using cached_cong [of e c] by (simp add: can_extend_def same_ftl_def)

lemma ready_for_same: "same_ftl c e \<Longrightarrow> ready_for L e = ready_for L c"
  using cached_cong [of e c] by (simp add: ready_for_def same_ftl_def)

lemma write_data_down:
  assumes inv: "ftl_inv d (hs_Ctx h)" and b: "brisk (hs_Ctx h)" and job: "job (hs_Ctx h) = (LBA, LEN, T, data)" and T: "T < LEN"
    and dev: "LBA + LEN \<le> 8 * SIZE_OF_MAP (hs_Ctx h)"
    and ready: "RelocationPrepared (hs_Ctx h)" "RelocationDone (hs_Ctx h)"
  shows "data_down d (LBA + T) h (write_data (LBA + T) (LEN - T) h)"
proof -
  let ?c = "hs_Ctx h" and ?L = "LBA + T"
  note i = ftl_invD [OF inv]
  have Ld: "?L < 8 * SIZE_OF_MAP ?c" using T dev by simp
  have small: "?L < 4294967296" using Ld geom_size [OF i(1)] by simp
  have todo: "write_todo h = LEN - T" using job by (simp add: write_todo_def job_def)
  have tt: "th_LEN (OtherThread ?c) = LEN" "th_Transferred (OtherThread ?c) = T" using job by (simp_all add: job_def)
  have hit: "data_down d ?L h (Inr (write_hit p ?L (LEN - T) h))" for p
  proof -
    have "write_todo (write_hit p ?L (LEN - T) h) < write_todo h"
      using cache_hit_len_bounds(1) [of ?c p ?L "LEN - T"] tt T unfolding todo
      by (simp add: write_hit_def write_todo_def advance_def Let_def)
    then show ?thesis using b ready by (simp add: data_down_def write_hit_def advance_def Let_def brisk_def used_set_def room_def)
  qed
  have wr: "data_down d ?L h (Inr (cache_write ?L (LEN - T) h))"
  proof -
    have "write_todo (cache_write ?L (LEN - T) h) < write_todo h"
      using cache_write_len_bounds(1) [of ?c ?L "LEN - T"] tt T unfolding todo
      by (simp add: cache_write_def write_todo_def advance_def Let_def)
    then show ?thesis using b ready by (simp add: data_down_def cache_write_def advance_def Let_def brisk_def used_set_def room_def)
  qed
  have sames: "ftl_inv d e" "brisk e" "RelocationPrepared e" "RelocationDone e" "CachePos e = CachePos ?c" "cached e X = cached ?c X"
    if "same_ftl ?c e" for e X
    using that inv b ready ftl_inv_same [OF that] same_rank(2) [OF that] cached_cong [of e ?c X] by (simp_all add: same_ftl_def)
  consider (hit) "GetCachedPos ?c ?L \<noteq> NOT_MAPPED"
    | (full) "GetCachedPos ?c ?L = NOT_MAPPED" "LAST_CACHE_POS \<le> CachePos ?c"
    | (part) "GetCachedPos ?c ?L = NOT_MAPPED" "CachePos ?c < LAST_CACHE_POS" "off8 (CachePos ?c) \<noteq> 0"
    | (aligned) "GetCachedPos ?c ?L = NOT_MAPPED" "CachePos ?c < LAST_CACHE_POS" "off8 (CachePos ?c) = 0"
    by linarith
  then show ?thesis
  proof cases
    case hit
    then show ?thesis using \<open>\<And>p. data_down d ?L h (Inr (write_hit p ?L (LEN - T) h))\<close> unfolding write_data_def Let_def by simp
  next
    case full
    have c504: "CachePos ?c = LAST_CACHE_POS" using full(2) i(2) by (simp add: cache_wf_def)
    have miss: "\<not> cached ?c ?L" using full(1) cached_iff [OF i(2)] by blast
    let ?h = "IoMarkIrpPending TOther h"
    note S = mark_same [of h]
    have "\<not> ready_for ?L (hs_Ctx ?h)" using ready_for_same [OF S] miss c504 by (simp add: ready_for_def)
    then have "calmer ?L (hs_Ctx ?h) (snd (purge_served d (hs_Ctx ?h)))"
      using sames [OF S] c504 by (intro purge_calmer) (simp_all add: off8_def)
    from calmer_same1 [OF S this] show ?thesis using full by (simp add: write_data_def Let_def data_down_def served_purge)
  next
    case part
    let ?N = "CacheLBA ?c (CachePos ?c - 1) + 1" and ?n = "8 - off8 (CachePos ?c)"
    note pe = partial_can_extend [OF i(1,2) part(3,2)]
    have miss: "\<not> cached ?c ?L" using part(1) cached_iff [OF i(2)] by blast
    show ?thesis
    proof (cases "?N = ?L")
      case True
      then show ?thesis using part pe(3) wr unfolding write_data_def Let_def by simp
    next
      case False
      have "data_down d ?L h (cache_fill_read ?N ?n h)"
      proof (rule fill_down)
        fix e m assume S: "same_ftl ?c e"
        have "CachePos ?c + ?n = 8 * (blk (CachePos ?c) + 1)"
          using lba_split [of "CachePos ?c"] off8_less [of "CachePos ?c"] by (simp del: off8_less)
        then have "off8 (CachePos ?c + ?n) = 0" by (simp only: blk_mult)
        moreover have "\<not> ready_for ?L e" unfolding ready_for_same [OF S] using miss False part(3) by (simp add: ready_for_def)
        ultimately show "calmer ?L e (extended e ?N ?n m)"
          using sames [OF S] part(3) pe(1) can_extend_same [OF S] by (intro tail_calmer) simp_all
      qed
      then show ?thesis using part pe(3) False unfolding write_data_def Let_def by simp
    qed
  next
    case aligned
    have miss: "\<not> cached ?c ?L" using aligned(1) cached_iff [OF i(2)] by blast
    show ?thesis
    proof (cases "off8 ?L = 0")
      case True
      then show ?thesis using aligned wr unfolding write_data_def Let_def by simp
    next
      case False
      define n where "n = (if base8 ?L = base8 (wrap32 (?L + (LEN - T))) then 8 else off8 ?L)"
      have n: "0 < n" "n \<le> 8" "n = 8 \<or> n = off8 ?L" using False off8_less [of ?L] by (auto simp: n_def simp del: off8_less)
      have "data_down d ?L h (cache_fill_read (base8 ?L) n h)"
      proof (rule fill_down)
        fix e m assume S: "same_ftl ?c e"
        show "calmer ?L e (extended e (base8 ?L) n m)"
          using sames [OF S] aligned miss False n(3) small can_extend_same [OF S]
            aligned_can_extend(1) [OF i(1,2) aligned(3,2) miss Ld n(1,2)] by (intro head_calmer) simp_all
      qed
      then show ?thesis using aligned False unfolding write_data_def Let_def n_def by simp
    qed
  qed
qed

section \<open>A round\<close>

lemma write_step_down:
  assumes ws: "write_state M f LBA LEN data ds T d h" and b: "brisk (hs_Ctx h)" and scn: "scn_left (hs_Ctx h)"
    and st: "write_step d h = Inr (d', h')"
  shows "brisk (hs_Ctx h') \<and>
    (write_todo h' < write_todo h \<and> scn_now (hs_Ctx h') = scn_now (hs_Ctx h) \<or>
     write_todo h' = write_todo h \<and> calmer (LBA + T) (hs_Ctx h) (hs_Ctx h'))"
proof -
  have inv: "ftl_inv d (hs_Ctx h)" and job: "job (hs_Ctx h) = (LBA, LEN, T, data)" and TL: "T \<le> LEN"
    and dev: "LBA + LEN \<le> 8 * SIZE_OF_MAP (hs_Ctx h)" and mode: "hs_Mode h = VLTL_MODE_ACTIVE"
    using ws by (simp_all add: write_state_def)
  have T: "T < LEN"
  proof (rule ccontr)
    assume "\<not> T < LEN"
    then have "write_iter h = Inl (complete_success TOther h)"
      using job mode TL by (simp add: write_iter_def Let_def job_def)
    then show False using st by (simp add: write_step_def complete_success_def Let_def)
  qed
  have small: "LBA + T < 4294967296" using T dev geom_size [OF ftl_invD(1) [OF inv]] by simp
  have wi: "write_iter h = (case write_prepare h of Inl r \<Rightarrow> Inl r | Inr h1 \<Rightarrow> write_data (LBA + T) (LEN - T) h1)"
    using job mode T small by (simp add: write_iter_def Let_def job_def cong: sum.case_cong)
  have po: "prepared_out d h (write_prepare h)" by (rule write_prepare_out [OF inv scn])
  have pd: "prep_down d (LBA + T) h (write_prepare h)" by (rule write_prepare_down [OF inv scn b])
  have todo: "write_todo g = LEN - T" if "job (hs_Ctx g) = (LBA, LEN, T, data)" for g
    using that by (simp add: write_todo_def job_def)
  show ?thesis
  proof (cases "write_prepare h")
    case (Inl r)
    obtain s1 h1 where r: "r = (s1, h1)" by (cases r)
    have s1: "s1 = STATUS_PENDING" "quiet d h (fst (served d h1)) (snd (served d h1))"
      using po unfolding prepared_out_def Inl r by (simp_all add: case_prod_beta)
    have h': "h' = snd (served d h1)" using st wi s1 unfolding write_step_def Inl r by auto
    have "job (hs_Ctx h') = job (hs_Ctx h)" using s1(2) by (simp add: quiet_def h')
    then have "write_todo h' = write_todo h" using todo job by simp
    moreover have "calmer (LBA + T) (hs_Ctx h) (hs_Ctx h')" using pd unfolding prep_down_def Inl r h' by simp
    ultimately show ?thesis by (simp add: calmer_def)
  next
    case (Inr h1)
    have q: "quiet d h d h1" and r: "RelocationPrepared (hs_Ctx h1)" "RelocationDone (hs_Ctx h1)"
      using po unfolding prepared_out_def Inr by simp_all
    have k: "h1 = h \<or> (calmer (LBA + T) (hs_Ctx h) (hs_Ctx h1) \<and> scn_now (hs_Ctx h1) = scn_now (hs_Ctx h))"
      using pd unfolding prep_down_def Inr by simp
    have b1: "brisk (hs_Ctx h1)" using k b by (auto simp: calmer_def)
    have j1: "job (hs_Ctx h1) = (LBA, LEN, T, data)" and inv1: "ftl_inv d (hs_Ctx h1)" and dev1: "LBA + LEN \<le> 8 * SIZE_OF_MAP (hs_Ctx h1)"
      using q job dev by (simp_all add: quiet_def)
    have t1: "write_todo h1 = write_todo h" using todo j1 job by simp
    have dd: "data_down d (LBA + T) h1 (write_data (LBA + T) (LEN - T) h1)" by (rule write_data_down [OF inv1 b1 j1 T dev1 r])
    have df: "fine d h1 (write_data (LBA + T) (LEN - T) h1)" by (rule write_data_fine [OF inv1 j1 T dev1 r])
    have wi': "write_iter h = write_data (LBA + T) (LEN - T) h1" unfolding wi Inr by simp
    show ?thesis
    proof (cases "write_data (LBA + T) (LEN - T) h1")
      case (Inl r)
      obtain s2 h2 where r: "r = (s2, h2)" by (cases r)
      have s2: "s2 = STATUS_PENDING" "quiet d h1 (fst (served d h2)) (snd (served d h2))"
        using df unfolding fine_def Inl r by (simp_all add: case_prod_beta)
      have h': "h' = snd (served d h2)" using st s2 unfolding write_step_def wi' Inl r by auto
      have "calmer (LBA + T) (hs_Ctx h1) (hs_Ctx h')" using dd unfolding data_down_def Inl r h' by simp
      then have "calmer (LBA + T) (hs_Ctx h) (hs_Ctx h')" using k calmer_trans by blast
      moreover have "write_todo h' = write_todo h" using s2(2) todo [of h'] todo [of h] j1 job by (simp add: quiet_def h')
      ultimately show ?thesis by (simp add: calmer_def)
    next
      case (Inr h2)
      have h': "h' = h2" using st unfolding write_step_def wi' Inr by simp
      from dd have d2: "scn_now (hs_Ctx h') = scn_now (hs_Ctx h1)" "brisk (hs_Ctx h')"
        "write_todo h' < write_todo h1 \<or> (write_todo h' = write_todo h1 \<and> calmer (LBA + T) (hs_Ctx h1) (hs_Ctx h'))"
        unfolding data_down_def Inr h' by simp_all
      have "scn_now (hs_Ctx h1) = scn_now (hs_Ctx h)" using k by auto
      then show ?thesis using d2 k t1 calmer_trans by metis
    qed
  qed
qed

section \<open>The request ends\<close>

text \<open>Every rank is below \<open>MUCH\<close>, so that the sectors to do come first.\<close>

definition MUCH :: nat where "MUCH = 1000000000"

definition effort :: "nat \<Rightarrow> hs \<Rightarrow> nat" where
  "effort L h = write_todo h * MUCH + rank L (hs_Ctx h)"

lemma rank_bound: "ftl_inv d c \<Longrightarrow> rank L c < MUCH"
proof -
  assume inv: "ftl_inv d c"
  have "room c \<le> 32704" by (simp add: room_def)
  then have "room c div 64 \<le> 511" "(room c - 64) div 64 \<le> 511"
    using div_le_mono [of "room c" 32704 64] div_le_mono [of "room c - 64" 32704 64] by simp_all
  then have "left c \<le> 511" by (simp add: left_def)
  moreover have "lag c \<le> 12"
  proof (cases "RelocationPrepared c")
    case True
    then have "0 < RelocateTarget c" using ftl_invD(8) [OF inv] by (simp add: pace_def)
    then show ?thesis using True lag_12 by (simp add: lag_def)
  qed (simp add: lag_def)
  ultimately have "turns c \<le> 611" by (simp add: turns_def)
  then have "turns c * 600010 \<le> 611 * 600010" by (rule mult_le_mono1)
  then show ?thesis using stage_bound [of c] by (simp add: rank_def MUCH_def)
qed

text \<open>What the sequence number can still go up by.\<close>

definition switches :: "nat \<Rightarrow> hs \<Rightarrow> nat" where
  "switches L h = write_todo h + (if TIGHT \<le> rank L (hs_Ctx h) then 1 else 0)"

lemma step_effort:
  assumes ws: "write_state M f LBA LEN data ds T d h" and b: "brisk (hs_Ctx h)" and scn: "scn_left (hs_Ctx h)"
    and st: "write_step d h = Inr (d', h')" and ws': "write_state M f LBA LEN data ds T' d' h'"
  shows "effort (LBA + T') h' < effort (LBA + T) h \<and> brisk (hs_Ctx h') \<and>
    scn_now (hs_Ctx h') + switches (LBA + T') h' \<le> scn_now (hs_Ctx h) + switches (LBA + T) h"
proof -
  note wd = write_step_down [OF ws b scn st]
  have t: "write_todo h = LEN - T" "write_todo h' = LEN - T'" "T \<le> LEN" "T' \<le> LEN"
    using ws ws' by (auto simp: write_state_def write_todo_def job_def)
  have rb: "rank (LBA + T') (hs_Ctx h') < MUCH" using ws' rank_bound by (auto simp: write_state_def)
  from wd have "write_todo h' < write_todo h \<and> scn_now (hs_Ctx h') = scn_now (hs_Ctx h) \<or>
     write_todo h' = write_todo h \<and> calmer (LBA + T) (hs_Ctx h) (hs_Ctx h')" by blast
  then show ?thesis
  proof
    assume less: "write_todo h' < write_todo h \<and> scn_now (hs_Ctx h') = scn_now (hs_Ctx h)"
    then have "(write_todo h' + 1) * MUCH \<le> write_todo h * MUCH" by (intro mult_le_mono1) simp
    then have "effort (LBA + T') h' < effort (LBA + T) h" using rb by (simp add: effort_def)
    then show ?thesis using less wd by (simp add: switches_def)
  next
    assume same: "write_todo h' = write_todo h \<and> calmer (LBA + T) (hs_Ctx h) (hs_Ctx h')"
    then have "T' = T" using t by linarith
    then show ?thesis using same wd by (auto simp: effort_def switches_def calmer_def)
  qed
qed

lemma write_ends:
  assumes "write_state M f LBA LEN data ds T d h" "brisk (hs_Ctx h)" "alone (hs_Ctx h)"
    "scn_now (hs_Ctx h) + switches (LBA + T) h < 4294967295"
    "code_run lower d0 h0 n (fst (write_loop h) \<noteq> STATUS_PENDING) d (snd (write_loop h))"
  shows "\<exists>n' d' g. n' \<le> n + effort (LBA + T) h \<and> code_run lower d0 h0 n' True d' (snd (complete_success TOther g)) \<and>
    write_state M f LBA LEN data ds LEN d' g \<and> brisk (hs_Ctx g) \<and> side (hs_Ctx g) = side (hs_Ctx h) \<and>
    scn_now (hs_Ctx g) \<le> scn_now (hs_Ctx h) + switches (LBA + T) h"
  using assms
proof (induction "effort (LBA + T) h" arbitrary: T d h n rule: less_induct)
  case less
  have scn: "scn_left (hs_Ctx h)" using less.prems(4) by (simp add: scn_left_def scn_now_def)
  have tm: "tame h (write_iter h)" by (rule tame_write_iter [OF less.prems(3)])
  have go: "\<exists>n' d' g. n' \<le> n + effort (LBA + T) h \<and> code_run lower d0 h0 n' True d' (snd (complete_success TOther g)) \<and>
      write_state M f LBA LEN data ds LEN d' g \<and> brisk (hs_Ctx g) \<and> side (hs_Ctx g) = side (hs_Ctx h) \<and>
      scn_now (hs_Ctx g) \<le> scn_now (hs_Ctx h) + switches (LBA + T) h"
    if st: "write_step d h = Inr (d1, h1)" and sd: "side (hs_Ctx h1) = side (hs_Ctx h)" and m: "m \<le> Suc n"
      and run: "code_run lower d0 h0 m (fst (write_loop h1) \<noteq> STATUS_PENDING) d1 (snd (write_loop h1))" for d1 h1 m
  proof -
    obtain T1 where ws1: "write_state M f LBA LEN data ds T1 d1 h1" using write_state_step [OF less.prems(1) scn st] by blast
    note e = step_effort [OF less.prems(1,2) scn st ws1]
    have al: "alone (hs_Ctx h1)" using alone_side [OF sd less.prems(3)] .
    have "scn_now (hs_Ctx h1) + switches (LBA + T1) h1 < 4294967295" using e less.prems(4) by linarith
    from less.hyps [OF _ ws1 _ al this run] e
    obtain n' d' g where r: "n' \<le> m + effort (LBA + T1) h1" "code_run lower d0 h0 n' True d' (snd (complete_success TOther g))"
      "write_state M f LBA LEN data ds LEN d' g" "brisk (hs_Ctx g)" "side (hs_Ctx g) = side (hs_Ctx h1)"
      "scn_now (hs_Ctx g) \<le> scn_now (hs_Ctx h1) + switches (LBA + T1) h1" by blast
    have "n' \<le> n + effort (LBA + T) h" "scn_now (hs_Ctx g) \<le> scn_now (hs_Ctx h) + switches (LBA + T) h"
      using r(1,6) m e by linarith+
    then show ?thesis using r sd by metis
  qed
  show ?case
  proof (cases "write_iter h")
    case (Inr h1)
    have l: "write_loop h = write_loop h1" using Inr by (simp add: write_loop.simps [of h])
    have "write_step d h = Inr (d, h1)" using Inr by (simp add: write_step_def)
    moreover have "side (hs_Ctx h1) = side (hs_Ctx h)" using tm Inr by (simp add: tame_def)
    ultimately show ?thesis using go [of d h1 n] less.prems(5) unfolding l by simp
  next
    case (Inl r)
    obtain st h1 where r: "r = (st, h1)" by (cases r)
    have l: "write_loop h = (st, h1)" using Inl r by (simp add: write_loop.simps [of h])
    show ?thesis
    proof (cases "st = STATUS_PENDING")
      case True
      have own: "own_req h1" and sd: "side (hs_Ctx h1) = side (hs_Ctx h)" using tm Inl r True by (simp_all add: tame_def)
      have a1: "alone (hs_Ctx h1)" using alone_side [OF sd less.prems(3)] .
      let ?s = "served d h1"
      have step: "write_step d h = Inr (fst ?s, snd ?s)" using Inl r True by (simp add: write_step_def)
      have as: "side (hs_Ctx (snd ?s)) = side (hs_Ctx h)" using side_served(1) [OF own] sd by simp
      have cs: "code_step lower d h1 = (fst (write_loop (snd ?s)) \<noteq> STATUS_PENDING, fst ?s, snd (write_loop (snd ?s)))"
        unfolding code_step_write [OF own a1] by (simp add: case_prod_beta)
      have "code_run lower d0 h0 n False d h1" using less.prems(5) True unfolding l by simp
      from go [OF step as _ code_run.serve [OF this cs]] show ?thesis by simp
    next
      case False
      have "write_step d h = Inl (st, d, h1)" using Inl r False by (simp add: write_step_def)
      from write_state_end [OF less.prems(1) scn this] have e: "T = LEN" "(st, h1) = complete_success TOther h" by auto
      then have "h1 = snd (complete_success TOther h)" by (metis snd_conv)
      moreover have "code_run lower d0 h0 n True d h1" using less.prems(5) False unfolding l by simp
      ultimately show ?thesis using less.prems(1,2) e(1) by (intro exI [of _ n] exI [of _ d] exI [of _ h]) simp
    qed
  qed
qed

text \<open>Every transfer boundary of a request; \<open>scn_now\<close> stays within what the request may use.\<close>

lemma loop_run_brisk:
  "write_loop h = (st, h') \<Longrightarrow> write_state M f LBA LEN data ds T d h \<Longrightarrow> alone (hs_Ctx h) \<Longrightarrow> brisk (hs_Ctx h) \<Longrightarrow>
   scn_now (hs_Ctx h) + switches (LBA + T) h \<le> b \<Longrightarrow> b < 4294967295 \<Longrightarrow>
   \<exists>g T'. write_state M f LBA LEN data ds T' d g \<and> write_iter g = Inl (st, h') \<and> alone (hs_Ctx g) \<and> brisk (hs_Ctx g) \<and>
     side (hs_Ctx g) = side (hs_Ctx h) \<and> scn_now (hs_Ctx g) + switches (LBA + T') g \<le> b"
proof (induction h arbitrary: T rule: write_loop.induct)
  case (1 h)
  show ?case
  proof (cases "write_iter h")
    case (Inl r)
    then have "write_iter h = Inl (st, h')" using "1.prems"(1) by (simp add: write_loop.simps [of h])
    then show ?thesis using "1.prems" by blast
  next
    case (Inr h1)
    have "tame h (write_iter h)" using tame_write_iter "1.prems"(3) .
    then have t: "side (hs_Ctx h1) = side (hs_Ctx h)" using Inr by (simp add: tame_def)
    have s: "write_step d h = Inr (d, h1)" using Inr by (simp add: write_step_def)
    have sl: "scn_left (hs_Ctx h)" using "1.prems"(5,6) by (simp add: scn_left_def scn_now_def)
    obtain T1 where ws: "write_state M f LBA LEN data ds T1 d h1" using write_state_step [OF "1.prems"(2) sl s] by blast
    note e = step_effort [OF "1.prems"(2,4) sl s ws]
    have "write_loop h1 = (st, h')" using "1.prems"(1) Inr by (simp add: write_loop.simps [of h])
    from "1.IH" [OF Inr this ws alone_side [OF t "1.prems"(3)]] e t "1.prems"(5,6) show ?thesis by simp
  qed
qed

lemma code_run_brisk:
  assumes "code_run lower d0 h0 n fin d h" "write_state M f LBA LEN data ds 0 d0 h0" "alone (hs_Ctx h0)" "brisk (hs_Ctx h0)"
    "scn_now (hs_Ctx h0) + LEN + 1 < 4294967295"
  shows "\<exists>g T st. write_state M f LBA LEN data ds T d g \<and> write_iter g = Inl (st, h) \<and> fin = (st \<noteq> STATUS_PENDING) \<and>
    alone (hs_Ctx g) \<and> brisk (hs_Ctx g) \<and> side (hs_Ctx g) = side (hs_Ctx h0) \<and>
    scn_now (hs_Ctx g) + switches (LBA + T) g \<le> scn_now (hs_Ctx h0) + LEN + 1"
  using assms
proof (induction rule: code_run.induct)
  case (begin_run st h)
  have "write_loop h0 = (st, h)" using begin_run.hyps by (simp add: handler_mapped [OF begin_run.prems(2)])
  moreover have "write_todo h0 = LEN" using begin_run.prems(1) by (simp add: write_state_def write_todo_def job_def)
  then have "scn_now (hs_Ctx h0) + switches (LBA + 0) h0 \<le> scn_now (hs_Ctx h0) + LEN + 1" by (simp add: switches_def)
  ultimately show ?case using loop_run_brisk [of h0 st h M f LBA LEN data ds 0 d0] begin_run.prems by blast
next
  case (serve n d h fin d' h')
  let ?b = "scn_now (hs_Ctx h0) + LEN + 1"
  from serve.IH [OF serve.prems]
  obtain g T st where g: "write_state M f LBA LEN data ds T d g" "write_iter g = Inl (st, h)" "st = STATUS_PENDING"
    "alone (hs_Ctx g)" "brisk (hs_Ctx g)" "scn_now (hs_Ctx g) + switches (LBA + T) g \<le> ?b" "side (hs_Ctx g) = side (hs_Ctx h0)" by auto
  have t: "side (hs_Ctx h) = side (hs_Ctx g)" "own_req h"
    using tame_write_iter [OF g(4)] g(2,3) by (simp_all add: tame_def)
  have ah: "alone (hs_Ctx h)" using alone_side [OF t(1) g(4)] .
  define h1 where "h1 = snd (served d h)"
  have cs: "fin = (fst (write_loop h1) \<noteq> STATUS_PENDING)" "d' = fst (served d h)" "write_loop h1 = (fst (write_loop h1), h')"
    using serve.hyps(2) unfolding code_step_write [OF t(2) ah] h1_def by (auto simp: case_prod_beta prod_eq_iff)
  have sl: "scn_left (hs_Ctx g)" using g(6) serve.prems(4) by (simp add: scn_left_def scn_now_def)
  have s: "write_step d g = Inr (d', h1)" using g(2,3) cs(2) by (simp add: write_step_def h1_def)
  obtain T1 where w1: "write_state M f LBA LEN data ds T1 d' h1" using write_state_step [OF g(1) sl s] by blast
  note e = step_effort [OF g(1,5) sl s w1]
  have sd: "side (hs_Ctx h1) = side (hs_Ctx g)" using side_served [OF t(2), of d] t by (simp add: h1_def)
  then have a1: "alone (hs_Ctx h1)" using alone_side g(4) by blast
  have "scn_now (hs_Ctx h1) + switches (LBA + T1) h1 \<le> ?b" using e g(6) by linarith
  from loop_run_brisk [OF cs(3) w1 a1 _ this serve.prems(4)] e obtain g' T' where
    r: "write_state M f LBA LEN data ds T' d' g'" "write_iter g' = Inl (fst (write_loop h1), h')" "alone (hs_Ctx g')" "brisk (hs_Ctx g')"
    "side (hs_Ctx g') = side (hs_Ctx h1)" "scn_now (hs_Ctx g') + switches (LBA + T') g' \<le> ?b" by blast
  have "side (hs_Ctx g') = side (hs_Ctx h0)" using r(5) sd g(7) by simp
  then show ?case using r(1-4,6) cs(1) by blast
qed

lemma write_request_recorded:
  assumes inv: "ftl_inv d0 (hs_Ctx h0)" "hs_Mode h0 = VLTL_MODE_ACTIVE" and al: "alone (hs_Ctx h0)" and b: "brisk (hs_Ctx h0)"
    and t: "t = OtherThread (hs_Ctx h0)" "th_Transferred t = 0" "th_LBA t + th_LEN t \<le> 8 * SIZE_OF_MAP (hs_Ctx h0)"
    and ip: "th_Irp t = Some ip" and scn: "scn_now (hs_Ctx h0) + th_LEN t + 1 < 4294967295"
    and rec: "on_record M {} d0 (hs_Ctx h0)"
  shows "\<exists>n d h p. n < (th_LEN t + 1) * MUCH \<and> code_run lower d0 h0 n True d h \<and> ftl_inv d (hs_Ctx h) \<and> brisk (hs_Ctx h) \<and>
    (\<forall>L. in_dev (hs_Ctx h) L \<longrightarrow> vread d (hs_Ctx h) L =
       (if th_LBA t \<le> L \<and> L < th_LBA t + th_LEN t then th_Data t (L - th_LBA t) else vread d0 (hs_Ctx h0) L)) \<and>
    SIZE_OF_MAP (hs_Ctx h) = SIZE_OF_MAP (hs_Ctx h0) \<and> th_Irp (OtherThread (hs_Ctx h)) = None \<and>
    th_Data (OtherThread (hs_Ctx h)) = th_Data t \<and>
    hs_Done h = hs_Done h0 @ [write_answer (th_LEN t) (ip\<lparr>irp_Pending := p\<rparr>)] \<and>
    scn_now (hs_Ctx h) \<le> scn_now (hs_Ctx h0) + th_LEN t + 1 \<and>
    on_record M ((\<lambda>k. overwritten (vread d0 (hs_Ctx h0)) (th_LBA t) k (th_Data t)) ` {..th_LEN t}) d (hs_Ctx h)"
proof -
  let ?L = "th_LBA t" and ?N = "th_LEN t"
  have ws: "write_state M (vread d0 (hs_Ctx h0)) ?L ?N (th_Data t) (hs_Done h0) 0 d0 h0"
    using inv t on_record_mono [OF rec] by (auto simp: write_state_def job_def overwritten_def)
  have todo: "write_todo h0 = ?N" using t by (simp add: write_todo_def)
  then have sw: "switches (?L + 0) h0 \<le> ?N + 1" by (simp add: switches_def)
  then have s0: "scn_now (hs_Ctx h0) + switches (?L + 0) h0 < 4294967295" using scn by linarith
  have "code_run lower d0 h0 0 (fst (write_loop h0) \<noteq> STATUS_PENDING) d0 (snd (write_loop h0))"
    by (rule code_run.begin_run) (simp add: handler_mapped [OF al])
  from write_ends [OF ws b al s0 this]
  obtain n d g where r: "n \<le> effort (?L + 0) h0" "code_run lower d0 h0 n True d (snd (complete_success TOther g))"
    and wg: "write_state M (vread d0 (hs_Ctx h0)) ?L ?N (th_Data t) (hs_Done h0) ?N d g" and g: "brisk (hs_Ctx g)"
      "side (hs_Ctx g) = side (hs_Ctx h0)" "scn_now (hs_Ctx g) \<le> scn_now (hs_Ctx h0) + switches (?L + 0) h0" by auto
  let ?h = "snd (complete_success TOther g)"
  have S: "same_ftl (hs_Ctx g) (hs_Ctx ?h)" by (rule complete_success_same)
  have "n < (?N + 1) * MUCH" using r(1) rank_bound [OF inv(1), of "?L + 0"] todo by (simp add: effort_def)
  moreover obtain i where i: "th_Irp (OtherThread (hs_Ctx g)) = Some i" "i\<lparr>irp_Pending := True\<rparr> = ip\<lparr>irp_Pending := True\<rparr>"
    using g(2) ip t(1) by (auto simp: side_def)
  have "i = i\<lparr>irp_Pending := True\<rparr>\<lparr>irp_Pending := irp_Pending i\<rparr>" by simp
  then have e: "i = ip\<lparr>irp_Pending := irp_Pending i\<rparr>" unfolding i(2) by simp
  have tr: "th_Transferred (OtherThread (hs_Ctx g)) = ?N" "hs_Done g = hs_Done h0" "th_Data (OtherThread (hs_Ctx g)) = th_Data t" using wg by (simp_all add: write_state_def job_def)
  have "hs_Done ?h = hs_Done h0 @ [write_answer ?N i]" "th_Irp (OtherThread (hs_Ctx ?h)) = None"
    "th_Data (OtherThread (hs_Ctx ?h)) = th_Data t"
    using i(1) tr by (simp_all add: complete_success_def complete_irp_def write_answer_def Let_def)
  moreover have "ftl_inv d (hs_Ctx ?h)" "brisk (hs_Ctx ?h)" "scn_now (hs_Ctx ?h) = scn_now (hs_Ctx g)"
    using wg g(1) ftl_inv_same [OF S] same_rank(2,3) [OF S] by (simp_all add: write_state_def)
  moreover have "\<forall>L. in_dev (hs_Ctx ?h) L \<longrightarrow> vread d (hs_Ctx ?h) L = overwritten (vread d0 (hs_Ctx h0)) ?L ?N (th_Data t) L"
    using wg vread_same [OF S] S by (simp add: write_state_def in_dev_def same_ftl_def)
  moreover have "SIZE_OF_MAP (hs_Ctx ?h) = SIZE_OF_MAP (hs_Ctx h0)" using g(2) S by (simp add: side_def same_ftl_def)
  moreover have "on_record M ((\<lambda>k. overwritten (vread d0 (hs_Ctx h0)) ?L k (th_Data t)) ` {..?N}) d (hs_Ctx ?h)"
    using wg on_record_same [OF _ S] by (simp add: write_state_def)
  ultimately show ?thesis using r(2) g(3) sw e
    by (intro exI [of _ n] exI [of _ d] exI [of _ ?h] exI [of _ "irp_Pending i"]) (simp add: overwritten_def)
qed

lemma write_request_total:
  assumes inv: "ftl_inv d0 (hs_Ctx h0)" "hs_Mode h0 = VLTL_MODE_ACTIVE" and al: "alone (hs_Ctx h0)" and b: "brisk (hs_Ctx h0)"
    and t: "t = OtherThread (hs_Ctx h0)" "th_Transferred t = 0" "th_LBA t + th_LEN t \<le> 8 * SIZE_OF_MAP (hs_Ctx h0)"
    and ip: "th_Irp t = Some ip" and scn: "scn_now (hs_Ctx h0) + th_LEN t + 1 < 4294967295"
  shows "\<exists>n d h p. n < (th_LEN t + 1) * MUCH \<and> code_run lower d0 h0 n True d h \<and> ftl_inv d (hs_Ctx h) \<and> brisk (hs_Ctx h) \<and>
    (\<forall>L. in_dev (hs_Ctx h) L \<longrightarrow> vread d (hs_Ctx h) L =
       (if th_LBA t \<le> L \<and> L < th_LBA t + th_LEN t then th_Data t (L - th_LBA t) else vread d0 (hs_Ctx h0) L)) \<and>
    SIZE_OF_MAP (hs_Ctx h) = SIZE_OF_MAP (hs_Ctx h0) \<and> th_Irp (OtherThread (hs_Ctx h)) = None \<and>
    th_Data (OtherThread (hs_Ctx h)) = th_Data t \<and>
    hs_Done h = hs_Done h0 @ [write_answer (th_LEN t) (ip\<lparr>irp_Pending := p\<rparr>)] \<and>
    scn_now (hs_Ctx h) \<le> scn_now (hs_Ctx h0) + th_LEN t + 1"
  using write_request_recorded [OF assms on_record_None] by blast

section \<open>Property\<close>

text \<open>
  C4. A write request always ends, and does what a disk does. From consistent tables, with relocation at
  the pace \<open>FindNextChunk\<close> sets, the handler and the completions of its transfers end the request in
  boundedly many transfers; the sectors of the request then read as the data written and all others as
  before, the \<open>IRP\<close> is completed with success and the full length, the tables are consistent and the pace
  is kept. The sequence number of the chunks goes up by one for each sector at most.
\<close>

theorem write_request_ends:
  assumes inv: "ftl_inv d0 (hs_Ctx h0)" "hs_Mode h0 = VLTL_MODE_ACTIVE" and al: "alone (hs_Ctx h0)" and b: "brisk (hs_Ctx h0)"
    and t: "t = OtherThread (hs_Ctx h0)" "th_Transferred t = 0" "th_LBA t + th_LEN t \<le> 8 * SIZE_OF_MAP (hs_Ctx h0)"
    and ip: "th_Irp t = Some ip" and scn: "scn_now (hs_Ctx h0) + th_LEN t + 1 < 4294967295"
  shows "\<exists>n d h p. n < (th_LEN t + 1) * MUCH \<and> code_run lower d0 h0 n True d h \<and> ftl_inv d (hs_Ctx h) \<and> brisk (hs_Ctx h) \<and>
    (\<forall>L. in_dev (hs_Ctx h) L \<longrightarrow> vread d (hs_Ctx h) L =
       (if th_LBA t \<le> L \<and> L < th_LBA t + th_LEN t then th_Data t (L - th_LBA t) else vread d0 (hs_Ctx h0) L)) \<and>
    SIZE_OF_MAP (hs_Ctx h) = SIZE_OF_MAP (hs_Ctx h0) \<and> th_Irp (OtherThread (hs_Ctx h)) = None \<and>
    th_Data (OtherThread (hs_Ctx h)) = th_Data t \<and>
    hs_Done h = hs_Done h0 @ [write_answer (th_LEN t) (ip\<lparr>irp_Pending := p\<rparr>)] \<and>
    scn_now (hs_Ctx h) \<le> scn_now (hs_Ctx h0) + th_LEN t + 1"
  by (rule write_request_total [OF assms])

lemma demo_brisk: "brisk (hs_Ctx demo)"
  by (simp add: brisk_def demo_def demo_ctx_def zero_ctx_def used_set_def)

theorem write_request_ends_witness:
  "\<exists>n d h. code_run (\<lambda>i. (STATUS_SUCCESS, i)) blank demo n True d h \<and> vread d (hs_Ctx h) 1 = (\<lambda>_. 7)"
proof -
  have t: "demo_thread = OtherThread (hs_Ctx demo)" by (simp add: demo_def demo_ctx_def)
  have f: "th_Transferred demo_thread = 0" "th_LBA demo_thread = 1" "th_LEN demo_thread = 1" "th_Irp demo_thread = Some demo_irp"
    "th_Data demo_thread = (\<lambda>_ _. 7)" by (simp_all add: demo_thread_def zero_thread_def)
  have "th_LBA demo_thread + th_LEN demo_thread \<le> 8 * SIZE_OF_MAP (hs_Ctx demo)"
    "scn_now (hs_Ctx demo) + th_LEN demo_thread + 1 < 4294967295" using demo_facts f by simp_all
  from write_request_ends [OF demo_inv demo_facts(1,2) demo_brisk t f(1) this(1) f(4) this(2), of "\<lambda>i. (STATUS_SUCCESS, i)"]
  obtain n d h where "code_run (\<lambda>i. (STATUS_SUCCESS, i)) blank demo n True d h" "SIZE_OF_MAP (hs_Ctx h) = SIZE_OF_MAP (hs_Ctx demo)"
    "\<forall>L. in_dev (hs_Ctx h) L \<longrightarrow> vread d (hs_Ctx h) L =
       (if 1 \<le> L \<and> L < 1 + 1 then (\<lambda>_. 7) else vread blank (hs_Ctx demo) L)" unfolding f by blast
  then show ?thesis using demo_facts(6) by (intro exI [of _ n] exI [of _ d] exI [of _ h]) (simp add: in_dev_def)
qed

end
