(* ===== verification/Bytes.thy ===== *)
theory Bytes
  imports Prelude
begin

text \<open>
  Memory by bytes: the driver builds sectors and answers byte by byte on a little-endian machine.
  A sector is read as 128 words; byte \<open>a\<close> of a buffer is byte \<open>a mod 4\<close> of word
  \<open>a mod 512 div 4\<close> of sector \<open>a div 512\<close>.
\<close>

unbundle bit_operations_syntax

definition get_byte :: "nat \<Rightarrow> u32 \<Rightarrow> u8" where
  "get_byte b w = ucast (drop_bit (8 * b) w)"

definition set_byte :: "nat \<Rightarrow> u8 \<Rightarrow> u32 \<Rightarrow> u32" where
  "set_byte b v w = (w AND NOT (push_bit (8 * b) (mask 8))) OR push_bit (8 * b) (ucast v)"

lemma get_set_byte [simp]: "b < 4 \<Longrightarrow> get_byte b (set_byte b v w) = v"
  by (rule bit_word_eqI) (auto simp: get_byte_def set_byte_def bit_simps)

lemma get_set_byte_other [simp]:
  assumes "b \<noteq> b'" "b' < 4"
  shows "get_byte b' (set_byte b v w) = get_byte b' w"
proof (rule bit_word_eqI)
  fix n assume "n < LENGTH(8)"
  then have n: "n < 8" by simp
  have k: "\<not> bit v (8 * b' + n - 8 * b)" "\<not> 8 * b' + n - 8 * b < 8" if "8 * b \<le> 8 * b' + n"
    using that assms n by (auto dest!: bit_imp_le_length)
  show "bit (get_byte b' (set_byte b v w)) n = bit (get_byte b' w) n"
    using n assms k by (auto simp: get_byte_def set_byte_def bit_simps)
qed

definition byte_at :: "mem \<Rightarrow> nat \<Rightarrow> u8" where
  "byte_at m a = get_byte (a mod 4) (m (a div 512) (a mod 512 div 4))"

definition put_byte :: "nat \<Rightarrow> u8 \<Rightarrow> mem \<Rightarrow> mem" where
  "put_byte a v m =
     m(a div 512 := (m (a div 512))(a mod 512 div 4 := set_byte (a mod 4) v (m (a div 512) (a mod 512 div 4))))"

lemma same_byte:
  assumes "a div 512 = b div 512" "a mod 512 div 4 = b mod 512 div 4" "a mod 4 = (b mod 4 :: nat)"
  shows "a = b"
proof -
  have "x = 512 * (x div 512) + (4 * (x mod 512 div 4) + x mod 4)" for x :: nat
  proof -
    have "x mod 512 mod 4 = x mod 4" by (rule mod_mod_cancel) simp
    then show ?thesis using mult_div_mod_eq [of 4 "x mod 512"] mult_div_mod_eq [of 512 x] by simp
  qed
  then show ?thesis using assms by metis
qed

lemma byte_put [simp]: "byte_at (put_byte a v m) b = (if a = b then v else byte_at m b)"
  by (cases "a mod 4 = b mod 4") (use same_byte [of a b] in \<open>auto simp: byte_at_def put_byte_def\<close>)

text \<open>\<open>RtlCopyMemory(buf + a, xs, sizeof(xs))\<close>, and the stores of a \<open>ULONG\<close> and of single words.\<close>

fun put_bytes :: "nat \<Rightarrow> u8 list \<Rightarrow> mem \<Rightarrow> mem" where
  "put_bytes a [] m = m"
| "put_bytes a (x # xs) m = put_bytes (a + 1) xs (put_byte a x m)"

lemma byte_put_bytes [simp]:
  "byte_at (put_bytes a xs m) b = (if a \<le> b \<and> b < a + length xs then xs ! (b - a) else byte_at m b)"
  by (induction a xs m rule: put_bytes.induct) (auto simp: nth_Cons')

definition le32 :: "u32 \<Rightarrow> u8 list" where
  "le32 w = map (\<lambda>b. get_byte b w) [0..<4]"

definition be32_bytes :: "u32 \<Rightarrow> u8 list" where
  "be32_bytes w = rev (le32 w)"

lemma length_le32 [simp]: "length (le32 w) = 4" "length (be32_bytes w) = 4"
  by (simp_all add: le32_def be32_bytes_def)

definition put_ulong :: "nat \<Rightarrow> u32 \<Rightarrow> mem \<Rightarrow> mem" where
  "put_ulong a w m = put_bytes a (le32 w) m"

lemma word_of_bytes:
  assumes "\<And>b. b < 4 \<Longrightarrow> get_byte b w = get_byte b w'"
  shows "w = w'"
proof (rule bit_word_eqI)
  fix n assume "n < LENGTH(32)"
  then have n: "n div 8 < 4" "n < 32" by auto
  have "bit (get_byte (n div 8) x) (n mod 8) = bit x n" for x
    using n by (simp add: get_byte_def bit_simps)
  then show "bit w n = bit w' n" using assms [OF n(1)] by metis
qed

end
