(* ===== verification/Gate.thy ===== *)
theory Gate
  imports Vflush Bytes
begin

text \<open>
  \<open>driver/vgate.c\<close>: the gate all requests pass. Ten read threads and one other thread serve them;
  what finds no thread free waits in a queue. Each section the code runs under \<open>GlobalSpinLock\<close>
  is a function from context to context, so that any interleaving of the sections is a sequence of
  calls of these functions.
\<close>

section \<open>Entering\<close>

text \<open>\<open>Run t\<close> is \<open>DoNow\<close> with the thread that serves the request, \<open>NotReady\<close> is \<open>IsModeChanged\<close>.\<close>

datatype entry = NotReady | Run tid | Queued

definition sub8 :: "nat \<Rightarrow> nat \<Rightarrow> nat" where
  "sub8 a b = (a + (256 - b)) mod 256"

lemma sub8_id [simp]: "b \<le> a \<Longrightarrow> a < 256 \<Longrightarrow> sub8 a b = a - b"
  by (simp add: sub8_def mod_if)

definition take_thread :: "ctx \<Rightarrow> tid \<times> ctx" where
  "take_thread c =
     (let i = ReadFreeList c; t = ReadThread c i
      in (TRead i, c\<lparr>ReadFreeList := th_FreeLink t, ReadThread := (ReadThread c)(i := t\<lparr>th_FreeLink := 255\<rparr>),
                     ReadActive := ReadActive c + 1\<rparr>))"

definition dispatch_enter :: "bool \<Rightarrow> irp \<Rightarrow> vmode \<Rightarrow> ctx \<Rightarrow> entry \<times> ctx" where
  "dispatch_enter IsRead i mode c =
     (if mode \<noteq> VLTL_MODE_ACTIVE then (NotReady, c)
      else if IsRead
      then let c1 = c\<lparr>ReadPending := wrap32 (ReadPending c + 1)\<rparr> in
        if ReadActive c1 < READ_THREADS
        then let (t, c2) = take_thread c1 in (Run t, c2)
        else (Queued, c1\<lparr>ReadIrpQueue := ReadIrpQueue c1 @ [i]\<rparr>)
      else let c1 = c\<lparr>OtherPending := wrap32 (OtherPending c + 1)\<rparr> in
        if OtherActive c1 = 0
        then (Run TOther, c1\<lparr>OtherActive := OtherActive c1 + 1\<rparr>)
        else (Queued, c1\<lparr>OtherIrpQueue := OtherIrpQueue c1 @ [i]\<rparr>))"

section \<open>Leaving\<close>

text \<open>
  What \<open>LevelingThreadCompletion\<close> has decided when it releases the lock: \<open>a_Now\<close> is the request
  to run next (\<open>DoNow\<close>).
\<close>

record after =
  a_Clean :: bool
  a_Now :: "irp option"
  a_WriteComplete :: bool
  a_Flush :: bool

definition release_thread :: "tid \<Rightarrow> ctx \<Rightarrow> ctx" where
  "release_thread t c =
     (let th = get_thread c t
      in (set_thread t (th\<lparr>th_FreeLink := ReadFreeList c\<rparr>) c)
           \<lparr>ReadFreeList := th_Index th, ReadActive := sub8 (ReadActive c) 1\<rparr>)"

definition leave_read :: "bool \<Rightarrow> tid \<Rightarrow> ctx \<Rightarrow> irp option \<times> ctx" where
  "leave_read IsError t c =
     (let c1 = c\<lparr>ReadPending := sub32 (ReadPending c) 1\<rparr> in
      if \<not> IsError \<and> ReadIrpQueue c1 \<noteq> []
      then (Some (hd (ReadIrpQueue c1)), c1\<lparr>ReadIrpQueue := tl (ReadIrpQueue c1)\<rparr>)
      else (None, release_thread t c1))"

definition KeSetTimer :: "ctx \<Rightarrow> ctx" where
  "KeSetTimer c = c\<lparr>Timer := True\<rparr>"

definition start_timer :: "ctx \<Rightarrow> ctx" where
  "start_timer c =
     (if CacheDirty c \<and> \<not> TimerActive c \<and> 0 < CacheTimeout c then KeSetTimer (c\<lparr>TimerActive := True\<rparr>) else c)"

definition leave_other :: "bool \<Rightarrow> ctx \<Rightarrow> irp option \<times> bool \<times> ctx" where
  "leave_other IsError c =
     (let c1 = c\<lparr>OtherPending := sub32 (OtherPending c) 1, OtherActive := sub8 (OtherActive c) 1\<rparr> in
      if \<not> IsError \<and> OtherIrpQueue c1 \<noteq> []
      then (Some (hd (OtherIrpQueue c1)), False,
            c1\<lparr>OtherIrpQueue := tl (OtherIrpQueue c1), OtherActive := OtherActive c1 + 1\<rparr>)
      else if FlushPending c1
      then if CacheDirty c1 \<and> \<not> IsError
        then (None, True, c1\<lparr>OtherPending := wrap32 (OtherPending c1 + 1), OtherActive := OtherActive c1 + 1,
                             FlushPending := False, TimerActive := False\<rparr>)
        else (None, False, start_timer (c1\<lparr>FlushPending := False, TimerActive := False\<rparr>))
      else (None, False, start_timer c1))"

definition unmark :: "tid \<Rightarrow> ctx \<Rightarrow> ctx" where
  "unmark t c =
     (let th = get_thread c t in
      if th_Marked th
      then (set_thread t (th\<lparr>th_Marked := False\<rparr>) c)\<lparr>ThreadsMarked := sub8 (ThreadsMarked c) 1\<rparr>
      else c)"

definition wake_writer :: "ctx \<Rightarrow> bool \<times> ctx" where
  "wake_writer c =
     (if ThreadsMarked c = 0 \<and> WaitingMarkedThreads c
      then (True, c\<lparr>WaitingMarkedThreads := False\<rparr>) else (False, c))"

definition completion_locked :: "tid \<Rightarrow> vmode \<Rightarrow> ctx \<Rightarrow> after \<times> ctx" where
  "completion_locked t mode c =
     (let IsError = (mode \<noteq> VLTL_MODE_ACTIVE);
          (now, flush, c1) =
            (if th_IsRead (get_thread c t)
             then let (now, c1) = leave_read IsError t c in (now, False, c1)
             else leave_other IsError c);
          (wake, c2) = wake_writer (unmark t c1)
      in (\<lparr>a_Clean = (IsError \<and> ReadActive c2 = 0 \<and> OtherActive c2 = 0), a_Now = now,
           a_WriteComplete = wake, a_Flush = flush\<rparr>, c2))"

section \<open>The timer\<close>

definition flush_dpc :: "vmode \<Rightarrow> ctx \<Rightarrow> bool \<times> ctx" where
  "flush_dpc mode c =
     (if OtherActive c = 0
      then let flush = (CacheDirty c \<and> mode = VLTL_MODE_ACTIVE);
               c1 = (if flush then c\<lparr>OtherPending := wrap32 (OtherPending c + 1), OtherActive := OtherActive c + 1\<rparr> else c)
        in (flush, c1\<lparr>FlushPending := False, TimerActive := False\<rparr>)
      else (False, c\<lparr>FlushPending := True\<rparr>))"

section \<open>Cleaning up after a change of mode\<close>

definition clean_step :: "vmode \<Rightarrow> ctx \<Rightarrow> irp option \<times> ctx" where
  "clean_step mode c =
     (if mode \<noteq> VLTL_MODE_ACTIVE
      then if ReadIrpQueue c \<noteq> []
        then (Some (hd (ReadIrpQueue c)), c\<lparr>ReadIrpQueue := tl (ReadIrpQueue c), ReadPending := sub32 (ReadPending c) 1\<rparr>)
        else if OtherIrpQueue c \<noteq> []
        then (Some (hd (OtherIrpQueue c)), c\<lparr>OtherIrpQueue := tl (OtherIrpQueue c), OtherPending := sub32 (OtherPending c) 1\<rparr>)
        else (None, c)
      else (None, c))"

lemma clean_step_shorter:
  "clean_step mode c = (Some i, c') \<Longrightarrow>
   length (ReadIrpQueue c') + length (OtherIrpQueue c') < length (ReadIrpQueue c) + length (OtherIrpQueue c)"
  by (auto simp: clean_step_def split: if_splits)

text \<open>The loop of \<open>LevelingCleanAfterModeChanged\<close> while the mode does not change again.\<close>

function LevelingCleanAfterModeChanged :: "hs \<Rightarrow> hs" where
  "LevelingCleanAfterModeChanged h =
     (case clean_step (hs_Mode h) (hs_Ctx h) of
        (None, c) \<Rightarrow> h\<lparr>hs_Ctx := c\<rparr>
      | (Some i, c) \<Rightarrow>
          LevelingCleanAfterModeChanged (h\<lparr>hs_Ctx := c, hs_Done := hs_Done h @ [snd (not_ready (hs_Mode h) i)]\<rparr>))"
  by pat_completeness auto
termination
  by (relation "measure (\<lambda>h. length (ReadIrpQueue (hs_Ctx h)) + length (OtherIrpQueue (hs_Ctx h)))")
     (auto intro: clean_step_shorter [OF sym])

declare LevelingCleanAfterModeChanged.simps [simp del]

section \<open>Small answers\<close>

text \<open>An answer of \<open>n\<close> bytes with good status, and the error answer of the two routines below.\<close>

definition answer_good :: "nat \<Rightarrow> irp \<Rightarrow> irp" where
  "answer_good n i = i\<lparr>irp_Srb := good_srb n (irp_Srb i), irp_Information := n, irp_Status := STATUS_SUCCESS\<rparr>"

definition answer_bad :: "ntstatus \<Rightarrow> irp \<Rightarrow> irp" where
  "answer_bad st i = i\<lparr>irp_Srb := bad_srb (irp_Srb i), irp_Information := 0, irp_Status := st\<rparr>"

text \<open>\<open>f\<close> fills the caller's buffer.\<close>

definition answer_data :: "tid \<Rightarrow> nat \<Rightarrow> (mem \<Rightarrow> mem) \<Rightarrow> hs \<Rightarrow> ntstatus \<times> hs" where
  "answer_data t n f h =
     (let (ok, th) = GetDataSystemAddress n False (get_thread (hs_Ctx h) t) in
      if ok
      then (STATUS_SUCCESS, complete_irp t (answer_good n) (upd_thread t (\<lambda>_. th\<lparr>th_Data := f (th_Data th)\<rparr>) h))
      else (STATUS_UNSUCCESSFUL, complete_irp t (answer_bad STATUS_UNSUCCESSFUL) h))"

text \<open>The bits of the command block that must be clear: \<open>RELADR\<close>, the unit number, \<open>PMI\<close>.\<close>

definition capacity_refused :: "srb \<Rightarrow> bool" where
  "capacity_refused s \<longleftrightarrow>
     srb_Cdb s 1 mod 2 \<noteq> 0 \<or> srb_Cdb s 1 mod 256 div 32 \<noteq> 0 \<or> srb_Cdb s 8 mod 2 \<noteq> 0"

definition ExecuteReadCapacity :: "tid \<Rightarrow> irp \<Rightarrow> hs \<Rightarrow> ntstatus \<times> hs" where
  "ExecuteReadCapacity t i h =
     (if capacity_refused (irp_Srb i)
      then (STATUS_UNSUCCESSFUL, complete_irp t (answer_bad STATUS_UNSUCCESSFUL) h)
      else answer_data t 8
        (\<lambda>m. put_bytes 4 (be32_bytes 512)
               (put_bytes 0 (be32_bytes (of_nat (sub32 (wrap32 (SIZE_OF_MAP (hs_Ctx h) * 8)) 1))) m)) h)"

definition ModeSenseData3f :: "u8 list" where
  "ModeSenseData3f =
    [0x23, 0x00, 0x00, 0x00, 0x08, 0x12, 0x05, 0x00, 0x00, 0x00, 0x00, 0x00, 0x00, 0x00, 0x00, 0x00,
     0x60, 0x00, 0x00, 0x00, 0x00, 0x00, 0x00, 0x00, 0x1c, 0x0a, 0x08, 0x00, 0x00, 0x00, 0x00, 0x00,
     0x00, 0x00, 0x00, 0x00]"

definition ModeSenseData08 :: "u8 list" where
  "ModeSenseData08 =
    [0x17, 0x00, 0x00, 0x00, 0x08, 0x12, 0x05, 0x00, 0x00, 0x00, 0x00, 0x00, 0x00, 0x00, 0x00, 0x00,
     0x60, 0x00, 0x00, 0x00, 0x00, 0x00, 0x00, 0x00]"

definition ModeSenseData1c :: "u8 list" where
  "ModeSenseData1c =
    [0x0f, 0x00, 0x00, 0x00, 0x1c, 0x0a, 0x08, 0x00, 0x00, 0x00, 0x00, 0x00, 0x00, 0x00, 0x00, 0x00]"

text \<open>\<open>Srb->Cdb[2] & 0x3f\<close> selects the page.\<close>

definition mode_page :: "srb \<Rightarrow> u8 list option" where
  "mode_page s =
     (let p = srb_Cdb s 2 mod 64 in
      if p = 0x3f then Some ModeSenseData3f
      else if p = 0x08 then Some ModeSenseData08
      else if p = 0x1c then Some ModeSenseData1c
      else None)"

definition mode_length :: "srb \<Rightarrow> u8 list \<Rightarrow> nat" where
  "mode_length s d = min (min (length d) (srb_DataTransferLength s)) (srb_Cdb s 4)"

definition ExecuteModeSense :: "tid \<Rightarrow> irp \<Rightarrow> hs \<Rightarrow> ntstatus \<times> hs" where
  "ExecuteModeSense t i h =
     (case mode_page (irp_Srb i) of
        None \<Rightarrow> (STATUS_UNSUCCESSFUL, complete_irp t (answer_bad STATUS_UNSUCCESSFUL) h)
      | Some d \<Rightarrow>
          let n = mode_length (irp_Srb i) d in answer_data t n (put_bytes 0 (take n d)) h)"

section \<open>Running a request on a thread\<close>

text \<open>
  \<open>um i\<close> is what the caller's buffer of the request holds. \<open>attach\<close> is the head of
  \<open>ExecuteThread\<close>; \<open>u\<close> stands for the status variable where no branch of \<open>ExecuteRW\<close> sets it.
\<close>

definition attach :: "(irp \<Rightarrow> mem) \<Rightarrow> tid \<Rightarrow> irp \<Rightarrow> hs \<Rightarrow> hs" where
  "attach um t i =
     upd_thread t (\<lambda>th. th\<lparr>th_Irp := Some i, th_Mdl := irp_Mdl i, th_DataSystemAddress := None, th_Data := um i\<rparr>)"

definition flush_or_pass :: "lower \<Rightarrow> tid \<Rightarrow> hs \<Rightarrow> ntstatus \<times> hs" where
  "flush_or_pass lower t h =
     (if FlushFaithfully (hs_Ctx h) then ExecuteFlush lower False h else ExecutePass lower t h)"

definition execute_scsi :: "lower \<Rightarrow> ntstatus \<Rightarrow> tid \<Rightarrow> irp \<Rightarrow> hs \<Rightarrow> ntstatus \<times> hs" where
  "execute_scsi lower u t i h =
     (let s = irp_Srb i in
      case srb_op s of
        SCSIOP_VERIFY \<Rightarrow> (STATUS_SUCCESS, complete_irp t (answer_good (be16 (srb_Cdb s 7) (srb_Cdb s 8) * 512)) h)
      | SCSIOP_TEST_UNIT_READY \<Rightarrow> ExecutePass lower t h
      | SCSIOP_MEDIUM_REMOVAL \<Rightarrow> ExecutePass lower t h
      | SCSIOP_READ_CAPACITY \<Rightarrow> ExecuteReadCapacity t i h
      | SCSIOP_READ \<Rightarrow> ExecuteRW u t h
      | SCSIOP_WRITE \<Rightarrow> ExecuteRW u t h
      | SCSIOP_MODE_SENSE \<Rightarrow> ExecuteModeSense t i h
      | SCSIOP_SYNCHRONIZE_CACHE \<Rightarrow> flush_or_pass lower t h
      | SCSIOP_START_STOP_UNIT \<Rightarrow>
          if srb_Cdb s 4 mod 4 = 2 then ExecuteFlush lower True h else ExecutePass lower t h
      | _ \<Rightarrow> (STATUS_IO_DEVICE_ERROR, complete_irp t invalid_cdb h))"

definition ExecuteThread :: "lower \<Rightarrow> ntstatus \<Rightarrow> (irp \<Rightarrow> mem) \<Rightarrow> tid \<Rightarrow> irp \<Rightarrow> hs \<Rightarrow> ntstatus \<times> hs" where
  "ExecuteThread lower u um t i h0 =
     (let h = attach um t i h0 in
      if irp_Major i = IRP_MJ_SHUTDOWN then ExecuteFlush lower True h
      else if irp_Major i = IRP_MJ_PNP \<and> irp_Minor i = IRP_MN_QUERY_REMOVE_DEVICE \<and> \<not> CacheDirty (hs_Ctx h)
      then ExecutePass lower t h
      else if irp_Major i \<noteq> IRP_MJ_SCSI
      then (STATUS_UNSUCCESSFUL,
            complete_irp t (\<lambda>i. i\<lparr>irp_Information := 0, irp_Status := STATUS_UNSUCCESSFUL\<rparr>) h)
      else (case srb_Function (irp_Srb i) of
              SRB_FUNCTION_EXECUTE_SCSI \<Rightarrow> execute_scsi lower u t i h
            | SRB_FUNCTION_SHUTDOWN \<Rightarrow> ExecuteFlush lower True h
            | SRB_FUNCTION_FLUSH \<Rightarrow> flush_or_pass lower t h
            | _ \<Rightarrow> (STATUS_IO_DEVICE_ERROR, complete_irp t (answer_bad STATUS_IO_DEVICE_ERROR) h)))"

section \<open>The routines as a whole\<close>

text \<open>
  \<open>LevelingThreadCompletion\<close> with everything it calls, run without interruption. The calls are
  nested: waking the writer can end the writer's request. \<open>fuel\<close> bounds the number of rounds.
\<close>

fun LevelingThreadCompletion ::
    "nat \<Rightarrow> lower \<Rightarrow> ntstatus \<Rightarrow> (irp \<Rightarrow> mem) \<Rightarrow> tid \<Rightarrow> hs \<Rightarrow> hs option" where
  "LevelingThreadCompletion 0 lower u um t h = None"
| "LevelingThreadCompletion (Suc n) lower u um t h =
     (let (a, c) = completion_locked t (hs_Mode h) (hs_Ctx h); h1 = h\<lparr>hs_Ctx := c\<rparr>;
          h2 = (if a_Clean a then LevelingCleanAfterModeChanged h1 else h1);
          woken = (if a_WriteComplete a
                   then (case WriteCompleteHandler lower h2 of
                           (True, h') \<Rightarrow> LevelingThreadCompletion n lower u um TOther h'
                         | (False, h') \<Rightarrow> Some h')
                   else Some h2)
      in case woken of None \<Rightarrow> None
         | Some h3 \<Rightarrow>
             (case a_Now a of
                Some i \<Rightarrow>
                  let (st, h4) = ExecuteThread lower u um t i h3 in
                  if st \<noteq> STATUS_PENDING then LevelingThreadCompletion n lower u um t h4 else Some h4
              | None \<Rightarrow>
                  if a_Flush a
                  then let (st, h4) = ExecuteFlush lower False h3 in
                    if st \<noteq> STATUS_PENDING then LevelingThreadCompletion n lower u um t h4 else Some h4
                  else Some h3))"

text \<open>\<open>IoMarkIrpPending\<close> on the request that has just been queued.\<close>

definition mark_queued :: "bool \<Rightarrow> ctx \<Rightarrow> ctx" where
  "mark_queued IsRead c =
     (let mark = (\<lambda>q. butlast q @ [(last q)\<lparr>irp_Pending := True\<rparr>])
      in if IsRead then c\<lparr>ReadIrpQueue := mark (ReadIrpQueue c)\<rparr>
         else c\<lparr>OtherIrpQueue := mark (OtherIrpQueue c)\<rparr>)"

text \<open>\<open>ctx_here\<close> is \<open>DeviceExtension->Ctx != NULL\<close>.\<close>

definition LevelingDispatch ::
    "nat \<Rightarrow> lower \<Rightarrow> ntstatus \<Rightarrow> (irp \<Rightarrow> mem) \<Rightarrow> bool \<Rightarrow> irp \<Rightarrow> bool \<Rightarrow> hs \<Rightarrow> (ntstatus \<times> hs) option" where
  "LevelingDispatch fuel lower u um ctx_here i IsRead h =
     (if \<not> ctx_here
      then let (st, i') = not_ready (hs_Mode h) i in Some (st, h\<lparr>hs_Done := hs_Done h @ [i']\<rparr>)
      else let (e, c) = dispatch_enter IsRead i (hs_Mode h) (hs_Ctx h); h1 = h\<lparr>hs_Ctx := c\<rparr> in
        case e of
          NotReady \<Rightarrow> let (st, i') = not_ready (hs_Mode h) i in Some (st, h1\<lparr>hs_Done := hs_Done h @ [i']\<rparr>)
        | Run t \<Rightarrow>
            let (st, h2) = ExecuteThread lower u um t i h1 in
            if st \<noteq> STATUS_PENDING
            then map_option (\<lambda>h3. (st, h3)) (LevelingThreadCompletion fuel lower u um t h2)
            else Some (st, h2)
        | Queued \<Rightarrow> Some (STATUS_PENDING, upd_ctx (mark_queued IsRead) h1))"

definition LevelingFlushDpc :: "nat \<Rightarrow> lower \<Rightarrow> ntstatus \<Rightarrow> (irp \<Rightarrow> mem) \<Rightarrow> hs \<Rightarrow> hs option" where
  "LevelingFlushDpc fuel lower u um h =
     (let (flush, c) = flush_dpc (hs_Mode h) (hs_Ctx h); h1 = h\<lparr>hs_Ctx := c\<rparr> in
      if flush
      then let (st, h2) = ExecuteFlush lower False h1 in
        if st \<noteq> STATUS_PENDING then LevelingThreadCompletion fuel lower u um TOther h2 else Some h2
      else Some h1)"

end
