(* ===== verification/FlushEnds.thy ===== *)
theory FlushEnds
  imports WriteEnds Gate
begin

text \<open>
  A flush ends: after filling up the last block of the cache, writing the cache and, when it is to
  finalize, writing the directory of the chunk. The device keeps its contents, and what was in a dirty
  cache is on the medium.
\<close>

section \<open>Rounds\<close>

text \<open>Transfers are carried out until a routine says that the request is completed.\<close>

fun one_round :: "lower \<Rightarrow> bool \<times> mem \<times> hs \<Rightarrow> bool \<times> mem \<times> hs" where
  "one_round lower (fin, d, h) = (if fin then (fin, d, h) else code_step lower d h)"

definition rounds :: "nat \<Rightarrow> lower \<Rightarrow> bool \<times> mem \<times> hs \<Rightarrow> bool \<times> mem \<times> hs" where
  "rounds n lower = one_round lower ^^ n"

lemma rounds_0 [simp]: "rounds 0 lower s = s"
  by (simp add: rounds_def)

lemma rounds_Suc: "rounds (Suc n) lower s = rounds n lower (one_round lower s)"
  by (simp add: rounds_def funpow_swap1)

lemma rounds_Suc_last: "rounds (Suc n) lower s = one_round lower (rounds n lower s)"
  by (simp add: rounds_def)

section \<open>One round of a flush\<close>

text \<open>What the flush handler has issued.\<close>

definition flush_req :: "hs \<Rightarrow> bool" where
  "flush_req h \<longleftrightarrow> rq_Completion (last (hs_Issued h)) \<in> {CacheFillReadCompletion, PurgeCacheCompletion, PurgeChunkCompletion}"

lemma flush_req_issuers [simp]:
  "flush_req (ExecutePurgeCache h)" "flush_req (ExecutePurgeChunk h)" "flush_req (ExecuteCacheFillRead L n h)"
  by (simp_all add: flush_req_def ExecutePurgeCache_def ExecutePurgeChunk_def ExecuteCacheFillRead_def Let_def issue_def)

lemma code_step_flush:
  assumes "flush_req h" "Flushing (hs_Ctx (snd (served d h)))"
  shows "code_step lower d h =
    (case ExecuteFlushHandler lower (snd (served d h)) of (st, h2) \<Rightarrow> (st \<noteq> STATUS_PENDING, fst (served d h), h2))"
proof -
  let ?q = "last (hs_Issued h)"
  define g where "g = h\<lparr>hs_Ctx := snd (transfer ?q (d, hs_Ctx h))\<rparr>"
  have s: "snd (served d h) = completed (rq_Completion ?q) (ok_result ?q) g" "fst (served d h) = fst (transfer ?q (d, hs_Ctx h))"
    by (simp_all add: g_def served_def Let_def case_prod_beta)
  have "run_completion lower (rq_Completion ?q) (ok_result ?q) g = WriteCompleteHandler lower (snd (served d h))"
    using assms(1) unfolding s by (auto simp: flush_req_def)
  moreover have "WriteCompleteHandler lower (snd (served d h)) =
      (case ExecuteFlushHandler lower (snd (served d h)) of (st, h2) \<Rightarrow> (st \<noteq> STATUS_PENDING, h2))"
    using assms(2) by (simp add: WriteCompleteHandler_def)
  ultimately show ?thesis
    unfolding code_step_def Let_def s(2) g_def by (simp add: case_prod_beta)
qed

text \<open>
  \<open>flushing\<close> collects what a flush keeps: \<open>f\<close> are the contents of the device, \<open>F\<close> whether it finalizes;
  \<open>rd\<close> holds the request (none when the timer started it), the requests completed before, the sequence
  number and the size of the device, and what the record is compared with.
\<close>

definition pending_irp :: "irp option \<Rightarrow> irp option" where
  "pending_irp = map_option (\<lambda>i. i\<lparr>irp_Pending := True\<rparr>)"

definition flushing :: "(nat \<Rightarrow> sector) \<Rightarrow> bool \<Rightarrow> (irp option \<times> irp list \<times> nat \<times> nat) \<times> mark \<Rightarrow> mem \<Rightarrow> hs \<Rightarrow> bool" where
  "flushing f F rd d h \<longleftrightarrow>
     ftl_inv d (hs_Ctx h) \<and> brisk (hs_Ctx h) \<and> (\<forall>L. in_dev (hs_Ctx h) L \<longrightarrow> vread d (hs_Ctx h) L = f L) \<and>
     Flushing (hs_Ctx h) \<and> Finalizing (hs_Ctx h) = F \<and>
     (pending_irp (th_Irp (OtherThread (hs_Ctx h))), hs_Done h, scn_now (hs_Ctx h), SIZE_OF_MAP (hs_Ctx h)) = fst rd \<and>
     on_record (snd rd) {f} d (hs_Ctx h)"

lemma flushing_quiet:
  assumes "flushing f F rd d h" "quiet d h d' h'" "brisk (hs_Ctx h')" "Flushing (hs_Ctx h')"
    "Finalizing (hs_Ctx h') = Finalizing (hs_Ctx h)" "scn_now (hs_Ctx h') = scn_now (hs_Ctx h)"
    "pending_irp (th_Irp (OtherThread (hs_Ctx h'))) = pending_irp (th_Irp (OtherThread (hs_Ctx h)))"
  shows "flushing f F rd d' h'"
proof -
  have "on_record (snd rd) {f} d' (hs_Ctx h')"
    by (rule on_record_step [of "snd rd" "{f}" d "hs_Ctx h" _ _ f]) (use assms in \<open>simp_all add: flushing_def quiet_def\<close>)
  then show ?thesis using assms unfolding flushing_def quiet_def by (auto simp: in_dev_def)
qed

lemma mark_fields [simp]:
  "Flushing (hs_Ctx (IoMarkIrpPending TOther h)) = Flushing (hs_Ctx h)" "Finalizing (hs_Ctx (IoMarkIrpPending TOther h)) = Finalizing (hs_Ctx h)"
  "pending_irp (th_Irp (OtherThread (hs_Ctx (IoMarkIrpPending TOther h)))) = pending_irp (th_Irp (OtherThread (hs_Ctx h)))"
  by (simp_all add: IoMarkIrpPending_def pending_irp_def option.map_comp o_def)

lemma mark_same_ftl: "same_ftl (hs_Ctx h) (hs_Ctx (IoMarkIrpPending TOther h))"
  by (rule tables_eq_same) simp

lemma flushing_mark:
  assumes "flushing f F rd d h" shows "flushing f F rd d (IoMarkIrpPending TOther h)"
proof (rule flushing_quiet [OF assms])
  show "quiet d h d (IoMarkIrpPending TOther h)" using assms quiet_mark(1) unfolding flushing_def by blast
  show "brisk (hs_Ctx (IoMarkIrpPending TOther h))" using assms same_rank(2) [OF mark_same_ftl] unfolding flushing_def by blast
qed (use assms in \<open>simp_all add: flushing_def\<close>)

text \<open>A flush starts with a partly filled block only when relocation is up to its schedule.\<close>

lemma part_ready:
  assumes "ftl_inv d c" "off8 (CachePos c) \<noteq> 0"
  shows "RelocationPrepared c" "RelocationDone c" "CachePos c < LAST_CACHE_POS"
proof -
  note p = ftl_invD(8) [OF assms(1), unfolded pace_def]
  have z: "off8 0 = 0" by (simp add: off8_def)
  show pr: "RelocationPrepared c" using p assms(2) z by (auto split: if_splits)
  show "RelocationDone c" using p pr assms(2) by (auto simp: moving_def split: if_splits)
  have "CachePos c \<le> LAST_CACHE_POS" using ftl_invD(2) [OF assms(1)] by (simp add: cache_wf_def)
  moreover have "CachePos c \<noteq> LAST_CACHE_POS" using assms(2) by (auto simp: off8_def)
  ultimately show "CachePos c < LAST_CACHE_POS" by simp
qed

lemma flush_part:
  assumes "ftl_inv d c" "off8 (CachePos c) \<noteq> 0"
  shows "can_extend c (flush_LBA c) (flush_LEN c)" "blk (flush_LBA c + flush_LEN c - 1) = blk (flush_LBA c)" "0 < flush_LEN c"
    "off8 (CachePos c + flush_LEN c) = 0"
proof -
  note i = ftl_invD [OF assms(1)]
  note pe = partial_can_extend [OF i(1,2) assms(2) part_ready(3) [OF assms]]
  show "can_extend c (flush_LBA c) (flush_LEN c)" "blk (flush_LBA c + flush_LEN c - 1) = blk (flush_LBA c)"
    using pe by (simp_all add: flush_LBA_def flush_LEN_def)
  show "0 < flush_LEN c" by (simp add: flush_LEN_def)
  have "CachePos c + flush_LEN c = 8 * (blk (CachePos c) + 1)"
    using lba_split [of "CachePos c"] off8_less [of "CachePos c"] unfolding flush_LEN_def by arith
  then show "off8 (CachePos c + flush_LEN c) = 0" by (simp add: off8_def)
qed

lemma extended_flushing:
  assumes fl: "flushing f F rd d h" and q: "quiet d h d h'" and e: "hs_Ctx h' = extended (hs_Ctx h) L n m"
    and ready: "RelocationPrepared (hs_Ctx h)" "RelocationDone (hs_Ctx h)"
  shows "flushing f F rd d h'"
  using fl ready by (intro flushing_quiet [OF fl q]) (simp_all add: flushing_def e brisk_def extended_def scn_now_def used_set_def room_def)

text \<open>Filling up the last block, from zeros or from the medium.\<close>

lemma flush_zero:
  assumes fl: "flushing f F rd d h" and al: "off8 (CachePos (hs_Ctx h)) \<noteq> 0"
    and free: "Map (hs_Ctx h) (blk (flush_LBA (hs_Ctx h))) = NOT_MAPPED"
  defines "h' \<equiv> upd_ctx (CacheFillReadZero (flush_LBA (hs_Ctx h)) (flush_LEN (hs_Ctx h))) h"
  shows "flushing f F rd d h'" "off8 (CachePos (hs_Ctx h')) = 0" "CacheDirty (hs_Ctx h') = CacheDirty (hs_Ctx h)"
    "PurgePos (hs_Ctx h') = PurgePos (hs_Ctx h)" "FinalizedPos (hs_Ctx h') = FinalizedPos (hs_Ctx h)"
proof -
  let ?c = "hs_Ctx h"
  have inv: "ftl_inv d ?c" using fl by (simp add: flushing_def)
  note p = part_ready [OF inv al] and x = flush_part [OF inv al]
  have e: "hs_Ctx h' = extended ?c (flush_LBA ?c) (flush_LEN ?c) (zero_sectors (CacheMem ?c) (CachePos ?c) (flush_LEN ?c))"
    by (simp add: h'_def CacheFillReadZero_def extended_def)
  show "flushing f F rd d h'"
    using quiet_zero [OF inv x(1,2,3) p(1,2) free] unfolding h'_def [symmetric] by (rule extended_flushing [OF fl _ e p(1,2)])
  show "off8 (CachePos (hs_Ctx h')) = 0" "CacheDirty (hs_Ctx h') = CacheDirty ?c"
    "PurgePos (hs_Ctx h') = PurgePos ?c" "FinalizedPos (hs_Ctx h') = FinalizedPos ?c" using x(4) by (simp_all add: e extended_def)
qed

lemma flush_fill:
  assumes fl: "flushing f F rd d h" and al: "off8 (CachePos (hs_Ctx h)) \<noteq> 0"
    and mapped: "Map (hs_Ctx h) (blk (flush_LBA (hs_Ctx h))) \<noteq> NOT_MAPPED"
    and s: "served d (ExecuteCacheFillRead (flush_LBA (hs_Ctx h)) (flush_LEN (hs_Ctx h)) h) = (d', h')"
  shows "d' = d" "flushing f F rd d h'" "off8 (CachePos (hs_Ctx h')) = 0" "CacheDirty (hs_Ctx h') = CacheDirty (hs_Ctx h)"
    "PurgePos (hs_Ctx h') = PurgePos (hs_Ctx h)" "FinalizedPos (hs_Ctx h') = FinalizedPos (hs_Ctx h)"
proof -
  let ?c = "hs_Ctx h"
  have inv: "ftl_inv d ?c" using fl by (simp add: flushing_def)
  note p = part_ready [OF inv al] and x = flush_part [OF inv al]
  show d: "d' = d" using s unfolding served_fill by simp
  obtain m where e: "hs_Ctx h' = extended ?c (flush_LBA ?c) (flush_LEN ?c) m" using s unfolding served_fill fill_served_def by auto
  show "flushing f F rd d h'"
    using quiet_fill [OF inv x(1,2,3) p(1,2) mapped] unfolding s prod.case d by (rule extended_flushing [OF fl _ e p(1,2)])
  show "off8 (CachePos (hs_Ctx h')) = 0" "CacheDirty (hs_Ctx h') = CacheDirty ?c"
    "PurgePos (hs_Ctx h') = PurgePos ?c" "FinalizedPos (hs_Ctx h') = FinalizedPos ?c" using x(4) by (simp_all add: e extended_def)
qed

text \<open>Writing the cache.\<close>

lemma flush_purged:
  assumes fl: "flushing f F rd d h" and al: "off8 (CachePos (hs_Ctx h)) = 0" and dirty: "CacheDirty (hs_Ctx h)"
    and s: "served d (ExecutePurgeCache h) = (d', h')"
  shows "flushing f F rd d' h'" "CachePos (hs_Ctx h') = 0" "\<not> CacheDirty (hs_Ctx h')"
proof -
  let ?c = "hs_Ctx h"
  have inv: "ftl_inv d ?c" and b: "brisk ?c" using fl by (simp_all add: flushing_def)
  have ready: "RelocationPrepared ?c" "RelocationDone ?c" using b dirty by (simp_all add: brisk_def)
  note i = ftl_invD [OF inv]
  have "64 \<le> room ?c" using i(8) ready by (simp add: pace_def)
  then have fit: "PurgePos ?c + SIZE_OF_CACHE \<le> LAST_PURGE_POS" by (simp add: room_def)
  obtain t ta M I where c': "hs_Ctx h' = ?c\<lparr>Timer := t, TimerActive := ta,
       CacheMem := (CacheMem ?c)(LAST_CACHE_POS := purge_sector ?c), ChunkCtl := purge_chunk_ctl ?c,
       Map := M, ChunkInfo := I, CachePos := 0, PurgePos := PurgePos ?c + SIZE_OF_CACHE,
       RelocationDone := False, CacheDirty := False\<rparr>" and I: "\<And>k. SCN (I k) = SCN (ChunkInfo ?c k)"
    using s unfolding served_purge by (auto intro: purge_served_form [OF i(1,2,3,4,7) al fit, of d])
  have q: "quiet d h d' h'" using quiet_purge [OF inv ready al] unfolding s by simp
  have "can_purge d ?c (fst (purge_served d ?c)) (snd (purge_served d ?c))"
    unfolding can_purge_def using inv al fit purge_served_effect [OF i(1,2,3,4,7) al fit, of d] by blast
  then have "brisk (snd (purge_served d ?c))" by (rule purge_brisk [OF _ b ready])
  then have "brisk (hs_Ctx h')" using s unfolding served_purge by auto
  then show "flushing f F rd d' h'"
    using fl ready by (intro flushing_quiet [OF fl q]) (simp_all add: flushing_def c' scn_now_def I)
  show "CachePos (hs_Ctx h') = 0" "\<not> CacheDirty (hs_Ctx h')" by (simp_all add: c')
qed

text \<open>Writing the directory of the chunk; the cache has to be empty.\<close>

lemma flush_chunk:
  assumes fl: "flushing f F rd d h" and empty: "CachePos (hs_Ctx h) = 0"
    and s: "served d (ExecutePurgeChunk h) = (d', h')"
  shows "flushing f F rd d' h'" "CachePos (hs_Ctx h') = 0" "CacheDirty (hs_Ctx h') = CacheDirty (hs_Ctx h)"
    "FinalizedPos (hs_Ctx h') = PurgePos (hs_Ctx h')"
proof -
  let ?c = "hs_Ctx h"
  have inv: "ftl_inv d ?c" and b: "brisk ?c" using fl by (simp_all add: flushing_def)
  obtain I ctl where ci: "chunk_image ?c = ?c\<lparr>ChunkInfo := I, ChunkCtl := ctl, CacheMem := mem_of_ctl ctl (CacheMem ?c)\<rparr>"
    and I: "\<And>k. SCN (I k) = SCN (ChunkInfo ?c k)" by (rule chunk_image_form [of ?c]) (rule that)
  have c': "hs_Ctx h' = ?c\<lparr>ChunkInfo := I, ChunkCtl := ctl, CacheMem := mem_of_ctl ctl (CacheMem ?c), FinalizedPos := PurgePos ?c\<rparr>"
    using s unfolding served_chunk by (auto simp: chunk_served_def ci)
  have q: "quiet d h d' h'" using quiet_chunk [OF inv empty] unfolding s by simp
  have u: "used_set (hs_Ctx h') ch = used_set ?c ch" "room (hs_Ctx h') = room ?c" for ch
    by (simp_all add: c' used_set_def room_def)
  have "brisk (hs_Ctx h')" using b unfolding brisk_def u by (simp add: c')
  then show "flushing f F rd d' h'"
    using fl by (intro flushing_quiet [OF fl q]) (simp_all add: flushing_def c' scn_now_def I)
  show "CachePos (hs_Ctx h') = 0" "CacheDirty (hs_Ctx h') = CacheDirty ?c" "FinalizedPos (hs_Ctx h') = PurgePos (hs_Ctx h')"
    using empty by (simp_all add: c')
qed


section \<open>A whole flush\<close>

text \<open>What is left when the handler has nothing more to write, and that it was so after each round.\<close>

definition flushed :: "lower \<Rightarrow> (nat \<Rightarrow> sector) \<Rightarrow> bool \<Rightarrow> (irp option \<times> irp list \<times> nat \<times> nat) \<times> mark \<Rightarrow> bool \<Rightarrow> nat \<Rightarrow> bool \<times> mem \<times> hs \<Rightarrow> bool" where
  "flushed lower f F rd E n s \<longleftrightarrow>
     (\<exists>k d g. k \<le> n \<and> rounds k lower s = (fst (flush_done lower g) \<noteq> STATUS_PENDING, d, snd (flush_done lower g)) \<and>
        flushing f F rd d g \<and> \<not> CacheDirty (hs_Ctx g) \<and> off8 (CachePos (hs_Ctx g)) = 0 \<and>
        (E \<longrightarrow> CachePos (hs_Ctx g) = 0) \<and> (F \<longrightarrow> FinalizedPos (hs_Ctx g) = PurgePos (hs_Ctx g)) \<and>
        (\<forall>j \<le> k. \<exists>g'. flushing f F rd (fst (snd (rounds j lower s))) g'))"

lemma flushed_0:
  assumes "flushing f F rd d g" "\<not> CacheDirty (hs_Ctx g)" "off8 (CachePos (hs_Ctx g)) = 0" "E \<longrightarrow> CachePos (hs_Ctx g) = 0"
    "F \<longrightarrow> FinalizedPos (hs_Ctx g) = PurgePos (hs_Ctx g)"
  shows "flushed lower f F rd E n (fst (flush_done lower g) \<noteq> STATUS_PENDING, d, snd (flush_done lower g))"
  unfolding flushed_def using assms by (intro exI [of _ 0] exI [of _ d] exI [of _ g]) auto

lemma flushed_step:
  assumes req: "flush_req h" and s: "served d h = (d', h')" and fl0: "flushing f F rd d g0" and fl: "flushing f F rd d' h'"
    and go: "\<And>st h2. ExecuteFlushHandler lower h' = (st, h2) \<Longrightarrow> flushed lower f F rd E n (st \<noteq> STATUS_PENDING, d', h2)"
  shows "flushed lower f F rd E (Suc n) (False, d, h)"
proof -
  obtain st h2 where x: "ExecuteFlushHandler lower h' = (st, h2)" by fastforce
  have "one_round lower (False, d, h) = (st \<noteq> STATUS_PENDING, d', h2)"
    using code_step_flush [OF req, of d lower] fl s x by (simp add: flushing_def)
  then have r: "rounds (Suc k) lower (False, d, h) = rounds k lower (st \<noteq> STATUS_PENDING, d', h2)" for k
    by (simp only: rounds_Suc)
  obtain k e g where k: "k \<le> n" "rounds k lower (st \<noteq> STATUS_PENDING, d', h2) = (fst (flush_done lower g) \<noteq> STATUS_PENDING, e, snd (flush_done lower g))"
    and g: "flushing f F rd e g" "\<not> CacheDirty (hs_Ctx g)" "off8 (CachePos (hs_Ctx g)) = 0"
      "E \<longrightarrow> CachePos (hs_Ctx g) = 0" "F \<longrightarrow> FinalizedPos (hs_Ctx g) = PurgePos (hs_Ctx g)"
    and all: "\<And>j. j \<le> k \<Longrightarrow> \<exists>g'. flushing f F rd (fst (snd (rounds j lower (st \<noteq> STATUS_PENDING, d', h2)))) g'"
    using go [OF x] unfolding flushed_def by blast
  have "\<exists>g'. flushing f F rd (fst (snd (rounds j lower (False, d, h)))) g'" if "j \<le> Suc k" for j
  proof (cases j)
    case 0 then show ?thesis using fl0 by auto
  next
    case (Suc i) then show ?thesis using all [of i] that r by simp
  qed
  then show ?thesis unfolding flushed_def using k g r
    by (intro exI [of _ "Suc k"] exI [of _ e] exI [of _ g]) simp
qed

lemma flushed_more: "flushed lower f F rd E n s \<Longrightarrow> n \<le> m \<Longrightarrow> flushed lower f F rd E m s"
  unfolding flushed_def by (meson le_trans)

lemma handler_aligned: "off8 (CachePos (hs_Ctx h)) = 0 \<Longrightarrow> ExecuteFlushHandler lower h = flush_purge lower h"
  by (simp add: ExecuteFlushHandler_def Let_def)

lemma flush_purge_done:
  "\<not> CacheDirty (hs_Ctx g) \<Longrightarrow> Finalizing (hs_Ctx g) \<longrightarrow> PurgePos (hs_Ctx g) \<le> FinalizedPos (hs_Ctx g) \<Longrightarrow>
   flush_purge lower g = flush_done lower g"
  by (auto simp: flush_purge_def Let_def)

lemma flushing_final: "flushing f F rd d g \<Longrightarrow> Finalizing (hs_Ctx g) = F"
  by (simp add: flushing_def)

text \<open>The cache is empty.\<close>

lemma flushed_empty:
  assumes fl: "flushing f F rd d g" and e: "CachePos (hs_Ctx g) = 0" "\<not> CacheDirty (hs_Ctx g)" and x: "flush_purge lower g = (st, h)"
  shows "flushed lower f F rd E 1 (st \<noteq> STATUS_PENDING, d, h)"
proof -
  have z: "off8 0 = 0" by (simp add: off8_def)
  have fp: "FinalizedPos (hs_Ctx g) \<le> PurgePos (hs_Ctx g)" using fl by (auto simp: flushing_def dest!: ftl_invD(6) simp: final_ok_def)
  show ?thesis
  proof (cases "F \<and> FinalizedPos (hs_Ctx g) < PurgePos (hs_Ctx g)")
    case True
    let ?g = "IoMarkIrpPending TOther g"
    have m: "flushing f F rd d ?g" "CachePos (hs_Ctx ?g) = 0" "\<not> CacheDirty (hs_Ctx ?g)"
      using flushing_mark [OF fl] mark_same_ftl [of g] e by (simp_all add: same_ftl_def)
    have sh: "st = STATUS_PENDING" "h = ExecutePurgeChunk ?g"
      using x True e fl by (auto simp: flush_purge_def flushing_def Let_def)
    obtain d' h' where s: "served d h = (d', h')" by fastforce
    note c = flush_chunk [OF m(1,2) s [unfolded sh(2)]]
    have "flushed lower f F rd E (Suc 0) (False, d, h)"
    proof (rule flushed_step [OF _ s m(1) c(1)])
      show "flush_req h" by (simp add: sh(2))
      fix st' h2 assume "ExecuteFlushHandler lower h' = (st', h2)"
      moreover have "ExecuteFlushHandler lower h' = flush_done lower h'"
        using c m(3) z by (simp add: handler_aligned flush_purge_def Let_def)
      ultimately show "flushed lower f F rd E 0 (st' \<noteq> STATUS_PENDING, d', h2)"
        using flushed_0 [OF c(1), of E lower 0] c m(3) z by simp
    qed
    then show ?thesis by (simp add: sh(1))
  next
    case False
    then have "flush_purge lower g = flush_done lower g" using e flushing_final [OF fl] by (intro flush_purge_done) auto
    then have "flush_done lower g = (st, h)" using x by simp
    then have "st = fst (flush_done lower g)" "h = snd (flush_done lower g)" by simp_all
    then show ?thesis using flushed_0 [OF fl, of E lower 1] False fp e z by simp
  qed
qed

text \<open>The last block is complete.\<close>

lemma flushed_aligned:
  assumes fl: "flushing f F rd d g" and al: "off8 (CachePos (hs_Ctx g)) = 0" and x: "flush_purge lower g = (st, h)"
    and safe: "F \<Longrightarrow> CacheDirty (hs_Ctx g) \<or> CachePos (hs_Ctx g) = 0 \<or> FinalizedPos (hs_Ctx g) = PurgePos (hs_Ctx g)"
  shows "flushed lower f F rd (CacheDirty (hs_Ctx g)) 2 (st \<noteq> STATUS_PENDING, d, h)"
proof (cases "CacheDirty (hs_Ctx g)")
  case True
  let ?g = "IoMarkIrpPending TOther g"
  have m: "flushing f F rd d ?g" "off8 (CachePos (hs_Ctx ?g)) = 0" "CacheDirty (hs_Ctx ?g)"
    using flushing_mark [OF fl] mark_same_ftl [of g] al True by (simp_all add: same_ftl_def)
  have sh: "st = STATUS_PENDING" "h = ExecutePurgeCache ?g" using x True by (auto simp: flush_purge_def Let_def)
  obtain d' h' where s: "served d h = (d', h')" by fastforce
  note c = flush_purged [OF m s [unfolded sh(2)]]
  have z: "off8 0 = 0" by (simp add: off8_def)
  have "flushed lower f F rd True (Suc 1) (False, d, h)"
  proof (rule flushed_step [OF _ s m(1) c(1)])
    show "flush_req h" by (simp add: sh(2))
    fix st' h2 assume "ExecuteFlushHandler lower h' = (st', h2)"
    then have "flush_purge lower h' = (st', h2)" using c(2) z by (simp add: handler_aligned)
    then show "flushed lower f F rd True 1 (st' \<noteq> STATUS_PENDING, d', h2)" by (rule flushed_empty [OF c])
  qed
  then show ?thesis using True by (simp add: sh(1) numeral_2_eq_2)
next
  case False
  show ?thesis
  proof (cases "CachePos (hs_Ctx g) = 0")
    case True
    have "flushed lower f F rd False 1 (st \<noteq> STATUS_PENDING, d, h)" by (rule flushed_empty [OF fl True False x])
    then show ?thesis using False flushed_more [of lower f F rd False 1 _ 2] by simp
  next
    case pos: False
    then have fp: "F \<longrightarrow> FinalizedPos (hs_Ctx g) = PurgePos (hs_Ctx g)" using safe False by auto
    then have "flush_purge lower g = flush_done lower g" using False flushing_final [OF fl] by (intro flush_purge_done) simp_all
    then have "flush_done lower g = (st, h)" using x by simp
    then have "st = fst (flush_done lower g)" "h = snd (flush_done lower g)" by simp_all
    then show ?thesis using flushed_0 [OF fl False al _ fp, of False lower 2] False by simp
  qed
qed

lemma handler_flushed:
  assumes fl: "flushing f F rd d g" and x: "ExecuteFlushHandler lower g = (st, h)"
    and safe: "F \<Longrightarrow> CacheDirty (hs_Ctx g) \<or> CachePos (hs_Ctx g) = 0 \<or> FinalizedPos (hs_Ctx g) = PurgePos (hs_Ctx g)"
  shows "flushed lower f F rd (CacheDirty (hs_Ctx g)) 3 (st \<noteq> STATUS_PENDING, d, h)"
proof (cases "off8 (CachePos (hs_Ctx g)) = 0")
  case True
  have "flush_purge lower g = (st, h)" using x True by (simp add: handler_aligned)
  from flushed_aligned [OF fl True this safe] show ?thesis by (rule flushed_more) simp_all
next
  case False
  let ?L = "flush_LBA (hs_Ctx g)" and ?n = "flush_LEN (hs_Ctx g)"
  have nz: "CachePos (hs_Ctx g) \<noteq> 0" using False by (auto simp: off8_def)
  show ?thesis
  proof (cases "Map (hs_Ctx g) (blk ?L) = NOT_MAPPED")
    case free: True
    let ?g = "upd_ctx (CacheFillReadZero ?L ?n) g"
    note z = flush_zero [OF fl False free]
    have "flush_purge lower ?g = (st, h)" using x False free by (simp add: ExecuteFlushHandler_def Let_def)
    from flushed_aligned [OF z(1,2) this] safe nz z(3-5)
    have "flushed lower f F rd (CacheDirty (hs_Ctx ?g)) 2 (st \<noteq> STATUS_PENDING, d, h)" by auto
    then show ?thesis using z(3) flushed_more [of lower f F rd _ 2 _ 3] by simp
  next
    case mapped: False
    let ?g = "IoMarkIrpPending TOther g"
    have S: "same_ftl (hs_Ctx g) (hs_Ctx ?g)" by (rule mark_same_ftl)
    have m: "flushing f F rd d ?g" "off8 (CachePos (hs_Ctx ?g)) \<noteq> 0" "flush_LBA (hs_Ctx ?g) = ?L" "flush_LEN (hs_Ctx ?g) = ?n"
      "Map (hs_Ctx ?g) (blk ?L) \<noteq> NOT_MAPPED" "CacheDirty (hs_Ctx ?g) = CacheDirty (hs_Ctx g)"
      using flushing_mark [OF fl] S False mapped by (simp_all add: same_ftl_def flush_LBA_def flush_LEN_def)
    have sh: "st = STATUS_PENDING" "h = ExecuteCacheFillRead ?L ?n ?g"
      using x False mapped by (auto simp: ExecuteFlushHandler_def Let_def)
    obtain d' h' where s: "served d h = (d', h')" by fastforce
    note c = flush_fill [OF m(1,2) _ s [unfolded sh(2), folded m(3,4)], unfolded m(3), OF m(5)]
    have "flushed lower f F rd (CacheDirty (hs_Ctx h')) (Suc 2) (False, d, h)"
    proof (rule flushed_step [OF _ s m(1)])
      show "flush_req h" by (simp add: sh(2))
      show "flushing f F rd d' h'" using c(1,2) by simp
      fix st' h2 assume "ExecuteFlushHandler lower h' = (st', h2)"
      then have e: "flush_purge lower h' = (st', h2)" using c(3) by (simp add: handler_aligned)
      have "F \<Longrightarrow> CacheDirty (hs_Ctx h') \<or> CachePos (hs_Ctx h') = 0 \<or> FinalizedPos (hs_Ctx h') = PurgePos (hs_Ctx h')"
        using safe nz c(4-6) m(6) S by (auto simp: same_ftl_def)
      then show "flushed lower f F rd (CacheDirty (hs_Ctx h')) 2 (st' \<noteq> STATUS_PENDING, d', h2)"
        using flushed_aligned [OF c(2,3) e] c(1) by simp
    qed
    then show ?thesis using c(4) m(6) by (simp add: sh(1) numeral_3_eq_3)
  qed
qed


section \<open>Properties\<close>

text \<open>
  How a flush ends: without a request (the timer) nothing is answered, a shutdown is completed, any other
  request goes to the driver below. The first component says whether the request is completed.
\<close>

definition flush_end :: "lower \<Rightarrow> irp option \<Rightarrow> bool \<times> irp list" where
  "flush_end lower io =
     (case io of None \<Rightarrow> (True, [])
      | Some i \<Rightarrow> if irp_Major i = IRP_MJ_SHUTDOWN then (True, [i\<lparr>irp_Status := STATUS_SUCCESS\<rparr>])
          else let (st, i') = lower i in if st = STATUS_PENDING then (False, []) else (True, [i']))"

lemma flush_done_end:
  "flush_end lower (th_Irp (OtherThread (hs_Ctx g))) = (fst (flush_done lower g) \<noteq> STATUS_PENDING, new) \<Longrightarrow>
   hs_Done (snd (flush_done lower g)) = hs_Done g @ new"
  "\<exists>new. flush_end lower (th_Irp (OtherThread (hs_Ctx g))) = (fst (flush_done lower g) \<noteq> STATUS_PENDING, new)"
  by (auto simp: flush_end_def flush_done_def ExecutePass_def complete_irp_def Let_def
      split: option.splits prod.splits if_splits)

lemma flush_done_same: "same_ftl (hs_Ctx g) (hs_Ctx (snd (flush_done lower g)))"
proof -
  define h where "h = upd_ctx (\<lambda>c. c\<lparr>Flushing := False\<rparr>) g"
  have f: "same_ftl (hs_Ctx g) (hs_Ctx h)" by (simp add: same_ftl_def h_def)
  have "tables_eq (hs_Ctx h) (hs_Ctx (snd (ExecutePass lower TOther h)))"
    unfolding ExecutePass_def by (simp split: option.split prod.split)
  then have "same_ftl (hs_Ctx g) (hs_Ctx (snd (ExecutePass lower TOther h)))"
    by (rule same_ftl_trans [OF f tables_eq_same])
  moreover have "same_ftl (hs_Ctx g) (hs_Ctx (complete_irp TOther a h))" for a
    by (rule same_ftl_trans [OF f tables_eq_same]) simp
  ultimately show ?thesis unfolding flush_done_def Let_def h_def [symmetric] by (simp split: option.split)
qed

lemma flush_flushed:
  assumes inv: "ftl_inv d (hs_Ctx h)" and b: "brisk (hs_Ctx h)"
    and safe: "F \<Longrightarrow> CacheDirty (hs_Ctx h) \<or> CachePos (hs_Ctx h) = 0 \<or> FinalizedPos (hs_Ctx h) = PurgePos (hs_Ctx h)"
    and rec: "on_record M {} d (hs_Ctx h)"
    and x: "ExecuteFlush lower F h = (st, h1)"
  shows "flushed lower (vread d (hs_Ctx h)) F ((pending_irp (th_Irp (OtherThread (hs_Ctx h))), hs_Done h, scn_now (hs_Ctx h), SIZE_OF_MAP (hs_Ctx h)), M)
     (CacheDirty (hs_Ctx h)) 3 (st \<noteq> STATUS_PENDING, d, h1)"
proof -
  let ?g = "upd_ctx (\<lambda>c. c\<lparr>Flushing := True, Finalizing := F\<rparr>) h"
  let ?rd = "((pending_irp (th_Irp (OtherThread (hs_Ctx h))), hs_Done h, scn_now (hs_Ctx h), SIZE_OF_MAP (hs_Ctx h)), M)"
  have S: "same_ftl (hs_Ctx h) (hs_Ctx ?g)" by (simp add: same_ftl_def)
  have "on_record M {vread d (hs_Ctx h)} d (hs_Ctx ?g)"
    by (rule on_record_same [OF on_record_mono [OF rec] S]) simp
  then have fl: "flushing (vread d (hs_Ctx h)) F ?rd d ?g"
    using inv b S ftl_inv_same [OF S] same_rank(2,3) [OF S] vread_same [OF S] by (simp add: flushing_def)
  have "ExecuteFlushHandler lower ?g = (st, h1)" using x by (simp add: ExecuteFlush_def)
  from handler_flushed [OF fl this] safe show ?thesis by simp
qed


definition obedient :: lower where
  "obedient = (\<lambda>i. (STATUS_SUCCESS, i))"

definition demo_dirty :: hs where
  "demo_dirty = upd_ctx (\<lambda>c. c\<lparr>CacheDirty := True, OtherThread := (OtherThread c)\<lparr>th_Irp := None\<rparr>\<rparr>) demo"



text \<open>A request to eject the medium after the write of the small device.\<close>

definition eject_irp :: irp where
  "eject_irp = demo_irp\<lparr>irp_Srb := (irp_Srb demo_irp)\<lparr>srb_op := SCSIOP_START_STOP_UNIT, srb_Cdb := (\<lambda>_. 0)(4 := 2)\<rparr>\<rparr>"

lemma demo_hit_fields:
  "GetCachedPos (hs_Ctx demo_hit) 1 = 1" "CachePos (hs_Ctx demo_hit) = 8" "CacheDirty (hs_Ctx demo_hit) = False"
  "FinalizedPos (hs_Ctx demo_hit) = 0" "PurgePos (hs_Ctx demo_hit) = 512" "ChunkCtl (hs_Ctx demo_hit) = (\<lambda>_. 0)"
  "CacheMem (hs_Ctx demo_hit) 1 = (\<lambda>_. 7)"
proof -
  have e: "CachePos (hs_Ctx demo_hit) = CachePos (hs_Ctx demo_filled)" "CacheLBA (hs_Ctx demo_hit) = CacheLBA (hs_Ctx demo_filled)"
    by (simp_all add: demo_hit_def write_hit_def advance_def Let_def)
  show "GetCachedPos (hs_Ctx demo_hit) 1 = 1" using GetCachedPos_cong [OF e] filled_pos by simp
  show "CachePos (hs_Ctx demo_hit) = 8" "CacheDirty (hs_Ctx demo_hit) = False"
    "FinalizedPos (hs_Ctx demo_hit) = 0" "PurgePos (hs_Ctx demo_hit) = 512" "ChunkCtl (hs_Ctx demo_hit) = (\<lambda>_. 0)"
    "CacheMem (hs_Ctx demo_hit) 1 = (\<lambda>_. 7)"
    by (simp_all add: demo_hit_def write_hit_def hit_len_1 [simplified] advance_def Let_def demo_filled_def CacheFillReadZero_def
        demo_def demo_ctx_def zero_ctx_def demo_thread_def zero_thread_def copy_sectors_def zero_sectors_def)
qed

text \<open>The eject request as it waits for the directory to be written.\<close>

lemma eject_issued:
  obtains h where "ExecuteThread lower u um TOther eject_irp (snd (ExecuteWriteHandler demo)) = (STATUS_PENDING, ExecutePurgeChunk h)"
    "same_ftl (hs_Ctx demo_hit) (hs_Ctx h)" "Flushing (hs_Ctx h)" "Finalizing (hs_Ctx h)"
proof -
  define w where "w = upd_ctx (\<lambda>c. c\<lparr>Flushing := True, Finalizing := True\<rparr>) (attach um TOther eject_irp (snd (ExecuteWriteHandler demo)))"
  have S: "same_ftl (hs_Ctx demo_hit) (hs_Ctx w)"
    using complete_success_same [of demo_hit TOther] by (simp add: w_def demo_write attach_def same_ftl_def)
  then have f: "CachePos (hs_Ctx w) = 8" "\<not> CacheDirty (hs_Ctx w)" "FinalizedPos (hs_Ctx w) < PurgePos (hs_Ctx w)"
    using demo_hit_fields by (simp_all add: same_ftl_def)
  have "ExecuteThread lower u um TOther eject_irp (snd (ExecuteWriteHandler demo)) = ExecuteFlushHandler lower w"
    by (simp add: ExecuteThread_def Let_def eject_irp_def demo_irp_def execute_scsi_def ExecuteFlush_def w_def)
  also have "\<dots> = (STATUS_PENDING, ExecutePurgeChunk (IoMarkIrpPending TOther w))"
    using f by (simp add: handler_aligned off8_def flush_purge_def Let_def) (simp add: w_def)
  finally show ?thesis
    using that S same_ftl_trans [OF S mark_same_ftl] by (simp add: w_def)
qed


end
