(* ===== verification/Pool.thy ===== *)
theory Pool
  imports Prelude
begin

text \<open>
  What the driver uses of the kernel's allocators: \<open>ExAllocatePoolWithTag\<close>, \<open>IoAllocateIrp\<close> and
  \<open>IoAllocateMdl\<close> return an object or \<open>NULL\<close>, and each object goes back through the routine of
  its kind. Which calls fail is a parameter of the state. A program unit leaks nothing when it
  leaves the live objects as it found them.
\<close>

datatype obj_kind = PoolMem | IrpObj | MdlObj

record pool =
  p_live :: "(nat \<times> obj_kind) list"
  p_next :: nat
  p_fails :: "nat \<Rightarrow> bool"

definition alloc :: "obj_kind \<Rightarrow> pool \<Rightarrow> nat option \<times> pool" where
  "alloc k p =
     (let n = p_next p; p' = p\<lparr>p_next := n + 1\<rparr> in
      if p_fails p n then (None, p') else (Some n, p'\<lparr>p_live := (n, k) # p_live p\<rparr>))"

definition dealloc :: "obj_kind \<Rightarrow> nat \<Rightarrow> pool \<Rightarrow> pool" where
  "dealloc k n p = p\<lparr>p_live := removeAll (n, k) (p_live p)\<rparr>"

text \<open>\<open>if(NULL != x) free(x);\<close>\<close>

definition dealloc_opt :: "obj_kind \<Rightarrow> nat option \<Rightarrow> pool \<Rightarrow> pool" where
  "dealloc_opt k x p = (case x of None \<Rightarrow> p | Some n \<Rightarrow> dealloc k n p)"

text \<open>No object that is alive has a name that will be given out again.\<close>

definition pool_ok :: "pool \<Rightarrow> bool" where
  "pool_ok p \<longleftrightarrow> (\<forall>x \<in> set (p_live p). fst x < p_next p)"

text \<open>
  The contract of an allocator, over the set of live objects: what the callers' proofs rest on.
\<close>

locale allocator =
  fixes take :: "'k \<Rightarrow> 'p \<Rightarrow> nat option \<times> 'p" and give :: "'k \<Rightarrow> nat \<Rightarrow> 'p \<Rightarrow> 'p"
    and live :: "'p \<Rightarrow> (nat \<times> 'k) set" and ok :: "'p \<Rightarrow> bool"
  assumes take_fail: "ok p \<Longrightarrow> take k p = (None, p') \<Longrightarrow> live p' = live p \<and> ok p'"
    and take_new: "ok p \<Longrightarrow> take k p = (Some n, p') \<Longrightarrow>
      (n, k') \<notin> live p \<and> live p' = insert (n, k) (live p) \<and> ok p'"
    and give_live: "live (give k n p) = live p - {(n, k)}"
    and give_ok: "ok p \<Longrightarrow> ok (give k n p)"
begin

fun give_all :: "('k \<times> nat) list \<Rightarrow> 'p \<Rightarrow> 'p" where
  "give_all [] p = p"
| "give_all ((k, n) # xs) p = give_all xs (give k n p)"

lemma give_all_live: "live (give_all xs p) = live p - (\<lambda>(k, n). (n, k)) ` set xs"
  by (induction xs p rule: give_all.induct) (auto simp: give_live)

lemma take_give:
  assumes "ok p" "take k p = (Some n, p')"
  shows "live (give k n p') = live p"
  using take_new [OF assms, of k] by (auto simp: give_live)

lemma take_keeps:
  assumes "ok p" "take k p = (x, p')"
  shows "ok p'" "live p \<subseteq> live p'"
  using assms take_fail [of p k p'] take_new [of p k _ p'] by (cases x; auto)+

end

interpretation pl: allocator alloc dealloc "\<lambda>p. set (p_live p)" pool_ok
  by unfold_locales
     (fastforce simp: alloc_def dealloc_def pool_ok_def Let_def less_Suc_eq split: if_splits)+

definition live_objs :: "pool \<Rightarrow> (nat \<times> obj_kind) set" where
  "live_objs p = set (p_live p)"

lemma live_dealloc_opt [simp]:
  "live_objs (dealloc_opt k x p) = live_objs p - (case x of None \<Rightarrow> {} | Some n \<Rightarrow> {(n, k)})"
  by (simp add: dealloc_opt_def live_objs_def pl.give_live split: option.split)

lemma ok_dealloc_opt [simp]: "pool_ok p \<Longrightarrow> pool_ok (dealloc_opt k x p)"
  by (simp add: dealloc_opt_def pl.give_ok split: option.split)

lemma live_dealloc [simp]: "live_objs (dealloc k n p) = live_objs p - {(n, k)}"
  by (simp add: live_objs_def pl.give_live)

lemma alloc_cases:
  assumes "pool_ok p"
  obtains (fail) p' where "alloc k p = (None, p')" "live_objs p' = live_objs p" "pool_ok p'"
  | (new) n p' where "alloc k p = (Some n, p')" "\<And>k'. (n, k') \<notin> live_objs p" "live_objs p' = insert (n, k) (live_objs p)" "pool_ok p'"
proof (cases "alloc k p")
  case (Pair x p')
  then show thesis
    using that pl.take_fail [OF assms, of k p'] pl.take_new [OF assms, of k _ p'] by (cases x) (auto simp: live_objs_def)
qed

end
