(* ===== verification/VreqAlloc.thy ===== *)
theory VreqAlloc
  imports Pool Leveling
begin

text \<open>
  \<open>CreateRequest\<close> and \<open>FreeRequest\<close> of \<open>driver/vreq.c\<close>: the objects a request is made of.
\<close>

record reqobj =
  ro_Req :: nat
  ro_Irp :: "nat option"
  ro_AssociatedMem :: "nat option"
  ro_AssociatedMdl :: "nat option"
  ro_MaximumTransferLength :: nat

definition FreeRequest :: "reqobj option \<Rightarrow> pool \<Rightarrow> pool" where
  "FreeRequest ro p =
     (case ro of None \<Rightarrow> p
      | Some r \<Rightarrow> dealloc PoolMem (ro_Req r) (dealloc_opt IrpObj (ro_Irp r)
                   (dealloc_opt PoolMem (ro_AssociatedMem r) (dealloc_opt MdlObj (ro_AssociatedMdl r) p))))"

text \<open>\<open>insufficient_resources\<close>: what has been built is freed.\<close>

definition insufficient :: "reqobj option \<Rightarrow> pool \<Rightarrow> reqobj option \<times> pool" where
  "insufficient ro p = (None, FreeRequest ro p)"

definition CreateRequest :: "nat \<Rightarrow> nat \<Rightarrow> pool \<Rightarrow> reqobj option \<times> pool" where
  "CreateRequest MaximumTransferLength MemSize p =
     (case alloc PoolMem p of
        (None, p1) \<Rightarrow> insufficient None p1
      | (Some a, p1) \<Rightarrow>
          let r = \<lparr>ro_Req = a, ro_Irp = None, ro_AssociatedMem = None, ro_AssociatedMdl = None,
                   ro_MaximumTransferLength = MaximumTransferLength\<rparr> in
          (case alloc IrpObj p1 of
             (None, p2) \<Rightarrow> insufficient (Some r) p2
           | (Some i, p2) \<Rightarrow>
               let r = r\<lparr>ro_Irp := Some i\<rparr> in
               if 0 < MemSize
               then (case alloc PoolMem p2 of
                       (None, p3) \<Rightarrow> insufficient (Some r) p3
                     | (Some m, p3) \<Rightarrow>
                         let r = r\<lparr>ro_AssociatedMem := Some m\<rparr> in
                         (case alloc MdlObj p3 of
                            (None, p4) \<Rightarrow> insufficient (Some r) p4
                          | (Some d, p4) \<Rightarrow> (Some (r\<lparr>ro_AssociatedMdl := Some d\<rparr>), p4)))
               else (Some r, p2)))"

definition req_objs :: "reqobj option \<Rightarrow> (nat \<times> obj_kind) set" where
  "req_objs ro = (case ro of None \<Rightarrow> {}
     | Some r \<Rightarrow> {(ro_Req r, PoolMem)} \<union> (\<lambda>n. (n, IrpObj)) ` set_option (ro_Irp r) \<union>
         (\<lambda>n. (n, PoolMem)) ` set_option (ro_AssociatedMem r) \<union> (\<lambda>n. (n, MdlObj)) ` set_option (ro_AssociatedMdl r))"

lemma live_FreeRequest [simp]: "live_objs (FreeRequest ro p) = live_objs p - req_objs ro"
  by (auto simp: FreeRequest_def req_objs_def split: option.split)

lemma ok_FreeRequest [simp]: "pool_ok p \<Longrightarrow> pool_ok (FreeRequest ro p)"
  by (simp add: FreeRequest_def pl.give_ok split: option.split)

lemma CreateRequest_objs:
  assumes p: "pool_ok p" "CreateRequest mtl MemSize p = (ro, p')"
  shows "pool_ok p' \<and> live_objs p' = live_objs p \<union> req_objs ro \<and> live_objs p \<inter> req_objs ro = {}"
proof (cases rule: alloc_cases [OF p(1), where k = PoolMem, case_names fail new])
  case (fail p1)
  then show ?thesis using p by (auto simp: CreateRequest_def insufficient_def req_objs_def FreeRequest_def)
next
  case a: (new a p1)
  show ?thesis
  proof (cases rule: alloc_cases [OF a(4), where k = IrpObj, case_names fail new])
    case (fail p2)
    then show ?thesis using p a by (auto simp: CreateRequest_def insufficient_def req_objs_def)
  next
    case i: (new i p2)
    show ?thesis
    proof (cases "0 < MemSize")
      case False
      then show ?thesis using p a i by (auto simp: CreateRequest_def req_objs_def Let_def)
    next
      case mem: True
      show ?thesis
      proof (cases rule: alloc_cases [OF i(4), where k = PoolMem, case_names fail new])
        case (fail p3)
        then show ?thesis using p a i mem by (auto simp: CreateRequest_def insufficient_def req_objs_def Let_def)
      next
        case m: (new m p3)
        show ?thesis
          using p a i m mem
          by (cases rule: alloc_cases [OF m(4), where k = MdlObj, case_names fail new])
             (auto simp: CreateRequest_def insufficient_def req_objs_def Let_def)
      qed
    qed
  qed
qed

end
