(* ===== verification/Extension.thy ===== *)
theory Extension
  imports VreqAlloc Leveling
begin

text \<open>
  \<open>DEVICE_EXTENSION\<close> of \<open>driver/vltl.h\<close>, the mode of a device (\<open>ChangeMode\<close> and
  \<open>ChangeModeAtomic\<close> of \<open>driver/vltl.c\<close>) and the two routines of \<open>driver/config.c\<close> that read
  nothing else.
\<close>

text \<open>The kernel objects a leveling context owns.\<close>

record ctxobj =
  co_Ctx :: nat
  co_ReadReq :: "reqobj option list"
  co_CacheReq :: "reqobj option"
  co_RelocateReq :: "reqobj option"
  co_Map :: "nat option"
  co_ChunkInfo :: "nat option"

record dx =
  dx_IsControlDevice :: bool
  dx_IsAnotherDevice :: bool
  dx_AllowAlways :: bool
  dx_TobeRemovable :: bool
  dx_TobeFixed :: bool
  dx_Mode :: vmode
  dx_RemovableMedia :: bool
  dx_LevelingCapable :: bool
  dx_MaximumTransferLength :: nat
  dx_LastLBA :: nat
  dx_TURErrors :: nat
  dx_Ctx :: "(ctxobj \<times> ctx) option"

definition ChangeMode :: "vmode \<Rightarrow> dx \<Rightarrow> dx" where
  "ChangeMode m x =
     (if m = VLTL_MODE_INITIAL then x\<lparr>dx_LevelingCapable := False\<rparr> else x)\<lparr>dx_Mode := m\<rparr>"

definition ChangeModeAtomic :: "vmode \<Rightarrow> vmode \<Rightarrow> dx \<Rightarrow> dx" where
  "ChangeModeAtomic from m x = (if dx_Mode x = from then ChangeMode m x else x)"

definition GetMaxChunks :: "dx \<Rightarrow> nat" where
  "GetMaxChunks x = min (wrap32 (dx_LastLBA x + 1) div SIZE_OF_CHUNK) 500"

definition SetFormatMode :: "dx \<Rightarrow> bool \<times> dx" where
  "SetFormatMode x =
     (case dx_Mode x of
        VLTL_MODE_DIRECT \<Rightarrow> (True, ChangeMode VLTL_MODE_FORMAT x)
      | VLTL_MODE_ACTIVE \<Rightarrow> (True, ChangeMode VLTL_MODE_FORMAT x)
      | VLTL_MODE_ERROR \<Rightarrow> (True, ChangeMode VLTL_MODE_FORMAT x)
      | _ \<Rightarrow> (False, x))"

lemma ChangeMode_simps [simp]:
  "dx_Mode (ChangeMode m x) = m" "dx_Ctx (ChangeMode m x) = dx_Ctx x"
  "dx_LastLBA (ChangeMode m x) = dx_LastLBA x" "dx_MaximumTransferLength (ChangeMode m x) = dx_MaximumTransferLength x"
  "dx_RemovableMedia (ChangeMode m x) = dx_RemovableMedia x" "dx_AllowAlways (ChangeMode m x) = dx_AllowAlways x"
  "dx_LevelingCapable (ChangeMode m x) = (m \<noteq> VLTL_MODE_INITIAL \<and> dx_LevelingCapable x)"
  by (simp_all add: ChangeMode_def)

lemma ChangeModeAtomic_simps [simp]:
  "dx_Ctx (ChangeModeAtomic f m x) = dx_Ctx x" "dx_LastLBA (ChangeModeAtomic f m x) = dx_LastLBA x"
  "dx_Mode (ChangeModeAtomic f m x) = (if dx_Mode x = f then m else dx_Mode x)"
  "dx_MaximumTransferLength (ChangeModeAtomic f m x) = dx_MaximumTransferLength x"
  "dx_RemovableMedia (ChangeModeAtomic f m x) = dx_RemovableMedia x"
  by (simp_all add: ChangeModeAtomic_def)

lemma GetMaxChunks_le: "GetMaxChunks x \<le> 500"
  by (simp add: GetMaxChunks_def)

text \<open>The handlers see the device through its mode and context.\<close>

definition hs_of :: "dx \<Rightarrow> ctx \<Rightarrow> hs" where
  "hs_of x c = \<lparr>hs_Mode = dx_Mode x, hs_Ctx = c, hs_Issued = [], hs_Done = []\<rparr>"

end
