(* ===== verification/GateInv.thy ===== *)
theory GateInv
  imports Gate
begin

text \<open>
  The invariant of the gate under every interleaving of its locked sections: the free list holds
  exactly the read threads that are not in use, the counters count what they name, no queued
  request is forgotten, and the timer, its DPC and \<open>FlushPending\<close> exclude one another.
\<close>

section \<open>The free list\<close>

fun chain :: "(nat \<Rightarrow> thread) \<Rightarrow> nat \<Rightarrow> nat list \<Rightarrow> bool" where
  "chain f i [] \<longleftrightarrow> i = READ_THREADS"
| "chain f i (k # ks) \<longleftrightarrow> i = k \<and> k < READ_THREADS \<and> chain f (th_FreeLink (f k)) ks"

lemma chain_cong: "(\<And>k. k \<in> set ks \<Longrightarrow> th_FreeLink (f k) = th_FreeLink (g k)) \<Longrightarrow> chain f i ks = chain g i ks"
  by (induction ks arbitrary: i) auto

lemma chain_upd: "k \<notin> set ks \<Longrightarrow> chain (f(k := t)) i ks = chain f i ks"
  by (rule chain_cong) auto

lemma chain_bound: "chain f i ks \<Longrightarrow> k \<in> set ks \<Longrightarrow> k < READ_THREADS"
  by (induction f i ks rule: chain.induct) auto

definition free_list :: "(nat \<Rightarrow> thread) \<Rightarrow> nat \<Rightarrow> nat \<Rightarrow> bool" where
  "free_list f i n \<longleftrightarrow> (\<exists>ks. chain f i ks \<and> distinct ks \<and> length ks + n = READ_THREADS \<and>
     (\<forall>k < READ_THREADS. k \<in> set ks \<longleftrightarrow> th_FreeLink (f k) \<noteq> 255))"

lemma free_list_cong:
  "(\<And>k. th_FreeLink (f k) = th_FreeLink (g k)) \<Longrightarrow> free_list f i n = free_list g i n"
  unfolding free_list_def using chain_cong [of _ f g] by metis

text \<open>Taking the head of the list, and putting a thread back.\<close>

lemma free_list_take:
  assumes "free_list f i n" "n < READ_THREADS"
  shows "i < READ_THREADS" "th_FreeLink (f i) \<noteq> 255"
    "free_list (f(i := (f i)\<lparr>th_FreeLink := 255\<rparr>)) (th_FreeLink (f i)) (n + 1)"
proof -
  obtain ks where ks: "chain f i ks" "distinct ks" "length ks + n = READ_THREADS"
    "\<forall>k < READ_THREADS. k \<in> set ks \<longleftrightarrow> th_FreeLink (f k) \<noteq> 255"
    using assms(1) by (auto simp: free_list_def)
  obtain ks' where k: "ks = i # ks'" "i < READ_THREADS" "chain f (th_FreeLink (f i)) ks'"
    using ks(1,3) assms(2) by (cases ks) auto
  show "i < READ_THREADS" "th_FreeLink (f i) \<noteq> 255" using k ks(4) by auto
  have "chain (f(i := (f i)\<lparr>th_FreeLink := 255\<rparr>)) (th_FreeLink (f i)) ks'"
    using k ks(2) chain_upd [of i ks'] by simp
  then show "free_list (f(i := (f i)\<lparr>th_FreeLink := 255\<rparr>)) (th_FreeLink (f i)) (n + 1)"
    unfolding free_list_def using ks k by (intro exI [of _ ks']) auto
qed

lemma free_list_put:
  assumes "free_list f i n" "k < READ_THREADS" "th_FreeLink (f k) = 255"
  shows "0 < n" "free_list (f(k := (f k)\<lparr>th_FreeLink := i\<rparr>)) k (n - 1)"
proof -
  obtain ks where ks: "chain f i ks" "distinct ks" "length ks + n = READ_THREADS"
    "\<forall>k < READ_THREADS. k \<in> set ks \<longleftrightarrow> th_FreeLink (f k) \<noteq> 255"
    using assms(1) by (auto simp: free_list_def)
  have nk: "k \<notin> set ks" using ks(4) assms(2,3) by simp
  have "insert k (set ks) \<subseteq> {..<READ_THREADS}" using chain_bound [OF ks(1)] assms(2) by auto
  then have "card (insert k (set ks)) \<le> READ_THREADS" by (metis card_lessThan card_mono finite_lessThan)
  then have "length ks < READ_THREADS" using nk ks(2) by (simp add: distinct_card)
  then show n: "0 < n" using ks(3) by simp
  have i: "i \<noteq> 255" using ks(1) by (cases ks) auto
  have "chain (f(k := (f k)\<lparr>th_FreeLink := i\<rparr>)) k (k # ks)"
    using ks(1) assms(2) nk chain_upd [of k ks] by simp
  then show "free_list (f(k := (f k)\<lparr>th_FreeLink := i\<rparr>)) k (n - 1)"
    unfolding free_list_def using ks nk n i assms(2) by (intro exI [of _ "k # ks"]) auto
qed

section \<open>The invariant\<close>

record gate =
  g_Mode :: vmode
  g_Ctx :: ctx
  g_Dpc :: bool

definition marked_set :: "ctx \<Rightarrow> nat set" where
  "marked_set c = {k. k < READ_THREADS \<and> th_Marked (ReadThread c k)}"

definition threads_ok :: "ctx \<Rightarrow> bool" where
  "threads_ok c \<longleftrightarrow> free_list (ReadThread c) (ReadFreeList c) (ReadActive c) \<and>
     (\<forall>k < READ_THREADS. th_Index (ReadThread c k) = k \<and> th_IsRead (ReadThread c k)) \<and>
     \<not> th_IsRead (OtherThread c) \<and> \<not> th_Marked (OtherThread c)"

definition counts_ok :: "ctx \<Rightarrow> bool" where
  "counts_ok c \<longleftrightarrow> ReadPending c = ReadActive c + length (ReadIrpQueue c) \<and>
     OtherPending c = OtherActive c + length (OtherIrpQueue c) \<and> OtherActive c \<le> 1 \<and> ReadPending c < 4294967296 \<and> OtherPending c < 4294967296"

definition marks_ok :: "ctx \<Rightarrow> bool" where
  "marks_ok c \<longleftrightarrow> ThreadsMarked c = card (marked_set c) \<and>
     (\<forall>k \<in> marked_set c. th_FreeLink (ReadThread c k) = 255) \<and>
     (WaitingMarkedThreads c \<longrightarrow> 0 < ThreadsMarked c \<and> OtherActive c = 1)"

text \<open>Requests wait only while every thread that could serve them is busy.\<close>

definition nobody_waits_idly :: "vmode \<Rightarrow> ctx \<Rightarrow> bool" where
  "nobody_waits_idly mode c \<longleftrightarrow> (mode = VLTL_MODE_ACTIVE \<longrightarrow>
     (ReadIrpQueue c \<noteq> [] \<longrightarrow> ReadActive c = READ_THREADS) \<and> (OtherIrpQueue c \<noteq> [] \<longrightarrow> OtherActive c = 1))"

definition timer_ok :: "bool \<Rightarrow> ctx \<Rightarrow> bool" where
  "timer_ok dpc c \<longleftrightarrow> (TimerActive c \<longleftrightarrow> Timer c \<or> dpc \<or> FlushPending c) \<and>
     \<not> (Timer c \<and> dpc) \<and> \<not> (Timer c \<and> FlushPending c) \<and> \<not> (dpc \<and> FlushPending c) \<and>
     (FlushPending c \<longrightarrow> OtherActive c = 1)"

definition gate_inv :: "gate \<Rightarrow> bool" where
  "gate_inv g \<longleftrightarrow> threads_ok (g_Ctx g) \<and> counts_ok (g_Ctx g) \<and> marks_ok (g_Ctx g) \<and>
     nobody_waits_idly (g_Mode g) (g_Ctx g) \<and> timer_ok (g_Dpc g) (g_Ctx g)"

lemmas gate_parts = threads_ok_def counts_ok_def marks_ok_def nobody_waits_idly_def timer_ok_def

text \<open>All the invariant depends on.\<close>

definition thread_view :: "thread \<Rightarrow> bool \<times> bool \<times> nat \<times> nat" where
  "thread_view t = (th_Marked t, th_IsRead t, th_Index t, th_FreeLink t)"

definition gate_view where
  "gate_view c =
     ((ReadIrpQueue c, OtherIrpQueue c, ReadPending c, OtherPending c, ReadActive c, OtherActive c),
      (ThreadsMarked c, WaitingMarkedThreads c, FlushPending c, TimerActive c, Timer c, ReadFreeList c),
      (\<lambda>k. thread_view (ReadThread c k)), thread_view (OtherThread c))"

lemma gate_viewD:
  assumes "gate_view c' = gate_view c"
  shows "ReadIrpQueue c' = ReadIrpQueue c" "OtherIrpQueue c' = OtherIrpQueue c" "ReadPending c' = ReadPending c"
    "OtherPending c' = OtherPending c" "ReadActive c' = ReadActive c" "OtherActive c' = OtherActive c"
    "ThreadsMarked c' = ThreadsMarked c" "WaitingMarkedThreads c' = WaitingMarkedThreads c"
    "FlushPending c' = FlushPending c" "TimerActive c' = TimerActive c" "Timer c' = Timer c"
    "ReadFreeList c' = ReadFreeList c"
    "th_Marked (ReadThread c' k) = th_Marked (ReadThread c k)" "th_IsRead (ReadThread c' k) = th_IsRead (ReadThread c k)"
    "th_Index (ReadThread c' k) = th_Index (ReadThread c k)" "th_FreeLink (ReadThread c' k) = th_FreeLink (ReadThread c k)"
    "th_IsRead (OtherThread c') = th_IsRead (OtherThread c)" "th_Marked (OtherThread c') = th_Marked (OtherThread c)"
  using assms by (auto simp: gate_view_def thread_view_def fun_eq_iff)

lemma view_inv:
  assumes "gate_view c' = gate_view (g_Ctx g)" "gate_inv g"
  shows "gate_inv (g\<lparr>g_Ctx := c'\<rparr>)"
proof -
  note v = gate_viewD [OF assms(1)]
  have "marked_set c' = marked_set (g_Ctx g)" by (simp add: marked_set_def v)
  moreover have "free_list (ReadThread c') = free_list (ReadThread (g_Ctx g))"
    by (intro ext free_list_cong) (rule v(16))
  ultimately show ?thesis using assms(2) by (auto simp: gate_inv_def gate_parts v)
qed

section \<open>Every locked section keeps it\<close>

lemma gate_invD:
  assumes "gate_inv g"
  shows "threads_ok (g_Ctx g)" "counts_ok (g_Ctx g)" "marks_ok (g_Ctx g)"
    "nobody_waits_idly (g_Mode g) (g_Ctx g)" "timer_ok (g_Dpc g) (g_Ctx g)"
  using assms by (simp_all add: gate_inv_def)

lemma gate_invI:
  "threads_ok c \<Longrightarrow> counts_ok c \<Longrightarrow> marks_ok c \<Longrightarrow> nobody_waits_idly (g_Mode g) c \<Longrightarrow> timer_ok (g_Dpc g) c \<Longrightarrow>
   gate_inv (g\<lparr>g_Ctx := c\<rparr>)"
  by (simp add: gate_inv_def)

text \<open>The parts of the invariant depend on few fields each.\<close>

lemma marks_ok_cong:
  assumes "marked_set d = marked_set c" "ThreadsMarked d = ThreadsMarked c"
    "\<And>k. k \<in> marked_set c \<Longrightarrow> th_FreeLink (ReadThread d k) = 255"
    "WaitingMarkedThreads d \<Longrightarrow> WaitingMarkedThreads c \<and> OtherActive d = OtherActive c" "marks_ok c"
  shows "marks_ok d"
  using assms by (auto simp: marks_ok_def)

lemma timer_ok_cong:
  assumes "TimerActive d = TimerActive c" "Timer d = Timer c" "FlushPending d = FlushPending c"
    "FlushPending c \<Longrightarrow> OtherActive d = OtherActive c" "timer_ok dpc c"
  shows "timer_ok dpc d"
  using assms by (auto simp: timer_ok_def)

lemma active_bound: "threads_ok c \<Longrightarrow> ReadActive c \<le> READ_THREADS"
  by (auto simp: threads_ok_def free_list_def)

lemma pending_bound: "counts_ok c \<Longrightarrow> ReadPending c < 4294967296" "counts_ok c \<Longrightarrow> OtherPending c < 4294967296"
  by (simp_all add: counts_ok_def)

lemma take_thread_fields [simp]:
  "ReadIrpQueue (snd (take_thread c)) = ReadIrpQueue c" "OtherIrpQueue (snd (take_thread c)) = OtherIrpQueue c"
  "ReadPending (snd (take_thread c)) = ReadPending c" "OtherPending (snd (take_thread c)) = OtherPending c"
  "ReadActive (snd (take_thread c)) = ReadActive c + 1" "OtherActive (snd (take_thread c)) = OtherActive c"
  "ThreadsMarked (snd (take_thread c)) = ThreadsMarked c" "WaitingMarkedThreads (snd (take_thread c)) = WaitingMarkedThreads c"
  "TimerActive (snd (take_thread c)) = TimerActive c" "Timer (snd (take_thread c)) = Timer c"
  "FlushPending (snd (take_thread c)) = FlushPending c" "OtherThread (snd (take_thread c)) = OtherThread c"
  "ReadFreeList (snd (take_thread c)) = th_FreeLink (ReadThread c (ReadFreeList c))"
  "ReadThread (snd (take_thread c)) =
     (ReadThread c)(ReadFreeList c := (ReadThread c (ReadFreeList c))\<lparr>th_FreeLink := 255\<rparr>)"
  by (simp_all add: take_thread_def Let_def)

lemma take_thread_inv:
  assumes g: "gate_inv g" "ReadActive (g_Ctx g) < READ_THREADS" "ReadPending (g_Ctx g) < 4294967295"
  defines "c \<equiv> (g_Ctx g)\<lparr>ReadPending := wrap32 (ReadPending (g_Ctx g) + 1)\<rparr>"
  shows "gate_inv (g\<lparr>g_Ctx := snd (take_thread c)\<rparr>)" "ReadFreeList c < READ_THREADS"
proof -
  have fl: "free_list (ReadThread c) (ReadFreeList c) (ReadActive c)" "ReadActive c < READ_THREADS"
    using g by (simp_all add: c_def gate_inv_def threads_ok_def)
  note t = free_list_take [OF fl]
  have nm: "\<not> th_Marked (ReadThread c (ReadFreeList c))"
    using gate_invD(3) [OF g(1)] t(1,2) by (auto simp: c_def marks_ok_def marked_set_def)
  have m: "marked_set (snd (take_thread c)) = marked_set (g_Ctx g)"
    using nm by (auto simp: marked_set_def c_def)
  show "ReadFreeList c < READ_THREADS" using t(1) .
  show "gate_inv (g\<lparr>g_Ctx := snd (take_thread c)\<rparr>)"
  proof (rule gate_invI)
    show "threads_ok (snd (take_thread c))"
      using gate_invD(1) [OF g(1)] t(3) by (simp add: threads_ok_def c_def)
    show "counts_ok (snd (take_thread c))" using gate_invD(2) [OF g(1)] g(3) by (simp add: counts_ok_def c_def)
    show "marks_ok (snd (take_thread c))"
      by (rule marks_ok_cong [OF m _ _ _ gate_invD(3) [OF g(1)]])
         (use gate_invD(3) [OF g(1)] in \<open>simp_all add: c_def marks_ok_def\<close>)
    show "nobody_waits_idly (g_Mode g) (snd (take_thread c))"
      using gate_invD(4) [OF g(1)] g(2) by (auto simp: nobody_waits_idly_def c_def)
    show "timer_ok (g_Dpc g) (snd (take_thread c))"
      by (rule timer_ok_cong [OF _ _ _ _ gate_invD(5) [OF g(1)]]) (simp_all add: c_def)
  qed
qed

lemma dispatch_inv:
  assumes g: "gate_inv g" and d: "dispatch_enter r i (g_Mode g) (g_Ctx g) = (e, c')"
    and b: "ReadPending (g_Ctx g) < 4294967295" "OtherPending (g_Ctx g) < 4294967295"
  shows "gate_inv (g\<lparr>g_Ctx := c'\<rparr>)"
proof -
  let ?c = "g_Ctx g"
  note inv = gate_invD [OF g]
  have enter: "gate_inv (g\<lparr>g_Ctx := d\<rparr>)"
    if "d = ?c\<lparr>ReadPending := ReadPending ?c + 1, ReadIrpQueue := ReadIrpQueue ?c @ [i]\<rparr> \<and> ReadActive ?c = READ_THREADS \<or>
        d = ?c\<lparr>OtherPending := OtherPending ?c + 1, OtherActive := 1\<rparr> \<and> OtherActive ?c = 0 \<or>
        d = ?c\<lparr>OtherPending := OtherPending ?c + 1, OtherIrpQueue := OtherIrpQueue ?c @ [i]\<rparr> \<and> OtherActive ?c = 1" for d
  proof (rule gate_invI)
    have "marked_set d = marked_set ?c" using that by (auto simp: marked_set_def)
    then show "marks_ok d"
      by (rule marks_ok_cong [OF _ _ _ _ inv(3)]) (use that inv(3) in \<open>auto simp: marks_ok_def\<close>)
    show "threads_ok d" using that inv(1) by (auto simp: threads_ok_def)
    show "counts_ok d" using that inv(2) b by (auto simp: counts_ok_def)
    show "nobody_waits_idly (g_Mode g) d" using that inv(4) by (auto simp: nobody_waits_idly_def)
    show "timer_ok (g_Dpc g) d"
      by (rule timer_ok_cong [OF _ _ _ _ inv(5)]) (use that inv(5) in \<open>auto simp: timer_ok_def\<close>)
  qed
  have oa: "OtherActive ?c = 0 \<or> OtherActive ?c = 1" using inv(2) by (auto simp: counts_ok_def)
  show ?thesis
  proof (cases "g_Mode g = VLTL_MODE_ACTIVE \<and> r \<and> ReadActive ?c < READ_THREADS")
    case True
    then have "c' = snd (take_thread (?c\<lparr>ReadPending := wrap32 (ReadPending ?c + 1)\<rparr>))"
      using d by (auto simp: dispatch_enter_def Let_def split: prod.splits)
    then show ?thesis using take_thread_inv(1) [OF g] True b by simp
  next
    case False
    show ?thesis
    proof (cases "g_Mode g = VLTL_MODE_ACTIVE")
      case False
      then show ?thesis using d g by (auto simp: dispatch_enter_def)
    next
      case True
      then show ?thesis
        using \<open>\<not> (_ \<and> _ \<and> _)\<close> d b oa active_bound [OF inv(1)]
        by (intro enter) (auto simp: dispatch_enter_def Let_def split: if_splits)
    qed
  qed
qed

text \<open>A thread that is serving a request.\<close>

definition in_use :: "ctx \<Rightarrow> tid \<Rightarrow> bool" where
  "in_use c t = (case t of TRead k \<Rightarrow> k < READ_THREADS \<and> th_FreeLink (ReadThread c k) = 255
     | TOther \<Rightarrow> OtherActive c = 1 \<and> \<not> WaitingMarkedThreads c)"

text \<open>
  Between leaving and the removal of its mark the thread may be on the free list with its mark
  still set: \<open>marks_but\<close> leaves that thread out.
\<close>

definition marks_but :: "tid \<Rightarrow> ctx \<Rightarrow> bool" where
  "marks_but t c \<longleftrightarrow> ThreadsMarked c = card (marked_set c) \<and>
     (\<forall>k \<in> marked_set c. t \<noteq> TRead k \<longrightarrow> th_FreeLink (ReadThread c k) = 255) \<and>
     (WaitingMarkedThreads c \<longrightarrow> 0 < ThreadsMarked c \<and> OtherActive c = 1)"

lemma release_fields [simp]:
  "ReadIrpQueue (release_thread (TRead k) c) = ReadIrpQueue c" "OtherIrpQueue (release_thread (TRead k) c) = OtherIrpQueue c"
  "ReadPending (release_thread (TRead k) c) = ReadPending c" "OtherPending (release_thread (TRead k) c) = OtherPending c"
  "ReadActive (release_thread (TRead k) c) = sub8 (ReadActive c) 1" "OtherActive (release_thread (TRead k) c) = OtherActive c"
  "ThreadsMarked (release_thread (TRead k) c) = ThreadsMarked c"
  "WaitingMarkedThreads (release_thread (TRead k) c) = WaitingMarkedThreads c"
  "TimerActive (release_thread (TRead k) c) = TimerActive c" "Timer (release_thread (TRead k) c) = Timer c"
  "FlushPending (release_thread (TRead k) c) = FlushPending c" "OtherThread (release_thread (TRead k) c) = OtherThread c"
  "ReadFreeList (release_thread (TRead k) c) = th_Index (ReadThread c k)"
  "ReadThread (release_thread (TRead k) c) = (ReadThread c)(k := (ReadThread c k)\<lparr>th_FreeLink := ReadFreeList c\<rparr>)"
  by (simp_all add: release_thread_def Let_def)

lemma leave_read_inv:
  assumes g: "gate_inv g" "k < READ_THREADS" "th_FreeLink (ReadThread (g_Ctx g) k) = 255"
    and l: "leave_read (g_Mode g \<noteq> VLTL_MODE_ACTIVE) (TRead k) (g_Ctx g) = (now, d)"
  shows "threads_ok d \<and> counts_ok d \<and> nobody_waits_idly (g_Mode g) d \<and> timer_ok (g_Dpc g) d \<and> marks_but (TRead k) d"
    "0 < ReadPending (g_Ctx g)" "0 < ReadActive (g_Ctx g)"
proof -
  let ?c = "g_Ctx g"
  note inv = gate_invD [OF g(1)]
  have fl: "free_list (ReadThread ?c) (ReadFreeList ?c) (ReadActive ?c)" using inv(1) by (simp add: threads_ok_def)
  note p = free_list_put [OF fl g(2,3)]
  show pa: "0 < ReadActive ?c" using p(1) .
  then show pp: "0 < ReadPending ?c" using inv(2) by (simp add: counts_ok_def)
  have s: "sub32 (ReadPending ?c) 1 = ReadPending ?c - 1" "sub8 (ReadActive ?c) 1 = ReadActive ?c - 1"
    using pending_bound [OF inv(2)] active_bound [OF inv(1)] pp pa by simp_all
  consider (pop) "g_Mode g = VLTL_MODE_ACTIVE" "ReadIrpQueue ?c \<noteq> []"
      "d = ?c\<lparr>ReadPending := ReadPending ?c - 1, ReadIrpQueue := tl (ReadIrpQueue ?c)\<rparr>"
    | (free) "g_Mode g = VLTL_MODE_ACTIVE \<longrightarrow> ReadIrpQueue ?c = []"
      "d = release_thread (TRead k) (?c\<lparr>ReadPending := ReadPending ?c - 1\<rparr>)"
    using l s(1) by (cases "g_Mode g = VLTL_MODE_ACTIVE"; cases "ReadIrpQueue ?c = []") (auto simp: leave_read_def Let_def)
  then show "threads_ok d \<and> counts_ok d \<and> nobody_waits_idly (g_Mode g) d \<and> timer_ok (g_Dpc g) d \<and> marks_but (TRead k) d"
  proof cases
    case pop
    have "marked_set d = marked_set ?c" by (simp add: pop marked_set_def)
    then show ?thesis using pop inv pp
      by (auto simp: threads_ok_def counts_ok_def nobody_waits_idly_def timer_ok_def marks_but_def marks_ok_def)
  next
    case free
    have idx: "th_Index (ReadThread ?c k) = k" using inv(1) g(2) by (simp add: threads_ok_def)
    have m: "marked_set d = marked_set ?c" by (auto simp: free marked_set_def)
    have "threads_ok d" using inv(1) p(2) s(2) idx by (simp add: free threads_ok_def)
    moreover have "counts_ok d" using inv(2) pp pa s(2) by (auto simp: free counts_ok_def)
    moreover have "nobody_waits_idly (g_Mode g) d" using inv(4) free by (auto simp: nobody_waits_idly_def)
    moreover have "timer_ok (g_Dpc g) d" using inv(5) by (simp add: free timer_ok_def)
    moreover have "marks_but (TRead k) d" using inv(3) unfolding marks_but_def m by (auto simp: free marks_ok_def)
    ultimately show ?thesis by simp
  qed
qed

lemma start_timer_fields [simp]:
  "ReadIrpQueue (start_timer c) = ReadIrpQueue c" "OtherIrpQueue (start_timer c) = OtherIrpQueue c"
  "ReadPending (start_timer c) = ReadPending c" "OtherPending (start_timer c) = OtherPending c"
  "ReadActive (start_timer c) = ReadActive c" "OtherActive (start_timer c) = OtherActive c"
  "ThreadsMarked (start_timer c) = ThreadsMarked c" "WaitingMarkedThreads (start_timer c) = WaitingMarkedThreads c"
  "FlushPending (start_timer c) = FlushPending c" "OtherThread (start_timer c) = OtherThread c"
  "ReadFreeList (start_timer c) = ReadFreeList c" "ReadThread (start_timer c) = ReadThread c"
  by (simp_all add: start_timer_def KeSetTimer_def)

lemma start_timer_ok: "timer_ok dpc c \<Longrightarrow> timer_ok dpc (start_timer c)"
  by (auto simp: start_timer_def KeSetTimer_def timer_ok_def)

lemma start_timer_cong:
  "marked_set (start_timer c) = marked_set c" "threads_ok (start_timer c) = threads_ok c"
  "counts_ok (start_timer c) = counts_ok c" "nobody_waits_idly mode (start_timer c) = nobody_waits_idly mode c"
  "marks_but t (start_timer c) = marks_but t c"
  by (simp_all add: marked_set_def threads_ok_def counts_ok_def nobody_waits_idly_def marks_but_def)

lemma leave_other_eq:
  assumes "sub32 (OtherPending c) 1 = p" "sub8 (OtherActive c) 1 = 0" "wrap32 (p + 1) = p'"
  shows "leave_other E c =
    (if \<not> E \<and> OtherIrpQueue c \<noteq> []
     then (Some (hd (OtherIrpQueue c)), False,
           c\<lparr>OtherPending := p, OtherActive := 1, OtherIrpQueue := tl (OtherIrpQueue c)\<rparr>)
     else if FlushPending c
     then if CacheDirty c \<and> \<not> E
          then (None, True, c\<lparr>OtherPending := p', OtherActive := 1, FlushPending := False, TimerActive := False\<rparr>)
          else (None, False, start_timer (c\<lparr>OtherPending := p, OtherActive := 0, FlushPending := False, TimerActive := False\<rparr>))
     else (None, False, start_timer (c\<lparr>OtherPending := p, OtherActive := 0\<rparr>)))"
  using assms by (simp add: leave_other_def Let_def)

lemma leave_other_inv:
  assumes g: "gate_inv g" "OtherActive (g_Ctx g) = 1" "\<not> WaitingMarkedThreads (g_Ctx g)"
    and l: "leave_other (g_Mode g \<noteq> VLTL_MODE_ACTIVE) (g_Ctx g) = (now, flush, d)"
  shows "threads_ok d \<and> counts_ok d \<and> nobody_waits_idly (g_Mode g) d \<and> timer_ok (g_Dpc g) d \<and> marks_but TOther d"
    "0 < OtherPending (g_Ctx g)"
proof -
  let ?c = "g_Ctx g"
  note inv = gate_invD [OF g(1)]
  show pp: "0 < OtherPending ?c" using inv(2) g(2) by (simp add: counts_ok_def)
  have s: "sub32 (OtherPending ?c) 1 = OtherPending ?c - 1" "sub8 (OtherActive ?c) 1 = 0"
    "wrap32 (OtherPending ?c - 1 + 1) = OtherPending ?c"
    using pending_bound [OF inv(2)] pp g(2) by simp_all
  let ?d0 = "?c\<lparr>OtherPending := OtherPending ?c - 1, OtherActive := 0\<rparr>"
  have quit0: "threads_ok d \<and> counts_ok d \<and> nobody_waits_idly (g_Mode g) d \<and> timer_ok (g_Dpc g) d \<and> marks_but TOther d"
    if quit0: "g_Mode g = VLTL_MODE_ACTIVE \<longrightarrow> OtherIrpQueue ?c = []" "\<not> FlushPending ?c" "d = start_timer ?d0"
  proof -
    have m: "marked_set ?d0 = marked_set ?c" by (simp add: marked_set_def)
    have "threads_ok ?d0 \<and> counts_ok ?d0 \<and> nobody_waits_idly (g_Mode g) ?d0 \<and> timer_ok (g_Dpc g) ?d0 \<and> marks_but TOther ?d0"
    proof (intro conjI)
      show "threads_ok ?d0" using inv(1) by (simp add: threads_ok_def)
      show "counts_ok ?d0" using inv(2) pp g(2) by (auto simp: counts_ok_def)
      show "nobody_waits_idly (g_Mode g) ?d0" using inv(4) quit0(1) by (auto simp: nobody_waits_idly_def)
      show "timer_ok (g_Dpc g) ?d0" using inv(5) quit0(2) by (auto simp: timer_ok_def)
      show "marks_but TOther ?d0" unfolding marks_but_def m using inv(3) g(3) by (auto simp: marks_ok_def)
    qed
    then show ?thesis by (simp only: quit0(3) start_timer_cong start_timer_ok)
  qed
  show "threads_ok d \<and> counts_ok d \<and> nobody_waits_idly (g_Mode g) d \<and> timer_ok (g_Dpc g) d \<and> marks_but TOther d"
  proof (cases "g_Mode g = VLTL_MODE_ACTIVE \<and> OtherIrpQueue ?c \<noteq> []")
    case True
    then have pop: "g_Mode g = VLTL_MODE_ACTIVE" "OtherIrpQueue ?c \<noteq> []"
      "d = ?d0\<lparr>OtherActive := 1, OtherIrpQueue := tl (OtherIrpQueue ?c)\<rparr>"
      using l by (simp_all add: leave_other_eq [OF s])
    have m: "marked_set d = marked_set ?c" by (simp add: pop marked_set_def)
    show ?thesis
    proof (intro conjI)
      show "threads_ok d" using inv(1) by (simp add: pop threads_ok_def)
      show "counts_ok d" using inv(2) pp g(2) pop by (auto simp: counts_ok_def)
      show "nobody_waits_idly (g_Mode g) d" using inv(4) pop by (auto simp: nobody_waits_idly_def)
      show "timer_ok (g_Dpc g) d" using inv(5) g(2) pop by (auto simp: timer_ok_def)
      show "marks_but TOther d" unfolding marks_but_def m using inv(3) g(3) by (auto simp: pop marks_ok_def)
    qed
  next
    case nq: False
    show ?thesis
    proof (cases "FlushPending ?c"; cases "CacheDirty ?c \<and> g_Mode g = VLTL_MODE_ACTIVE")
    assume f: "FlushPending ?c" and "CacheDirty ?c \<and> g_Mode g = VLTL_MODE_ACTIVE"
    then have flush: "OtherIrpQueue ?c = []"
      "d = ?c\<lparr>OtherPending := OtherPending ?c, OtherActive := 1, FlushPending := False, TimerActive := False\<rparr>"
      using l nq by (simp_all add: leave_other_eq [OF s])
    have m: "marked_set d = marked_set ?c" by (simp add: flush marked_set_def)
    show ?thesis
    proof (intro conjI)
      show "threads_ok d" using inv(1) by (simp add: flush threads_ok_def)
      show "counts_ok d" using inv(2) pp g(2) flush by (auto simp: counts_ok_def)
      show "nobody_waits_idly (g_Mode g) d" using inv(4) flush by (auto simp: nobody_waits_idly_def)
      show "timer_ok (g_Dpc g) d" using inv(5) g(2) f by (auto simp: flush timer_ok_def)
      show "marks_but TOther d" unfolding marks_but_def m using inv(3) g(3) by (auto simp: flush marks_ok_def)
    qed
  next
    assume f: "FlushPending ?c" and "\<not> (CacheDirty ?c \<and> g_Mode g = VLTL_MODE_ACTIVE)"
    then have quit: "g_Mode g = VLTL_MODE_ACTIVE \<longrightarrow> OtherIrpQueue ?c = []" "FlushPending ?c"
      "d = start_timer (?d0\<lparr>FlushPending := False, TimerActive := False\<rparr>)"
      using l nq by (auto simp add: leave_other_eq [OF s])
    let ?e = "?d0\<lparr>FlushPending := False, TimerActive := False\<rparr>"
    have m: "marked_set ?e = marked_set ?c" by (simp add: marked_set_def)
    have "threads_ok ?e \<and> counts_ok ?e \<and> nobody_waits_idly (g_Mode g) ?e \<and> timer_ok (g_Dpc g) ?e \<and> marks_but TOther ?e"
    proof (intro conjI)
      show "threads_ok ?e" using inv(1) by (simp add: threads_ok_def)
      show "counts_ok ?e" using inv(2) pp g(2) by (auto simp: counts_ok_def)
      show "nobody_waits_idly (g_Mode g) ?e" using inv(4) quit(1) by (auto simp: nobody_waits_idly_def)
      show "timer_ok (g_Dpc g) ?e" using inv(5) quit(2) by (auto simp: timer_ok_def)
      show "marks_but TOther ?e" unfolding marks_but_def m using inv(3) g(3) by (auto simp: marks_ok_def)
    qed
    then show ?thesis by (simp only: quit(3) start_timer_cong start_timer_ok)
  next
    assume "\<not> FlushPending ?c"
    then show ?thesis using l nq by (intro quit0) (auto simp add: leave_other_eq [OF s])
  next
    assume "\<not> FlushPending ?c"
    then show ?thesis using l nq by (intro quit0) (auto simp add: leave_other_eq [OF s])
  qed
  qed
qed

lemma marked_set_bound: "marked_set c \<subseteq> {..<READ_THREADS}" "finite (marked_set c)"
  by (auto simp: marked_set_def)

lemma card_remove: "k \<in> S \<Longrightarrow> finite S \<Longrightarrow> 0 < card S \<and> card (S - {k}) = card S - 1"
  by (auto simp: card_gt_0_iff)

lemma waiting_cong:
  "threads_ok (c\<lparr>WaitingMarkedThreads := b\<rparr>) = threads_ok c" "counts_ok (c\<lparr>WaitingMarkedThreads := b\<rparr>) = counts_ok c"
  "nobody_waits_idly mode (c\<lparr>WaitingMarkedThreads := b\<rparr>) = nobody_waits_idly mode c"
  "timer_ok dpc (c\<lparr>WaitingMarkedThreads := b\<rparr>) = timer_ok dpc c"
  by (simp_all add: threads_ok_def counts_ok_def nobody_waits_idly_def timer_ok_def)

lemma unmark_inv:
  assumes p: "threads_ok c" "counts_ok c" "nobody_waits_idly mode c" "timer_ok dpc c" "marks_but t c"
    and t: "\<And>k. t = TRead k \<Longrightarrow> k < READ_THREADS"
  shows "threads_ok (snd (wake_writer (unmark t c))) \<and> counts_ok (snd (wake_writer (unmark t c))) \<and>
    nobody_waits_idly mode (snd (wake_writer (unmark t c))) \<and> timer_ok dpc (snd (wake_writer (unmark t c))) \<and>
    marks_ok (snd (wake_writer (unmark t c)))"
proof -
  let ?u = "unmark t c"
  have tm: "ThreadsMarked c < 256"
  proof -
    have "card (marked_set c) \<le> card {..<READ_THREADS}" by (rule card_mono) (auto simp: marked_set_def)
    then show ?thesis using p(5) by (simp add: marks_but_def)
  qed
  have u: "threads_ok ?u \<and> counts_ok ?u \<and> nobody_waits_idly mode ?u \<and> timer_ok dpc ?u \<and>
      ThreadsMarked ?u = card (marked_set ?u) \<and> (\<forall>k \<in> marked_set ?u. th_FreeLink (ReadThread ?u k) = 255) \<and>
      (WaitingMarkedThreads ?u \<longrightarrow> OtherActive ?u = 1)"
  proof (cases "\<exists>k. t = TRead k \<and> th_Marked (ReadThread c k)")
    case True
    then obtain k where k: "t = TRead k" "th_Marked (ReadThread c k)" by blast
    have kb: "k < READ_THREADS" using t k(1) .
    have m: "marked_set ?u = marked_set c - {k}" using k by (auto simp: unmark_def marked_set_def Let_def)
    have "k \<in> marked_set c" using k kb by (simp add: marked_set_def)
    from card_remove [OF this marked_set_bound(2)]
    have tmu: "ThreadsMarked ?u = card (marked_set ?u)"
      using k tm p(5) unfolding m by (simp add: unmark_def Let_def marks_but_def)
    have "free_list (ReadThread ?u) = free_list (ReadThread c)"
      using k by (intro ext free_list_cong) (simp add: unmark_def Let_def)
    then have "threads_ok ?u" using p(1) k by (auto simp: threads_ok_def unmark_def Let_def)
    moreover have "counts_ok ?u" "nobody_waits_idly mode ?u" "timer_ok dpc ?u"
      using p k by (simp_all add: unmark_def Let_def counts_ok_def nobody_waits_idly_def timer_ok_def)
    moreover have "\<forall>j \<in> marked_set ?u. th_FreeLink (ReadThread ?u j) = 255" "WaitingMarkedThreads ?u \<longrightarrow> OtherActive ?u = 1"
      using p(5) k unfolding m by (auto simp: unmark_def Let_def marks_but_def)
    ultimately show ?thesis using tmu by simp
  next
    case False
    then have "?u = c" using p(1) by (cases t) (auto simp: unmark_def Let_def threads_ok_def)
    moreover have "t \<noteq> TRead k" if "k \<in> marked_set c" for k using False that by (auto simp: marked_set_def)
    ultimately show ?thesis using p by (auto simp: marks_but_def)
  qed
  let ?w = "snd (wake_writer ?u)"
  have w: "?w = (if ThreadsMarked ?u = 0 \<and> WaitingMarkedThreads ?u then ?u\<lparr>WaitingMarkedThreads := False\<rparr> else ?u)"
    by (simp add: wake_writer_def)
  have mw: "marked_set ?w = marked_set ?u" by (simp add: w marked_set_def)
  have "threads_ok ?w \<and> counts_ok ?w \<and> nobody_waits_idly mode ?w \<and> timer_ok dpc ?w"
    using u by (simp add: w waiting_cong)
  moreover have "marks_ok ?w" using u unfolding marks_ok_def mw by (auto simp: w)
  ultimately show ?thesis by simp
qed

lemma completion_inv:
  assumes g: "gate_inv g" "in_use (g_Ctx g) t" and l: "completion_locked t (g_Mode g) (g_Ctx g) = (a, c')"
  shows "gate_inv (g\<lparr>g_Ctx := c'\<rparr>)"
proof (cases t)
  case (TRead k)
  have k: "k < READ_THREADS" "th_FreeLink (ReadThread (g_Ctx g) k) = 255" using g(2) TRead by (simp_all add: in_use_def)
  have r: "th_IsRead (get_thread (g_Ctx g) t)" using gate_invD(1) [OF g(1)] k TRead by (simp add: threads_ok_def)
  obtain now d where d: "leave_read (g_Mode g \<noteq> VLTL_MODE_ACTIVE) (TRead k) (g_Ctx g) = (now, d)" by fastforce
  have c': "c' = snd (wake_writer (unmark t d))"
    using l r d TRead by (auto simp: completion_locked_def Let_def split: prod.splits)
  show ?thesis unfolding c'
    using unmark_inv [of d "g_Mode g" "g_Dpc g" t] leave_read_inv(1) [OF g(1) k d] TRead k(1)
    by (intro gate_invI) auto
next
  case TOther
  have o: "OtherActive (g_Ctx g) = 1" "\<not> WaitingMarkedThreads (g_Ctx g)" using g(2) TOther by (simp_all add: in_use_def)
  have r: "\<not> th_IsRead (get_thread (g_Ctx g) t)" using gate_invD(1) [OF g(1)] TOther by (simp add: threads_ok_def)
  obtain now f d where d: "leave_other (g_Mode g \<noteq> VLTL_MODE_ACTIVE) (g_Ctx g) = (now, f, d)" by (metis prod_cases3)
  have c': "c' = snd (wake_writer (unmark t d))"
    using l r d TOther by (auto simp: completion_locked_def Let_def split: prod.splits)
  show ?thesis unfolding c'
    using unmark_inv [of d "g_Mode g" "g_Dpc g" t] leave_other_inv(1) [OF g(1) o d] TOther
    by (intro gate_invI) auto
qed

text \<open>The assertion before cleaning up: nothing else has been decided.\<close>

lemma completion_clean:
  assumes g: "gate_inv g" "in_use (g_Ctx g) t" and l: "completion_locked t (g_Mode g) (g_Ctx g) = (a, c')"
    and a: "a_Clean a"
  shows "a_Now a = None" "\<not> a_WriteComplete a" "\<not> a_Flush a"
proof -
  have na: "g_Mode g \<noteq> VLTL_MODE_ACTIVE" "OtherActive c' = 0"
    using l a by (auto simp: completion_locked_def Let_def split: prod.splits)
  show "a_Now a = None" "\<not> a_Flush a"
    using l na(1) by (auto simp: completion_locked_def leave_read_def leave_other_def Let_def split: prod.splits if_splits)
  have inv: "\<not> WaitingMarkedThreads d" if d: "marks_but t d" "OtherActive d = 0" for d
    using d by (auto simp: marks_but_def)
  have same: "OtherActive (snd (wake_writer (unmark t d))) = OtherActive d" for d
    by (cases t) (simp_all add: wake_writer_def unmark_def Let_def)
  have wf: "\<not> fst (wake_writer (unmark t d))" if "\<not> WaitingMarkedThreads d" for d
    using that by (cases t) (simp_all add: wake_writer_def unmark_def Let_def)
  show "\<not> a_WriteComplete a"
  proof (cases t)
    case (TRead k)
    have k: "k < READ_THREADS" "th_FreeLink (ReadThread (g_Ctx g) k) = 255" using g(2) TRead by (simp_all add: in_use_def)
    have r: "th_IsRead (get_thread (g_Ctx g) t)" using gate_invD(1) [OF g(1)] k TRead by (simp add: threads_ok_def)
    obtain now d where d: "leave_read (g_Mode g \<noteq> VLTL_MODE_ACTIVE) (TRead k) (g_Ctx g) = (now, d)" by fastforce
    have e: "c' = snd (wake_writer (unmark t d))" "a_WriteComplete a = fst (wake_writer (unmark t d))"
      using l r d TRead by (auto simp: completion_locked_def Let_def split: prod.splits)
    show ?thesis using e na(2) same inv wf leave_read_inv(1) [OF g(1) k d] TRead by simp
  next
    case TOther
    have o: "OtherActive (g_Ctx g) = 1" "\<not> WaitingMarkedThreads (g_Ctx g)" using g(2) TOther by (simp_all add: in_use_def)
    have r: "\<not> th_IsRead (get_thread (g_Ctx g) t)" using gate_invD(1) [OF g(1)] TOther by (simp add: threads_ok_def)
    obtain now f d where d: "leave_other (g_Mode g \<noteq> VLTL_MODE_ACTIVE) (g_Ctx g) = (now, f, d)" by (metis prod_cases3)
    have e: "c' = snd (wake_writer (unmark t d))" "a_WriteComplete a = fst (wake_writer (unmark t d))"
      using l r d TOther by (auto simp: completion_locked_def Let_def split: prod.splits)
    show ?thesis using e na(2) same inv wf leave_other_inv(1) [OF g(1) o d] TOther by simp
  qed
qed

lemma mark_one_inv:
  assumes g: "gate_inv g" "k < READ_THREADS" "c' = mark_one k (g_Ctx g)"
  shows "gate_inv (g\<lparr>g_Ctx := c'\<rparr>)"
proof (cases "th_FreeLink (ReadThread (g_Ctx g) k) = 255 \<and> \<not> th_Marked (ReadThread (g_Ctx g) k)")
  case True
  let ?c = "g_Ctx g"
  note inv = gate_invD [OF g(1)]
  have c': "c' = ?c\<lparr>ReadThread := (ReadThread ?c)(k := (ReadThread ?c k)\<lparr>th_Marked := True\<rparr>), ThreadsMarked := ThreadsMarked ?c + 1\<rparr>"
    using g(3) True by (simp add: mark_one_def Let_def)
  have m: "marked_set c' = insert k (marked_set ?c)" "k \<notin> marked_set ?c"
    using g(2) True by (auto simp: c' marked_set_def)
  have "free_list (ReadThread c') = free_list (ReadThread ?c)"
    by (intro ext free_list_cong) (simp add: c')
  then have "threads_ok c'" using inv(1) by (auto simp: threads_ok_def c')
  moreover have "counts_ok c'" "nobody_waits_idly (g_Mode g) c'" "timer_ok (g_Dpc g) c'"
    using inv(2,4,5) by (simp_all add: c' counts_ok_def nobody_waits_idly_def timer_ok_def)
  moreover have "ThreadsMarked c' = card (marked_set c')"
    using inv(3) m(2) marked_set_bound(2) [of ?c] unfolding m(1) by (simp add: c' marks_ok_def)
  then have "marks_ok c'"
    using inv(3) True unfolding marks_ok_def m(1) by (auto simp: c')
  ultimately show ?thesis by (intro gate_invI)
next
  case False
  then have "c' = g_Ctx g" using g(3) by (auto simp: mark_one_def Let_def)
  then show ?thesis using g(1) by simp
qed

lemma mark_threads_inv:
  assumes "gate_inv g" shows "gate_inv (g\<lparr>g_Ctx := MarkReadingThreads (g_Ctx g)\<rparr>)"
proof -
  have "(\<And>k. k \<in> set ks \<Longrightarrow> k < READ_THREADS) \<Longrightarrow> gate_inv (g\<lparr>g_Ctx := c\<rparr>) \<Longrightarrow> gate_inv (g\<lparr>g_Ctx := fold mark_one ks c\<rparr>)" for ks c
  proof (induction ks arbitrary: c)
    case (Cons k ks)
    have "gate_inv (g\<lparr>g_Ctx := mark_one k c\<rparr>)"
      using mark_one_inv [OF Cons.prems(2), of k] Cons.prems(1) by simp
    then show ?case using Cons by simp
  qed simp
  from this [of "[0..<READ_THREADS]" "g_Ctx g"] show ?thesis using assms by (simp add: MarkReadingThreads_def)
qed

text \<open>The locked section of \<open>WaitMarkedThreadsAndWriteCompleteHandler\<close>.\<close>

definition wait_marked :: "ctx \<Rightarrow> bool \<times> ctx" where
  "wait_marked c =
     (let c' = (if 0 < ThreadsMarked c then c\<lparr>WaitingMarkedThreads := True\<rparr> else c)
      in (WaitingMarkedThreads c', c'))"

lemma wait_marked_code:
  "WaitMarkedThreadsAndWriteCompleteHandler lower h =
    (let (waiting, c) = wait_marked (hs_Ctx h) in
     if \<not> waiting then WriteCompleteHandler lower (h\<lparr>hs_Ctx := c\<rparr>) else (False, h\<lparr>hs_Ctx := c\<rparr>))"
  by (simp add: WaitMarkedThreadsAndWriteCompleteHandler_def wait_marked_def upd_ctx_def Let_def)

lemma wait_inv:
  assumes "gate_inv g" "OtherActive (g_Ctx g) = 1"
  shows "gate_inv (g\<lparr>g_Ctx := snd (wait_marked (g_Ctx g))\<rparr>)"
proof (rule gate_invI)
  note inv = gate_invD [OF assms(1)]
  let ?w = "snd (wait_marked (g_Ctx g))"
  have w: "?w = (if 0 < ThreadsMarked (g_Ctx g) then (g_Ctx g)\<lparr>WaitingMarkedThreads := True\<rparr> else g_Ctx g)"
    by (simp add: wait_marked_def Let_def)
  show "threads_ok ?w" "counts_ok ?w" "nobody_waits_idly (g_Mode g) ?w" "timer_ok (g_Dpc g) ?w"
    using inv by (simp_all add: w waiting_cong)
  have "marked_set ?w = marked_set (g_Ctx g)" by (simp add: w marked_set_def)
  then show "marks_ok ?w" using inv(3) assms(2) by (auto simp: marks_ok_def w)
qed

lemma stop_timer_inv:
  assumes "gate_inv g" shows "gate_inv (g\<lparr>g_Ctx := stop_timer (g_Ctx g)\<rparr>)"
proof (rule gate_invI)
  note inv = gate_invD [OF assms]
  have s: "stop_timer (g_Ctx g) = (if TimerActive (g_Ctx g) then (if Timer (g_Ctx g) then (g_Ctx g)\<lparr>Timer := False, TimerActive := False\<rparr> else g_Ctx g\<lparr>Timer := False\<rparr>) else g_Ctx g)"
    by (simp add: stop_timer_def KeCancelTimer_def Let_def)
  show "threads_ok (stop_timer (g_Ctx g))" "counts_ok (stop_timer (g_Ctx g))" "nobody_waits_idly (g_Mode g) (stop_timer (g_Ctx g))"
    using inv by (simp_all add: s threads_ok_def counts_ok_def nobody_waits_idly_def)
  show "timer_ok (g_Dpc g) (stop_timer (g_Ctx g))" using inv(5) by (auto simp: s timer_ok_def)
  have "marked_set (stop_timer (g_Ctx g)) = marked_set (g_Ctx g)" by (simp add: s marked_set_def)
  then show "marks_ok (stop_timer (g_Ctx g))" using inv(3) by (auto simp: marks_ok_def s)
qed

lemma flush_dpc_eq:
  "wrap32 (OtherPending c + 1) = p \<Longrightarrow> flush_dpc mode c =
    (if OtherActive c = 0
     then if CacheDirty c \<and> mode = VLTL_MODE_ACTIVE
          then (True, c\<lparr>OtherPending := p, OtherActive := 1, FlushPending := False, TimerActive := False\<rparr>)
          else (False, c\<lparr>FlushPending := False, TimerActive := False\<rparr>)
     else (False, c\<lparr>FlushPending := True\<rparr>))"
  by (simp add: flush_dpc_def Let_def)

lemma dpc_inv:
  assumes g: "gate_inv g" "g_Dpc g" and l: "flush_dpc (g_Mode g) (g_Ctx g) = (f, c')"
    and b: "OtherPending (g_Ctx g) < 4294967295"
  shows "gate_inv (g\<lparr>g_Ctx := c', g_Dpc := False\<rparr>)"
proof -
  let ?c = "g_Ctx g"
  note inv = gate_invD [OF g(1)]
  have nt: "\<not> Timer ?c" "TimerActive ?c" using inv(5) g(2) by (auto simp: timer_ok_def)
  have busy: ?thesis if busy: "OtherActive ?c \<noteq> 0" "c' = ?c\<lparr>FlushPending := True\<rparr>"
  proof -
    have "marked_set c' = marked_set ?c" by (simp add: busy marked_set_def)
    then have "marks_ok c'" using inv(3) by (auto simp: marks_ok_def busy)
    moreover have "threads_ok c'" "counts_ok c'" "nobody_waits_idly (g_Mode g) c'"
      using inv by (simp_all add: busy threads_ok_def counts_ok_def nobody_waits_idly_def)
    moreover have "timer_ok False c'" using inv(2,5) g(2) nt busy(1) by (auto simp: busy(2) timer_ok_def counts_ok_def)
    ultimately show ?thesis by (simp add: gate_inv_def)
  qed
  have p: "wrap32 (OtherPending ?c + 1) = OtherPending ?c + 1" using b by simp
  note l' = l [unfolded flush_dpc_eq [OF p]]
  show ?thesis
  proof (cases "OtherActive ?c = 0"; cases "CacheDirty ?c \<and> g_Mode g = VLTL_MODE_ACTIVE")
    assume "OtherActive ?c = 0" "CacheDirty ?c \<and> g_Mode g = VLTL_MODE_ACTIVE"
    then have flush: "OtherActive ?c = 0" "c' = ?c\<lparr>OtherPending := OtherPending ?c + 1, OtherActive := 1, FlushPending := False, TimerActive := False\<rparr>"
      using l' by simp_all
    have "marked_set c' = marked_set ?c" by (simp add: flush marked_set_def)
    then have "marks_ok c'" using inv(3) flush(1) by (auto simp: marks_ok_def flush(2))
    moreover have "threads_ok c'" using inv by (simp add: flush threads_ok_def)
    moreover have "counts_ok c'" using inv(2) b flush(1) by (auto simp: flush(2) counts_ok_def)
    moreover have "nobody_waits_idly (g_Mode g) c'" using inv(4) flush(1) by (auto simp: flush(2) nobody_waits_idly_def)
    moreover have "timer_ok False c'" using nt by (simp add: flush timer_ok_def)
    ultimately show ?thesis by (simp add: gate_inv_def)
  next
    assume "OtherActive ?c = 0" "\<not> (CacheDirty ?c \<and> g_Mode g = VLTL_MODE_ACTIVE)"
    then have idle: "OtherActive ?c = 0" "c' = ?c\<lparr>FlushPending := False, TimerActive := False\<rparr>"
      using l' by auto
    have "marked_set c' = marked_set ?c" by (simp add: idle marked_set_def)
    then have "marks_ok c'" using inv(3) by (auto simp: marks_ok_def idle)
    moreover have "threads_ok c'" "counts_ok c'" "nobody_waits_idly (g_Mode g) c'"
      using inv by (simp_all add: idle threads_ok_def counts_ok_def nobody_waits_idly_def)
    moreover have "timer_ok False c'" using nt by (simp add: idle timer_ok_def)
    ultimately show ?thesis by (simp add: gate_inv_def)
  next
    assume "OtherActive ?c \<noteq> 0"
    then show ?thesis using busy l' by simp
  next
    assume "OtherActive ?c \<noteq> 0"
    then show ?thesis using busy l' by simp
  qed
qed

lemma clean_inv:
  assumes g: "gate_inv g" and l: "clean_step (g_Mode g) (g_Ctx g) = (i, c')"
  shows "gate_inv (g\<lparr>g_Ctx := c'\<rparr>)"
proof (cases "c' = g_Ctx g")
  case False
  let ?c = "g_Ctx g"
  note inv = gate_invD [OF g]
  have na: "g_Mode g \<noteq> VLTL_MODE_ACTIVE" using l False by (auto simp: clean_step_def split: if_splits)
  consider (r) "ReadIrpQueue ?c \<noteq> []" "c' = ?c\<lparr>ReadIrpQueue := tl (ReadIrpQueue ?c), ReadPending := sub32 (ReadPending ?c) 1\<rparr>"
    | (q) "OtherIrpQueue ?c \<noteq> []" "c' = ?c\<lparr>OtherIrpQueue := tl (OtherIrpQueue ?c), OtherPending := sub32 (OtherPending ?c) 1\<rparr>"
    using l False by (auto simp: clean_step_def split: if_splits)
  then show ?thesis
  proof cases
    case r
    have l: "0 < length (ReadIrpQueue ?c)" using r(1) by simp
    then have "1 \<le> ReadPending ?c" using inv(2) unfolding counts_ok_def by linarith
    then have s: "sub32 (ReadPending ?c) 1 = ReadPending ?c - 1" using pending_bound(1) [OF inv(2)] by (rule sub32_id)
    have "marked_set c' = marked_set ?c" by (simp add: r marked_set_def)
    then have "marks_ok c'" using inv(3) by (auto simp: marks_ok_def r)
    moreover have "counts_ok c'" using inv(2) s l by (auto simp: r(2) counts_ok_def simp del: length_greater_0_conv)
    ultimately show ?thesis using inv na by (simp add: gate_inv_def r(2) threads_ok_def nobody_waits_idly_def timer_ok_def)
  next
    case q
    have l: "0 < length (OtherIrpQueue ?c)" using q(1) by simp
    then have "1 \<le> OtherPending ?c" using inv(2) unfolding counts_ok_def by linarith
    then have s: "sub32 (OtherPending ?c) 1 = OtherPending ?c - 1" using pending_bound(2) [OF inv(2)] by (rule sub32_id)
    have "marked_set c' = marked_set ?c" by (simp add: q marked_set_def)
    then have "marks_ok c'" using inv(3) by (auto simp: marks_ok_def q)
    moreover have "counts_ok c'" using inv(2) s l by (auto simp: q(2) counts_ok_def simp del: length_greater_0_conv)
    ultimately show ?thesis using inv na by (simp add: gate_inv_def q(2) threads_ok_def nobody_waits_idly_def timer_ok_def)
  qed
qed (use g in simp)

section \<open>Reachable states\<close>

text \<open>
  What can happen between two locked sections: a request arrives; a thread that serves a request
  ends; the thread that serves writes marks the readers, waits for them or stops the timer; any
  handler changes what the gate does not look at; the timer expires and its DPC runs; the mode
  leaves \<open>ACTIVE\<close>; the queues are emptied.
\<close>

inductive gate_step :: "gate \<Rightarrow> gate \<Rightarrow> bool" where
  arrive: "dispatch_enter r i (g_Mode g) (g_Ctx g) = (e, c') \<Longrightarrow> ReadPending (g_Ctx g) < 4294967295 \<Longrightarrow>
     OtherPending (g_Ctx g) < 4294967295 \<Longrightarrow> gate_step g (g\<lparr>g_Ctx := c'\<rparr>)"
| finish: "in_use (g_Ctx g) t \<Longrightarrow> completion_locked t (g_Mode g) (g_Ctx g) = (a, c') \<Longrightarrow> gate_step g (g\<lparr>g_Ctx := c'\<rparr>)"
| mark: "OtherActive (g_Ctx g) = 1 \<Longrightarrow> gate_step g (g\<lparr>g_Ctx := MarkReadingThreads (g_Ctx g)\<rparr>)"
| wait: "OtherActive (g_Ctx g) = 1 \<Longrightarrow> gate_step g (g\<lparr>g_Ctx := snd (wait_marked (g_Ctx g))\<rparr>)"
| stop: "OtherActive (g_Ctx g) = 1 \<Longrightarrow> gate_step g (g\<lparr>g_Ctx := stop_timer (g_Ctx g)\<rparr>)"
| handler: "gate_view c' = gate_view (g_Ctx g) \<Longrightarrow> gate_step g (g\<lparr>g_Ctx := c'\<rparr>)"
| expire: "Timer (g_Ctx g) \<Longrightarrow> gate_step g (g\<lparr>g_Ctx := (g_Ctx g)\<lparr>Timer := False\<rparr>, g_Dpc := True\<rparr>)"
| dpc: "g_Dpc g \<Longrightarrow> flush_dpc (g_Mode g) (g_Ctx g) = (f, c') \<Longrightarrow> OtherPending (g_Ctx g) < 4294967295 \<Longrightarrow>
     gate_step g (g\<lparr>g_Ctx := c', g_Dpc := False\<rparr>)"
| mode: "m \<noteq> VLTL_MODE_ACTIVE \<Longrightarrow> gate_step g (g\<lparr>g_Mode := m\<rparr>)"
| clean: "clean_step (g_Mode g) (g_Ctx g) = (j, c') \<Longrightarrow> gate_step g (g\<lparr>g_Ctx := c'\<rparr>)"

lemma expire_inv:
  assumes "gate_inv g" "Timer (g_Ctx g)"
  shows "gate_inv (g\<lparr>g_Ctx := (g_Ctx g)\<lparr>Timer := False\<rparr>, g_Dpc := True\<rparr>)"
proof -
  note inv = gate_invD [OF assms(1)]
  let ?c = "(g_Ctx g)\<lparr>Timer := False\<rparr>"
  have "marked_set ?c = marked_set (g_Ctx g)" by (simp add: marked_set_def)
  then have "marks_ok ?c" using inv(3) by (auto simp: marks_ok_def)
  moreover have "threads_ok ?c" "counts_ok ?c" "nobody_waits_idly (g_Mode g) ?c" using inv by (simp_all add: threads_ok_def counts_ok_def nobody_waits_idly_def)
  moreover have "timer_ok True ?c" using inv(5) assms(2) by (auto simp: timer_ok_def)
  ultimately show ?thesis by (simp add: gate_inv_def)
qed

lemma gate_step_inv: "gate_step g g' \<Longrightarrow> gate_inv g \<Longrightarrow> gate_inv g'"
proof (induction rule: gate_step.induct)
  case (mode m g)
  then show ?case by (simp add: gate_inv_def nobody_waits_idly_def)
qed (blast intro: dispatch_inv completion_inv mark_threads_inv wait_inv stop_timer_inv view_inv expire_inv dpc_inv clean_inv)+

end
