(* ===== verification/GateRun.thy ===== *)
theory GateRun
  imports GateInv Ftl
begin

text \<open>
  The handlers between the locked sections are runs of \<open>gate_step\<close>: all they do to the fields of
  the gate is to mark the readers and to stop the timer. With that, the routines of the gate run as
  a whole end and keep the invariant.
\<close>

section \<open>What handlers do to the gate\<close>

inductive touch :: "ctx \<Rightarrow> ctx \<Rightarrow> bool" where
  view: "gate_view d = gate_view c \<Longrightarrow> touch c d"
| mark: "touch c d \<Longrightarrow> touch c (MarkReadingThreads d)"
| stop: "touch c d \<Longrightarrow> touch c (stop_timer d)"
| more: "touch c d \<Longrightarrow> gate_view e = gate_view d \<Longrightarrow> touch c e"

lemma touch_refl [simp]: "touch c c"
  by (rule touch.view) simp

lemma touch_trans: "touch d e \<Longrightarrow> touch c d \<Longrightarrow> touch c e"
  by (induction rule: touch.induct) (blast intro: touch.intros)+

text \<open>The fields no handler changes.\<close>

definition gate_fixed where
  "gate_fixed c = (ReadIrpQueue c, OtherIrpQueue c, ReadPending c, OtherPending c, ReadActive c, OtherActive c,
     WaitingMarkedThreads c, FlushPending c, ReadFreeList c, (\<lambda>k. th_FreeLink (ReadThread c k)))"

lemma fixed_view: "gate_view d = gate_view c \<Longrightarrow> gate_fixed d = gate_fixed c"
  using gate_viewD [of d c] by (simp add: gate_fixed_def)

lemma fixed_mark_one: "gate_fixed (mark_one k c) = gate_fixed c"
  by (auto simp: mark_one_def Let_def gate_fixed_def fun_eq_iff)

lemma fixed_mark: "gate_fixed (MarkReadingThreads c) = gate_fixed c"
proof -
  have "gate_fixed (fold mark_one ks c) = gate_fixed c" for ks
    by (induction ks arbitrary: c) (simp_all add: fixed_mark_one)
  then show ?thesis by (simp add: MarkReadingThreads_def)
qed

lemma fixed_stop: "gate_fixed (stop_timer c) = gate_fixed c"
  by (simp add: stop_timer_def KeCancelTimer_def Let_def gate_fixed_def)

lemma touch_fixed: "touch c d \<Longrightarrow> gate_fixed d = gate_fixed c"
  by (induction rule: touch.induct) (metis fixed_view fixed_mark fixed_stop)+

lemma touch_inv: "touch c d \<Longrightarrow> gate_inv (g\<lparr>g_Ctx := c\<rparr>) \<Longrightarrow> gate_inv (g\<lparr>g_Ctx := d\<rparr>)"
proof (induction rule: touch.induct)
  case (mark c d)
  then show ?case using mark_threads_inv [of "g\<lparr>g_Ctx := d\<rparr>"] by simp
next
  case (stop c d)
  then show ?case using stop_timer_inv [of "g\<lparr>g_Ctx := d\<rparr>"] by simp
next
  case (view d c)
  then show ?case using view_inv [of d "g\<lparr>g_Ctx := c\<rparr>"] by simp
next
  case (more c d e)
  then show ?case using view_inv [of e "g\<lparr>g_Ctx := d\<rparr>"] by simp
qed

section \<open>Updates the gate does not see\<close>

named_theorems view_simps

lemma view_upd [view_simps]:
  "gate_view (c\<lparr>CacheMem := m\<rparr>) = gate_view c" "gate_view (c\<lparr>CacheLBA := f\<rparr>) = gate_view c"
  "gate_view (c\<lparr>CachePos := n\<rparr>) = gate_view c" "gate_view (c\<lparr>CacheDirty := b\<rparr>) = gate_view c"
  "gate_view (c\<lparr>FinalizedPos := n\<rparr>) = gate_view c" "gate_view (c\<lparr>PurgePos := n\<rparr>) = gate_view c"
  "gate_view (c\<lparr>RelocationDone := b\<rparr>) = gate_view c" "gate_view (c\<lparr>RelocationPrepared := b\<rparr>) = gate_view c"
  "gate_view (c\<lparr>RelocateMem := m\<rparr>) = gate_view c" "gate_view (c\<lparr>RelocatePos := n\<rparr>) = gate_view c"
  "gate_view (c\<lparr>RelocateWindowStart := n\<rparr>) = gate_view c" "gate_view (c\<lparr>RelocateWindowEnd := n\<rparr>) = gate_view c"
  "gate_view (c\<lparr>RelocateTarget := n\<rparr>) = gate_view c" "gate_view (c\<lparr>RelocateSource := n\<rparr>) = gate_view c"
  "gate_view (c\<lparr>Map := M\<rparr>) = gate_view c" "gate_view (c\<lparr>ChunkInfo := I\<rparr>) = gate_view c"
  "gate_view (c\<lparr>ChunkCtl := x\<rparr>) = gate_view c" "gate_view (c\<lparr>NextChunkCtl := x\<rparr>) = gate_view c"
  "gate_view (c\<lparr>ChunkNo := n\<rparr>) = gate_view c" "gate_view (c\<lparr>NextChunkNo := n\<rparr>) = gate_view c"
  "gate_view (c\<lparr>Flushing := b\<rparr>) = gate_view c" "gate_view (c\<lparr>Finalizing := b\<rparr>) = gate_view c"
  by (simp_all add: gate_view_def)

lemma view_thread [view_simps]:
  "thread_view th = thread_view (get_thread c t) \<Longrightarrow> gate_view (set_thread t th c) = gate_view c"
  by (cases t) (auto simp: gate_view_def fun_eq_iff)

lemma view_upd_thread [view_simps]:
  "(\<And>th. thread_view (f th) = thread_view th) \<Longrightarrow> gate_view (hs_Ctx (upd_thread t f h)) = gate_view (hs_Ctx h)"
  by (simp add: view_thread)

lemma thread_view_upd [simp]:
  "thread_view (th\<lparr>th_Irp := a\<rparr>) = thread_view th" "thread_view (th\<lparr>th_Mdl := m\<rparr>) = thread_view th"
  "thread_view (th\<lparr>th_DataSystemAddress := x\<rparr>) = thread_view th" "thread_view (th\<lparr>th_Data := y\<rparr>) = thread_view th"
  "thread_view (th\<lparr>th_Transferred := n\<rparr>) = thread_view th" "thread_view (th\<lparr>th_DataBuffer := n\<rparr>) = thread_view th"
  "thread_view (th\<lparr>th_LBA := n\<rparr>) = thread_view th" "thread_view (th\<lparr>th_LEN := n\<rparr>) = thread_view th"
  by (simp_all add: thread_view_def)

lemma view_irp [view_simps]:
  "gate_view (hs_Ctx (IoMarkIrpPending t h)) = gate_view (hs_Ctx h)"
  "gate_view (hs_Ctx (complete_irp t f h)) = gate_view (hs_Ctx h)"
  by (simp_all add: IoMarkIrpPending_def complete_irp_def view_simps split: option.split)

lemma view_answers [view_simps]:
  "gate_view (hs_Ctx (snd (CompleteNotReadyNoMedia t h))) = gate_view (hs_Ctx h)"
  "gate_view (hs_Ctx (snd (complete_success t h))) = gate_view (hs_Ctx h)"
  "gate_view (hs_Ctx (snd (complete_no_resources t h))) = gate_view (hs_Ctx h)"
  by (simp_all add: CompleteNotReadyNoMedia_def complete_success_def complete_no_resources_def view_simps Let_def split: option.split)

lemma view_relocate [view_simps]: "gate_view (ExecuteRelocateCached c) = gate_view c"
  using relocate_cached_form [of c] by (auto simp: view_simps)

lemma view_tables [view_simps]:
  "gate_view (next_chunk c) = gate_view c" "gate_view (chunk_image c) = gate_view c" "gate_view (set_window c) = gate_view c"
  by (simp_all add: next_chunk_def FindNextChunk_def chunk_image_def bump_wcn_def set_window_def Let_def view_simps)

lemma view_purge_image: "gate_view (purge_image c) = gate_view (stop_timer c)"
  by (simp add: purge_image_def Let_def view_simps)

lemma view_address:
  "thread_view (snd (GetDataSystemAddress n b th)) = thread_view th"
  by (simp add: GetDataSystemAddress_def split: option.split)

section \<open>Handlers\<close>

definition calm :: "hs \<Rightarrow> hs \<Rightarrow> bool" where
  "calm h h' \<longleftrightarrow> touch (hs_Ctx h) (hs_Ctx h') \<and> hs_Mode h' = hs_Mode h"

lemma calm_view: "gate_view (hs_Ctx h') = gate_view (hs_Ctx h) \<Longrightarrow> hs_Mode h' = hs_Mode h \<Longrightarrow> calm h h'"
  by (simp add: calm_def touch.view)

lemma calm_trans: "calm h h1 \<Longrightarrow> calm h1 h2 \<Longrightarrow> calm h h2"
  by (auto simp: calm_def intro: touch_trans)

lemma calm_refl [simp]: "calm h h"
  by (simp add: calm_def)

lemma mode_answers [simp]:
  "hs_Mode (snd (CompleteNotReadyNoMedia t h)) = hs_Mode h" "hs_Mode (snd (complete_success t h)) = hs_Mode h"
  "hs_Mode (snd (complete_no_resources t h)) = hs_Mode h"
  by (simp_all add: CompleteNotReadyNoMedia_def complete_success_def complete_no_resources_def Let_def split: option.split)

lemma calm_answers:
  "calm h (snd (CompleteNotReadyNoMedia t h))" "calm h (snd (complete_success t h))" "calm h (snd (complete_no_resources t h))"
  "calm h (complete_irp t f h)" "calm h (IoMarkIrpPending t h)"
  by (simp_all add: calm_view view_simps)

lemma calm_thread: "(\<And>th. thread_view (f th) = thread_view th) \<Longrightarrow> calm h (upd_thread t f h)"
  by (rule calm_view) (simp_all add: view_thread)

lemma calm_ctx: "gate_view (f (hs_Ctx h)) = gate_view (hs_Ctx h) \<Longrightarrow> calm h (upd_ctx f h)"
  by (rule calm_view) simp_all

lemma calm_advance: "calm h (advance n h)"
  unfolding advance_def by (rule calm_thread) simp

lemma calm_issuers:
  "calm h (ExecutePurgeCache h)" "calm h (ExecutePurgeChunk h)" "calm h (PrepareRelocate h)" "calm h (ExecuteRelocate h)"
  "calm h (ExecuteCacheFillRead L n h)"
proof -
  have "touch (hs_Ctx h) (purge_image (hs_Ctx h))"
    using touch.more [OF touch.stop [OF touch_refl]] view_purge_image by blast
  then show "calm h (ExecutePurgeCache h)" by (simp add: calm_def ExecutePurgeCache_def Let_def)
qed (simp_all add: calm_view ExecutePurgeChunk_def PrepareRelocate_def ExecuteRelocate_def ExecuteCacheFillRead_def Let_def view_simps)

definition calm_out :: "hs \<Rightarrow> outcome \<Rightarrow> bool" where
  "calm_out h out \<longleftrightarrow> calm h (case out of Inl r \<Rightarrow> snd r | Inr h' \<Rightarrow> h')"

lemma calm_out_simps [simp]: "calm_out h (Inl r) = calm h (snd r)" "calm_out h (Inr h') = calm h h'"
  by (simp_all add: calm_out_def)

lemma calm_out_trans: "calm h h1 \<Longrightarrow> calm_out h1 out \<Longrightarrow> calm_out h out"
  by (auto simp: calm_out_def intro: calm_trans)

lemma calm_pending:
  "calm h (ExecutePurgeCache (IoMarkIrpPending TOther h))" "calm h (ExecutePurgeChunk (IoMarkIrpPending TOther h))"
  "calm h (PrepareRelocate (IoMarkIrpPending TOther h))" "calm h (ExecuteRelocate (IoMarkIrpPending TOther h))"
  "calm h (ExecuteCacheFillRead L n (IoMarkIrpPending TOther h))"
  by (rule calm_trans [OF calm_answers(5)], rule calm_issuers)+

lemma calm_write_data: "calm_out h (write_data L LEN h)"
proof -
  have "calm h (write_hit p L LEN h)" "calm h (cache_write L LEN h)" for p
    unfolding write_hit_def cache_write_def Let_def
    by (rule calm_trans [OF calm_ctx calm_advance], simp add: view_simps)+
  moreover have "calm_out h (cache_fill_read b n h)" for b n
    using calm_pending(5) by (simp add: cache_fill_read_def CacheFillReadZero_def calm_view view_simps)
  ultimately show ?thesis using calm_pending(1) by (simp add: write_data_def Let_def)
qed

lemma calm_write_relocate: "calm_out h (write_relocate h)"
proof -
  have r: "calm h (upd_ctx ExecuteRelocateCached h)" by (simp add: calm_view view_simps)
  show ?thesis
    using calm_pending(3) r calm_trans [OF r calm_pending(4)] by (simp add: write_relocate_def Let_def)
qed

lemma calm_write_prepare: "calm_out h (write_prepare h)"
proof -
  have m: "calm h (upd_ctx MarkReadingThreads h)" by (simp add: calm_def touch.mark)
  have n: "calm h (upd_ctx next_chunk h)" by (simp add: calm_view view_simps)
  show ?thesis
    using calm_trans [OF m calm_pending(2)] calm_out_trans [OF n calm_write_relocate] calm_write_relocate
    by (simp add: write_prepare_def)
qed

lemma calm_write_iter: "calm_out h (write_iter h)"
proof (cases "write_prepare h")
  case (Inl r)
  then show ?thesis using calm_write_prepare [of h] calm_answers(1,2) by (simp add: write_iter_def Let_def)
next
  case (Inr h1)
  then have "calm h h1" using calm_write_prepare [of h] by simp
  from calm_out_trans [OF this calm_write_data] Inr show ?thesis
    using calm_answers(1,2) by (simp add: write_iter_def Let_def)
qed

lemma calm_write_loop: "calm h (snd (write_loop h))"
proof (induction h rule: write_loop.induct)
  case (1 h)
  show ?case
  proof (cases "write_iter h")
    case (Inl r)
    then show ?thesis using calm_write_iter [of h] by (simp add: write_loop.simps [of h])
  next
    case (Inr h1)
    then show ?thesis using calm_write_iter [of h] calm_trans "1" by (fastforce simp: write_loop.simps [of h])
  qed
qed

lemma calm_set_thread:
  "thread_view t' = thread_view (get_thread (hs_Ctx h) t) \<Longrightarrow> calm h (upd_thread t (\<lambda>_. t') h)"
  by (simp add: calm_view view_thread)

lemma calm_ExecuteWriteHandler: "calm h (snd (ExecuteWriteHandler h))"
proof -
  let ?t = "OtherThread (hs_Ctx h)"
  obtain ok t' where g: "GetDataSystemAddress (wrap32 (th_LEN ?t * 512)) False ?t = (ok, t')" by fastforce
  have "calm h (upd_thread TOther (\<lambda>_. t') h)"
    using view_address [of _ False ?t] g by (intro calm_set_thread) (metis get_thread.simps(2) snd_conv)
  from calm_trans [OF this calm_write_loop] show ?thesis
    using calm_write_loop calm_answers(3) g by (simp add: ExecuteWriteHandler_def Let_def)
qed

lemma calm_ExecutePass: "calm h (snd (ExecutePass lower t h))"
  by (auto simp: ExecutePass_def calm_answers split: option.split prod.split)

lemma calm_ExecuteFlushHandler: "calm h (snd (ExecuteFlushHandler lower h))"
proof -
  have d: "calm h (snd (flush_done lower h))" for h
  proof -
    have f: "calm h (upd_ctx (\<lambda>c. c\<lparr>Flushing := False\<rparr>) h)" by (simp add: calm_view view_simps)
    show ?thesis
      using calm_trans [OF f calm_ExecutePass] calm_trans [OF f calm_answers(4)]
      by (simp add: flush_done_def Let_def split: option.split)
  qed
  have p: "calm h (snd (flush_purge lower h))" for h
    using d calm_pending(1,2) by (simp add: flush_purge_def Let_def)
  have z: "calm h (upd_ctx (CacheFillReadZero L n) h)" for L n
    by (simp add: CacheFillReadZero_def calm_view view_simps)
  show ?thesis
    using p calm_trans [OF z p] calm_pending(5) by (simp add: ExecuteFlushHandler_def Let_def)
qed

lemma calm_ExecuteFlush: "calm h (snd (ExecuteFlush lower F h))"
proof -
  have "calm h (upd_ctx (\<lambda>c. c\<lparr>Flushing := True, Finalizing := F\<rparr>) h)" by (simp add: calm_view view_simps)
  from calm_trans [OF this calm_ExecuteFlushHandler] show ?thesis by (simp add: ExecuteFlush_def)
qed

lemma calm_WriteCompleteHandler: "calm h (snd (WriteCompleteHandler lower h))"
  using calm_ExecuteFlushHandler [of h lower] calm_ExecuteWriteHandler [of h]
  by (auto simp: WriteCompleteHandler_def split: prod.splits)

text \<open>Reads change only their own thread.\<close>

lemma calm_ensure: "calm_out h (ensure_address t h)"
proof -
  let ?t = "get_thread (hs_Ctx h) t"
  obtain ok t' where g: "GetDataSystemAddress (wrap32 (th_LEN ?t * 512)) False ?t = (ok, t')" by fastforce
  have "calm h (upd_thread t (\<lambda>_. t') h)" using view_address [of _ False ?t] g by (intro calm_set_thread) (metis snd_conv)
  then show ?thesis using g calm_answers(3) by (simp add: ensure_address_def Let_def)
qed

lemma calm_read_iter: "calm_out h (read_iter i h)"
proof -
  have z: "calm h (read_zero i h)" for h unfolding read_zero_def by (rule calm_thread) simp
  have r: "calm h (read_hit i p L n h)" for p L n unfolding read_hit_def Let_def by (rule calm_thread) simp
  have m: "calm h (read_medium i L n h)" for L n using calm_answers(5) [of h "TRead i"] by (simp add: read_medium_def Let_def calm_def)
  have e: "calm_out h (case ensure_address (TRead i) h of Inl r \<Rightarrow> Inl r | Inr h1 \<Rightarrow> Inr (read_zero i h1))"
    using calm_ensure [of h "TRead i"] calm_trans z by (auto split: sum.split)
  show ?thesis using z r m e calm_ensure [of h "TRead i"] calm_answers(1,2) by (simp add: read_iter_def Let_def)
qed

lemma calm_ExecuteReadHandler: "calm h (snd (ExecuteReadHandler i h))"
  unfolding ExecuteReadHandler_def
proof (induction i h rule: read_loop.induct)
  case (1 i h)
  show ?case
  proof (cases "read_iter i h")
    case (Inl r)
    then show ?thesis using calm_read_iter [of h i] by (simp add: read_loop.simps [of i h])
  next
    case (Inr h1)
    then show ?thesis using calm_read_iter [of h i] calm_trans "1" by (fastforce simp: read_loop.simps [of i h])
  qed
qed

lemma calm_ExecuteRW: "calm h (snd (ExecuteRW u t h))"
proof -
  let ?u = "\<lambda>t i. upd_thread t (\<lambda>th. th\<lparr>th_DataBuffer := srb_DataBuffer (irp_Srb i),
                       th_LBA := cdb_LBA (irp_Srb i), th_LEN := cdb_LEN (irp_Srb i), th_Transferred := 0\<rparr>) h"
  have a: "calm h (?u t i)" for t i by (rule calm_thread) simp
  show ?thesis
    unfolding ExecuteRW_def Let_def
    by (cases t) (auto intro: a calm_trans [OF a calm_ExecuteReadHandler] calm_trans [OF a calm_ExecuteWriteHandler]
        calm_answers(4) split: option.split scsiop.split)
qed

lemma calm_answer_data: "calm h (snd (answer_data t n f h))"
proof -
  let ?t = "get_thread (hs_Ctx h) t"
  obtain ok t' where g: "GetDataSystemAddress n False ?t = (ok, t')" by fastforce
  have "calm h (upd_thread t (\<lambda>_. t'\<lparr>th_Data := f (th_Data t')\<rparr>) h)"
    using view_address [of n False ?t] g by (intro calm_set_thread) simp
  from calm_trans [OF this calm_answers(4)] show ?thesis using g calm_answers(4) by (simp add: answer_data_def)
qed

lemma calm_ExecuteThread: "calm h (snd (ExecuteThread lower u um t i h))"
proof -
  have a: "calm h (attach um t i h)" unfolding attach_def by (rule calm_thread) simp
  have fp: "calm g (snd (flush_or_pass lower t g))" for g
    by (simp add: flush_or_pass_def calm_ExecuteFlush calm_ExecutePass)
  have "calm g (snd (ExecuteReadCapacity t i g))" "calm g (snd (ExecuteModeSense t i g))" for g
    by (auto simp: ExecuteReadCapacity_def ExecuteModeSense_def Let_def calm_answer_data calm_answers split: option.split)
  then have "calm g (snd (execute_scsi lower u t i g))" for g
    by (simp add: execute_scsi_def Let_def fp calm_ExecuteFlush calm_ExecutePass calm_ExecuteRW calm_answers split: scsiop.split)
  then have "calm (attach um t i h) (snd (ExecuteThread lower u um t i h))"
    by (simp add: ExecuteThread_def Let_def fp calm_ExecuteFlush calm_ExecutePass calm_answers split: srb_function.split)
  from calm_trans [OF a this] show ?thesis .
qed

section \<open>The routines end\<close>

definition gate_of :: "bool \<Rightarrow> hs \<Rightarrow> gate" where
  "gate_of dpc h = \<lparr>g_Mode = hs_Mode h, g_Ctx = hs_Ctx h, g_Dpc = dpc\<rparr>"

definition good :: "bool \<Rightarrow> hs \<Rightarrow> bool" where
  "good dpc h \<longleftrightarrow> gate_inv (gate_of dpc h)"

lemma gate_of_simps [simp]:
  "g_Mode (gate_of dpc h) = hs_Mode h" "g_Ctx (gate_of dpc h) = hs_Ctx h" "g_Dpc (gate_of dpc h) = dpc"
  "(gate_of dpc h)\<lparr>g_Ctx := c\<rparr> = gate_of dpc (h\<lparr>hs_Ctx := c\<rparr>)"
  by (simp_all add: gate_of_def)

text \<open>Every round of \<open>LevelingThreadCompletion\<close> takes a request, a pending flush or a waiting writer away.\<close>

definition work :: "ctx \<Rightarrow> nat" where
  "work c = length (ReadIrpQueue c) + length (OtherIrpQueue c) + (if FlushPending c then 1 else 0) +
     (if WaitingMarkedThreads c then 1 else 0)"

definition links :: "ctx \<Rightarrow> nat \<Rightarrow> nat" where
  "links c = (\<lambda>k. th_FreeLink (ReadThread c k))"

lemma calm_keeps:
  assumes "calm h h'"
  shows "good dpc h \<Longrightarrow> good dpc h'" "work (hs_Ctx h') = work (hs_Ctx h)" "links (hs_Ctx h') = links (hs_Ctx h)"
    "in_use (hs_Ctx h') t = in_use (hs_Ctx h) t" "hs_Mode h' = hs_Mode h"
proof -
  have f: "gate_fixed (hs_Ctx h') = gate_fixed (hs_Ctx h)" using assms touch_fixed by (simp add: calm_def)
  then show "work (hs_Ctx h') = work (hs_Ctx h)" "links (hs_Ctx h') = links (hs_Ctx h)"
    "in_use (hs_Ctx h') t = in_use (hs_Ctx h) t"
    by (auto simp: gate_fixed_def work_def links_def in_use_def fun_eq_iff split: tid.split)
  show m: "hs_Mode h' = hs_Mode h" using assms by (simp add: calm_def)
  show "good dpc h'" if "good dpc h"
  proof -
    have e: "h'\<lparr>hs_Mode := hs_Mode h\<rparr> = h'" using m by simp
    have "gate_inv ((gate_of dpc h)\<lparr>g_Ctx := hs_Ctx h'\<rparr>)"
      using touch_inv [of "hs_Ctx h" "hs_Ctx h'" "gate_of dpc h"] assms that by (simp add: calm_def good_def)
    moreover have "(gate_of dpc h)\<lparr>g_Ctx := hs_Ctx h'\<rparr> = gate_of dpc h'" using m by (simp add: gate_of_def)
    ultimately show ?thesis by (simp add: good_def)
  qed
qed

lemma unmark_work:
  "work (unmark t c) = work c" "links (unmark t c) = links c" "OtherActive (unmark t c) = OtherActive c"
  "WaitingMarkedThreads (unmark t c) = WaitingMarkedThreads c"
  by (cases t; simp add: unmark_def Let_def work_def links_def fun_eq_iff)+

lemma wake_work:
  "work (snd (wake_writer c)) = work c - (if fst (wake_writer c) then 1 else 0)"
  "fst (wake_writer c) \<Longrightarrow> WaitingMarkedThreads c \<and> \<not> WaitingMarkedThreads (snd (wake_writer c)) \<and> 0 < work c"
  "links (snd (wake_writer c)) = links c" "OtherActive (snd (wake_writer c)) = OtherActive c"
  "\<not> WaitingMarkedThreads c \<Longrightarrow> \<not> WaitingMarkedThreads (snd (wake_writer c)) \<and> \<not> fst (wake_writer c)"
  by (auto simp: wake_writer_def work_def links_def split: if_splits)

lemma leave_read_work:
  "leave_read E (TRead k) c = (now, d) \<Longrightarrow>
    (case now of None \<Rightarrow> work d = work c | Some i \<Rightarrow> work d < work c \<and> links d = links c) \<and>
    (\<forall>j. j \<noteq> k \<longrightarrow> links d j = links c j) \<and> OtherActive d = OtherActive c \<and> WaitingMarkedThreads d = WaitingMarkedThreads c"
  by (auto simp: leave_read_def Let_def work_def links_def split: if_splits)

lemma start_timer_work: "work (start_timer c) = work c" "links (start_timer c) = links c"
  by (simp_all add: work_def links_def)

lemma leave_other_work:
  assumes l: "leave_other E c = (now, flush, d)" and o: "OtherActive c = 1"
  shows "links d = links c" "WaitingMarkedThreads d = WaitingMarkedThreads c" "work d \<le> work c"
    "now \<noteq> None \<or> flush \<Longrightarrow> work d < work c \<and> OtherActive d = 1"
proof -
  let ?p = "sub32 (OtherPending c) 1"
  have s: "sub32 (OtherPending c) 1 = ?p" "sub8 (OtherActive c) 1 = 0" "wrap32 (?p + 1) = wrap32 (?p + 1)" using o by simp_all
  note l' = l [unfolded leave_other_eq [OF s]]
  have "links d = links c \<and> WaitingMarkedThreads d = WaitingMarkedThreads c \<and> work d \<le> work c \<and>
    (now \<noteq> None \<or> flush \<longrightarrow> work d < work c \<and> OtherActive d = 1)"
  proof (cases "\<not> E \<and> OtherIrpQueue c \<noteq> []")
    case True
    then show ?thesis using l' by (auto simp: work_def links_def)
  next
    case False
    then have "d = c\<lparr>OtherPending := wrap32 (?p + 1), OtherActive := 1, FlushPending := False, TimerActive := False\<rparr> \<and> FlushPending c \<and> now = None \<or>
      (d = start_timer (c\<lparr>OtherPending := ?p, OtherActive := 0, FlushPending := False, TimerActive := False\<rparr>) \<or>
       d = start_timer (c\<lparr>OtherPending := ?p, OtherActive := 0\<rparr>)) \<and> now = None \<and> \<not> flush"
      using l' by (auto split: if_splits)
    then show ?thesis by (elim disjE conjE) (simp_all add: start_timer_work, simp_all add: work_def links_def)
  qed
  then show "links d = links c" "WaitingMarkedThreads d = WaitingMarkedThreads c" "work d \<le> work c"
    "now \<noteq> None \<or> flush \<Longrightarrow> work d < work c \<and> OtherActive d = 1" by auto
qed

text \<open>What a round leaves for the rest of the routine.\<close>

lemma completion_read_facts:
  assumes g: "good dpc h" "in_use (hs_Ctx h) (TRead k)"
    and l: "completion_locked (TRead k) (hs_Mode h) (hs_Ctx h) = (a, c)"
  shows "good dpc (h\<lparr>hs_Ctx := c\<rparr>)" "\<not> a_Flush a" "work c \<le> work (hs_Ctx h)"
    "a_Now a \<noteq> None \<Longrightarrow> work c < work (hs_Ctx h) \<and> in_use c (TRead k)"
    "a_WriteComplete a \<Longrightarrow> work c < work (hs_Ctx h) \<and> in_use c TOther"
    "a_Clean a \<Longrightarrow> a_Now a = None \<and> \<not> a_WriteComplete a"
proof -
  have gi: "gate_inv (gate_of dpc h)" using g(1) by (simp add: good_def)
  show "good dpc (h\<lparr>hs_Ctx := c\<rparr>)"
    using completion_inv [OF gi, where t = "TRead k" and a = a and c' = c] g(2) l by (simp add: good_def)
  have k: "k < READ_THREADS" "links (hs_Ctx h) k = 255" using g(2) by (simp_all add: in_use_def links_def)
  have r: "th_IsRead (ReadThread (hs_Ctx h) k)" using gate_invD(1) [OF gi] k by (simp add: threads_ok_def)
  obtain now d where d: "leave_read (hs_Mode h \<noteq> VLTL_MODE_ACTIVE) (TRead k) (hs_Ctx h) = (now, d)" by fastforce
  have e: "c = snd (wake_writer (unmark (TRead k) d))" "a_WriteComplete a = fst (wake_writer (unmark (TRead k) d))"
    "a_Now a = now" "\<not> a_Flush a"
    using l r d by (auto simp: completion_locked_def Let_def split: prod.splits)
  show "\<not> a_Flush a" using e(4) .
  note w = leave_read_work [OF d] wake_work [of "unmark (TRead k) d", unfolded unmark_work]
  show "work c \<le> work (hs_Ctx h)" using w unfolding e by (auto split: option.splits)
  show "work c < work (hs_Ctx h) \<and> in_use c (TRead k)" if "a_Now a \<noteq> None"
    using w that k unfolding e by (auto simp: in_use_def links_def fun_eq_iff split: option.splits)
  have "marks_ok (hs_Ctx h)" using gate_invD(3) [OF gi] by simp
  then show "work c < work (hs_Ctx h) \<and> in_use c TOther" if "a_WriteComplete a"
    using w that unfolding e by (auto simp: in_use_def marks_ok_def work_def split: option.splits)
  show "a_Now a = None \<and> \<not> a_WriteComplete a" if "a_Clean a"
    using completion_clean [OF gi, where t = "TRead k" and a = a and c' = c] g(2) l that by simp
qed

lemma completion_other_facts:
  assumes g: "good dpc h" "in_use (hs_Ctx h) TOther"
    and l: "completion_locked TOther (hs_Mode h) (hs_Ctx h) = (a, c)"
  shows "good dpc (h\<lparr>hs_Ctx := c\<rparr>)" "\<not> a_WriteComplete a" "work c \<le> work (hs_Ctx h)" "links c = links (hs_Ctx h)"
    "a_Now a \<noteq> None \<or> a_Flush a \<Longrightarrow> work c < work (hs_Ctx h) \<and> in_use c TOther"
    "a_Clean a \<Longrightarrow> a_Now a = None \<and> \<not> a_Flush a"
proof -
  have gi: "gate_inv (gate_of dpc h)" using g(1) by (simp add: good_def)
  show "good dpc (h\<lparr>hs_Ctx := c\<rparr>)"
    using completion_inv [OF gi, where t = TOther and a = a and c' = c] g(2) l by (simp add: good_def)
  have o: "OtherActive (hs_Ctx h) = 1" "\<not> WaitingMarkedThreads (hs_Ctx h)" using g(2) by (simp_all add: in_use_def)
  have r: "\<not> th_IsRead (OtherThread (hs_Ctx h))" using gate_invD(1) [OF gi] by (simp add: threads_ok_def)
  obtain now f d where d: "leave_other (hs_Mode h \<noteq> VLTL_MODE_ACTIVE) (hs_Ctx h) = (now, f, d)" by (metis prod_cases3)
  have e: "c = snd (wake_writer (unmark TOther d))" "a_WriteComplete a = fst (wake_writer (unmark TOther d))"
    "a_Now a = now" "a_Flush a = f"
    using l r d by (auto simp: completion_locked_def Let_def split: prod.splits)
  note w = leave_other_work [OF d o(1)] wake_work [of "unmark TOther d", unfolded unmark_work]
  show "\<not> a_WriteComplete a" "work c \<le> work (hs_Ctx h)" "links c = links (hs_Ctx h)"
    using w o unfolding e by auto
  show "work c < work (hs_Ctx h) \<and> in_use c TOther" if "a_Now a \<noteq> None \<or> a_Flush a"
    using w o that unfolding e in_use_def by auto
  show "a_Now a = None \<and> \<not> a_Flush a" if "a_Clean a"
    using completion_clean [OF gi, where t = TOther and a = a and c' = c] g(2) l that by simp
qed

lemma clean_keeps:
  "good dpc h \<Longrightarrow> good dpc (LevelingCleanAfterModeChanged h) \<and> work (hs_Ctx (LevelingCleanAfterModeChanged h)) \<le> work (hs_Ctx h) \<and>
     links (hs_Ctx (LevelingCleanAfterModeChanged h)) = links (hs_Ctx h) \<and> hs_Mode (LevelingCleanAfterModeChanged h) = hs_Mode h"
proof (induction h rule: LevelingCleanAfterModeChanged.induct)
  case (1 h)
  obtain j c where s: "clean_step (hs_Mode h) (hs_Ctx h) = (j, c)" by fastforce
  have g: "good dpc (h\<lparr>hs_Ctx := c\<rparr>)" using clean_inv [of "gate_of dpc h" j c] "1.prems" s by (simp add: good_def)
  have w: "work c \<le> work (hs_Ctx h)" "links c = links (hs_Ctx h)"
    using s by (auto simp: clean_step_def work_def links_def split: if_splits)
  show ?case
  proof (cases j)
    case None
    then show ?thesis using s g w by (simp add: LevelingCleanAfterModeChanged.simps [of h])
  next
    case (Some i)
    let ?h1 = "h\<lparr>hs_Ctx := c, hs_Done := hs_Done h @ [snd (not_ready (hs_Mode h) i)]\<rparr>"
    have "good dpc ?h1" using g by (simp add: good_def gate_of_def)
    then show ?thesis using "1.IH" [OF s [symmetric] Some] w s Some by (simp add: LevelingCleanAfterModeChanged.simps [of h])
  qed
qed

lemma completion_other_ends:
  assumes "good dpc h" "in_use (hs_Ctx h) TOther" "work (hs_Ctx h) < n"
  shows "\<exists>h'. LevelingThreadCompletion n lower u um TOther h = Some h' \<and> good dpc h' \<and>
    work (hs_Ctx h') \<le> work (hs_Ctx h) \<and> links (hs_Ctx h') = links (hs_Ctx h) \<and> hs_Mode h' = hs_Mode h"
  using assms
proof (induction n arbitrary: h)
  case (Suc n)
  obtain a c where l: "completion_locked TOther (hs_Mode h) (hs_Ctx h) = (a, c)" by fastforce
  note f = completion_other_facts [OF Suc.prems(1,2) l]
  have go_on: "\<exists>h'. (case (st, h4) of (st, h4) \<Rightarrow> if st \<noteq> STATUS_PENDING
         then LevelingThreadCompletion n lower u um TOther h4 else Some h4) = Some h' \<and> good dpc h' \<and>
      work (hs_Ctx h') \<le> work (hs_Ctx h) \<and> links (hs_Ctx h') = links (hs_Ctx h) \<and> hs_Mode h' = hs_Mode h"
    if "calm (h\<lparr>hs_Ctx := c\<rparr>) h4" "a_Now a \<noteq> None \<or> a_Flush a" for st h4
    using calm_keeps [OF that(1)] f(1,3,4) f(5) [OF that(2)] Suc.IH [of h4] Suc.prems(3) by fastforce
  show ?case
  proof (cases "a_Now a")
    case (Some i)
    obtain st h4 where x: "ExecuteThread lower u um TOther i (h\<lparr>hs_Ctx := c\<rparr>) = (st, h4)" by fastforce
    then have "calm (h\<lparr>hs_Ctx := c\<rparr>) h4" using calm_ExecuteThread by (metis snd_conv)
    from go_on [OF this, of st] show ?thesis using l f(2,6) Some x by (auto simp: Let_def)
  next
    case None
    show ?thesis
    proof (cases "a_Flush a")
      case True
      obtain st h4 where x: "ExecuteFlush lower False (h\<lparr>hs_Ctx := c\<rparr>) = (st, h4)" by fastforce
      then have "calm (h\<lparr>hs_Ctx := c\<rparr>) h4" using calm_ExecuteFlush by (metis snd_conv)
      from go_on [OF this, of st] show ?thesis using l f(2,6) None True x by (auto simp: Let_def)
    next
      case False
      then show ?thesis using l f None clean_keeps [OF f(1)] by (auto simp: Let_def)
    qed
  qed
qed simp

lemma completion_read_ends:
  assumes "good dpc h" "in_use (hs_Ctx h) (TRead k)" "work (hs_Ctx h) < n"
  shows "\<exists>h'. LevelingThreadCompletion n lower u um (TRead k) h = Some h' \<and> good dpc h' \<and>
    work (hs_Ctx h') \<le> work (hs_Ctx h) \<and> hs_Mode h' = hs_Mode h"
  using assms
proof (induction n arbitrary: h)
  case (Suc n)
  obtain a c where l: "completion_locked (TRead k) (hs_Mode h) (hs_Ctx h) = (a, c)" by fastforce
  note f = completion_read_facts [OF Suc.prems(1,2) l]
  let ?h1 = "h\<lparr>hs_Ctx := c\<rparr>"
  let ?h2 = "if a_Clean a then LevelingCleanAfterModeChanged ?h1 else ?h1"
  obtain h3 where h3: "(if a_WriteComplete a then (case WriteCompleteHandler lower ?h2 of
        (True, h') \<Rightarrow> LevelingThreadCompletion n lower u um TOther h' | (False, h') \<Rightarrow> Some h') else Some ?h2) = Some h3"
      "good dpc h3" "work (hs_Ctx h3) \<le> work c" "\<not> a_Clean a \<longrightarrow> links (hs_Ctx h3) = links c" "hs_Mode h3 = hs_Mode h"
  proof (cases "a_WriteComplete a")
    case True
    then have nc: "\<not> a_Clean a" and w: "work c < work (hs_Ctx h)" "in_use c TOther" using f(5,6) by auto
    obtain fin h' where wc: "WriteCompleteHandler lower ?h1 = (fin, h')" by fastforce
    have "calm ?h1 h'" using calm_WriteCompleteHandler wc by (metis snd_conv)
    note k = calm_keeps [OF this]
    have gh: "good dpc h'" "work (hs_Ctx h') = work c" "in_use (hs_Ctx h') TOther" "links (hs_Ctx h') = links c" "hs_Mode h' = hs_Mode h"
      using k f(1) w by simp_all
    show ?thesis
    proof (cases fin)
      case fin: True
      have "work (hs_Ctx h') < n" using gh(2) w(1) Suc.prems(3) by simp
      from completion_other_ends [OF gh(1,3) this, of lower u um] gh show ?thesis
        using that True nc wc fin by auto
    next
      case False
      then show ?thesis using that [of h'] True nc wc gh by simp
    qed
  next
    case False
    then show ?thesis using that [of ?h2] f(1) clean_keeps [OF f(1)] by auto
  qed
  show ?case
  proof (cases "a_Now a")
    case (Some i)
    then have nc: "\<not> a_Clean a" and w: "work c < work (hs_Ctx h)" "in_use c (TRead k)" using f(4,6) by auto
    obtain st h4 where x: "ExecuteThread lower u um (TRead k) i h3 = (st, h4)" by fastforce
    then have "calm h3 h4" using calm_ExecuteThread by (metis snd_conv)
    note k = calm_keeps [OF this]
    have u: "in_use (hs_Ctx h3) (TRead k)" using w(2) h3(4) nc by (simp add: in_use_def links_def fun_eq_iff)
    show ?thesis
    proof (cases "st = STATUS_PENDING")
      case True
      then show ?thesis using l h3 Some x k w by (auto simp: Let_def)
    next
      case False
      have "work (hs_Ctx h4) < n" using k h3(3) w(1) Suc.prems(3) by simp
      from Suc.IH [OF k(1) [OF h3(2)] _ this] k(4,2,5) u h3(3,5) w(1) obtain h' where
        "LevelingThreadCompletion n lower u um (TRead k) h4 = Some h'" "good dpc h'" "work (hs_Ctx h') \<le> work (hs_Ctx h)"
        "hs_Mode h' = hs_Mode h" by fastforce
      then show ?thesis using l h3(1) Some x False by (auto simp: Let_def)
    qed
  next
    case None
    then show ?thesis using l h3 f(2,3) by (auto simp: Let_def)
  qed
qed simp

end
