(* ===== verification/CtxLife.thy ===== *)
theory CtxLife
  imports Extension GateRun Checksum
begin

text \<open>
  The life of a leveling context: \<open>InitializeLevelingCtx\<close>, \<open>FreeLevelingCtx\<close> and
  \<open>FreeLevelingCtx1\<close> of \<open>driver/vgate.c\<close>.
\<close>

section \<open>The configuration block\<close>

text \<open>\<open>LEVELING_CONF\<close>, the first twelve words of sector 0.\<close>

definition CONF_WORDS :: nat where "CONF_WORDS = 12"

definition conf_words :: "sector \<Rightarrow> u32 list" where
  "conf_words s = map s [0..<CONF_WORDS]"

record conf =
  cf_Version :: nat
  cf_CCN :: nat
  cf_SIZE_OF_MAP :: nat
  cf_WEIGHT_LIFE :: nat
  cf_WEIGHT_SPEED :: nat
  cf_Magic :: nat
  cf_CacheTimeout :: nat
  cf_FlushFaithfully :: bool

definition conf_of :: "sector \<Rightarrow> conf" where
  "conf_of s = \<lparr>cf_Version = unat (s 0), cf_CCN = unat (s 1), cf_SIZE_OF_MAP = unat (s 2),
     cf_WEIGHT_LIFE = unat (s 3), cf_WEIGHT_SPEED = unat (s 4), cf_Magic = unat (s 5),
     cf_CacheTimeout = unat (get_byte 0 (s 6)), cf_FlushFaithfully = (get_byte 1 (s 6) \<noteq> 0)\<rparr>"

section \<open>Building a context\<close>

definition new_thread :: "nat \<Rightarrow> thread" where
  "new_thread i = zero_thread\<lparr>th_IsRead := True, th_Index := i, th_FreeLink := i + 1\<rparr>"

definition new_ctx :: "conf \<Rightarrow> nat \<Rightarrow> ctx" where
  "new_ctx f max_chunks = zero_ctx\<lparr>CCN := cf_CCN f, SIZE_OF_MAP := cf_SIZE_OF_MAP f, MAX_CHUNKS := max_chunks,
     WEIGHT_LIFE := cf_WEIGHT_LIFE f, WEIGHT_SPEED := cf_WEIGHT_SPEED f, Magic := cf_Magic f,
     CacheTimeout := cf_CacheTimeout f, FlushFaithfully := cf_FlushFaithfully f,
     ReadThread := (\<lambda>i. if i < READ_THREADS then new_thread i else zero_thread), Map := (\<lambda>_. NOT_MAPPED)\<rparr>"

fun create_reads :: "nat \<Rightarrow> nat \<Rightarrow> pool \<Rightarrow> reqobj option list \<times> pool" where
  "create_reads 0 mtl p = ([], p)"
| "create_reads (Suc n) mtl p =
     (let (r, p1) = CreateRequest mtl 0 p; (rs, p2) = create_reads n mtl p1 in (r # rs, p2))"

text \<open>The objects after \<open>Ctx\<close> itself; \<open>False\<close> is \<open>goto error\<close>.\<close>

definition build_ctx :: "nat \<Rightarrow> ctxobj \<Rightarrow> pool \<Rightarrow> bool \<times> ctxobj \<times> pool" where
  "build_ctx mtl o0 p0 =
     (let (rs, p1) = create_reads READ_THREADS mtl p0; o1 = o0\<lparr>co_ReadReq := rs\<rparr>;
          (cr, p2) = CreateRequest mtl (SIZE_OF_CACHE * 512) p1; o2 = o1\<lparr>co_CacheReq := cr\<rparr> in
      if cr = None then (False, o2, p2)
      else let (rr, p3) = CreateRequest mtl (SIZE_OF_CACHE * 512) p2; o3 = o2\<lparr>co_RelocateReq := rr\<rparr> in
      if rr = None then (False, o3, p3)
      else let (m, p4) = alloc PoolMem p3; o4 = o3\<lparr>co_Map := m\<rparr> in
      if m = None then (False, o4, p4)
      else let (ci, p5) = alloc PoolMem p4; o5 = o4\<lparr>co_ChunkInfo := ci\<rparr> in
      (ci \<noteq> None, o5, p5))"

definition FreeLevelingCtx1 :: "ctxobj option \<Rightarrow> pool \<Rightarrow> pool" where
  "FreeLevelingCtx1 co p =
     (case co of None \<Rightarrow> p
      | Some x \<Rightarrow>
          dealloc PoolMem (co_Ctx x) (dealloc_opt PoolMem (co_ChunkInfo x) (dealloc_opt PoolMem (co_Map x)
            (FreeRequest (co_RelocateReq x) (FreeRequest (co_CacheReq x) (fold FreeRequest (co_ReadReq x) p))))))"

definition ctx_too_big :: "conf \<Rightarrow> nat \<Rightarrow> bool" where
  "ctx_too_big f max_chunks \<longleftrightarrow> wrap32 (cf_SIZE_OF_MAP f * 10) > wrap32 (max_chunks * SIZE_OF_CHUNK)"

text \<open>
  \<open>True\<close>: the context has been published, the mode is \<open>RECOVERY\<close> and the device is in the
  recovery queue. \<open>at_lock\<close> is what other threads do to the device before the lock is taken.
\<close>

definition InitializeLevelingCtx :: "sector \<Rightarrow> (dx \<Rightarrow> dx) \<Rightarrow> dx \<Rightarrow> pool \<Rightarrow> bool \<times> dx \<times> pool" where
  "InitializeLevelingCtx MBR at_lock x p =
     (let f = conf_of MBR in
      if \<not> fst (VerifyChecksum128 (conf_words MBR)) \<or> cf_Version f \<noteq> LEVELING_VERSION then (False, x, p)
      else if cf_SIZE_OF_MAP f = 0 then (False, x, p)
      else (case alloc PoolMem p of
              (None, p1) \<Rightarrow> (False, x, p1)
            | (Some a, p1) \<Rightarrow>
                let o0 = \<lparr>co_Ctx = a, co_ReadReq = [], co_CacheReq = None, co_RelocateReq = None, co_Map = None, co_ChunkInfo = None\<rparr>;
                    n = GetMaxChunks x in
                if ctx_too_big f n then (False, ChangeMode VLTL_MODE_ERROR x, FreeLevelingCtx1 (Some o0) p1)
                else let (ok, obj, p2) = build_ctx (dx_MaximumTransferLength x) o0 p1 in
                  if \<not> ok then (False, x, FreeLevelingCtx1 (Some obj) p2)
                  else let y = at_lock x in
                    if dx_Ctx y = None \<and> dx_Mode y = VLTL_MODE_INITIAL
                    then (True, ChangeMode VLTL_MODE_RECOVERY (y\<lparr>dx_Ctx := Some (obj, new_ctx f n)\<rparr>), p2)
                    else (False, y, FreeLevelingCtx1 (Some obj) p2)))"

section \<open>Freeing a context\<close>

text \<open>The section of \<open>FreeLevelingCtx\<close> under the lock; \<open>active\<close> is \<open>StillActive\<close>.\<close>

definition still_active :: "bool \<Rightarrow> ctx \<Rightarrow> bool \<times> ctx" where
  "still_active active c =
     (if 0 < ReadPending c \<or> 0 < OtherPending c then (True, c)
      else if TimerActive c
      then let (cancelled, c') = KeCancelTimer c in (if \<not> cancelled then True else active, c')
      else (active, c))"

definition free_round :: "bool \<Rightarrow> dx \<Rightarrow> bool \<times> dx \<times> ctxobj option" where
  "free_round active x =
     (let (active', x', co) =
        (case dx_Ctx x of
           None \<Rightarrow> (active, x, None)
         | Some (obj, c) \<Rightarrow>
             let (a, c') = still_active active c
             in (a, x\<lparr>dx_Ctx := (if a then Some (obj, c') else None)\<rparr>, Some obj));
        y = (if dx_Ctx x' = None then ChangeMode VLTL_MODE_INITIAL x' else x')
      in (active', y, co))"

text \<open>
  The loop: each delay lets the rest of the system act on the device, as the next function of the
  list says; \<open>None\<close> when the list ends while the routine still waits.
\<close>

fun free_loop :: "(dx \<Rightarrow> dx) list \<Rightarrow> bool \<Rightarrow> bool \<Rightarrow> dx \<Rightarrow> pool \<Rightarrow> (dx \<times> pool) option" where
  "free_loop es Wait active x p =
     (let (active', y, co) = free_round active x in
      if Wait \<and> active'
      then (case es of [] \<Rightarrow> None | e # es' \<Rightarrow> free_loop es' Wait active' (e y) p)
      else Some (y, if \<not> active' then FreeLevelingCtx1 co p else p))"

declare free_loop.simps [simp del]

definition FreeLevelingCtx :: "(dx \<Rightarrow> dx) list \<Rightarrow> bool \<Rightarrow> dx \<Rightarrow> pool \<Rightarrow> (dx \<times> pool) option" where
  "FreeLevelingCtx es Wait x p = free_loop es Wait False x p"

section \<open>Nothing leaks\<close>

definition ctx_objs :: "ctxobj \<Rightarrow> (nat \<times> obj_kind) set" where
  "ctx_objs x = {(co_Ctx x, PoolMem)} \<union> (\<Union>r \<in> set (co_ReadReq x). req_objs r) \<union> req_objs (co_CacheReq x) \<union>
     req_objs (co_RelocateReq x) \<union> (\<lambda>n. (n, PoolMem)) ` set_option (co_Map x) \<union> (\<lambda>n. (n, PoolMem)) ` set_option (co_ChunkInfo x)"

lemma req_objs_None [simp]: "req_objs None = {}"
  by (simp add: req_objs_def)

lemma live_fold_free [simp]: "live_objs (fold FreeRequest rs p) = live_objs p - (\<Union>r \<in> set rs. req_objs r)"
  by (induction rs arbitrary: p) auto

lemma live_FreeLevelingCtx1: "live_objs (FreeLevelingCtx1 (Some x) p) = live_objs p - ctx_objs x"
  by (auto simp: FreeLevelingCtx1_def ctx_objs_def split: option.splits)

lemma create_reads_objs:
  "pool_ok p \<Longrightarrow> create_reads n mtl p = (rs, p') \<Longrightarrow>
   pool_ok p' \<and> live_objs p' = live_objs p \<union> (\<Union>r \<in> set rs. req_objs r) \<and> live_objs p \<inter> (\<Union>r \<in> set rs. req_objs r) = {}"
proof (induction n arbitrary: p rs p')
  case (Suc n)
  obtain r p1 rs' where c: "CreateRequest mtl 0 p = (r, p1)" "create_reads n mtl p1 = (rs', p')" "rs = r # rs'"
    using Suc.prems(2) by (auto simp: Let_def split: prod.splits)
  note a = CreateRequest_objs [OF Suc.prems(1) c(1)]
  from Suc.IH [OF _ c(2)] a show ?case by (auto simp: c(3))
qed simp

lemma grow_sets:
  assumes "P1 = P \<union> R" "P \<inter> R = {}" "P2 = P1 \<union> C" "P1 \<inter> C = {}" "P3 = P2 \<union> L" "P2 \<inter> L = {}"
    "Q = P3 \<union> M" "P3 \<inter> M = {}" "x \<in> P" "objs = {x} \<union> R \<union> C \<union> L \<union> M"
  shows "Q = P \<union> objs \<and> P \<inter> objs = {x}"
  unfolding assms(10,7,5,3,1) using assms(2,4,6,8,9) unfolding assms(5,3,1) by blast

lemma build_ctx_objs:
  assumes p: "pool_ok p" and e: "co_CacheReq o0 = None" "co_RelocateReq o0 = None" "co_Map o0 = None" "co_ChunkInfo o0 = None"
    and b: "build_ctx mtl o0 p = (ok, obj, p')" and a: "(co_Ctx o0, PoolMem) \<in> live_objs p"
  shows "live_objs p' = live_objs p \<union> ctx_objs obj" "co_Ctx obj = co_Ctx o0" "live_objs p \<inter> ctx_objs obj = {(co_Ctx o0, PoolMem)}"
proof -
  obtain rs p1 where r: "create_reads READ_THREADS mtl p = (rs, p1)" by fastforce
  note rr = create_reads_objs [OF p r]
  obtain cr p2 where c: "CreateRequest mtl (SIZE_OF_CACHE * 512) p1 = (cr, p2)" by fastforce
  note cc = CreateRequest_objs [OF _ c]
  obtain lr p3 where l: "CreateRequest mtl (SIZE_OF_CACHE * 512) p2 = (lr, p3)" by fastforce
  note ll = CreateRequest_objs [OF _ l]
  define R where "R = (\<Union>r \<in> set rs. req_objs r)"
  have rr': "pool_ok p1" "live_objs p1 = live_objs p \<union> R" "live_objs p \<inter> R = {}" using rr by (simp_all add: R_def)
  have cc': "pool_ok p2" "live_objs p2 = live_objs p1 \<union> req_objs cr" "live_objs p1 \<inter> req_objs cr = {}" using cc rr' by simp_all
  have ll': "pool_ok p3" "live_objs p3 = live_objs p2 \<union> req_objs lr" "live_objs p2 \<inter> req_objs lr = {}" using ll cc' by simp_all
  let ?goal = "live_objs p' = live_objs p \<union> ctx_objs obj \<and> co_Ctx obj = co_Ctx o0 \<and> live_objs p \<inter> ctx_objs obj = {(co_Ctx o0, PoolMem)}"
  have x: ?goal
  proof (cases "cr = None")
    case True
    then have "p' = p2" "co_Ctx obj = co_Ctx o0" "ctx_objs obj = {(co_Ctx o0, PoolMem)} \<union> R \<union> {} \<union> {} \<union> {}"
      using b r c e by (auto simp: build_ctx_def ctx_objs_def R_def)
    then show ?thesis using grow_sets [OF rr'(2,3) cc'(2,3), of "live_objs p2" "{}" "live_objs p'" "{}"] a True by simp
  next
    case cn: False
    show ?thesis
    proof (cases "lr = None")
      case True
      then have "p' = p3" "co_Ctx obj = co_Ctx o0" "ctx_objs obj = {(co_Ctx o0, PoolMem)} \<union> R \<union> req_objs cr \<union> {} \<union> {}"
        using b r c l e cn by (simp_all add: build_ctx_def ctx_objs_def R_def) (auto simp: ctx_objs_def)
      then show ?thesis using grow_sets [OF rr'(2,3) cc'(2,3) ll'(2,3), of "live_objs p'" "{}"] a True by simp
    next
      case ln: False
      have split: "?goal" if "p' = q" "obj = o0\<lparr>co_ReadReq := rs, co_CacheReq := cr, co_RelocateReq := lr, co_Map := m, co_ChunkInfo := ci\<rparr>"
        "live_objs q = live_objs p3 \<union> (\<lambda>n. (n, PoolMem)) ` (set_option m \<union> set_option ci)"
        "\<And>n. n \<in> set_option m \<union> set_option ci \<Longrightarrow> (n, PoolMem) \<notin> live_objs p3" for q m ci
      proof -
        have "ctx_objs obj = {(co_Ctx o0, PoolMem)} \<union> R \<union> req_objs cr \<union> req_objs lr \<union> (\<lambda>n. (n, PoolMem)) ` (set_option m \<union> set_option ci)"
          unfolding that(2) by (auto simp: ctx_objs_def R_def)
        moreover have "co_Ctx obj = co_Ctx o0" by (simp add: that(2))
        moreover have "live_objs p3 \<inter> (\<lambda>n. (n, PoolMem)) ` (set_option m \<union> set_option ci) = {}" using that(4) by auto
        ultimately show ?thesis using grow_sets [OF rr'(2,3) cc'(2,3) ll'(2,3) that(3)] that(1) a by simp
      qed
      show ?thesis
      proof (cases rule: alloc_cases [OF ll'(1), where k = PoolMem, case_names fail new])
        case (fail p4)
        then show ?thesis using b r c l e cn ln by (intro split [where q = p4 and m = None and ci = None]) (auto simp: build_ctx_def)
      next
        case m: (new m p4)
        show ?thesis
        proof (cases rule: alloc_cases [OF m(4), where k = PoolMem, case_names fail new])
          case (fail p5)
          then show ?thesis using b r c l e cn ln m by (intro split [where q = p5 and m = "Some m" and ci = None]) (auto simp: build_ctx_def)
        next
          case (new ci p5)
          then show ?thesis using b r c l e cn ln m by (intro split [where q = p5 and m = "Some m" and ci = "Some ci"]) (auto simp: build_ctx_def)
        qed
      qed
    qed
  qed
  then show "live_objs p' = live_objs p \<union> ctx_objs obj" "co_Ctx obj = co_Ctx o0" "live_objs p \<inter> ctx_objs obj = {(co_Ctx o0, PoolMem)}" by auto
qed

lemma initialize_objs:
  assumes p: "pool_ok p" and i: "InitializeLevelingCtx MBR at_lock x p = (ok, y, p')"
  shows "if ok then \<exists>obj c. dx_Ctx y = Some (obj, c) \<and> dx_Mode y = VLTL_MODE_RECOVERY \<and> live_objs p' = live_objs p \<union> ctx_objs obj \<and> live_objs p \<inter> ctx_objs obj = {}
    else live_objs p' = live_objs p"
proof (cases "\<not> fst (VerifyChecksum128 (conf_words MBR)) \<or> cf_Version (conf_of MBR) \<noteq> LEVELING_VERSION \<or> cf_SIZE_OF_MAP (conf_of MBR) = 0")
  case True
  then show ?thesis using i by (auto simp: InitializeLevelingCtx_def Let_def split: if_splits)
next
  case valid: False
  then have r: "InitializeLevelingCtx MBR at_lock x p = (ok, y, p')" "fst (VerifyChecksum128 (conf_words MBR))"
    "cf_Version (conf_of MBR) = LEVELING_VERSION" "cf_SIZE_OF_MAP (conf_of MBR) \<noteq> 0" using i by auto
  show ?thesis
  proof (cases rule: alloc_cases [OF p, where k = PoolMem, case_names fail new])
    case (fail p1)
    then show ?thesis using r by (auto simp: InitializeLevelingCtx_def Let_def)
  next
    case a: (new a p1)
    let ?o0 = "\<lparr>co_Ctx = a, co_ReadReq = [], co_CacheReq = None, co_RelocateReq = None, co_Map = None, co_ChunkInfo = None\<rparr>"
    have a0: "(a, PoolMem) \<notin> live_objs p" "(co_Ctx ?o0, PoolMem) \<in> live_objs p1" using a by simp_all
    show ?thesis
    proof (cases "ctx_too_big (conf_of MBR) (GetMaxChunks x)")
      case True
      then have "\<not> ok" "p' = FreeLevelingCtx1 (Some ?o0) p1" using r a(1) by (auto simp: InitializeLevelingCtx_def Let_def)
      then show ?thesis using a a0 by (auto simp: live_FreeLevelingCtx1 ctx_objs_def)
    next
      case False
      obtain bo obj p2 where b: "build_ctx (dx_MaximumTransferLength x) ?o0 p1 = (bo, obj, p2)" by (metis prod_cases3)
      have bb: "live_objs p2 = live_objs p1 \<union> ctx_objs obj" "co_Ctx obj = a" "live_objs p1 \<inter> ctx_objs obj = {(a, PoolMem)}"
        using build_ctx_objs [OF a(4) _ _ _ _ b a0(2)] by simp_all
      have mem: "(a, PoolMem) \<in> ctx_objs obj" using bb(2) by (simp add: ctx_objs_def)
      have grow: "live_objs p2 = live_objs p \<union> ctx_objs obj" "live_objs p \<inter> ctx_objs obj = {}"
        using bb a(3) a0(1) mem by auto
      then have freed: "live_objs (FreeLevelingCtx1 (Some obj) p2) = live_objs p" by (auto simp: live_FreeLevelingCtx1)
      show ?thesis
        using r a(1) False b grow freed
        by (auto simp: InitializeLevelingCtx_def Let_def split: if_splits)
    qed
  qed
qed

section \<open>Freed only when idle\<close>

lemma free_round_frees:
  assumes x: "dx_Ctx x = Some (obj, c)" and f: "free_round active x = (False, y, co)"
  shows "co = Some obj \<and> dx_Ctx y = None \<and> dx_Mode y = VLTL_MODE_INITIAL \<and> \<not> active \<and>
    ReadPending c = 0 \<and> OtherPending c = 0 \<and> (TimerActive c \<longrightarrow> Timer c)"
  using f x by (auto simp: free_round_def still_active_def KeCancelTimer_def Let_def split: prod.splits if_splits)

lemma idle_when_freed:
  assumes g: "gate_inv \<lparr>g_Mode = m, g_Ctx = c, g_Dpc = dpc\<rparr>" and z: "ReadPending c = 0" "OtherPending c = 0" "TimerActive c \<longrightarrow> Timer c"
  shows "\<not> dpc" "\<And>t. \<not> in_use c t" "ReadIrpQueue c = []" "OtherIrpQueue c = []"
proof -
  note inv = gate_invD [OF g, simplified]
  have q: "ReadActive c = 0" "OtherActive c = 0" "ReadIrpQueue c = []" "OtherIrpQueue c = []"
    using inv(2) z by (simp_all add: counts_ok_def)
  then show "ReadIrpQueue c = []" "OtherIrpQueue c = []" by simp_all
  show "\<not> dpc" using inv(5) z(3) q by (auto simp: timer_ok_def)
  obtain ks where ks: "chain (ReadThread c) (ReadFreeList c) ks" "distinct ks" "length ks = READ_THREADS"
    "\<forall>k < READ_THREADS. k \<in> set ks \<longleftrightarrow> th_FreeLink (ReadThread c k) \<noteq> 255"
    using inv(1) q(1) by (auto simp: threads_ok_def free_list_def)
  have "set ks \<subseteq> {..<READ_THREADS}" using chain_bound [OF ks(1)] by auto
  moreover have "card (set ks) = READ_THREADS" using ks(2,3) by (simp add: distinct_card)
  ultimately have "set ks = {..<READ_THREADS}" by (metis card_lessThan card_subset_eq finite_lessThan)
  then show "\<not> in_use c t" for t using ks(4) q(2) by (auto simp: in_use_def split: tid.split)
qed

lemma free_loop_stuck: "free_loop es True True x p = None"
proof (induction es arbitrary: x)
  case Nil
  have "fst (free_round True x)"
    by (auto simp: free_round_def still_active_def KeCancelTimer_def Let_def split: prod.splits option.splits)
  then show ?case by (cases "free_round True x") (simp add: free_loop.simps)
next
  case (Cons e es)
  have "fst (free_round True x)"
    by (auto simp: free_round_def still_active_def KeCancelTimer_def Let_def split: prod.splits option.splits)
  then show ?case using Cons by (cases "free_round True x") (simp add: free_loop.simps [of "e # es"])
qed

section \<open>A new context satisfies the invariant of the gate\<close>

lemma new_ctx_free_list: "free_list (ReadThread (new_ctx f n)) 0 0"
proof -
  have c: "chain (ReadThread (new_ctx f n)) i [i..<READ_THREADS]" if "i \<le> READ_THREADS" for i
    using that
  proof (induction "READ_THREADS - i" arbitrary: i)
    case 0
    then show ?case by simp
  next
    case (Suc k)
    then have "[i..<READ_THREADS] = i # [Suc i..<READ_THREADS]" by (simp add: upt_conv_Cons del: upt.simps)
    moreover have "chain (ReadThread (new_ctx f n)) (Suc i) [Suc i..<READ_THREADS]" using Suc by simp
    ultimately show ?case using Suc by (simp add: new_ctx_def new_thread_def del: upt.simps)
  qed
  show ?thesis unfolding free_list_def
    using c [of 0] by (intro exI [of _ "[0..<READ_THREADS]"]) (simp add: new_ctx_def new_thread_def del: upt.simps)
qed

lemma new_ctx_gate_inv: "gate_inv \<lparr>g_Mode = m, g_Ctx = new_ctx f n, g_Dpc = False\<rparr>"
proof -
  have fields: "ReadPending (new_ctx f n) = 0" "OtherPending (new_ctx f n) = 0" "ReadActive (new_ctx f n) = 0"
    "OtherActive (new_ctx f n) = 0" "ReadIrpQueue (new_ctx f n) = []" "OtherIrpQueue (new_ctx f n) = []"
    "ThreadsMarked (new_ctx f n) = 0" "\<not> WaitingMarkedThreads (new_ctx f n)" "\<not> TimerActive (new_ctx f n)"
    "\<not> Timer (new_ctx f n)" "\<not> FlushPending (new_ctx f n)" "ReadFreeList (new_ctx f n) = 0" "OtherThread (new_ctx f n) = zero_thread"
    by (simp_all add: new_ctx_def zero_ctx_def)
  have "threads_ok (new_ctx f n)"
    using new_ctx_free_list by (simp add: threads_ok_def fields) (simp add: new_ctx_def new_thread_def zero_thread_def)
  moreover have "marked_set (new_ctx f n) = {}" by (auto simp: marked_set_def new_ctx_def new_thread_def zero_thread_def)
  ultimately show ?thesis by (simp add: gate_inv_def counts_ok_def marks_ok_def nobody_waits_idly_def timer_ok_def fields)
qed

section \<open>Examples\<close>

text \<open>A small configuration and the objects of an empty context, for the witnesses.\<close>

definition demo_conf :: conf where
  "demo_conf = \<lparr>cf_Version = 1000, cf_CCN = 1, cf_SIZE_OF_MAP = 16, cf_WEIGHT_LIFE = 50, cf_WEIGHT_SPEED = 50,
     cf_Magic = 7, cf_CacheTimeout = 30, cf_FlushFaithfully = False\<rparr>"

definition demo_obj :: ctxobj where
  "demo_obj = \<lparr>co_Ctx = 0, co_ReadReq = [], co_CacheReq = None, co_RelocateReq = None, co_Map = None, co_ChunkInfo = None\<rparr>"

end
