(* ===== verification/GateProps.thy ===== *)
theory GateProps
  imports CtxLife
begin

text \<open>
  The properties of the gate and of the life of a context, with their witnesses.
\<close>

section \<open>Requests arriving\<close>

lemma dispatch_facts:
  assumes g: "good dpc h" and d: "dispatch_enter r i (hs_Mode h) (hs_Ctx h) = (e, c)"
    and b: "ReadPending (hs_Ctx h) < 4294967295" "OtherPending (hs_Ctx h) < 4294967295"
  shows "good dpc (h\<lparr>hs_Ctx := c\<rparr>)" "e = Run t \<Longrightarrow> in_use c t \<and> work c = work (hs_Ctx h)"
    "e = Queued \<Longrightarrow> (if r then ReadIrpQueue c = ReadIrpQueue (hs_Ctx h) @ [i] else OtherIrpQueue c = OtherIrpQueue (hs_Ctx h) @ [i])"
proof -
  have gi: "gate_inv (gate_of dpc h)" using g by (simp add: good_def)
  have d': "dispatch_enter r i (g_Mode (gate_of dpc h)) (g_Ctx (gate_of dpc h)) = (e, c)" using d by simp
  show "good dpc (h\<lparr>hs_Ctx := c\<rparr>)" using dispatch_inv [OF gi d'] b by (simp add: good_def)
  show "in_use c t \<and> work c = work (hs_Ctx h)" if e: "e = Run t"
  proof (cases r)
    case True
    then have act: "ReadActive (hs_Ctx h) < READ_THREADS" using d e by (auto simp: dispatch_enter_def Let_def split: if_splits prod.splits)
    have fl: "ReadFreeList (hs_Ctx h) < READ_THREADS"
      using free_list_take(1) [of "ReadThread (hs_Ctx h)"] gate_invD(1) [OF gi] act by (auto simp: threads_ok_def)
    show ?thesis using d e True act fl
      by (auto simp: dispatch_enter_def take_thread_def Let_def in_use_def work_def split: if_splits)
  next
    case False
    have "\<not> WaitingMarkedThreads (hs_Ctx h)" if "OtherActive (hs_Ctx h) = 0"
      using gate_invD(3) [OF gi] that by (auto simp: marks_ok_def)
    then show ?thesis using d e False by (auto simp: dispatch_enter_def Let_def in_use_def work_def split: if_splits)
  qed
  show "if r then ReadIrpQueue c = ReadIrpQueue (hs_Ctx h) @ [i] else OtherIrpQueue c = OtherIrpQueue (hs_Ctx h) @ [i]" if "e = Queued"
    using d that by (auto simp: dispatch_enter_def Let_def split: if_splits prod.splits)
qed

lemma mark_queued_good:
  assumes g: "good dpc h" and q: "if r then ReadIrpQueue (hs_Ctx h) \<noteq> [] else OtherIrpQueue (hs_Ctx h) \<noteq> []"
  shows "good dpc (upd_ctx (mark_queued r) h)"
proof -
  let ?m = "mark_queued r (hs_Ctx h)"
  note inv = gate_invD [OF g [unfolded good_def], simplified]
  have len: "length (ReadIrpQueue ?m) = length (ReadIrpQueue (hs_Ctx h))" "length (OtherIrpQueue ?m) = length (OtherIrpQueue (hs_Ctx h))"
    using q by (auto simp: mark_queued_def Let_def split: if_splits)
  then have e: "ReadIrpQueue ?m = [] \<longleftrightarrow> ReadIrpQueue (hs_Ctx h) = []" "OtherIrpQueue ?m = [] \<longleftrightarrow> OtherIrpQueue (hs_Ctx h) = []"
    by (metis length_0_conv)+
  have f: "ReadPending ?m = ReadPending (hs_Ctx h)" "OtherPending ?m = OtherPending (hs_Ctx h)" "ReadActive ?m = ReadActive (hs_Ctx h)"
    "OtherActive ?m = OtherActive (hs_Ctx h)" "ReadThread ?m = ReadThread (hs_Ctx h)" "OtherThread ?m = OtherThread (hs_Ctx h)"
    "ReadFreeList ?m = ReadFreeList (hs_Ctx h)" "ThreadsMarked ?m = ThreadsMarked (hs_Ctx h)"
    "WaitingMarkedThreads ?m = WaitingMarkedThreads (hs_Ctx h)" "TimerActive ?m = TimerActive (hs_Ctx h)" "Timer ?m = Timer (hs_Ctx h)"
    "FlushPending ?m = FlushPending (hs_Ctx h)"
    by (simp_all add: mark_queued_def Let_def)
  have ms: "marked_set ?m = marked_set (hs_Ctx h)" by (simp add: marked_set_def f)
  have "threads_ok ?m" using inv(1) by (simp add: threads_ok_def f)
  moreover have "counts_ok ?m" using inv(2) unfolding counts_ok_def f len .
  moreover have "marks_ok ?m" using inv(3) unfolding marks_ok_def f ms .
  moreover have "nobody_waits_idly (hs_Mode h) ?m" using inv(4) unfolding nobody_waits_idly_def f e .
  moreover have "timer_ok dpc ?m" using inv(5) unfolding timer_ok_def f .
  ultimately show ?thesis unfolding good_def by (simp add: gate_inv_def gate_of_def)
qed

lemma completion_ends:
  assumes "good dpc h" "in_use (hs_Ctx h) t" "work (hs_Ctx h) < n"
  shows "\<exists>h'. LevelingThreadCompletion n lower u um t h = Some h' \<and> good dpc h'"
  using completion_read_ends [OF assms(1) _ assms(3)] completion_other_ends [OF assms(1) _ assms(3)] assms(2)
  by (cases t) fastforce+

section \<open>A first request, evaluated\<close>

definition verify_srb :: srb where
  "verify_srb = \<lparr>srb_Function = SRB_FUNCTION_EXECUTE_SCSI, srb_op = SCSIOP_VERIFY, srb_Cdb = (\<lambda>_. 0),
     srb_DataIn = False, srb_DataOut = False, srb_DataBuffer = 0, srb_DataTransferLength = 0,
     srb_SrbStatus = SRB_STATUS_PENDING, srb_Autosense = False, srb_ScsiStatus = SCSISTAT_GOOD,
     srb_SenseInfoBufferLength = 0, srb_SenseInfoBuffer = (\<lambda>_. 0)\<rparr>"

definition verify_irp :: irp where
  "verify_irp = \<lparr>irp_id = 1, irp_Major = IRP_MJ_SCSI, irp_Minor = IRP_MN_OTHER 0, irp_Srb = verify_srb, irp_Mdl = None,
     irp_Status = STATUS_PENDING, irp_Information = 0, irp_Pending = False\<rparr>"

definition fresh :: hs where
  "fresh = \<lparr>hs_Mode = VLTL_MODE_ACTIVE, hs_Ctx = new_ctx demo_conf 10, hs_Issued = [], hs_Done = []\<rparr>"

lemma fresh_good: "good False fresh"
  using new_ctx_gate_inv by (simp add: good_def gate_of_def fresh_def)

lemma fresh_fields [simp]:
  "hs_Mode fresh = VLTL_MODE_ACTIVE" "hs_Ctx fresh = new_ctx demo_conf 10" "ReadPending (hs_Ctx fresh) = 0"
  "OtherPending (hs_Ctx fresh) = 0" "work (hs_Ctx fresh) = 0" "ReadActive (hs_Ctx fresh) = 0" "ReadFreeList (hs_Ctx fresh) = 0"
  by (simp_all add: fresh_def new_ctx_def zero_ctx_def work_def)

section \<open>Properties\<close>

text \<open>
  C7. The bookkeeping of the gate is right in every state that any interleaving of the locked sections,
  handlers, timer and changes of mode can reach from a new context. The pending counts are the
  threads at work plus the queued requests, at most one write runs, the read threads in use are the
  ones off the free list, the marked ones are counted, no request waits while a thread is free, and
  a flush that is due is not lost.
\<close>

theorem gate_bookkeeping:
  assumes "gate_step\<^sup>*\<^sup>* \<lparr>g_Mode = VLTL_MODE_ACTIVE, g_Ctx = new_ctx f n, g_Dpc = False\<rparr> g"
  shows "ReadPending (g_Ctx g) = ReadActive (g_Ctx g) + length (ReadIrpQueue (g_Ctx g)) \<and>
    OtherPending (g_Ctx g) = OtherActive (g_Ctx g) + length (OtherIrpQueue (g_Ctx g)) \<and> OtherActive (g_Ctx g) \<le> 1 \<and>
    free_list (ReadThread (g_Ctx g)) (ReadFreeList (g_Ctx g)) (ReadActive (g_Ctx g)) \<and>
    ThreadsMarked (g_Ctx g) = card (marked_set (g_Ctx g)) \<and>
    (WaitingMarkedThreads (g_Ctx g) \<longrightarrow> 0 < ThreadsMarked (g_Ctx g) \<and> OtherActive (g_Ctx g) = 1) \<and>
    (g_Mode g = VLTL_MODE_ACTIVE \<longrightarrow>
      (ReadIrpQueue (g_Ctx g) \<noteq> [] \<longrightarrow> ReadActive (g_Ctx g) = READ_THREADS) \<and>
      (OtherIrpQueue (g_Ctx g) \<noteq> [] \<longrightarrow> OtherActive (g_Ctx g) = 1)) \<and>
    (TimerActive (g_Ctx g) \<longleftrightarrow> Timer (g_Ctx g) \<or> g_Dpc g \<or> FlushPending (g_Ctx g))"
proof -
  have "gate_inv g" using assms
    by (induction rule: rtranclp_induct) (simp_all add: new_ctx_gate_inv gate_step_inv)
  note inv = gate_invD [OF this]
  show ?thesis
    using inv(1) [unfolded threads_ok_def] inv(2) [unfolded counts_ok_def] inv(3) [unfolded marks_ok_def]
      inv(4) [unfolded nobody_waits_idly_def] inv(5) [unfolded timer_ok_def]
    by blast
qed

theorem gate_bookkeeping_witness:
  "\<exists>g. gate_step\<^sup>*\<^sup>* \<lparr>g_Mode = VLTL_MODE_ACTIVE, g_Ctx = new_ctx demo_conf 10, g_Dpc = False\<rparr> g \<and>
     ReadActive (g_Ctx g) = 1 \<and> ReadPending (g_Ctx g) = 1 + length (ReadIrpQueue (g_Ctx g))"
proof -
  let ?g0 = "\<lparr>g_Mode = VLTL_MODE_ACTIVE, g_Ctx = new_ctx demo_conf 10, g_Dpc = False\<rparr>"
  obtain e c where d: "dispatch_enter True verify_irp (g_Mode ?g0) (g_Ctx ?g0) = (e, c)" by fastforce
  have a: "ReadActive c = 1" using d by (auto simp: dispatch_enter_def take_thread_def Let_def new_ctx_def zero_ctx_def)
  have "gate_step ?g0 (?g0\<lparr>g_Ctx := c\<rparr>)"
    by (rule gate_step.arrive [OF d]) (simp_all add: new_ctx_def zero_ctx_def)
  then have s: "gate_step\<^sup>*\<^sup>* ?g0 (?g0\<lparr>g_Ctx := c\<rparr>)" by (rule r_into_rtranclp)
  show ?thesis using s a gate_bookkeeping [OF s, THEN conjunct1] by (intro exI [of _ "?g0\<lparr>g_Ctx := c\<rparr>"]) simp
qed

text \<open>
  C9. Handing a request to the gate always returns: however many queued requests, pending flushes and
  waiting writers the completion goes on to serve before it returns, it does so in at most one
  round more than there is such work, and it leaves the gate consistent.
\<close>

theorem dispatch_returns:
  assumes g: "good dpc h" and b: "ReadPending (hs_Ctx h) < 4294967295" "OtherPending (hs_Ctx h) < 4294967295"
    and n: "work (hs_Ctx h) < fuel"
  shows "\<exists>st h'. LevelingDispatch fuel lower u um True i r h = Some (st, h') \<and> good dpc h'"
proof -
  obtain e c where d: "dispatch_enter r i (hs_Mode h) (hs_Ctx h) = (e, c)" by fastforce
  note f = dispatch_facts [OF g d b]
  show ?thesis
  proof (cases e)
    case (Run t)
    obtain st h2 where x: "ExecuteThread lower u um t i (h\<lparr>hs_Ctx := c\<rparr>) = (st, h2)" by fastforce
    then have "calm (h\<lparr>hs_Ctx := c\<rparr>) h2" using calm_ExecuteThread by (metis snd_conv)
    note k = calm_keeps [OF this]
    have "\<exists>h'. LevelingThreadCompletion fuel lower u um t h2 = Some h' \<and> good dpc h'"
      using completion_ends [OF k(1) [OF f(1)], of t fuel] k(2,4) f(2) [OF Run] n by simp
    then show ?thesis using d Run x k(1) [OF f(1)] by (auto simp: LevelingDispatch_def Let_def)
  next
    case Queued
    have "good dpc (upd_ctx (mark_queued r) (h\<lparr>hs_Ctx := c\<rparr>))"
      using f(3) [OF Queued] by (intro mark_queued_good [OF f(1)]) (auto split: if_splits)
    then show ?thesis using d Queued by (auto simp: LevelingDispatch_def Let_def)
  next
    case NotReady
    then show ?thesis using d f(1) by (auto simp: LevelingDispatch_def Let_def good_def gate_of_def split: prod.split)
  qed
qed

theorem dispatch_returns_witness:
  "\<exists>st h'. LevelingDispatch 1 (\<lambda>i. (STATUS_SUCCESS, i)) STATUS_SUCCESS (\<lambda>_ _. zero_sector) True verify_irp False fresh = Some (st, h') \<and>
     good False h'"
proof -
  have "ReadPending (hs_Ctx fresh) < 4294967295" "OtherPending (hs_Ctx fresh) < 4294967295" "work (hs_Ctx fresh) < 1"
    by (simp_all add: fresh_def new_ctx_def zero_ctx_def work_def)
  from dispatch_returns [OF fresh_good this] show ?thesis .
qed

text \<open>
  C21. A context is freed only when nothing refers to it any more: no thread serves a request, no
  request is queued, and no DPC of its timer is about to run.
\<close>

theorem freed_when_idle:
  assumes "dx_Ctx x = Some (obj, c)" "gate_inv \<lparr>g_Mode = dx_Mode x, g_Ctx = c, g_Dpc = dpc\<rparr>"
    and "free_round False x = (False, y, co)"
  shows "dx_Ctx y = None \<and> \<not> dpc \<and> (\<forall>t. \<not> in_use c t) \<and> ReadIrpQueue c = [] \<and> OtherIrpQueue c = []"
  using free_round_frees [OF assms(1,3)] idle_when_freed [OF assms(2)] by blast

definition demo_dx :: dx where
  "demo_dx = \<lparr>dx_IsControlDevice = False, dx_IsAnotherDevice = False, dx_AllowAlways = True, dx_TobeRemovable = False,
     dx_TobeFixed = False, dx_Mode = VLTL_MODE_ACTIVE, dx_RemovableMedia = True, dx_LevelingCapable = True,
     dx_MaximumTransferLength = 65536, dx_LastLBA = 2621439, dx_TURErrors = 0, dx_Ctx = Some (demo_obj, new_ctx demo_conf 10)\<rparr>"

theorem freed_when_idle_witness:
  "dx_Ctx (fst (snd (free_round False demo_dx))) = None"
proof -
  have x: "dx_Ctx demo_dx = Some (demo_obj, new_ctx demo_conf 10)" by (simp add: demo_dx_def)
  obtain y co where f: "free_round False demo_dx = (False, y, co)"
    by (simp add: free_round_def x still_active_def new_ctx_def zero_ctx_def)
  show ?thesis using freed_when_idle [OF x new_ctx_gate_inv f] f by simp
qed

text \<open>
  C26. Waiting for a context to become idle never ends: once a round has found it in use, no later
  state of the device lets \<open>FreeLevelingCtx\<close> return.
\<close>

theorem free_waits_for_ever:
  assumes "dx_Ctx x = Some (obj, c)" "0 < ReadPending c \<or> 0 < OtherPending c"
  shows "FreeLevelingCtx es True x p = None"
proof -
  have "fst (free_round False x)" using assms by (auto simp: free_round_def still_active_def)
  then show ?thesis using free_loop_stuck
    by (cases "free_round False x") (simp add: FreeLevelingCtx_def free_loop.simps [of es] split: list.split)
qed

theorem free_waits_for_ever_witness:
  "\<forall>p. FreeLevelingCtx [\<lambda>x. x, \<lambda>_. demo_dx] True (demo_dx\<lparr>dx_Ctx := Some (demo_obj, (new_ctx demo_conf 10)\<lparr>OtherPending := 1\<rparr>)\<rparr>) p = None"
  using free_waits_for_ever [of "demo_dx\<lparr>dx_Ctx := Some (demo_obj, (new_ctx demo_conf 10)\<lparr>OtherPending := 1\<rparr>)\<rparr>" demo_obj] by simp

text \<open>
  C19. Setting up a context leaks nothing: when it fails, on whatever allocation, everything allocated
  has been freed; when it succeeds, what is allocated is exactly what \<open>FreeLevelingCtx1\<close> gives back.
\<close>

theorem initialize_no_leak:
  assumes "pool_ok p" "InitializeLevelingCtx MBR at_lock x p = (ok, y, p')"
  shows "if ok then \<exists>obj c. dx_Ctx y = Some (obj, c) \<and> live_objs (FreeLevelingCtx1 (Some obj) p') = live_objs p
    else live_objs p' = live_objs p"
  using initialize_objs [OF assms] by (auto simp: live_FreeLevelingCtx1 Un_Diff Diff_triv split: if_splits)

theorem initialize_no_leak_witness:
  "live_objs (snd (snd (InitializeLevelingCtx zero_sector id demo_dx \<lparr>p_live = [], p_next = 0, p_fails = (\<lambda>_. True)\<rparr>))) = {}"
proof -
  let ?p = "\<lparr>p_live = [], p_next = 0, p_fails = (\<lambda>_. True)\<rparr>"
  have p: "pool_ok ?p" "live_objs ?p = {}" by (simp_all add: pool_ok_def live_objs_def)
  obtain ok y p' where i: "InitializeLevelingCtx zero_sector id demo_dx ?p = (ok, y, p')" by (metis prod_cases3)
  have "\<not> ok" using i by (auto simp: InitializeLevelingCtx_def Let_def conf_of_def zero_sector_def)
  then show ?thesis using initialize_no_leak [OF p(1) i] i p(2) by simp
qed

text \<open>
  Nothing protects a context that is being recovered: removing the device while the recovery thread
  reads the chunk directories frees the context at once.
\<close>

theorem free_during_recovery:
  "FreeLevelingCtx [] True (demo_dx\<lparr>dx_Mode := VLTL_MODE_RECOVERY\<rparr>) p =
     Some (demo_dx\<lparr>dx_Ctx := None, dx_Mode := VLTL_MODE_INITIAL, dx_LevelingCapable := False\<rparr>, FreeLevelingCtx1 (Some demo_obj) p)"
  by (simp add: FreeLevelingCtx_def free_loop.simps free_round_def still_active_def demo_dx_def new_ctx_def zero_ctx_def ChangeMode_def)

text \<open>
  The answer to \<open>READ_CAPACITY\<close>: the address of the last sector of the mapped device and the
  sector size, both with the high byte first.
\<close>

theorem capacity_answer:
  assumes i: "th_Irp (get_thread (hs_Ctx h) t) = Some i" "\<not> capacity_refused (irp_Srb i)"
    and ok: "fst (GetDataSystemAddress 8 False (get_thread (hs_Ctx h) t))"
    and s: "0 < SIZE_OF_MAP (hs_Ctx h)" "SIZE_OF_MAP (hs_Ctx h) * 8 < 4294967296"
  shows "\<exists>h'. ExecuteReadCapacity t i h = (STATUS_SUCCESS, h') \<and>
    map (byte_at (th_Data (get_thread (hs_Ctx h') t))) [0..<8] =
      be32_bytes (of_nat (SIZE_OF_MAP (hs_Ctx h) * 8 - 1)) @ [0, 0, 2, 0] \<and>
    th_Irp (get_thread (hs_Ctx h') t) = None \<and> hs_Done h' = hs_Done h @ [answer_good 8 i]"
proof -
  let ?th = "get_thread (hs_Ctx h) t"
  obtain a where g: "GetDataSystemAddress 8 False ?th = (True, ?th\<lparr>th_DataSystemAddress := Some a\<rparr>)"
    using ok GetDataSystemAddress_ok by (metis prod.collapse)
  let ?w = "be32_bytes (of_nat (SIZE_OF_MAP (hs_Ctx h) * 8 - 1))"
  have w: "sub32 (SIZE_OF_MAP (hs_Ctx h) * 8) 1 = SIZE_OF_MAP (hs_Ctx h) * 8 - 1" using s by (intro sub32_id) simp_all
  have b512: "be32_bytes 512 = [0, 0, 2, 0]" by (simp add: be32_bytes_def le32_def get_byte_def upt_rec)
  define m where "m = put_bytes 4 [0, 0, 2, 0] (put_bytes 0 ?w (th_Data ?th))"
  have "map (byte_at m) [0..<8] = ?w @ [0, 0, 2, 0]"
    by (rule nth_equalityI) (auto simp: m_def nth_append simp del: upt.simps)
  then show ?thesis
    using i g s w by (simp add: ExecuteReadCapacity_def answer_data_def b512 complete_irp_def m_def)
qed

definition capacity_irp :: irp where
  "capacity_irp = verify_irp\<lparr>irp_Srb := verify_srb\<lparr>srb_op := SCSIOP_READ_CAPACITY, srb_DataIn := True, srb_DataTransferLength := 8\<rparr>,
     irp_Mdl := Some \<lparr>mdl_Next = False, mdl_VA = 0, mdl_ByteCount = 8, mdl_SystemVA = Some 0\<rparr>\<rparr>"

theorem capacity_answer_witness:
  "\<exists>h'. ExecuteReadCapacity TOther capacity_irp (attach (\<lambda>_ _. zero_sector) TOther capacity_irp fresh) = (STATUS_SUCCESS, h') \<and>
    map (byte_at (th_Data (OtherThread (hs_Ctx h')))) [0..<8] = be32_bytes 127 @ [0, 0, 2, 0]"
  using capacity_answer [of "attach (\<lambda>_ _. zero_sector) TOther capacity_irp fresh" TOther capacity_irp]
  by (simp add: attach_def capacity_irp_def verify_irp_def verify_srb_def capacity_refused_def GetDataSystemAddress_def buffer_ok_def
      direction_ok_def Let_def new_ctx_def zero_ctx_def demo_conf_def) auto

end
