(* ===== verification/Vreq.thy ===== *)
theory Vreq
  imports Requests
begin

text \<open>
  \<open>driver/vreq.c\<close>: the requests the driver sends down itself. A transfer is split into commands
  of at most \<open>MaximumTransferLength\<close> bytes; a command that fails is sent again up to
  \<open>RetryLimit\<close> times. The driver below is a parameter, a function from its state and a command
  to a reply and a new state.
\<close>

section \<open>Requests and commands\<close>

text \<open>The routine a request calls when it has ended.\<close>

datatype routine = SyncScsiCallRWCompletion | Routine nat

record req =
  r_MaximumTransferLength :: nat
  r_Used :: bool
  r_Busy :: bool
  r_RetryLimit :: nat
  r_Retry :: nat
  r_OPC :: scsiop
  r_DataBuffer :: nat
  r_PLBA :: nat
  r_LEN :: nat
  r_Transferred :: nat
  r_ScsiStatus :: scsi_status
  r_SrbStatus :: srb_status
  r_Status :: ntstatus
  r_SenseTransferred :: nat
  r_Completion :: routine
  r_Context :: nat
  r_SenseBuffer :: "nat \<Rightarrow> nat"

datatype srb_flag =
    SRB_FLAGS_PORT_DRIVER_ALLOCSENSE | SRB_FLAGS_NO_QUEUE_FREEZE | SRB_FLAGS_ADAPTER_CACHE_ENABLE
  | SRB_FLAGS_DISABLE_SYNCH_TRANSFER | SRB_FLAGS_QUEUE_ACTION_ENABLE | SRB_FLAGS_DATA_IN
  | SRB_FLAGS_DATA_OUT

text \<open>
  The command block as it goes down: \<open>c_op\<close> is byte 0 of the \<open>CDB\<close>, \<open>c_Cdb\<close> the other bytes.
\<close>

record cmd =
  c_Function :: srb_function
  c_op :: scsiop
  c_Cdb :: "nat \<Rightarrow> nat"
  c_CdbLength :: nat
  c_QueueTag :: nat
  c_Flags :: "srb_flag list"
  c_SenseInfoBufferLength :: nat
  c_DataBuffer :: nat
  c_DataTransferLength :: nat

record reply =
  p_Status :: ntstatus
  p_Information :: nat
  p_SrbStatus :: srb_status
  p_Autosense :: bool
  p_ScsiStatus :: scsi_status
  p_DataTransferLength :: nat
  p_SenseLength :: nat
  p_Sense :: "nat \<Rightarrow> nat"

definition result_of :: "req \<Rightarrow> reqres" where
  "result_of r = \<lparr>res_Status = r_Status r, res_SrbStatus = r_SrbStatus r, res_ScsiStatus = r_ScsiStatus r,
     res_Transferred = r_Transferred r, res_SenseTransferred = r_SenseTransferred r,
     res_SenseBuffer = r_SenseBuffer r\<rparr>"

definition succeeded :: "req \<Rightarrow> bool" where
  "succeeded r = REQ_SUCCESS (result_of r)"

definition ReuseRequest :: "req \<Rightarrow> req" where
  "ReuseRequest r = r\<lparr>r_Used := True, r_Transferred := 0, r_ScsiStatus := SCSISTAT_GOOD,
     r_SrbStatus := SRB_STATUS_SUCCESS, r_Status := STATUS_SUCCESS, r_SenseTransferred := 0\<rparr>"

section \<open>Reads and writes\<close>

definition byte_of :: "nat \<Rightarrow> nat \<Rightarrow> nat" where
  "byte_of n k = (n div 256 ^ k) mod 256"

text \<open>The address goes into bytes 2 to 5, the length into 7 and 8, high byte first.\<close>

definition rw_cdb :: "nat \<Rightarrow> nat \<Rightarrow> nat \<Rightarrow> nat" where
  "rw_cdb PLBA LEN = (\<lambda>i.
     if i = 2 then byte_of PLBA 3 else if i = 3 then byte_of PLBA 2
     else if i = 4 then byte_of PLBA 1 else if i = 5 then byte_of PLBA 0
     else if i = 7 then byte_of LEN 1 else if i = 8 then byte_of LEN 0 else 0)"

definition rw_flags :: "scsiop \<Rightarrow> srb_flag list" where
  "rw_flags op =
     [SRB_FLAGS_PORT_DRIVER_ALLOCSENSE, SRB_FLAGS_NO_QUEUE_FREEZE, SRB_FLAGS_ADAPTER_CACHE_ENABLE,
      SRB_FLAGS_DISABLE_SYNCH_TRANSFER, SRB_FLAGS_QUEUE_ACTION_ENABLE] @
     (if op = SCSIOP_READ then [SRB_FLAGS_DATA_IN]
      else if op = SCSIOP_WRITE then [SRB_FLAGS_DATA_OUT] else [])"

definition rw_cmd :: "req \<Rightarrow> nat \<Rightarrow> nat \<Rightarrow> nat \<Rightarrow> cmd" where
  "rw_cmd r DataBuffer PLBA LEN =
     \<lparr>c_Function = SRB_FUNCTION_EXECUTE_SCSI, c_op = r_OPC r, c_Cdb = rw_cdb PLBA LEN, c_CdbLength = 10,
      c_QueueTag = 0, c_Flags = rw_flags (r_OPC r), c_SenseInfoBufferLength = 255,
      c_DataBuffer = DataBuffer, c_DataTransferLength = wrap32 (LEN * 512)\<rparr>"

text \<open>\<open>Inl\<close>: the completion routine of the request is called; \<open>Inr\<close>: a command is sent down.\<close>

definition ScsiCallRWHandler :: "req \<Rightarrow> req + (req \<times> cmd)" where
  "ScsiCallRWHandler r =
     (let DataBuffer = r_DataBuffer r + wrap32 (r_Transferred r * 512);
          PLBA = wrap32 (r_PLBA r + r_Transferred r);
          LEN = sub32 (r_LEN r) (r_Transferred r);
          send = (\<lambda>r. Inr (r\<lparr>r_Busy := True\<rparr>,
                    rw_cmd r DataBuffer PLBA (min LEN (r_MaximumTransferLength r div 512))))
      in if r_LEN r \<le> r_Transferred r then Inl (r\<lparr>r_Used := False\<rparr>)
         else if \<not> succeeded r
         then if r_RetryLimit r \<le> r_Retry r then Inl (r\<lparr>r_Used := False\<rparr>)
              else send (r\<lparr>r_Retry := r_Retry r + 1\<rparr>)
         else send (r\<lparr>r_Retry := 0\<rparr>))"

text \<open>\<open>ScsiCallCompletion\<close> up to the call of \<open>Req->Handler\<close>; \<open>f\<close> is the function of the command.\<close>

definition ScsiCallCompletion :: "srb_function \<Rightarrow> reply \<Rightarrow> req \<Rightarrow> req" where
  "ScsiCallCompletion f p r =
     (let r1 = r\<lparr>r_Busy := False, r_Status := p_Status p, r_SrbStatus := p_SrbStatus p,
                r_ScsiStatus := p_ScsiStatus p, r_SenseTransferred := 0\<rparr>;
          r2 = (if succeeded r1
                then if p_Information p = p_DataTransferLength p
                     then r1\<lparr>r_Transferred := wrap32 (r_Transferred r1 + p_DataTransferLength p div 512)\<rparr>
                     else r1\<lparr>r_Status := STATUS_UNSUCCESSFUL\<rparr>
                else r1)
      in if f \<noteq> SRB_FUNCTION_EXECUTE_SCSI then r1
         else if p_Autosense p
         then r2\<lparr>r_SenseTransferred := p_SenseLength p,
                 r_SenseBuffer := (\<lambda>i. if i < p_SenseLength p then p_Sense p i else r_SenseBuffer r2 i)\<rparr>
         else r2)"

text \<open>
  The request with the driver below, which answers at once or later; \<open>fuel\<close> bounds the number
  of calls of the handler.
\<close>

fun drive :: "nat \<Rightarrow> ('s \<Rightarrow> cmd \<Rightarrow> reply \<times> 's) \<Rightarrow> req \<Rightarrow> 's \<Rightarrow> (req \<times> 's) option" where
  "drive 0 dev r s = None"
| "drive (Suc n) dev r s =
     (case ScsiCallRWHandler r of
        Inl r' \<Rightarrow> Some (r', s)
      | Inr (r', c) \<Rightarrow> let (p, s') = dev s c in drive n dev (ScsiCallCompletion (c_Function c) p r') s')"

definition rw_setup :: "scsiop \<Rightarrow> nat \<Rightarrow> nat \<Rightarrow> nat \<Rightarrow> nat \<Rightarrow> req \<Rightarrow> req" where
  "rw_setup OPC DataBuffer PLBA LEN RetryLimit r =
     (ReuseRequest r)\<lparr>r_OPC := OPC, r_DataBuffer := DataBuffer, r_PLBA := PLBA, r_LEN := LEN,
       r_RetryLimit := RetryLimit, r_Retry := 0\<rparr>"

definition ScsiCallRW ::
    "nat \<Rightarrow> ('s \<Rightarrow> cmd \<Rightarrow> reply \<times> 's) \<Rightarrow> scsiop \<Rightarrow> nat \<Rightarrow> nat \<Rightarrow> nat \<Rightarrow> nat \<Rightarrow> req \<Rightarrow> 's \<Rightarrow> (req \<times> 's) option" where
  "ScsiCallRW fuel dev OPC DataBuffer PLBA LEN RetryLimit r s =
     drive fuel dev (rw_setup OPC DataBuffer PLBA LEN RetryLimit r) s"

definition ScsiCallRW_AssociatedMem ::
    "nat \<Rightarrow> ('s \<Rightarrow> cmd \<Rightarrow> reply \<times> 's) \<Rightarrow> nat \<Rightarrow> scsiop \<Rightarrow> nat \<Rightarrow> nat \<Rightarrow> nat \<Rightarrow> nat \<Rightarrow> req \<Rightarrow> 's \<Rightarrow> (req \<times> 's) option" where
  "ScsiCallRW_AssociatedMem fuel dev mem OPC pos PLBA LEN RetryLimit r s =
     ScsiCallRW fuel dev OPC (mem + pos) PLBA LEN RetryLimit r s"

text \<open>
  \<open>SyncScsiCallRW\<close> puts a routine of its own in, which sets the event \<open>ev\<close> it waits for, and
  restores the routine and its argument when it returns.
\<close>

definition SyncScsiCallRW ::
    "nat \<Rightarrow> ('s \<Rightarrow> cmd \<Rightarrow> reply \<times> 's) \<Rightarrow> nat \<Rightarrow> scsiop \<Rightarrow> nat \<Rightarrow> nat \<Rightarrow> nat \<Rightarrow> nat \<Rightarrow> req \<Rightarrow> 's \<Rightarrow> (req \<times> 's) option" where
  "SyncScsiCallRW fuel dev ev OPC DataBuffer PLBA LEN RetryLimit r s =
     map_option (\<lambda>(r', s'). (r'\<lparr>r_Completion := r_Completion r, r_Context := r_Context r\<rparr>, s'))
       (ScsiCallRW fuel dev OPC DataBuffer PLBA LEN RetryLimit
          (r\<lparr>r_Completion := SyncScsiCallRWCompletion, r_Context := ev\<rparr>) s)"

definition SyncScsiCallRW_AssociatedMem ::
    "nat \<Rightarrow> ('s \<Rightarrow> cmd \<Rightarrow> reply \<times> 's) \<Rightarrow> nat \<Rightarrow> nat \<Rightarrow> scsiop \<Rightarrow> nat \<Rightarrow> nat \<Rightarrow> nat \<Rightarrow> nat \<Rightarrow> req \<Rightarrow> 's \<Rightarrow> (req \<times> 's) option" where
  "SyncScsiCallRW_AssociatedMem fuel dev ev mem OPC pos PLBA LEN RetryLimit r s =
     SyncScsiCallRW fuel dev ev OPC (mem + pos) PLBA LEN RetryLimit r s"

section \<open>Single commands\<close>

definition default_flags :: "srb_flag list" where
  "default_flags = [SRB_FLAGS_PORT_DRIVER_ALLOCSENSE, SRB_FLAGS_NO_QUEUE_FREEZE, SRB_FLAGS_DISABLE_SYNCH_TRANSFER]"

definition ScsiCallDefaultHandler :: "req \<Rightarrow> req" where
  "ScsiCallDefaultHandler r = r\<lparr>r_Used := False\<rparr>"

definition ScsiCallReadCapacity :: "nat \<Rightarrow> req \<Rightarrow> req \<times> cmd" where
  "ScsiCallReadCapacity mem r =
     (let r1 = (ReuseRequest r)\<lparr>r_OPC := SCSIOP_READ_CAPACITY, r_DataBuffer := mem, r_Busy := True\<rparr>
      in (r1, \<lparr>c_Function = SRB_FUNCTION_EXECUTE_SCSI, c_op = SCSIOP_READ_CAPACITY, c_Cdb = (\<lambda>_. 0),
               c_CdbLength = 10, c_QueueTag = 0, c_Flags = rw_flags SCSIOP_READ,
               c_SenseInfoBufferLength = 255, c_DataBuffer = mem, c_DataTransferLength = 8\<rparr>))"

definition ScsiCallFlushCache :: "req \<Rightarrow> req \<times> cmd" where
  "ScsiCallFlushCache r =
     (let r1 = (ReuseRequest r)\<lparr>r_OPC := SCSIOP_SYNCHRONIZE_CACHE, r_DataBuffer := 0, r_Busy := True\<rparr>
      in (r1, \<lparr>c_Function = SRB_FUNCTION_EXECUTE_SCSI, c_op = SCSIOP_SYNCHRONIZE_CACHE, c_Cdb = (\<lambda>_. 0),
               c_CdbLength = 10, c_QueueTag = 255, c_Flags = default_flags,
               c_SenseInfoBufferLength = 255, c_DataBuffer = 0, c_DataTransferLength = 0\<rparr>))"

text \<open>This block is all zeros: byte 0 is the code of \<open>TEST_UNIT_READY\<close>.\<close>

definition ScsiCallSrbFlush :: "req \<Rightarrow> req \<times> cmd" where
  "ScsiCallSrbFlush r =
     (let r1 = (ReuseRequest r)\<lparr>r_OPC := SCSIOP_SYNCHRONIZE_CACHE, r_DataBuffer := 0, r_Busy := True\<rparr>
      in (r1, \<lparr>c_Function = SRB_FUNCTION_FLUSH, c_op = SCSIOP_TEST_UNIT_READY, c_Cdb = (\<lambda>_. 0),
               c_CdbLength = 0, c_QueueTag = 255, c_Flags = default_flags,
               c_SenseInfoBufferLength = 255, c_DataBuffer = 0, c_DataTransferLength = 0\<rparr>))"

end
