(* ===== verification/Transfers.thy ===== *)
theory Transfers
  imports Vreq
begin

text \<open>
  What \<open>ScsiCallRW\<close> promises about a transfer, whatever the driver below does with the single
  commands: the sectors reported as transferred have been transferred, nothing outside the
  request has been touched, and the request ends after a bounded number of commands.
\<close>

section \<open>A device that serves commands\<close>

definition cmd_PLBA :: "cmd \<Rightarrow> nat" where
  "cmd_PLBA c = ((c_Cdb c 2 * 256 + c_Cdb c 3) * 256 + c_Cdb c 4) * 256 + c_Cdb c 5"

definition cmd_LEN :: "cmd \<Rightarrow> nat" where
  "cmd_LEN c = c_Cdb c 7 * 256 + c_Cdb c 8"

text \<open>The number of sectors a reply lets the driver count as transferred.\<close>

definition counted :: "reply \<Rightarrow> nat" where
  "counted p =
     (if NT_SUCCESS (p_Status p) \<and>
         (p_SrbStatus p = SRB_STATUS_SUCCESS \<or> p_SrbStatus p = SRB_STATUS_DATA_OVERRUN) \<and>
         p_ScsiStatus p = SCSISTAT_GOOD \<and> p_Information p = p_DataTransferLength p
      then p_DataTransferLength p div 512 else 0)"

text \<open>
  The documented behaviour of a block device, in terms of the medium and of the memory of the
  host (the sector that starts at a byte address): a command that fails may leave anything in the
  range it names, a command that succeeds may have done a first part only and says so.
\<close>

definition read_served :: "cmd \<Rightarrow> reply \<Rightarrow> mem \<times> mem \<Rightarrow> mem \<times> mem \<Rightarrow> bool" where
  "read_served c p mh mh' \<longleftrightarrow> fst mh' = fst mh \<and>
     (\<forall>i < counted p. snd mh' (c_DataBuffer c + 512 * i) = fst mh (cmd_PLBA c + i)) \<and>
     (\<forall>a. (\<forall>i < cmd_LEN c. a \<noteq> c_DataBuffer c + 512 * i) \<longrightarrow> snd mh' a = snd mh a)"

definition write_served :: "cmd \<Rightarrow> reply \<Rightarrow> mem \<times> mem \<Rightarrow> mem \<times> mem \<Rightarrow> bool" where
  "write_served c p mh mh' \<longleftrightarrow> snd mh' = snd mh \<and>
     (\<forall>i < counted p. fst mh' (cmd_PLBA c + i) = snd mh (c_DataBuffer c + 512 * i)) \<and>
     (\<forall>a. (\<forall>i < cmd_LEN c. a \<noteq> cmd_PLBA c + i) \<longrightarrow> fst mh' a = fst mh a)"

definition block_device :: "('s \<Rightarrow> cmd \<Rightarrow> reply \<times> 's) \<Rightarrow> ('s \<Rightarrow> mem \<times> mem) \<Rightarrow> bool" where
  "block_device dev mh \<longleftrightarrow> (\<forall>s c p s'. dev s c = (p, s') \<longrightarrow>
     counted p \<le> cmd_LEN c \<and>
     (c_op c = SCSIOP_READ \<longrightarrow> read_served c p (mh s) (mh s')) \<and>
     (c_op c = SCSIOP_WRITE \<longrightarrow> write_served c p (mh s) (mh s')))"

section \<open>The commands\<close>

lemma div_256: "n div 256 * 256 + n mod 256 = (n::nat)"
  by simp

lemma byte_of_split:
  assumes "n < 4294967296"
  shows "((byte_of n 3 * 256 + byte_of n 2) * 256 + byte_of n (Suc 0)) * 256 + byte_of n 0 = n"
proof -
  have d: "n div 65536 = n div 256 div 256" "n div 16777216 = n div 256 div 256 div 256"
    by (simp_all add: div_mult2_eq [symmetric])
  have "n div 256 div 256 div 256 < 256"
    using assms by (simp add: div_mult2_eq [symmetric] less_mult_imp_div_less)
  then show ?thesis
    by (simp add: byte_of_def d div_256 mod_less)
qed

lemma byte_of_split16: "n < 65536 \<Longrightarrow> byte_of n (Suc 0) * 256 + byte_of n 0 = n"
  using less_mult_imp_div_less [of n 256 256] by (simp add: byte_of_def div_256)

definition req_ok :: "req \<Rightarrow> bool" where
  "req_ok r \<longleftrightarrow> r_PLBA r + r_LEN r < 4294967296 \<and> r_LEN r * 512 < 4294967296 \<and> r_Transferred r \<le> r_LEN r \<and>
     512 \<le> r_MaximumTransferLength r \<and> r_MaximumTransferLength r < 33554432 \<and>
     (r_LEN r = r_Transferred r \<longrightarrow> succeeded r)"

definition job_of :: "req \<Rightarrow> scsiop \<times> nat \<times> nat \<times> nat \<times> nat \<times> nat" where
  "job_of r = (r_OPC r, r_DataBuffer r, r_PLBA r, r_LEN r, r_MaximumTransferLength r, r_RetryLimit r)"

lemma handler_sends:
  assumes "ScsiCallRWHandler r = Inr (r', c)" "req_ok r"
  shows "c_op c = r_OPC r \<and> cmd_PLBA c = r_PLBA r + r_Transferred r \<and> 0 < cmd_LEN c \<and>
    cmd_LEN c \<le> r_LEN r - r_Transferred r \<and> c_DataTransferLength c = 512 * cmd_LEN c \<and>
    c_DataTransferLength c \<le> r_MaximumTransferLength r \<and> c_DataBuffer c = r_DataBuffer r + 512 * r_Transferred r \<and>
    c_Function c = SRB_FUNCTION_EXECUTE_SCSI \<and> job_of r' = job_of r \<and> r_Transferred r' = r_Transferred r \<and>
    r_Transferred r < r_LEN r \<and> r_Retry r' = (if succeeded r then 0 else r_Retry r + 1) \<and>
    (\<not> succeeded r \<longrightarrow> r_Retry r < r_RetryLimit r)"
proof -
  define l where "l = min (r_LEN r - r_Transferred r) (r_MaximumTransferLength r div 512)"
  have c: "c = rw_cmd r (r_DataBuffer r + r_Transferred r * 512) (r_PLBA r + r_Transferred r) l"
    and lt: "r_Transferred r < r_LEN r"
    and r': "r' = r\<lparr>r_Busy := True, r_Retry := (if succeeded r then 0 else r_Retry r + 1)\<rparr>"
    and rt: "\<not> succeeded r \<longrightarrow> r_Retry r < r_RetryLimit r"
    unfolding l_def using assms by (auto simp: ScsiCallRWHandler_def Let_def req_ok_def rw_cmd_def split: if_splits)
  have b: "l < 65536" "0 < l" "l * 512 \<le> r_MaximumTransferLength r" "l \<le> r_LEN r - r_Transferred r"
    unfolding l_def using assms(2) lt by (auto simp: req_ok_def min_def)
  have "r_MaximumTransferLength r < 4294967296" using assms(2) by (simp add: req_ok_def)
  then have w: "wrap32 (l * 512) = l * 512" using b(3) by (simp add: order.strict_trans1)
  have "cmd_LEN c = l" using byte_of_split16 [OF b(1)] by (simp add: c cmd_LEN_def rw_cmd_def rw_cdb_def)
  moreover have "cmd_PLBA c = r_PLBA r + r_Transferred r"
    using byte_of_split [of "r_PLBA r + r_Transferred r"] assms(2)
    by (simp add: c cmd_PLBA_def rw_cmd_def rw_cdb_def req_ok_def)
  moreover have "job_of r' = job_of r" "r_Transferred r' = r_Transferred r" by (simp_all add: r' job_of_def)
  ultimately show ?thesis
    using b lt rt w by (simp add: c r' rw_cmd_def)
qed

lemma handler_ends:
  assumes "ScsiCallRWHandler r = Inl r'" "req_ok r"
  shows "r' = r\<lparr>r_Used := False\<rparr> \<and> (succeeded r \<longleftrightarrow> r_Transferred r = r_LEN r) \<and>
    (\<not> succeeded r \<longrightarrow> r_RetryLimit r \<le> r_Retry r)"
  using assms by (auto simp: ScsiCallRWHandler_def Let_def req_ok_def split: if_splits)

lemma completion_counts:
  assumes "req_ok r" "counted p \<le> r_LEN r - r_Transferred r" "r_Transferred r < r_LEN r"
  defines "r' \<equiv> ScsiCallCompletion SRB_FUNCTION_EXECUTE_SCSI p r"
  shows "r_Transferred r' = r_Transferred r + counted p" "job_of r' = job_of r" "r_Retry r' = r_Retry r"
    "succeeded r' \<or> counted p = 0" "req_ok r'"
proof -
  have f: "r_Transferred r + counted p < 4294967296" using assms(1-3) by (auto simp: req_ok_def)
  show t: "r_Transferred r' = r_Transferred r + counted p"
    using f by (auto simp: r'_def ScsiCallCompletion_def counted_def succeeded_def result_of_def REQ_SUCCESS_def Let_def)
  show j: "job_of r' = job_of r" "r_Retry r' = r_Retry r"
    by (simp_all add: r'_def ScsiCallCompletion_def job_of_def Let_def)
  show s: "succeeded r' \<or> counted p = 0"
    unfolding r'_def ScsiCallCompletion_def counted_def succeeded_def result_of_def REQ_SUCCESS_def Let_def
    by simp
  show "req_ok r'"
    using assms(1-3) t j s by (auto simp: req_ok_def job_of_def)
qed

section \<open>The whole transfer\<close>

text \<open>
  Sectors \<open>T\<close> to \<open>T'\<close> of the request have been moved, the later ones may hold anything, and
  nothing else has changed.
\<close>

definition moved :: "scsiop \<Rightarrow> nat \<Rightarrow> nat \<Rightarrow> nat \<Rightarrow> nat \<Rightarrow> nat \<Rightarrow> mem \<times> mem \<Rightarrow> mem \<times> mem \<Rightarrow> bool" where
  "moved op buf PLBA LEN T T' mh mh' \<longleftrightarrow>
     (if op = SCSIOP_READ
      then fst mh' = fst mh \<and>
        (\<forall>i. T \<le> i \<and> i < T' \<longrightarrow> snd mh' (buf + 512 * i) = fst mh (PLBA + i)) \<and>
        (\<forall>a. (\<forall>i. T \<le> i \<and> i < LEN \<longrightarrow> a \<noteq> buf + 512 * i) \<longrightarrow> snd mh' a = snd mh a)
      else snd mh' = snd mh \<and>
        (\<forall>i. T \<le> i \<and> i < T' \<longrightarrow> fst mh' (PLBA + i) = snd mh (buf + 512 * i)) \<and>
        (\<forall>a. (\<forall>i. T \<le> i \<and> i < LEN \<longrightarrow> a \<noteq> PLBA + i) \<longrightarrow> fst mh' a = fst mh a))"

lemma moved_none [simp]: "moved op buf PLBA LEN T T mh mh"
  by (auto simp: moved_def)

lemma moved_trans:
  assumes "moved op buf PLBA LEN T T1 a b" "moved op buf PLBA LEN T1 T2 b c" "T \<le> T1"
  shows "moved op buf PLBA LEN T T2 a c"
proof (cases "op = SCSIOP_READ")
  case True
  have "snd c (buf + 512 * i) = fst a (PLBA + i)" if "T \<le> i" "i < T2" for i
    using assms that True by (cases "i < T1") (auto simp: moved_def)
  then show ?thesis using assms True by (auto simp: moved_def)
next
  case False
  have "fst c (PLBA + i) = snd a (buf + 512 * i)" if "T \<le> i" "i < T2" for i
    using assms that False by (cases "i < T1") (auto simp: moved_def)
  then show ?thesis using assms False by (auto simp: moved_def)
qed

lemma command_moves:
  assumes dev: "block_device dev mh" "dev s c = (p, s')"
    and h: "ScsiCallRWHandler r = Inr (r', c)" "req_ok r" "r_OPC r = SCSIOP_READ \<or> r_OPC r = SCSIOP_WRITE"
  shows "counted p \<le> r_LEN r - r_Transferred r"
    "moved (r_OPC r) (r_DataBuffer r) (r_PLBA r) (r_LEN r) (r_Transferred r) (r_Transferred r + counted p) (mh s) (mh s')"
proof -
  note c = handler_sends [OF h(1,2)]
  have n: "counted p \<le> cmd_LEN c" and sv: "(c_op c = SCSIOP_READ \<longrightarrow> read_served c p (mh s) (mh s'))"
    "(c_op c = SCSIOP_WRITE \<longrightarrow> write_served c p (mh s) (mh s'))"
    using dev by (auto simp: block_device_def)
  show "counted p \<le> r_LEN r - r_Transferred r" using n c by linarith
  have ix: "\<exists>j. i = r_Transferred r + j \<and> j < counted p" if "r_Transferred r \<le> i" "i < r_Transferred r + counted p" for i
    using that by (intro exI [of _ "i - r_Transferred r"]) auto
  have rg: "r_Transferred r \<le> r_Transferred r + j \<and> r_Transferred r + j < r_LEN r" if "j < cmd_LEN c" for j
    using that c by linarith
  show "moved (r_OPC r) (r_DataBuffer r) (r_PLBA r) (r_LEN r) (r_Transferred r) (r_Transferred r + counted p) (mh s) (mh s')"
    using h(3)
  proof
    assume o: "r_OPC r = SCSIOP_READ"
    have "snd (mh s') a = snd (mh s) a"
      if "\<And>i. r_Transferred r \<le> i \<Longrightarrow> i < r_LEN r \<Longrightarrow> a \<noteq> r_DataBuffer r + 512 * i" for a
    proof -
      have "\<forall>i < cmd_LEN c. a \<noteq> c_DataBuffer c + 512 * i"
        using that [of "r_Transferred r + i" for i] rg c by (simp add: algebra_simps)
      then show ?thesis using sv(1) c o by (simp add: read_served_def)
    qed
    then show ?thesis using sv(1) c o by (auto simp: read_served_def moved_def algebra_simps dest!: ix)
  next
    assume o: "r_OPC r = SCSIOP_WRITE"
    have "fst (mh s') a = fst (mh s) a"
      if "\<And>i. r_Transferred r \<le> i \<Longrightarrow> i < r_LEN r \<Longrightarrow> a \<noteq> r_PLBA r + i" for a
    proof -
      have "\<forall>i < cmd_LEN c. a \<noteq> cmd_PLBA c + i"
        using that [of "r_Transferred r + i" for i] rg c by (simp add: algebra_simps)
      then show ?thesis using sv(2) c o by (simp add: write_served_def)
    qed
    then show ?thesis using sv(2) c o by (auto simp: write_served_def moved_def algebra_simps dest!: ix)
  qed
qed

lemma drive_moves:
  assumes "block_device dev mh" "r_OPC r = SCSIOP_READ \<or> r_OPC r = SCSIOP_WRITE"
  shows "drive n dev r s = Some (r', s') \<Longrightarrow> req_ok r \<Longrightarrow>
    r_Transferred r \<le> r_Transferred r' \<and> r_Transferred r' \<le> r_LEN r \<and>
    moved (r_OPC r) (r_DataBuffer r) (r_PLBA r) (r_LEN r) (r_Transferred r) (r_Transferred r') (mh s) (mh s') \<and>
    (succeeded r' \<longleftrightarrow> r_Transferred r' = r_LEN r) \<and> (\<not> succeeded r' \<longrightarrow> r_RetryLimit r \<le> r_Retry r') \<and> \<not> r_Used r'"
  using assms(2)
proof (induction n arbitrary: r s)
  case (Suc n)
  show ?case
  proof (cases "ScsiCallRWHandler r")
    case (Inl q)
    then have "r' = q" "s' = s" using Suc.prems(1) by simp_all
    then show ?thesis using handler_ends [OF Inl Suc.prems(2)] Suc.prems(2)
      by (auto simp: req_ok_def succeeded_def result_of_def)
  next
    case (Inr qc)
    obtain q c where qc: "qc = (q, c)" by (cases qc)
    obtain p t where d: "dev s c = (p, t)" by (cases "dev s c")
    note h = handler_sends [OF Inr [unfolded qc] Suc.prems(2)]
    note m = command_moves [OF assms(1) d Inr [unfolded qc] Suc.prems(2,3)]
    let ?r1 = "ScsiCallCompletion SRB_FUNCTION_EXECUTE_SCSI p q"
    have okq: "req_ok q" using Suc.prems(2) h by (auto simp: req_ok_def job_of_def)
    have jq: "job_of q = job_of r" using h by simp
    have k: "r_Transferred ?r1 = r_Transferred r + counted p" "job_of ?r1 = job_of r" "req_ok ?r1"
      using completion_counts [OF okq, of p] h m(1) jq by (auto simp: job_of_def)
    have "drive n dev ?r1 t = Some (r', s')" using Suc.prems(1) Inr qc d h by simp
    from Suc.IH [OF this k(3)] k Suc.prems(3) moved_trans [OF m(2)] show ?thesis
      by (auto simp: job_of_def)
  qed
qed simp

text \<open>How many more calls of the handler a request can need.\<close>

definition calls_left :: "req \<Rightarrow> nat" where
  "calls_left r =
     (if succeeded r then (r_LEN r - r_Transferred r) * (r_RetryLimit r + 1) + 1
      else (r_LEN r - r_Transferred r - 1) * (r_RetryLimit r + 1) + (r_RetryLimit r - r_Retry r) + 1)"

definition progressing :: "('s \<Rightarrow> cmd \<Rightarrow> reply \<times> 's) \<Rightarrow> bool" where
  "progressing dev \<longleftrightarrow> (\<forall>s c p s'. dev s c = (p, s') \<longrightarrow> 0 < cmd_LEN c \<longrightarrow>
     0 < counted p \<or> \<not> (NT_SUCCESS (p_Status p) \<and>
       (p_SrbStatus p = SRB_STATUS_SUCCESS \<or> p_SrbStatus p = SRB_STATUS_DATA_OVERRUN) \<and> p_ScsiStatus p = SCSISTAT_GOOD))"

lemma calls_decrease:
  assumes "ScsiCallRWHandler r = Inr (q, c)" "req_ok r" "counted p \<le> r_LEN r - r_Transferred r"
    and p: "0 < counted p \<or> \<not> succeeded r1" and r1: "r1 = ScsiCallCompletion SRB_FUNCTION_EXECUTE_SCSI p q"
  shows "calls_left r1 < calls_left r"
proof -
  note h = handler_sends [OF assms(1,2)]
  have okq: "req_ok q" using assms(2) h by (auto simp: req_ok_def job_of_def)
  have k: "r_Transferred r1 = r_Transferred r + counted p" "r_LEN r1 = r_LEN r" "r_RetryLimit r1 = r_RetryLimit r"
    "r_Retry r1 = (if succeeded r then 0 else r_Retry r + 1)" "succeeded r1 \<or> counted p = 0"
    using completion_counts [OF okq, of p] h assms(3) unfolding r1 by (auto simp: job_of_def)
  obtain d where d: "r_LEN r - r_Transferred r = Suc d" using h by (metis Suc_diff_Suc)
  show ?thesis
  proof (cases "succeeded r1")
    case True
    then obtain e where e: "counted p = Suc e" using p by (metis gr0_implies_Suc)
    have "r_LEN r1 - r_Transferred r1 = d - e" using d e k by simp
    then have "calls_left r1 = (d - e) * (r_RetryLimit r + 1) + 1" using True k by (simp add: calls_left_def)
    also have "\<dots> \<le> d * (r_RetryLimit r + 1) + 1" by (intro add_le_mono mult_le_mono) simp_all
    also have "\<dots> < calls_left r" using d h by (auto simp: calls_left_def)
    finally show ?thesis .
  next
    case False
    then have "r_LEN r1 - r_Transferred r1 = Suc d" using d k by simp
    then have "calls_left r1 = d * (r_RetryLimit r + 1) + (r_RetryLimit r - r_Retry r1) + 1"
      using False k by (simp add: calls_left_def)
    also have "\<dots> < calls_left r" using d h k by (auto simp: calls_left_def)
    finally show ?thesis .
  qed
qed

lemma drive_ends:
  assumes "block_device dev mh" "progressing dev"
  shows "calls_left r \<le> n \<Longrightarrow> req_ok r \<Longrightarrow> r_OPC r = SCSIOP_READ \<or> r_OPC r = SCSIOP_WRITE \<Longrightarrow> drive n dev r s \<noteq> None"
proof (induction n arbitrary: r s)
  case 0
  then show ?case by (simp add: calls_left_def split: if_splits)
next
  case (Suc n)
  show ?case
  proof (cases "ScsiCallRWHandler r")
    case (Inr qc)
    obtain q c where qc: "qc = (q, c)" by (cases qc)
    obtain p t where d: "dev s c = (p, t)" by (cases "dev s c")
    note h = handler_sends [OF Inr [unfolded qc] Suc.prems(2)]
    note m = command_moves(1) [OF assms(1) d Inr [unfolded qc] Suc.prems(2,3)]
    let ?r1 = "ScsiCallCompletion SRB_FUNCTION_EXECUTE_SCSI p q"
    have "succeeded ?r1 \<longrightarrow> 0 < counted p"
      using assms(2) d h
      by (auto simp: progressing_def succeeded_def result_of_def REQ_SUCCESS_def ScsiCallCompletion_def Let_def split: if_splits)
    then have lt: "calls_left ?r1 < calls_left r" using calls_decrease [OF Inr [unfolded qc] Suc.prems(2) m _ refl] by blast
    have okq: "req_ok q" using Suc.prems(2) h by (auto simp: req_ok_def job_of_def)
    have k: "job_of ?r1 = job_of r" "req_ok ?r1"
      using completion_counts(2,5) [OF okq, of p] h m by (auto simp: job_of_def)
    have "drive n dev ?r1 t \<noteq> None"
      using Suc.IH [of ?r1 t] lt k Suc.prems by (auto simp: job_of_def)
    then show ?thesis using Inr qc d h by simp
  qed simp
qed

section \<open>A disk that fails now and then\<close>

text \<open>
  The outcomes of the commands to come, the medium and the memory of the host. A command that
  fails leaves both alone and reports an error.
\<close>

record flaky =
  fl_script :: "bool list"
  fl_medium :: mem
  fl_host :: mem

definition flaky_reply :: "bool \<Rightarrow> cmd \<Rightarrow> reply" where
  "flaky_reply ok c = \<lparr>p_Status = (if ok then STATUS_SUCCESS else STATUS_IO_DEVICE_ERROR),
     p_Information = (if ok then 512 * cmd_LEN c else 0),
     p_SrbStatus = (if ok then SRB_STATUS_SUCCESS else SRB_STATUS_ERROR), p_Autosense = False,
     p_ScsiStatus = (if ok then SCSISTAT_GOOD else SCSISTAT_CHECK_CONDITION),
     p_DataTransferLength = (if ok then 512 * cmd_LEN c else 0), p_SenseLength = 0, p_Sense = (\<lambda>_. 0)\<rparr>"

definition flaky_dev :: "flaky \<Rightarrow> cmd \<Rightarrow> reply \<times> flaky" where
  "flaky_dev s c =
     (let ok = (fl_script s = [] \<or> hd (fl_script s)); s1 = s\<lparr>fl_script := tl (fl_script s)\<rparr>;
          b = c_DataBuffer c; n = cmd_LEN c; p = cmd_PLBA c
      in (flaky_reply ok c,
          if \<not> ok then s1
          else if c_op c = SCSIOP_READ
          then s1\<lparr>fl_host := (\<lambda>a. if b \<le> a \<and> a < b + 512 * n \<and> (a - b) mod 512 = 0
                             then fl_medium s (p + (a - b) div 512) else fl_host s a)\<rparr>
          else if c_op c = SCSIOP_WRITE
          then s1\<lparr>fl_medium := (\<lambda>a. if p \<le> a \<and> a < p + n then fl_host s (b + 512 * (a - p)) else fl_medium s a)\<rparr>
          else s1))"

definition flaky_mh :: "flaky \<Rightarrow> mem \<times> mem" where
  "flaky_mh s = (fl_medium s, fl_host s)"

lemma flaky_counted [simp]: "counted (flaky_reply ok c) = (if ok then cmd_LEN c else 0)"
  by (simp add: counted_def flaky_reply_def)

lemma sector_offset:
  assumes "b \<le> a" "a < b + 512 * n" "(a - b) mod 512 = (0::nat)"
  shows "(a - b) div 512 < n" "b + 512 * ((a - b) div 512) = a"
proof -
  obtain k where k: "a - b = 512 * k" using assms(3) by (metis dvd_def mod_eq_0_iff_dvd)
  then have "a = b + 512 * k" using assms(1) by simp
  then show "(a - b) div 512 < n" "b + 512 * ((a - b) div 512) = a" using assms(2) by simp_all
qed

lemma flaky_reads:
  assumes "c_op c = SCSIOP_READ"
  shows "read_served c (fst (flaky_dev s c)) (flaky_mh s) (flaky_mh (snd (flaky_dev s c)))"
proof -
  have "snd (flaky_mh (snd (flaky_dev s c))) a = fl_host s a"
    if n: "\<forall>i < cmd_LEN c. a \<noteq> c_DataBuffer c + 512 * i" for a
  proof -
    have "\<not> (c_DataBuffer c \<le> a \<and> a < c_DataBuffer c + 512 * cmd_LEN c \<and> (a - c_DataBuffer c) mod 512 = 0)"
      using n sector_offset [of "c_DataBuffer c" a "cmd_LEN c"] by metis
    then show ?thesis using assms by (auto simp: flaky_dev_def flaky_mh_def Let_def)
  qed
  then show ?thesis using assms by (simp add: read_served_def flaky_dev_def flaky_mh_def Let_def)
qed

lemma flaky_writes:
  assumes "c_op c = SCSIOP_WRITE"
  shows "write_served c (fst (flaky_dev s c)) (flaky_mh s) (flaky_mh (snd (flaky_dev s c)))"
proof -
  have "fst (flaky_mh (snd (flaky_dev s c))) a = fl_medium s a"
    if n: "\<forall>i < cmd_LEN c. a \<noteq> cmd_PLBA c + i" for a
  proof -
    have "\<not> (cmd_PLBA c \<le> a \<and> a < cmd_PLBA c + cmd_LEN c)"
      using n [rule_format, of "a - cmd_PLBA c"] by linarith
    then show ?thesis using assms by (auto simp: flaky_dev_def flaky_mh_def Let_def)
  qed
  then show ?thesis using assms by (simp add: write_served_def flaky_dev_def flaky_mh_def Let_def)
qed

lemma flaky_block_device: "block_device flaky_dev flaky_mh"
proof -
  have "counted (fst (flaky_dev s c)) \<le> cmd_LEN c" for s c by (simp add: flaky_dev_def Let_def)
  then show ?thesis
    unfolding block_device_def by (metis flaky_reads flaky_writes fst_conv snd_conv)
qed

lemma flaky_progressing: "progressing flaky_dev"
  by (auto simp: progressing_def flaky_dev_def Let_def flaky_reply_def counted_def)

definition idle_req :: req where
  "idle_req = \<lparr>r_MaximumTransferLength = 1024, r_Used = False, r_Busy = False, r_RetryLimit = 0, r_Retry = 0,
     r_OPC = SCSIOP_READ, r_DataBuffer = 0, r_PLBA = 0, r_LEN = 0, r_Transferred = 0,
     r_ScsiStatus = SCSISTAT_GOOD, r_SrbStatus = SRB_STATUS_SUCCESS, r_Status = STATUS_SUCCESS,
     r_SenseTransferred = 0, r_Completion = Routine 0, r_Context = 0, r_SenseBuffer = (\<lambda>_. 0)\<rparr>"

definition demo_disk :: flaky where
  "demo_disk = \<lparr>fl_script = [True, False, False], fl_medium = (\<lambda>a _. of_nat a), fl_host = (\<lambda>_. zero_sector)\<rparr>"

section \<open>Properties\<close>

lemma rw_setup_ok:
  assumes "PLBA + LEN < 4294967296" "LEN * 512 < 4294967296" "512 \<le> r_MaximumTransferLength r"
    "r_MaximumTransferLength r < 33554432"
  shows "req_ok (rw_setup op buf PLBA LEN lim r)" "calls_left (rw_setup op buf PLBA LEN lim r) = LEN * (lim + 1) + 1"
  using assms by (simp_all add: req_ok_def rw_setup_def ReuseRequest_def calls_left_def succeeded_def result_of_def REQ_SUCCESS_def)

lemma transfer_ends:
  assumes "block_device dev mh" "progressing dev" and op: "op = SCSIOP_READ \<or> op = SCSIOP_WRITE"
    and ok: "PLBA + LEN < 4294967296" "LEN * 512 < 4294967296" "512 \<le> r_MaximumTransferLength r"
      "r_MaximumTransferLength r < 33554432"
    and fuel: "LEN * (lim + 1) + 1 \<le> n"
  shows "\<exists>r' s'. ScsiCallRW n dev op buf PLBA LEN lim r s = Some (r', s') \<and> r_Transferred r' \<le> LEN \<and>
    moved op buf PLBA LEN 0 (r_Transferred r') (mh s) (mh s') \<and>
    (succeeded r' \<longleftrightarrow> r_Transferred r' = LEN) \<and> \<not> r_Used r'"
proof -
  let ?r = "rw_setup op buf PLBA LEN lim r"
  have f: "r_OPC ?r = op" "r_DataBuffer ?r = buf" "r_PLBA ?r = PLBA" "r_LEN ?r = LEN" "r_Transferred ?r = 0"
    by (simp_all add: rw_setup_def ReuseRequest_def)
  obtain r' s' where d: "drive n dev ?r s = Some (r', s')"
    using drive_ends [OF assms(1,2), of ?r n s] rw_setup_ok [OF ok] fuel op f by auto
  show ?thesis
    using drive_moves [OF assms(1) _ d rw_setup_ok(1) [OF ok]] op f d unfolding ScsiCallRW_def by auto
qed

text \<open>
  C8. Every transfer that \<open>ScsiCallRW\<close> begins ends: whatever commands the device fails, the handler
  is called at most \<open>LEN * (RetryLimit + 1) + 1\<close> times. When it ends the first \<open>Transferred\<close>
  sectors have been moved between the buffer and the medium, nothing outside the request has been
  touched, and the request is reported as a success exactly when all of it has been moved.
\<close>

theorem transfer_ends_correctly:
  assumes "block_device dev mh" "progressing dev" and op: "op = SCSIOP_READ \<or> op = SCSIOP_WRITE"
    and ok: "PLBA + LEN < 4294967296" "LEN * 512 < 4294967296" "512 \<le> r_MaximumTransferLength r"
      "r_MaximumTransferLength r < 33554432"
    and fuel: "LEN * (lim + 1) + 1 \<le> n"
  shows "\<exists>r' s'. ScsiCallRW n dev op buf PLBA LEN lim r s = Some (r', s') \<and> r_Transferred r' \<le> LEN \<and>
    moved op buf PLBA LEN 0 (r_Transferred r') (mh s) (mh s') \<and>
    (succeeded r' \<longleftrightarrow> r_Transferred r' = LEN) \<and> \<not> r_Used r'"
  by (rule transfer_ends [OF assms])

theorem transfer_ends_correctly_witness:
  "\<exists>r' s'. ScsiCallRW 16 flaky_dev SCSIOP_READ 4096 100 5 2 idle_req demo_disk = Some (r', s') \<and>
     moved SCSIOP_READ 4096 100 5 0 (r_Transferred r') (flaky_mh demo_disk) (flaky_mh s')"
  using transfer_ends_correctly [OF flaky_block_device flaky_progressing, of SCSIOP_READ 100 5 idle_req 2 16 4096 demo_disk]
  by (auto simp: idle_req_def)

text \<open>
  The commands of a transfer stay inside it: each names a range of sectors that begins after what
  has been transferred and ends inside the request, the byte count fits the sector count and the
  limit of the device, and the address and length survive the encoding in the command block.
\<close>

theorem commands_inside_request:
  assumes "ScsiCallRWHandler r = Inr (r', c)" "req_ok r"
  shows "cmd_PLBA c = r_PLBA r + r_Transferred r \<and> 0 < cmd_LEN c \<and>
    cmd_PLBA c + cmd_LEN c \<le> r_PLBA r + r_LEN r \<and> c_DataTransferLength c = 512 * cmd_LEN c \<and>
    c_DataTransferLength c \<le> r_MaximumTransferLength r \<and> c_DataBuffer c = r_DataBuffer r + 512 * r_Transferred r"
  using handler_sends [OF assms] by auto

theorem commands_inside_request_witness:
  "cmd_PLBA (snd (projr (ScsiCallRWHandler (rw_setup SCSIOP_READ 4096 100 5 2 idle_req)))) = 100"
proof -
  have "req_ok (rw_setup SCSIOP_READ 4096 100 5 2 idle_req)"
    by (rule rw_setup_ok) (simp_all add: idle_req_def)
  moreover obtain r' c where e: "ScsiCallRWHandler (rw_setup SCSIOP_READ 4096 100 5 2 idle_req) = Inr (r', c)"
    by (auto simp: ScsiCallRWHandler_def Let_def rw_setup_def ReuseRequest_def succeeded_def result_of_def REQ_SUCCESS_def)
  ultimately show ?thesis
    using commands_inside_request [OF e] by (simp add: rw_setup_def ReuseRequest_def)
qed

definition empty_reply :: reply where
  "empty_reply = \<lparr>p_Status = STATUS_SUCCESS, p_Information = 0, p_SrbStatus = SRB_STATUS_SUCCESS, p_Autosense = False,
     p_ScsiStatus = SCSISTAT_GOOD, p_DataTransferLength = 0, p_SenseLength = 0, p_Sense = (\<lambda>_. 0)\<rparr>"

lemma empty_reply_stuck:
  assumes "succeeded r" "r_Transferred r < r_LEN r" "r_LEN r < 4294967296"
  shows "drive n (\<lambda>s c. (empty_reply, s)) r s = None"
  using assms
proof (induction n arbitrary: r)
  case (Suc n)
  obtain q c where h: "ScsiCallRWHandler r = Inr (q, c)" "r_Transferred q = r_Transferred r" "r_LEN q = r_LEN r"
    "c_Function c = SRB_FUNCTION_EXECUTE_SCSI"
    using Suc.prems by (auto simp: ScsiCallRWHandler_def Let_def rw_cmd_def)
  let ?r1 = "ScsiCallCompletion SRB_FUNCTION_EXECUTE_SCSI empty_reply q"
  have "succeeded ?r1" "r_Transferred ?r1 = r_Transferred r" "r_LEN ?r1 = r_LEN r"
    using h Suc.prems
    by (simp_all add: ScsiCallCompletion_def empty_reply_def Let_def succeeded_def result_of_def REQ_SUCCESS_def)
  then have "drive n (\<lambda>s c. (empty_reply, s)) ?r1 s = None" using Suc.IH Suc.prems by simp
  then show ?case using h by simp
qed simp

text \<open>
  C27. A device that reports success for no bytes at all keeps a transfer going for ever: neither the
  retry counter nor the number of transferred sectors changes.
\<close>

theorem empty_success_never_ends:
  "ScsiCallRW n (\<lambda>s c. (empty_reply, s)) SCSIOP_READ 4096 100 5 2 idle_req s = None"
  unfolding ScsiCallRW_def
  by (rule empty_reply_stuck)
     (simp_all add: rw_setup_def ReuseRequest_def succeeded_def result_of_def REQ_SUCCESS_def)

end
