(* ===== verification/SyncIo.thy ===== *)
theory SyncIo
  imports Transfers Ftl
begin

text \<open>
  Transfers as their callers see them: a request has succeeded and moved all its sectors, or it has
  failed and touched nothing outside itself. The handlers of the gate and the routines that wait
  for each transfer (\<open>SyncScsiCallRW_AssociatedMem\<close>) both rest on this.
\<close>

section \<open>One transfer\<close>

fun opc_of :: "opc \<Rightarrow> scsiop" where
  "opc_of OpRead = SCSIOP_READ"
| "opc_of OpWrite = SCSIOP_WRITE"

text \<open>The sectors of the host's memory from byte address \<open>base\<close> on.\<close>

definition hostbuf :: "nat \<Rightarrow> mem \<times> mem \<Rightarrow> mem" where
  "hostbuf base mh = (\<lambda>i. snd mh (base + 512 * i))"

lemma moved_read:
  assumes "moved SCSIOP_READ (base + 512 * pos) P n 0 T mh mh'" "T \<le> n"
  shows "fst mh' = fst mh" "p < pos \<or> pos + n \<le> p \<Longrightarrow> hostbuf base mh' p = hostbuf base mh p"
    "T = n \<Longrightarrow> hostbuf base mh' = copy_sectors (hostbuf base mh) pos (fst mh) P n"
proof -
  show "fst mh' = fst mh" using assms(1) by (simp add: moved_def)
  have out: "hostbuf base mh' p = hostbuf base mh p" if "p < pos \<or> pos + n \<le> p" for p
    using assms(1) that by (auto simp: moved_def hostbuf_def)
  then show "p < pos \<or> pos + n \<le> p \<Longrightarrow> hostbuf base mh' p = hostbuf base mh p" .
  have inn: "hostbuf base mh' p = fst mh (P + (p - pos))" if "T = n" "pos \<le> p" "p < pos + n" for p
  proof -
    have "p - pos < n" "base + 512 * p = base + 512 * pos + 512 * (p - pos)" using that by simp_all
    moreover from this have "snd mh' (base + 512 * pos + 512 * (p - pos)) = fst mh (P + (p - pos))"
      using assms(1) that(1) unfolding moved_def by (metis le0)
    ultimately show ?thesis by (simp only: hostbuf_def)
  qed
  show "hostbuf base mh' = copy_sectors (hostbuf base mh) pos (fst mh) P n" if "T = n"
    using inn [OF that] out unfolding copy_sectors_def by (intro HOL.ext [of "_ :: mem"]) (metis not_le)
qed

lemma moved_write:
  assumes "moved SCSIOP_WRITE (base + 512 * pos) P n 0 T mh mh'" "T \<le> n"
  shows "snd mh' = snd mh" "p < P \<or> P + n \<le> p \<Longrightarrow> fst mh' p = fst mh p"
    "T = n \<Longrightarrow> fst mh' = copy_sectors (fst mh) P (hostbuf base mh) pos n"
proof -
  show "snd mh' = snd mh" using assms(1) by (simp add: moved_def)
  have out: "fst mh' p = fst mh p" if "p < P \<or> P + n \<le> p" for p
    using assms(1) that by (auto simp: moved_def)
  then show "p < P \<or> P + n \<le> p \<Longrightarrow> fst mh' p = fst mh p" .
  have inn: "fst mh' p = hostbuf base mh (pos + (p - P))" if "T = n" "P \<le> p" "p < P + n" for p
  proof -
    have "p - P < n" "p = P + (p - P)" using that by simp_all
    then have "fst mh' (P + (p - P)) = snd mh (base + 512 * pos + 512 * (p - P))"
      using assms(1) that(1) unfolding moved_def by (metis le0 scsiop.distinct)
    then show ?thesis using that by (simp add: hostbuf_def algebra_simps)
  qed
  show "fst mh' = copy_sectors (fst mh) P (hostbuf base mh) pos n" if "T = n"
    using inn [OF that] out unfolding copy_sectors_def by (intro HOL.ext [of "_ :: mem"]) (metis not_le)
qed

lemma set_buf_same [simp]: "set_buf b (buf_mem b c) c = c"
  by (cases b) simp_all

lemma set_thread_twice [simp]: "set_thread t th' (set_thread t th c) = set_thread t th' c"
  by (cases t) simp_all

section \<open>Waiting for a transfer\<close>

text \<open>
  What \<open>SyncScsiCallRW_AssociatedMem\<close> with \<open>DEFAULT_RETRY\<close> followed by \<open>REQ_SUCCESS(Req)\<close> is to
  its callers: the operation, the sector of \<open>AssociatedMem\<close>, the sector of the medium, the length,
  the state of the device below and the contents of \<open>AssociatedMem\<close>.
\<close>

type_synonym 's sync = "opc \<Rightarrow> nat \<Rightarrow> nat \<Rightarrow> nat \<Rightarrow> 's \<times> mem \<Rightarrow> bool \<times> 's \<times> mem"

definition in_range :: "nat \<Rightarrow> nat \<Rightarrow> bool" where
  "in_range P n \<longleftrightarrow> P + n < 4294967296 \<and> n * 512 < 4294967296"

locale sync_disk =
  fixes sync :: "'s sync" and medium :: "'s \<Rightarrow> mem"
  assumes read_medium: "in_range P n \<Longrightarrow> sync OpRead pos P n (s, m) = (ok, s', m') \<Longrightarrow> medium s' = medium s"
    and read_out: "in_range P n \<Longrightarrow> sync OpRead pos P n (s, m) = (ok, s', m') \<Longrightarrow> p < pos \<or> pos + n \<le> p \<Longrightarrow> m' p = m p"
    and read_ok: "in_range P n \<Longrightarrow> sync OpRead pos P n (s, m) = (True, s', m') \<Longrightarrow> m' = copy_sectors m pos (medium s) P n"
    and write_mem: "in_range P n \<Longrightarrow> sync OpWrite pos P n (s, m) = (ok, s', m') \<Longrightarrow> m' = m"
    and write_out: "in_range P n \<Longrightarrow> sync OpWrite pos P n (s, m) = (ok, s', m') \<Longrightarrow> p < P \<or> P + n \<le> p \<Longrightarrow> medium s' p = medium s p"
    and write_ok: "in_range P n \<Longrightarrow> sync OpWrite pos P n (s, m) = (True, s', m') \<Longrightarrow> medium s' = copy_sectors (medium s) P m pos n"
begin

lemma read_one:
  assumes "in_range P 1" "sync OpRead 0 P 1 (s, m) = (True, s', m')"
  shows "m' 0 = medium s P" "medium s' = medium s"
  using read_ok [OF assms] read_medium [OF assms] by (simp_all add: copy_sectors_def)

lemma read_all:
  assumes "in_range P n" "sync OpRead 0 P n (s, m) = (True, s', m')"
  shows "p < n \<Longrightarrow> m' p = medium s (P + p)" "n \<le> p \<Longrightarrow> m' p = m p" "medium s' = medium s"
  using read_ok [OF assms] read_medium [OF assms] by (simp_all add: copy_sectors_def)

lemma write_all:
  assumes "in_range P n" "sync OpWrite 0 P n (s, m) = (True, s', m')"
  shows "p < n \<Longrightarrow> medium s' (P + p) = m p" "q < P \<or> P + n \<le> q \<Longrightarrow> medium s' q = medium s q" "m' = m"
  using write_ok [OF assms] write_mem [OF assms] by (auto simp: copy_sectors_def)

end

text \<open>
  \<open>sync_call\<close> is the routine of \<open>driver/vreq.c\<close> over a device \<open>dev\<close> whose view is \<open>mh\<close>. The buffer
  of the request is at \<open>base\<close> in the memory of the host; \<open>put\<close> fills it.
\<close>

definition sync_call ::
    "('s \<Rightarrow> cmd \<Rightarrow> reply \<times> 's) \<Rightarrow> ('s \<Rightarrow> mem \<times> mem) \<Rightarrow> (mem \<Rightarrow> 's \<Rightarrow> 's) \<Rightarrow> nat \<Rightarrow> req \<Rightarrow> 's sync" where
  "sync_call dev mh put base r op pos P n w =
     (case SyncScsiCallRW_AssociatedMem (n * (DEFAULT_RETRY + 1) + 1) dev 0 base (opc_of op) (512 * pos) P n
             DEFAULT_RETRY r (put (snd w) (fst w)) of
        None \<Rightarrow> (False, fst w, snd w)
      | Some (r', s') \<Rightarrow> (succeeded r', s', hostbuf base (mh s')))"

lemma sync_call_transfer:
  assumes "block_device dev mh" "progressing dev" and range: "in_range P n"
    and r: "512 \<le> r_MaximumTransferLength r" "r_MaximumTransferLength r < 33554432"
    and c: "sync_call dev mh put base r op pos P n (s, m) = (ok, s', m')"
  shows "\<exists>T \<le> n. moved (opc_of op) (base + 512 * pos) P n 0 T (mh (put m s)) (mh s') \<and> (ok \<longleftrightarrow> T = n) \<and> m' = hostbuf base (mh s')"
proof -
  let ?r = "r\<lparr>r_Completion := SyncScsiCallRWCompletion, r_Context := 0\<rparr>"
  have op: "opc_of op = SCSIOP_READ \<or> opc_of op = SCSIOP_WRITE" by (cases op) simp_all
  have "P + n < 4294967296" "n * 512 < 4294967296" "512 \<le> r_MaximumTransferLength ?r" "r_MaximumTransferLength ?r < 33554432"
    using range r by (simp_all add: in_range_def)
  from transfer_ends [OF assms(1,2) op this order_refl, where buf = "base + 512 * pos" and lim = DEFAULT_RETRY and s = "put m s"]
  obtain r' t where x: "ScsiCallRW (n * (DEFAULT_RETRY + 1) + 1) dev (opc_of op) (base + 512 * pos) P n DEFAULT_RETRY ?r (put m s) = Some (r', t)"
    and m: "r_Transferred r' \<le> n" "moved (opc_of op) (base + 512 * pos) P n 0 (r_Transferred r') (mh (put m s)) (mh t)"
      "succeeded r' \<longleftrightarrow> r_Transferred r' = n" by blast
  have "succeeded (r'\<lparr>r_Completion := a, r_Context := b\<rparr>) = succeeded r'" for a b
    by (simp add: succeeded_def result_of_def)
  then show ?thesis
    using c x m by (auto simp: sync_call_def SyncScsiCallRW_AssociatedMem_def SyncScsiCallRW_def simp del: size_defs)
qed

definition puts :: "('s \<Rightarrow> mem \<times> mem) \<Rightarrow> (mem \<Rightarrow> 's \<Rightarrow> 's) \<Rightarrow> nat \<Rightarrow> bool" where
  "puts mh put base \<longleftrightarrow> (\<forall>m s. fst (mh (put m s)) = fst (mh s) \<and> hostbuf base (mh (put m s)) = m)"

lemma sync_call_disk:
  assumes "block_device dev mh" "progressing dev" "puts mh put base"
    and r: "512 \<le> r_MaximumTransferLength r" "r_MaximumTransferLength r < 33554432"
  shows "sync_disk (sync_call dev mh put base r) (\<lambda>s. fst (mh s))"
proof -
  have p: "fst (mh (put m s)) = fst (mh s)" "hostbuf base (mh (put m s)) = m" for m s
    using assms(3) by (simp_all add: puts_def)
  show ?thesis
  proof (unfold_locales, goal_cases)
    case (1 P n pos s m ok s' m')
    from sync_call_transfer [OF assms(1,2) 1(1) r 1(2)] p show ?case by (auto dest: moved_read(1))
  next
    case (2 P n pos s m ok s' m' q)
    from sync_call_transfer [OF assms(1,2) 2(1) r 2(2)] p 2(3) show ?case by (auto simp: moved_read(2))
  next
    case (3 P n pos s m s' m')
    from sync_call_transfer [OF assms(1,2) 3(1) r 3(2)] p show ?case by (auto dest: moved_read(3))
  next
    case (4 P n pos s m ok s' m')
    from sync_call_transfer [OF assms(1,2) 4(1) r 4(2)] obtain T where
      "moved SCSIOP_WRITE (base + 512 * pos) P n 0 T (mh (put m s)) (mh s')" "T \<le> n" "m' = hostbuf base (mh s')" by auto
    moreover from this(1,2) have "snd (mh s') = snd (mh (put m s))" by (rule moved_write(1))
    ultimately show ?case using p(2) [of m s] by (simp add: hostbuf_def)
  next
    case (5 P n pos s m ok s' m' q)
    from sync_call_transfer [OF assms(1,2) 5(1) r 5(2)] p 5(3) show ?case by (auto simp: moved_write(2))
  next
    case (6 P n pos s m s' m')
    from sync_call_transfer [OF assms(1,2) 6(1) r 6(2)] p show ?case by (auto dest: moved_write(3))
  qed
qed

text \<open>The flaky disk of \<open>Transfers\<close> with a request whose buffer starts at 4096.\<close>

definition flaky_put :: "nat \<Rightarrow> mem \<Rightarrow> flaky \<Rightarrow> flaky" where
  "flaky_put base m s =
     s\<lparr>fl_host := (\<lambda>a. if base \<le> a \<and> (a - base) mod 512 = 0 then m ((a - base) div 512) else fl_host s a)\<rparr>"

lemma flaky_puts: "puts flaky_mh (flaky_put base) base"
  by (simp add: puts_def flaky_mh_def flaky_put_def hostbuf_def)

definition flaky_sync :: "flaky sync" where
  "flaky_sync = sync_call flaky_dev flaky_mh (flaky_put 4096) 4096 idle_req"

interpretation fl: sync_disk flaky_sync fl_medium
proof -
  have "sync_disk flaky_sync (\<lambda>s. fst (flaky_mh s))" unfolding flaky_sync_def
    by (rule sync_call_disk [OF flaky_block_device flaky_progressing flaky_puts]) (simp_all add: idle_req_def)
  then show "sync_disk flaky_sync fl_medium" by (simp add: flaky_mh_def)
qed

section \<open>The transfers of the handlers\<close>

text \<open>
  C13. \<open>Ftl\<close> lets a transfer of a handler happen in one step (\<open>transfer\<close>). The routine of
  \<open>driver/vreq.c\<close> implements that step: whatever commands the device fails, splits or shortens on
  the way, a transfer that \<open>ScsiCallRW\<close> reports as a success has done to the medium and to the
  buffer what \<open>transfer\<close> says, and reports the whole length; one that fails has changed nothing
  outside the sectors it was for.
\<close>

theorem transfer_refined:
  assumes "block_device dev mh" "progressing dev" "in_range (rq_PLBA q) (rq_LEN q)"
    and "512 \<le> r_MaximumTransferLength r" "r_MaximumTransferLength r < 33554432"
    and buf: "hostbuf base (mh s) = buf_mem (rq_Buffer q) c"
  shows "\<exists>r' s'. ScsiCallRW (rq_LEN q * (rq_RetryLimit q + 1) + 1) dev (opc_of (rq_OPC q)) (base + 512 * rq_Pos q)
        (rq_PLBA q) (rq_LEN q) (rq_RetryLimit q) r s = Some (r', s') \<and>
    (if succeeded r'
     then transfer q (fst (mh s), c) = (fst (mh s'), set_buf (rq_Buffer q) (hostbuf base (mh s')) c) \<and>
       r_Transferred r' = rq_LEN q
     else (\<forall>p. rq_OPC q = OpRead \<or> p < rq_PLBA q \<or> rq_PLBA q + rq_LEN q \<le> p \<longrightarrow> fst (mh s') p = fst (mh s) p) \<and>
       (\<forall>p. rq_OPC q = OpWrite \<or> p < rq_Pos q \<or> rq_Pos q + rq_LEN q \<le> p \<longrightarrow>
          hostbuf base (mh s') p = hostbuf base (mh s) p))"
proof -
  let ?op = "opc_of (rq_OPC q)" and ?b = "base + 512 * rq_Pos q" and ?n = "rq_LEN q * (rq_RetryLimit q + 1) + 1"
  have op: "?op = SCSIOP_READ \<or> ?op = SCSIOP_WRITE" by (cases "rq_OPC q") simp_all
  have rng: "rq_PLBA q + rq_LEN q < 4294967296" "rq_LEN q * 512 < 4294967296" using assms(3) by (simp_all add: in_range_def)
  from transfer_ends [OF assms(1,2) op rng assms(4,5) order_refl, where buf = ?b and lim = "rq_RetryLimit q" and s = s]
  obtain r' s' where x: "ScsiCallRW ?n dev ?op ?b (rq_PLBA q) (rq_LEN q) (rq_RetryLimit q) r s = Some (r', s')"
    and m: "r_Transferred r' \<le> rq_LEN q" "moved ?op ?b (rq_PLBA q) (rq_LEN q) 0 (r_Transferred r') (mh s) (mh s')"
    and ok: "succeeded r' \<longleftrightarrow> r_Transferred r' = rq_LEN q" by blast
  have same: "hostbuf base (mh s') = hostbuf base (mh s)" if "snd (mh s') = snd (mh s)"
    using that by (simp add: hostbuf_def)
  show ?thesis
  proof (cases "rq_OPC q")
    case OpRead
    then have m': "moved SCSIOP_READ ?b (rq_PLBA q) (rq_LEN q) 0 (r_Transferred r') (mh s) (mh s')" using m(2) by simp
    from moved_read [OF m' m(1)] x ok show ?thesis
      by (auto simp: transfer_def OpRead buf [symmetric])
  next
    case OpWrite
    then have m': "moved SCSIOP_WRITE ?b (rq_PLBA q) (rq_LEN q) 0 (r_Transferred r') (mh s) (mh s')" using m(2) by simp
    from moved_write [OF m' m(1)] same x ok show ?thesis
      by (auto simp: transfer_def OpWrite buf)
  qed
qed

definition demo_rq :: rwreq where
  "demo_rq = \<lparr>rq_OPC = OpRead, rq_Buffer = BufCache, rq_Pos = 2, rq_PLBA = 100, rq_LEN = 5, rq_RetryLimit = 5,
     rq_Completion = CacheFillReadCompletion\<rparr>"

theorem transfer_refined_witness:
  "\<exists>r' s'. ScsiCallRW 31 flaky_dev SCSIOP_READ 5120 100 5 5 idle_req demo_disk = Some (r', s') \<and>
    (succeeded r' \<longrightarrow> transfer demo_rq (fl_medium demo_disk, zero_ctx) = (fl_medium s', zero_ctx\<lparr>CacheMem := hostbuf 4096 (flaky_mh s')\<rparr>))"
proof -
  have b: "hostbuf 4096 (flaky_mh demo_disk) = buf_mem (rq_Buffer demo_rq) zero_ctx"
    by (simp add: hostbuf_def flaky_mh_def demo_disk_def demo_rq_def zero_ctx_def)
  have r: "in_range (rq_PLBA demo_rq) (rq_LEN demo_rq)" by (simp add: demo_rq_def in_range_def)
  show ?thesis
    using transfer_refined [OF flaky_block_device flaky_progressing r _ _ b, of idle_req]
    by (auto simp: demo_rq_def idle_req_def flaky_mh_def)
qed

end
