(* ===== verification/Config.thy ===== *)
theory Config
  imports CtxLife SyncIo
begin

text \<open>
  \<open>driver/config.c\<close>: formatting, changing and reporting the configuration of a device. The
  routines run in a thread of the caller and wait for each transfer, which is a parameter
  (\<open>sync\<close>, the contract \<open>sync_disk\<close>). The contents of the request's buffer are threaded through.
\<close>

section \<open>The mode buffer\<close>

text \<open>\<open>MODE_BUFFER\<close> of \<open>lib/common.h\<close> without its checksum, and the nine words it occupies.\<close>

record mode_buffer =
  mb_ModeDataLength :: u8
  mb_MediumType :: u8
  mb_Reserved :: u8
  mb_BlockDescriptorLength :: u8
  mb_PageCode :: u8
  mb_PageLength :: u8
  mb_Version :: u8
  mb_Revision :: u8
  mb_Mode :: u8
  mb_CacheTimeout :: u8
  mb_FlushFaithfully :: u8
  mb_Padding :: u8
  mb_MAX_MAP :: u32
  mb_SIZE_OF_MAP :: u32
  mb_WEIGHT_LIFE :: u32
  mb_WEIGHT_SPEED :: u32
  mb_Signature :: u32
  mb_Magic :: u32

definition le_word :: "u8 \<Rightarrow> u8 \<Rightarrow> u8 \<Rightarrow> u8 \<Rightarrow> u32" where
  "le_word a b c d = set_byte 3 d (set_byte 2 c (set_byte 1 b (set_byte 0 a 0)))"

lemma get_le_word [simp]:
  "get_byte 0 (le_word a b c d) = a" "get_byte (Suc 0) (le_word a b c d) = b"
  "get_byte 2 (le_word a b c d) = c" "get_byte 3 (le_word a b c d) = d"
  by (simp_all add: le_word_def)

definition mode_words :: "mode_buffer \<Rightarrow> u32 list" where
  "mode_words b =
     [le_word (mb_ModeDataLength b) (mb_MediumType b) (mb_Reserved b) (mb_BlockDescriptorLength b),
      le_word (mb_PageCode b) (mb_PageLength b) (mb_Version b) (mb_Revision b),
      le_word (mb_Mode b) (mb_CacheTimeout b) (mb_FlushFaithfully b) (mb_Padding b),
      mb_MAX_MAP b, mb_SIZE_OF_MAP b, mb_WEIGHT_LIFE b, mb_WEIGHT_SPEED b, mb_Signature b, mb_Magic b]"

definition mode_of :: "u32 list \<Rightarrow> mode_buffer" where
  "mode_of ws =
     \<lparr>mb_ModeDataLength = get_byte 0 (ws ! 0), mb_MediumType = get_byte 1 (ws ! 0),
      mb_Reserved = get_byte 2 (ws ! 0), mb_BlockDescriptorLength = get_byte 3 (ws ! 0),
      mb_PageCode = get_byte 0 (ws ! 1), mb_PageLength = get_byte 1 (ws ! 1),
      mb_Version = get_byte 2 (ws ! 1), mb_Revision = get_byte 3 (ws ! 1),
      mb_Mode = get_byte 0 (ws ! 2), mb_CacheTimeout = get_byte 1 (ws ! 2),
      mb_FlushFaithfully = get_byte 2 (ws ! 2), mb_Padding = get_byte 3 (ws ! 2),
      mb_MAX_MAP = ws ! 3, mb_SIZE_OF_MAP = ws ! 4, mb_WEIGHT_LIFE = ws ! 5, mb_WEIGHT_SPEED = ws ! 6,
      mb_Signature = ws ! 7, mb_Magic = ws ! 8\<rparr>"

definition MODE_WORDS :: nat where "MODE_WORDS = 13"

lemma length_mode_words [simp]: "length (mode_words b) = 9"
  by (simp add: mode_words_def)

lemma mode_of_words [simp]: "mode_of (mode_words b @ xs) = b"
  by (simp add: mode_of_def mode_words_def nth_append)

section \<open>A new generation number\<close>

text \<open>The first word of a directory is its version, the second its \<open>CCN\<close>.\<close>

fun read_ccns :: "'s sync \<Rightarrow> nat \<Rightarrow> nat \<Rightarrow> 's \<times> mem \<Rightarrow> nat list option \<times> 's \<times> mem" where
  "read_ccns sync i 0 w = (Some [], w)"
| "read_ccns sync i (Suc k) w =
     (let (ok, s, m) = sync OpRead 0 (phys i LAST_PURGE_POS) 1 w in
      if \<not> ok then (None, s, m)
      else let (r, w') = read_ccns sync (i + 1) k (s, m) in (map_option (\<lambda>ccns. unat (m 0 1) # ccns) r, w'))"

definition max_ccn :: "nat list \<Rightarrow> nat" where
  "max_ccn ccns = foldl (\<lambda>ccn c. if ccn < c then c else ccn) 0 ccns"

text \<open>\<open>retry2\<close>: the loop has no bound of its own; \<open>None\<close> stands for running for ever.\<close>

partial_function (option) retry2 :: "nat list \<Rightarrow> nat \<Rightarrow> nat option" where
  "retry2 ccns ccn =
     (let ccn' = wrap32 (ccn + 1) in if ccn' \<in> set ccns then retry2 ccns ccn' else Some ccn')"

text \<open>The outer \<open>None\<close> is not returning, the inner one is \<open>FALSE\<close>.\<close>

definition GetNewCCN :: "'s sync \<Rightarrow> dx \<Rightarrow> pool \<Rightarrow> 's \<times> mem \<Rightarrow> (nat option \<times> pool \<times> 's \<times> mem) option" where
  "GetNewCCN sync x p w =
     (case alloc PoolMem p of
        (None, p1) \<Rightarrow> Some (None, p1, w)
      | (Some a, p1) \<Rightarrow>
          let (r, w') = read_ccns sync 0 (GetMaxChunks x) w in
          case r of
            None \<Rightarrow> Some (None, dealloc PoolMem a p1, w')
          | Some ccns \<Rightarrow> map_option (\<lambda>ccn. (Some ccn, dealloc PoolMem a p1, w')) (retry2 ccns (max_ccn ccns)))"

section \<open>The sectors a format writes\<close>

definition MBR0 :: "u8 list" where
  "MBR0 = [0x00, 0x00, 0x02, 0x00, 0x01, 0xfe, 0xff, 0xff, 0x01, 0x00, 0x00, 0x00, 0x40, 0x00, 0x00, 0x00]"

definition MBR1 :: "u8 list" where
  "MBR1 = [0x00, 0x01, 0x02, 0x00, 0x07, 0xfe, 0xff, 0xff, 0x40, 0x00, 0x00, 0x00, 0x00, 0x00, 0x00, 0x00]"

definition FAT0 :: "u8 list" where
  "FAT0 =
    [0xeb, 0x3c, 0x90, 0x4d, 0x53, 0x44, 0x4f, 0x53, 0x35, 0x2e, 0x30, 0x00, 0x02, 0x01, 0x06, 0x00,
     0x02, 0x00, 0x02, 0x40, 0x00, 0xf8, 0x01, 0x00, 0x3f, 0x00, 0xff, 0x00, 0x01, 0x00, 0x00, 0x00,
     0x00, 0x00, 0x00, 0x00, 0x80, 0x00, 0x29, 0x33, 0x33, 0x33, 0x33, 0x46, 0x44, 0x20, 0x4c, 0x45,
     0x56, 0x45, 0x4c, 0x49, 0x4e, 0x47, 0x46, 0x41, 0x54, 0x31, 0x32, 0x20, 0x20, 0x20]"

definition FATe :: "u8 list" where "FATe = [0xf8, 0xff, 0xff]"

text \<open>\<open>k\<close> words of a list, stored from the start of a sector.\<close>

definition put_words :: "u32 list \<Rightarrow> sector \<Rightarrow> sector" where
  "put_words ws s = (\<lambda>k. if k < length ws then ws ! k else s k)"

definition boot_mark :: "mem \<Rightarrow> mem" where
  "boot_mark m = put_byte 0x1ff 0xaa (put_byte 0x1fe 0x55 m)"

text \<open>The directory of chunk 1: what has been read there, with a new head.\<close>

definition format_wcn :: "ctl \<Rightarrow> u32" where
  "format_wcn old = (if fst (VerifyChecksum128 (map old [0..<CTL_WORDS])) then old 3 else 0) + 1"

definition format_ctl_word :: "nat \<Rightarrow> bool \<Rightarrow> ctl \<Rightarrow> nat \<Rightarrow> u32" where
  "format_ctl_word ccn removable old w =
     (if w = 0 then of_nat LEVELING_VERSION
      else if w = 1 then of_nat ccn
      else if w = 2 then 1
      else if w = 3 then format_wcn old
      else if w = 4 then 1
      else if w = 5 then 0
      else if w = 6 then 0
      else if w = 7 then (if removable then 0 else of_nat SIZE_OF_CACHE)
      else if \<not> removable \<and> w < 8 + SIZE_OF_CACHE div 8 then (if w = 8 then 0 else of_nat NOT_MAPPED)
      else old w)"

definition format_ctl :: "nat \<Rightarrow> bool \<Rightarrow> mem \<Rightarrow> mem" where
  "format_ctl ccn removable m =
     mem_of_ctl (seal_ctl (format_ctl_word ccn removable (ctl_of_mem m (\<lambda>_. 0)))) m"

text \<open>The first cache: the partition table of the mapped device and a purge block.\<close>

definition first_purge_word :: "nat \<Rightarrow> mode_buffer \<Rightarrow> nat \<Rightarrow> u32" where
  "first_purge_word ccn b w =
     (if w = 0 then of_nat LEVELING_VERSION
      else if w = 1 then of_nat ccn
      else if w = 2 then 1
      else if w = 3 then 1
      else if w = 4 then 0
      else if w = 5 then 0
      else if w < 5 + SIZE_OF_CACHE div 8 then of_nat NOT_MAPPED
      else if w = 72 then mb_Magic b
      else 0)"

definition partition_table :: "mode_buffer \<Rightarrow> mem \<Rightarrow> mem" where
  "partition_table b m =
     boot_mark (put_ulong 0x1b8 (mb_Signature b)
       (put_ulong 0x1ca (push_bit 3 (mb_SIZE_OF_MAP b) - 64) (put_bytes 0x1be MBR1 m)))"

definition format_first :: "nat \<Rightarrow> mode_buffer \<Rightarrow> mem \<Rightarrow> mem" where
  "format_first ccn b m =
     (let m1 = partition_table b (zero_sectors m 0 SIZE_OF_CACHE)
      in m1(LAST_CACHE_POS :=
              put_words (ProduceChecksum128 (map (first_purge_word ccn b) [0..<PURGE_WORDS])) (m1 LAST_CACHE_POS)))"

text \<open>The sectors before the first chunk's data: configuration and a small file system.\<close>

definition new_conf_words :: "nat \<Rightarrow> mode_buffer \<Rightarrow> u32 list" where
  "new_conf_words ccn b =
     [of_nat LEVELING_VERSION, of_nat ccn, mb_SIZE_OF_MAP b, mb_WEIGHT_LIFE b, mb_WEIGHT_SPEED b, mb_Magic b,
      le_word (mb_CacheTimeout b) (mb_FlushFaithfully b) 0 0, 0, 0, 0, 0, 0]"

definition format_conf :: "nat \<Rightarrow> mode_buffer \<Rightarrow> mem \<Rightarrow> mem" where
  "format_conf ccn b m =
     boot_mark (put_ulong 0x1b8 (mb_Signature b) (put_bytes 0x1000 FATe (put_bytes 0xe00 FATe
       (put_byte 0x3ff 0xaa (put_byte 0x3fe 0x55 (put_bytes 0x200 FAT0 (put_bytes 0x1be MBR0
         (m(0 := put_words (ProduceChecksum128 (new_conf_words ccn b)) (m 0))))))))))"

definition format_direct :: "nat \<Rightarrow> mode_buffer \<Rightarrow> mem \<Rightarrow> mem" where
  "format_direct LastLBA b m =
     boot_mark (put_ulong 0x1b8 (mb_Signature b)
       (put_ulong 0x1ca (of_nat LastLBA - 63) (put_bytes 0x1be MBR1 m)))"

definition format_boot :: "nat \<Rightarrow> mode_buffer \<Rightarrow> dx \<Rightarrow> mem \<Rightarrow> mem" where
  "format_boot ccn b x m =
     (let m1 = zero_sectors m 0 65;
          m2 = (if 0 < mb_SIZE_OF_MAP b then format_conf ccn b m1 else m1)
      in if mb_SIZE_OF_MAP b = 0 \<and> \<not> dx_RemovableMedia x then format_direct (dx_LastLBA x) b m2 else m2)"

section \<open>Setting the configuration\<close>

text \<open>The three steps of a format, each \<open>False\<close> when a transfer fails.\<close>

definition format_chunk :: "'s sync \<Rightarrow> nat \<Rightarrow> mode_buffer \<Rightarrow> dx \<Rightarrow> 's \<times> mem \<Rightarrow> bool \<times> 's \<times> mem" where
  "format_chunk sync ccn b x w =
     (if 0 < mb_SIZE_OF_MAP b
      then let (ok, s, m) = sync OpRead 0 (SIZE_OF_CHUNK + LAST_PURGE_POS) SIZE_OF_CTL w in
        if \<not> ok then (False, s, m)
        else sync OpWrite 0 (SIZE_OF_CHUNK + LAST_PURGE_POS) SIZE_OF_CTL (s, format_ctl ccn (dx_RemovableMedia x) m)
      else (True, w))"

definition format_cache :: "'s sync \<Rightarrow> nat \<Rightarrow> mode_buffer \<Rightarrow> dx \<Rightarrow> 's \<times> mem \<Rightarrow> bool \<times> 's \<times> mem" where
  "format_cache sync ccn b x w =
     (if 0 < mb_SIZE_OF_MAP b \<and> \<not> dx_RemovableMedia x
      then sync OpWrite 0 SIZE_OF_CHUNK SIZE_OF_CACHE (fst w, format_first ccn b (snd w))
      else (True, w))"

definition format_medium :: "'s sync \<Rightarrow> nat \<Rightarrow> mode_buffer \<Rightarrow> dx \<Rightarrow> 's \<times> mem \<Rightarrow> bool \<times> 's \<times> mem" where
  "format_medium sync ccn b x w =
     (let (ok1, w1) = format_chunk sync ccn b x w in
      if \<not> ok1 then (False, w1)
      else let (ok2, w2) = format_cache sync ccn b x w1 in
      if \<not> ok2 then (False, w2)
      else sync OpWrite 0 0 65 (fst w2, format_boot ccn b x (snd w2)))"

definition do_format :: "'s sync \<Rightarrow> mode_buffer \<Rightarrow> dx \<Rightarrow> pool \<Rightarrow> 's \<times> mem \<Rightarrow> (bool \<times> dx \<times> pool \<times> 's \<times> mem) option" where
  "do_format sync b x p w =
     (case GetNewCCN sync x p w of
        None \<Rightarrow> None
      | Some (None, p', w') \<Rightarrow> Some (False, x, p', w')
      | Some (Some ccn, p', w') \<Rightarrow>
          let (started, x1) = SetFormatMode x in
          if \<not> started then Some (False, x1, p', w')
          else let (ok, w2) = format_medium sync ccn b x1 w' in
            Some (ok, ChangeModeAtomic VLTL_MODE_FORMAT (if ok then VLTL_MODE_COMPLETED else VLTL_MODE_ERROR) x1, p', w2))"

text \<open>\<open>VLTL_MODE_CONFIG\<close>: the new parameters go into the context and into the block on the medium.\<close>

definition conf_with :: "mode_buffer \<Rightarrow> u32 list \<Rightarrow> u32 list" where
  "conf_with b ws =
     ws[3 := mb_WEIGHT_LIFE b, 4 := mb_WEIGHT_SPEED b,
        6 := set_byte 1 (mb_FlushFaithfully b) (set_byte 0 (mb_CacheTimeout b) (ws ! 6))]"

definition ctx_with :: "mode_buffer \<Rightarrow> ctx \<Rightarrow> ctx" where
  "ctx_with b c = c\<lparr>WEIGHT_LIFE := unat (mb_WEIGHT_LIFE b), WEIGHT_SPEED := unat (mb_WEIGHT_SPEED b),
     CacheTimeout := unat (mb_CacheTimeout b), FlushFaithfully := (mb_FlushFaithfully b \<noteq> 0)\<rparr>"

definition do_config :: "'s sync \<Rightarrow> mode_buffer \<Rightarrow> dx \<Rightarrow> 's \<times> mem \<Rightarrow> bool \<times> dx \<times> 's \<times> mem" where
  "do_config sync b x w =
     (let (ok, s, m) = sync OpRead 0 0 1 w in
      if \<not> ok \<or> \<not> fst (VerifyChecksum128 (conf_words (m 0))) then (False, x, s, m)
      else (case dx_Ctx x of
              None \<Rightarrow> (False, x, s, m)
            | Some (obj, c) \<Rightarrow>
                let sealed = ProduceChecksum128 (conf_with b (conf_words (m 0)));
                    (ok2, w2) = sync OpWrite 0 0 1 (s, m(0 := put_words sealed (m 0)))
                in (ok2, x\<lparr>dx_Ctx := Some (obj, ctx_with b c)\<rparr>, w2)))"

text \<open>
  \<open>SetLevelingConfig\<close>; \<open>m\<close> is what the buffer of the new request happens to hold. \<open>None\<close>: it does
  not return.
\<close>

definition SetLevelingConfig ::
    "'s sync \<Rightarrow> mode_buffer \<Rightarrow> dx \<Rightarrow> pool \<Rightarrow> 's \<times> mem \<Rightarrow> (bool \<times> dx \<times> pool \<times> 's \<times> mem) option" where
  "SetLevelingConfig sync b x p w =
     (if mb_Version b \<noteq> 1 \<or> mb_Revision b \<noteq> 1 then Some (False, x, p, w)
      else (case CreateRequest (dx_MaximumTransferLength x) (SIZE_OF_CACHE * 512) p of
              (None, p1) \<Rightarrow> Some (False, x, p1, w)
            | (Some r, p1) \<Rightarrow>
                if unat (mb_Mode b) = mode_num VLTL_MODE_CONFIG
                then let (ok, x', w') = do_config sync b x w in Some (ok, x', FreeRequest (Some r) p1, w')
                else if unat (mb_Mode b) \<noteq> mode_num VLTL_MODE_FORMAT
                then Some (False, x, FreeRequest (Some r) p1, w)
                else map_option (\<lambda>(ok, x', p', w'). (ok, x', FreeRequest (Some r) p', w')) (do_format sync b x p1 w)))"

section \<open>Reporting the configuration\<close>

definition mode_head :: "dx \<Rightarrow> mode_buffer" where
  "mode_head x =
     \<lparr>mb_ModeDataLength = 51, mb_MediumType = 0, mb_Reserved = 0, mb_BlockDescriptorLength = 0, mb_PageCode = 40,
      mb_PageLength = 46, mb_Version = 1, mb_Revision = 1, mb_Mode = of_nat (mode_num (dx_Mode x)), mb_CacheTimeout = 0,
      mb_FlushFaithfully = 0, mb_Padding = 0, mb_MAX_MAP = 0, mb_SIZE_OF_MAP = 0, mb_WEIGHT_LIFE = 0,
      mb_WEIGHT_SPEED = 0, mb_Signature = 0, mb_Magic = 0\<rparr>"

definition leveling_mode :: "dx \<Rightarrow> mode_buffer" where
  "leveling_mode x =
     (case dx_Ctx x of
        Some (obj, c) \<Rightarrow> (mode_head x)
          \<lparr>mb_MAX_MAP := of_nat (wrap32 (MAX_CHUNKS c * SIZE_OF_CHUNK) div 10), mb_SIZE_OF_MAP := of_nat (SIZE_OF_MAP c),
           mb_WEIGHT_LIFE := of_nat (WEIGHT_LIFE c), mb_WEIGHT_SPEED := of_nat (WEIGHT_SPEED c),
           mb_CacheTimeout := of_nat (CacheTimeout c), mb_FlushFaithfully := of_bool (FlushFaithfully c)\<rparr>
      | None \<Rightarrow>
          let n = wrap32 (GetMaxChunks x * SIZE_OF_CHUNK) div 10 in (mode_head x)
          \<lparr>mb_MAX_MAP := of_nat n, mb_SIZE_OF_MAP := of_nat (n div 2), mb_WEIGHT_LIFE := 50, mb_WEIGHT_SPEED := 50,
           mb_CacheTimeout := 30, mb_FlushFaithfully := 0\<rparr>)"

definition GetLevelingConfig :: "dx \<Rightarrow> u32 list" where
  "GetLevelingConfig x = ProduceChecksum128 (mode_words (leveling_mode x) @ [0, 0, 0, 0])"

section \<open>The control requests\<close>

text \<open>
  \<open>SCSI_PASS_THROUGH\<close> as far as it is used; \<open>sp_ModeBuffer\<close> is the data at \<open>DataBufferOffset\<close>,
  taken to lie behind the structure itself.
\<close>

record spt =
  sp_op :: scsiop
  sp_Cdb :: "nat \<Rightarrow> nat"
  sp_DataTransferLength :: nat
  sp_DataBufferOffset :: nat
  sp_ScsiStatus :: scsi_status
  sp_SenseInfoLength :: nat
  sp_ModeBuffer :: "u32 list"

definition MODE_BYTES :: nat where "MODE_BYTES = 52"

text \<open>\<open>data_end\<close> is computed in a \<open>ULONG\<close>.\<close>

definition data_end :: "spt \<Rightarrow> nat" where
  "data_end sp = wrap32 (sp_DataBufferOffset sp + sp_DataTransferLength sp)"

definition control_answer :: "u32 list \<Rightarrow> spt \<Rightarrow> spt" where
  "control_answer ws sp =
     sp\<lparr>sp_ScsiStatus := SCSISTAT_GOOD, sp_SenseInfoLength := 0, sp_DataTransferLength := MODE_BYTES, sp_ModeBuffer := ws\<rparr>"

definition sense_accepted :: "nat \<Rightarrow> spt \<Rightarrow> bool" where
  "sense_accepted outlen sp \<longleftrightarrow> sp_DataTransferLength sp = MODE_BYTES \<and> outlen = data_end sp \<and>
     sp_Cdb sp 1 = 8 \<and> sp_Cdb sp 2 = 40 \<and> sp_Cdb sp 3 = 41"

definition select_accepted :: "nat \<Rightarrow> spt \<Rightarrow> bool" where
  "select_accepted inlen sp \<longleftrightarrow> sp_DataTransferLength sp = MODE_BYTES \<and> \<not> inlen < data_end sp \<and>
     mb_BlockDescriptorLength (mode_of (sp_ModeBuffer sp)) = 0 \<and> mb_PageCode (mode_of (sp_ModeBuffer sp)) = 40 \<and>
     fst (VerifyChecksum128 (sp_ModeBuffer sp))"

text \<open>
  The status, \<open>IoStatus.Information\<close> of the completed request (\<open>None\<close>: the request has not been
  completed) and the new state. \<open>hdr\<close> is \<open>sizeof(SCSI_PASS_THROUGH)\<close>.
\<close>

definition LevelingControl ::
    "'s sync \<Rightarrow> nat \<Rightarrow> nat \<Rightarrow> nat \<Rightarrow> spt \<Rightarrow> dx \<Rightarrow> pool \<Rightarrow> 's \<times> mem \<Rightarrow> (ntstatus \<times> nat option \<times> spt \<times> dx \<times> pool \<times> 's \<times> mem) option" where
  "LevelingControl sync hdr inlen outlen sp x p w =
     (if sp_op sp = SCSIOP_MODE_SENSE
      then if \<not> sense_accepted outlen sp then Some (STATUS_NOT_SUPPORTED, None, sp, x, p, w)
        else Some (STATUS_SUCCESS, Some (wrap32 (sp_DataBufferOffset sp + MODE_BYTES)),
                   control_answer (GetLevelingConfig x) sp, x, p, w)
      else if sp_op sp = SCSIOP_MODE_SELECT
      then if \<not> select_accepted inlen sp then Some (STATUS_NOT_SUPPORTED, None, sp, x, p, w)
        else map_option
          (\<lambda>(ok, x', p', w').
             (if ok then STATUS_SUCCESS else STATUS_UNSUCCESSFUL, Some hdr,
              control_answer (sp_ModeBuffer sp) sp, x', p', w'))
          (SetLevelingConfig sync (mode_of (sp_ModeBuffer sp)) x p w)
      else Some (STATUS_NOT_SUPPORTED, None, sp, x, p, w))"

end
