(* ===== verification/Recovery.thy ===== *)
theory Recovery
  imports Config
begin

text \<open>
  \<open>driver/recovery.c\<close>: rebuilding the tables of a context from the medium, and the thread that
  starts it.
\<close>

section \<open>The directories of all chunks\<close>

definition ctl_field :: "mem \<Rightarrow> nat \<Rightarrow> nat" where
  "ctl_field m k = unat (m 0 k)"

definition ctl_intact :: "mem \<Rightarrow> bool" where
  "ctl_intact m \<longleftrightarrow> fst (VerifyChecksum128 (map (ctl_of_mem m (\<lambda>_. 0)) [0..<CTL_WORDS])) \<and>
     ctl_field m 0 = LEVELING_VERSION"

text \<open>The test of \<open>Start\<close>, \<open>End\<close> and \<open>NextChunkNo\<close>.\<close>

definition ctl_valid :: "ctx \<Rightarrow> mem \<Rightarrow> bool" where
  "ctl_valid c m \<longleftrightarrow> ctl_field m 6 mod SIZE_OF_CACHE = 0 \<and> ctl_field m 7 mod SIZE_OF_CACHE = 0 \<and>
     ctl_field m 6 \<le> ctl_field m 7 \<and> ctl_field m 7 \<le> LAST_PURGE_POS \<and> ctl_field m 4 < MAX_CHUNKS c"

definition raise_wcn :: "nat \<Rightarrow> nat \<Rightarrow> ctx \<Rightarrow> ctx" where
  "raise_wcn ch wcn c =
     (if WCN (ChunkInfo c ch) < wcn
      then c\<lparr>ChunkInfo := (ChunkInfo c)(ch := (ChunkInfo c ch)\<lparr>WCN := wcn\<rparr>)\<rparr> else c)"

definition set_scn :: "nat \<Rightarrow> nat \<Rightarrow> ctx \<Rightarrow> ctx" where
  "set_scn ch scn c = c\<lparr>ChunkInfo := (ChunkInfo c)(ch := (ChunkInfo c ch)\<lparr>SCN := scn\<rparr>)\<rparr>"

text \<open>\<open>(MaxSCN, c)\<close> after the directory of chunk \<open>ch\<close> has been read into the cache memory.\<close>

definition take_ctl :: "nat \<Rightarrow> nat \<times> ctx \<Rightarrow> nat \<times> ctx" where
  "take_ctl ch sc =
     (let (MaxSCN, c) = sc; m = CacheMem c in
      if \<not> ctl_intact m then (MaxSCN, c)
      else let c1 = raise_wcn ch (ctl_field m 3) c in
      if ctl_field m 1 \<noteq> CCN c1 then (MaxSCN, c1)
      else if \<not> ctl_valid c1 m then (MaxSCN, c1)
      else let c2 = set_scn ch (ctl_field m 2) c1;
               start = ctl_field m 6;
               c3 = UpdateMap c2 (\<lambda>k. ctl_LBA (ctl_of_mem m (\<lambda>_. 0)) (start div 8 + k)) (ctl_field m 7 - start)
                      (phys ch start)
        in if MaxSCN \<le> ctl_field m 2
           then (ctl_field m 2, c3\<lparr>ChunkNo := ch, ChunkCtl := ctl_of_mem m (ChunkCtl c3)\<rparr>)
           else (MaxSCN, c3))"

text \<open>\<open>False\<close>: a transfer has failed.\<close>

fun read_ctls :: "'s sync \<Rightarrow> nat \<Rightarrow> nat \<Rightarrow> 's \<Rightarrow> nat \<times> ctx \<Rightarrow> bool \<times> 's \<times> nat \<times> ctx" where
  "read_ctls sync ch 0 s sc = (True, s, sc)"
| "read_ctls sync ch (Suc k) s sc =
     (let (ok, s', m) = sync OpRead 0 (phys ch LAST_PURGE_POS) SIZE_OF_CTL (s, CacheMem (snd sc));
          sc' = (fst sc, (snd sc)\<lparr>CacheMem := m\<rparr>) in
      if \<not> ok then (False, s', sc') else read_ctls sync (ch + 1) k s' (take_ctl ch sc'))"

section \<open>The current chunk\<close>

definition start_chunk :: "ctx \<Rightarrow> ctx" where
  "start_chunk c =
     (let endpos = unat (ChunkCtl c 7); c1 = c\<lparr>CachePos := 0, PurgePos := endpos, FinalizedPos := endpos\<rparr> in
      if endpos = LAST_PURGE_POS
      then let next = unat (ChunkCtl c 4); c2 = raise_wcn next (unat (ChunkCtl c 5)) c1;
               c3 = set_scn next (wrap32 (SCN (ChunkInfo c2 (ChunkNo c2)) + 1)) c2; pos = chunk_start next
        in c3\<lparr>ChunkNo := next, PurgePos := pos, FinalizedPos := pos\<rparr>
      else c1)"

section \<open>The caches written since the directory\<close>

definition purge_words :: "mem \<Rightarrow> u32 list" where
  "purge_words m = map (m 0) [0..<PURGE_WORDS]"

definition purge_current :: "ctx \<Rightarrow> mem \<Rightarrow> bool" where
  "purge_current c m \<longleftrightarrow> fst (VerifyChecksum128 (purge_words m)) \<and> unat (m 0 0) = LEVELING_VERSION \<and>
     unat (m 0 1) = CCN c \<and> unat (m 0 72) = Magic c \<and> unat (m 0 2) = SCN (ChunkInfo c (ChunkNo c)) \<and>
     unat (m 0 3) = ChunkNo c \<and> unat (m 0 4) = PurgePos c"

definition purge_entry :: "ctx \<Rightarrow> mem \<Rightarrow> nat \<Rightarrow> nat" where
  "purge_entry c m k = (let LBA = unat (m 0 (5 + k)) in if SIZE_OF_MAP c \<le> blk LBA then NOT_MAPPED else LBA)"

definition take_purge :: "ctx \<Rightarrow> ctx" where
  "take_purge c =
     (let m = CacheMem c; base = 8 + PurgePos c div 8;
          c1 = c\<lparr>ChunkCtl := (\<lambda>w. if base \<le> w \<and> w < base + SIZE_OF_CACHE div 8
                                   then of_nat (purge_entry c m (w - base)) else ChunkCtl c w)\<rparr>;
          c2 = UpdateMap c1 (\<lambda>k. unat (m 0 (5 + k))) SIZE_OF_CACHE (phys (ChunkNo c1) (PurgePos c1))
      in c2\<lparr>PurgePos := PurgePos c2 + SIZE_OF_CACHE\<rparr>)"

lemma UpdateMap_only: "\<exists>M I. UpdateMap c LBA n p = c\<lparr>Map := M, ChunkInfo := I\<rparr>"
  unfolding UpdateMap_def by (rule um_loop_form)

lemma UpdateMap_frame [simp]:
  "PurgePos (UpdateMap c LBA n p) = PurgePos c" "ChunkNo (UpdateMap c LBA n p) = ChunkNo c"
  "MAX_CHUNKS (UpdateMap c LBA n p) = MAX_CHUNKS c" "SIZE_OF_MAP (UpdateMap c LBA n p) = SIZE_OF_MAP c"
  "ChunkCtl (UpdateMap c LBA n p) = ChunkCtl c" "CacheMem (UpdateMap c LBA n p) = CacheMem c"
  "CCN (UpdateMap c LBA n p) = CCN c" "Magic (UpdateMap c LBA n p) = Magic c"
  "CachePos (UpdateMap c LBA n p) = CachePos c"
  using UpdateMap_only [of c LBA n p] by auto

lemma take_purge_pos [simp]: "PurgePos (take_purge c) = PurgePos c + SIZE_OF_CACHE"
  by (simp add: take_purge_def Let_def)

function read_purges :: "'s sync \<Rightarrow> 's \<Rightarrow> ctx \<Rightarrow> bool \<times> 's \<times> ctx" where
  "read_purges sync s c =
     (if PurgePos c < LAST_PURGE_POS
      then let (ok, s', m) = sync OpRead 0 (wrap32 (phys (ChunkNo c) (PurgePos c) + LAST_CACHE_POS)) 1 (s, CacheMem c);
               c' = c\<lparr>CacheMem := m\<rparr> in
        if \<not> ok then (False, s', c')
        else if purge_current c' m then read_purges sync s' (take_purge c') else (True, s', c')
      else (True, s, c))"
  by pat_completeness auto
termination
  by (relation "measure (\<lambda>(sync, s, c). LAST_PURGE_POS - PurgePos c)") auto

declare read_purges.simps [simp del]

section \<open>The whole recovery\<close>

definition recover_ctx :: "'s sync \<Rightarrow> 's \<Rightarrow> ctx \<Rightarrow> bool \<times> 's \<times> ctx" where
  "recover_ctx sync s c =
     (let (ok, s1, sc) = read_ctls sync 0 (MAX_CHUNKS c) s (0, c\<lparr>ChunkNo := 1\<rparr>) in
      if \<not> ok then (False, s1, snd sc)
      else let (ok2, s2, c2) = read_purges sync s1 (start_chunk (snd sc)) in
      if \<not> ok2 then (False, s2, c2) else (True, s2, FindNextChunk 0 c2))"

definition DoRecovery1 :: "'s sync \<Rightarrow> 's \<Rightarrow> dx \<Rightarrow> 's \<times> dx" where
  "DoRecovery1 sync s x =
     (case dx_Ctx x of
        None \<Rightarrow> (s, x)
      | Some (obj, c) \<Rightarrow>
          let (ok, s', c') = recover_ctx sync s c in
          (s', ChangeModeAtomic VLTL_MODE_RECOVERY (if ok then VLTL_MODE_ACTIVE else VLTL_MODE_ERROR)
                 (x\<lparr>dx_Ctx := Some (obj, c')\<rparr>)))"

end
