(* ===== verification/ConfigProps.thy ===== *)
theory ConfigProps
  imports Config
begin

text \<open>
  What the routines of \<open>driver/config.c\<close> promise: the new generation number is one that no chunk
  carries, setting the configuration returns, gives its memory back and ends in the right mode, and
  what is set is what is found on the medium afterwards.
\<close>

section \<open>A new generation number\<close>

lemma retry2_finds:
  "wrap32 (c + Suc k) \<notin> set ccns \<Longrightarrow> \<exists>ccn. retry2 ccns c = Some ccn \<and> ccn \<notin> set ccns \<and> ccn < 4294967296"
proof (induction k arbitrary: c)
  case 0
  then show ?case by (simp add: retry2.simps [of ccns c])
next
  case (Suc k)
  show ?case
  proof (cases "wrap32 (c + 1) \<in> set ccns")
    case True
    have "wrap32 (wrap32 (c + 1) + Suc k) = wrap32 (c + Suc (Suc k))"
      by (simp only: wrap32_def mod_add_left_eq) simp
    with Suc.prems have "wrap32 (wrap32 (c + 1) + Suc k) \<notin> set ccns" by simp
    from Suc.IH [OF this] True show ?thesis by (simp add: retry2.simps [of ccns c])
  qed (simp add: retry2.simps [of ccns c])
qed

lemma wrap32_inj: "wrap32 (a + k) = wrap32 (a + k') \<Longrightarrow> k < 4294967296 \<Longrightarrow> k' < 4294967296 \<Longrightarrow> k = k'"
proof (induction k k' rule: linorder_wlog)
  case (le k k')
  then have "4294967296 dvd (a + k') - (a + k)"
    by (subst mod_eq_dvd_iff_nat [symmetric]) (simp_all add: wrap32_def)
  then have "4294967296 dvd k' - k" by simp
  then have "k' - k = 0" using le(3,4) by (metis dvd_imp_le diff_le_self gr0I le_trans not_le)
  then show ?case using le(1) by simp
qed (simp add: eq_commute)

text \<open>The pigeonhole: more candidates than chunks.\<close>

lemma retry2_fresh:
  assumes "length ccns \<le> 500"
  shows "\<exists>ccn. retry2 ccns c = Some ccn \<and> ccn \<notin> set ccns \<and> ccn < 4294967296"
proof -
  let ?f = "\<lambda>k. wrap32 (c + Suc k)"
  have "inj_on ?f {..length ccns}"
  proof (rule inj_onI)
    fix k k' assume "k \<in> {..length ccns}" "k' \<in> {..length ccns}" "?f k = ?f k'"
    then show "k = k'" using wrap32_inj [of c "Suc k" "Suc k'"] assms by simp
  qed
  then have "card (?f ` {..length ccns}) = Suc (length ccns)" by (simp add: card_image)
  then have "\<not> ?f ` {..length ccns} \<subseteq> set ccns"
    using card_mono [of "set ccns" "?f ` {..length ccns}"] card_length [of ccns] by fastforce
  then obtain k where "?f k \<notin> set ccns" by blast
  then show ?thesis by (rule retry2_finds)
qed

lemma max_ccn_acc: "(c :: nat) \<in> set ccns \<or> c \<le> a \<Longrightarrow> c \<le> foldl (\<lambda>ccn c. if ccn < c then c else ccn) a ccns"
proof (induction ccns arbitrary: a)
  case (Cons x xs)
  have "c \<in> set xs \<or> c \<le> (if a < x then x else a)" using Cons.prems by auto
  from Cons.IH [OF this] show ?case by simp
qed simp

lemma max_ccn_le: "c \<in> set ccns \<Longrightarrow> c \<le> max_ccn ccns"
  by (simp add: max_ccn_def max_ccn_acc)

text \<open>As long as the numbers have not wrapped, the new one is above every other.\<close>

lemma retry2_next:
  assumes "max_ccn ccns < 4294967295"
  shows "retry2 ccns (max_ccn ccns) = Some (max_ccn ccns + 1)"
proof -
  have w: "wrap32 (max_ccn ccns + 1) = max_ccn ccns + 1" by (rule wrap32_id) (use assms in linarith)
  have "max_ccn ccns + 1 \<notin> set ccns" proof
    assume "max_ccn ccns + 1 \<in> set ccns"
    then have "max_ccn ccns + 1 \<le> max_ccn ccns" by (rule max_ccn_le)
    then show False by simp
  qed
  then show ?thesis by (subst retry2.simps) (simp only: Let_def w if_False)
qed

definition chunk_ccn :: "mem \<Rightarrow> nat \<Rightarrow> nat" where
  "chunk_ccn d i = unat (d (phys i LAST_PURGE_POS) 1)"

lemma chunk_range: "i < 500 \<Longrightarrow> n \<le> SIZE_OF_CACHE \<Longrightarrow> in_range (phys i LAST_PURGE_POS) n"
  by (simp add: in_range_def)

definition ccn_fresh :: "mem \<Rightarrow> nat \<Rightarrow> nat \<Rightarrow> bool" where
  "ccn_fresh d n ccn \<longleftrightarrow> ccn < 4294967296 \<and> (\<forall>i < n. chunk_ccn d i \<noteq> ccn)"

definition format_area :: "nat \<Rightarrow> bool" where
  "format_area q \<longleftrightarrow> q < 65 \<or> (SIZE_OF_CHUNK \<le> q \<and> q < SIZE_OF_CHUNK + SIZE_OF_CACHE) \<or>
     (SIZE_OF_CHUNK + LAST_PURGE_POS \<le> q \<and> q < SIZE_OF_CHUNK + LAST_PURGE_POS + SIZE_OF_CTL)"

definition mode_after_format :: "bool \<Rightarrow> vmode \<Rightarrow> vmode \<Rightarrow> bool" where
  "mode_after_format ok before after \<longleftrightarrow>
     (if ok then after = VLTL_MODE_COMPLETED \<and> before \<in> {VLTL_MODE_DIRECT, VLTL_MODE_ACTIVE, VLTL_MODE_ERROR}
      else after = before \<or> after = VLTL_MODE_ERROR)"

context sync_disk
begin

lemma read_ccns_medium:
  "i + k \<le> 500 \<Longrightarrow> read_ccns sync i k (s, m) = (r, s', m') \<Longrightarrow> medium s' = medium s"
proof (induction k arbitrary: i s m r)
  case (Suc k)
  obtain ok s1 m1 where x: "sync OpRead 0 (phys i LAST_PURGE_POS) 1 (s, m) = (ok, s1, m1)" by (metis prod_cases3)
  have "medium s1 = medium s" by (rule read_medium [OF chunk_range x]) (use Suc.prems in simp_all)
  then show ?case using Suc.prems Suc.IH [of "i + 1" s1 m1] x
    by (auto simp: Let_def simp del: size_defs split: if_splits prod.splits)
qed simp

lemma read_ccns_list:
  "i + k \<le> 500 \<Longrightarrow> read_ccns sync i k (s, m) = (Some ccns, s', m') \<Longrightarrow> ccns = map (chunk_ccn (medium s)) [i..<i + k]"
proof (induction k arbitrary: i s m ccns)
  case (Suc k)
  obtain ok s1 m1 where x: "sync OpRead 0 (phys i LAST_PURGE_POS) 1 (s, m) = (ok, s1, m1)" by (metis prod_cases3)
  have ok: ok using Suc.prems(2) x by (auto simp: Let_def simp del: size_defs split: if_splits)
  obtain cs where y: "read_ccns sync (i + 1) k (s1, m1) = (Some cs, s', m')" "ccns = unat (m1 0 1) # cs"
    using Suc.prems(2) x ok by (auto simp: Let_def simp del: size_defs split: prod.splits)
  have r: "in_range (phys i LAST_PURGE_POS) 1" by (rule chunk_range) (use Suc.prems in simp_all)
  note one = read_one [OF r x [unfolded eqTrueI [OF ok]]]
  have "cs = map (chunk_ccn (medium s)) [i + 1..<i + 1 + k]"
    using Suc.IH [OF _ y(1)] Suc.prems(1) one(2) by simp
  then show ?case using y(2) one(1) by (simp add: chunk_ccn_def upt_conv_Cons del: upt.simps size_defs)
qed simp

lemma GetNewCCN_spec:
  assumes "pool_ok p"
  obtains r p' s' m' where "GetNewCCN sync x p (s, m) = Some (r, p', s', m')" "medium s' = medium s"
    "live_objs p' = live_objs p" "pool_ok p'" "\<And>ccn. r = Some ccn \<Longrightarrow> ccn_fresh (medium s) (GetMaxChunks x) ccn"
proof (cases rule: alloc_cases [OF assms, where k = PoolMem, case_names fail new])
  case (fail p1)
  then show thesis by (intro that [of None p1 s m]) (simp_all add: GetNewCCN_def)
next
  case (new a p1)
  obtain r s1 m1 where x: "read_ccns sync 0 (GetMaxChunks x) (s, m) = (r, s1, m1)" by (metis prod_cases3)
  have le: "0 + GetMaxChunks x \<le> 500" using GetMaxChunks_le [of x] by simp
  have med: "medium s1 = medium s" by (rule read_ccns_medium [OF le x])
  let ?p = "dealloc PoolMem a p1"
  have p: "live_objs ?p = live_objs p" "pool_ok ?p" using new(2-4) by (simp_all add: pl.give_ok)
  show thesis
  proof (cases r)
    case None
    then show thesis using new(1) x med p by (intro that [of None ?p s1 m1]) (simp_all add: GetNewCCN_def)
  next
    case (Some ccns)
    have l: "ccns = map (chunk_ccn (medium s)) [0..<GetMaxChunks x]"
      using read_ccns_list [OF le] x Some by simp
    then have "length ccns \<le> 500" using le by simp
    from retry2_fresh [OF this] obtain ccn where
      y: "retry2 ccns (max_ccn ccns) = Some ccn" "ccn \<notin> set ccns" "ccn < 4294967296" by blast
    from y(2) have "\<forall>i < GetMaxChunks x. chunk_ccn (medium s) i \<noteq> ccn" unfolding l by auto
    with y(1,3) Some new(1) x med p show thesis
      by (intro that [of "Some ccn" ?p s1 m1]) (simp_all add: GetNewCCN_def ccn_fresh_def)
  qed
qed

section \<open>What a format touches\<close>

lemma format_chunk_out:
  assumes "format_chunk sync ccn b x (s, m) = (ok, s', m')"
  shows "\<not> format_area q \<Longrightarrow> medium s' q = medium s q"
proof -
  assume q: "\<not> format_area q"
  let ?P = "SIZE_OF_CHUNK + LAST_PURGE_POS"
  have r: "in_range ?P SIZE_OF_CTL" by (simp add: in_range_def)
  obtain ok1 s1 m1 where x: "sync OpRead 0 ?P SIZE_OF_CTL (s, m) = (ok1, s1, m1)" by (metis prod_cases3)
  have "medium s1 = medium s" by (rule read_medium [OF r x])
  moreover have "medium s' q = medium s1 q" if "sync OpWrite 0 ?P SIZE_OF_CTL (s1, m2) = (ok, s', m')" for m2
    by (rule write_out [OF r that]) (use q in \<open>auto simp: format_area_def\<close>)
  ultimately show ?thesis using assms x
    by (auto simp: format_chunk_def Let_def simp del: size_defs split: if_splits)
qed

lemma format_cache_out:
  assumes "format_cache sync ccn b x (s, m) = (ok, s', m')"
  shows "\<not> format_area q \<Longrightarrow> medium s' q = medium s q"
proof -
  assume q: "\<not> format_area q"
  have r: "in_range SIZE_OF_CHUNK SIZE_OF_CACHE" by (simp add: in_range_def)
  have "medium s' q = medium s q" if "sync OpWrite 0 SIZE_OF_CHUNK SIZE_OF_CACHE (s, m2) = (ok, s', m')" for m2
    by (rule write_out [OF r that]) (use q in \<open>auto simp: format_area_def\<close>)
  then show ?thesis using assms by (auto simp: format_cache_def simp del: size_defs split: if_splits)
qed

lemma format_medium_out:
  assumes "format_medium sync ccn b x (s, m) = (ok, s', m')" "\<not> format_area q"
  shows "medium s' q = medium s q"
proof -
  obtain ok1 s1 m1 where 1: "format_chunk sync ccn b x (s, m) = (ok1, s1, m1)" by (metis prod_cases3)
  obtain ok2 s2 m2 where 2: "format_cache sync ccn b x (s1, m1) = (ok2, s2, m2)" by (metis prod_cases3)
  have 3: "medium s' q = medium s2 q" if "sync OpWrite 0 0 65 (s2, m3) = (ok, s', m')" for m3
    by (rule write_out [OF _ that]) (use assms(2) in \<open>auto simp: format_area_def in_range_def\<close>)
  show ?thesis
    using assms(1) 1 2 3 format_chunk_out [OF 1 assms(2)] format_cache_out [OF 2 assms(2)]
    by (auto simp: format_medium_def Let_def split: if_splits)
qed

lemma do_format_spec:
  assumes p: "pool_ok p"
  obtains ok x' p' s' m' where "do_format sync b x p (s, m) = Some (ok, x', p', s', m')"
    "live_objs p' = live_objs p" "pool_ok p'" "mode_after_format ok (dx_Mode x) (dx_Mode x')"
    "\<And>q. \<not> format_area q \<Longrightarrow> medium s' q = medium s q"
proof -
  obtain r p1 s1 m1 where g: "GetNewCCN sync x p (s, m) = Some (r, p1, s1, m1)" "medium s1 = medium s"
    "live_objs p1 = live_objs p" "pool_ok p1" using GetNewCCN_spec [OF p, of x s m] by metis
  show thesis
  proof (cases r)
    case None
    then show thesis using g by (intro that [of False x p1 s1 m1]) (simp_all add: do_format_def mode_after_format_def)
  next
    case (Some ccn)
    obtain started x1 where f: "SetFormatMode x = (started, x1)" by fastforce
    show thesis
    proof (cases started)
      case False
      then have "x1 = x" using f by (auto simp: SetFormatMode_def split: vmode.splits)
      then show thesis using g f Some False
        by (intro that [of False x p1 s1 m1]) (simp_all add: do_format_def mode_after_format_def)
    next
      case True
      then have m: "dx_Mode x1 = VLTL_MODE_FORMAT" "dx_Mode x \<in> {VLTL_MODE_DIRECT, VLTL_MODE_ACTIVE, VLTL_MODE_ERROR}"
        using f by (auto simp: SetFormatMode_def split: vmode.splits)
      obtain ok s2 m2 where fm: "format_medium sync ccn b x1 (s1, m1) = (ok, s2, m2)" by (metis prod_cases3)
      let ?x' = "ChangeModeAtomic VLTL_MODE_FORMAT (if ok then VLTL_MODE_COMPLETED else VLTL_MODE_ERROR) x1"
      have "do_format sync b x p (s, m) = Some (ok, ?x', p1, s2, m2)"
        using g f Some True fm by (simp add: do_format_def)
      then show thesis using m g format_medium_out [OF fm]
        by (intro that [of ok ?x' p1 s2 m2]) (simp_all add: mode_after_format_def)
    qed
  qed
qed

lemma do_config_frame:
  assumes "do_config sync b x (s, m) = (ok, x', s', m')"
  shows "dx_Mode x' = dx_Mode x" "q \<noteq> 0 \<Longrightarrow> medium s' q = medium s q"
proof -
  have r: "in_range 0 1" by (simp add: in_range_def)
  obtain ok1 s1 m1 where x: "sync OpRead 0 0 1 (s, m) = (ok1, s1, m1)" by (metis prod_cases3)
  have med: "medium s1 = medium s" by (rule read_medium [OF r x])
  show "dx_Mode x' = dx_Mode x" using assms x
    by (auto simp: do_config_def Let_def split: if_splits option.splits prod.splits)
  assume q: "q \<noteq> 0"
  have "medium s' q = medium s1 q" if "sync OpWrite 0 0 1 (s1, m2) = (ok, s', m')" for m2
    by (rule write_out [OF r that]) (use q in simp)
  then show "medium s' q = medium s q" using assms x med
    by (auto simp: do_config_def Let_def split: if_splits option.splits prod.splits)
qed

lemma SetLevelingConfig_spec:
  assumes p: "pool_ok p"
  obtains ok x' p' s' m' where "SetLevelingConfig sync b x p (s, m) = Some (ok, x', p', s', m')"
    "live_objs p' = live_objs p"
    "if unat (mb_Mode b) = mode_num VLTL_MODE_FORMAT then mode_after_format ok (dx_Mode x) (dx_Mode x') \<or> (\<not> ok \<and> dx_Mode x' = dx_Mode x)
     else dx_Mode x' = dx_Mode x"
    "\<And>q. \<not> format_area q \<Longrightarrow> medium s' q = medium s q"
proof (cases "mb_Version b \<noteq> 1 \<or> mb_Revision b \<noteq> 1")
  case True
  then show thesis by (intro that [of False x p s m]) (simp_all add: SetLevelingConfig_def)
next
  case v: False
  obtain ro p1 where c: "CreateRequest (dx_MaximumTransferLength x) (SIZE_OF_CACHE * 512) p = (ro, p1)" by fastforce
  note cc = CreateRequest_objs [OF p c]
  show thesis
  proof (cases ro)
    case None
    then show thesis using v c cc by (intro that [of False x p1 s m]) (simp_all add: SetLevelingConfig_def req_objs_def)
  next
    case (Some r)
    have fr: "live_objs (FreeRequest (Some r) p2) = live_objs p" if "live_objs p2 = live_objs p1" for p2
      using cc that by (auto simp: Some)
    show thesis
    proof (cases "unat (mb_Mode b) = mode_num VLTL_MODE_CONFIG")
      case True
      obtain ok x' s' m' where d: "do_config sync b x (s, m) = (ok, x', s', m')" by (metis prod_cases4)
      have "q \<noteq> 0" if "\<not> format_area q" for q using that by (auto simp: format_area_def)
      then show thesis using v c Some True d fr [of p1] do_config_frame [OF d]
        by (intro that [of ok x' "FreeRequest (Some r) p1" s' m']) (simp_all add: SetLevelingConfig_def)
    next
      case nc: False
      show thesis
      proof (cases "unat (mb_Mode b) = mode_num VLTL_MODE_FORMAT")
        case False
        then show thesis using v c Some nc fr [of p1]
          by (intro that [of False x "FreeRequest (Some r) p1" s m]) (simp_all add: SetLevelingConfig_def)
      next
        case True
        obtain ok x' p' s' m' where d: "do_format sync b x p1 (s, m) = Some (ok, x', p', s', m')"
          "live_objs p' = live_objs p1" "mode_after_format ok (dx_Mode x) (dx_Mode x')"
          "\<And>q. \<not> format_area q \<Longrightarrow> medium s' q = medium s q"
          using do_format_spec [of p1 b x s m] cc by metis
        then show thesis using v c Some True fr [of p']
          by (intro that [of ok x' "FreeRequest (Some r) p'" s' m']) (simp_all add: SetLevelingConfig_def)
      qed
    qed
  qed
qed

lemma do_config_medium:
  assumes "do_config sync b x (s, m) = (True, x', s', m')"
  obtains obj c where "dx_Ctx x = Some (obj, c)" "x' = x\<lparr>dx_Ctx := Some (obj, ctx_with b c)\<rparr>"
    "fst (VerifyChecksum128 (conf_words (medium s 0)))"
    "medium s' = (medium s)(0 := put_words (ProduceChecksum128 (conf_with b (conf_words (medium s 0)))) (medium s 0))"
proof -
  have r: "in_range 0 1" by (simp add: in_range_def)
  obtain ok1 s1 m1 where x: "sync OpRead 0 0 1 (s, m) = (ok1, s1, m1)" by (metis prod_cases3)
  have ok1: "ok1" using assms x by (cases ok1) (auto simp: do_config_def)
  have med: "m1 0 = medium s 0" "medium s1 = medium s" using read_one [OF r] x ok1 by auto
  have v: "fst (VerifyChecksum128 (conf_words (medium s 0)))"
    using assms x ok1 med by (cases "fst (VerifyChecksum128 (conf_words (medium s 0)))") (auto simp: do_config_def)
  obtain obj c where c: "dx_Ctx x = Some (obj, c)"
    using assms x ok1 med v by (cases "dx_Ctx x") (auto simp: do_config_def)
  let ?m = "m1(0 := put_words (ProduceChecksum128 (conf_with b (conf_words (medium s 0)))) (medium s 0))"
  have w: "sync OpWrite 0 0 1 (s1, ?m) = (True, s', m')" "x' = x\<lparr>dx_Ctx := Some (obj, ctx_with b c)\<rparr>"
    using assms x ok1 med v c by (auto simp: do_config_def Let_def split: prod.splits)
  have "medium s' = copy_sectors (medium s1) 0 ?m 0 1" by (rule write_ok [OF r w(1)])
  also have "\<dots> = (medium s)(0 := ?m 0)" unfolding med(2) by (auto simp: copy_sectors_def)
  finally show thesis using that [OF c w(2) v] by simp
qed

end

lemma conf_words_put [simp]: "length ws = CONF_WORDS \<Longrightarrow> conf_words (put_words ws s) = ws"
  by (rule nth_equalityI) (simp_all add: conf_words_def put_words_def CONF_WORDS_def)

lemma length_conf_words [simp]: "length (conf_words s) = CONF_WORDS"
  by (simp add: conf_words_def)

lemma length_conf_with [simp]: "length (conf_with b ws) = length ws"
  by (simp add: conf_with_def)

text \<open>The fields of a sealed configuration block are the ones it had before the seal.\<close>

lemma sealed_field:
  assumes "length ws = CONF_WORDS" "k < 8"
  shows "put_words (ProduceChecksum128 ws) s k = ws ! k"
proof -
  have l: "length ws = 12" using assms(1) by (simp add: CONF_WORDS_def)
  then have "take 8 (ProduceChecksum128 ws) = take 8 ws" using Produce_body [of ws] by simp
  then have "ProduceChecksum128 ws ! k = ws ! k" using assms(2) by (metis nth_take)
  then show ?thesis using l assms(2) by (simp add: put_words_def)
qed

definition conf_changed :: "ctx \<Rightarrow> conf \<Rightarrow> conf" where
  "conf_changed c f = f\<lparr>cf_WEIGHT_LIFE := WEIGHT_LIFE c, cf_WEIGHT_SPEED := WEIGHT_SPEED c,
     cf_CacheTimeout := CacheTimeout c, cf_FlushFaithfully := FlushFaithfully c\<rparr>"

lemma conf_of_changed:
  "conf_of (put_words (ProduceChecksum128 (conf_with b (conf_words s))) s) = conf_changed (ctx_with b c) (conf_of s)"
  by (simp add: conf_of_def sealed_field conf_changed_def ctx_with_def conf_with_def conf_words_def CONF_WORDS_def)
    (simp add: numeral_2_eq_2)

section \<open>An ideal disk\<close>

text \<open>The device the witnesses run on: every transfer succeeds.\<close>

definition ideal_sync :: "mem sync" where
  "ideal_sync op pos P n w =
     (case op of
        OpRead \<Rightarrow> (True, fst w, copy_sectors (snd w) pos (fst w) P n)
      | OpWrite \<Rightarrow> (True, copy_sectors (fst w) P (snd w) pos n, snd w))"

interpretation idl: sync_disk ideal_sync "\<lambda>d. d"
  by unfold_locales (auto simp: ideal_sync_def copy_sectors_def)

definition full_pool :: pool where
  "full_pool = \<lparr>p_live = [], p_next = 0, p_fails = (\<lambda>_. False)\<rparr>"

definition cfg_dx :: "vmode \<Rightarrow> (ctxobj \<times> ctx) option \<Rightarrow> dx" where
  "cfg_dx m c = \<lparr>dx_IsControlDevice = False, dx_IsAnotherDevice = False, dx_AllowAlways = True,
     dx_TobeRemovable = False, dx_TobeFixed = False, dx_Mode = m, dx_RemovableMedia = False,
     dx_LevelingCapable = True, dx_MaximumTransferLength = 65536, dx_LastLBA = 10 * SIZE_OF_CHUNK - 1,
     dx_TURErrors = 0, dx_Ctx = c\<rparr>"

definition demo_mode :: "u8 \<Rightarrow> mode_buffer" where
  "demo_mode m = (mode_head (cfg_dx VLTL_MODE_DIRECT None))
     \<lparr>mb_Mode := m, mb_CacheTimeout := 5, mb_SIZE_OF_MAP := 16, mb_WEIGHT_LIFE := 7, mb_WEIGHT_SPEED := 8, mb_Magic := 9\<rparr>"

section \<open>Properties\<close>

text \<open>
  C16. The search for a new generation number ends, and the number it finds is carried by no chunk: with
  at most 500 chunks there is always a free one among the next 501, wrapped around or not. The
  device and its medium are as before and the table of the numbers is given back.
\<close>

theorem new_ccn_fresh:
  assumes "sync_disk sync medium" "pool_ok p"
  shows "\<exists>r p' s' m'. GetNewCCN sync x p (s, m) = Some (r, p', s', m') \<and> medium s' = medium s \<and>
    live_objs p' = live_objs p \<and> (\<forall>ccn. r = Some ccn \<longrightarrow> ccn_fresh (medium s) (GetMaxChunks x) ccn)"
  using sync_disk.GetNewCCN_spec [OF assms, of x s m] by metis

theorem new_ccn_fresh_witness:
  "\<exists>r p' s' m'. GetNewCCN flaky_sync (cfg_dx VLTL_MODE_DIRECT None) full_pool (demo_disk, \<lambda>_. zero_sector) = Some (r, p', s', m') \<and>
    fl_medium s' = fl_medium demo_disk \<and> live_objs p' = live_objs full_pool \<and>
    (\<forall>ccn. r = Some ccn \<longrightarrow> ccn_fresh (fl_medium demo_disk) (GetMaxChunks (cfg_dx VLTL_MODE_DIRECT None)) ccn)"
  by (rule new_ccn_fresh [OF fl.sync_disk_axioms]) (simp add: full_pool_def pool_ok_def)

text \<open>
  C14. Setting the configuration returns whatever transfers and allocations fail, and gives all memory
  back. A format that succeeds leaves the device completed, one that fails leaves the mode as it was
  or the device in error; every other request leaves the mode alone. No sector is touched but the
  boot area, the first cache and the directory of chunk 1.
\<close>

theorem set_config_outcome:
  assumes "sync_disk sync medium" "pool_ok p"
  shows "\<exists>ok x' p' s' m'. SetLevelingConfig sync b x p (s, m) = Some (ok, x', p', s', m') \<and>
    live_objs p' = live_objs p \<and>
    (if unat (mb_Mode b) = mode_num VLTL_MODE_FORMAT
     then mode_after_format ok (dx_Mode x) (dx_Mode x') else dx_Mode x' = dx_Mode x) \<and>
    (\<forall>q. \<not> format_area q \<longrightarrow> medium s' q = medium s q)"
  by (rule sync_disk.SetLevelingConfig_spec [OF assms, of b x s m]) (auto simp: mode_after_format_def split: if_splits)

theorem set_config_outcome_witness:
  "\<exists>ok x' p' s' m'. SetLevelingConfig flaky_sync (demo_mode 4) (cfg_dx VLTL_MODE_DIRECT None) full_pool (demo_disk, \<lambda>_. zero_sector) =
      Some (ok, x', p', s', m') \<and> live_objs p' = {} \<and> (ok \<longrightarrow> dx_Mode x' = VLTL_MODE_COMPLETED) \<and>
    fl_medium s' (3 * SIZE_OF_CHUNK) = fl_medium demo_disk (3 * SIZE_OF_CHUNK)"
proof -
  have p: "pool_ok full_pool" "live_objs full_pool = {}" by (simp_all add: full_pool_def pool_ok_def live_objs_def)
  have "unat (mb_Mode (demo_mode 4)) = mode_num VLTL_MODE_FORMAT" "\<not> format_area (3 * SIZE_OF_CHUNK)"
    by (simp_all add: demo_mode_def format_area_def)
  then show ?thesis
    using set_config_outcome [OF fl.sync_disk_axioms p(1), of "demo_mode 4" "cfg_dx VLTL_MODE_DIRECT None" demo_disk "\<lambda>_. zero_sector"] p(2)
    unfolding mode_after_format_def by (metis (no_types, lifting))
qed

text \<open>
  C15. What a change of the configuration sets is what the context works with, what the device reports
  afterwards, and what the next start of the device reads from the medium: the block there is
  accepted and differs from the old one in these four fields only; no other sector changes.
\<close>

theorem config_durable:
  assumes "sync_disk sync medium" "unat (mb_Mode b) = mode_num VLTL_MODE_CONFIG"
    and "SetLevelingConfig sync b x p (s, m) = Some (True, x', p', s', m')"
  shows "\<exists>obj c. dx_Ctx x = Some (obj, c) \<and> x' = x\<lparr>dx_Ctx := Some (obj, ctx_with b c)\<rparr> \<and>
    fst (VerifyChecksum128 (conf_words (medium s' 0))) \<and>
    conf_of (medium s' 0) = conf_changed (ctx_with b c) (conf_of (medium s 0)) \<and>
    mb_WEIGHT_LIFE (leveling_mode x') = mb_WEIGHT_LIFE b \<and> mb_WEIGHT_SPEED (leveling_mode x') = mb_WEIGHT_SPEED b \<and>
    mb_CacheTimeout (leveling_mode x') = mb_CacheTimeout b \<and>
    (\<forall>q > 0. medium s' q = medium s q) \<and> (\<forall>w \<ge> CONF_WORDS. medium s' 0 w = medium s 0 w)"
proof -
  have "do_config sync b x (s, m) = (True, x', s', m')"
    using assms(2,3) by (auto simp: SetLevelingConfig_def split: if_splits option.splits prod.splits)
  from sync_disk.do_config_medium [OF assms(1) this] obtain obj c where
    c: "dx_Ctx x = Some (obj, c)" "x' = x\<lparr>dx_Ctx := Some (obj, ctx_with b c)\<rparr>"
    and d: "medium s' = (medium s)(0 := put_words (ProduceChecksum128 (conf_with b (conf_words (medium s 0)))) (medium s 0))" .
  have l: "4 \<le> length (conf_with b (conf_words (medium s 0)))" by (simp add: CONF_WORDS_def)
  then have "fst (VerifyChecksum128 (conf_words (medium s' 0)))"
    unfolding d by (simp add: ck.check_seal)
  moreover have "conf_of (medium s' 0) = conf_changed (ctx_with b c) (conf_of (medium s 0))"
    unfolding d by (simp add: conf_of_changed)
  moreover have "\<forall>w \<ge> CONF_WORDS. medium s' 0 w = medium s 0 w" unfolding d
    by (auto simp: put_words_def length_Produce [OF l])
  ultimately show ?thesis using c d by (auto simp: leveling_mode_def ctx_with_def)
qed

definition conf_sector :: sector where
  "conf_sector = put_words (ProduceChecksum128 (1000 # replicate 11 1)) zero_sector"

lemma CreateRequest_full: "\<exists>r p'. CreateRequest mtl n full_pool = (Some r, p')"
  by (simp add: CreateRequest_def full_pool_def alloc_def Let_def)

lemma demo_config:
  "\<exists>x' p' s' m'. SetLevelingConfig ideal_sync (demo_mode 7) (cfg_dx VLTL_MODE_ACTIVE (Some (demo_obj, zero_ctx))) full_pool
     ((\<lambda>_. zero_sector)(0 := conf_sector), \<lambda>_. zero_sector) = Some (True, x', p', s', m')"
proof -
  let ?d = "(\<lambda>_. zero_sector)(0 := conf_sector)"
  have v: "fst (VerifyChecksum128 (conf_words conf_sector))"
    unfolding conf_sector_def by (subst conf_words_put) (simp_all add: CONF_WORDS_def ck.check_seal)
  have h: "mb_Version (demo_mode 7) = 1" "mb_Revision (demo_mode 7) = 1" "unat (mb_Mode (demo_mode 7)) = mode_num VLTL_MODE_CONFIG"
    by (simp_all add: demo_mode_def mode_head_def)
  obtain r p' where c: "CreateRequest 65536 (SIZE_OF_CACHE * 512) full_pool = (Some r, p')"
    using CreateRequest_full by blast
  have "\<exists>x' w'. do_config ideal_sync (demo_mode 7) (cfg_dx VLTL_MODE_ACTIVE (Some (demo_obj, zero_ctx))) (?d, \<lambda>_. zero_sector) = (True, x', w')"
    by (simp add: do_config_def ideal_sync_def copy_sectors_def v cfg_dx_def Let_def)
  then show ?thesis using h c by (auto simp: SetLevelingConfig_def cfg_dx_def)
qed

theorem config_durable_witness:
  "\<exists>x' p' s' m'. SetLevelingConfig ideal_sync (demo_mode 7) (cfg_dx VLTL_MODE_ACTIVE (Some (demo_obj, zero_ctx))) full_pool
     ((\<lambda>_. zero_sector)(0 := conf_sector), \<lambda>_. zero_sector) = Some (True, x', p', s', m') \<and>
   cf_WEIGHT_LIFE (conf_of (s' 0)) = 7 \<and> mb_WEIGHT_LIFE (leveling_mode x') = 7"
proof -
  have m: "unat (mb_Mode (demo_mode 7)) = mode_num VLTL_MODE_CONFIG" by (simp add: demo_mode_def)
  from demo_config obtain x' p' s' m' where
    e: "SetLevelingConfig ideal_sync (demo_mode 7) (cfg_dx VLTL_MODE_ACTIVE (Some (demo_obj, zero_ctx))) full_pool
     ((\<lambda>_. zero_sector)(0 := conf_sector), \<lambda>_. zero_sector) = Some (True, x', p', s', m')" by blast
  from config_durable [OF idl.sync_disk_axioms m e] show ?thesis using e
    by (auto simp: conf_changed_def ctx_with_def demo_mode_def)
qed

section \<open>The control requests\<close>

lemma GetLevelingConfig_words: "\<exists>xs. length xs = 4 \<and> GetLevelingConfig x = mode_words (leveling_mode x) @ xs"
  by (simp add: GetLevelingConfig_def Produce_eq set_tail_def)

lemma GetLevelingConfig_verifies: "fst (VerifyChecksum128 (GetLevelingConfig x))"
  unfolding GetLevelingConfig_def by (rule ck.check_seal) simp

lemma leveling_mode_head:
  "mb_BlockDescriptorLength (leveling_mode x) = 0" "mb_PageCode (leveling_mode x) = 40"
  "mb_Mode (leveling_mode x) = of_nat (mode_num (dx_Mode x))"
  "mb_Version (leveling_mode x) = 1" "mb_Revision (leveling_mode x) = 1"
  by (auto simp: leveling_mode_def mode_head_def Let_def split: option.splits)

text \<open>
  C17. What the control program reads with \<open>MODE_SENSE\<close> it may send back with \<open>MODE_SELECT\<close>: the block
  passes every check of the selection, carries the version the driver insists on and decodes to the
  state of the device. Reporting changes nothing.
\<close>

theorem sense_then_select:
  assumes "LevelingControl sync hdr inlen outlen sp x p w = Some (STATUS_SUCCESS, Some info, sp', x', p', w')"
    and "sp_op sp = SCSIOP_MODE_SENSE" "data_end sp \<le> inlen'"
  shows "x' = x \<and> p' = p \<and> w' = w \<and> outlen = info \<and>
    select_accepted inlen' (sp'\<lparr>sp_op := SCSIOP_MODE_SELECT\<rparr>) \<and>
    mode_of (sp_ModeBuffer sp') = leveling_mode x \<and>
    mb_Version (leveling_mode x) = 1 \<and> mb_Revision (leveling_mode x) = 1"
proof -
  obtain xs where g: "length xs = 4" "GetLevelingConfig x = mode_words (leveling_mode x) @ xs"
    using GetLevelingConfig_words by blast
  have sp': "sp' = control_answer (GetLevelingConfig x) sp" "sense_accepted outlen sp" "x' = x" "p' = p" "w' = w"
    "info = wrap32 (sp_DataBufferOffset sp + MODE_BYTES)"
    using assms(1,2) by (auto simp: LevelingControl_def split: if_splits)
  then have "data_end sp' = data_end sp" "sp_DataTransferLength sp' = MODE_BYTES" "sp_ModeBuffer sp' = GetLevelingConfig x"
    "outlen = info"
    by (auto simp: control_answer_def data_end_def sense_accepted_def)
  then show ?thesis using assms(3) sp' g GetLevelingConfig_verifies [of x]
    by (auto simp: select_accepted_def leveling_mode_head data_end_def)
qed

definition demo_sense :: spt where
  "demo_sense = \<lparr>sp_op = SCSIOP_MODE_SENSE, sp_Cdb = (\<lambda>i. [0, 8, 40, 41] ! i), sp_DataTransferLength = MODE_BYTES,
     sp_DataBufferOffset = 80, sp_ScsiStatus = SCSISTAT_CHECK_CONDITION, sp_SenseInfoLength = 24,
     sp_ModeBuffer = replicate 13 0\<rparr>"

theorem sense_then_select_witness:
  "\<exists>sp'. LevelingControl ideal_sync 56 132 132 demo_sense (cfg_dx VLTL_MODE_DIRECT None) full_pool (\<lambda>_. zero_sector, \<lambda>_. zero_sector) =
      Some (STATUS_SUCCESS, Some 132, sp', cfg_dx VLTL_MODE_DIRECT None, full_pool, (\<lambda>_. zero_sector, \<lambda>_. zero_sector)) \<and>
    select_accepted 132 (sp'\<lparr>sp_op := SCSIOP_MODE_SELECT\<rparr>)"
proof -
  let ?x = "cfg_dx VLTL_MODE_DIRECT None" and ?w = "(\<lambda>_. zero_sector, \<lambda>_. zero_sector) :: mem \<times> mem"
  have a: "sense_accepted 132 demo_sense" "data_end demo_sense \<le> 132"
    by (simp_all add: sense_accepted_def demo_sense_def data_end_def MODE_BYTES_def)
  then have "LevelingControl ideal_sync 56 132 132 demo_sense ?x full_pool ?w =
      Some (STATUS_SUCCESS, Some 132, control_answer (GetLevelingConfig ?x) demo_sense, ?x, full_pool, ?w)"
    by (simp add: LevelingControl_def) (simp add: demo_sense_def MODE_BYTES_def)
  from this sense_then_select [OF this _ a(2)] show ?thesis by (auto simp: demo_sense_def)
qed

text \<open>
  Neither request checks that the data lie in the buffer of the caller when the offset is so large
  that offset and length wrap around: both accept a request of length 0, and \<open>MODE_SENSE\<close> stores its
  answer 4 GB behind the buffer (or before it, on a machine of 32 bits). Below that the end of the
  data is inside.
\<close>

theorem control_offset_wraps:
  "\<exists>sp. sp_DataBufferOffset sp = 4294967296 - MODE_BYTES \<and> sense_accepted 0 sp \<and> select_accepted 0 sp"
  by (rule exI [of _ "demo_sense\<lparr>sp_DataBufferOffset := 4294967296 - MODE_BYTES,
         sp_ModeBuffer := GetLevelingConfig (cfg_dx VLTL_MODE_DIRECT None)\<rparr>"])
     (use GetLevelingConfig_words [of "cfg_dx VLTL_MODE_DIRECT None"] GetLevelingConfig_verifies
       in \<open>auto simp: sense_accepted_def select_accepted_def demo_sense_def data_end_def MODE_BYTES_def wrap32_def leveling_mode_head\<close>)

end
