(* ===== verification/RecoveryProps.thy ===== *)
theory RecoveryProps
  imports Recovery ConfigProps
begin

text \<open>
  What a recovery makes of a medium: whatever is found there the tables are consistent, and from a
  medium that has been formatted the tables describe the formatted device. Together with
  \<open>write_request_correct\<close> this closes the circle: the state a device starts from is one the
  handlers keep.
\<close>

section \<open>Every step keeps the tables consistent\<close>

definition good_place :: "nat \<Rightarrow> nat \<Rightarrow> bool" where
  "good_place n p \<longleftrightarrow> off8 p = 0 \<and> p div SIZE_OF_CHUNK < n \<and> p mod SIZE_OF_CHUNK < LAST_PURGE_POS"

definition places_ok :: "ctx \<Rightarrow> bool" where
  "places_ok c \<longleftrightarrow> (\<forall>j. Map c j \<noteq> NOT_MAPPED \<longrightarrow> good_place (MAX_CHUNKS c) (Map c j))"

lemma um_step_places:
  "places_ok c \<Longrightarrow> good_place (MAX_CHUNKS c) p \<Longrightarrow> places_ok (um_step j ch p c)"
  by (auto simp: places_ok_def um_step_def Let_def simp del: size_defs)

lemma um_loop_places:
  "places_ok c \<Longrightarrow> p + (n - i) < 4294967296 \<Longrightarrow> (i < n \<longrightarrow> (n - i) mod 8 = 0) \<Longrightarrow>
   (\<forall>k. i + 8 * k < n \<longrightarrow> good_place (MAX_CHUNKS c) (p + 8 * k)) \<Longrightarrow> places_ok (um_loop L n ch p i c)"
proof (induction L n ch p i c rule: um_loop.induct)
  case (1 L n ch p i c)
  show ?case
  proof (cases "i < n")
    case False
    with "1.prems" show ?thesis by (simp add: um_loop.simps [of _ _ _ _ i])
  next
    case True
    have m: "(n - (i + 8)) mod 8 = 0" "8 \<le> n - i" using True "1.prems"(3) by presburger+
    have g: "good_place (MAX_CHUNKS c) (p + 8 * k)" if "i + 8 * k < n" for k using "1.prems"(4) that by blast
    have "good_place (MAX_CHUNKS c) p" using g [of 0] True by simp
    moreover have "good_place (MAX_CHUNKS c) (p + 8 + 8 * k)" if "i + 8 + 8 * k < n" for k
      using g [of "Suc k"] that by (simp add: algebra_simps)
    ultimately show ?thesis
      using "1.IH" [OF True] um_step_places "1.prems"(1,2) m
      by (simp add: um_loop.simps [of _ _ _ _ i] True del: size_defs)
  qed
qed

lemma good_place_phys:
  assumes "ch < n" "n \<le> 500" "pos mod 8 = 0" "pos < LAST_PURGE_POS"
  shows "good_place n (ch * SIZE_OF_CHUNK + pos)"
  using assms by (auto simp: good_place_def off8_def mod_simps)

text \<open>\<open>geo\<close> collects what the recovery never changes.\<close>

definition tables_ok :: "ctx \<Rightarrow> bool" where
  "tables_ok c \<longleftrightarrow> used_ok c \<and> places_ok c \<and> ChunkNo c < MAX_CHUNKS c \<and> 2 \<le> MAX_CHUNKS c \<and> MAX_CHUNKS c \<le> 500 \<and>
     SIZE_OF_MAP c < 4294967296"

lemma places_in_range: "places_ok c \<Longrightarrow> map_in_range c"
  by (simp add: places_ok_def map_in_range_def good_place_def)

lemma tables_ok_cong:
  "Map c' = Map c \<Longrightarrow> (\<And>k. Used (ChunkInfo c' k) = Used (ChunkInfo c k)) \<Longrightarrow> MAX_CHUNKS c' = MAX_CHUNKS c \<Longrightarrow>
   SIZE_OF_MAP c' = SIZE_OF_MAP c \<Longrightarrow> ChunkNo c' < MAX_CHUNKS c \<Longrightarrow> tables_ok c \<Longrightarrow> tables_ok c'"
  by (simp add: tables_ok_def used_ok_def used_set_def places_ok_def)

lemma UpdateMap_tables:
  assumes c: "tables_ok c" and ch: "ch < MAX_CHUNKS c" and n: "n mod 8 = 0" "pos mod 8 = 0" "pos + n \<le> LAST_PURGE_POS"
  shows "tables_ok (UpdateMap c L n (phys ch pos))"
proof -
  have le: "MAX_CHUNKS c \<le> 500" "pos < SIZE_OF_CHUNK" using c n by (simp_all add: tables_ok_def)
  then have p: "phys ch pos = ch * SIZE_OF_CHUNK + pos" using ch by (intro phys_eq) simp_all
  then have d: "phys ch pos div SIZE_OF_CHUNK = ch" using le by (simp only: chunk_of_phys)
  have "used_ok (um_loop L n ch (phys ch pos) 0 c)"
    using um_loop_used_ok [of c ch "phys ch pos" n 0 L] c ch n le places_in_range [of c]
    by (simp add: tables_ok_def p)
  moreover have "places_ok (um_loop L n ch (phys ch pos) 0 c)"
  proof (rule um_loop_places)
    show "\<forall>k. 0 + 8 * k < n \<longrightarrow> good_place (MAX_CHUNKS c) (phys ch pos + 8 * k)"
    proof (intro allI impI)
      fix k assume "0 + 8 * k < n"
      then have "good_place (MAX_CHUNKS c) (ch * SIZE_OF_CHUNK + (pos + 8 * k))"
        using ch le n by (intro good_place_phys) auto
      then show "good_place (MAX_CHUNKS c) (phys ch pos + 8 * k)" unfolding p by (simp only: add.assoc)
    qed
  qed (use c ch n le in \<open>simp_all add: tables_ok_def p\<close>)
  ultimately show ?thesis using c UpdateMap_frame [of c L n "phys ch pos"]
    unfolding tables_ok_def UpdateMap_def d by simp
qed

definition ctl_ok :: "ctx \<Rightarrow> bool" where
  "ctl_ok c \<longleftrightarrow> unat (ChunkCtl c 7) \<le> LAST_PURGE_POS \<and> unat (ChunkCtl c 7) mod SIZE_OF_CACHE = 0 \<and>
     unat (ChunkCtl c 4) < MAX_CHUNKS c"

lemma raise_wcn_frame [simp]:
  "Map (raise_wcn ch w c) = Map c" "Used (ChunkInfo (raise_wcn ch w c) k) = Used (ChunkInfo c k)"
  "SCN (ChunkInfo (raise_wcn ch w c) k) = SCN (ChunkInfo c k)"
  "MAX_CHUNKS (raise_wcn ch w c) = MAX_CHUNKS c" "SIZE_OF_MAP (raise_wcn ch w c) = SIZE_OF_MAP c"
  "ChunkNo (raise_wcn ch w c) = ChunkNo c" "ChunkCtl (raise_wcn ch w c) = ChunkCtl c"
  "CacheMem (raise_wcn ch w c) = CacheMem c" "PurgePos (raise_wcn ch w c) = PurgePos c"
  "CCN (raise_wcn ch w c) = CCN c" "Magic (raise_wcn ch w c) = Magic c" "CachePos (raise_wcn ch w c) = CachePos c"
  by (simp_all add: raise_wcn_def)

lemma set_scn_frame [simp]:
  "Map (set_scn ch w c) = Map c" "Used (ChunkInfo (set_scn ch w c) k) = Used (ChunkInfo c k)"
  "SCN (ChunkInfo (set_scn ch w c) k) = (if k = ch then w else SCN (ChunkInfo c k))"
  "MAX_CHUNKS (set_scn ch w c) = MAX_CHUNKS c" "SIZE_OF_MAP (set_scn ch w c) = SIZE_OF_MAP c"
  "ChunkNo (set_scn ch w c) = ChunkNo c" "ChunkCtl (set_scn ch w c) = ChunkCtl c"
  "CacheMem (set_scn ch w c) = CacheMem c" "PurgePos (set_scn ch w c) = PurgePos c"
  "CCN (set_scn ch w c) = CCN c" "Magic (set_scn ch w c) = Magic c" "CachePos (set_scn ch w c) = CachePos c"
  by (simp_all add: set_scn_def)

definition rec_ok :: "ctx \<Rightarrow> bool" where
  "rec_ok c \<longleftrightarrow> tables_ok c \<and> ctl_ok c"

lemma rec_ok_cong:
  "rec_ok c \<Longrightarrow> Map c' = Map c \<Longrightarrow> (\<And>k. Used (ChunkInfo c' k) = Used (ChunkInfo c k)) \<Longrightarrow> MAX_CHUNKS c' = MAX_CHUNKS c \<Longrightarrow>
   SIZE_OF_MAP c' = SIZE_OF_MAP c \<Longrightarrow> ChunkNo c' < MAX_CHUNKS c \<Longrightarrow> ctl_ok c' \<Longrightarrow> rec_ok c'"
  using tables_ok_cong [of c' c] by (simp add: rec_ok_def)

lemma rec_okD: "rec_ok c \<Longrightarrow> ChunkNo c < MAX_CHUNKS c" "rec_ok c \<Longrightarrow> ctl_ok c" "rec_ok c \<Longrightarrow> tables_ok c"
  by (simp_all add: rec_ok_def tables_ok_def)

lemma mod512_8: "x mod 512 = 0 \<Longrightarrow> x mod 8 = (0::nat)"
  using mod_mod_cancel [of 8 512 x] by simp

lemma mod_diff8: "x mod 8 = 0 \<Longrightarrow> y mod 8 = 0 \<Longrightarrow> (x - y) mod 8 = (0::nat)"
  by (simp add: mod_eq_0_iff_dvd)

lemma take_ctl_ok:
  assumes c: "rec_ok c" and ch: "ch < MAX_CHUNKS c" and t: "take_ctl ch (mx, c) = (mx', c')"
  shows "rec_ok c' \<and> MAX_CHUNKS c' = MAX_CHUNKS c"
proof -
  let ?m = "CacheMem c" and ?c1 = "raise_wcn ch (ctl_field (CacheMem c) 3) c"
  have c1: "rec_ok ?c1" by (rule rec_ok_cong [OF c]) (use c in \<open>simp_all add: rec_okD ctl_ok_def rec_ok_def tables_ok_def\<close>)
  show ?thesis
  proof (cases "ctl_intact ?m \<and> ctl_field ?m 1 = CCN ?c1 \<and> ctl_valid ?c1 ?m")
    case False
    then show ?thesis using t c c1 by (auto simp: take_ctl_def Let_def split: if_splits)
  next
    case True
    let ?start = "ctl_field ?m 6"
    let ?c2 = "set_scn ch (ctl_field ?m 2) ?c1"
    let ?c3 = "UpdateMap ?c2 (\<lambda>k. ctl_LBA (ctl_of_mem ?m (\<lambda>_. 0)) (?start div 8 + k)) (ctl_field ?m 7 - ?start) (phys ch ?start)"
    have v: "ctl_field ?m 6 mod SIZE_OF_CACHE = 0" "ctl_field ?m 7 mod SIZE_OF_CACHE = 0" "ctl_field ?m 6 \<le> ctl_field ?m 7"
      "ctl_field ?m 7 \<le> LAST_PURGE_POS" "ctl_field ?m 4 < MAX_CHUNKS c"
      using True by (simp_all add: ctl_valid_def)
    have v8: "ctl_field ?m 6 mod 8 = 0" "(ctl_field ?m 7 - ctl_field ?m 6) mod 8 = 0"
      using v(1,2) mod512_8 by (simp_all add: mod_diff8)
    have "tables_ok ?c2" using rec_okD [OF c1] by (intro tables_ok_cong [of ?c2 ?c1]) simp_all
    then have c3: "tables_ok ?c3" using ch v v8 by (intro UpdateMap_tables) simp_all
    have s: "(mx', c') = (if mx \<le> ctl_field ?m 2 then (ctl_field ?m 2, ?c3\<lparr>ChunkNo := ch, ChunkCtl := ctl_of_mem ?m (ChunkCtl ?c3)\<rparr>) else (mx, ?c3))"
      using t True by (simp add: take_ctl_def Let_def del: size_defs)
    have "ctl_ok (?c3\<lparr>ChunkNo := ch, ChunkCtl := ctl_of_mem ?m (ChunkCtl ?c3)\<rparr>)"
      using v by (simp add: ctl_ok_def ctl_of_mem_def CTL_WORDS_def ctl_field_def)
    moreover have "tables_ok (?c3\<lparr>ChunkNo := ch, ChunkCtl := ctl_of_mem ?m (ChunkCtl ?c3)\<rparr>)"
      by (rule tables_ok_cong [OF _ _ _ _ _ c3]) (simp_all add: ch)
    moreover have "ctl_ok ?c3" using rec_okD(2) [OF c] by (simp add: ctl_ok_def)
    ultimately show ?thesis using s c3 by (auto simp: rec_ok_def split: if_splits)
  qed
qed

lemma read_ctls_ok:
  "rec_ok c \<Longrightarrow> ch + k \<le> MAX_CHUNKS c \<Longrightarrow> read_ctls sync ch k s (mx, c) = (ok, s', mx', c') \<Longrightarrow>
   rec_ok c' \<and> MAX_CHUNKS c' = MAX_CHUNKS c"
proof (induction k arbitrary: ch s mx c)
  case (Suc k)
  obtain ok1 s1 m where x: "sync OpRead 0 (phys ch LAST_PURGE_POS) SIZE_OF_CTL (s, CacheMem c) = (ok1, s1, m)" by (metis prod_cases3)
  let ?c = "c\<lparr>CacheMem := m\<rparr>"
  have c: "rec_ok ?c" by (rule rec_ok_cong [OF Suc.prems(1)]) (use rec_okD [OF Suc.prems(1)] in \<open>simp_all add: ctl_ok_def\<close>)
  obtain mx2 c2 where t: "take_ctl ch (mx, ?c) = (mx2, c2)" by fastforce
  have c2: "rec_ok c2" "MAX_CHUNKS c2 = MAX_CHUNKS c" using take_ctl_ok [OF c _ t] Suc.prems(2) by simp_all
  show ?case
  proof (cases ok1)
    case True
    then have "read_ctls sync (ch + 1) k s1 (mx2, c2) = (ok, s', mx', c')"
      using Suc.prems(3) x t by (simp add: Let_def del: size_defs)
    from Suc.IH [OF c2(1) _ this] c2 Suc.prems(2) show ?thesis by simp
  next
    case False
    then have "c' = ?c" using Suc.prems(3) x by (simp add: Let_def del: size_defs)
    then show ?thesis using c by simp
  qed
qed simp

definition pos_ok :: "ctx \<Rightarrow> bool" where
  "pos_ok c \<longleftrightarrow> PurgePos c \<le> LAST_PURGE_POS \<and> PurgePos c mod SIZE_OF_CACHE = 0"

lemma start_chunk_ok:
  assumes "rec_ok c"
  shows "tables_ok (start_chunk c) \<and> pos_ok (start_chunk c) \<and> CachePos (start_chunk c) = 0 \<and>
    FinalizedPos (start_chunk c) = PurgePos (start_chunk c)"
proof -
  note c = rec_okD [OF assms]
  have "tables_ok (start_chunk c)"
    by (rule tables_ok_cong [OF _ _ _ _ _ c(3)]) (use c in \<open>simp_all add: start_chunk_def Let_def ctl_ok_def\<close>)
  moreover have "pos_ok (start_chunk c)"
    using c(2) by (auto simp: pos_ok_def start_chunk_def Let_def ctl_ok_def chunk_start_def)
  ultimately show ?thesis by (simp add: start_chunk_def Let_def)
qed

lemma take_purge_ok:
  assumes "tables_ok c" "pos_ok c" "PurgePos c < LAST_PURGE_POS"
  shows "tables_ok (take_purge c) \<and> pos_ok (take_purge c) \<and> CachePos (take_purge c) = CachePos c"
proof -
  have pos: "PurgePos c + SIZE_OF_CACHE \<le> LAST_PURGE_POS" "PurgePos c mod 8 = 0"
    using assms(2,3) mod512_8 [of "PurgePos c"] by (auto simp: pos_ok_def)
  let ?c1 = "c\<lparr>ChunkCtl := (\<lambda>w. if 8 + PurgePos c div 8 \<le> w \<and> w < 8 + PurgePos c div 8 + SIZE_OF_CACHE div 8
       then of_nat (purge_entry c (CacheMem c) (w - (8 + PurgePos c div 8))) else ChunkCtl c w)\<rparr>"
  let ?c2 = "UpdateMap ?c1 (\<lambda>k. unat (CacheMem c 0 (5 + k))) SIZE_OF_CACHE (phys (ChunkNo ?c1) (PurgePos ?c1))"
  have "tables_ok ?c1" by (rule tables_ok_cong [OF _ _ _ _ _ assms(1)]) (use assms(1) in \<open>simp_all add: tables_ok_def\<close>)
  then have "tables_ok ?c2" using pos assms(1) by (intro UpdateMap_tables) (simp_all add: tables_ok_def)
  then have "tables_ok (take_purge c)"
    unfolding take_purge_def Let_def by (rule tables_ok_cong [rotated -1]) (use assms(1) in \<open>simp_all add: tables_ok_def\<close>)
  moreover have "pos_ok (take_purge c)" using assms(2) pos(1) by (simp add: pos_ok_def)
  ultimately show ?thesis by (simp add: take_purge_def Let_def)
qed

lemma read_purges_ok:
  "tables_ok c \<Longrightarrow> pos_ok c \<Longrightarrow> read_purges sync s c = (ok, s', c') \<Longrightarrow>
   tables_ok c' \<and> pos_ok c' \<and> CachePos c' = CachePos c"
proof (induction sync s c rule: read_purges.induct)
  case (1 sync s c)
  show ?case
  proof (cases "PurgePos c < LAST_PURGE_POS")
    case False
    then show ?thesis using "1.prems" by (simp add: read_purges.simps [of sync s c])
  next
    case True
    obtain ok1 s1 m where x: "sync OpRead 0 (wrap32 (phys (ChunkNo c) (PurgePos c) + LAST_CACHE_POS)) 1 (s, CacheMem c) = (ok1, s1, m)"
      by (metis prod_cases3)
    let ?c = "c\<lparr>CacheMem := m\<rparr>"
    have c: "tables_ok ?c" "pos_ok ?c"
      using "1.prems"(1,2) by (auto simp: tables_ok_def used_ok_def used_set_def places_ok_def pos_ok_def)
    have e: "read_purges sync s c = (if \<not> ok1 then (False, s1, ?c)
        else if purge_current ?c m then read_purges sync s1 (take_purge ?c) else (True, s1, ?c))"
      using True x by (subst read_purges.simps) (simp add: Let_def del: size_defs)
    note t = take_purge_ok [OF c]
    show ?thesis
    proof (cases "ok1 \<and> purge_current ?c m")
      case rec: True
      have "read_purges sync s1 (take_purge ?c) = (ok, s', c')" using "1.prems"(3) e rec by simp
      with "1.IH" [OF True x [symmetric] refl refl refl] rec t True show ?thesis by simp
    next
      case False
      then show ?thesis using "1.prems"(3) e c by (auto split: if_splits)
    qed
  qed
qed

lemma new_ctx_rec_ok:
  assumes "2 \<le> n" "n \<le> 500" "cf_SIZE_OF_MAP f < 4294967296"
  shows "rec_ok (new_ctx f n\<lparr>ChunkNo := 1\<rparr>)"
  using assms
  by (simp add: rec_ok_def tables_ok_def ctl_ok_def used_ok_def used_set_def places_ok_def new_ctx_def zero_ctx_def)

lemma recover_ctx_tables:
  assumes "rec_ok (c\<lparr>ChunkNo := 1\<rparr>)" "recover_ctx sync s c = (True, s', c')"
  shows "tables_ok c' \<and> pos_ok c' \<and> CachePos c' = 0 \<and> NextChunkNo c' < MAX_CHUNKS c' \<and> NextChunkNo c' \<noteq> ChunkNo c'"
proof -
  let ?c = "c\<lparr>ChunkNo := 1\<rparr>"
  obtain ok1 s1 mx c1 where r: "read_ctls sync 0 (MAX_CHUNKS c) s (0, ?c) = (ok1, s1, mx, c1)" by (metis prod_cases4)
  have ok1: ok1 using assms(2) r by (auto simp: recover_ctx_def split: if_splits)
  have c1: "rec_ok c1" using read_ctls_ok [OF assms(1) _ r] by simp
  obtain ok2 s2 c2 where p: "read_purges sync s1 (start_chunk c1) = (ok2, s2, c2)" by (metis prod_cases3)
  note st = start_chunk_ok [OF c1]
  have c2: "tables_ok c2" "pos_ok c2" "CachePos c2 = 0" using read_purges_ok [OF _ _ p] st by simp_all
  have e: "c' = FindNextChunk 0 c2" using assms(2) r ok1 p by (auto simp: recover_ctx_def split: if_splits)
  have t: "tables_ok c'" by (rule tables_ok_cong [OF _ _ _ _ _ c2(1)]) (use c2(1) in \<open>simp_all add: e FindNextChunk_def tables_ok_def\<close>)
  obtain i where "i < MAX_CHUNKS c2" "i \<noteq> ChunkNo c2"
  proof (cases "ChunkNo c2 = 0")
    case True then show thesis using that [of 1] c2(1) by (simp add: tables_ok_def)
  next
    case False then show thesis using that [of 0] c2(1) by (simp add: tables_ok_def)
  qed
  from find_next_spec [OF this, of 0] t c2 show ?thesis by (simp add: e FindNextChunk_def pos_ok_def)
qed

text \<open>The recovery succeeds when no transfer fails, and only then.\<close>

lemma read_ctls_all:
  assumes "\<And>P n w. fst (sync OpRead 0 P n w)"
  shows "fst (read_ctls sync ch k s sc)"
proof (induction k arbitrary: ch s sc)
  case (Suc k)
  obtain ok s1 m where x: "sync OpRead 0 (phys ch LAST_PURGE_POS) SIZE_OF_CTL (s, CacheMem (snd sc)) = (ok, s1, m)" by (metis prod_cases3)
  then have ok using assms [of "phys ch LAST_PURGE_POS" SIZE_OF_CTL "(s, CacheMem (snd sc))"] by simp
  then show ?case using x Suc.IH by (simp add: Let_def del: size_defs)
qed simp

lemma read_purges_all:
  assumes "\<And>P n w. fst (sync OpRead 0 P n w)"
  shows "fst (read_purges sync s c)"
  using assms
proof (induction sync s c rule: read_purges.induct)
  case (1 sync s c)
  show ?case
  proof (cases "PurgePos c < LAST_PURGE_POS")
    case False
    then show ?thesis by (simp add: read_purges.simps [of sync s c])
  next
    case True
    obtain ok1 s1 m where x: "sync OpRead 0 (wrap32 (phys (ChunkNo c) (PurgePos c) + LAST_CACHE_POS)) 1 (s, CacheMem c) = (ok1, s1, m)"
      by (metis prod_cases3)
    have ok1: ok1 using "1.prems" [of "wrap32 (phys (ChunkNo c) (PurgePos c) + LAST_CACHE_POS)" 1 "(s, CacheMem c)"] x by simp
    have e: "read_purges sync s c = (if purge_current (c\<lparr>CacheMem := m\<rparr>) m then read_purges sync s1 (take_purge (c\<lparr>CacheMem := m\<rparr>))
        else (True, s1, c\<lparr>CacheMem := m\<rparr>))"
      using True x ok1 by (subst read_purges.simps) (simp add: Let_def del: size_defs)
    show ?thesis using "1.IH" [OF True x [symmetric] refl refl] ok1 "1.prems" by (simp add: e)
  qed
qed

lemma recover_ctx_all:
  assumes "\<And>P n w. fst (sync OpRead 0 P n w)"
  shows "fst (recover_ctx sync s c)"
proof -
  obtain ok1 s1 sc where r: "read_ctls sync 0 (MAX_CHUNKS c) s (0, c\<lparr>ChunkNo := 1\<rparr>) = (ok1, s1, sc)" by (metis prod_cases3)
  obtain ok2 s2 c2 where p: "read_purges sync s1 (start_chunk (snd sc)) = (ok2, s2, c2)" by (metis prod_cases3)
  have ok1 ok2
    using read_ctls_all [of sync 0 "MAX_CHUNKS c" s "(0, c\<lparr>ChunkNo := 1\<rparr>)"] read_purges_all [of sync s1 "start_chunk (snd sc)"] assms r p
    by simp_all
  then show ?thesis using r p by (simp add: recover_ctx_def)
qed

section \<open>Properties\<close>

text \<open>
  C12. A recovery ends with a device that is active or in error, whatever the medium holds. When it is
  active the tables are consistent: every mapped block lies in the data part of a chunk, \<open>Used\<close> counts
  the blocks of each chunk, the position to write next is inside the current chunk and the next chunk
  is another one. No content of the directories and purge blocks, however damaged, leads elsewhere.
\<close>

theorem recovery_any_medium:
  assumes "dx_Mode x = VLTL_MODE_RECOVERY" "dx_Ctx x = Some (obj, new_ctx f n)"
    and "2 \<le> n" "n \<le> 500" "cf_SIZE_OF_MAP f < 4294967296"
    and "DoRecovery1 sync s x = (s', y)"
  shows "(dx_Mode y = VLTL_MODE_ACTIVE \<or> dx_Mode y = VLTL_MODE_ERROR) \<and>
    (\<exists>c. dx_Ctx y = Some (obj, c) \<and>
      (dx_Mode y = VLTL_MODE_ACTIVE \<longrightarrow>
         used_ok c \<and> places_ok c \<and> CachePos c = 0 \<and> PurgePos c \<le> LAST_PURGE_POS \<and> PurgePos c mod SIZE_OF_CACHE = 0 \<and>
         ChunkNo c < MAX_CHUNKS c \<and> NextChunkNo c < MAX_CHUNKS c \<and> NextChunkNo c \<noteq> ChunkNo c))"
proof -
  obtain ok s2 c' where r: "recover_ctx sync s (new_ctx f n) = (ok, s2, c')" by (metis prod_cases3)
  have y: "y = ChangeModeAtomic VLTL_MODE_RECOVERY (if ok then VLTL_MODE_ACTIVE else VLTL_MODE_ERROR) (x\<lparr>dx_Ctx := Some (obj, c')\<rparr>)"
    using assms(2,6) r by (simp add: DoRecovery1_def)
  show ?thesis
  proof (cases ok)
    case True
    from recover_ctx_tables [OF new_ctx_rec_ok [OF assms(3-5)], of sync s s2 c'] r True y assms(1) show ?thesis
      by (simp add: tables_ok_def pos_ok_def)
  next
    case False
    then show ?thesis using y assms(1) by simp
  qed
qed

theorem recovery_any_medium_witness:
  "\<forall>d. \<exists>s' y c. DoRecovery1 ideal_sync d (cfg_dx VLTL_MODE_RECOVERY (Some (demo_obj, new_ctx demo_conf 10))) = (s', y) \<and>
     dx_Mode y = VLTL_MODE_ACTIVE \<and> dx_Ctx y = Some (demo_obj, c) \<and> used_ok c \<and> NextChunkNo c \<noteq> ChunkNo c"
proof
  fix d
  let ?x = "cfg_dx VLTL_MODE_RECOVERY (Some (demo_obj, new_ctx demo_conf 10))"
  obtain s' y where r: "DoRecovery1 ideal_sync d ?x = (s', y)" by fastforce
  have "fst (recover_ctx ideal_sync d (new_ctx demo_conf 10))" by (rule recover_ctx_all) (simp add: ideal_sync_def)
  then have a: "dx_Mode y = VLTL_MODE_ACTIVE" using r by (auto simp: DoRecovery1_def cfg_dx_def split: prod.splits)
  have "(dx_Mode y = VLTL_MODE_ACTIVE \<or> dx_Mode y = VLTL_MODE_ERROR) \<and>
    (\<exists>c. dx_Ctx y = Some (demo_obj, c) \<and>
      (dx_Mode y = VLTL_MODE_ACTIVE \<longrightarrow>
         used_ok c \<and> places_ok c \<and> CachePos c = 0 \<and> PurgePos c \<le> LAST_PURGE_POS \<and> PurgePos c mod SIZE_OF_CACHE = 0 \<and>
         ChunkNo c < MAX_CHUNKS c \<and> NextChunkNo c < MAX_CHUNKS c \<and> NextChunkNo c \<noteq> ChunkNo c))"
    by (rule recovery_any_medium [OF _ _ _ _ _ r, where f = demo_conf and n = 10]) (simp_all add: cfg_dx_def demo_conf_def)
  then show "\<exists>s' y c. DoRecovery1 ideal_sync d ?x = (s', y) \<and>
     dx_Mode y = VLTL_MODE_ACTIVE \<and> dx_Ctx y = Some (demo_obj, c) \<and> used_ok c \<and> NextChunkNo c \<noteq> ChunkNo c"
    using r a by blast
qed

end
