(* ===== verification/FormatProps.thy ===== *)
theory FormatProps
  imports RecoveryProps WriteEnds
begin

text \<open>
  From a format to a device that is consistent: what \<open>SetLevelingConfig\<close> leaves on the medium, and
  what a recovery from it finds.
\<close>

section \<open>Bytes and words\<close>

lemma put_byte_before:
  assumes "512 * p + 4 * w + 4 \<le> a" "w < 128"
  shows "put_byte a v m p w = m p w"
proof (cases "a div 512 = p")
  case True
  then have "a = 512 * p + a mod 512" using mult_div_mod_eq [of 512 a] by simp
  then have "4 * (w + 1) \<le> a mod 512" using assms(1) by simp
  then have "w < a mod 512 div 4" by simp
  then show ?thesis by (simp add: put_byte_def True)
qed (simp add: put_byte_def)

lemma put_bytes_before: "512 * p + 4 * w + 4 \<le> a \<Longrightarrow> w < 128 \<Longrightarrow> put_bytes a xs m p w = m p w"
  by (induction a xs m rule: put_bytes.induct) (simp_all add: put_byte_before)

lemma put_byte_after: "a < 512 * p \<Longrightarrow> put_byte a v m p = m p"
  by (auto simp: put_byte_def)

lemma put_bytes_after: "a + length xs \<le> 512 * p \<Longrightarrow> put_bytes a xs m p = m p"
  by (induction a xs m rule: put_bytes.induct) (simp_all add: put_byte_after)

lemma word_split: "128 * (w div 128) + w mod 128 = (w :: nat)"
  by simp

section \<open>What a format writes\<close>

lemma conf_words_put_low:
  assumes "\<And>w. w < CONF_WORDS \<Longrightarrow> s w = t w"
  shows "conf_words s = conf_words t"
  using assms by (simp add: conf_words_def)

lemma format_conf_block: "conf_words (format_conf ccn b m 0) = ProduceChecksum128 (new_conf_words ccn b)"
proof -
  let ?ws = "ProduceChecksum128 (new_conf_words ccn b)"
  have l: "length ?ws = CONF_WORDS" by (simp add: new_conf_words_def CONF_WORDS_def)
  have "conf_words (format_conf ccn b m 0) = conf_words (put_words ?ws (m 0))"
    by (rule conf_words_put_low)
       (simp add: format_conf_def boot_mark_def put_ulong_def put_bytes_before put_byte_before CONF_WORDS_def)
  then show ?thesis using l by simp
qed

lemma partition_table_rest: "0 < p \<Longrightarrow> partition_table b m p = m p"
  by (simp add: partition_table_def boot_mark_def put_ulong_def put_byte_after put_bytes_after MBR1_def)

text \<open>The logical sectors of a device that has just been formatted.\<close>

definition formatted_sector :: "bool \<Rightarrow> mode_buffer \<Rightarrow> nat \<Rightarrow> sector" where
  "formatted_sector removable b L =
     (if L = 0 \<and> \<not> removable then partition_table b (\<lambda>_. zero_sector) 0 else zero_sector)"

lemma partition_table_0:
  assumes "m 0 = zero_sector"
  shows "partition_table b m 0 = partition_table b (\<lambda>_. zero_sector) 0"
proof -
  have pb: "put_byte a v m 0 = put_byte a v m' 0" if "m 0 = m' 0" for a v m m'
    using that by (auto simp: put_byte_def)
  have pbs: "put_bytes a xs m 0 = put_bytes a xs m' 0" if "m 0 = m' 0" for a xs m m'
    using that
  proof (induction a xs m arbitrary: m' rule: put_bytes.induct)
    case (2 a x xs m)
    have "put_byte a x m 0 = put_byte a x m' 0" by (rule pb) (rule "2.prems")
    from "2.IH" [of "put_byte a x m'", OF this] show ?case by simp
  qed simp
  show ?thesis unfolding partition_table_def boot_mark_def put_ulong_def
    by (intro pb pbs) (simp add: assms)
qed

lemma format_first_sector: "p < 8 \<Longrightarrow> format_first ccn b m p = formatted_sector False b p"
  using partition_table_0 [of "zero_sectors m 0 SIZE_OF_CACHE" b] partition_table_rest [of p b "zero_sectors m 0 SIZE_OF_CACHE"]
  by (cases "p = 0") (simp_all add: format_first_def formatted_sector_def zero_sectors_def Let_def)

text \<open>\<open>formatted\<close>: the traces a successful format leaves on the medium.\<close>

definition formatted :: "nat \<Rightarrow> mode_buffer \<Rightarrow> bool \<Rightarrow> mem \<Rightarrow> mem \<Rightarrow> bool" where
  "formatted ccn b removable d0 d \<longleftrightarrow>
     conf_words (d 0) = ProduceChecksum128 (new_conf_words ccn b) \<and>
     (\<forall>w < CTL_WORDS. ctl_on d 1 w = seal_ctl (format_ctl_word ccn removable (\<lambda>w. if w < CTL_WORDS then ctl_on d0 1 w else 0)) w) \<and>
     (\<not> removable \<longrightarrow> (\<forall>p < 8. d (SIZE_OF_CHUNK + p) = formatted_sector False b p)) \<and>
     (\<forall>q. \<not> format_area q \<longrightarrow> d q = d0 q)"

lemma ctl_of_read:
  assumes "\<And>p. p < SIZE_OF_CTL \<Longrightarrow> m p = d (ch * SIZE_OF_CHUNK + LAST_PURGE_POS + p)"
  shows "ctl_of_mem m old = (\<lambda>w. if w < CTL_WORDS then ctl_on d ch w else old w)"
proof (rule ext)
  fix w
  show "ctl_of_mem m old w = (if w < CTL_WORDS then ctl_on d ch w else old w)"
  proof (cases "w < CTL_WORDS")
    case True
    then have "w div 128 < SIZE_OF_CTL" by (simp add: CTL_WORDS_def)
    from assms [OF this] True show ?thesis by (simp add: ctl_of_mem_def ctl_on_def)
  qed (simp add: ctl_of_mem_def)
qed

context sync_disk
begin

lemma format_chunk_done:
  assumes "format_chunk sync ccn b x (s, m) = (True, s', m')" "0 < mb_SIZE_OF_MAP b" "w < CTL_WORDS"
  shows "ctl_on (medium s') 1 w =
    seal_ctl (format_ctl_word ccn (dx_RemovableMedia x) (\<lambda>w. if w < CTL_WORDS then ctl_on (medium s) 1 w else 0)) w"
proof -
  let ?P = "SIZE_OF_CHUNK + LAST_PURGE_POS"
  have r: "in_range ?P SIZE_OF_CTL" by (simp add: in_range_def)
  obtain ok1 s1 m1 where x: "sync OpRead 0 ?P SIZE_OF_CTL (s, m) = (ok1, s1, m1)" by (metis prod_cases3)
  have ok1: ok1 using assms(1,2) x by (cases ok1) (simp_all add: format_chunk_def del: size_defs)
  let ?m2 = "format_ctl ccn (dx_RemovableMedia x) m1"
  have w: "sync OpWrite 0 ?P SIZE_OF_CTL (s1, ?m2) = (True, s', m')"
    using assms(1,2) x ok1 by (simp add: format_chunk_def del: size_defs)
  have x': "sync OpRead 0 ?P SIZE_OF_CTL (s, m) = (True, s1, m1)" using x ok1 by simp
  have c: "ctl_of_mem m1 (\<lambda>_. 0) = (\<lambda>w. if w < CTL_WORDS then ctl_on (medium s) 1 w else 0)"
    by (rule ctl_of_read) (use read_all(1) [OF r x'] in simp)
  have wl: "w div 128 < SIZE_OF_CTL" using assms(3) by (simp add: CTL_WORDS_def)
  have "ctl_on (medium s') 1 w = ?m2 (w div 128) (w mod 128)"
    using write_all(1) [OF r w wl] by (simp add: ctl_on_def)
  then show ?thesis using assms(3) by (simp add: format_ctl_def mem_of_ctl_def c)
qed

lemma format_cache_done:
  assumes "format_cache sync ccn b x (s, m) = (True, s', m')" "0 < mb_SIZE_OF_MAP b"
  shows "\<not> dx_RemovableMedia x \<Longrightarrow> p < 8 \<Longrightarrow> medium s' (SIZE_OF_CHUNK + p) = formatted_sector False b p"
    "\<not> (SIZE_OF_CHUNK \<le> q \<and> q < SIZE_OF_CHUNK + SIZE_OF_CACHE) \<Longrightarrow> medium s' q = medium s q"
proof -
  have r: "in_range SIZE_OF_CHUNK SIZE_OF_CACHE" by (simp add: in_range_def)
  show "medium s' (SIZE_OF_CHUNK + p) = formatted_sector False b p" if "\<not> dx_RemovableMedia x" "p < 8"
  proof -
    have w: "sync OpWrite 0 SIZE_OF_CHUNK SIZE_OF_CACHE (s, format_first ccn b m) = (True, s', m')"
      using assms that(1) by (simp add: format_cache_def del: size_defs)
    show ?thesis using write_all(1) [OF r w, of p] that(2) format_first_sector by simp
  qed
  assume q: "\<not> (SIZE_OF_CHUNK \<le> q \<and> q < SIZE_OF_CHUNK + SIZE_OF_CACHE)"
  show "medium s' q = medium s q"
  proof (cases "dx_RemovableMedia x")
    case True
    then show ?thesis using assms by (simp add: format_cache_def)
  next
    case False
    then have w: "sync OpWrite 0 SIZE_OF_CHUNK SIZE_OF_CACHE (s, format_first ccn b m) = (True, s', m')"
      using assms by (simp add: format_cache_def del: size_defs)
    show ?thesis by (rule write_all(2) [OF r w]) (use q in auto)
  qed
qed

lemma format_medium_done:
  assumes "format_medium sync ccn b x (s, m) = (True, s', m')" "0 < mb_SIZE_OF_MAP b"
  shows "formatted ccn b (dx_RemovableMedia x) (medium s) (medium s')"
proof -
  obtain ok1 s1 m1 where 1: "format_chunk sync ccn b x (s, m) = (ok1, s1, m1)" by (metis prod_cases3)
  have ok1: ok1 using assms(1) 1 by (cases ok1) (simp_all add: format_medium_def)
  obtain ok2 s2 m2 where 2: "format_cache sync ccn b x (s1, m1) = (ok2, s2, m2)" by (metis prod_cases3)
  have ok2: ok2 using assms(1) 1 2 ok1 by (cases ok2) (simp_all add: format_medium_def)
  have r: "in_range 0 65" by (simp add: in_range_def)
  have 3: "sync OpWrite 0 0 65 (s2, format_boot ccn b x m2) = (True, s', m')"
    using assms(1) 1 2 ok1 ok2 by (simp add: format_medium_def)
  have high: "medium s' q = medium s2 q" if "65 \<le> q" for q
    by (rule write_all(2) [OF r 3]) (use that in simp)
  note A = 1 [unfolded eqTrueI [OF ok1]] and B = 2 [unfolded eqTrueI [OF ok2]]
  have "medium s' 0 = format_boot ccn b x m2 0" using write_all(1) [OF r 3, of 0] by simp
  also have "\<dots> = format_conf ccn b (zero_sectors m2 0 65) 0" using assms(2) by (auto simp: format_boot_def Let_def)
  finally have conf: "conf_words (medium s' 0) = ProduceChecksum128 (new_conf_words ccn b)" by (simp add: format_conf_block)
  have dir: "ctl_on (medium s') 1 w = ctl_on (medium s1) 1 w" if "w < CTL_WORDS" for w
  proof -
    let ?q = "1 * SIZE_OF_CHUNK + LAST_PURGE_POS + w div 128"
    have "medium s' ?q = medium s2 ?q" by (rule high) simp
    also have "\<dots> = medium s1 ?q" by (rule format_cache_done(2) [OF B assms(2)]) simp
    finally show ?thesis by (simp only: ctl_on_def)
  qed
  have first: "medium s' (SIZE_OF_CHUNK + p) = formatted_sector False b p" if "\<not> dx_RemovableMedia x" "p < 8" for p
    using format_cache_done(1) [OF B assms(2) that] high [of "SIZE_OF_CHUNK + p"] by simp
  show ?thesis unfolding formatted_def
    using conf first dir format_chunk_done [OF A assms(2)] format_medium_out [OF assms(1)] by auto
qed

text \<open>The whole request: the number of the new generation is carried by no chunk of the old medium.\<close>

lemma set_config_formatted:
  assumes f: "SetLevelingConfig sync b x p (s, m) = Some (True, x', p', s', m')"
    "unat (mb_Mode b) = mode_num VLTL_MODE_FORMAT" and p: "pool_ok p" and b: "0 < mb_SIZE_OF_MAP b"
  obtains ccn where "ccn_fresh (medium s) (GetMaxChunks x) ccn" "formatted ccn b (dx_RemovableMedia x) (medium s) (medium s')"
proof -
  obtain r p1 where c: "CreateRequest (dx_MaximumTransferLength x) (SIZE_OF_CACHE * 512) p = (Some r, p1)"
    using f by (auto simp: SetLevelingConfig_def split: if_splits option.splits prod.splits)
  have p1: "pool_ok p1" using CreateRequest_objs [OF p c] by simp
  have nc: "unat (mb_Mode b) \<noteq> mode_num VLTL_MODE_CONFIG" using f(2) by simp
  obtain p2 where d: "do_format sync b x p1 (s, m) = Some (True, x', p2, s', m')"
    using f c nc by (auto simp: SetLevelingConfig_def split: if_splits)
  obtain q p3 s1 m1 where g: "GetNewCCN sync x p1 (s, m) = Some (q, p3, s1, m1)" "medium s1 = medium s"
    "\<And>ccn. q = Some ccn \<Longrightarrow> ccn_fresh (medium s) (GetMaxChunks x) ccn" using GetNewCCN_spec [OF p1, of x s m] by metis
  obtain ccn where ccn: "q = Some ccn" using d g(1) by (cases q) (simp_all add: do_format_def)
  obtain started x1 where sf: "SetFormatMode x = (started, x1)" by fastforce
  have st: started using d g(1) ccn sf by (cases started) (simp_all add: do_format_def)
  have rem: "dx_RemovableMedia x1 = dx_RemovableMedia x" using sf by (auto simp: SetFormatMode_def split: vmode.splits)
  obtain ok s2 m2 where fm: "format_medium sync ccn b x1 (s1, m1) = (ok, s2, m2)" by (metis prod_cases3)
  have "format_medium sync ccn b x1 (s1, m1) = (True, s', m')" using d g(1) ccn sf st fm by (simp add: do_format_def)
  from format_medium_done [OF this b] g(2) rem have "formatted ccn b (dx_RemovableMedia x) (medium s) (medium s')" by simp
  with that g(3) [OF ccn] show thesis by blast
qed

end

section \<open>The directories of a formatted medium\<close>

definition end_pos :: "bool \<Rightarrow> nat" where
  "end_pos removable = (if removable then 0 else SIZE_OF_CACHE)"

lemma formatted_words:
  assumes "formatted ccn b removable d0 d" "ccn < 4294967296"
  shows "unat (ctl_on d 1 0) = LEVELING_VERSION" "unat (ctl_on d 1 1) = ccn" "unat (ctl_on d 1 2) = 1" "unat (ctl_on d 1 4) = 1"
    "unat (ctl_on d 1 6) = 0" "unat (ctl_on d 1 7) = end_pos removable"
    "\<not> removable \<Longrightarrow> k < 64 \<Longrightarrow> unat (ctl_on d 1 (8 + k)) = (if k = 0 then 0 else NOT_MAPPED)"
    "fst (VerifyChecksum128 (map (ctl_on d 1) [0..<CTL_WORDS]))"
proof -
  let ?f = "format_ctl_word ccn removable (\<lambda>w. if w < CTL_WORDS then ctl_on d0 1 w else 0)"
  have all: "ctl_on d 1 w = seal_ctl ?f w" if "w < CTL_WORDS" for w using assms(1) that by (simp add: formatted_def)
  have low: "ctl_on d 1 w = ?f w" if "w < 128" for w
    using that all [of w] seal_ctl_body [of w ?f] by (simp add: CTL_WORDS_def)
  have nm: "unat (of_nat NOT_MAPPED :: u32) = NOT_MAPPED" by simp
  show "unat (ctl_on d 1 0) = LEVELING_VERSION" "unat (ctl_on d 1 1) = ccn" "unat (ctl_on d 1 2) = 1" "unat (ctl_on d 1 4) = 1"
    "unat (ctl_on d 1 6) = 0" "unat (ctl_on d 1 7) = end_pos removable"
    using assms(2) by (simp_all add: low format_ctl_word_def end_pos_def del: One_nat_def)
  show "unat (ctl_on d 1 (8 + k)) = (if k = 0 then 0 else NOT_MAPPED)" if "\<not> removable" "k < 64"
    using that nm by (simp add: low format_ctl_word_def del: One_nat_def NOT_MAPPED_def)
  have "map (ctl_on d 1) [0..<CTL_WORDS] = map (seal_ctl ?f) [0..<CTL_WORDS]" by (rule map_cong) (simp_all add: all del: One_nat_def)
  then show "fst (VerifyChecksum128 (map (ctl_on d 1) [0..<CTL_WORDS]))" by (simp only: seal_verifies)
qed

lemma formatted_other:
  assumes "formatted ccn b removable d0 d" "ccn_fresh d0 n ccn" "ch < n" "n \<le> 500" "ch \<noteq> 1"
  shows "unat (ctl_on d ch 1) \<noteq> ccn"
proof -
  let ?q = "ch * SIZE_OF_CHUNK + LAST_PURGE_POS"
  have "\<not> format_area ?q"
  proof (cases "ch = 0")
    case False
    then have "2 \<le> ch" using assms(5) by simp
    then show ?thesis by (simp add: format_area_def)
  qed (simp add: format_area_def)
  then have "d ?q = d0 ?q" using assms(1) by (simp add: formatted_def)
  moreover have "phys ch LAST_PURGE_POS = ?q" using assms(3,4) by (intro phys_eq) simp_all
  ultimately have "unat (ctl_on d ch 1) = chunk_ccn d0 ch" by (simp add: ctl_on_def chunk_ccn_def del: size_defs)
  then show ?thesis using assms(2,3) by (simp add: ccn_fresh_def)
qed

lemma um_loop_skip:
  "(\<And>q. i \<le> q \<Longrightarrow> q < n \<Longrightarrow> SIZE_OF_MAP c \<le> blk (L (q div 8))) \<Longrightarrow> um_loop L n ch p i c = c"
proof (induction L n ch p i c rule: um_loop.induct)
  case (1 L n ch p i c)
  show ?case
  proof (cases "i < n")
    case True
    then have s: "um_step (blk (L (i div 8))) ch p c = c" using "1.prems" [of i] by (simp add: um_step_def)
    show ?thesis using "1.IH" [OF True] "1.prems" True s by (simp add: um_loop.simps [of L n ch p i c])
  qed (simp add: um_loop.simps [of L n ch p i c])
qed

section \<open>Recovery from a formatted medium\<close>

definition first_map :: "bool \<Rightarrow> nat \<Rightarrow> nat" where
  "first_map removable = (if removable then (\<lambda>_. NOT_MAPPED) else (\<lambda>_. NOT_MAPPED)(0 := SIZE_OF_CHUNK))"

text \<open>The context after the directories of the chunks below \<open>ch\<close> have been read.\<close>

definition scan_inv :: "nat \<Rightarrow> mode_buffer \<Rightarrow> bool \<Rightarrow> nat \<Rightarrow> mem \<Rightarrow> nat \<Rightarrow> nat \<Rightarrow> ctx \<Rightarrow> bool" where
  "scan_inv ccn b removable n d ch mx c \<longleftrightarrow>
     CCN c = ccn \<and> Magic c = unat (mb_Magic b) \<and> MAX_CHUNKS c = n \<and> SIZE_OF_MAP c = unat (mb_SIZE_OF_MAP b) \<and>
     ChunkNo c = 1 \<and> (\<forall>k. SCN (ChunkInfo c k) = (if 1 < ch \<and> k = 1 then 1 else 0)) \<and>
     Map c = (if 1 < ch then first_map removable else (\<lambda>_. NOT_MAPPED)) \<and> mx = (if 1 < ch then 1 else 0) \<and>
     (1 < ch \<longrightarrow> (\<forall>w < CTL_WORDS. ChunkCtl c w = ctl_on d 1 w))"

lemma um_first:
  assumes "Map c = (\<lambda>_. NOT_MAPPED)" "0 < SIZE_OF_MAP c" "SIZE_OF_MAP c \<le> 33554431"
    and "unat (L 0) = 0" "\<And>k. 0 < k \<Longrightarrow> k < 64 \<Longrightarrow> unat (L k) = NOT_MAPPED"
  shows "UpdateMap c (\<lambda>k. unat (L k)) SIZE_OF_CACHE SIZE_OF_CHUNK = set_map 0 1 SIZE_OF_CHUNK c"
proof -
  let ?L = "\<lambda>k. unat (L k)" and ?c = "set_map 0 1 SIZE_OF_CHUNK c"
  have "um_step (blk (?L 0)) 1 SIZE_OF_CHUNK c = ?c" using assms(1,2,4) by (simp add: um_step_def blk_def)
  then have "um_loop ?L SIZE_OF_CACHE 1 SIZE_OF_CHUNK 0 c = um_loop ?L SIZE_OF_CACHE 1 (wrap32 (SIZE_OF_CHUNK + 8)) 8 ?c"
    by (subst um_loop.simps) simp
  also have "\<dots> = ?c"
  proof (rule um_loop_skip)
    fix q :: nat assume "8 \<le> q" "q < SIZE_OF_CACHE"
    then have "0 < q div 8" "q div 8 < 64" by auto
    then have "unat (L (q div 8)) = NOT_MAPPED" by (rule assms(5))
    then show "SIZE_OF_MAP ?c \<le> blk (?L (q div 8))" using assms(3) by (simp add: blk_def)
  qed
  finally show ?thesis by (simp add: UpdateMap_def)
qed

lemma set_map_ctl [simp]: "ChunkCtl (set_map j k p c) = ChunkCtl c"
  by (simp add: set_map_def)

lemma take_ctl_scan:
  assumes inv: "scan_inv ccn b removable n d ch mx c" and f: "formatted ccn b removable d0 d" "ccn_fresh d0 n ccn"
    and n: "ch < n" "n \<le> 500" and b: "0 < unat (mb_SIZE_OF_MAP b)" "unat (mb_SIZE_OF_MAP b) \<le> 33554431"
    and mem: "\<And>p. p < SIZE_OF_CTL \<Longrightarrow> CacheMem c p = d (ch * SIZE_OF_CHUNK + LAST_PURGE_POS + p)"
    and t: "take_ctl ch (mx, c) = (mx', c')"
  shows "scan_inv ccn b removable n d (ch + 1) mx' c'"
proof -
  let ?m = "CacheMem c"
  have cm: "ctl_of_mem ?m old = (\<lambda>w. if w < CTL_WORDS then ctl_on d ch w else old w)" for old
    by (rule ctl_of_read) (rule mem)
  have field: "ctl_field ?m k = unat (ctl_on d ch k)" if "k < 128" for k
    using mem [of 0] that by (simp add: ctl_field_def ctl_on_def)
  have raise: "scan_inv ccn b removable n d k mx (raise_wcn ch w c)" if "scan_inv ccn b removable n d k mx c" for k w
    using that by (simp add: scan_inv_def)
  show ?thesis
  proof (cases "ch = 1")
    case False
    then have "1 < ch + 1 \<longleftrightarrow> 1 < ch" by auto
    then have inv': "scan_inv ccn b removable n d (ch + 1) mx c" using inv by (simp add: scan_inv_def)
    have "ctl_field ?m 1 \<noteq> CCN c" using formatted_other [OF f n False] field [of 1] inv by (simp add: scan_inv_def)
    then have "mx' = mx \<and> (c' = c \<or> c' = raise_wcn ch (ctl_field ?m 3) c)"
      using t by (auto simp: take_ctl_def Let_def split: if_splits)
    then show ?thesis using inv' raise by auto
  next
    case ch: True
    have ccn: "ccn < 4294967296" using f(2) by (simp add: ccn_fresh_def)
    note w = formatted_words [OF f(1) ccn]
    let ?c1 = "raise_wcn ch (ctl_field ?m 3) c"
    let ?c2 = "set_scn 1 1 ?c1"
    have i1: "scan_inv ccn b removable n d 1 mx ?c1" using raise [of 1] inv ch by simp
    have fl: "ctl_field ?m 0 = LEVELING_VERSION" "ctl_field ?m 1 = ccn" "ctl_field ?m 2 = 1" "ctl_field ?m 4 = 1"
      "ctl_field ?m 6 = 0" "ctl_field ?m 7 = end_pos removable"
      using w by (simp_all add: field ch del: One_nat_def)
    have "map (ctl_of_mem ?m (\<lambda>_. 0)) [0..<CTL_WORDS] = map (ctl_on d 1) [0..<CTL_WORDS]"
      by (rule map_cong) (simp_all add: cm ch)
    then have "fst (VerifyChecksum128 (map (ctl_of_mem ?m (\<lambda>_. 0)) [0..<CTL_WORDS]))" using w(8) by (simp only:)
    then have intact: "ctl_intact ?m" using fl(1) by (simp only: ctl_intact_def simp_thms)
    have valid: "ctl_valid ?c1 ?m" using fl n i1 ch by (simp add: ctl_valid_def end_pos_def scan_inv_def)
    let ?L = "\<lambda>k. ctl_LBA (ctl_of_mem ?m (\<lambda>_. 0)) (0 div 8 + k)"
    have ph: "phys ch 0 = SIZE_OF_CHUNK" using n ch by simp
    have upd: "UpdateMap ?c2 ?L (end_pos removable - 0) (phys ch 0) = (if removable then ?c2 else set_map 0 1 SIZE_OF_CHUNK ?c2)"
    proof (cases removable)
      case True
      then show ?thesis by (simp add: end_pos_def UpdateMap_def um_loop.simps)
    next
      case False
      have "UpdateMap ?c2 (\<lambda>k. unat (ctl_of_mem ?m (\<lambda>_. 0) (8 + k))) SIZE_OF_CACHE SIZE_OF_CHUNK = set_map 0 1 SIZE_OF_CHUNK ?c2"
      proof (rule um_first)
        show "Map ?c2 = (\<lambda>_. NOT_MAPPED)" "0 < SIZE_OF_MAP ?c2" "SIZE_OF_MAP ?c2 \<le> 33554431"
          using i1 b by (simp_all add: scan_inv_def)
        have e: "ctl_of_mem ?m (\<lambda>_. 0) (8 + k) = ctl_on d 1 (8 + k)" if "k < 64" for k
          using that by (simp add: cm ch CTL_WORDS_def)
        show "unat (ctl_of_mem ?m (\<lambda>_. 0) (8 + 0)) = 0" using w(7) [of 0] False e [of 0] by simp
        fix k :: nat assume "0 < k" "k < 64"
        then show "unat (ctl_of_mem ?m (\<lambda>_. 0) (8 + k)) = NOT_MAPPED" using w(7) [of k] False e [of k] by simp
      qed
      then show ?thesis using False ph by (simp add: end_pos_def ctl_LBA_def del: size_defs)
    qed
    have mx: "mx = 0" using inv ch by (simp add: scan_inv_def)
    let ?c3 = "if removable then ?c2 else set_map 0 1 SIZE_OF_CHUNK ?c2"
    have "take_ctl ch (mx, c) = (1, ?c3\<lparr>ChunkNo := ch, ChunkCtl := ctl_of_mem ?m (ChunkCtl ?c3)\<rparr>)"
      using intact valid fl i1 upd mx ch
      by (simp add: take_ctl_def Let_def scan_inv_def del: size_defs One_nat_def)
    then have r: "mx' = 1" "c' = ?c3\<lparr>ChunkNo := ch, ChunkCtl := ctl_of_mem ?m (ChunkCtl ?c3)\<rparr>" using t by simp_all
    have m2: "Map ?c3 = first_map removable" using i1 by (auto simp: scan_inv_def first_map_def)
    have s2: "SCN (ChunkInfo ?c3 k) = (if k = 1 then 1 else 0)" for k using i1 by (auto simp: scan_inv_def set_map_def)
    have g2: "CCN ?c3 = ccn" "Magic ?c3 = unat (mb_Magic b)" "MAX_CHUNKS ?c3 = n" "SIZE_OF_MAP ?c3 = unat (mb_SIZE_OF_MAP b)"
      using i1 by (simp_all add: scan_inv_def) (simp_all add: set_map_def scan_inv_def)
    show ?thesis unfolding r using m2 s2 g2 ch by (simp add: scan_inv_def cm)
  qed
qed

text \<open>\<open>stale\<close>: the place where the first purge block would be holds none of this generation.\<close>

definition stale :: "nat \<Rightarrow> mode_buffer \<Rightarrow> bool \<Rightarrow> mem \<Rightarrow> bool" where
  "stale ccn b removable d \<longleftrightarrow>
     (let s = d (SIZE_OF_CHUNK + end_pos removable + LAST_CACHE_POS) in \<not> (unat (s 1) = ccn \<and> unat (s 72) = unat (mb_Magic b)))"

context sync_disk
begin

lemma read_ctls_scan:
  assumes f: "formatted ccn b removable d0 d" "ccn_fresh d0 n ccn" and n: "n \<le> 500"
    and b: "0 < unat (mb_SIZE_OF_MAP b)" "unat (mb_SIZE_OF_MAP b) \<le> 33554431"
  shows "scan_inv ccn b removable n d ch mx c \<Longrightarrow> ch + k \<le> n \<Longrightarrow> medium s = d \<Longrightarrow>
    read_ctls sync ch k s (mx, c) = (True, s', mx', c') \<Longrightarrow> scan_inv ccn b removable n d (ch + k) mx' c' \<and> medium s' = d"
proof (induction k arbitrary: ch s mx c)
  case (Suc k)
  obtain ok1 s1 m where x: "sync OpRead 0 (phys ch LAST_PURGE_POS) SIZE_OF_CTL (s, CacheMem c) = (ok1, s1, m)" by (metis prod_cases3)
  have ok1: ok1 using Suc.prems(4) x by (cases ok1) (simp_all add: Let_def del: size_defs)
  note x' = x [unfolded eqTrueI [OF ok1]]
  have ch: "ch < n" using Suc.prems(2) by simp
  then have P: "phys ch LAST_PURGE_POS = ch * SIZE_OF_CHUNK + LAST_PURGE_POS" using n by (intro phys_eq) simp_all
  have r: "in_range (phys ch LAST_PURGE_POS) SIZE_OF_CTL" by (rule chunk_range) (use ch n in simp_all)
  note rd = read_all [OF r x']
  let ?c = "c\<lparr>CacheMem := m\<rparr>"
  have i: "scan_inv ccn b removable n d ch mx ?c" using Suc.prems(1) by (simp add: scan_inv_def)
  obtain mx2 c2 where t: "take_ctl ch (mx, ?c) = (mx2, c2)" by fastforce
  have "CacheMem ?c p = d (ch * SIZE_OF_CHUNK + LAST_PURGE_POS + p)" if "p < SIZE_OF_CTL" for p
    using rd(1) [OF that] Suc.prems(3) P by simp
  from take_ctl_scan [OF i f ch n b this t] have i2: "scan_inv ccn b removable n d (ch + 1) mx2 c2" .
  have "read_ctls sync (ch + 1) k s1 (mx2, c2) = (True, s', mx', c')"
    using Suc.prems(4) x ok1 t by (simp add: Let_def del: size_defs)
  from Suc.IH [OF i2 _ _ this] Suc.prems(2,3) rd(3) show ?case by simp
qed simp

lemma recover_formatted:
  assumes f: "formatted ccn b removable d0 d" "ccn_fresh d0 n ccn" "stale ccn b removable d" and n: "2 \<le> n" "n \<le> 500"
    and b: "0 < unat (mb_SIZE_OF_MAP b)" "unat (mb_SIZE_OF_MAP b) \<le> 33554431"
    and c: "CCN c = ccn" "Magic c = unat (mb_Magic b)" "MAX_CHUNKS c = n" "SIZE_OF_MAP c = unat (mb_SIZE_OF_MAP b)"
      "\<And>k. SCN (ChunkInfo c k) = 0" "Map c = (\<lambda>_. NOT_MAPPED)"
    and r: "medium s = d" "recover_ctx sync s c = (True, s', c')"
  shows "medium s' = d" "ChunkNo c' = 1" "PurgePos c' = end_pos removable" "FinalizedPos c' = end_pos removable"
    "Map c' = first_map removable" "SCN (ChunkInfo c' k) = (if k = 1 then 1 else 0)" "\<not> RelocationPrepared c'" "\<not> RelocationDone c'"
    "w < CTL_WORDS \<Longrightarrow> ChunkCtl c' w = ctl_on d 1 w" "SIZE_OF_MAP c' = unat (mb_SIZE_OF_MAP b)" "MAX_CHUNKS c' = n"
    "CCN c' = ccn" "Magic c' = unat (mb_Magic b)"
proof -
  let ?c = "c\<lparr>ChunkNo := 1\<rparr>"
  obtain ok1 s1 mx c1 where x: "read_ctls sync 0 (MAX_CHUNKS c) s (0, ?c) = (ok1, s1, mx, c1)" by (metis prod_cases4)
  have ok1: ok1 using r(2) x by (cases ok1) (simp_all add: recover_ctx_def)
  have i0: "scan_inv ccn b removable n d 0 0 ?c" using c by (simp add: scan_inv_def)
  have "scan_inv ccn b removable n d (0 + n) mx c1 \<and> medium s1 = d"
    by (rule read_ctls_scan [OF f(1,2) n(2) b i0 _ r(1)]) (use x ok1 c in simp_all)
  then have i: "scan_inv ccn b removable n d n mx c1" and m1: "medium s1 = d" by simp_all
  have ctl: "ChunkCtl c1 w = ctl_on d 1 w" if "w < CTL_WORDS" for w using i n that by (simp add: scan_inv_def)
  have ccn: "ccn < 4294967296" using f(2) by (simp add: ccn_fresh_def)
  have "unat (ChunkCtl c1 7) = end_pos removable"
    using ctl [of 7] formatted_words(6) [OF f(1) ccn] by (simp add: CTL_WORDS_def)
  then have st: "start_chunk c1 = c1\<lparr>CachePos := 0, PurgePos := end_pos removable, FinalizedPos := end_pos removable\<rparr>"
    by (simp add: start_chunk_def Let_def end_pos_def)
  let ?c2 = "start_chunk c1"
  obtain ok2 s2 c2 where p: "read_purges sync s1 ?c2 = (ok2, s2, c2)" by (metis prod_cases3)
  have ok2: ok2 and c': "s' = s2" "c' = FindNextChunk 0 c2"
    using r(2) x ok1 p by (cases ok2; simp add: recover_ctx_def)+
  let ?P = "wrap32 (phys (ChunkNo ?c2) (PurgePos ?c2) + LAST_CACHE_POS)"
  have P: "?P = SIZE_OF_CHUNK + end_pos removable + LAST_CACHE_POS" using i n by (simp add: st scan_inv_def end_pos_def)
  obtain ok3 s3 m where y: "sync OpRead 0 ?P 1 (s1, CacheMem ?c2) = (ok3, s3, m)" by (metis prod_cases3)
  have lt: "PurgePos ?c2 < LAST_PURGE_POS" by (simp add: st end_pos_def)
  have e: "read_purges sync s1 ?c2 = (if \<not> ok3 then (False, s3, ?c2\<lparr>CacheMem := m\<rparr>)
        else if purge_current (?c2\<lparr>CacheMem := m\<rparr>) m then read_purges sync s3 (take_purge (?c2\<lparr>CacheMem := m\<rparr>))
        else (True, s3, ?c2\<lparr>CacheMem := m\<rparr>))"
    using lt y by (subst read_purges.simps) (simp add: Let_def del: size_defs)
  have ok3: ok3 using e p ok2 by (cases ok3) simp_all
  have rr: "in_range ?P 1" unfolding P by (simp add: in_range_def end_pos_def)
  note rd = read_one [OF rr y [unfolded eqTrueI [OF ok3]]]
  have "m 0 = d (SIZE_OF_CHUNK + end_pos removable + LAST_CACHE_POS)" using rd(1) m1 P by simp
  then have "\<not> purge_current (?c2\<lparr>CacheMem := m\<rparr>) m"
    using f(3) i by (auto simp: purge_current_def stale_def Let_def st scan_inv_def simp del: size_defs)
  then have c2: "s2 = s3" "c2 = ?c2\<lparr>CacheMem := m\<rparr>" using e p ok3 by simp_all
  show "medium s' = d" using rd(2) m1 c' c2 by simp
  show "ChunkNo c' = 1" "PurgePos c' = end_pos removable" "FinalizedPos c' = end_pos removable"
    "Map c' = first_map removable" "SCN (ChunkInfo c' k) = (if k = 1 then 1 else 0)" "\<not> RelocationPrepared c'" "\<not> RelocationDone c'"
    "SIZE_OF_MAP c' = unat (mb_SIZE_OF_MAP b)" "MAX_CHUNKS c' = n" "CCN c' = ccn" "Magic c' = unat (mb_Magic b)"
    using i n unfolding c' c2 st by (auto simp: FindNextChunk_def scan_inv_def)
  show "ChunkCtl c' w = ctl_on d 1 w" if "w < CTL_WORDS" using ctl [OF that] unfolding c' c2 st by (simp add: FindNextChunk_def)
qed

end

section \<open>The recovered context is consistent\<close>

text \<open>What a recovery leaves alone: the gate, and the flags of the cache.\<close>

definition kept where
  "kept c = (gate_view c, OtherThread c, CacheDirty c, Flushing c)"

lemma kept_upd [simp]:
  "kept (c\<lparr>CacheMem := m\<rparr>) = kept c" "kept (c\<lparr>CachePos := n\<rparr>) = kept c" "kept (c\<lparr>FinalizedPos := n\<rparr>) = kept c"
  "kept (c\<lparr>PurgePos := n\<rparr>) = kept c" "kept (c\<lparr>RelocationDone := b\<rparr>) = kept c" "kept (c\<lparr>RelocationPrepared := b\<rparr>) = kept c"
  "kept (c\<lparr>Map := M\<rparr>) = kept c" "kept (c\<lparr>ChunkInfo := I\<rparr>) = kept c" "kept (c\<lparr>ChunkCtl := x\<rparr>) = kept c"
  "kept (c\<lparr>ChunkNo := n\<rparr>) = kept c" "kept (c\<lparr>NextChunkNo := n\<rparr>) = kept c"
  by (simp_all add: kept_def view_simps)

lemma kept_steps [simp]:
  "kept (UpdateMap c LBA n p) = kept c" "kept (raise_wcn ch w c) = kept c" "kept (set_scn ch w c) = kept c"
  "kept (start_chunk c) = kept c" "kept (take_purge c) = kept c" "kept (snd (take_ctl ch (mx, c))) = kept c"
proof -
  have u: "kept (UpdateMap c LBA n p) = kept c" for c LBA n p using UpdateMap_only [of c LBA n p] by auto
  then show "kept (UpdateMap c LBA n p) = kept c" .
  have r: "kept (raise_wcn ch w c) = kept c" "kept (set_scn ch w c) = kept c" for ch w c by (simp_all add: raise_wcn_def set_scn_def)
  then show "kept (raise_wcn ch w c) = kept c" "kept (set_scn ch w c) = kept c" by simp_all
  show "kept (start_chunk c) = kept c" by (simp add: start_chunk_def Let_def r)
  show "kept (take_purge c) = kept c" by (simp add: take_purge_def Let_def u)
  show "kept (snd (take_ctl ch (mx, c))) = kept c" by (simp add: take_ctl_def Let_def r u)
qed

lemma read_ctls_kept: "read_ctls sync ch k s sc = (ok, s', sc') \<Longrightarrow> kept (snd sc') = kept (snd sc)"
proof (induction sync ch k s sc rule: read_ctls.induct)
  case (2 sync ch k s sc)
  obtain ok1 s1 m where x: "sync OpRead 0 (phys ch LAST_PURGE_POS) SIZE_OF_CTL (s, CacheMem (snd sc)) = (ok1, s1, m)" by (metis prod_cases3)
  show ?case
  proof (cases ok1)
    case True
    have "kept (snd sc') = kept (snd (take_ctl ch (fst sc, (snd sc)\<lparr>CacheMem := m\<rparr>)))"
      using "2.IH" [OF x [symmetric] refl refl] "2.prems" x True by (simp add: Let_def del: size_defs)
    then show ?thesis by simp
  next
    case False
    then show ?thesis using "2.prems" x by (auto simp: Let_def simp del: size_defs)
  qed
qed simp

lemma read_purges_kept: "read_purges sync s c = (ok, s', c') \<Longrightarrow> kept c' = kept c"
proof (induction sync s c rule: read_purges.induct)
  case (1 sync s c)
  obtain ok1 s1 m where x: "sync OpRead 0 (wrap32 (phys (ChunkNo c) (PurgePos c) + LAST_CACHE_POS)) 1 (s, CacheMem c) = (ok1, s1, m)"
    by (metis prod_cases3)
  have e: "read_purges sync s c = (if PurgePos c < LAST_PURGE_POS then if \<not> ok1 then (False, s1, c\<lparr>CacheMem := m\<rparr>)
      else if purge_current (c\<lparr>CacheMem := m\<rparr>) m then read_purges sync s1 (take_purge (c\<lparr>CacheMem := m\<rparr>)) else (True, s1, c\<lparr>CacheMem := m\<rparr>)
      else (True, s, c))"
    using x by (subst read_purges.simps) (simp add: Let_def del: size_defs)
  show ?case
  proof (cases "PurgePos c < LAST_PURGE_POS \<and> ok1 \<and> purge_current (c\<lparr>CacheMem := m\<rparr>) m")
    case True
    then have "kept c' = kept (take_purge (c\<lparr>CacheMem := m\<rparr>))"
      using "1.IH" [OF _ x [symmetric] refl refl] "1.prems" e by simp
    then show ?thesis by simp
  next
    case False
    then show ?thesis using "1.prems" e by (auto split: if_splits)
  qed
qed

lemma recover_kept:
  assumes "recover_ctx sync s c = (ok, s', c')" shows "kept c' = kept c"
proof -
  obtain ok1 s1 mx c1 where x: "read_ctls sync 0 (MAX_CHUNKS c) s (0, c\<lparr>ChunkNo := 1\<rparr>) = (ok1, s1, mx, c1)" by (metis prod_cases4)
  obtain ok2 s2 c2 where y: "read_purges sync s1 (start_chunk c1) = (ok2, s2, c2)" by (metis prod_cases3)
  have "kept c1 = kept c" "kept c2 = kept c1" using read_ctls_kept [OF x] read_purges_kept [OF y] by simp_all
  then show ?thesis using assms x y by (auto simp: recover_ctx_def FindNextChunk_def split: if_splits)
qed

lemma first_map_used:
  "Map c = first_map removable \<Longrightarrow> used_set c ch = (if \<not> removable \<and> ch = 1 \<and> 0 < SIZE_OF_MAP c then {0} else {})"
  by (auto simp: used_set_def first_map_def)

lemma formatted_inv:
  assumes f: "formatted ccn b removable d0 d" "ccn < 4294967296" and n: "10 \<le> n" "n \<le> 500"
    and b: "0 < SIZE_OF_MAP c" "SIZE_OF_MAP c * 10 \<le> n * SIZE_OF_CHUNK"
    and t: "tables_ok c" "pos_ok c" "CachePos c = 0" "NextChunkNo c < MAX_CHUNKS c" "NextChunkNo c \<noteq> ChunkNo c"
    and c: "ChunkNo c = 1" "PurgePos c = end_pos removable" "FinalizedPos c = end_pos removable" "Map c = first_map removable"
      "\<And>k. SCN (ChunkInfo c k) = (if k = 1 then 1 else 0)" "\<not> RelocationPrepared c" "\<not> RelocationDone c"
      "\<And>w. w < CTL_WORDS \<Longrightarrow> ChunkCtl c w = ctl_on d 1 w" "MAX_CHUNKS c = n" "\<not> CacheDirty c"
  shows "ftl_inv d c" "brisk c" "scn_now c = 1" "L < 8 * SIZE_OF_MAP c \<Longrightarrow> vread d c L = formatted_sector removable b L"
proof -
  have wf: "cache_wf c" using t(3) by (simp add: cache_wf_def)
  have w8: "removable = False \<Longrightarrow> unat (ChunkCtl c 8) = 0"
    using formatted_words(7) [OF f, of 0] c(8) [of 8] by (simp add: CTL_WORDS_def)
  have u: "used_set c (NextChunkNo c) = {}" using first_map_used [OF c(4)] t(5) c(1) by simp
  have "geom c" using t(1,2,4,5) n b c by (simp add: geom_def tables_ok_def pos_ok_def)
  moreover have "map_ok c" using c n by (auto simp: map_ok_def first_map_def off8_def end_pos_def)
  moreover have "used_ok c" using t(1) by (simp add: tables_ok_def)
  moreover have "dir_ok d c" using c w8 by (auto simp: dir_ok_def first_map_def dir_word_def)
  moreover have "final_ok d c" using c by (simp add: final_ok_def end_pos_def)
  moreover have "newest c" using c by (simp add: newest_def)
  moreover have "pace c" using c t(3) u by (simp add: pace_def)
  moreover show "brisk c" "scn_now c = 1" using c t(3) u by (simp_all add: brisk_def scn_now_def)
  ultimately show "ftl_inv d c" using wf c(6) by (simp add: ftl_inv_def)
  assume L: "L < 8 * SIZE_OF_MAP c"
  have "\<not> cached c L" using t(3) by (simp add: cached_def)
  then have v: "vread d c L = (if Map c (blk L) = NOT_MAPPED then zero_sector else d (Map c (blk L) + off8 L))"
    by (rule vread_uncached [OF wf])
  show "vread d c L = formatted_sector removable b L"
  proof (cases "removable \<or> blk L \<noteq> 0")
    case True
    then have "Map c (blk L) = NOT_MAPPED" using c(4) by (auto simp: first_map_def)
    then show ?thesis using True v by (auto simp: formatted_sector_def blk_def)
  next
    case False
    then have "Map c (blk L) = SIZE_OF_CHUNK" "off8 L = L" "L < 8" using c(4) lba_split [of L] off8_less [of L]
      by (simp_all add: first_map_def del: off8_less)
    then show ?thesis using False v f(1) by (simp add: formatted_def)
  qed
qed

lemma conf_of_formatted:
  assumes "formatted ccn b removable d0 d" "ccn < 4294967296"
  shows "fst (VerifyChecksum128 (conf_words (d 0)))" "cf_CCN (conf_of (d 0)) = ccn" "cf_Magic (conf_of (d 0)) = unat (mb_Magic b)"
    "cf_SIZE_OF_MAP (conf_of (d 0)) = unat (mb_SIZE_OF_MAP b)" "cf_Version (conf_of (d 0)) = LEVELING_VERSION"
proof -
  let ?ws = "new_conf_words ccn b"
  have l: "length ?ws = CONF_WORDS" by (simp add: new_conf_words_def CONF_WORDS_def)
  then have l4: "4 \<le> length ?ws" by (simp add: CONF_WORDS_def)
  have c: "conf_words (d 0) = ProduceChecksum128 ?ws" using assms(1) by (simp add: formatted_def)
  show "fst (VerifyChecksum128 (conf_words (d 0)))" unfolding c by (rule ck.check_seal [OF l4])
  have w: "d 0 k = ?ws ! k" if "k < 8" for k
  proof -
    have "d 0 k = conf_words (d 0) ! k" using that by (simp add: conf_words_def CONF_WORDS_def)
    also have "\<dots> = conf_words (put_words (ProduceChecksum128 ?ws) zero_sector) ! k"
      unfolding c using l by (simp add: CONF_WORDS_def)
    also have "\<dots> = put_words (ProduceChecksum128 ?ws) zero_sector k" using that by (simp add: conf_words_def CONF_WORDS_def)
    also have "\<dots> = ?ws ! k" by (rule sealed_field [OF l that])
    finally show ?thesis .
  qed
  show "cf_CCN (conf_of (d 0)) = ccn" "cf_Magic (conf_of (d 0)) = unat (mb_Magic b)"
    "cf_SIZE_OF_MAP (conf_of (d 0)) = unat (mb_SIZE_OF_MAP b)" "cf_Version (conf_of (d 0)) = LEVELING_VERSION"
    using assms(2) by (simp_all add: conf_of_def w new_conf_words_def)
qed

lemma initialize_ctx:
  assumes "InitializeLevelingCtx MBR at_lock x p = (True, y, p')"
  shows "\<exists>obj. dx_Ctx y = Some (obj, new_ctx (conf_of MBR) (GetMaxChunks x)) \<and> dx_Mode y = VLTL_MODE_RECOVERY"
  using assms unfolding InitializeLevelingCtx_def Let_def by (auto split: if_splits option.splits prod.splits)

text \<open>The context a device has when it is started after a format.\<close>

definition just_formatted :: "bool \<Rightarrow> mode_buffer \<Rightarrow> mem \<Rightarrow> ctx \<Rightarrow> bool" where
  "just_formatted removable b d c \<longleftrightarrow>
     (\<exists>d0. formatted (CCN c) b removable d0 d \<and> ccn_fresh d0 (MAX_CHUNKS c) (CCN c)) \<and> Magic c = unat (mb_Magic b) \<and>
     SIZE_OF_MAP c = unat (mb_SIZE_OF_MAP b) \<and> 2 \<le> MAX_CHUNKS c \<and> MAX_CHUNKS c \<le> 500 \<and> CachePos c = 0 \<and> ChunkNo c = 1 \<and>
     PurgePos c = end_pos removable \<and> FinalizedPos c = end_pos removable \<and> Map c = first_map removable \<and> scn_now c = 1 \<and>
     (\<forall>w < CTL_WORDS. ChunkCtl c w = ctl_on d 1 w)"

lemma format_start:
  assumes disk: "sync_disk sync medium" and p: "pool_ok p"
    and fmt: "SetLevelingConfig sync b x p (s, m) = Some (True, x', p', s', m')" "unat (mb_Mode b) = mode_num VLTL_MODE_FORMAT"
    and size: "0 < unat (mb_SIZE_OF_MAP b)" "unat (mb_SIZE_OF_MAP b) * 10 \<le> GetMaxChunks x * SIZE_OF_CHUNK" "10 \<le> GetMaxChunks x"
    and st: "stale (cf_CCN (conf_of (medium s' 0))) b (dx_RemovableMedia x) (medium s')"
    and start: "InitializeLevelingCtx (medium s' 0) at_lock y q = (True, y', q')" "GetMaxChunks y = GetMaxChunks x"
    and rec: "medium t = medium s'" "DoRecovery1 sync t y' = (t', z)" "dx_Mode z = VLTL_MODE_ACTIVE"
  shows "\<exists>obj c. dx_Ctx z = Some (obj, c) \<and> SIZE_OF_MAP c = unat (mb_SIZE_OF_MAP b) \<and> ftl_inv (medium t') c \<and>
    brisk c \<and> scn_now c = 1 \<and> (\<forall>L. in_dev c L \<longrightarrow> vread (medium t') c L = formatted_sector (dx_RemovableMedia x) b L) \<and>
    (\<exists>f n. kept c = kept (new_ctx f n)) \<and> just_formatted (dx_RemovableMedia x) b (medium t') c"
proof -
  let ?rem = "dx_RemovableMedia x" and ?n = "GetMaxChunks x" and ?d = "medium s'"
  have "0 < mb_SIZE_OF_MAP b" using size(1) by (simp add: word_greater_zero_iff unat_gt_0)
  from sync_disk.set_config_formatted [OF disk fmt p this] obtain ccn where
    f: "ccn_fresh (medium s) ?n ccn" "formatted ccn b ?rem (medium s) ?d" .
  have ccn: "ccn < 4294967296" using f(1) by (simp add: ccn_fresh_def)
  note cf = conf_of_formatted [OF f(2) ccn]
  have n: "2 \<le> ?n" "?n \<le> 500" using size(3) GetMaxChunks_le [of x] by simp_all
  have b: "unat (mb_SIZE_OF_MAP b) \<le> 33554431" using size(2) n(2) by simp
  obtain obj where y': "dx_Ctx y' = Some (obj, new_ctx (conf_of (?d 0)) ?n)" "dx_Mode y' = VLTL_MODE_RECOVERY"
    using initialize_ctx [OF start(1)] start(2) by auto
  let ?c0 = "new_ctx (conf_of (?d 0)) ?n"
  obtain ok t2 c where r: "recover_ctx sync t ?c0 = (ok, t2, c)" by (metis prod_cases3)
  have ok: ok and z: "dx_Ctx z = Some (obj, c)" "t' = t2" using rec(2,3) y' r by (cases ok; auto simp: DoRecovery1_def)+
  note r' = r [unfolded eqTrueI [OF ok]]
  have c0: "CCN ?c0 = ccn" "Magic ?c0 = unat (mb_Magic b)" "MAX_CHUNKS ?c0 = ?n" "SIZE_OF_MAP ?c0 = unat (mb_SIZE_OF_MAP b)"
    "SCN (ChunkInfo ?c0 k) = 0" "Map ?c0 = (\<lambda>_. NOT_MAPPED)" for k
    using cf by (simp_all add: new_ctx_def zero_ctx_def)
  have stale: "stale ccn b ?rem ?d" using st cf(2) by simp
  note R = sync_disk.recover_formatted [OF disk f(2,1) stale n size(1) b c0 rec(1) r']
  have "rec_ok (?c0\<lparr>ChunkNo := 1\<rparr>)" by (rule new_ctx_rec_ok) (use n cf in simp_all)
  note T = recover_ctx_tables [OF this r']
  have S: "0 < SIZE_OF_MAP c" "SIZE_OF_MAP c * 10 \<le> ?n * SIZE_OF_CHUNK" using size R(10) by simp_all
  have T': "tables_ok c" "pos_ok c" "CachePos c = 0" "NextChunkNo c < MAX_CHUNKS c" "NextChunkNo c \<noteq> ChunkNo c"
    using T by simp_all
  have kp: "kept c = kept ?c0" by (rule recover_kept [OF r'])
  then have clean: "\<not> CacheDirty c" by (simp add: kept_def new_ctx_def zero_ctx_def)
  note I = formatted_inv [OF f(2) ccn size(3) n(2) S T' R(2-9,11) clean]
  have "ftl_inv ?d c \<and> brisk c \<and> scn_now c = 1 \<and> (\<forall>L. L < 8 * SIZE_OF_MAP c \<longrightarrow> vread ?d c L = formatted_sector ?rem b L)"
    using I by blast
  moreover have "just_formatted ?rem b ?d c"
    unfolding just_formatted_def R(3-5,10-13) using f n T'(3) I(3) R(2,9) by blast
  ultimately show ?thesis using z R(1,10) kp by (auto simp: in_dev_def)
qed

section \<open>Properties\<close>


text \<open>A device of ten chunks, formatted and started on an ideal disk that was blank.\<close>

lemma ideal_ok [simp]: "fst (ideal_sync op pos P n w)"
  by (cases op) (simp_all add: ideal_sync_def)

lemma ideal_medium: "fst (format_medium ideal_sync ccn b x w)"
  by (simp add: format_medium_def format_chunk_def format_cache_def split_beta Let_def)

lemma ideal_ccns: "\<exists>ccns w'. read_ccns ideal_sync i k w = (Some ccns, w')"
proof (induction k arbitrary: i w)
  case (Suc k)
  obtain s1 m1 where x: "ideal_sync OpRead 0 (phys i LAST_PURGE_POS) 1 w = (True, s1, m1)" by (simp add: ideal_sync_def)
  obtain ccns w' where "read_ccns ideal_sync (i + 1) k (s1, m1) = (Some ccns, w')" using Suc.IH by blast
  then show ?case using x by (simp add: Let_def del: size_defs)
qed simp

lemma full_alloc: "p_fails p = (\<lambda>_. False) \<Longrightarrow> \<exists>n p'. alloc k p = (Some n, p') \<and> p_fails p' = (\<lambda>_. False)"
  by (simp add: alloc_def Let_def)

lemma full_request:
  assumes "p_fails p = (\<lambda>_. False)"
  shows "\<exists>r p'. CreateRequest mtl n p = (Some r, p') \<and> p_fails p' = (\<lambda>_. False)"
  using assms by (simp add: CreateRequest_def alloc_def Let_def)

lemma full_reads:
  "p_fails p = (\<lambda>_. False) \<Longrightarrow> \<exists>rs p'. create_reads n mtl p = (rs, p') \<and> p_fails p' = (\<lambda>_. False)"
proof (induction n arbitrary: p)
  case (Suc n)
  obtain r p1 where "CreateRequest mtl 0 p = (Some r, p1)" "p_fails p1 = (\<lambda>_. False)" using full_request [OF Suc.prems] by blast
  then show ?case using Suc.IH [of p1] by (auto simp: Let_def)
qed simp

lemma full_build:
  assumes "p_fails p = (\<lambda>_. False)"
  shows "fst (build_ctx mtl o0 p)"
proof -
  obtain rs p1 where 1: "create_reads READ_THREADS mtl p = (rs, p1)" "p_fails p1 = (\<lambda>_. False)" using full_reads [OF assms] by blast
  obtain cr p2 where 2: "CreateRequest mtl (SIZE_OF_CACHE * 512) p1 = (Some cr, p2)" "p_fails p2 = (\<lambda>_. False)" using full_request [OF 1(2)] by blast
  obtain rr p3 where 3: "CreateRequest mtl (SIZE_OF_CACHE * 512) p2 = (Some rr, p3)" "p_fails p3 = (\<lambda>_. False)" using full_request [OF 2(2)] by blast
  obtain m p4 where 4: "alloc PoolMem p3 = (Some m, p4)" "p_fails p4 = (\<lambda>_. False)" using full_alloc [OF 3(2)] by blast
  obtain ci p5 where 5: "alloc PoolMem p4 = (Some ci, p5)" using full_alloc [OF 4(2)] by blast
  show ?thesis using 1 2 3 4 5 by (simp add: build_ctx_def del: size_defs)
qed

lemma ideal_format:
  "\<exists>x' p' s' m'. SetLevelingConfig ideal_sync (demo_mode 4) (cfg_dx VLTL_MODE_DIRECT None) full_pool (d, m) = Some (True, x', p', s', m')"
proof -
  let ?x = "cfg_dx VLTL_MODE_DIRECT None" and ?b = "demo_mode 4"
  have ff: "p_fails full_pool = (\<lambda>_. False)" by (simp add: full_pool_def)
  obtain r p1 where c: "CreateRequest (dx_MaximumTransferLength ?x) (SIZE_OF_CACHE * 512) full_pool = (Some r, p1)" "p_fails p1 = (\<lambda>_. False)"
    using full_request [OF ff] by blast
  obtain a p2 where al: "alloc PoolMem p1 = (Some a, p2)" using full_alloc [OF c(2)] by blast
  obtain ccns d1 m1 where rc: "read_ccns ideal_sync 0 (GetMaxChunks ?x) (d, m) = (Some ccns, d1, m1)"
    using ideal_ccns [of 0 "GetMaxChunks ?x" "(d, m)"] by auto
  have "length ccns \<le> 500" using idl.read_ccns_list [OF _ rc] GetMaxChunks_le [of ?x] by simp
  from retry2_fresh [OF this] obtain ccn where n: "retry2 ccns (max_ccn ccns) = Some ccn" by blast
  have g: "GetNewCCN ideal_sync ?x p1 (d, m) = Some (Some ccn, dealloc PoolMem a p2, d1, m1)"
    using al rc n by (simp add: GetNewCCN_def)
  have sf: "SetFormatMode ?x = (True, ChangeMode VLTL_MODE_FORMAT ?x)" by (simp add: SetFormatMode_def cfg_dx_def)
  obtain w' where "format_medium ideal_sync ccn ?b (ChangeMode VLTL_MODE_FORMAT ?x) (d1, m1) = (True, w')"
    using ideal_medium [of ccn ?b "ChangeMode VLTL_MODE_FORMAT ?x" "(d1, m1)"] by (metis prod.collapse)
  then obtain x' p' s' m' where "do_format ideal_sync ?b ?x p1 (d, m) = Some (True, x', p', s', m')"
    using g sf by (cases w') (simp add: do_format_def)
  moreover have "mb_Version ?b = 1" "mb_Revision ?b = 1" "unat (mb_Mode ?b) = mode_num VLTL_MODE_FORMAT"
    by (simp_all add: demo_mode_def mode_head_def)
  ultimately show ?thesis using c by (auto simp: SetLevelingConfig_def)
qed

lemma demo_chunks: "GetMaxChunks (cfg_dx m c) = 10"
  by (simp add: GetMaxChunks_def cfg_dx_def)

lemma full_initialize:
  assumes "fst (VerifyChecksum128 (conf_words MBR))" "cf_Version (conf_of MBR) = LEVELING_VERSION" "cf_SIZE_OF_MAP (conf_of MBR) = 16"
  shows "\<exists>y q. InitializeLevelingCtx MBR (\<lambda>x. x) (cfg_dx VLTL_MODE_INITIAL None) full_pool = (True, y, q)"
proof -
  obtain a p1 where a: "alloc PoolMem full_pool = (Some a, p1)" "p_fails p1 = (\<lambda>_. False)"
    using full_alloc [of full_pool PoolMem] by (auto simp: full_pool_def)
  let ?o0 = "\<lparr>co_Ctx = a, co_ReadReq = [], co_CacheReq = None, co_RelocateReq = None, co_Map = None, co_ChunkInfo = None\<rparr>"
  obtain obj p2 where b: "build_ctx 65536 ?o0 p1 = (True, obj, p2)"
    using full_build [OF a(2), of 65536 ?o0] by (metis prod.collapse)
  have n: "\<not> ctx_too_big (conf_of MBR) 10" using assms(3) by (simp add: ctx_too_big_def)
  have x: "dx_MaximumTransferLength (cfg_dx VLTL_MODE_INITIAL None) = 65536" "dx_Ctx (cfg_dx VLTL_MODE_INITIAL None) = None"
    "dx_Mode (cfg_dx VLTL_MODE_INITIAL None) = VLTL_MODE_INITIAL" by (simp_all add: cfg_dx_def)
  show ?thesis using assms a b n x by (simp add: InitializeLevelingCtx_def demo_chunks Let_def)
qed

lemma demo_device:
  obtains x' p' s' m' y' q' t' z where
    "SetLevelingConfig ideal_sync (demo_mode 4) (cfg_dx VLTL_MODE_DIRECT None) full_pool (\<lambda>_. zero_sector, \<lambda>_. zero_sector) =
       Some (True, x', p', s', m')"
    "stale (cf_CCN (conf_of (s' 0))) (demo_mode 4) (dx_RemovableMedia (cfg_dx VLTL_MODE_DIRECT None)) s'"
    "InitializeLevelingCtx (s' 0) (\<lambda>x. x) (cfg_dx VLTL_MODE_INITIAL None) full_pool = (True, y', q')"
    "DoRecovery1 ideal_sync s' y' = (t', z)" "dx_Mode z = VLTL_MODE_ACTIVE"
proof -
  let ?z = "\<lambda>_::nat. zero_sector" and ?x = "cfg_dx VLTL_MODE_DIRECT None" and ?y = "cfg_dx VLTL_MODE_INITIAL None" and ?b = "demo_mode 4"
  have p: "pool_ok full_pool" by (simp add: full_pool_def pool_ok_def)
  have b: "unat (mb_Mode ?b) = mode_num VLTL_MODE_FORMAT" "0 < mb_SIZE_OF_MAP ?b" "unat (mb_SIZE_OF_MAP ?b) = 16" "unat (mb_Magic ?b) = 9"
    by (simp_all add: demo_mode_def)
  obtain x' p' s' m' where f: "SetLevelingConfig ideal_sync ?b ?x full_pool (?z, ?z) = Some (True, x', p', s', m')"
    using ideal_format by blast
  from idl.set_config_formatted [OF f b(1) p b(2)] obtain ccn where
    g: "ccn_fresh ?z (GetMaxChunks ?x) ccn" "formatted ccn ?b (dx_RemovableMedia ?x) ?z s'" by blast
  have ccn: "ccn < 4294967296" using g(1) by (simp add: ccn_fresh_def)
  note cf = conf_of_formatted [OF g(2) ccn]
  obtain y' q' where i: "InitializeLevelingCtx (s' 0) (\<lambda>x. x) ?y full_pool = (True, y', q')"
    using full_initialize [OF cf(1,5)] cf(4) b(3) by auto
  obtain t' z where r: "DoRecovery1 ideal_sync s' y' = (t', z)" by fastforce
  obtain obj c0 where y': "dx_Ctx y' = Some (obj, c0)" "dx_Mode y' = VLTL_MODE_RECOVERY" using initialize_ctx [OF i] by blast
  have "fst (recover_ctx ideal_sync s' c0)" by (rule recover_ctx_all) simp
  then have a: "dx_Mode z = VLTL_MODE_ACTIVE" using r y' by (auto simp: DoRecovery1_def split: prod.splits)
  have "s' (SIZE_OF_CHUNK + end_pos (dx_RemovableMedia ?x) + LAST_CACHE_POS) = zero_sector"
    using g(2) by (simp add: formatted_def format_area_def end_pos_def cfg_dx_def)
  then have "stale (cf_CCN (conf_of (s' 0))) ?b (dx_RemovableMedia ?x) s'" using b(4) by (simp add: stale_def Let_def zero_sector_def)
  then show ?thesis using that f i r a by blast
qed

lemma demo_params: "pool_ok full_pool" "unat (mb_Mode (demo_mode 4)) = mode_num VLTL_MODE_FORMAT" "unat (mb_SIZE_OF_MAP (demo_mode 4)) = 16"
  by (simp_all add: full_pool_def pool_ok_def demo_mode_def)


end
