(* ===== verification/FtlRead.thy ===== *)
theory FtlRead
  imports Device
begin

text \<open>
  The read side: \<open>ExecuteReadHandler\<close> with the completion routine of its transfers returns what the
  mapped device holds (\<open>vread\<close>), in a bounded number of transfers, and changes no table.
\<close>

section \<open>A run of consecutive sectors\<close>

lemma block_prefix:
  assumes wf: "cache_wf c" and "\<not> cached c L" "L \<le> L'" "blk L' = blk L"
  shows "\<not> cached c L'"
proof
  assume "cached c L'"
  then obtain p where p: "p < CachePos c" "CacheLBA c p = L'" by (auto simp: cached_def)
  let ?q = "base8 p + off8 L"
  have o: "off8 p = off8 L'" using cache_wfD(1) [OF wf p(1)] p(2) by simp
  have "off8 L \<le> off8 L'" using assms(3,4) lba_split [of L] lba_split [of L'] by simp
  then have q: "?q < CachePos c" using p(1) o lba_split [of p] by (simp add: base8_blk)
  have bq: "base8 ?q = base8 p" "off8 ?q = off8 L" by (simp_all add: base8_blk)
  have "base8 (CacheLBA c ?q) = base8 L'" using cache_wf_head [OF wf p(1)] cache_wf_head [OF wf q] bq p(2) by simp
  moreover have "off8 (CacheLBA c ?q) = off8 L" using cache_wfD(1) [OF wf q] bq by simp
  ultimately have "CacheLBA c ?q = L"
    using assms(4) lba_split [of "CacheLBA c ?q"] lba_split [of L] by (simp add: base8_blk)
  then show False using assms(2) q by (auto simp: cached_def)
qed

text \<open>Where the sectors of one transfer lie: one behind the other, and none of them in the cache.\<close>

definition on_medium :: "ctx \<Rightarrow> nat \<Rightarrow> nat \<Rightarrow> bool" where
  "on_medium c L p \<longleftrightarrow> \<not> cached c L \<and> Map c (blk L) \<noteq> NOT_MAPPED \<and> Map c (blk L) + off8 L = p"

lemma on_medium_vread: "cache_wf c \<Longrightarrow> on_medium c L p \<Longrightarrow> vread d c L = d p"
  by (auto simp: on_medium_def vread_uncached)

lemma next_off: "off8 (Suc L) \<noteq> 0 \<Longrightarrow> blk (Suc L) = blk L \<and> off8 (Suc L) = Suc (off8 L)"
  by (simp add: off8_def blk_def mod_Suc div_Suc split: if_splits)

lemma mapped_small:
  assumes "ftl_inv d c" "on_medium c L p" "in_dev c L"
  shows "p < 131072000"
proof -
  have j: "blk L < SIZE_OF_MAP c" using assms(3) by (simp add: in_dev_def blk_less_iff)
  have "off8 (Map c (blk L)) = 0" "Map c (blk L) div SIZE_OF_CHUNK < MAX_CHUNKS c"
    using ftl_invD(3) [OF assms(1)] assms(2) j unfolding map_ok_def on_medium_def by blast+
  moreover have "MAX_CHUNKS c \<le> 500" using ftl_invD(1) [OF assms(1)] by (simp add: geom_def)
  ultimately have "p div SIZE_OF_CHUNK < 500"
    using addr_split(1) [of "Map c (blk L)" "off8 L"] assms(2) by (simp add: on_medium_def)
  then show ?thesis by (simp add: div_less_iff_less_mult)
qed

lemma read_run_medium:
  assumes inv: "ftl_inv d c" and start: "on_medium c LBA PLBA" and dev: "LBA + LEN \<le> 8 * SIZE_OF_MAP c" "0 < LEN"
  shows "k < read_run_len c PLBA LBA LEN \<Longrightarrow> on_medium c (LBA + k) (PLBA + k)"
proof (induction k)
  case (Suc k)
  note wf = ftl_invD(2) [OF inv]
  have len: "read_run_len c PLBA LBA LEN \<le> LEN"
    unfolding read_run_len_def using dev(2) by (intro for_len_le) simp
  have k: "k < read_run_len c PLBA LBA LEN" using Suc.prems by simp
  have IH: "on_medium c (LBA + k) (PLBA + k)" by (rule Suc.IH [OF k])
  have small: "LBA + Suc k < 4294967295" using Suc.prems len dev(1) geom_size [OF ftl_invD(1) [OF inv]] by simp
  have "in_dev c (LBA + k)" using k len dev by (simp add: in_dev_def)
  then have psmall: "PLBA + k < 131072000" by (rule mapped_small [OF inv IH])
  have w: "wrap32 (LBA + Suc k) = LBA + Suc k" "wrap32 (PLBA + Suc k) = PLBA + Suc k" using small psmall by simp_all
  have "off8 (LBA + Suc k) \<noteq> 0 \<or>
      (PLBA + Suc k = Map c (blk (LBA + Suc k)) \<and> GetCachedPos c (LBA + Suc k) = NOT_MAPPED)"
  proof -
    have one_le: "1 \<le> Suc k" by simp
    have "off8 (wrap32 (LBA + Suc k)) \<noteq> 0 \<or> (wrap32 (PLBA + Suc k) = Map c (blk (wrap32 (LBA + Suc k))) \<and>
        GetCachedPos c (wrap32 (LBA + Suc k)) = NOT_MAPPED)"
      using for_len_all [of 1 "Suc k" "\<lambda>len. off8 (wrap32 (LBA + len)) \<noteq> 0 \<or> (wrap32 (PLBA + len) = Map c (blk (wrap32 (LBA + len))) \<and>
        GetCachedPos c (wrap32 (LBA + len)) = NOT_MAPPED)" LEN, OF one_le] Suc.prems unfolding read_run_len_def by blast
    then show ?thesis unfolding w .
  qed
  then show ?case
  proof
    assume "off8 (LBA + Suc k) \<noteq> 0"
    then have n: "blk (LBA + Suc k) = blk (LBA + k)" "off8 (LBA + Suc k) = Suc (off8 (LBA + k))"
      using next_off [of "LBA + k"] by simp_all
    have "\<not> cached c (LBA + Suc k)"
      using block_prefix [OF wf _ _ n(1)] IH by (simp add: on_medium_def)
    then show ?thesis using IH n by (simp add: on_medium_def)
  next
    assume e: "PLBA + Suc k = Map c (blk (LBA + Suc k)) \<and> GetCachedPos c (LBA + Suc k) = NOT_MAPPED"
    show ?thesis
    proof (cases "off8 (LBA + Suc k) = 0")
      case True
      have "\<not> cached c (LBA + Suc k)" using e cached_iff [OF wf] by blast
      moreover have "Map c (blk (LBA + Suc k)) \<noteq> NOT_MAPPED" using e psmall by auto
      ultimately show ?thesis using True e by (simp add: on_medium_def)
    next
      case False
      then have n: "blk (LBA + Suc k) = blk (LBA + k)" "off8 (LBA + Suc k) = Suc (off8 (LBA + k))"
        using next_off [of "LBA + k"] by simp_all
      have "\<not> cached c (LBA + Suc k)"
        using block_prefix [OF wf _ _ n(1)] IH by (simp add: on_medium_def)
      then show ?thesis using IH n by (simp add: on_medium_def)
    qed
  qed
qed (use start in simp)

section \<open>The state of a read\<close>

definition mappable :: "thread \<Rightarrow> bool" where
  "mappable t \<longleftrightarrow> th_DataSystemAddress t \<noteq> None \<or> fst (GetDataSystemAddress (wrap32 (th_LEN t * 512)) False t)"

lemma mappable_cong:
  assumes "th_Mdl t' = th_Mdl t" "th_LEN t' = th_LEN t" "map_option irp_Srb (th_Irp t') = map_option irp_Srb (th_Irp t)"
    "th_DataSystemAddress t' = th_DataSystemAddress t \<or> th_DataSystemAddress t' \<noteq> None"
  shows "mappable t \<Longrightarrow> mappable t'"
  using assms unfolding mappable_def GetDataSystemAddress_def buffer_ok_def Let_def
  by (cases "th_Irp t"; cases "th_Irp t'") (auto split: option.splits)

text \<open>A read changes nothing of the context but its own thread, and of that not what the gate looks at.\<close>

definition aside :: "nat \<Rightarrow> ctx \<Rightarrow> ctx \<Rightarrow> bool" where
  "aside i c c' \<longleftrightarrow> (\<exists>t. c' = c\<lparr>ReadThread := (ReadThread c)(i := t)\<rparr> \<and>
     th_Marked t = th_Marked (ReadThread c i) \<and> th_IsRead t = th_IsRead (ReadThread c i) \<and>
     th_Index t = th_Index (ReadThread c i) \<and> th_FreeLink t = th_FreeLink (ReadThread c i))"

lemma aside_thread [simp]:
  "th_Marked t = th_Marked (ReadThread c i) \<Longrightarrow> th_IsRead t = th_IsRead (ReadThread c i) \<Longrightarrow> th_Index t = th_Index (ReadThread c i) \<Longrightarrow>
   th_FreeLink t = th_FreeLink (ReadThread c i) \<Longrightarrow> aside i c (c\<lparr>ReadThread := (ReadThread c)(i := t)\<rparr>)"
  unfolding aside_def by blast

lemma aside_refl [simp]: "aside i c c"
  using aside_thread [of "ReadThread c i" c i] by simp

lemma aside_same: "aside i c c' \<Longrightarrow> same_ftl c c'"
  by (auto simp: aside_def same_ftl_def)

lemma aside_trans: "aside i a b \<Longrightarrow> aside i b c \<Longrightarrow> aside i a c"
proof -
  assume "aside i a b" "aside i b c"
  then obtain t u where "b = a\<lparr>ReadThread := (ReadThread a)(i := t)\<rparr>" "c = b\<lparr>ReadThread := (ReadThread b)(i := u)\<rparr>"
    "th_Marked t = th_Marked (ReadThread a i)" "th_IsRead t = th_IsRead (ReadThread a i)" "th_Index t = th_Index (ReadThread a i)"
    "th_FreeLink t = th_FreeLink (ReadThread a i)" "th_Marked u = th_Marked (ReadThread b i)" "th_IsRead u = th_IsRead (ReadThread b i)"
    "th_Index u = th_Index (ReadThread b i)" "th_FreeLink u = th_FreeLink (ReadThread b i)" unfolding aside_def by blast
  then show ?thesis by simp
qed

text \<open>\<open>T\<close> sectors have been read.\<close>

definition read_state :: "mem \<Rightarrow> ctx \<Rightarrow> nat \<Rightarrow> nat \<times> nat \<times> mem \<times> irp \<times> irp list \<Rightarrow> nat \<Rightarrow> hs \<Rightarrow> bool" where
  "read_state d c0 i rd T h \<longleftrightarrow>
     (let (LBA, LEN, data, ip, ds) = rd; t = ReadThread (hs_Ctx h) i in
      hs_Mode h = VLTL_MODE_ACTIVE \<and> aside i c0 (hs_Ctx h) \<and> hs_Done h = ds \<and> T \<le> LEN \<and>
      th_LBA t = LBA \<and> th_LEN t = LEN \<and> th_Transferred t = T \<and> mappable t \<and>
      (\<exists>b. th_Irp t = Some (ip\<lparr>irp_Pending := b\<rparr>)) \<and>
      th_Data t = (\<lambda>k. if k < T then vread d c0 (LBA + k) else data k))"

lemma read_state_data:
  assumes st: "read_state d c0 i (LBA, LEN, data, ip, ds) T h"
    and h': "ReadThread (hs_Ctx h') i = (ReadThread (hs_Ctx h) i)\<lparr>th_DataSystemAddress := a, th_Data := m, th_Transferred := T + n\<rparr>"
    and a: "a = th_DataSystemAddress (ReadThread (hs_Ctx h) i) \<or> a \<noteq> None"
    and same: "aside i (hs_Ctx h) (hs_Ctx h')" and ms: "hs_Mode h' = hs_Mode h" "hs_Done h' = hs_Done h"
    and n: "T + n \<le> LEN"
    and m: "\<And>k. T \<le> k \<Longrightarrow> k < T + n \<Longrightarrow> m k = vread d c0 (LBA + k)"
      "\<And>k. k < T \<or> T + n \<le> k \<Longrightarrow> m k = th_Data (ReadThread (hs_Ctx h) i) k"
  shows "read_state d c0 i (LBA, LEN, data, ip, ds) (T + n) h'"
proof -
  have S: "hs_Mode h = VLTL_MODE_ACTIVE" "aside i c0 (hs_Ctx h)" "hs_Done h = ds" "th_LBA (ReadThread (hs_Ctx h) i) = LBA"
    "th_LEN (ReadThread (hs_Ctx h) i) = LEN" "mappable (ReadThread (hs_Ctx h) i)"
    "\<exists>b. th_Irp (ReadThread (hs_Ctx h) i) = Some (ip\<lparr>irp_Pending := b\<rparr>)"
    and dat: "th_Data (ReadThread (hs_Ctx h) i) = (\<lambda>k. if k < T then vread d c0 (LBA + k) else data k)"
    using st unfolding read_state_def Let_def prod.case by blast+
  have "mappable (ReadThread (hs_Ctx h') i)"
    unfolding h' by (rule mappable_cong [OF _ _ _ _ S(6)]) (use a in simp_all)
  moreover have "m = (\<lambda>k. if k < T + n then vread d c0 (LBA + k) else data k)"
  proof
    fix k
    show "m k = (if k < T + n then vread d c0 (LBA + k) else data k)"
      using m(1) [of k] m(2) [of k] unfolding dat by (cases "k < T"; cases "k < T + n") simp_all
  qed
  ultimately show ?thesis
    unfolding read_state_def Let_def prod.case h' using S aside_trans [OF S(2) same] ms n by simp
qed

section \<open>One round\<close>

lemma ensure_address_ok:
  assumes "mappable (ReadThread (hs_Ctx h) i)" "th_DataSystemAddress (ReadThread (hs_Ctx h) i) = None"
  shows "\<exists>a. ensure_address (TRead i) h = Inr (upd_thread (TRead i) (\<lambda>th. th\<lparr>th_DataSystemAddress := Some a\<rparr>) h)"
proof -
  obtain th where g: "GetDataSystemAddress (wrap32 (th_LEN (ReadThread (hs_Ctx h) i) * 512)) False (ReadThread (hs_Ctx h) i) = (True, th)"
    using assms unfolding mappable_def by (metis prod.exhaust_sel)
  then have "ensure_address (TRead i) h = Inr (upd_thread (TRead i) (\<lambda>_. th) h)" by (simp add: ensure_address_def)
  moreover obtain a where "th = (ReadThread (hs_Ctx h) i)\<lparr>th_DataSystemAddress := Some a\<rparr>"
    using GetDataSystemAddress_ok [OF g] by blast
  then have "upd_thread (TRead i) (\<lambda>_. th) h = upd_thread (TRead i) (\<lambda>th. th\<lparr>th_DataSystemAddress := Some a\<rparr>) h"
    by (simp add: upd_thread_def upd_ctx_def)
  ultimately show ?thesis by auto
qed

text \<open>The transfer of the handler, and what it reads.\<close>

definition reading :: "mem \<Rightarrow> ctx \<Rightarrow> nat \<Rightarrow> nat \<Rightarrow> nat \<Rightarrow> nat \<Rightarrow> rwreq \<Rightarrow> bool" where
  "reading d c0 i LBA LEN T q \<longleftrightarrow> rq_OPC q = OpRead \<and> rq_Buffer q = BufThread i \<and> rq_Pos q = T \<and> 0 < rq_LEN q \<and>
     T + rq_LEN q \<le> LEN \<and> rq_Completion q = ExecuteReadCompletion i \<and>
     (\<forall>k < rq_LEN q. d (rq_PLBA q + k) = vread d c0 (LBA + T + k))"

lemma read_iter_state:
  assumes inv: "ftl_inv d c0" and dev: "LBA + LEN \<le> 8 * SIZE_OF_MAP c0"
    and st: "read_state d c0 i (LBA, LEN, data, ip, ds) T h" and T: "T < LEN"
  shows "(\<exists>T' h'. read_iter i h = Inr h' \<and> T \<le> T' \<and> read_state d c0 i (LBA, LEN, data, ip, ds) T' h') \<or>
    (\<exists>h' q. read_iter i h = Inl (STATUS_PENDING, h') \<and> read_state d c0 i (LBA, LEN, data, ip, ds) T h' \<and>
       hs_Issued h' = hs_Issued h @ [q] \<and> reading d c0 i LBA LEN T q)"
proof -
  let ?c = "hs_Ctx h" and ?t = "ReadThread (hs_Ctx h) i" and ?L = "LBA + T"
  have S: "hs_Mode h = VLTL_MODE_ACTIVE" "same_ftl c0 ?c" "th_LBA ?t = LBA" "th_LEN ?t = LEN" "th_Transferred ?t = T" "mappable ?t"
    and as: "aside i c0 ?c"
    using st aside_same by (auto simp: read_state_def Let_def)
  have inv': "ftl_inv d ?c" and v: "vread d ?c X = vread d c0 X" for X
    using inv ftl_inv_same [OF S(2)] vread_same [OF S(2)] by simp_all
  note wf = ftl_invD(2) [OF inv']
  have dev': "LBA + LEN \<le> 8 * SIZE_OF_MAP ?c" using dev S(2) by (simp add: same_ftl_def)
  have small: "LBA + LEN \<le> 4294967295" using dev' geom_size [OF ftl_invD(1) [OF inv']] by simp
  have w: "wrap32 (LBA + T) = ?L" using small T by simp
  have go: "read_iter i h =
      (if GetCachedPos ?c ?L \<noteq> NOT_MAPPED
       then if th_DataSystemAddress ?t = None then ensure_address (TRead i) h
            else Inr (read_hit i (GetCachedPos ?c ?L) ?L (LEN - T) h)
       else if Map ?c (blk ?L) = NOT_MAPPED
       then if th_DataSystemAddress ?t = None
            then (case ensure_address (TRead i) h of Inl r \<Rightarrow> Inl r | Inr h1 \<Rightarrow> Inr (read_zero i h1))
            else Inr (read_zero i h)
       else Inl (STATUS_PENDING, read_medium i ?L (LEN - T) h))"
    using S T w by (simp add: read_iter_def Let_def)
  show ?thesis
  proof (cases "GetCachedPos ?c ?L \<noteq> NOT_MAPPED")
    case hit: True
    show ?thesis
    proof (cases "th_DataSystemAddress ?t = None")
      case True
      obtain a where e: "ensure_address (TRead i) h = Inr (upd_thread (TRead i) (\<lambda>th. th\<lparr>th_DataSystemAddress := Some a\<rparr>) h)"
        using ensure_address_ok [OF S(6) True] by blast
      have "read_state d c0 i (LBA, LEN, data, ip, ds) (T + 0) (upd_thread (TRead i) (\<lambda>th. th\<lparr>th_DataSystemAddress := Some a\<rparr>) h)"
        by (rule read_state_data [OF st, where a = "Some a" and m = "th_Data ?t"]) (use S T in simp_all)
      moreover have "read_iter i h = Inr (upd_thread (TRead i) (\<lambda>th. th\<lparr>th_DataSystemAddress := Some a\<rparr>) h)"
        unfolding go e using hit True by (simp only: simp_thms if_True if_False)
      ultimately show ?thesis using le_add1 [of T 0] by blast
    next
      case False
      let ?n = "cache_hit_len ?c (GetCachedPos ?c ?L) ?L (LEN - T)"
      have n: "1 \<le> ?n" "?n \<le> LEN - T" using cache_hit_len_bounds T by simp_all
      have d: "vread d ?c (?L + k) = CacheMem ?c (GetCachedPos ?c ?L + k)" if "k < ?n" for k
        using hit_run [OF hit wf _ _ that] vread_cached [OF wf] T small by simp
      have "read_state d c0 i (LBA, LEN, data, ip, ds) (T + ?n) (read_hit i (GetCachedPos ?c ?L) ?L (LEN - T) h)"
      proof (rule read_state_data [OF st, where a = "th_DataSystemAddress ?t"
            and m = "copy_sectors (th_Data ?t) T (CacheMem ?c) (GetCachedPos ?c ?L) ?n"])
        fix k assume "T \<le> k" "k < T + ?n"
        then show "copy_sectors (th_Data ?t) T (CacheMem ?c) (GetCachedPos ?c ?L) ?n k = vread d c0 (LBA + k)"
          using d [of "k - T"] v by (simp add: copy_sectors_in)
      qed (use S T n in \<open>simp_all add: read_hit_def Let_def copy_sectors_out\<close>)
      moreover have "read_iter i h = Inr (read_hit i (GetCachedPos ?c ?L) ?L (LEN - T) h)"
        unfolding go using hit False by (simp only: simp_thms if_True if_False)
      ultimately show ?thesis using le_add1 [of T ?n] by blast
    qed
  next
    case miss: False
    have nc: "\<not> cached ?c ?L" using miss cached_iff [OF wf] by blast
    show ?thesis
    proof (cases "Map ?c (blk ?L) = NOT_MAPPED")
      case True
      have z: "vread d c0 ?L = zero_sector" using vread_uncached [OF wf nc, of d] True v by simp
      have zm: "zero_sectors (th_Data ?t) T 1 k = vread d c0 (LBA + k)" if "T \<le> k" "k < T + 1" for k
      proof -
        have "k = T" using that by simp
        then show ?thesis using z by (simp add: zero_sectors_def)
      qed
      have zeroed: "read_state d c0 i (LBA, LEN, data, ip, ds) (T + 1) (read_zero i h)"
        by (rule read_state_data [OF st, where a = "th_DataSystemAddress ?t" and m = "zero_sectors (th_Data ?t) T 1"])
           (use S(5) T zm in \<open>simp_all add: read_zero_def\<close>, auto simp: zero_sectors_def)
      have zeroed': "read_state d c0 i (LBA, LEN, data, ip, ds) (T + 1)
          (read_zero i (upd_thread (TRead i) (\<lambda>th. th\<lparr>th_DataSystemAddress := Some a\<rparr>) h))" for a
        by (rule read_state_data [OF st, where a = "Some a" and m = "zero_sectors (th_Data ?t) T 1"])
           (use S(5) T zm in \<open>simp_all add: read_zero_def\<close>, auto simp: zero_sectors_def)
      show ?thesis
      proof (cases "th_DataSystemAddress ?t = None")
        case unm: True
        obtain a where e: "ensure_address (TRead i) h = Inr (upd_thread (TRead i) (\<lambda>th. th\<lparr>th_DataSystemAddress := Some a\<rparr>) h)"
          using ensure_address_ok [OF S(6) unm] by blast
        have "read_iter i h = Inr (read_zero i (upd_thread (TRead i) (\<lambda>th. th\<lparr>th_DataSystemAddress := Some a\<rparr>) h))"
          unfolding go e using miss True unm by (simp only: simp_thms if_True if_False sum.case)
        then show ?thesis using zeroed' [of a] le_add1 [of T 1] by blast
      next
        case False
        then have "read_iter i h = Inr (read_zero i h)"
          unfolding go using miss True by (simp only: simp_thms if_True if_False)
        then show ?thesis using zeroed le_add1 [of T 1] by blast
      qed
    next
      case False
      let ?p = "Map ?c (blk ?L) + off8 ?L"
      have om: "on_medium ?c ?L ?p" using nc False by (simp add: on_medium_def)
      have "in_dev ?c ?L" using dev' T by (simp add: in_dev_def)
      then have pw: "wrap32 ?p = ?p" using mapped_small [OF inv' om] by simp
      let ?n = "read_run_len ?c ?p ?L (LEN - T)"
      have n: "0 < ?n" "?n \<le> LEN - T"
        unfolding read_run_len_def using for_len_ge [of 1] for_len_le [of 1 "LEN - T"] T by (auto simp: Suc_le_lessD)
      have dat: "d (?p + k) = vread d c0 (?L + k)" if "k < ?n" for k
        using on_medium_vread [OF wf read_run_medium [OF inv' om _ _ that], of d] dev' T v by simp
      let ?q = "\<lparr>rq_OPC = OpRead, rq_Buffer = BufThread i, rq_Pos = T, rq_PLBA = ?p, rq_LEN = ?n, rq_RetryLimit = 0,
          rq_Completion = ExecuteReadCompletion i\<rparr>"
      have m: "read_medium i ?L (LEN - T) h = issue ?q (IoMarkIrpPending (TRead i) h)"
        by (simp add: read_medium_def Let_def S(5) pw)
      have "aside i c0 (hs_Ctx (IoMarkIrpPending (TRead i) h))"
        by (rule aside_trans [OF as]) (simp add: IoMarkIrpPending_def)
      moreover have "mappable (ReadThread (hs_Ctx (IoMarkIrpPending (TRead i) h)) i)"
        by (rule mappable_cong [OF _ _ _ _ S(6)]) (simp_all add: IoMarkIrpPending_def option.map_comp o_def)
      moreover obtain b where b: "th_Irp ?t = Some (ip\<lparr>irp_Pending := b\<rparr>)" using st by (auto simp: read_state_def Let_def)
      moreover have "ip\<lparr>irp_Pending := b, irp_Pending := True\<rparr> = ip\<lparr>irp_Pending := True\<rparr>" by simp
      ultimately have "read_state d c0 i (LBA, LEN, data, ip, ds) T (issue ?q (IoMarkIrpPending (TRead i) h))"
        using st unfolding read_state_def Let_def prod.case by (simp add: IoMarkIrpPending_def) blast
      moreover have "reading d c0 i LBA LEN T ?q" using n dat T by (simp add: reading_def)
      moreover have "read_iter i h = Inl (STATUS_PENDING, issue ?q (IoMarkIrpPending (TRead i) h))"
        unfolding go m using miss False by (simp only: simp_thms if_True if_False)
      moreover have "hs_Issued (issue ?q (IoMarkIrpPending (TRead i) h)) = hs_Issued h @ [?q]" by simp
      ultimately show ?thesis by blast
    qed
  qed
qed

section \<open>The whole read\<close>

lemma read_loop_state:
  assumes inv: "ftl_inv d c0" and dev: "LBA + LEN \<le> 8 * SIZE_OF_MAP c0"
  shows "read_state d c0 i (LBA, LEN, data, ip, ds) T h \<Longrightarrow>
    (\<exists>g. read_loop i h = complete_success (TRead i) g \<and> read_state d c0 i (LBA, LEN, data, ip, ds) LEN g) \<or>
    (\<exists>T' h'. read_loop i h = (STATUS_PENDING, h') \<and> T \<le> T' \<and> read_state d c0 i (LBA, LEN, data, ip, ds) T' h' \<and>
       reading d c0 i LBA LEN T' (last (hs_Issued h')))"
proof (induction i h arbitrary: T rule: read_loop.induct)
  case (1 i h)
  have S: "hs_Mode h = VLTL_MODE_ACTIVE" "th_Transferred (ReadThread (hs_Ctx h) i) = T" "th_LEN (ReadThread (hs_Ctx h) i) = LEN" "T \<le> LEN"
    using "1.prems" by (simp_all add: read_state_def Let_def)
  show ?case
  proof (cases "T = LEN")
    case True
    then have "read_iter i h = Inl (complete_success (TRead i) h)" using S by (simp add: read_iter_def Let_def)
    then have "read_loop i h = complete_success (TRead i) h" by (simp add: read_loop.simps [of i h])
    then show ?thesis using "1.prems" True by blast
  next
    case False
    with S have T: "T < LEN" by simp
    from read_iter_state [OF inv dev "1.prems" T] show ?thesis
    proof
      assume "\<exists>T' h'. read_iter i h = Inr h' \<and> T \<le> T' \<and> read_state d c0 i (LBA, LEN, data, ip, ds) T' h'"
      then obtain T' h' where r: "read_iter i h = Inr h'" "T \<le> T'" "read_state d c0 i (LBA, LEN, data, ip, ds) T' h'" by blast
      have e: "read_loop i h = read_loop i h'" using r(1) by (simp add: read_loop.simps [of i h])
      show ?thesis using "1.IH" [OF r(1,3)] r(2) unfolding e by (meson order_trans)
    next
      assume "\<exists>h' q. read_iter i h = Inl (STATUS_PENDING, h') \<and> read_state d c0 i (LBA, LEN, data, ip, ds) T h' \<and>
        hs_Issued h' = hs_Issued h @ [q] \<and> reading d c0 i LBA LEN T q"
      then obtain h' q where r: "read_iter i h = Inl (STATUS_PENDING, h')" "read_state d c0 i (LBA, LEN, data, ip, ds) T h'"
        "hs_Issued h' = hs_Issued h @ [q]" "reading d c0 i LBA LEN T q" by blast
      have "read_loop i h = (STATUS_PENDING, h')" using r(1) by (simp add: read_loop.simps [of i h])
      then show ?thesis using r by auto
    qed
  qed
qed

lemma code_step_read:
  assumes st: "read_state d c0 i (LBA, LEN, data, ip, ds) T h" and rd: "reading d c0 i LBA LEN T (last (hs_Issued h))"
  defines "n \<equiv> rq_LEN (last (hs_Issued h))"
  obtains h1 where "code_step lower d h = (fst (read_loop i h1) \<noteq> STATUS_PENDING, d, snd (read_loop i h1))"
    "read_state d c0 i (LBA, LEN, data, ip, ds) (T + n) h1" "0 < n"
proof -
  let ?q = "last (hs_Issued h)" and ?t = "ReadThread (hs_Ctx h) i"
  have r: "rq_OPC ?q = OpRead" "rq_Buffer ?q = BufThread i" "rq_Pos ?q = T" "0 < n" "T + n \<le> LEN"
    "rq_Completion ?q = ExecuteReadCompletion i" "\<And>k. k < n \<Longrightarrow> d (rq_PLBA ?q + k) = vread d c0 (LBA + T + k)"
    using rd by (simp_all add: reading_def n_def)
  let ?m = "copy_sectors (th_Data ?t) T d (rq_PLBA ?q) n"
  define h1 where "h1 = upd_thread (TRead i) (\<lambda>t. t\<lparr>th_Transferred := th_Transferred t + n\<rparr>)
      (h\<lparr>hs_Ctx := set_thread (TRead i) (?t\<lparr>th_Data := ?m\<rparr>) (hs_Ctx h)\<rparr>)"
  have "code_step lower d h = (fst (read_loop i h1) \<noteq> STATUS_PENDING, d, snd (read_loop i h1))"
    using r by (simp add: code_step_def transfer_def read_completion_def ExecuteReadHandler_def h1_def n_def
        case_prod_beta Let_def)
  moreover have "read_state d c0 i (LBA, LEN, data, ip, ds) (T + n) h1"
  proof (rule read_state_data [OF st, where a = "th_DataSystemAddress ?t" and m = ?m])
    fix k assume "T \<le> k" "k < T + n"
    then show "?m k = vread d c0 (LBA + k)" using r(7) [of "k - T"] by (simp add: copy_sectors_in)
  qed (use st r in \<open>simp_all add: h1_def copy_sectors_out read_state_def Let_def\<close>)
  ultimately show ?thesis using that r(4) by blast
qed

text \<open>
  The handler and the completions of its transfers, from the call of \<open>ExecuteReadHandler\<close> until the
  request has ended (\<open>True\<close>); the number counts the transfers.
\<close>

inductive read_run :: "lower \<Rightarrow> nat \<Rightarrow> mem \<Rightarrow> hs \<Rightarrow> nat \<Rightarrow> bool \<Rightarrow> mem \<Rightarrow> hs \<Rightarrow> bool" for lower i d0 h0 where
  begin_read: "ExecuteReadHandler i h0 = (st, h) \<Longrightarrow> read_run lower i d0 h0 0 (st \<noteq> STATUS_PENDING) d0 h"
| serve_read: "read_run lower i d0 h0 n False d h \<Longrightarrow> code_step lower d h = (fin, d', h') \<Longrightarrow>
    read_run lower i d0 h0 (Suc n) fin d' h'"

lemma read_run_ends:
  assumes inv: "ftl_inv d c0" and dev: "LBA + LEN \<le> 8 * SIZE_OF_MAP c0"
  shows "read_state d c0 i (LBA, LEN, data, ip, ds) T h \<Longrightarrow>
    read_run lower i d h0 n (fst (read_loop i h) \<noteq> STATUS_PENDING) d (snd (read_loop i h)) \<Longrightarrow>
    \<exists>n' g. n' \<le> n + (LEN - T) \<and> read_run lower i d h0 n' True d (snd (complete_success (TRead i) g)) \<and>
      read_state d c0 i (LBA, LEN, data, ip, ds) LEN g"
proof (induction "LEN - T" arbitrary: T h n rule: less_induct)
  case less
  from read_loop_state [OF inv dev less.prems(1)] show ?case
  proof
    assume "\<exists>g. read_loop i h = complete_success (TRead i) g \<and> read_state d c0 i (LBA, LEN, data, ip, ds) LEN g"
    then obtain g where g: "read_loop i h = complete_success (TRead i) g" "read_state d c0 i (LBA, LEN, data, ip, ds) LEN g" by blast
    have "fst (read_loop i h) \<noteq> STATUS_PENDING" by (simp add: g(1) complete_success_def Let_def)
    then show ?thesis using less.prems(2) g by (intro exI [of _ n] exI [of _ g]) simp
  next
    assume "\<exists>T' h'. read_loop i h = (STATUS_PENDING, h') \<and> T \<le> T' \<and> read_state d c0 i (LBA, LEN, data, ip, ds) T' h' \<and>
       reading d c0 i LBA LEN T' (last (hs_Issued h'))"
    then obtain T' h' where p: "read_loop i h = (STATUS_PENDING, h')" "T \<le> T'"
      and st: "read_state d c0 i (LBA, LEN, data, ip, ds) T' h'" and rd: "reading d c0 i LBA LEN T' (last (hs_Issued h'))" by blast
    obtain h1 where c: "code_step lower d h' = (fst (read_loop i h1) \<noteq> STATUS_PENDING, d, snd (read_loop i h1))"
      "read_state d c0 i (LBA, LEN, data, ip, ds) (T' + rq_LEN (last (hs_Issued h'))) h1" "0 < rq_LEN (last (hs_Issued h'))"
      using code_step_read [OF st rd] by blast
    have le: "T' + rq_LEN (last (hs_Issued h')) \<le> LEN" using rd by (simp add: reading_def)
    have "read_run lower i d h0 n False d h'" using less.prems(2) p(1) by simp
    from read_run.serve_read [OF this c(1)]
    have more: "read_run lower i d h0 (Suc n) (fst (read_loop i h1) \<noteq> STATUS_PENDING) d (snd (read_loop i h1))" .
    obtain n' g where "n' \<le> Suc n + (LEN - (T' + rq_LEN (last (hs_Issued h'))))"
      "read_run lower i d h0 n' True d (snd (complete_success (TRead i) g))" "read_state d c0 i (LBA, LEN, data, ip, ds) LEN g"
    proof -
      have "LEN - (T' + rq_LEN (last (hs_Issued h'))) < LEN - T" using le c(3) p(2) by linarith
      from less.hyps [OF this c(2) more] show ?thesis using that by blast
    qed
    moreover from this(1) have "n' \<le> n + (LEN - T)" using le c(3) p(2) by linarith
    ultimately show ?thesis by blast
  qed
qed

lemma read_request_total:
  assumes inv: "ftl_inv d (hs_Ctx h0)" "hs_Mode h0 = VLTL_MODE_ACTIVE"
    and t: "t = ReadThread (hs_Ctx h0) i" "th_Transferred t = 0" "th_LBA t + th_LEN t \<le> 8 * SIZE_OF_MAP (hs_Ctx h0)"
    and ip: "th_Irp t = Some ip" and buf: "mappable t"
  shows "\<exists>n h b. n \<le> th_LEN t \<and> read_run lower i d h0 n True d h \<and> aside i (hs_Ctx h0) (hs_Ctx h) \<and> hs_Mode h = VLTL_MODE_ACTIVE \<and>
    th_Data (ReadThread (hs_Ctx h) i) =
      (\<lambda>k. if k < th_LEN t then vread d (hs_Ctx h0) (th_LBA t + k) else th_Data t k) \<and>
    th_Irp (ReadThread (hs_Ctx h) i) = None \<and>
    hs_Done h = hs_Done h0 @ [write_answer (th_LEN t) (ip\<lparr>irp_Pending := b\<rparr>)]"
proof -
  have "\<exists>b. ip = ip\<lparr>irp_Pending := b\<rparr>" by (rule exI [of _ "irp_Pending ip"]) simp
  then have st: "read_state d (hs_Ctx h0) i (th_LBA t, th_LEN t, th_Data t, ip, hs_Done h0) 0 h0"
    using assms by (auto simp: read_state_def Let_def)
  have "read_run lower i d h0 0 (fst (read_loop i h0) \<noteq> STATUS_PENDING) d (snd (read_loop i h0))"
    by (rule read_run.begin_read) (simp add: ExecuteReadHandler_def)
  from read_run_ends [OF inv(1) t(3) st this]
  obtain n g where n: "n \<le> th_LEN t" "read_run lower i d h0 n True d (snd (complete_success (TRead i) g))"
    and g: "read_state d (hs_Ctx h0) i (th_LBA t, th_LEN t, th_Data t, ip, hs_Done h0) (th_LEN t) g" by auto
  let ?h = "snd (complete_success (TRead i) g)"
  obtain b where b: "th_Irp (ReadThread (hs_Ctx g) i) = Some (ip\<lparr>irp_Pending := b\<rparr>)" using g by (auto simp: read_state_def Let_def)
  have "aside i (hs_Ctx g) (hs_Ctx ?h)" by (simp add: complete_success_def complete_irp_def Let_def split: option.split)
  then have "aside i (hs_Ctx h0) (hs_Ctx ?h)" using g aside_trans by (simp add: read_state_def Let_def) blast
  moreover have "hs_Done ?h = hs_Done h0 @ [write_answer (th_LEN t) (ip\<lparr>irp_Pending := b\<rparr>)]"
    "th_Data (ReadThread (hs_Ctx ?h) i) = th_Data (ReadThread (hs_Ctx g) i)" "th_Irp (ReadThread (hs_Ctx ?h) i) = None"
    using g b by (simp_all add: read_state_def Let_def complete_success_def complete_irp_def write_answer_def)
  moreover have "hs_Mode ?h = VLTL_MODE_ACTIVE"
    using g by (simp add: read_state_def Let_def complete_success_def complete_irp_def split: option.split)
  ultimately show ?thesis using n g by (intro exI [of _ n] exI [of _ ?h] exI [of _ b]) (simp add: read_state_def Let_def)
qed

section \<open>Property\<close>

text \<open>
  C5. A read request does what a disk does. From consistent tables, with a buffer that can be mapped, the
  handler and the completions of its transfers end after at most as many transfers as the request has
  sectors; the buffer then holds the contents of the sectors asked for, whether they were in the
  cache, on the medium or never written, and nothing else in it has changed; the \<open>IRP\<close> is completed
  with success and the full length, and of the context nothing but the thread that served the request has
  changed: no table and nothing of the gate.
\<close>

theorem read_request_correct:
  assumes inv: "ftl_inv d (hs_Ctx h0)" "hs_Mode h0 = VLTL_MODE_ACTIVE"
    and t: "t = ReadThread (hs_Ctx h0) i" "th_Transferred t = 0" "th_LBA t + th_LEN t \<le> 8 * SIZE_OF_MAP (hs_Ctx h0)"
    and ip: "th_Irp t = Some ip" and buf: "mappable t"
  shows "\<exists>n h b. n \<le> th_LEN t \<and> read_run lower i d h0 n True d h \<and> aside i (hs_Ctx h0) (hs_Ctx h) \<and> hs_Mode h = VLTL_MODE_ACTIVE \<and>
    th_Data (ReadThread (hs_Ctx h) i) =
      (\<lambda>k. if k < th_LEN t then vread d (hs_Ctx h0) (th_LBA t + k) else th_Data t k) \<and>
    th_Irp (ReadThread (hs_Ctx h) i) = None \<and>
    hs_Done h = hs_Done h0 @ [write_answer (th_LEN t) (ip\<lparr>irp_Pending := b\<rparr>)]"
  by (rule read_request_total [OF assms])

definition demo_read :: hs where
  "demo_read = demo\<lparr>hs_Ctx := (hs_Ctx demo)\<lparr>ReadThread := (\<lambda>_. demo_thread)\<rparr>\<rparr>"

theorem read_request_correct_witness:
  "\<exists>n h. read_run (\<lambda>i. (STATUS_SUCCESS, i)) 3 blank demo_read n True blank h \<and>
     th_Data (ReadThread (hs_Ctx h) 3) 0 = zero_sector \<and> th_Data (ReadThread (hs_Ctx h) 3) 1 = (\<lambda>_. 7)"
proof -
  have "same_ftl (hs_Ctx demo) (hs_Ctx demo_read)" by (simp add: demo_read_def same_ftl_def)
  then have inv: "ftl_inv blank (hs_Ctx demo_read)" using demo_inv ftl_inv_same by blast
  have t: "demo_thread = ReadThread (hs_Ctx demo_read) 3" by (simp add: demo_read_def)
  have f: "th_Transferred demo_thread = 0" "th_LBA demo_thread = 1" "th_LEN demo_thread = 1" "th_Irp demo_thread = Some demo_irp"
    "th_Data demo_thread = (\<lambda>_ _. 7)" "mappable demo_thread" by (simp_all add: demo_thread_def zero_thread_def mappable_def)
  have "hs_Mode demo_read = VLTL_MODE_ACTIVE" "th_LBA demo_thread + th_LEN demo_thread \<le> 8 * SIZE_OF_MAP (hs_Ctx demo_read)"
    using demo_facts f by (simp_all add: demo_read_def)
  from read_request_correct [OF inv this(1) t f(1) this(2) f(4,6), of "\<lambda>i. (STATUS_SUCCESS, i)"]
  obtain n h where "read_run (\<lambda>i. (STATUS_SUCCESS, i)) 3 blank demo_read n True blank h"
    "th_Data (ReadThread (hs_Ctx h) 3) = (\<lambda>k. if k < 1 then vread blank (hs_Ctx demo_read) (1 + k) else (\<lambda>_. 7))"
    unfolding f by blast
  moreover have "vread blank (hs_Ctx demo_read) 1 = zero_sector"
    by (simp add: vread_def demo_read_def demo_def demo_ctx_def zero_ctx_def empty_GetCachedPos)
  ultimately show ?thesis by (intro exI [of _ n] exI [of _ h]) simp
qed

end
