(* ===== verification/Serve.thy ===== *)
theory Serve
  imports FlushEnds GateProps FormatProps FtlRead
begin

text \<open>
  One request from the gate to its end. \<open>idle\<close> is the device between requests; \<open>serve\<close> lets a request
  pass the gate, carries out transfers until its thread has completed it, and lets the gate go on.
  The abstract disk \<open>disk_request\<close> is what this is compared with.
\<close>

section \<open>The device at rest\<close>

definition idle :: "mem \<Rightarrow> hs \<Rightarrow> bool" where
  "idle d h \<longleftrightarrow> hs_Mode h = VLTL_MODE_ACTIVE \<and> ftl_inv d (hs_Ctx h) \<and> brisk (hs_Ctx h) \<and> good False h \<and>
     ReadActive (hs_Ctx h) = 0 \<and> OtherActive (hs_Ctx h) = 0 \<and> \<not> Flushing (hs_Ctx h) \<and> th_Irp (OtherThread (hs_Ctx h)) = None"

text \<open>One request is being served, by \<open>t\<close>.\<close>

definition serving :: "tid \<Rightarrow> hs \<Rightarrow> bool" where
  "serving t h \<longleftrightarrow> hs_Mode h = VLTL_MODE_ACTIVE \<and> good False h \<and> in_use (hs_Ctx h) t \<and> work (hs_Ctx h) = 0 \<and>
     ReadActive (hs_Ctx h) = (case t of TRead k \<Rightarrow> 1 | TOther \<Rightarrow> 0) \<and> OtherActive (hs_Ctx h) = (case t of TRead k \<Rightarrow> 0 | TOther \<Rightarrow> 1)"

lemma all_free:
  assumes "good dpc h" "ReadActive (hs_Ctx h) = 0"
  shows "ReadFreeList (hs_Ctx h) < READ_THREADS" "ThreadsMarked (hs_Ctx h) = 0" "k < READ_THREADS \<Longrightarrow> th_FreeLink (ReadThread (hs_Ctx h) k) \<noteq> 255"
proof -
  have gi: "gate_inv (gate_of dpc h)" using assms(1) by (simp add: good_def)
  have fl: "free_list (ReadThread (hs_Ctx h)) (ReadFreeList (hs_Ctx h)) 0" using gate_invD(1) [OF gi] assms(2) by (simp add: threads_ok_def)
  show "ReadFreeList (hs_Ctx h) < READ_THREADS" using free_list_take(1) [OF fl] by simp
  have free: "th_FreeLink (ReadThread (hs_Ctx h) k) \<noteq> 255" if "k < READ_THREADS" for k
  proof
    assume "th_FreeLink (ReadThread (hs_Ctx h) k) = 255"
    from free_list_put(1) [OF fl that this] show False by simp
  qed
  then show "k < READ_THREADS \<Longrightarrow> th_FreeLink (ReadThread (hs_Ctx h) k) \<noteq> 255" .
  have "marked_set (hs_Ctx h) = {}" using gate_invD(3) [OF gi] free by (auto simp: marks_ok_def marked_set_def)
  then show "ThreadsMarked (hs_Ctx h) = 0" using gate_invD(3) [OF gi] by (simp add: marks_ok_def)
qed

lemma idle_gate:
  assumes "idle d h"
  shows "ReadIrpQueue (hs_Ctx h) = []" "OtherIrpQueue (hs_Ctx h) = []" "ReadPending (hs_Ctx h) = 0" "OtherPending (hs_Ctx h) = 0"
    "work (hs_Ctx h) = 0" "\<not> WaitingMarkedThreads (hs_Ctx h)" "\<not> FlushPending (hs_Ctx h)"
proof -
  have gi: "gate_inv (gate_of False h)" using assms by (simp add: idle_def good_def)
  note i = gate_invD [OF gi, simplified]
  have a: "hs_Mode h = VLTL_MODE_ACTIVE" "ReadActive (hs_Ctx h) = 0" "OtherActive (hs_Ctx h) = 0" using assms by (simp_all add: idle_def)
  show q: "ReadIrpQueue (hs_Ctx h) = []" "OtherIrpQueue (hs_Ctx h) = []" using i(4) a by (auto simp: nobody_waits_idly_def)
  show "ReadPending (hs_Ctx h) = 0" "OtherPending (hs_Ctx h) = 0" using i(2) q a by (simp_all add: counts_ok_def)
  show w: "\<not> WaitingMarkedThreads (hs_Ctx h)" using i(3) a by (auto simp: marks_ok_def)
  show f: "\<not> FlushPending (hs_Ctx h)" using i(5) a by (auto simp: timer_ok_def)
  show "work (hs_Ctx h) = 0" using q w f by (simp add: work_def)
qed

lemma serving_calm:
  assumes "calm h h'" "serving t h" shows "serving t h'"
proof -
  have "gate_fixed (hs_Ctx h') = gate_fixed (hs_Ctx h)" using assms(1) touch_fixed by (simp add: calm_def)
  then have "ReadActive (hs_Ctx h') = ReadActive (hs_Ctx h)" "OtherActive (hs_Ctx h') = OtherActive (hs_Ctx h)" by (simp_all add: gate_fixed_def)
  then show ?thesis using calm_keeps [OF assms(1)] assms(2) by (simp add: serving_def)
qed

text \<open>A request that is admitted to an idle device.\<close>

lemma idle_enter:
  assumes i: "idle d h" and t: "t = (if r then TRead (ReadFreeList (hs_Ctx h)) else TOther)"
  obtains c where "dispatch_enter r i (hs_Mode h) (hs_Ctx h) = (Run t, c)" "same_ftl (hs_Ctx h) c" "serving t (h\<lparr>hs_Ctx := c\<rparr>)"
    "\<not> Flushing c" "th_Irp (OtherThread c) = None"
proof -
  obtain e c where d: "dispatch_enter r i (hs_Mode h) (hs_Ctx h) = (e, c)" by fastforce
  have a: "hs_Mode h = VLTL_MODE_ACTIVE" "ReadActive (hs_Ctx h) = 0" "OtherActive (hs_Ctx h) = 0" "good False h"
    "\<not> Flushing (hs_Ctx h)" "th_Irp (OtherThread (hs_Ctx h)) = None" using i by (simp_all add: idle_def)
  note g = idle_gate [OF i]
  have e: "e = Run t" using d a t by (auto simp: dispatch_enter_def take_thread_def Let_def split: if_splits)
  have f: "same_ftl (hs_Ctx h) c" "ReadActive c = (if r then 1 else 0)" "OtherActive c = (if r then 0 else 1)"
    "\<not> Flushing c" "th_Irp (OtherThread c) = None"
    using d a by (auto simp: dispatch_enter_def take_thread_def Let_def same_ftl_def split: if_splits)
  have "good False (h\<lparr>hs_Ctx := c\<rparr>)" "in_use c t" "work c = 0"
    using dispatch_facts [OF a(4) d] e g by simp_all
  then have "serving t (h\<lparr>hs_Ctx := c\<rparr>)" using f a t by (simp add: serving_def)
  then show ?thesis using that d e f by simp
qed

text \<open>A request that has been completed: the gate finds nothing more to do.\<close>

lemma same_gate_upd [simp]:
  "same_ftl c (d\<lparr>ReadPending := n\<rparr>) = same_ftl c d" "same_ftl c (d\<lparr>OtherPending := n\<rparr>) = same_ftl c d"
  "same_ftl c (d\<lparr>ReadActive := n\<rparr>) = same_ftl c d" "same_ftl c (d\<lparr>OtherActive := n\<rparr>) = same_ftl c d"
  "same_ftl c (d\<lparr>ReadIrpQueue := q\<rparr>) = same_ftl c d" "same_ftl c (d\<lparr>OtherIrpQueue := q\<rparr>) = same_ftl c d"
  "same_ftl c (d\<lparr>FlushPending := b\<rparr>) = same_ftl c d" "same_ftl c (d\<lparr>TimerActive := b\<rparr>) = same_ftl c d"
  "same_ftl c (d\<lparr>Timer := b\<rparr>) = same_ftl c d" "same_ftl c (d\<lparr>ReadFreeList := n\<rparr>) = same_ftl c d"
  "same_ftl c (d\<lparr>ReadThread := f\<rparr>) = same_ftl c d" "same_ftl c (d\<lparr>OtherThread := th\<rparr>) = same_ftl c d"
  "same_ftl c (d\<lparr>ThreadsMarked := n\<rparr>) = same_ftl c d" "same_ftl c (d\<lparr>WaitingMarkedThreads := b\<rparr>) = same_ftl c d"
  "same_ftl c (d\<lparr>Flushing := b\<rparr>) = same_ftl c d" "same_ftl c (d\<lparr>Finalizing := b\<rparr>) = same_ftl c d"
  by (simp_all add: same_ftl_def)

lemma unmark_fields:
  "same_ftl c (unmark t c)" "Flushing (unmark t c) = Flushing c" "th_Irp (get_thread (unmark t c) s) = th_Irp (get_thread c s)"
  "th_Data (get_thread (unmark t c) s) = th_Data (get_thread c s)"
  "ReadActive (unmark t c) = ReadActive c" "OtherActive (unmark t c) = OtherActive c"
  by (cases t; cases s; simp add: unmark_def Let_def)+

lemma leave_read_fields:
  assumes "leave_read E (TRead k) c = (now, e)" "ReadIrpQueue c = []"
  shows "same_ftl c e" "Flushing e = Flushing c" "OtherThread e = OtherThread c" "th_Data (ReadThread e j) = th_Data (ReadThread c j)"
    "ReadActive e = sub8 (ReadActive c) 1" "OtherActive e = OtherActive c"
proof -
  have e: "e = release_thread (TRead k) (c\<lparr>ReadPending := sub32 (ReadPending c) 1\<rparr>)" using assms by (simp add: leave_read_def Let_def)
  show "same_ftl c e" "Flushing e = Flushing c" "OtherThread e = OtherThread c" "th_Data (ReadThread e j) = th_Data (ReadThread c j)"
    "ReadActive e = sub8 (ReadActive c) 1" "OtherActive e = OtherActive c"
    unfolding e release_thread_def Let_def by simp_all
qed

lemma leave_other_fields:
  assumes "leave_other E c = (now, fl, e)" "OtherIrpQueue c = []" "\<not> FlushPending c"
  shows "same_ftl c e" "Flushing e = Flushing c" "OtherThread e = OtherThread c" "ReadActive e = ReadActive c"
    "OtherActive e = sub8 (OtherActive c) 1"
proof -
  have e: "e = start_timer (c\<lparr>OtherPending := sub32 (OtherPending c) 1, OtherActive := sub8 (OtherActive c) 1\<rparr>)"
    using assms by (simp add: leave_other_def Let_def)
  show "same_ftl c e" "Flushing e = Flushing c" "OtherThread e = OtherThread c" "ReadActive e = ReadActive c"
    "OtherActive e = sub8 (OtherActive c) 1"
    unfolding e start_timer_def KeSetTimer_def by simp_all
qed

lemma completion_form:
  assumes "completion_locked t mode c = (a, e)"
  shows "th_IsRead (get_thread c t) \<Longrightarrow> leave_read (mode \<noteq> VLTL_MODE_ACTIVE) t c = (now, e') \<Longrightarrow> e = snd (wake_writer (unmark t e'))"
    "\<not> th_IsRead (get_thread c t) \<Longrightarrow> leave_other (mode \<noteq> VLTL_MODE_ACTIVE) c = (now, fl, e') \<Longrightarrow> e = snd (wake_writer (unmark t e'))"
    "mode = VLTL_MODE_ACTIVE \<Longrightarrow> \<not> a_Clean a"
  using assms by (auto simp: completion_locked_def Let_def split: prod.splits)

lemma wake_same:
  "same_ftl c (snd (wake_writer d)) = same_ftl c d" "Flushing (snd (wake_writer d)) = Flushing d"
  "get_thread (snd (wake_writer d)) t = get_thread d t" "ReadActive (snd (wake_writer d)) = ReadActive d"
  "OtherActive (snd (wake_writer d)) = OtherActive d"
  by (cases t; simp add: wake_writer_def)+

lemma serving_leaves:
  assumes s: "serving t h" and l: "completion_locked t (hs_Mode h) (hs_Ctx h) = (a, c)"
  shows "same_ftl (hs_Ctx h) c" "Flushing c = Flushing (hs_Ctx h)" "th_Irp (OtherThread c) = th_Irp (OtherThread (hs_Ctx h))"
    "ReadActive c = 0" "OtherActive c = 0" "th_Data (get_thread c t) = th_Data (get_thread (hs_Ctx h) t)"
proof -
  have g: "in_use (hs_Ctx h) t" "hs_Mode h = VLTL_MODE_ACTIVE" "gate_inv (gate_of False h)"
    and w: "ReadIrpQueue (hs_Ctx h) = []" "OtherIrpQueue (hs_Ctx h) = []" "\<not> FlushPending (hs_Ctx h)"
    using s by (auto simp: serving_def good_def work_def split: if_splits)
  have "th_IsRead (get_thread (hs_Ctx h) t) = (case t of TRead k \<Rightarrow> True | TOther \<Rightarrow> False)"
    using gate_invD(1) [OF g(3)] g(1) by (cases t) (simp_all add: threads_ok_def in_use_def)
  note cf = completion_form [OF l, unfolded this]
  obtain e where e: "same_ftl (hs_Ctx h) e" "Flushing e = Flushing (hs_Ctx h)" "OtherThread e = OtherThread (hs_Ctx h)"
    "th_Data (get_thread e t) = th_Data (get_thread (hs_Ctx h) t)" "ReadActive e = 0" "OtherActive e = 0"
    "c = snd (wake_writer (unmark t e))"
  proof (cases t)
    case (TRead k)
    obtain now e where e: "leave_read (hs_Mode h \<noteq> VLTL_MODE_ACTIVE) (TRead k) (hs_Ctx h) = (now, e)" by fastforce
    show ?thesis using that [of e] leave_read_fields [OF e w(1)] cf(1) [of now e] e s TRead by (simp add: serving_def)
  next
    case TOther
    obtain now fl e where e: "leave_other (hs_Mode h \<noteq> VLTL_MODE_ACTIVE) (hs_Ctx h) = (now, fl, e)" by (metis prod_cases3)
    show ?thesis using that [of e] leave_other_fields [OF e w(2,3)] cf(2) [of now fl e] e s TOther by (simp add: serving_def)
  qed
  note u = unmark_fields(2,5,6) [of t e] unmark_fields(4) [of t e t] unmark_fields(3) [of t e TOther, simplified]
  show "same_ftl (hs_Ctx h) c" unfolding e(7) wake_same by (rule same_ftl_trans [OF e(1) unmark_fields(1)])
  show "Flushing c = Flushing (hs_Ctx h)" "ReadActive c = 0" "OtherActive c = 0" "th_Data (get_thread c t) = th_Data (get_thread (hs_Ctx h) t)"
    unfolding e(7) wake_same using u e by simp_all
  show "th_Irp (OtherThread c) = th_Irp (OtherThread (hs_Ctx h))"
    using wake_same(3) [of "unmark t e" TOther] u e by simp
qed

lemma serving_ends:
  assumes s: "serving t h" and k: "ftl_inv d (hs_Ctx h)" "brisk (hs_Ctx h)" "\<not> Flushing (hs_Ctx h)" "th_Irp (OtherThread (hs_Ctx h)) = None"
  obtains h' where "\<And>n. LevelingThreadCompletion (Suc n) lower u um t h = Some h'" "idle d h'" "same_ftl (hs_Ctx h) (hs_Ctx h')"
    "hs_Done h' = hs_Done h" "th_Data (get_thread (hs_Ctx h') t) = th_Data (get_thread (hs_Ctx h) t)"
proof -
  obtain a c where l: "completion_locked t (hs_Mode h) (hs_Ctx h) = (a, c)" by fastforce
  note c = serving_leaves [OF s l]
  have g: "good False h" "in_use (hs_Ctx h) t" "hs_Mode h = VLTL_MODE_ACTIVE" and w: "work (hs_Ctx h) = 0" using s by (simp_all add: serving_def)
  have f: "good False (h\<lparr>hs_Ctx := c\<rparr>)" "a_Now a = None" "\<not> a_WriteComplete a" "\<not> a_Flush a" "\<not> a_Clean a"
  proof -
    show nc: "\<not> a_Clean a" using completion_form(3) [OF l g(3)] .
    have "good False (h\<lparr>hs_Ctx := c\<rparr>) \<and> a_Now a = None \<and> \<not> a_WriteComplete a \<and> \<not> a_Flush a"
    proof (cases t)
      case (TRead k)
      note cf = completion_read_facts [OF g(1) g(2) [unfolded TRead] l [unfolded TRead]]
      show ?thesis using cf(1,2) cf(4,5) w by (cases "a_Now a") (auto simp: not_less)
    next
      case TOther
      note cf = completion_other_facts [OF g(1) g(2) [unfolded TOther] l [unfolded TOther]]
      show ?thesis using cf(1,2) cf(5) w by (cases "a_Now a") (auto simp: not_less)
    qed
    then show "good False (h\<lparr>hs_Ctx := c\<rparr>)" "a_Now a = None" "\<not> a_WriteComplete a" "\<not> a_Flush a" by simp_all
  qed
  have "idle d (h\<lparr>hs_Ctx := c\<rparr>)"
    using f(1) g(3) c k ftl_inv_same [OF c(1)] same_rank(2) [OF c(1)] by (simp add: idle_def)
  moreover have "LevelingThreadCompletion (Suc n) lower u um t h = Some (h\<lparr>hs_Ctx := c\<rparr>)" for n
    using l f by (simp add: Let_def)
  ultimately show ?thesis using that [of "h\<lparr>hs_Ctx := c\<rparr>"] c by simp
qed


section \<open>Transfers and the gate\<close>

lemma view_set_buf: "gate_view (set_buf b m c) = gate_view c"
  by (cases b) (simp_all add: view_simps view_thread [of _ _ "TRead _", simplified])

lemma view_transfer: "gate_view (snd (transfer q (d, c))) = gate_view c"
  by (simp add: transfer_def view_set_buf split: opc.split)

lemma view_cache_purged: "gate_view (cache_purged c) = gate_view c"
  using UpdateMap_only [of c "purge_ctl_LBA c" "CachePos c" "phys (ChunkNo c) (PurgePos c)"]
  by (auto simp: cache_purged_def Let_def view_simps)

lemma calm_completed:
  "calm h (fill_completed (ok_result q) h)" "calm h (purge_completed (ok_result q) h)" "calm h (chunk_completed (ok_result q) h)"
  "calm h (prepare_completed (ok_result q) h)" "calm h (relocate_completed (ok_result q) h)"
  by (simp_all add: calm_view fill_completed_def purge_completed_def chunk_completed_def prepare_completed_def relocate_completed_def
      relocation_prepared_def view_cache_purged view_simps)

lemma calm_code_step:
  assumes s: "serving TOther h" and own: "\<And>i. rq_Completion (last (hs_Issued h)) \<noteq> ExecuteReadCompletion i"
  shows "calm h (snd (snd (code_step lower d h)))"
proof -
  let ?q = "last (hs_Issued h)"
  define g where "g = h\<lparr>hs_Ctx := snd (transfer ?q (d, hs_Ctx h))\<rparr>"
  have hg: "calm h g" by (rule calm_view) (simp_all add: g_def view_transfer)
  have idle: "ThreadsMarked (hs_Ctx g') = 0 \<and> \<not> WaitingMarkedThreads (hs_Ctx g')" if "calm h g'" for g'
    using serving_calm [OF that s] all_free(2) [of False g'] by (simp add: serving_def in_use_def)
  have "calm g (snd (run_completion lower (rq_Completion ?q) (ok_result ?q) g))"
  proof (cases "rq_Completion ?q")
    case PrepareRelocateCompletion
    then show ?thesis
      using calm_trans [OF calm_completed(4) calm_WriteCompleteHandler] idle [OF calm_trans [OF hg calm_completed(4)]]
      by (simp add: WaitMarkedThreadsAndWriteCompleteHandler_def)
  qed (use own calm_trans [OF calm_completed(1) calm_WriteCompleteHandler] calm_trans [OF calm_completed(2) calm_WriteCompleteHandler]
      calm_trans [OF calm_completed(3) calm_WriteCompleteHandler] calm_trans [OF calm_completed(5) calm_WriteCompleteHandler] in simp_all)
  then show ?thesis using calm_trans [OF hg] by (simp add: code_step_def Let_def case_prod_beta g_def)
qed


section \<open>A write from its handler to its end\<close>

lemma finished_fields:
  "Flushing (hs_Ctx (snd (complete_success t h))) = Flushing (hs_Ctx h)"
  "Flushing (hs_Ctx (snd (CompleteNotReadyNoMedia t h))) = Flushing (hs_Ctx h)"
proof -
  have "Flushing (hs_Ctx (complete_irp t f h)) = Flushing (hs_Ctx h)" for f
    using hs_complete_irp(3) [of h t f] by (auto simp: tables_eq_def)
  then show "Flushing (hs_Ctx (snd (complete_success t h))) = Flushing (hs_Ctx h)"
    "Flushing (hs_Ctx (snd (CompleteNotReadyNoMedia t h))) = Flushing (hs_Ctx h)"
    by (simp_all add: complete_success_def CompleteNotReadyNoMedia_def Let_def split: option.split)
qed

lemma write_iter_ends:
  assumes "write_iter h = Inl (st, h')" "st \<noteq> STATUS_PENDING"
  shows "Flushing (hs_Ctx h') = Flushing (hs_Ctx h)"
proof -
  have p: "write_relocate g = Inl (st, h') \<Longrightarrow> st = STATUS_PENDING" for g
    by (auto simp: write_relocate_def Let_def split: if_splits)
  have q: "write_prepare g = Inl (st, h') \<Longrightarrow> st = STATUS_PENDING" for g
    using p by (auto simp: write_prepare_def split: if_splits)
  have r: "write_data L n g = Inl (st, h') \<Longrightarrow> st = STATUS_PENDING" for L n g
    by (auto simp: write_data_def cache_fill_read_def Let_def split: if_splits)
  have "(st, h') = CompleteNotReadyNoMedia TOther h \<or> (st, h') = complete_success TOther h"
    using assms q r unfolding write_iter_def Let_def by (auto split: if_splits sum.splits)
  then have "h' = snd (CompleteNotReadyNoMedia TOther h) \<or> h' = snd (complete_success TOther h)" by (metis snd_conv)
  then show ?thesis using finished_fields by blast
qed

lemma write_loop_tame:
  "alone (hs_Ctx h) \<Longrightarrow> write_loop h = (st, h') \<Longrightarrow> Flushing (hs_Ctx h') = Flushing (hs_Ctx h) \<and>
    (st = STATUS_PENDING \<longrightarrow> side (hs_Ctx h') = side (hs_Ctx h) \<and> own_req h')"
proof (induction h rule: write_loop.induct)
  case (1 h)
  have t: "tame h (write_iter h)" by (rule tame_write_iter [OF "1.prems"(1)])
  show ?case
  proof (cases "write_iter h")
    case (Inl r)
    then have e: "write_iter h = Inl (st, h')" using "1.prems"(2) by (simp add: write_loop.simps [of h])
    then show ?thesis using t write_iter_ends [OF e] by (cases "st = STATUS_PENDING") (auto simp: tame_def side_def)
  next
    case (Inr h1)
    then have s: "side (hs_Ctx h1) = side (hs_Ctx h)" using t by (simp add: tame_def)
    have "write_loop h1 = (st, h')" using "1.prems"(2) Inr by (simp add: write_loop.simps [of h])
    from "1.IH" [OF Inr alone_side [OF s "1.prems"(1)] this] s show ?thesis by (simp add: side_def)
  qed
qed

lemma write_rounds:
  assumes "code_run lower d0 h0 n fin d h" "alone (hs_Ctx h0)" "serving TOther h0" "ExecuteWriteHandler h0 = (st0, g0)"
  shows "rounds n lower (st0 \<noteq> STATUS_PENDING, d0, g0) = (fin, d, h) \<and> calm h0 h \<and> \<not> Flushing (hs_Ctx h) \<and>
    (\<not> fin \<longrightarrow> own_req h \<and> alone (hs_Ctx h))"
  using assms
proof (induction rule: code_run.induct)
  case (begin_run st h)
  have e: "st0 = st" "g0 = h" using begin_run by simp_all
  have nf: "\<not> Flushing (hs_Ctx h0)" using begin_run.prems(1) by (simp add: alone_def)
  have wl: "write_loop h0 = (st, h)" using begin_run.hyps by (simp add: handler_mapped [OF begin_run.prems(1)])
  from write_loop_tame [OF begin_run.prems(1) wl]
  show ?case using e nf calm_ExecuteWriteHandler [of h0] begin_run.hyps alone_side [OF _ begin_run.prems(1)] by auto
next
  case (serve n d h fin d' h')
  from serve.IH [OF serve.prems]
  have r: "rounds n lower (st0 \<noteq> STATUS_PENDING, d0, g0) = (False, d, h)" "calm h0 h" "own_req h" "alone (hs_Ctx h)" by auto
  have sv: "serving TOther h" by (rule serving_calm [OF r(2) serve.prems(2)])
  have c: "calm h h'" using calm_code_step [OF sv, of lower d] r(3) serve.hyps(2) by (auto simp: own_req_def)
  have s1: "side (hs_Ctx (snd (served d h))) = side (hs_Ctx h)" by (rule side_served(1) [OF r(3)])
  have a1: "alone (hs_Ctx (snd (served d h)))" by (rule alone_side [OF s1 r(4)])
  obtain st where wl: "write_loop (snd (served d h)) = (st, h')" "fin = (st \<noteq> STATUS_PENDING)"
    using serve.hyps(2) unfolding code_step_write [OF r(3,4)] by (auto simp: case_prod_beta prod_eq_iff)
  note t = write_loop_tame [OF a1 wl(1)]
  have "\<not> Flushing (hs_Ctx h')" using t a1 by (simp add: alone_def)
  moreover have "own_req h' \<and> alone (hs_Ctx h')" if "\<not> fin" using t wl(2) that alone_side [OF _ a1] by simp
  ultimately show ?case using r(1) serve.hyps(2) calm_trans [OF r(2) c] by (simp add: rounds_Suc_last)
qed

section \<open>The abstract disk\<close>

text \<open>
  Reads and writes as the system sends them: a command block of bytes, a buffer that can be mapped, and
  an end of the range below \<open>2 ^ 32\<close> (the driver adds start and length in 32 bits).
\<close>

definition rw_irp :: "irp \<Rightarrow> bool" where
  "rw_irp i \<longleftrightarrow> irp_Major i = IRP_MJ_SCSI \<and> srb_Function (irp_Srb i) = SRB_FUNCTION_EXECUTE_SCSI \<and>
     (srb_op (irp_Srb i) = SCSIOP_READ \<or> srb_op (irp_Srb i) = SCSIOP_WRITE) \<and> (\<forall>k. srb_Cdb (irp_Srb i) k < 256) \<and>
     cdb_LBA (irp_Srb i) + cdb_LEN (irp_Srb i) < 4294967296 \<and> (\<forall>m. irp_Mdl i = Some m \<longrightarrow> mdl_SystemVA m \<noteq> None)"

definition is_read :: "irp \<Rightarrow> bool" where
  "is_read i \<longleftrightarrow> srb_op (irp_Srb i) = SCSIOP_READ"

definition accepted :: "nat \<Rightarrow> irp \<Rightarrow> bool" where
  "accepted N i \<longleftrightarrow> cdb_LBA (irp_Srb i) + cdb_LEN (irp_Srb i) \<le> 8 * N \<and> buffer_ok i (irp_Mdl i) (512 * cdb_LEN (irp_Srb i))"

text \<open>
  A disk of \<open>8 * N\<close> sectors with contents \<open>f\<close>, and its answer to a request whose buffer holds \<open>um i\<close>: the
  new contents, the request as it is completed, and the buffer afterwards.
\<close>

definition disk_request :: "(irp \<Rightarrow> mem) \<Rightarrow> nat \<Rightarrow> irp \<Rightarrow> (nat \<Rightarrow> sector) \<Rightarrow> (nat \<Rightarrow> sector) \<times> irp \<times> mem" where
  "disk_request um N i f =
     (let L = cdb_LBA (irp_Srb i); n = cdb_LEN (irp_Srb i) in
      if \<not> accepted N i then (f, invalid_cdb i, um i)
      else if is_read i then (f, write_answer n i, (\<lambda>k. if k < n then f (L + k) else um i k))
      else ((\<lambda>x. if L \<le> x \<and> x < L + n then um i (x - L) else f x), write_answer n i, um i))"

definition contents :: "mem \<Rightarrow> hs \<Rightarrow> nat \<Rightarrow> sector" where
  "contents d h = (\<lambda>L. if in_dev (hs_Ctx h) L then vread d (hs_Ctx h) L else zero_sector)"

section \<open>The device as it serves one request\<close>

text \<open>Transfers are carried out until the request of \<open>t\<close> is completed; then the gate goes on.\<close>

fun await :: "nat \<Rightarrow> nat \<Rightarrow> lower \<Rightarrow> ntstatus \<Rightarrow> (irp \<Rightarrow> mem) \<Rightarrow> tid \<Rightarrow> mem \<Rightarrow> hs \<Rightarrow> (mem \<times> hs) option" where
  "await 0 fuel lower u um t d h = None"
| "await (Suc n) fuel lower u um t d h =
     (case code_step lower d h of (fin, d', h') \<Rightarrow>
        if fin then map_option (\<lambda>g. (d', g)) (LevelingThreadCompletion fuel lower u um t h')
        else await n fuel lower u um t d' h')"

lemma await_rounds:
  "rounds k lower (False, d, h) = (True, d', h') \<Longrightarrow> k \<le> n \<Longrightarrow>
   await n fuel lower u um t d h = map_option (\<lambda>g. (d', g)) (LevelingThreadCompletion fuel lower u um t h')"
proof (induction k arbitrary: n d h)
  case (Suc k)
  then obtain m where n: "n = Suc m" "k \<le> m" by (cases n) auto
  obtain fin d1 h1 where c: "code_step lower d h = (fin, d1, h1)" by (metis prod_cases3)
  have r: "rounds k lower (fin, d1, h1) = (True, d', h')" using Suc.prems(1) c by (simp add: rounds_Suc)
  show ?case
  proof (cases fin)
    case True
    have "rounds k lower (True, d1, h1) = (True, d1, h1)" by (induction k) (simp_all add: rounds_Suc_last)
    then show ?thesis using r c True n by simp
  next
    case False
    then show ?thesis using Suc.IH [of d1 h1 m] r c n by simp
  qed
qed simp

definition serve :: "nat \<Rightarrow> lower \<Rightarrow> ntstatus \<Rightarrow> (irp \<Rightarrow> mem) \<Rightarrow> irp \<Rightarrow> mem \<times> hs \<Rightarrow> (mem \<times> hs \<times> mem) option" where
  "serve n lower u um i s =
     (case s of (d, h) \<Rightarrow>
        let t = (if is_read i then TRead (ReadFreeList (hs_Ctx h)) else TOther) in
        map_option (\<lambda>(d', h'). (d', h', th_Data (get_thread (hs_Ctx h') t)))
          (case LevelingDispatch n lower u um True i (is_read i) h of
             None \<Rightarrow> None
           | Some (st, h') \<Rightarrow> if st = STATUS_PENDING then await n n lower u um t d h' else Some (d, h')))"


lemma rounds_True: "rounds k lower (True, d, h) = (True, d, h)"
  by (induction k) (simp_all add: rounds_Suc_last)

lemma serve_completed:
  assumes t: "t = (if is_read i then TRead (ReadFreeList (hs_Ctx h)) else TOther)"
    and en: "dispatch_enter (is_read i) i (hs_Mode h) (hs_Ctx h) = (Run t, c)"
    and ex: "ExecuteThread lower u um t i (h\<lparr>hs_Ctx := c\<rparr>) = (st, g)"
    and r: "rounds k lower (st \<noteq> STATUS_PENDING, d, g) = (True, d', h')"
    and sv: "serving t h'" and k: "ftl_inv d' (hs_Ctx h')" "brisk (hs_Ctx h')" "\<not> Flushing (hs_Ctx h')" "th_Irp (OtherThread (hs_Ctx h')) = None"
  obtains h2 where "\<And>n. k < n \<Longrightarrow> serve n lower u um i (d, h) = Some (d', h2, th_Data (get_thread (hs_Ctx h') t))"
    "idle d' h2" "same_ftl (hs_Ctx h') (hs_Ctx h2)" "hs_Done h2 = hs_Done h'"
proof -
  obtain h2 where e: "\<And>n. LevelingThreadCompletion (Suc n) lower u um t h' = Some h2" "idle d' h2" "same_ftl (hs_Ctx h') (hs_Ctx h2)"
    "hs_Done h2 = hs_Done h'" "th_Data (get_thread (hs_Ctx h2) t) = th_Data (get_thread (hs_Ctx h') t)"
    by (rule serving_ends [OF sv k, of lower u um]) (rule that)
  have "serve n lower u um i (d, h) = Some (d', h2, th_Data (get_thread (hs_Ctx h') t))" if "k < n" for n
  proof -
    have "n = Suc (n - 1)" using that by simp
    then obtain m where n: "n = Suc m" by blast
    have lc: "LevelingThreadCompletion n lower u um t h' = Some h2" unfolding n by (rule e(1))
    show ?thesis
    proof (cases "st = STATUS_PENDING")
      case True
      have "await n n lower u um t d g = Some (d', h2)"
        using await_rounds [of k lower d g d' h' n n u um t] r True that lc by simp
      moreover have "LevelingDispatch n lower u um True i (is_read i) h = Some (STATUS_PENDING, g)"
        using en ex True by (simp add: LevelingDispatch_def)
      ultimately show ?thesis using e(5) by (simp add: serve_def t [symmetric] Let_def del: await.simps)
    next
      case False
      then have "d' = d" "h' = g" using r rounds_True by simp_all
      then have "LevelingDispatch n lower u um True i (is_read i) h = Some (st, h2)"
        using en ex False lc by (simp add: LevelingDispatch_def del: LevelingThreadCompletion.simps)
      then show ?thesis using e(5) False \<open>d' = d\<close> by (simp add: serve_def t [symmetric] Let_def)
    qed
  qed
  then show ?thesis using that e by blast
qed

section \<open>Each kind of request\<close>

lemma cdb_LEN_small: "rw_irp i \<Longrightarrow> cdb_LEN (irp_Srb i) < 65536"
proof -
  assume "rw_irp i"
  then have "srb_Cdb (irp_Srb i) 7 < 256" "srb_Cdb (irp_Srb i) 8 < 256" by (simp_all add: rw_irp_def)
  then show ?thesis by (simp add: cdb_LEN_def be16_def)
qed

definition attached :: "(irp \<Rightarrow> mem) \<Rightarrow> irp \<Rightarrow> thread \<Rightarrow> thread" where
  "attached um i th = th\<lparr>th_Irp := Some i, th_Mdl := irp_Mdl i, th_DataSystemAddress := None, th_Data := um i\<rparr>"

definition started :: "(irp \<Rightarrow> mem) \<Rightarrow> irp \<Rightarrow> thread \<Rightarrow> thread" where
  "started um i th = (attached um i th)\<lparr>th_DataBuffer := srb_DataBuffer (irp_Srb i),
     th_LBA := cdb_LBA (irp_Srb i), th_LEN := cdb_LEN (irp_Srb i), th_Transferred := 0\<rparr>"

lemma upd_thread_twice: "upd_thread t f (upd_thread t g h) = upd_thread t (\<lambda>th. f (g th)) h"
  by (cases t) (simp_all add: upd_thread_def upd_ctx_def)

lemma refused_iff:
  assumes i: "rw_irp i" and g: "geom c"
  shows "rw_refused (attached um i th) i c \<longleftrightarrow> \<not> accepted (SIZE_OF_MAP c) i"
proof -
  have N: "wrap32 (SIZE_OF_MAP c * 8) = 8 * SIZE_OF_MAP c" using geom_size [OF g] by simp
  have L: "wrap32 (cdb_LBA (irp_Srb i) + cdb_LEN (irp_Srb i)) = cdb_LBA (irp_Srb i) + cdb_LEN (irp_Srb i)"
    using i by (simp add: rw_irp_def)
  have n: "wrap32 (cdb_LEN (irp_Srb i) * 512) = 512 * cdb_LEN (irp_Srb i)" using cdb_LEN_small [OF i] by simp
  show ?thesis
    unfolding rw_refused_def N L n accepted_def
    by (auto simp: GetDataSystemAddress_def attached_def)
qed

lemma execute_rw:
  assumes i: "rw_irp i" and g: "geom (hs_Ctx h)" and t: "is_read i = (\<exists>k. t = TRead k)"
  shows "ExecuteThread lower u um t i h =
    (if \<not> accepted (SIZE_OF_MAP (hs_Ctx h)) i
     then (STATUS_IO_DEVICE_ERROR, complete_irp t invalid_cdb (upd_thread t (attached um i) h))
     else case t of TRead k \<Rightarrow> ExecuteReadHandler k (upd_thread t (started um i) h)
       | TOther \<Rightarrow> ExecuteWriteHandler (upd_thread t (started um i) h))"
proof -
  have a: "attach um t i h = upd_thread t (attached um i) h" by (simp add: attach_def attached_def)
  have x: "ExecuteThread lower u um t i h = ExecuteRW u t (attach um t i h)"
    using i by (auto simp: ExecuteThread_def Let_def rw_irp_def execute_scsi_def)
  have c: "SIZE_OF_MAP (hs_Ctx (upd_thread t (attached um i) h)) = SIZE_OF_MAP (hs_Ctx h)" by (cases t) simp_all
  have gm: "geom (hs_Ctx (upd_thread t (attached um i) h))" using g by (cases t) (simp_all add: geom_def)
  have th: "get_thread (hs_Ctx (upd_thread t (attached um i) h)) t = attached um i (get_thread (hs_Ctx h) t)"
    by simp
  have st: "upd_thread t (\<lambda>th. th\<lparr>th_DataBuffer := srb_DataBuffer (irp_Srb i), th_LBA := cdb_LBA (irp_Srb i),
      th_LEN := cdb_LEN (irp_Srb i), th_Transferred := 0\<rparr>) (upd_thread t (attached um i) h) = upd_thread t (started um i) h"
    by (simp add: upd_thread_twice started_def)
  have irp: "th_Irp (attached um i th) = Some i" for th by (simp add: attached_def)
  show ?thesis
    unfolding x a ExecuteRW_def Let_def th irp option.case refused_iff [OF i gm] c st
    using t i by (cases t) (auto simp: is_read_def rw_irp_def)
qed


lemma buffer_mapped:
  assumes "rw_irp i" "accepted N i" "th_Irp t = Some i" "th_Mdl t = irp_Mdl i" "th_LEN t = cdb_LEN (irp_Srb i)"
  obtains a where "GetDataSystemAddress (wrap32 (th_LEN t * 512)) False t = (True, t\<lparr>th_DataSystemAddress := Some a\<rparr>)"
proof -
  have n: "wrap32 (th_LEN t * 512) = 512 * cdb_LEN (irp_Srb i)" using cdb_LEN_small [OF assms(1)] assms(5) by simp
  have b: "buffer_ok i (irp_Mdl i) (512 * cdb_LEN (irp_Srb i))" using assms(2) by (simp add: accepted_def)
  then obtain m where m: "irp_Mdl i = Some m" by (auto simp: buffer_ok_def split: option.splits)
  then obtain a where "mdl_SystemVA m = Some a" using assms(1) by (auto simp: rw_irp_def)
  then show ?thesis using that b m assms(3,4) unfolding n by (auto simp: GetDataSystemAddress_def)
qed

lemma started_fields [simp]:
  "th_Irp (started um i th) = Some i" "th_Mdl (started um i th) = irp_Mdl i" "th_DataSystemAddress (started um i th) = None"
  "th_Data (started um i th) = um i" "th_LBA (started um i th) = cdb_LBA (irp_Srb i)" "th_LEN (started um i th) = cdb_LEN (irp_Srb i)"
  "th_Transferred (started um i th) = 0" "thread_view (started um i th) = thread_view th"
  by (simp_all add: started_def attached_def thread_view_def)

lemma idle_geom: "idle d h \<Longrightarrow> geom (hs_Ctx h)"
  using ftl_invD(1) by (auto simp: idle_def)

lemma execute_idle:
  assumes idle: "idle d h" and i: "rw_irp i" and acc: "accepted (SIZE_OF_MAP (hs_Ctx h)) i" and S: "same_ftl (hs_Ctx h) c"
    and t: "is_read i = (\<exists>k. t = TRead k)"
  shows "ExecuteThread lower u um t i (h\<lparr>hs_Ctx := c\<rparr>) =
     (case t of TRead k \<Rightarrow> ExecuteReadHandler k (upd_thread t (started um i) (h\<lparr>hs_Ctx := c\<rparr>))
       | TOther \<Rightarrow> ExecuteWriteHandler (upd_thread t (started um i) (h\<lparr>hs_Ctx := c\<rparr>)))"
proof -
  have g: "geom c" and m: "SIZE_OF_MAP c = SIZE_OF_MAP (hs_Ctx h)" using idle_geom [OF idle] S by (simp_all add: geom_def same_ftl_def)
  show ?thesis using execute_rw [OF i _ t, of "h\<lparr>hs_Ctx := c\<rparr>"] acc g m by simp
qed

text \<open>A write in the state in which its handler starts, with the buffer mapped.\<close>

lemma write_started:
  assumes s: "serving TOther h1" and nf: "\<not> Flushing (hs_Ctx h1)" and i: "rw_irp i" and acc: "accepted N i"
  obtains h3 a where "ExecuteWriteHandler (upd_thread TOther (started um i) h1) = ExecuteWriteHandler h3" "serving TOther h3" "alone (hs_Ctx h3)"
    "h3 = upd_thread TOther (\<lambda>th. (started um i th)\<lparr>th_DataSystemAddress := Some a\<rparr>) h1"
proof -
  let ?t = "started um i (OtherThread (hs_Ctx h1))"
  obtain a where a: "GetDataSystemAddress (wrap32 (th_LEN ?t * 512)) False ?t = (True, ?t\<lparr>th_DataSystemAddress := Some a\<rparr>)"
    by (rule buffer_mapped [OF i acc, of ?t]) simp_all
  define h3 where "h3 = upd_thread TOther (\<lambda>th. (started um i th)\<lparr>th_DataSystemAddress := Some a\<rparr>) h1"
  have "calm h1 h3" unfolding h3_def by (rule calm_thread) (simp add: thread_view_def started_def attached_def)
  then have s3: "serving TOther h3" by (rule serving_calm [OF _ s])
  then have w: "\<not> WaitingMarkedThreads (hs_Ctx h3)" "ReadActive (hs_Ctx h3) = 0" "good False h3"
    by (auto simp: serving_def work_def split: if_splits)
  have al: "alone (hs_Ctx h3)"
    using w(1) all_free(2,3) [OF w(3,2)] nf unfolding alone_def by (simp add: h3_def)
  have u: "upd_thread TOther (\<lambda>_. ?t\<lparr>th_DataSystemAddress := Some a\<rparr>) (upd_thread TOther (started um i) h1) = h3"
    by (simp add: h3_def upd_thread_def upd_ctx_def)
  have "ExecuteWriteHandler (upd_thread TOther (started um i) h1) = write_loop h3"
    using a u by (simp add: ExecuteWriteHandler_def Let_def)
  then have "ExecuteWriteHandler (upd_thread TOther (started um i) h1) = ExecuteWriteHandler h3"
    by (simp add: handler_mapped [OF al])
  then show ?thesis using that s3 al h3_def by blast
qed


text \<open>
  The device has done as the disk does: it is at rest again, with the contents and the buffer of the disk,
  and one more request is completed, with the disk's answer. Whether the driver has marked the request
  pending is not part of the answer. \<open>between\<close> are the contents of the disk while it serves the request, sector
  by sector: a restart would read one of those, or what it would have read before.
\<close>

definition between :: "(irp \<Rightarrow> mem) \<Rightarrow> nat \<Rightarrow> irp \<Rightarrow> (nat \<Rightarrow> sector) \<Rightarrow> (nat \<Rightarrow> sector) set" where
  "between um n i f =
     (if is_read i \<or> \<not> accepted n i then {f}
      else (\<lambda>k. overwritten f (cdb_LBA (irp_Srb i)) k (um i)) ` {..cdb_LEN (irp_Srb i)})"

definition done_as_disk :: "(irp \<Rightarrow> mem) \<Rightarrow> irp \<Rightarrow> mem \<Rightarrow> hs \<Rightarrow> mem \<Rightarrow> hs \<Rightarrow> mem \<Rightarrow> bool" where
  "done_as_disk um i d h d' h' buf \<longleftrightarrow>
     idle d' h' \<and> SIZE_OF_MAP (hs_Ctx h') = SIZE_OF_MAP (hs_Ctx h) \<and>
     scn_now (hs_Ctx h') \<le> scn_now (hs_Ctx h) + cdb_LEN (irp_Srb i) + 1 \<and>
     (\<exists>ans b. disk_request um (SIZE_OF_MAP (hs_Ctx h)) i (contents d h) = (contents d' h', ans, buf) \<and>
        hs_Done h' = hs_Done h @ [ans\<lparr>irp_Pending := b\<rparr>]) \<and>
     on_record (mark_of d (hs_Ctx h)) (between um (SIZE_OF_MAP (hs_Ctx h)) i (contents d h)) d' (hs_Ctx h')"

lemma answer_pending: "write_answer n (i\<lparr>irp_Pending := b\<rparr>) = (write_answer n i)\<lparr>irp_Pending := b\<rparr>"
  by (simp add: write_answer_def)

lemma contents_same: "same_ftl (hs_Ctx h) (hs_Ctx h') \<Longrightarrow> contents d h' = contents d h"
  using vread_same [of "hs_Ctx h" "hs_Ctx h'" d] by (simp add: contents_def in_dev_def same_ftl_def fun_eq_iff)

lemma serve_write:
  assumes idle: "idle d h" and i: "rw_irp i" "\<not> is_read i" and acc: "accepted (SIZE_OF_MAP (hs_Ctx h)) i"
    and scn: "scn_now (hs_Ctx h) + cdb_LEN (irp_Srb i) + 1 < 4294967295"
  shows "\<exists>N d' h' buf. (\<forall>n > N. serve n lower u um i (d, h) = Some (d', h', buf)) \<and> done_as_disk um i d h d' h' buf"
proof -
  let ?L = "cdb_LBA (irp_Srb i)" and ?n = "cdb_LEN (irp_Srb i)"
  obtain c where c: "dispatch_enter False i (hs_Mode h) (hs_Ctx h) = (Run TOther, c)" "same_ftl (hs_Ctx h) c"
    "serving TOther (h\<lparr>hs_Ctx := c\<rparr>)" "\<not> Flushing c" by (rule idle_enter [OF idle, of TOther False i]) simp_all
  obtain h3 a where h3: "ExecuteWriteHandler (upd_thread TOther (started um i) (h\<lparr>hs_Ctx := c\<rparr>)) = ExecuteWriteHandler h3"
    "serving TOther h3" "alone (hs_Ctx h3)" "h3 = upd_thread TOther (\<lambda>th. (started um i th)\<lparr>th_DataSystemAddress := Some a\<rparr>) (h\<lparr>hs_Ctx := c\<rparr>)"
    by (rule write_started [OF c(3) _ i(1) acc, of um]) (use c(4) in simp)
  let ?t = "OtherThread (hs_Ctx h3)"
  have S: "same_ftl (hs_Ctx h) (hs_Ctx h3)" using c(2) by (simp add: h3(4) same_ftl_def)
  have t: "th_Irp ?t = Some i" "th_LBA ?t = ?L" "th_LEN ?t = ?n" "th_Data ?t = um i" "th_Transferred ?t = 0" by (simp_all add: h3(4))
  have m: "SIZE_OF_MAP (hs_Ctx h3) = SIZE_OF_MAP (hs_Ctx h)" "scn_now (hs_Ctx h3) = scn_now (hs_Ctx h)"
    using S same_rank(3) [OF S] by (simp_all add: same_ftl_def)
  have v: "vread d (hs_Ctx h3) = vread d (hs_Ctx h)" using vread_same [OF S] by blast
  have inv: "ftl_inv d (hs_Ctx h3)" "brisk (hs_Ctx h3)" using idle ftl_inv_same [OF S] same_rank(2) [OF S] by (simp_all add: idle_def)
  have bounds: "cdb_LBA (irp_Srb i) + cdb_LEN (irp_Srb i) \<le> 8 * SIZE_OF_MAP (hs_Ctx h3)"
    "scn_now (hs_Ctx h3) + ?n + 1 < 4294967295" "hs_Mode h3 = VLTL_MODE_ACTIVE"
    using acc scn h3(2) unfolding m by (simp_all add: accepted_def serving_def)
  note total = write_request_recorded [OF inv(1) bounds(3) h3(3) inv(2) refl t(5) _ t(1), unfolded t(2-4), OF bounds(1,2) on_record_start, of lower]
  then obtain k d' h' p where w: "code_run lower d h3 k True d' h'" "ftl_inv d' (hs_Ctx h')" "brisk (hs_Ctx h')"
    "\<forall>L. in_dev (hs_Ctx h') L \<longrightarrow> vread d' (hs_Ctx h') L = (if ?L \<le> L \<and> L < ?L + ?n then um i (L - ?L) else vread d (hs_Ctx h3) L)"
    "SIZE_OF_MAP (hs_Ctx h') = SIZE_OF_MAP (hs_Ctx h3)" "th_Irp (OtherThread (hs_Ctx h')) = None" "th_Data (OtherThread (hs_Ctx h')) = um i"
    "hs_Done h' = hs_Done h3 @ [write_answer ?n (i\<lparr>irp_Pending := p\<rparr>)]" "scn_now (hs_Ctx h') \<le> scn_now (hs_Ctx h3) + ?n + 1"
    and rec: "on_record (mark_of d (hs_Ctx h3)) ((\<lambda>k. overwritten (vread d (hs_Ctx h3)) ?L k (um i)) ` {..?n}) d' (hs_Ctx h')"
    by blast
  obtain st g where g: "ExecuteWriteHandler h3 = (st, g)" by fastforce
  note r = write_rounds [OF w(1) h3(3,2) g]
  have ex: "ExecuteThread lower u um TOther i (h\<lparr>hs_Ctx := c\<rparr>) = (st, g)"
    using execute_idle [OF idle i(1) acc c(2), of TOther] i(2) h3(1) g by simp
  obtain h2 where e: "\<And>n. k < n \<Longrightarrow> serve n lower u um i (d, h) = Some (d', h2, um i)" "idle d' h2"
    "same_ftl (hs_Ctx h') (hs_Ctx h2)" "hs_Done h2 = hs_Done h'"
  proof (rule serve_completed [of TOther i h c lower u um st g k d d' h'])
    show "TOther = (if is_read i then TRead (ReadFreeList (hs_Ctx h)) else TOther)" using i(2) by simp
    show "dispatch_enter (is_read i) i (hs_Mode h) (hs_Ctx h) = (Run TOther, c)" using c(1) i(2) by simp
    show "rounds k lower (st \<noteq> STATUS_PENDING, d, g) = (True, d', h')" "\<not> Flushing (hs_Ctx h')" using r by blast+
    show "serving TOther h'" using r serving_calm [OF _ h3(2)] by blast
  qed (use ex w that in \<open>simp_all only: get_thread.simps\<close>)
  have C: "contents d' h2 = (\<lambda>x. if ?L \<le> x \<and> x < ?L + ?n then um i (x - ?L) else contents d h x)"
    using contents_same [OF e(3), of d'] w(4,5) acc by (auto simp: contents_def fun_eq_iff in_dev_def accepted_def m v)
  have "done_as_disk um i d h d' h2 (um i)"
    unfolding done_as_disk_def
  proof (intro conjI exI)
    show "disk_request um (SIZE_OF_MAP (hs_Ctx h)) i (contents d h) = (contents d' h2, write_answer ?n i, um i)"
      using acc i(2) C by (simp add: disk_request_def Let_def)
    show "hs_Done h2 = hs_Done h @ [(write_answer ?n i)\<lparr>irp_Pending := p\<rparr>]"
      using e(4) w(8) by (simp add: answer_pending h3(4))
    show "scn_now (hs_Ctx h2) \<le> scn_now (hs_Ctx h) + ?n + 1" using same_rank(3) [OF e(3)] w(9) m by simp
    have dev: "in_dev (hs_Ctx h') x = in_dev (hs_Ctx h) x" for x using w(5) m(1) by (simp add: in_dev_def)
    have "on_record (mark_of d (hs_Ctx h)) (between um (SIZE_OF_MAP (hs_Ctx h)) i (contents d h)) d' (hs_Ctx h')"
      by (rule on_record_alike [OF rec [unfolded mark_of_same [OF S]]])
         (use acc i(2) in \<open>auto simp: between_def overwritten_def contents_def v dev\<close>)
    then show "on_record (mark_of d (hs_Ctx h)) (between um (SIZE_OF_MAP (hs_Ctx h)) i (contents d h)) d' (hs_Ctx h2)"
      by (rule on_record_same [OF _ e(3)])
  qed (use e w m in \<open>simp_all add: same_ftl_def\<close>)
  then show ?thesis using e(1) by blast
qed


lemma aside_view: "aside i c c' \<Longrightarrow> gate_view c' = gate_view c"
  by (auto simp: aside_def gate_view_def thread_view_def fun_eq_iff split: if_splits)

lemma aside_fields: "aside i c c' \<Longrightarrow> Flushing c' = Flushing c \<and> OtherThread c' = OtherThread c"
  by (auto simp: aside_def)

lemma read_rounds:
  assumes "read_run lower i d0 h0 n fin d h" "ExecuteReadHandler i h0 = (st0, g0)"
  shows "rounds n lower (st0 \<noteq> STATUS_PENDING, d0, g0) = (fin, d, h)"
  using assms by (induction rule: read_run.induct) (simp_all add: rounds_Suc_last)

lemma read_started:
  assumes s: "serving (TRead k) h1" and i: "rw_irp i" and acc: "accepted N i"
  shows "serving (TRead k) (upd_thread (TRead k) (started um i) h1)"
    "mappable (ReadThread (hs_Ctx (upd_thread (TRead k) (started um i) h1)) k)"
proof -
  have "calm h1 (upd_thread (TRead k) (started um i) h1)" by (rule calm_thread) simp
  then show "serving (TRead k) (upd_thread (TRead k) (started um i) h1)" by (rule serving_calm [OF _ s])
  let ?t = "started um i (ReadThread (hs_Ctx h1) k)"
  obtain a where "GetDataSystemAddress (wrap32 (th_LEN ?t * 512)) False ?t = (True, ?t\<lparr>th_DataSystemAddress := Some a\<rparr>)"
    by (rule buffer_mapped [OF i acc, of ?t]) simp_all
  then have "mappable ?t" by (simp add: mappable_def)
  then show "mappable (ReadThread (hs_Ctx (upd_thread (TRead k) (started um i) h1)) k)" by simp
qed

lemma serve_read:
  assumes idle: "idle d h" and i: "rw_irp i" "is_read i" and acc: "accepted (SIZE_OF_MAP (hs_Ctx h)) i"
  shows "\<exists>N d' h' buf. (\<forall>n > N. serve n lower u um i (d, h) = Some (d', h', buf)) \<and> done_as_disk um i d h d' h' buf"
proof -
  let ?L = "cdb_LBA (irp_Srb i)" and ?n = "cdb_LEN (irp_Srb i)" and ?k = "ReadFreeList (hs_Ctx h)"
  obtain c where c: "dispatch_enter True i (hs_Mode h) (hs_Ctx h) = (Run (TRead ?k), c)" "same_ftl (hs_Ctx h) c"
    "serving (TRead ?k) (h\<lparr>hs_Ctx := c\<rparr>)" "\<not> Flushing c" "th_Irp (OtherThread c) = None"
    by (rule idle_enter [OF idle, of "TRead ?k" True i]) simp_all
  define h3 where "h3 = upd_thread (TRead ?k) (started um i) (h\<lparr>hs_Ctx := c\<rparr>)"
  have s3: "serving (TRead ?k) h3" "mappable (ReadThread (hs_Ctx h3) ?k)"
    unfolding h3_def by (rule read_started [OF c(3) i(1) acc])+
  let ?t = "ReadThread (hs_Ctx h3) ?k"
  have S: "same_ftl (hs_Ctx h) (hs_Ctx h3)" using c(2) by (simp add: h3_def same_ftl_def)
  have t: "th_Irp ?t = Some i" "th_LBA ?t = ?L" "th_LEN ?t = ?n" "th_Data ?t = um i" "th_Transferred ?t = 0" by (simp_all add: h3_def)
  have m: "SIZE_OF_MAP (hs_Ctx h3) = SIZE_OF_MAP (hs_Ctx h)" "scn_now (hs_Ctx h3) = scn_now (hs_Ctx h)"
    using S same_rank(3) [OF S] by (simp_all add: same_ftl_def)
  have v: "vread d (hs_Ctx h3) = vread d (hs_Ctx h)" using vread_same [OF S] by blast
  have inv: "ftl_inv d (hs_Ctx h3)" "brisk (hs_Ctx h3)" using idle ftl_inv_same [OF S] same_rank(2) [OF S] by (simp_all add: idle_def)
  have bounds: "cdb_LBA (irp_Srb i) + cdb_LEN (irp_Srb i) \<le> 8 * SIZE_OF_MAP (hs_Ctx h3)" "hs_Mode h3 = VLTL_MODE_ACTIVE"
    using acc s3(1) unfolding m by (simp_all add: accepted_def serving_def)
  note total = read_request_total [OF inv(1) bounds(2) refl t(5) _ t(1) s3(2), unfolded t(2-4), OF bounds(1), of lower]
  then obtain n h' b where w: "read_run lower ?k d h3 n True d h'" "aside ?k (hs_Ctx h3) (hs_Ctx h')" "hs_Mode h' = VLTL_MODE_ACTIVE"
    "th_Data (ReadThread (hs_Ctx h') ?k) = (\<lambda>j. if j < ?n then vread d (hs_Ctx h3) (?L + j) else um i j)"
    "hs_Done h' = hs_Done h3 @ [write_answer ?n (i\<lparr>irp_Pending := b\<rparr>)]"
    by blast
  let ?buf = "\<lambda>j. if j < ?n then contents d h (?L + j) else um i j"
  have buf: "th_Data (ReadThread (hs_Ctx h') ?k) = ?buf"
    using w(4) acc by (auto simp: contents_def in_dev_def accepted_def fun_eq_iff v)
  have S3: "same_ftl (hs_Ctx h3) (hs_Ctx h')" by (rule aside_same [OF w(2)])
  have cm: "calm h3 h'" using aside_view [OF w(2)] bounds(2) w(3) by (simp add: calm_view)
  obtain st g where g: "ExecuteReadHandler ?k h3 = (st, g)" by fastforce
  have ex: "ExecuteThread lower u um (TRead ?k) i (h\<lparr>hs_Ctx := c\<rparr>) = (st, g)"
    using execute_idle [OF idle i(1) acc c(2), of "TRead ?k"] i(2) g by (simp add: h3_def)
  obtain h2 where e: "\<And>m. n < m \<Longrightarrow> serve m lower u um i (d, h) = Some (d, h2, ?buf)" "idle d h2"
    "same_ftl (hs_Ctx h') (hs_Ctx h2)" "hs_Done h2 = hs_Done h'"
  proof (rule serve_completed [of "TRead ?k" i h c lower u um st g n d d h'])
    show "TRead ?k = (if is_read i then TRead (ReadFreeList (hs_Ctx h)) else TOther)" using i(2) by simp
    show "dispatch_enter (is_read i) i (hs_Mode h) (hs_Ctx h) = (Run (TRead ?k), c)" using c(1) i(2) by simp
    show "rounds n lower (st \<noteq> STATUS_PENDING, d, g) = (True, d, h')" by (rule read_rounds [OF w(1) g])
    show "serving (TRead ?k) h'" by (rule serving_calm [OF cm s3(1)])
    show "ftl_inv d (hs_Ctx h')" "brisk (hs_Ctx h')" using inv ftl_inv_same [OF S3] same_rank(2) [OF S3] by simp_all
    show "\<not> Flushing (hs_Ctx h')" "th_Irp (OtherThread (hs_Ctx h')) = None"
      using aside_fields [OF w(2)] c(4,5) by (simp_all add: h3_def)
  qed (use ex that buf in \<open>simp_all only: get_thread.simps\<close>)
  have S2: "same_ftl (hs_Ctx h) (hs_Ctx h2)" by (rule same_ftl_trans [OF same_ftl_trans [OF S S3] e(3)])
  have "done_as_disk um i d h d h2 ?buf"
    unfolding done_as_disk_def
  proof (intro conjI exI)
    show "disk_request um (SIZE_OF_MAP (hs_Ctx h)) i (contents d h) = (contents d h2, write_answer ?n i, ?buf)"
      using acc i(2) contents_same [OF S2] by (simp add: disk_request_def Let_def)
    show "hs_Done h2 = hs_Done h @ [(write_answer ?n i)\<lparr>irp_Pending := b\<rparr>]"
      using e(4) w(5) by (simp add: answer_pending h3_def)
    show "scn_now (hs_Ctx h2) \<le> scn_now (hs_Ctx h) + ?n + 1" using same_rank(3) [OF S2] by simp
    show "on_record (mark_of d (hs_Ctx h)) (between um (SIZE_OF_MAP (hs_Ctx h)) i (contents d h)) d (hs_Ctx h2)"
      by (rule on_record_same [OF on_record_start S2])
  qed (use e(2) S2 in \<open>simp_all add: same_ftl_def\<close>)
  then show ?thesis using e(1) by blast
qed


text \<open>A request outside the device, or without a buffer, is refused.\<close>

lemma serve_refused:
  assumes idle: "idle d h" and i: "rw_irp i" and acc: "\<not> accepted (SIZE_OF_MAP (hs_Ctx h)) i"
  shows "\<exists>N d' h' buf. (\<forall>n > N. serve n lower u um i (d, h) = Some (d', h', buf)) \<and> done_as_disk um i d h d' h' buf"
proof -
  define t where "t = (if is_read i then TRead (ReadFreeList (hs_Ctx h)) else TOther)"
  have rt: "is_read i = (\<exists>k. t = TRead k)" by (simp add: t_def)
  obtain c where c: "dispatch_enter (is_read i) i (hs_Mode h) (hs_Ctx h) = (Run t, c)" "same_ftl (hs_Ctx h) c"
    "serving t (h\<lparr>hs_Ctx := c\<rparr>)" "\<not> Flushing c" "th_Irp (OtherThread c) = None" by (rule idle_enter [OF idle t_def]) blast
  define g where "g = complete_irp t invalid_cdb (upd_thread t (attached um i) (h\<lparr>hs_Ctx := c\<rparr>))"
  have geo: "geom c" and m: "SIZE_OF_MAP c = SIZE_OF_MAP (hs_Ctx h)" using idle_geom [OF idle] c(2) by (simp_all add: geom_def same_ftl_def)
  have ex: "ExecuteThread lower u um t i (h\<lparr>hs_Ctx := c\<rparr>) = (STATUS_IO_DEVICE_ERROR, g)"
    using execute_rw [OF i _ rt, of "h\<lparr>hs_Ctx := c\<rparr>"] geo m acc by (simp add: g_def)
  have g: "hs_Done g = hs_Done h @ [invalid_cdb i]" "th_Data (get_thread (hs_Ctx g) t) = um i" "Flushing (hs_Ctx g) = Flushing c"
    "th_Irp (OtherThread (hs_Ctx g)) = None"
    using c(5) by (cases t; simp add: g_def complete_irp_def attached_def)+
  have S: "same_ftl (hs_Ctx h) (hs_Ctx g)" using c(2) by (cases t) (simp_all add: g_def complete_irp_def attached_def)
  have "calm (h\<lparr>hs_Ctx := c\<rparr>) g"
    using calm_ExecuteThread [of "h\<lparr>hs_Ctx := c\<rparr>" lower u um t i] ex by simp
  then have sv: "serving t g" by (rule serving_calm [OF _ c(3)])
  obtain h2 where e: "\<And>n. 0 < n \<Longrightarrow> serve n lower u um i (d, h) = Some (d, h2, um i)" "idle d h2"
    "same_ftl (hs_Ctx g) (hs_Ctx h2)" "hs_Done h2 = hs_Done g"
  proof (rule serve_completed [OF t_def c(1) ex _ sv])
    show "rounds 0 lower (STATUS_IO_DEVICE_ERROR \<noteq> STATUS_PENDING, d, g) = (True, d, g)" by simp
    show "ftl_inv d (hs_Ctx g)" "brisk (hs_Ctx g)" using idle ftl_inv_same [OF S] same_rank(2) [OF S] by (simp_all add: idle_def)
  qed (use that g c(4) in simp_all)
  have S2: "same_ftl (hs_Ctx h) (hs_Ctx h2)" by (rule same_ftl_trans [OF S e(3)])
  have "done_as_disk um i d h d h2 (um i)"
    unfolding done_as_disk_def
  proof (intro conjI exI)
    show "disk_request um (SIZE_OF_MAP (hs_Ctx h)) i (contents d h) = (contents d h2, invalid_cdb i, um i)"
      using acc contents_same [OF S2] by (simp add: disk_request_def Let_def)
    show "hs_Done h2 = hs_Done h @ [(invalid_cdb i)\<lparr>irp_Pending := irp_Pending (invalid_cdb i)\<rparr>]"
      using e(4) g(1) by simp
    show "scn_now (hs_Ctx h2) \<le> scn_now (hs_Ctx h) + cdb_LEN (irp_Srb i) + 1" using same_rank(3) [OF S2] by simp
    show "on_record (mark_of d (hs_Ctx h)) (between um (SIZE_OF_MAP (hs_Ctx h)) i (contents d h)) d (hs_Ctx h2)"
      by (rule on_record_same [OF on_record_start S2])
  qed (use e(2) S2 in \<open>simp_all add: same_ftl_def\<close>)
  then show ?thesis using e(1) by blast
qed

lemma serve_request:
  assumes "idle d h" "rw_irp i" "scn_now (hs_Ctx h) + cdb_LEN (irp_Srb i) + 1 < 4294967295"
  shows "\<exists>N d' h' buf. (\<forall>n > N. serve n lower u um i (d, h) = Some (d', h', buf)) \<and> done_as_disk um i d h d' h' buf"
  using serve_refused [OF assms(1,2)] serve_read [OF assms(1,2)] serve_write [OF assms(1,2) _ _ assms(3)] by blast

end
