(* ===== verification/Disk.thy ===== *)
theory Disk
  imports Serve
begin

text \<open>
  The driver as a disk. Requests arrive one after the other; between them the timer may flush the
  cache. From outside this is an array of sectors that is read and written.
\<close>

section \<open>The timer\<close>

text \<open>The timer has expired: its DPC runs, and the flush it may start goes on to its end.\<close>

definition timer :: "nat \<Rightarrow> lower \<Rightarrow> ntstatus \<Rightarrow> (irp \<Rightarrow> mem) \<Rightarrow> mem \<times> hs \<Rightarrow> (mem \<times> hs) option" where
  "timer n lower u um s =
     (case s of (d, h) \<Rightarrow>
        case LevelingFlushDpc n lower u um (upd_ctx (\<lambda>c. c\<lparr>Timer := False\<rparr>) h) of None \<Rightarrow> None
        | Some h' \<Rightarrow> if OtherActive (hs_Ctx h') = 1 then await n n lower u um TOther d h' else Some (d, h'))"

text \<open>A flush without a request.\<close>

definition bare :: "ctx \<Rightarrow> bool" where
  "bare c \<longleftrightarrow> Flushing c \<and> th_Irp (OtherThread c) = None"

lemma bare_side: "side c' = side c \<Longrightarrow> bare c' = bare c"
  by (simp add: side_def bare_def) (metis map_option_is_None)

lemmas bare_issuers = side_issuers(1,3,9) [THEN bare_side]

lemma flush_purge_out:
  assumes "flush_purge lower h = (st, h')" "bare (hs_Ctx h)"
  shows "(if st = STATUS_PENDING then bare (hs_Ctx h') \<and> flush_req h' \<and> own_req h'
          else \<not> Flushing (hs_Ctx h') \<and> th_Irp (OtherThread (hs_Ctx h')) = None)"
proof -
  have m: "bare (hs_Ctx (IoMarkIrpPending TOther h))" using assms(2) by (simp add: bare_def IoMarkIrpPending_def)
  have i: "bare (hs_Ctx (ExecutePurgeCache (IoMarkIrpPending TOther h)))" "bare (hs_Ctx (ExecutePurgeChunk (IoMarkIrpPending TOther h)))"
    using m by (simp_all only: bare_issuers)
  have n: "flush_done lower h = (STATUS_SUCCESS, upd_ctx (\<lambda>c. c\<lparr>Flushing := False\<rparr>) h)"
    using assms(2) by (simp add: flush_done_def ExecutePass_def bare_def Let_def)
  have "st = STATUS_PENDING \<and> h' \<in> {ExecutePurgeCache (IoMarkIrpPending TOther h), ExecutePurgeChunk (IoMarkIrpPending TOther h)} \<or>
      st = STATUS_SUCCESS \<and> h' = upd_ctx (\<lambda>c. c\<lparr>Flushing := False\<rparr>) h"
    using assms(1) n by (simp add: flush_purge_def Let_def split: if_splits)
  then show ?thesis using i assms(2) by (elim disjE) (auto simp: bare_def)
qed

lemma flush_handler_out:
  assumes "ExecuteFlushHandler lower h = (st, h')" "bare (hs_Ctx h)"
  shows "(if st = STATUS_PENDING then bare (hs_Ctx h') \<and> flush_req h' \<and> own_req h'
          else \<not> Flushing (hs_Ctx h') \<and> th_Irp (OtherThread (hs_Ctx h')) = None)"
proof -
  let ?L = "flush_LBA (hs_Ctx h)" and ?n = "flush_LEN (hs_Ctx h)"
  have m: "bare (hs_Ctx (IoMarkIrpPending TOther h))" using assms(2) by (simp add: bare_def IoMarkIrpPending_def)
  have f: "bare (hs_Ctx (ExecuteCacheFillRead ?L ?n (IoMarkIrpPending TOther h)))" using m by (simp only: bare_issuers)
  have z: "bare (hs_Ctx (upd_ctx (CacheFillReadZero ?L ?n) h))" using assms(2) by (simp add: bare_def CacheFillReadZero_def)
  have e: "ExecuteFlushHandler lower h \<in> {flush_purge lower h, (STATUS_PENDING, ExecuteCacheFillRead ?L ?n (IoMarkIrpPending TOther h)),
      flush_purge lower (upd_ctx (CacheFillReadZero ?L ?n) h)}" unfolding ExecuteFlushHandler_def Let_def by simp
  consider "flush_purge lower h = (st, h')" | "st = STATUS_PENDING \<and> h' = ExecuteCacheFillRead ?L ?n (IoMarkIrpPending TOther h)" |
      "flush_purge lower (upd_ctx (CacheFillReadZero ?L ?n) h) = (st, h')"
    using e unfolding assms(1) insert_iff empty_iff prod.inject by argo
  then show ?thesis
  proof cases
    case 1 from flush_purge_out [OF this assms(2)] show ?thesis .
  next
    case 2 then show ?thesis using f by (simp only: flush_req_issuers own_req_issuers) simp
  next
    case 3 from flush_purge_out [OF this z] show ?thesis .
  qed
qed

lemma flush_rounds:
  assumes "serving TOther h0"
  shows "calm h0 g \<Longrightarrow> (if fin then \<not> Flushing (hs_Ctx g) \<and> th_Irp (OtherThread (hs_Ctx g)) = None else bare (hs_Ctx g) \<and> flush_req g \<and> own_req g) \<Longrightarrow>
    rounds n lower (fin, d, g) = (True, d', g') \<Longrightarrow> calm h0 g' \<and> \<not> Flushing (hs_Ctx g') \<and> th_Irp (OtherThread (hs_Ctx g')) = None"
proof (induction n arbitrary: fin d g)
  case (Suc n)
  show ?case
  proof (cases fin)
    case True
    then show ?thesis using Suc.prems rounds_True by simp
  next
    case False
    then have g: "bare (hs_Ctx g)" "flush_req g" "own_req g" using Suc.prems(2) by simp_all
    obtain st d1 g1 where c: "ExecuteFlushHandler lower (snd (served d g)) = (st, g1)" "d1 = fst (served d g)" by fastforce
    have b: "bare (hs_Ctx (snd (served d g)))" using bare_side [OF side_served(1) [OF g(3)]] g(1) by simp
    have cs: "code_step lower d g = (st \<noteq> STATUS_PENDING, d1, g1)"
      using code_step_flush [OF g(2)] b c by (simp add: bare_def)
    have "calm g (snd (snd (code_step lower d g)))"
      by (rule calm_code_step [OF serving_calm [OF Suc.prems(1) assms]]) (use g(3) in \<open>simp add: own_req_def\<close>)
    then have "calm h0 g1" using calm_trans [OF Suc.prems(1)] cs by simp
    moreover have "rounds n lower (st \<noteq> STATUS_PENDING, d1, g1) = (True, d', g')"
      using Suc.prems(3) False cs by (simp add: rounds_Suc)
    ultimately show ?thesis using Suc.IH [of g1 "st \<noteq> STATUS_PENDING" d1] flush_handler_out [OF c(1) b] by simp
  qed
qed simp


lemma flush_without_request:
  assumes s: "serving TOther h" and inv: "ftl_inv d (hs_Ctx h)" "brisk (hs_Ctx h)" and no: "th_Irp (OtherThread (hs_Ctx h)) = None"
    and rec: "on_record M {} d (hs_Ctx h)" and x: "ExecuteFlush lower False h = (st, g)"
  obtains k d' h' where "rounds k lower (st \<noteq> STATUS_PENDING, d, g) = (True, d', h')" "serving TOther h'"
    "ftl_inv d' (hs_Ctx h')" "brisk (hs_Ctx h')" "\<not> Flushing (hs_Ctx h')" "th_Irp (OtherThread (hs_Ctx h')) = None"
    "contents d' h' = contents d h" "hs_Done h' = hs_Done h" "scn_now (hs_Ctx h') = scn_now (hs_Ctx h)" "SIZE_OF_MAP (hs_Ctx h') = SIZE_OF_MAP (hs_Ctx h)"
    "on_record M {contents d h} d' (hs_Ctx h')"
proof -
  let ?rd = "((pending_irp (th_Irp (OtherThread (hs_Ctx h))), hs_Done h, scn_now (hs_Ctx h), SIZE_OF_MAP (hs_Ctx h)), M)"
  have "flushed lower (vread d (hs_Ctx h)) False ?rd (CacheDirty (hs_Ctx h)) 3 (st \<noteq> STATUS_PENDING, d, g)"
    by (rule flush_flushed [OF inv _ rec x]) simp
  then obtain k d' e where r: "rounds k lower (st \<noteq> STATUS_PENDING, d, g) = (fst (flush_done lower e) \<noteq> STATUS_PENDING, d', snd (flush_done lower e))"
    and e: "flushing (vread d (hs_Ctx h)) False ?rd d' e" unfolding flushed_def by blast
  have en: "th_Irp (OtherThread (hs_Ctx e)) = None" using e no by (simp add: flushing_def pending_irp_def)
  let ?h = "upd_ctx (\<lambda>c. c\<lparr>Flushing := False\<rparr>) e"
  have n: "flush_done lower e = (STATUS_SUCCESS, ?h)" using en by (simp add: flush_done_def ExecutePass_def Let_def)
  have rt: "rounds k lower (st \<noteq> STATUS_PENDING, d, g) = (True, d', ?h)" using r n by simp
  define b where "b = upd_ctx (\<lambda>c. c\<lparr>Flushing := True, Finalizing := False\<rparr>) h"
  have "bare (hs_Ctx b)" using no by (simp add: bare_def b_def)
  moreover have "ExecuteFlushHandler lower b = (st, g)" using x by (simp add: ExecuteFlush_def b_def)
  ultimately have o: "if st \<noteq> STATUS_PENDING then \<not> Flushing (hs_Ctx g) \<and> th_Irp (OtherThread (hs_Ctx g)) = None
      else bare (hs_Ctx g) \<and> flush_req g \<and> own_req g" using flush_handler_out [of lower b st g] by simp
  have "calm h g" using calm_ExecuteFlush [of h lower False] x by simp
  note out = flush_rounds [OF s this o rt]
  have S: "same_ftl (hs_Ctx e) (hs_Ctx ?h)" by (simp add: same_ftl_def)
  have "on_record M {contents d h} d' (hs_Ctx e)"
    by (rule on_record_alike [of M "{vread d (hs_Ctx h)}"]) (use e in \<open>auto simp: flushing_def contents_def in_dev_def\<close>)
  then have "on_record M {contents d h} d' (hs_Ctx ?h)" by (rule on_record_same [OF _ S])
  moreover have "contents d' ?h = contents d h"
    using e vread_same [OF S] by (auto simp: contents_def flushing_def in_dev_def fun_eq_iff)
  moreover have "ftl_inv d' (hs_Ctx ?h)" "brisk (hs_Ctx ?h)" "scn_now (hs_Ctx ?h) = scn_now (hs_Ctx h)"
    using e ftl_inv_same [OF S] same_rank(2,3) [OF S] by (simp_all add: flushing_def)
  ultimately show ?thesis using that [OF rt] out serving_calm [OF _ s] e by (simp add: flushing_def)
qed

lemma timer_gate:
  assumes idle: "idle d h" and on: "Timer (hs_Ctx h)"
  obtains c where "flush_dpc (hs_Mode h) ((hs_Ctx h)\<lparr>Timer := False\<rparr>) = (CacheDirty (hs_Ctx h), c)" "good False (h\<lparr>hs_Ctx := c\<rparr>)"
    "same_ftl (hs_Ctx h) c" "ReadActive c = 0" "OtherActive c = (if CacheDirty (hs_Ctx h) then 1 else 0)" "\<not> Flushing c"
    "th_Irp (OtherThread c) = None" "work c = 0"
proof -
  obtain f c where l: "flush_dpc (hs_Mode h) ((hs_Ctx h)\<lparr>Timer := False\<rparr>) = (f, c)" by fastforce
  note g = idle_gate [OF idle]
  have a: "hs_Mode h = VLTL_MODE_ACTIVE" "ReadActive (hs_Ctx h) = 0" "OtherActive (hs_Ctx h) = 0" "gate_inv (gate_of False h)"
    "\<not> Flushing (hs_Ctx h)" "th_Irp (OtherThread (hs_Ctx h)) = None" using idle by (simp_all add: idle_def good_def)
  have "gate_inv ((gate_of False h)\<lparr>g_Ctx := (hs_Ctx h)\<lparr>Timer := False\<rparr>, g_Dpc := True\<rparr>)" using expire_inv [OF a(4)] on by simp
  from dpc_inv [OF this _ _ , of f c] l g
  have "gate_inv (gate_of False (h\<lparr>hs_Ctx := c\<rparr>))" by (simp add: gate_of_def)
  moreover have "f = CacheDirty (hs_Ctx h)" "same_ftl (hs_Ctx h) c" "ReadActive c = 0" "OtherActive c = (if f then 1 else 0)" "\<not> Flushing c"
    "th_Irp (OtherThread c) = None" "work c = 0"
    using l a g by (auto simp: flush_dpc_def Let_def same_ftl_def work_def split: if_splits)
  ultimately show ?thesis using that l by (simp add: good_def)
qed

lemma serve_timer:
  assumes idle: "idle d h" and on: "Timer (hs_Ctx h)"
  shows "\<exists>N d' h'. (\<forall>n > N. timer n lower u um (d, h) = Some (d', h')) \<and> idle d' h' \<and> contents d' h' = contents d h \<and>
    hs_Done h' = hs_Done h \<and> scn_now (hs_Ctx h') = scn_now (hs_Ctx h) \<and> SIZE_OF_MAP (hs_Ctx h') = SIZE_OF_MAP (hs_Ctx h) \<and>
    on_record (mark_of d (hs_Ctx h)) {contents d h} d' (hs_Ctx h')"
proof -
  let ?h = "upd_ctx (\<lambda>c. c\<lparr>Timer := False\<rparr>) h"
  obtain c where c: "flush_dpc (hs_Mode h) ((hs_Ctx h)\<lparr>Timer := False\<rparr>) = (CacheDirty (hs_Ctx h), c)" "good False (h\<lparr>hs_Ctx := c\<rparr>)"
    "same_ftl (hs_Ctx h) c" "ReadActive c = 0" "OtherActive c = (if CacheDirty (hs_Ctx h) then 1 else 0)" "\<not> Flushing c"
    "th_Irp (OtherThread c) = None" "work c = 0" by (rule timer_gate [OF idle on]) (rule that)
  define h1 where "h1 = h\<lparr>hs_Ctx := c\<rparr>"
  have h1: "?h\<lparr>hs_Ctx := c\<rparr> = h1" by (simp add: h1_def upd_ctx_def)
  have S: "same_ftl (hs_Ctx h) (hs_Ctx h1)" using c(3) by (simp add: h1_def)
  have inv: "ftl_inv d (hs_Ctx h1)" "brisk (hs_Ctx h1)" using idle ftl_inv_same [OF S] same_rank(2) [OF S] by (simp_all add: idle_def)
  have keep: "contents d h1 = contents d h" "hs_Done h1 = hs_Done h" "scn_now (hs_Ctx h1) = scn_now (hs_Ctx h)" "SIZE_OF_MAP (hs_Ctx h1) = SIZE_OF_MAP (hs_Ctx h)"
    using contents_same [OF S] same_rank(3) [OF S] S by (simp_all add: h1_def same_ftl_def)
  show ?thesis
  proof (cases "CacheDirty (hs_Ctx h)")
    case False
    have "idle d h1" using idle c False inv by (simp add: idle_def h1_def)
    moreover have "timer n lower u um (d, h) = Some (d, h1)" for n
      using c(1,5) False h1 by (simp add: timer_def LevelingFlushDpc_def Let_def h1_def)
    moreover have "on_record (mark_of d (hs_Ctx h)) {contents d h} d (hs_Ctx h1)" by (rule on_record_same [OF on_record_start S])
    ultimately show ?thesis using keep by (intro exI [of _ 0] exI [of _ d] exI [of _ h1]) simp
  next
    case True
    obtain st g where x: "ExecuteFlush lower False h1 = (st, g)" by fastforce
    have s: "serving TOther h1" using c idle True idle_gate [OF idle] by (simp add: serving_def h1_def idle_def in_use_def work_def split: if_splits)
    obtain k d' h' where r: "rounds k lower (st \<noteq> STATUS_PENDING, d, g) = (True, d', h')" "serving TOther h'"
      "ftl_inv d' (hs_Ctx h')" "brisk (hs_Ctx h')" "\<not> Flushing (hs_Ctx h')" "th_Irp (OtherThread (hs_Ctx h')) = None"
      "contents d' h' = contents d h1" "hs_Done h' = hs_Done h1" "scn_now (hs_Ctx h') = scn_now (hs_Ctx h1)" "SIZE_OF_MAP (hs_Ctx h') = SIZE_OF_MAP (hs_Ctx h1)" "on_record (mark_of d (hs_Ctx h1)) {contents d h1} d' (hs_Ctx h')"
      by (rule flush_without_request [OF s inv _ on_record_start x]) (use c(7) in \<open>simp add: h1_def\<close>)
    obtain h2 where e: "\<And>n. LevelingThreadCompletion (Suc n) lower u um TOther h' = Some h2" "idle d' h2" "same_ftl (hs_Ctx h') (hs_Ctx h2)"
      "hs_Done h2 = hs_Done h'" by (rule serving_ends [OF r(2-6), of lower u um]) (rule that)
    have "timer n lower u um (d, h) = Some (d', h2)" if "k < n" for n
    proof -
      have "n = Suc (n - 1)" using that by simp
      then obtain m where n: "n = Suc m" by blast
      have lc: "LevelingThreadCompletion n lower u um TOther h' = Some h2" unfolding n by (rule e(1))
      show ?thesis
      proof (cases "st = STATUS_PENDING")
        case True
        have "await n n lower u um TOther d g = Some (d', h2)"
          using await_rounds [of k lower d g d' h' n n u um TOther] r True that lc by simp
        moreover have "LevelingFlushDpc n lower u um ?h = Some g"
          using c(1) \<open>CacheDirty (hs_Ctx h)\<close> x True h1 by (simp add: LevelingFlushDpc_def Let_def)
        moreover have "OtherActive (hs_Ctx g) = 1"
          using serving_calm [OF _ s, of g] calm_ExecuteFlush [of h1 lower False] x by (simp add: serving_def)
        ultimately show ?thesis by (simp add: timer_def)
      next
        case False
        then have "d' = d" "h' = g" using r rounds_True by simp_all
        then have "LevelingFlushDpc n lower u um ?h = Some h2"
          using c(1) \<open>CacheDirty (hs_Ctx h)\<close> x False h1 lc by (simp add: LevelingFlushDpc_def Let_def del: LevelingThreadCompletion.simps)
        moreover have "OtherActive (hs_Ctx h2) = 0" using e(2) by (simp add: idle_def)
        ultimately show ?thesis using \<open>d' = d\<close> by (simp add: timer_def)
      qed
    qed
    moreover have "contents d' h2 = contents d h" using contents_same [OF e(3)] r(7) keep by simp
    moreover have "scn_now (hs_Ctx h2) = scn_now (hs_Ctx h)" "SIZE_OF_MAP (hs_Ctx h2) = SIZE_OF_MAP (hs_Ctx h)"
      using same_rank(3) [OF e(3)] e(3) r keep by (simp_all add: same_ftl_def)
    moreover have "on_record (mark_of d (hs_Ctx h)) {contents d h} d' (hs_Ctx h2)"
      using on_record_same [OF r(11) e(3)] unfolding mark_of_same [OF S] keep(1) .
    ultimately show ?thesis using e(2,4) r(8) keep(2) by (intro exI [of _ k] exI [of _ d'] exI [of _ h2]) simp
  qed
qed


section \<open>Sequences of requests\<close>

datatype disk_event = Request irp | TimerFires

text \<open>The device: what happens to it, one event after the other, with the buffers the requests leave.\<close>

fun device :: "nat \<Rightarrow> lower \<Rightarrow> ntstatus \<Rightarrow> (irp \<Rightarrow> mem) \<Rightarrow> disk_event list \<Rightarrow> mem \<times> hs \<Rightarrow> ((mem \<times> hs) \<times> mem list) option" where
  "device n lower u um [] s = Some (s, [])"
| "device n lower u um (Request i # es) s =
     (case serve n lower u um i s of None \<Rightarrow> None
      | Some (d, h, buf) \<Rightarrow> map_option (\<lambda>(s', bufs). (s', buf # bufs)) (device n lower u um es (d, h)))"
| "device n lower u um (TimerFires # es) s =
     (if Timer (hs_Ctx (snd s)) then case timer n lower u um s of None \<Rightarrow> None | Some s' \<Rightarrow> device n lower u um es s'
      else device n lower u um es s)"

text \<open>The disk: the timer is nothing to it.\<close>

fun disk_run :: "(irp \<Rightarrow> mem) \<Rightarrow> nat \<Rightarrow> disk_event list \<Rightarrow> (nat \<Rightarrow> sector) \<Rightarrow> (nat \<Rightarrow> sector) \<times> irp list \<times> mem list" where
  "disk_run um N [] f = (f, [], [])"
| "disk_run um N (Request i # es) f =
     (let (f1, ans, buf) = disk_request um N i f; (f2, as, bufs) = disk_run um N es f1 in (f2, ans # as, buf # bufs))"
| "disk_run um N (TimerFires # es) f = disk_run um N es f"

fun sectors :: "disk_event list \<Rightarrow> nat" where
  "sectors [] = 0"
| "sectors (Request i # es) = cdb_LEN (irp_Srb i) + 1 + sectors es"
| "sectors (TimerFires # es) = sectors es"

text \<open>The contents the disk goes through, sector by sector.\<close>

fun states :: "(irp \<Rightarrow> mem) \<Rightarrow> nat \<Rightarrow> disk_event list \<Rightarrow> (nat \<Rightarrow> sector) \<Rightarrow> (nat \<Rightarrow> sector) set" where
  "states um N [] f = {f}"
| "states um N (Request i # es) f = between um N i f \<union> states um N es (fst (disk_request um N i f))"
| "states um N (TimerFires # es) f = {f} \<union> states um N es f"

definition unmarked :: "irp \<Rightarrow> irp" where
  "unmarked i = i\<lparr>irp_Pending := False\<rparr>"

lemma unmarked_pending [simp]: "unmarked (i\<lparr>irp_Pending := b\<rparr>) = unmarked i"
  by (simp add: unmarked_def)

definition as_disk :: "lower \<Rightarrow> ntstatus \<Rightarrow> (irp \<Rightarrow> mem) \<Rightarrow> disk_event list \<Rightarrow> mem \<Rightarrow> hs \<Rightarrow> nat \<Rightarrow> mem \<Rightarrow> hs \<Rightarrow> bool" where
  "as_disk lower u um es d h N d' h' \<longleftrightarrow>
     idle d' h' \<and> SIZE_OF_MAP (hs_Ctx h') = SIZE_OF_MAP (hs_Ctx h) \<and>
     (\<exists>as as' bufs. (\<forall>n > N. device n lower u um es (d, h) = Some ((d', h'), bufs)) \<and>
        disk_run um (SIZE_OF_MAP (hs_Ctx h)) es (contents d h) = (contents d' h', as, bufs) \<and>
        hs_Done h' = hs_Done h @ as' \<and> map unmarked as' = map unmarked as) \<and>
     scn_now (hs_Ctx h') \<le> scn_now (hs_Ctx h) + sectors es \<and>
     on_record (mark_of d (hs_Ctx h)) (states um (SIZE_OF_MAP (hs_Ctx h)) es (contents d h)) d' (hs_Ctx h')"

lemma as_disk_timer:
  assumes t: "Timer (hs_Ctx h)" "\<forall>n > M. timer n lower u um (d, h) = Some (d1, h1)" "contents d1 h1 = contents d h"
    "hs_Done h1 = hs_Done h" "SIZE_OF_MAP (hs_Ctx h1) = SIZE_OF_MAP (hs_Ctx h)" "scn_now (hs_Ctx h1) = scn_now (hs_Ctx h)"
    "on_record (mark_of d (hs_Ctx h)) {contents d h} d1 (hs_Ctx h1)" and r: "as_disk lower u um es d1 h1 N d' h'"
  shows "as_disk lower u um (TimerFires # es) d h (max M N) d' h'"
proof -
  have "on_record (mark_of d (hs_Ctx h)) (states um (SIZE_OF_MAP (hs_Ctx h)) (TimerFires # es) (contents d h)) d' (hs_Ctx h')"
    unfolding states.simps by (rule on_record_trans [OF t(7)]) (use r t in \<open>simp_all add: as_disk_def\<close>)
  moreover have "scn_now (hs_Ctx h') \<le> scn_now (hs_Ctx h) + sectors (TimerFires # es)" using r t(6) by (simp add: as_disk_def)
  moreover
  obtain as as' bufs where a: "\<forall>n > N. device n lower u um es (d1, h1) = Some ((d', h'), bufs)"
    "disk_run um (SIZE_OF_MAP (hs_Ctx h)) es (contents d h) = (contents d' h', as, bufs)"
    "hs_Done h' = hs_Done h @ as'" "map unmarked as' = map unmarked as" using r t unfolding as_disk_def by auto
  have "\<forall>n > max M N. device n lower u um (TimerFires # es) (d, h) = Some ((d', h'), bufs)" using t a(1) by simp
  moreover have "disk_run um (SIZE_OF_MAP (hs_Ctx h)) (TimerFires # es) (contents d h) = (contents d' h', as, bufs)" using a(2) by simp
  moreover have "idle d' h'" "SIZE_OF_MAP (hs_Ctx h') = SIZE_OF_MAP (hs_Ctx h)" using r t(5) by (simp_all add: as_disk_def)
  ultimately show ?thesis using a(3,4) unfolding as_disk_def by blast
qed

lemma as_disk_request:
  assumes t: "\<forall>n > M. serve n lower u um i (d, h) = Some (d1, h1, buf)" "done_as_disk um i d h d1 h1 buf"
    and r: "as_disk lower u um es d1 h1 N d' h'"
  shows "as_disk lower u um (Request i # es) d h (max M N) d' h'"
proof -
  obtain ans b where q: "disk_request um (SIZE_OF_MAP (hs_Ctx h)) i (contents d h) = (contents d1 h1, ans, buf)"
    "hs_Done h1 = hs_Done h @ [ans\<lparr>irp_Pending := b\<rparr>]" "SIZE_OF_MAP (hs_Ctx h1) = SIZE_OF_MAP (hs_Ctx h)"
    using t(2) unfolding done_as_disk_def by blast
  obtain as as' bufs where a: "\<forall>n > N. device n lower u um es (d1, h1) = Some ((d', h'), bufs)"
    "disk_run um (SIZE_OF_MAP (hs_Ctx h)) es (contents d1 h1) = (contents d' h', as, bufs)"
    "hs_Done h' = hs_Done h1 @ as'" "map unmarked as' = map unmarked as" using r q(3) unfolding as_disk_def by auto
  have "\<forall>n > max M N. device n lower u um (Request i # es) (d, h) = Some ((d', h'), buf # bufs)" using t(1) a(1) by simp
  moreover have "disk_run um (SIZE_OF_MAP (hs_Ctx h)) (Request i # es) (contents d h) = (contents d' h', ans # as, buf # bufs)"
    using q(1) a(2) by simp
  moreover have "hs_Done h' = hs_Done h @ (ans\<lparr>irp_Pending := b\<rparr> # as')" using q(2) a(3) by simp
  moreover have "map unmarked (ans\<lparr>irp_Pending := b\<rparr> # as') = map unmarked (ans # as)" using a(4) by simp
  moreover have "scn_now (hs_Ctx h') \<le> scn_now (hs_Ctx h) + sectors (Request i # es)"
    using r t(2) by (simp add: as_disk_def done_as_disk_def)
  moreover have "on_record (mark_of d (hs_Ctx h)) (states um (SIZE_OF_MAP (hs_Ctx h)) (Request i # es) (contents d h)) d' (hs_Ctx h')"
    unfolding states.simps q(1) fst_conv
    by (rule on_record_trans [of d "hs_Ctx h" _ d1 "hs_Ctx h1"]) (use r t(2) q(3) in \<open>simp_all add: as_disk_def done_as_disk_def\<close>)
  moreover have "idle d' h'" "SIZE_OF_MAP (hs_Ctx h') = SIZE_OF_MAP (hs_Ctx h)" using r q(3) by (simp_all add: as_disk_def)
  ultimately show ?thesis unfolding as_disk_def by blast
qed

lemma device_disk:
  assumes "idle d h" "\<forall>i. Request i \<in> set es \<longrightarrow> rw_irp i" "scn_now (hs_Ctx h) + sectors es < 4294967295"
  shows "\<exists>N d' h'. as_disk lower u um es d h N d' h'"
  using assms
proof (induction es arbitrary: d h)
  case Nil
  then have "as_disk lower u um [] d h 0 d h" by (simp add: as_disk_def on_record_start)
  then show ?case by blast
next
  case (Cons e es)
  show ?case
  proof (cases e)
    case (Request i)
    obtain M d1 h1 buf where s: "\<forall>n > M. serve n lower u um i (d, h) = Some (d1, h1, buf)" "done_as_disk um i d h d1 h1 buf"
      using serve_request [OF Cons.prems(1), of i lower u um] Cons.prems(2,3) Request by auto
    have "idle d1 h1" "scn_now (hs_Ctx h1) + sectors es < 4294967295"
      using s(2) Cons.prems(3) Request by (auto simp: done_as_disk_def)
    then obtain N d' h' where "as_disk lower u um es d1 h1 N d' h'" using Cons.IH Cons.prems(2) by fastforce
    from as_disk_request [OF s this] show ?thesis using Request by blast
  next
    case TimerFires
    show ?thesis
    proof (cases "Timer (hs_Ctx h)")
      case True
      obtain M d1 h1 where s: "\<forall>n > M. timer n lower u um (d, h) = Some (d1, h1)" "idle d1 h1" "contents d1 h1 = contents d h"
        "hs_Done h1 = hs_Done h" "scn_now (hs_Ctx h1) = scn_now (hs_Ctx h)" "SIZE_OF_MAP (hs_Ctx h1) = SIZE_OF_MAP (hs_Ctx h)"
        "on_record (mark_of d (hs_Ctx h)) {contents d h} d1 (hs_Ctx h1)"
        using serve_timer [OF Cons.prems(1) True, of lower u um] by blast
      have "scn_now (hs_Ctx h1) + sectors es < 4294967295" using s(5) Cons.prems(3) TimerFires by simp
      then obtain N d' h' where "as_disk lower u um es d1 h1 N d' h'" using Cons.IH [OF s(2)] Cons.prems(2) by auto
      from as_disk_timer [OF True s(1,3,4,6,5,7) this] show ?thesis using TimerFires by blast
    next
      case False
      obtain N d' h' where "as_disk lower u um es d h N d' h'" using Cons.IH [OF Cons.prems(1)] Cons.prems(2,3) TimerFires by auto
      then have "as_disk lower u um (TimerFires # es) d h N d' h'"
        using False by (auto simp: as_disk_def elim: on_record_mono)
      then show ?thesis using TimerFires by blast
    qed
  qed
qed


section \<open>A device at rest\<close>

lemma kept_idle:
  assumes k: "kept c = kept (new_ctx f n)" and inv: "ftl_inv d c" "brisk c"
  shows "idle d \<lparr>hs_Mode = VLTL_MODE_ACTIVE, hs_Ctx = c, hs_Issued = [], hs_Done = []\<rparr>"
proof -
  have v: "gate_view c = gate_view (new_ctx f n)" "OtherThread c = OtherThread (new_ctx f n)" "Flushing c = Flushing (new_ctx f n)"
    using k by (simp_all add: kept_def)
  have "gate_inv \<lparr>g_Mode = VLTL_MODE_ACTIVE, g_Ctx = c, g_Dpc = False\<rparr>"
    using view_inv [of c "\<lparr>g_Mode = VLTL_MODE_ACTIVE, g_Ctx = new_ctx f n, g_Dpc = False\<rparr>"] v(1) new_ctx_gate_inv by simp
  then show ?thesis
    using inv v(2,3) gate_viewD [OF v(1)] by (simp add: idle_def good_def gate_of_def new_ctx_def zero_ctx_def zero_thread_def)
qed

definition rest_ctx :: ctx where
  "rest_ctx = demo_ctx\<lparr>ReadThread := ReadThread (new_ctx demo_conf 10), OtherThread := zero_thread\<rparr>"

definition rest :: hs where
  "rest = \<lparr>hs_Mode = VLTL_MODE_ACTIVE, hs_Ctx = rest_ctx, hs_Issued = [], hs_Done = []\<rparr>"

lemma rest_idle: "idle blank rest" "scn_now (hs_Ctx rest) = 0" "SIZE_OF_MAP (hs_Ctx rest) = 16"
proof -
  have S: "same_ftl (hs_Ctx demo) rest_ctx" by (simp add: rest_ctx_def demo_def)
  have "kept rest_ctx = kept (new_ctx demo_conf 10)"
    by (simp add: kept_def gate_view_def rest_ctx_def demo_ctx_def new_ctx_def zero_ctx_def)
  then show "idle blank rest" unfolding rest_def
    by (rule kept_idle) (use ftl_inv_same [OF S] same_rank(2) [OF S] demo_inv demo_brisk in simp_all)
  show "scn_now (hs_Ctx rest) = 0" "SIZE_OF_MAP (hs_Ctx rest) = 16"
    using S same_rank(3) [OF S] demo_facts by (simp_all add: rest_def same_ftl_def)
qed

text \<open>One sector is written at 1, the timer fires, and the sector is read.\<close>

definition demo_rw :: "scsiop \<Rightarrow> irp" where
  "demo_rw f = demo_irp\<lparr>irp_Srb := (irp_Srb demo_irp)\<lparr>srb_op := f, srb_Cdb := (\<lambda>_. 0)(5 := 1, 8 := 1),
       srb_DataIn := (f = SCSIOP_READ), srb_DataOut := (f = SCSIOP_WRITE)\<rparr>,
     irp_Mdl := Some \<lparr>mdl_Next = False, mdl_VA = 0, mdl_ByteCount = 512, mdl_SystemVA = Some 0\<rparr>\<rparr>"

definition demo_um :: "irp \<Rightarrow> mem" where
  "demo_um i = (if is_read i then blank else (\<lambda>_ _. 7))"

definition demo_events :: "disk_event list" where
  "demo_events = [Request (demo_rw SCSIOP_WRITE), TimerFires, Request (demo_rw SCSIOP_READ)]"

lemma demo_rw_ok: "f = SCSIOP_READ \<or> f = SCSIOP_WRITE \<Longrightarrow> rw_irp (demo_rw f) \<and> accepted 16 (demo_rw f)"
  by (auto simp: rw_irp_def accepted_def demo_rw_def demo_irp_def cdb_LBA_def cdb_LEN_def be32_def be16_def buffer_ok_def direction_ok_def)

lemma demo_events_ok: "\<forall>i. Request i \<in> set demo_events \<longrightarrow> rw_irp i" "sectors demo_events = 4"
  using demo_rw_ok by (auto simp: demo_events_def) (simp_all add: demo_rw_def cdb_LEN_def be16_def)

lemma demo_rw_fields [simp]:
  "is_read (demo_rw SCSIOP_READ)" "\<not> is_read (demo_rw SCSIOP_WRITE)" "cdb_LBA (irp_Srb (demo_rw f)) = 1" "cdb_LEN (irp_Srb (demo_rw f)) = 1"
  by (simp_all add: is_read_def demo_rw_def cdb_LBA_def cdb_LEN_def be32_def be16_def)

lemma demo_disk: "disk_run demo_um 16 demo_events f = (f', as, bufs) \<Longrightarrow> f' 1 = (\<lambda>_. 7) \<and> (bufs ! 1) 0 = (\<lambda>_. 7)"
  using demo_rw_ok by (auto simp: demo_events_def disk_request_def demo_um_def Let_def)

section \<open>Properties\<close>

text \<open>
  C1. The driver is a disk. Whatever reads and writes arrive at a device at rest, one after the other,
  and whenever the timer fires in between: every request is carried out, through the gate, its
  handler, the transfers and the completion, in finitely many steps; its answer, the buffer it leaves and the
  contents of the device afterwards are those of an array of sectors, refusals included; and the
  device is at rest again. The sectors written must not use up the 32-bit sequence number.
\<close>

theorem device_is_a_disk:
  assumes "idle d h" "\<forall>i. Request i \<in> set es \<longrightarrow> rw_irp i" "scn_now (hs_Ctx h) + sectors es < 4294967295"
  shows "\<exists>N d' h' as as' bufs. (\<forall>n > N. device n lower u um es (d, h) = Some ((d', h'), bufs)) \<and> idle d' h' \<and>
    disk_run um (SIZE_OF_MAP (hs_Ctx h)) es (contents d h) = (contents d' h', as, bufs) \<and>
    hs_Done h' = hs_Done h @ as' \<and> map unmarked as' = map unmarked as"
  using device_disk [OF assms, of lower u um] unfolding as_disk_def by blast

theorem device_is_a_disk_witness:
  "\<exists>n d h bufs. device n obedient STATUS_SUCCESS demo_um demo_events (blank, rest) = Some ((d, h), bufs) \<and> contents d h 1 = (\<lambda>_. 7) \<and> (bufs ! 1) 0 = (\<lambda>_. 7)"
proof -
  obtain N d h as bufs where r: "\<forall>n > N. device n obedient STATUS_SUCCESS demo_um demo_events (blank, rest) = Some ((d, h), bufs)"
    "disk_run demo_um 16 demo_events (contents blank rest) = (contents d h, as, bufs)"
    using device_is_a_disk [OF rest_idle(1) demo_events_ok(1), of obedient STATUS_SUCCESS demo_um] rest_idle demo_events_ok by auto
  then have "device (Suc N) obedient STATUS_SUCCESS demo_um demo_events (blank, rest) = Some ((d, h), bufs)" by simp
  then show ?thesis using demo_disk [OF r(2)] by blast
qed

text \<open>
  C2. From the format to the requests. A device that has been formatted and started is a disk of the size
  asked for that holds a partition table (none on removable media) and zeros.
\<close>

theorem formatted_device_is_a_disk:
  assumes disk: "sync_disk sync medium" and p: "pool_ok p"
    and fmt: "SetLevelingConfig sync b x p (s, m) = Some (True, x', p', s', m')" "unat (mb_Mode b) = mode_num VLTL_MODE_FORMAT"
    and size: "0 < unat (mb_SIZE_OF_MAP b)" "unat (mb_SIZE_OF_MAP b) * 10 \<le> GetMaxChunks x * SIZE_OF_CHUNK" "10 \<le> GetMaxChunks x"
    and st: "stale (cf_CCN (conf_of (medium s' 0))) b (dx_RemovableMedia x) (medium s')"
    and start: "InitializeLevelingCtx (medium s' 0) at_lock y q = (True, y', q')" "GetMaxChunks y = GetMaxChunks x"
    and rec: "medium t = medium s'" "DoRecovery1 sync t y' = (t', z)" "dx_Mode z = VLTL_MODE_ACTIVE"
    and es: "\<forall>i. Request i \<in> set es \<longrightarrow> rw_irp i" "sectors es < 4294967294"
  shows "\<exists>obj c N d' h' as bufs. dx_Ctx z = Some (obj, c) \<and>
    (\<forall>n > N. device n lower u um es (medium t', \<lparr>hs_Mode = dx_Mode z, hs_Ctx = c, hs_Issued = [], hs_Done = []\<rparr>) = Some ((d', h'), bufs)) \<and>
    disk_run um (unat (mb_SIZE_OF_MAP b)) es
      (\<lambda>L. if L < 8 * unat (mb_SIZE_OF_MAP b) then formatted_sector (dx_RemovableMedia x) b L else zero_sector) =
        (contents d' h', as, bufs) \<and>
    map unmarked (hs_Done h') = map unmarked as"
proof -
  obtain obj c f n where c: "dx_Ctx z = Some (obj, c)" "SIZE_OF_MAP c = unat (mb_SIZE_OF_MAP b)" "ftl_inv (medium t') c" "brisk c" "scn_now c = 1"
    "\<forall>L. in_dev c L \<longrightarrow> vread (medium t') c L = formatted_sector (dx_RemovableMedia x) b L" "kept c = kept (new_ctx f n)"
    using format_start [OF disk p fmt size st start rec] by blast
  define h where "h = \<lparr>hs_Mode = VLTL_MODE_ACTIVE, hs_Ctx = c, hs_Issued = [], hs_Done = []\<rparr>"
  have i: "idle (medium t') h" unfolding h_def by (rule kept_idle [OF c(7,3,4)])
  have "scn_now (hs_Ctx h) + sectors es < 4294967295" using c(5) es(2) by (simp add: h_def)
  from device_disk [OF i es(1) this, of lower u um] obtain N d' h' where a: "as_disk lower u um es (medium t') h N d' h'" by blast
  have C: "contents (medium t') h =
      (\<lambda>L. if L < 8 * unat (mb_SIZE_OF_MAP b) then formatted_sector (dx_RemovableMedia x) b L else zero_sector)"
    using c(2,6) by (auto simp: contents_def h_def in_dev_def fun_eq_iff)
  obtain as bufs where "\<forall>n > N. device n lower u um es (medium t', h) = Some ((d', h'), bufs)"
    "disk_run um (unat (mb_SIZE_OF_MAP b)) es (contents (medium t') h) = (contents d' h', as, bufs)" "map unmarked (hs_Done h') = map unmarked as"
    using a c(2) unfolding as_disk_def by (auto simp: h_def)
  then show ?thesis using c(1) unfolding C unfolding rec(3) h_def by blast
qed


theorem formatted_device_is_a_disk_witness:
  "\<exists>x' p' s' m' y' q' t' z obj c n d h bufs.
     SetLevelingConfig ideal_sync (demo_mode 4) (cfg_dx VLTL_MODE_DIRECT None) full_pool (\<lambda>_. zero_sector, \<lambda>_. zero_sector) =
       Some (True, x', p', s', m') \<and>
     InitializeLevelingCtx (s' 0) (\<lambda>x. x) (cfg_dx VLTL_MODE_INITIAL None) full_pool = (True, y', q') \<and>
     DoRecovery1 ideal_sync s' y' = (t', z) \<and> dx_Ctx z = Some (obj, c) \<and>
     device n obedient STATUS_SUCCESS demo_um demo_events (t', \<lparr>hs_Mode = dx_Mode z, hs_Ctx = c, hs_Issued = [], hs_Done = []\<rparr>) = Some ((d, h), bufs) \<and>
     (bufs ! 1) 0 = (\<lambda>_. 7)"
proof (rule demo_device)
  fix x' p' s' m' y' q' t' z
  assume f: "SetLevelingConfig ideal_sync (demo_mode 4) (cfg_dx VLTL_MODE_DIRECT None) full_pool (\<lambda>_. zero_sector, \<lambda>_. zero_sector) =
       Some (True, x', p', s', m')"
    and st: "stale (cf_CCN (conf_of (s' 0))) (demo_mode 4) (dx_RemovableMedia (cfg_dx VLTL_MODE_DIRECT None)) s'"
    and i: "InitializeLevelingCtx (s' 0) (\<lambda>x. x) (cfg_dx VLTL_MODE_INITIAL None) full_pool = (True, y', q')"
    and r: "DoRecovery1 ideal_sync s' y' = (t', z)" "dx_Mode z = VLTL_MODE_ACTIVE"
  have z: "0 < unat (mb_SIZE_OF_MAP (demo_mode 4))"
    "unat (mb_SIZE_OF_MAP (demo_mode 4)) * 10 \<le> GetMaxChunks (cfg_dx VLTL_MODE_DIRECT None) * SIZE_OF_CHUNK"
    "10 \<le> GetMaxChunks (cfg_dx VLTL_MODE_DIRECT None)" "GetMaxChunks (cfg_dx VLTL_MODE_INITIAL None) = GetMaxChunks (cfg_dx VLTL_MODE_DIRECT None)"
    by (simp_all add: demo_params(3) demo_chunks)
  have few: "sectors demo_events < 4294967294" using demo_events_ok(2) by simp
  from formatted_device_is_a_disk [OF idl.sync_disk_axioms demo_params(1) f demo_params(2) z(1-3) st i z(4) refl r demo_events_ok(1) few,
      of obedient STATUS_SUCCESS demo_um, unfolded demo_params(3)]
  obtain obj c N d h as bufs where c: "dx_Ctx z = Some (obj, c)"
    "\<forall>n > N. device n obedient STATUS_SUCCESS demo_um demo_events (t', \<lparr>hs_Mode = dx_Mode z, hs_Ctx = c, hs_Issued = [], hs_Done = []\<rparr>) = Some ((d, h), bufs)"
    "disk_run demo_um 16 demo_events
      (\<lambda>L. if L < 8 * 16 then formatted_sector (dx_RemovableMedia (cfg_dx VLTL_MODE_DIRECT None)) (demo_mode 4) L else zero_sector) = (contents d h, as, bufs)"
    by blast
  have "device (Suc N) obedient STATUS_SUCCESS demo_um demo_events (t', \<lparr>hs_Mode = dx_Mode z, hs_Ctx = c, hs_Issued = [], hs_Done = []\<rparr>) = Some ((d, h), bufs)"
    using c(2) by simp
  then show ?thesis using f i r(1) c(1) demo_disk [OF c(3)] by blast
qed

end
