(* ===== verification/Vcheck.thy ===== *)
theory Vcheck
  imports Recovery
begin

text \<open>
  \<open>driver/vcheck.c\<close>: when the system asks a new device for its capacity the driver looks at the
  first sector, and when there is a configuration block it builds a context. The request from above
  waits meanwhile.
\<close>

definition SRB_SUCCESS :: "srb \<Rightarrow> bool" where
  "SRB_SUCCESS s \<longleftrightarrow> (srb_SrbStatus s = SRB_STATUS_SUCCESS \<or> srb_SrbStatus s = SRB_STATUS_DATA_OVERRUN) \<and>
     srb_ScsiStatus s = SCSISTAT_GOOD"

definition bswap32 :: "u32 \<Rightarrow> u32" where
  "bswap32 w = le_word (get_byte 3 w) (get_byte 2 w) (get_byte 1 w) (get_byte 0 w)"

text \<open>
  The three completion routines. The first gives the request to the disk (\<open>None\<close>:
  \<open>STATUS_CONTINUE_COMPLETION\<close>), the second whether to go on.
\<close>

definition CheckCompletion1 :: "irp \<Rightarrow> dx \<Rightarrow> pool \<Rightarrow> reqobj option \<times> pool" where
  "CheckCompletion1 i x p =
     (if \<not> NT_SUCCESS (irp_Status i) \<or> \<not> SRB_SUCCESS (irp_Srb i) then (None, p)
      else CreateRequest (dx_MaximumTransferLength x) 512 p)"

definition CheckCompletion2 :: "bool \<Rightarrow> mem \<Rightarrow> dx \<Rightarrow> bool \<times> dx" where
  "CheckCompletion2 ok m x =
     (let LastLBA = unat (bswap32 (m 0 0)); BlockLength = unat (bswap32 (m 0 1)) in
      if \<not> ok then (False, x)
      else let x1 = x\<lparr>dx_LastLBA := LastLBA\<rparr> in
        if BlockLength \<noteq> 512 \<or> LastLBA < 0x1bffff
        then (False, ChangeModeAtomic VLTL_MODE_INITIAL VLTL_MODE_DIRECT x1)
        else (True, x1))"

definition check_failed :: "irp \<Rightarrow> irp" where
  "check_failed i = answer_bad STATUS_IO_DEVICE_ERROR i"

definition CheckCompletion3 :: "bool \<Rightarrow> sector \<Rightarrow> (dx \<Rightarrow> dx) \<Rightarrow> irp \<Rightarrow> dx \<Rightarrow> pool \<Rightarrow> irp \<times> dx \<times> pool" where
  "CheckCompletion3 ok MBR at_lock i x p =
     (if \<not> ok then (i, x, p)
      else let (started, x1, p1) = InitializeLevelingCtx MBR at_lock (x\<lparr>dx_LevelingCapable := True\<rparr>) p in
        if \<not> started then (i, ChangeModeAtomic VLTL_MODE_INITIAL VLTL_MODE_DIRECT x1, p1)
        else (check_failed i, x1, p1))"

text \<open>
  The whole check: \<open>cap\<close> is \<open>ScsiCallReadCapacity\<close>, \<open>sync\<close> the read of sector 0 (without retries).
  The result is the request as it is completed.
\<close>

definition LevelingCheck ::
    "('s \<Rightarrow> bool \<times> 's \<times> mem) \<Rightarrow> 's sync \<Rightarrow> (dx \<Rightarrow> dx) \<Rightarrow> irp \<Rightarrow> 's \<Rightarrow> dx \<Rightarrow> pool \<Rightarrow> irp \<times> 's \<times> dx \<times> pool" where
  "LevelingCheck cap sync at_lock i s x p =
     (case CheckCompletion1 i x p of
        (None, p1) \<Rightarrow> (i, s, x, p1)
      | (Some r, p1) \<Rightarrow>
          let (ok, s1, m1) = cap s; (go, x1) = CheckCompletion2 ok m1 x in
          if \<not> go then (i, s1, x1, FreeRequest (Some r) p1)
          else let (ok2, s2, m2) = sync OpRead 0 0 1 (s1, m1);
                   (i', x2, p2) = CheckCompletion3 ok2 (m2 0) at_lock i x1 p1
            in (i', s2, x2, FreeRequest (Some r) p2))"

end
