(* ===== verification/Registry.thy ===== *)
theory Registry
  imports Pool Leveling
begin

text \<open>
  \<open>driver/registry.c\<close>: which devices the driver attaches to. Hardware identifiers are compared
  with patterns from the registry, in which a star stands for any sequence of characters.
\<close>

section \<open>Matching\<close>

text \<open>A character of a string that ends with 0; what lies behind is not looked at.\<close>

definition wch :: "nat list \<Rightarrow> nat \<Rightarrow> nat" where
  "wch s i = (if i < length s then s ! i else 0)"

definition STAR :: nat where "STAR = 42"

text \<open>The loop of \<open>PatternMatch\<close>: \<open>len\<close> is the parameter \<open>Length\<close>.\<close>

function match_loop :: "nat list \<Rightarrow> nat list \<Rightarrow> nat \<Rightarrow> nat \<Rightarrow> nat \<Rightarrow> nat \<Rightarrow> bool" where
  "match_loop Name Pattern len i mark j =
     (if i < len \<and> wch Pattern i = STAR
      then if i + 1 = len \<or> wch Pattern (i + 1) = 0 then True
        else match_loop Name Pattern len (i + 1) (i + 1) j
      else if wch Name j = 0 then i = len \<or> wch Pattern i = 0
      else if i = len \<or> wch Pattern i \<noteq> wch Name j
      then if mark = 0 then False else match_loop Name Pattern len mark mark (j - (i - mark) + 1)
      else match_loop Name Pattern len (i + 1) mark (j + 1))"
  by pat_completeness auto
termination
  by (relation "measures [\<lambda>(n, p, l, i, mark, j). length n - (j - (i - mark)), \<lambda>(n, p, l, i, mark, j). length n - j,
        \<lambda>(n, p, l, i, mark, j). l - i]") (auto simp: wch_def split: if_splits)

declare match_loop.simps [simp del]

definition PatternMatch :: "nat list \<Rightarrow> nat list \<Rightarrow> nat \<Rightarrow> bool" where
  "PatternMatch Name Pattern len = match_loop Name Pattern len 0 0 0"

text \<open>What a pattern means.\<close>

fun glob :: "nat list \<Rightarrow> nat list \<Rightarrow> bool" where
  "glob [] xs = (xs = [])"
| "glob (p # ps) xs =
     (if p = STAR then \<exists>k \<le> length xs. glob ps (drop k xs)
      else (case xs of [] \<Rightarrow> False | x # xs' \<Rightarrow> x = p \<and> glob ps xs'))"

lemma glob_append: "STAR \<notin> set ps \<Longrightarrow> glob (ps @ qs) xs \<longleftrightarrow> length ps \<le> length xs \<and> take (length ps) xs = ps \<and> glob qs (drop (length ps) xs)"
  by (induction ps arbitrary: xs) (auto split: list.splits)

text \<open>
  Where the loop stands: the pattern from \<open>mark\<close> to \<open>i\<close> has no star and is the name from \<open>s\<close> to
  \<open>j\<close>. Before the first star the match has to start at 0, behind one it may start anywhere from \<open>s\<close> on.
\<close>

definition stands :: "nat list \<Rightarrow> nat list \<Rightarrow> nat \<Rightarrow> nat \<Rightarrow> nat \<Rightarrow> bool" where
  "stands N P i mark j \<longleftrightarrow> mark \<le> i \<and> i \<le> length P \<and> i - mark \<le> j \<and> j \<le> length N \<and> (mark = 0 \<longrightarrow> i = j) \<and>
     STAR \<notin> set (take (i - mark) (drop mark P)) \<and>
     take (i - mark) (drop mark P) = take (i - mark) (drop (j - (i - mark)) N)"

definition matches_from :: "nat list \<Rightarrow> nat list \<Rightarrow> nat \<Rightarrow> nat \<Rightarrow> bool" where
  "matches_from N P mark s \<longleftrightarrow>
     (if mark = 0 then glob P N else \<exists>k. s \<le> k \<and> k \<le> length N \<and> glob (drop mark P) (drop k N))"

lemma standsD:
  assumes "stands N P i mark j"
  shows "mark \<le> i" "i \<le> length P" "i - mark \<le> j" "j \<le> length N" "mark = 0 \<longrightarrow> i = j"
    "STAR \<notin> set (take (i - mark) (drop mark P))"
    "take (i - mark) (drop mark P) = take (i - mark) (drop (j - (i - mark)) N)"
  using assms unfolding stands_def by blast+

lemma stands_advance:
  assumes "stands N P i mark j" "i < length P" "j < length N" "P ! i = N ! j" "P ! i \<noteq> STAR"
  shows "stands N P (i + 1) mark (j + 1)"
proof -
  note d = standsD [OF assms(1)]
  have s: "i + 1 - mark = Suc (i - mark)" "j + 1 - Suc (i - mark) = j - (i - mark)" using d(1,3) by simp_all
  have p: "take (Suc (i - mark)) (drop mark P) = take (i - mark) (drop mark P) @ [P ! i]"
    using assms(2) d(1) by (subst take_Suc_conv_app_nth) simp_all
  have q: "take (Suc (i - mark)) (drop (j - (i - mark)) N) = take (i - mark) (drop (j - (i - mark)) N) @ [N ! j]"
    using assms(3) d(3) by (subst take_Suc_conv_app_nth) simp_all
  have "STAR \<notin> set (take (i - mark) (drop mark P) @ [P ! i])" using d(6) assms(5) by simp
  moreover have "take (i - mark) (drop mark P) @ [P ! i] = take (i - mark) (drop (j - (i - mark)) N) @ [N ! j]"
    using d(7) assms(4) by metis
  ultimately show ?thesis
    unfolding stands_def s p q using d(1,3,5) assms(2,3) by simp
qed

text \<open>A match that starts at \<open>k\<close> consumes the segment between \<open>mark\<close> and \<open>i\<close>.\<close>

lemma segment:
  assumes "stands N P i mark j"
  shows "glob (drop mark P) xs \<longleftrightarrow> i - mark \<le> length xs \<and> take (i - mark) xs = take (i - mark) (drop mark P) \<and>
    glob (drop i P) (drop (i - mark) xs)"
proof -
  note d = standsD [OF assms]
  let ?g = "take (i - mark) (drop mark P)"
  have "drop mark P = ?g @ drop i P"
    using append_take_drop_id [of "i - mark" "drop mark P"] d(1) by simp
  moreover have "length ?g = i - mark" using d(1,2) by simp
  ultimately show ?thesis using glob_append [OF d(6), of "drop i P" xs] by metis
qed

lemma segment_here:
  assumes "stands N P i mark j"
  shows "glob (drop mark P) (drop (j - (i - mark)) N) \<longleftrightarrow> glob (drop i P) (drop j N)"
proof -
  note d = standsD [OF assms]
  have "i - mark \<le> length (drop (j - (i - mark)) N)" using d(3,4) by (simp del: diff_diff_left)
  moreover have "drop (i - mark) (drop (j - (i - mark)) N) = drop j N" using d(3) by simp
  ultimately show ?thesis unfolding segment [OF assms] using d(7) by metis
qed

text \<open>What is left to match in the four situations of the loop.\<close>

lemma from_star:
  assumes st: "stands N P i mark j" and star: "i < length P" "P ! i = STAR"
  shows "matches_from N P mark (j - (i - mark)) \<longleftrightarrow> (\<exists>k. j \<le> k \<and> k \<le> length N \<and> glob (drop (i + 1) P) (drop k N))"
proof -
  let ?s = "j - (i - mark)"
  note d = standsD [OF st]
  have dr: "drop i P = STAR # drop (i + 1) P" using star by (metis Cons_nth_drop_Suc Suc_eq_plus1)
  have g: "glob (drop i P) xs \<longleftrightarrow> (\<exists>k \<le> length xs. glob (drop (i + 1) P) (drop k xs))" for xs by (simp add: dr)
  show ?thesis
  proof
    assume "matches_from N P mark ?s"
    then obtain k where k: "?s \<le> k" "k \<le> length N" "glob (drop mark P) (drop k N)"
      using d(5) by (cases "mark = 0") (force simp: matches_from_def)+
    then have "i - mark \<le> length (drop k N)" "glob (drop i P) (drop (i - mark) (drop k N))"
      unfolding segment [OF st] by blast+
    then obtain l where "l \<le> length N - k - (i - mark)" "glob (drop (i + 1) P) (drop l (drop (i - mark) (drop k N)))"
      "i - mark \<le> length N - k"
      unfolding g by (metis length_drop)
    then show "\<exists>k. j \<le> k \<and> k \<le> length N \<and> glob (drop (i + 1) P) (drop k N)"
      using k(1,2) d(3) by (intro exI [of _ "l + (i - mark) + k"]) (simp add: add.commute add.left_commute, arith)
  next
    assume "\<exists>k. j \<le> k \<and> k \<le> length N \<and> glob (drop (i + 1) P) (drop k N)"
    then obtain k where k: "j \<le> k" "k \<le> length N" "glob (drop (i + 1) P) (drop k N)" by blast
    then have "glob (drop i P) (drop j N)" unfolding g by (intro exI [of _ "k - j"]) simp
    then have "glob (drop mark P) (drop ?s N)" using segment_here [OF st] by simp
    then show "matches_from N P mark ?s" using d(4,5) by (cases "mark = 0") (auto simp: matches_from_def)
  qed
qed

lemma from_end:
  assumes st: "stands N P i mark j" and e: "j = length N" and ns: "i < length P \<Longrightarrow> P ! i \<noteq> STAR"
  shows "matches_from N P mark (j - (i - mark)) \<longleftrightarrow> i = length P"
proof -
  let ?s = "j - (i - mark)"
  note d = standsD [OF st]
  have one: "i = length P" if k: "glob (drop mark P) (drop k N)" "?s \<le> k" for k
  proof (rule ccontr)
    assume "i \<noteq> length P"
    then have i: "i < length P" using d(2) by simp
    then have dr: "drop i P = P ! i # drop (i + 1) P" by (metis Cons_nth_drop_Suc Suc_eq_plus1)
    have m: "i - mark \<le> length N - k" "glob (drop i P) (drop (i - mark) (drop k N))"
      using k(1) segment [OF st, of "drop k N"] by auto
    have "drop (i - mark) (drop k N) = []" using k(2) e m(1) by simp
    then show False using m(2) dr ns [OF i] by simp
  qed
  have two: "glob (drop mark P) (drop ?s N)" if "i = length P"
    using segment_here [OF st] that e by simp
  have "?s \<le> length N" using d(4) by simp
  show ?thesis
  proof (cases "mark = 0")
    case True
    then have "?s = 0" "mark = 0" using d(5) by simp_all
    then show ?thesis using one [of 0] two unfolding matches_from_def by auto
  next
    case False
    then show ?thesis using one two \<open>?s \<le> length N\<close> by (simp add: matches_from_def) blast
  qed
qed

lemma from_wrong:
  assumes st: "stands N P i mark j" and w: "j < length N" "i = length P \<or> P ! i \<noteq> N ! j" and ns: "i < length P \<Longrightarrow> P ! i \<noteq> STAR"
  shows "matches_from N P mark (j - (i - mark)) \<longleftrightarrow> mark \<noteq> 0 \<and> matches_from N P mark (j - (i - mark) + 1)"
proof -
  let ?s = "j - (i - mark)"
  note d = standsD [OF st]
  have "\<not> glob (drop i P) (drop j N)"
  proof (cases "i < length P")
    case True
    then have "drop i P = P ! i # drop (i + 1) P" "drop j N = N ! j # drop (j + 1) N"
      using w(1) by (metis Cons_nth_drop_Suc Suc_eq_plus1)+
    then show ?thesis using w(2) ns True by simp
  qed (use w(1) d(2) in simp)
  then have bad: "\<not> glob (drop mark P) (drop ?s N)" using segment_here [OF st] by simp
  have "?s + 1 \<le> k" if "?s \<le> k" "glob (drop mark P) (drop k N)" for k
    using that bad by (cases "k = ?s") auto
  then show ?thesis using bad d(5) unfolding matches_from_def by (auto dest: Suc_leD)
qed

text \<open>\<open>P\<close> is the pattern as far as it counts: up to a terminating 0 or to \<open>len\<close>.\<close>

definition pattern_is :: "nat list \<Rightarrow> nat \<Rightarrow> nat list \<Rightarrow> bool" where
  "pattern_is Pat len P \<longleftrightarrow> length P \<le> len \<and> (\<forall>i < length P. wch Pat i = P ! i \<and> P ! i \<noteq> 0) \<and>
     (length P < len \<longrightarrow> wch Pat (length P) = 0)"

lemma pattern_isD:
  assumes "pattern_is Pat len P" "i \<le> length P"
  shows "i = len \<or> wch Pat i = 0 \<longleftrightarrow> i = length P" "i < len \<and> wch Pat i = STAR \<longleftrightarrow> i < length P \<and> P ! i = STAR"
    "i < length P \<Longrightarrow> wch Pat i = P ! i"
  using assms by (auto simp: pattern_is_def STAR_def le_less)

lemma match_loop_glob:
  "pattern_is Pat len P \<Longrightarrow> 0 \<notin> set N \<Longrightarrow> stands N P i mark j \<Longrightarrow>
   match_loop N Pat len i mark j \<longleftrightarrow> matches_from N P mark (j - (i - mark))"
proof (induction N Pat len i mark j rule: match_loop.induct)
  case (1 N Pat len i mark j)
  let ?s = "j - (i - mark)"
  note st = "1.prems"(3) and d = standsD [OF "1.prems"(3)]
  note p = pattern_isD [OF "1.prems"(1) d(2)]
  have N0: "wch N j = 0 \<longleftrightarrow> j = length N"
    using "1.prems"(2) d(4) by (cases "j < length N") (auto simp: wch_def in_set_conv_nth)
  show ?case
  proof (cases "i < len \<and> wch Pat i = STAR")
    case star: True
    then have i: "i < length P" "P ! i = STAR" using p(2) by auto
    note q = pattern_isD [OF "1.prems"(1), of "i + 1"]
    show ?thesis
    proof (cases "i + 1 = len \<or> wch Pat (i + 1) = 0")
      case True
      then have "i + 1 = length P" using q(1) i by simp
      then have "matches_from N P mark ?s" unfolding from_star [OF st i] using d(4) by (intro exI [of _ "length N"]) simp
      then show ?thesis using True star by (subst match_loop.simps) simp
    next
      case False
      have "stands N P (i + 1) (i + 1) j" using i d(4) by (simp add: stands_def)
      then have "match_loop N Pat len (i + 1) (i + 1) j \<longleftrightarrow> matches_from N P (i + 1) j"
        using "1.IH"(1) [OF star False "1.prems"(1,2)] by simp
      then show ?thesis
        using False star from_star [OF st i] by (subst match_loop.simps) (simp add: matches_from_def)
    qed
  next
    case ns: False
    then have ns': "i < length P \<Longrightarrow> P ! i \<noteq> STAR" using p(2) by auto
    show ?thesis
    proof (cases "wch N j = 0")
      case True
      have "match_loop N Pat len i mark j \<longleftrightarrow> i = len \<or> wch Pat i = 0"
        using ns True by (subst match_loop.simps) (simp only: if_False if_True refl)
      then show ?thesis using p(1) from_end [OF st _ ns'] N0 True by simp
    next
      case name: False
      then have j: "j < length N" "wch N j = N ! j" using N0 d(4) by (auto simp: wch_def)
      show ?thesis
      proof (cases "i = len \<or> wch Pat i \<noteq> wch N j")
        case wrong: True
        have w: "i = length P \<or> P ! i \<noteq> N ! j" using wrong p(1,3) j d(2) by (cases "i < length P") auto
        note f = from_wrong [OF st j(1) w ns']
        show ?thesis
        proof (cases "mark = 0")
          case True
          then have "\<not> match_loop N Pat len i mark j"
            using ns name wrong by (subst match_loop.simps) (simp only: if_False if_True simp_thms)
          then show ?thesis using f True by simp
        next
          case False
          have "stands N P mark mark (?s + 1)" using d(1-4) j False by (simp add: stands_def)
          then have A: "match_loop N Pat len mark mark (?s + 1) \<longleftrightarrow> matches_from N P mark (?s + 1)"
            using "1.IH"(2) [OF ns name wrong False "1.prems"(1,2)] by simp
          have C: "match_loop N Pat len i mark j = match_loop N Pat len mark mark (?s + 1)"
            using ns name wrong False by (subst match_loop.simps) (simp only: if_False if_True)
          from f False have "matches_from N P mark ?s = matches_from N P mark (?s + 1)" by metis
          then show ?thesis unfolding C A by (rule sym)
        qed
      next
        case step: False
        have i: "i < length P" using step p(1) d(2) name by (metis le_neq_implies_less)
        then have "P ! i = N ! j" using step p(3) j by simp
        note i = i this
        have A: "match_loop N Pat len (i + 1) mark (j + 1) \<longleftrightarrow> matches_from N P mark (j + 1 - (i + 1 - mark))"
          by (rule "1.IH"(3) [OF ns name step "1.prems"(1,2) stands_advance [OF st i(1) j(1) i(2) ns'[OF i(1)]]])
        have B: "j + 1 - (i + 1 - mark) = ?s" using d(1,3) by simp
        have C: "match_loop N Pat len i mark j = match_loop N Pat len (i + 1) mark (j + 1)"
          using ns name step by (subst match_loop.simps) (simp only: if_False if_True)
        show ?thesis unfolding C A B by (rule refl)
      qed
    qed
  qed
qed

text \<open>What the pattern is: the characters before the first 0, at most \<open>len\<close> of them.\<close>

definition effective :: "nat list \<Rightarrow> nat \<Rightarrow> nat list" where
  "effective Pat len = takeWhile (\<lambda>c. c \<noteq> 0) (take len Pat)"

lemma pattern_is_effective: "pattern_is Pat len (effective Pat len)"
proof -
  let ?P = "effective Pat len" and ?t = "take len Pat"
  have le: "length ?P \<le> length ?t" unfolding effective_def by (rule length_takeWhile_le)
  have at: "wch Pat i = ?P ! i \<and> ?P ! i \<noteq> 0" if "i < length ?P" for i
    using that le takeWhile_nth [of i "\<lambda>c. c \<noteq> 0" ?t] nth_mem [OF that] set_takeWhileD [of "?P ! i" "\<lambda>c. c \<noteq> 0" ?t]
    by (simp add: effective_def wch_def)
  have stop: "wch Pat (length ?P) = 0" if "length ?P < len"
  proof (cases "length ?P < length ?t")
    case True
    then have "?t ! length ?P = 0" using nth_length_takeWhile [of "\<lambda>c. c \<noteq> 0" ?t] by (simp add: effective_def)
    then show ?thesis using True by (simp add: wch_def)
  next
    case False
    then have "length ?P = length ?t" using le by linarith
    then have "length Pat \<le> length ?P" using that by simp
    then show ?thesis by (simp add: wch_def)
  qed
  show ?thesis using le at stop by (simp add: pattern_is_def)
qed

lemma PatternMatch_glob:
  assumes "0 \<notin> set Name"
  shows "PatternMatch Name Pat len \<longleftrightarrow> glob (effective Pat len) Name"
proof -
  have "stands Name (effective Pat len) 0 0 0" by (simp add: stands_def)
  from match_loop_glob [OF pattern_is_effective assms this] show ?thesis by (simp add: PatternMatch_def matches_from_def)
qed

section \<open>Reading the lists\<close>

text \<open>A value in the registry: its type and its characters; the length is given in bytes.\<close>

datatype reg_type = REG_SZ | REG_DWORD | REG_OTHER nat

text \<open>\<open>DwordQueryRoutine\<close>; \<open>entry\<close> is \<open>*EntryContext\<close>, \<open>None\<close> when there is none.\<close>

definition DwordQueryRoutine :: "reg_type \<Rightarrow> nat \<Rightarrow> nat \<Rightarrow> nat option \<Rightarrow> nat option" where
  "DwordQueryRoutine ty len v entry =
     (if ty \<noteq> REG_DWORD \<or> len \<noteq> 4 \<or> entry = None then entry else Some v)"

text \<open>\<open>HardwareIDs\<close> is a list of strings that an empty string ends.\<close>

fun any_match :: "nat list list \<Rightarrow> nat list \<Rightarrow> nat \<Rightarrow> bool" where
  "any_match [] Pat len = False"
| "any_match (h # hs) Pat len =
     (if h = [] then False else if PatternMatch h Pat len then True else any_match hs Pat len)"

definition CompareQueryRoutine :: "reg_type \<Rightarrow> nat list \<Rightarrow> nat \<Rightarrow> nat list list \<Rightarrow> nat \<Rightarrow> nat" where
  "CompareQueryRoutine ty Pat len ids count =
     (if ty \<noteq> REG_SZ then count else if any_match ids Pat len then wrap32 (count + 1) else count)"

text \<open>
  \<open>RtlQueryRegistryValues\<close> calls the routine once for every string under a value's name; \<open>reg\<close> is
  what the registry holds.
\<close>

datatype list_name =
    HardwareIdAllowAlways | HardwareIdDeny | HardwareIdAllow | HardwareIdTobeRemovable | HardwareIdTobeFixed

type_synonym registry = "list_name \<Rightarrow> (reg_type \<times> nat list) list"

definition query :: "registry \<Rightarrow> list_name \<Rightarrow> nat list list \<Rightarrow> nat" where
  "query reg name ids =
     fold (\<lambda>(ty, Pat) count. CompareQueryRoutine ty Pat (2 * (length Pat + 1)) ids count) (reg name) 0"

section \<open>The decision\<close>

text \<open>
  One answer of \<open>IoGetDeviceProperty\<close>: success with the identifiers, a request for a longer buffer,
  or an error.
\<close>

datatype property_reply = PropertyIs "nat list list" | BufferTooSmall nat | PropertyError

record device_config =
  dc_AllowAlways :: bool
  dc_TobeRemovable :: bool
  dc_TobeFixed :: bool

definition decide :: "registry \<Rightarrow> nat list list \<Rightarrow> device_config option" where
  "decide reg ids =
     (if query reg HardwareIdAllowAlways ids = 0 \<and> (0 < query reg HardwareIdDeny ids \<or> query reg HardwareIdAllow ids = 0)
      then None
      else Some \<lparr>dc_AllowAlways = (query reg HardwareIdAllowAlways ids \<noteq> 0),
                 dc_TobeRemovable = (query reg HardwareIdTobeRemovable ids \<noteq> 0),
                 dc_TobeFixed = (query reg HardwareIdTobeFixed ids \<noteq> 0)\<rparr>)"

text \<open>
  The replies to the successive calls are given as a list; when it ends the property is taken to
  be unreadable.
\<close>

fun CheckDeviceConfig :: "registry \<Rightarrow> property_reply list \<Rightarrow> pool \<Rightarrow> device_config option \<times> pool" where
  "CheckDeviceConfig reg rs p =
     (case alloc PoolMem p of
        (None, p1) \<Rightarrow> (None, p1)
      | (Some b, p1) \<Rightarrow>
          (case rs of
             BufferTooSmall n # rs' \<Rightarrow> CheckDeviceConfig reg rs' (dealloc PoolMem b p1)
           | PropertyIs ids # rs' \<Rightarrow>
               (case alloc PoolMem p1 of
                  (None, p2) \<Rightarrow> (None, dealloc PoolMem b p2)
                | (Some q, p2) \<Rightarrow> (decide reg ids, dealloc PoolMem q (dealloc PoolMem b p2)))
           | _ \<Rightarrow> (None, p1)))"

declare CheckDeviceConfig.simps [simp del]

section \<open>Properties\<close>

lemma effective_all: "0 \<notin> set Pat \<Longrightarrow> length Pat \<le> len \<Longrightarrow> effective Pat len = Pat"
  unfolding effective_def by (simp add: takeWhile_eq_all_conv) (metis gr0I)

lemma any_match_glob:
  "\<forall>h \<in> set ids. h \<noteq> [] \<and> 0 \<notin> set h \<Longrightarrow> any_match ids Pat len \<longleftrightarrow> (\<exists>h \<in> set ids. glob (effective Pat len) h)"
  by (induction ids) (auto simp: PatternMatch_glob)

definition listed :: "registry \<Rightarrow> nat list list \<Rightarrow> list_name \<Rightarrow> bool" where
  "listed reg ids name \<longleftrightarrow> (\<exists>(ty, Pat) \<in> set (reg name). ty = REG_SZ \<and> (\<exists>h \<in> set ids. glob Pat h))"

lemma query_counts:
  assumes ids: "\<forall>h \<in> set ids. h \<noteq> [] \<and> 0 \<notin> set h"
  shows "\<forall>(ty, Pat) \<in> set vs. 0 \<notin> set Pat \<Longrightarrow> count + length vs < 4294967296 \<Longrightarrow>
    fold (\<lambda>(ty, Pat) count. CompareQueryRoutine ty Pat (2 * (length Pat + 1)) ids count) vs count =
    count + length (filter (\<lambda>(ty, Pat). ty = REG_SZ \<and> (\<exists>h \<in> set ids. glob Pat h)) vs)"
proof (induction vs arbitrary: count)
  case (Cons v vs)
  obtain ty Pat where v: "v = (ty, Pat)" by fastforce
  have "CompareQueryRoutine ty Pat (2 * (length Pat + 1)) ids count =
      count + (if ty = REG_SZ \<and> (\<exists>h \<in> set ids. glob Pat h) then 1 else 0)"
    using Cons.prems v any_match_glob [OF ids] by (auto simp: CompareQueryRoutine_def effective_all)
  then show ?case using Cons v by (auto split: if_splits)
qed simp

lemma query_listed:
  assumes "\<forall>h \<in> set ids. h \<noteq> [] \<and> 0 \<notin> set h" "\<forall>(ty, Pat) \<in> set (reg name). 0 \<notin> set Pat"
    "length (reg name) < 4294967296"
  shows "0 < query reg name ids \<longleftrightarrow> listed reg ids name"
  using query_counts [OF assms(1,2), of 0] assms(3)
  by (force simp: query_def listed_def filter_empty_conv)

text \<open>
  C31. \<open>PatternMatch\<close>, which never goes back before the last star it has passed, decides exactly what
  its patterns mean: a star stands for any characters, every other character for itself.
\<close>

theorem pattern_match_is_glob:
  assumes "0 \<notin> set Name"
  shows "PatternMatch Name Pat len \<longleftrightarrow> glob (takeWhile (\<lambda>c. c \<noteq> 0) (take len Pat)) Name"
  using PatternMatch_glob [OF assms] by (simp add: effective_def)

theorem pattern_match_is_glob_witness:
  "PatternMatch [97, 97, 98] [42, 97, 98] 8 \<longleftrightarrow> glob [42, 97, 98] [97, 97, 98]"
  using pattern_match_is_glob [of "[97, 97, 98]" "[42, 97, 98]" 8] by simp

text \<open>
  C34. The driver attaches to a device exactly when one of its identifiers matches a pattern of
  \<open>HardwareIdAllowAlways\<close>, or matches one of \<open>HardwareIdAllow\<close> and none matches \<open>HardwareIdDeny\<close>.
\<close>

theorem device_accepted:
  assumes "\<forall>h \<in> set ids. h \<noteq> [] \<and> 0 \<notin> set h" "\<forall>name. \<forall>(ty, Pat) \<in> set (reg name). 0 \<notin> set Pat"
    "\<forall>name. length (reg name) < 4294967296"
  shows "decide reg ids \<noteq> None \<longleftrightarrow>
    listed reg ids HardwareIdAllowAlways \<or> (listed reg ids HardwareIdAllow \<and> \<not> listed reg ids HardwareIdDeny)"
proof -
  have "0 < query reg name ids \<longleftrightarrow> listed reg ids name" for name
    using query_listed assms by blast
  then show ?thesis unfolding decide_def by (metis gr0I option.distinct(1) not_gr_zero)
qed

definition demo_registry :: registry where
  "demo_registry name =
     (case name of HardwareIdAllow \<Rightarrow> [(REG_SZ, [85, 42])] | HardwareIdDeny \<Rightarrow> [(REG_SZ, [42, 90])] | _ \<Rightarrow> [])"

theorem device_accepted_witness: "decide demo_registry [[85, 83]] \<noteq> None"
proof -
  have "glob [42, 90] [85, 83] = False" "glob [85, 42] [85, 83] = True"
    by (simp_all add: STAR_def le_Suc_eq conj_disj_distribR ex_disj_distrib)
  then have "\<not> listed demo_registry [[85, 83]] HardwareIdDeny" "listed demo_registry [[85, 83]] HardwareIdAllow"
    by (auto simp: listed_def demo_registry_def)
  moreover have "\<forall>name. \<forall>(ty, Pat) \<in> set (demo_registry name). 0 \<notin> set Pat" "\<forall>name. length (demo_registry name) < 4294967296"
    by (auto simp: demo_registry_def split: list_name.splits)
  ultimately show ?thesis using device_accepted [of "[[85, 83]]" demo_registry] by simp
qed

lemma check_memory:
  "pool_ok p \<Longrightarrow> CheckDeviceConfig reg (map BufferTooSmall ns @ PropertyIs ids # rs) p = (r, p') \<Longrightarrow> live_objs p' = live_objs p"
proof (induction ns arbitrary: p)
  case Nil
  show ?case
  proof (cases rule: alloc_cases [OF Nil.prems(1), where k = PoolMem, case_names fail new])
    case (fail p1)
    then show ?thesis using Nil by (simp add: CheckDeviceConfig.simps)
  next
    case b: (new b p1)
    show ?thesis
    proof (cases rule: alloc_cases [OF b(4), where k = PoolMem, case_names fail new])
      case (fail p2)
      then show ?thesis using Nil b by (auto simp: CheckDeviceConfig.simps)
    next
      case (new q p2)
      then show ?thesis using Nil b by (auto simp: CheckDeviceConfig.simps)
    qed
  qed
next
  case (Cons n ns)
  show ?case
  proof (cases rule: alloc_cases [OF Cons.prems(1), where k = PoolMem, case_names fail new])
    case (fail p1)
    then show ?thesis using Cons.prems by (simp add: CheckDeviceConfig.simps)
  next
    case (new b p1)
    then have "CheckDeviceConfig reg (map BufferTooSmall ns @ PropertyIs ids # rs) (dealloc PoolMem b p1) = (r, p')"
      using Cons.prems by (simp add: CheckDeviceConfig.simps)
    from Cons.IH [OF _ this] show ?thesis using new by (auto simp: pl.give_ok)
  qed
qed

text \<open>
  As long as the identifiers of a device can be read, at whatever buffer length, deciding about it
  gives back all memory.
\<close>

theorem config_check_no_leak:
  assumes "pool_ok p" "CheckDeviceConfig reg (map BufferTooSmall ns @ PropertyIs ids # rs) p = (r, p')"
  shows "live_objs p' = live_objs p"
  by (rule check_memory [OF assms])

definition full_pool :: pool where
  "full_pool = \<lparr>p_live = [], p_next = 0, p_fails = (\<lambda>_. False)\<rparr>"

lemma full_pool_ok: "pool_ok full_pool"
  by (simp add: full_pool_def pool_ok_def)

theorem config_check_no_leak_witness:
  "live_objs (snd (CheckDeviceConfig demo_registry [BufferTooSmall 600, PropertyIs [[85, 83]]] full_pool)) = live_objs full_pool"
  using config_check_no_leak [OF full_pool_ok, of demo_registry "[600]" "[[85, 83]]" "[]"]
  by (metis append_Cons append_Nil list.map prod.collapse)

text \<open>
  When they cannot be read the buffer for them is lost.
\<close>

theorem unreadable_property_leaks:
  "live_objs (snd (CheckDeviceConfig demo_registry [PropertyError] full_pool)) \<noteq> live_objs full_pool"
  by (simp add: CheckDeviceConfig.simps full_pool_def alloc_def live_objs_def)

end
