(* ===== verification/Trace.thy ===== *)
theory Trace
  imports Pool
begin

unbundle bit_operations_syntax

text \<open>
  \<open>driver/trace.c\<close>: the trace of the driver, a ring buffer that keeps the newest characters, and the
  formatting of what goes into it.
\<close>

section \<open>The ring buffer\<close>

text \<open>
  \<open>tb_buf\<close> is \<open>trace_buffer\<close> (\<open>NULL\<close> as \<open>None\<close>), \<open>tb_size\<close> its size, \<open>tb_begin\<close> and \<open>tb_end\<close> the two
  positions in it.
\<close>

record ring =
  tb_buf :: "(nat \<Rightarrow> char) option"
  tb_size :: nat
  tb_begin :: nat
  tb_end :: nat

definition print_char :: "char \<Rightarrow> ring \<Rightarrow> ring" where
  "print_char ch r =
     (case tb_buf r of None \<Rightarrow> r
      | Some b \<Rightarrow>
          let e0 = (if tb_size r \<le> tb_end r then 0 else tb_end r);
              e1 = (if tb_size r \<le> e0 + 1 then 0 else e0 + 1);
              b1 = (if e1 = tb_begin r then tb_begin r + 1 else tb_begin r);
              b2 = (if tb_size r \<le> b1 then 0 else b1)
          in r\<lparr>tb_buf := Some (b(e0 := ch)), tb_end := e1, tb_begin := b2\<rparr>)"

text \<open>\<open>trace_read\<close>: the characters it copies; the caller's length is not negative.\<close>

definition trace_read :: "nat \<Rightarrow> ring \<Rightarrow> string \<times> ring" where
  "trace_read len r =
     (case tb_buf r of None \<Rightarrow> ([], r)
      | Some b \<Rightarrow>
          let t0 = (if tb_end r < tb_begin r then tb_size r - tb_begin r else tb_end r - tb_begin r);
              transfer = min t0 len;
              b1 = tb_begin r + transfer
          in (map b [tb_begin r..<tb_begin r + transfer], r\<lparr>tb_begin := (if tb_size r \<le> b1 then 0 else b1)\<rparr>))"

text \<open>\<open>trace_start\<close> without the lines it then traces; \<open>a\<close> is the buffer the allocation gave.\<close>

definition trace_start :: "nat \<Rightarrow> (nat \<Rightarrow> char) option \<Rightarrow> ring \<Rightarrow> ring" where
  "trace_start trace_buffer_size a r =
     (if trace_buffer_size = 0 then r else r\<lparr>tb_buf := a, tb_size := trace_buffer_size\<rparr>)"

definition trace_stop :: "ring \<Rightarrow> ring" where
  "trace_stop r = (case tb_buf r of None \<Rightarrow> r | Some b \<Rightarrow> r\<lparr>tb_buf := None\<rparr>)"

section \<open>Numbers\<close>

text \<open>
  \<open>digit[k]\<close>: \<open>None\<close> is an access outside the table. A loop that fills \<open>tmpbuf\<close> from the lowest
  digit and prints it backwards is the list in print order.
\<close>

definition digits :: string where "digits = ''0123456789abcdef''"

definition digit :: "int \<Rightarrow> char option" where
  "digit k = (if 0 \<le> k \<and> k < 16 then Some (digits ! nat k) else None)"

text \<open>\<open>v & 15\<close> and the arithmetic shift of a signed value.\<close>

fun hex_loop :: "nat \<Rightarrow> int \<Rightarrow> string" where
  "hex_loop 0 v = []"
| "hex_loop (Suc n) v =
     (let ch = digits ! nat (v mod 16); v' = v div 16 in if v' = 0 then [ch] else hex_loop n v' @ [ch])"

definition print_hex :: "int \<Rightarrow> string" where
  "print_hex v = hex_loop 8 v"

text \<open>For a machine with pointers of eight bytes; \<open>p\<close> is unsigned.\<close>

definition print_pointer :: "nat \<Rightarrow> string" where
  "print_pointer p = hex_loop 16 (int p)"

text \<open>C divides towards zero, and \<open>-v\<close> wraps in 32 bits.\<close>

definition c_mod :: "int \<Rightarrow> int \<Rightarrow> int" where
  "c_mod a b = (if 0 \<le> a then a mod b else - ((- a) mod b))"

definition c_div :: "int \<Rightarrow> int \<Rightarrow> int" where
  "c_div a b = (if 0 \<le> a then a div b else - ((- a) div b))"

definition neg32 :: "int \<Rightarrow> int" where
  "neg32 v = (if v = - (2 ^ 31) then v else - v)"

fun dec_loop :: "nat \<Rightarrow> int \<Rightarrow> string option" where
  "dec_loop 0 v = Some []"
| "dec_loop (Suc n) v =
     (case digit (c_mod v 10) of None \<Rightarrow> None
      | Some ch \<Rightarrow>
          let v' = c_div v 10 in
          if v' = 0 then Some [ch] else map_option (\<lambda>s. s @ [ch]) (dec_loop n v'))"

definition print_dec :: "int \<Rightarrow> string option" where
  "print_dec v =
     (if v < 0 then map_option (Cons CHR ''-'') (dec_loop 16 (neg32 v)) else dec_loop 16 v)"

fun print_string :: "string \<Rightarrow> ring \<Rightarrow> ring" where
  "print_string [] r = r"
| "print_string (ch # s) r = print_string s (print_char ch r)"

section \<open>Formatting\<close>

datatype arg = ArgInt int | ArgPointer nat | ArgString string

text \<open>
  What \<open>trace_vprintf\<close> prints for the character behind a percent sign, and the arguments left:
  \<open>None\<close> when it takes an argument that is not there or of another kind, or a digit from outside
  the table.
\<close>

definition convert :: "char \<Rightarrow> arg list \<Rightarrow> (string \<times> arg list) option" where
  "convert d as =
     (if d = CHR ''x'' then (case as of ArgInt v # as' \<Rightarrow> Some (print_hex v, as') | _ \<Rightarrow> None)
      else if d = CHR ''d''
      then (case as of ArgInt v # as' \<Rightarrow> map_option (\<lambda>s. (s, as')) (print_dec v) | _ \<Rightarrow> None)
      else if d = CHR ''p'' then (case as of ArgPointer v # as' \<Rightarrow> Some (print_pointer v, as') | _ \<Rightarrow> None)
      else if d = CHR ''s'' then (case as of ArgString s # as' \<Rightarrow> Some (s, as') | _ \<Rightarrow> None)
      else if d = CHR ''%'' then Some ([d], as)
      else Some ([CHR ''%'', d], as))"

text \<open>\<open>None\<close> also when a percent sign is the last character: the loop then reads on behind the end.\<close>

fun format :: "string \<Rightarrow> arg list \<Rightarrow> string option" where
  "format [] as = Some []"
| "format (ch # fmt) as =
     (if ch \<noteq> CHR ''%'' then map_option (Cons ch) (format fmt as)
      else (case fmt of
              [] \<Rightarrow> None
            | d # fmt' \<Rightarrow>
                (case convert d as of None \<Rightarrow> None
                 | Some (s, as') \<Rightarrow> map_option ((@) s) (format fmt' as'))))"

definition trace_vprintf :: "string \<Rightarrow> arg list \<Rightarrow> ring \<Rightarrow> ring option" where
  "trace_vprintf fmt as r =
     (case tb_buf r of None \<Rightarrow> Some r
      | Some b \<Rightarrow> map_option (\<lambda>s. print_string s r) (format fmt as))"

section \<open>The lines of the trace\<close>

text \<open>
  The format of a line is put together in \<open>newfmt\<close>, whose last two places are kept for the end of
  the line: \<open>bufend - p\<close> is \<open>fmt_room\<close> of what is there.
\<close>

definition NEWFMT :: nat where "NEWFMT = 128"

definition fmt_room :: "string \<Rightarrow> nat" where "fmt_room p = NEWFMT - 2 - length p"

fun copy_string :: "string \<Rightarrow> string \<Rightarrow> string" where
  "copy_string p [] = p"
| "copy_string p (a # s) = (if 0 < fmt_room p then if a = CHR 0x00 then p else copy_string (p @ [a]) s else p)"

function make_prefix :: "string \<Rightarrow> int \<Rightarrow> string" where
  "make_prefix p ind =
     (if 0 < fmt_room p
      then if ind < 0 then p @ ''-''
        else let (ch, ind') = (if 10 < ind then (CHR ''+'', 10) else (CHR '' '', ind)) in
          if ind' = 0 then p @ [ch] else make_prefix (p @ [ch]) (ind' - 1)
      else p)"
  by pat_completeness auto
termination
  by (relation "measure (\<lambda>(p, ind). fmt_room p)") (auto simp: fmt_room_def)

declare make_prefix.simps [simp del]

definition end_line :: "string \<Rightarrow> string" where
  "end_line p = p @ [CHR 0x0A]"

text \<open>\<open>tr_prevname\<close> is the name \<open>prevname\<close> points to: each name has one address.\<close>

record tracer =
  tr_ring :: ring
  tr_lvl :: u32
  tr_lvl_function :: u32
  tr_indent :: int
  tr_prevname :: "string option"

definition printf_format :: "int \<Rightarrow> string \<Rightarrow> string \<Rightarrow> string" where
  "printf_format ind name fmt =
     end_line (copy_string (copy_string (copy_string (make_prefix [] ind) name) '':'') fmt)"

definition put_line :: "string \<Rightarrow> arg list \<Rightarrow> tracer \<Rightarrow> tracer option" where
  "put_line newfmt as t = map_option (\<lambda>r. t\<lparr>tr_ring := r\<rparr>) (trace_vprintf newfmt as (tr_ring t))"

definition trace_printf :: "u32 \<Rightarrow> string \<Rightarrow> string \<Rightarrow> arg list \<Rightarrow> tracer \<Rightarrow> tracer option" where
  "trace_printf lvl name fmt as t =
     (if lvl AND tr_lvl t = 0 then Some t else put_line (printf_format (tr_indent t) name fmt) as t)"

definition enter_format :: "int \<Rightarrow> string \<Rightarrow> string \<Rightarrow> string" where
  "enter_format ind name fmt =
     end_line (copy_string (copy_string (copy_string (copy_string (make_prefix [] ind) name) ''('') fmt) ''){'')"

definition enter_function :: "u32 \<Rightarrow> string \<Rightarrow> string \<Rightarrow> arg list \<Rightarrow> tracer \<Rightarrow> tracer option" where
  "enter_function lvl name fmt as t =
     (let t1 = t\<lparr>tr_indent := tr_indent t + 1\<rparr>; ind = tr_indent t1 - 1 in
      if lvl AND tr_lvl_function t1 = 0 then Some t1
      else put_line (enter_format ind name fmt) as (t1\<lparr>tr_prevname := Some name\<rparr>))"

definition leave_format :: "int \<Rightarrow> string \<Rightarrow> bool \<Rightarrow> string \<Rightarrow> string" where
  "leave_format ind name same fmt =
     (let p = copy_string (make_prefix [] ind) ''} ''; p1 = (if same then p else copy_string p name)
      in end_line (if fmt = [] then p1 else copy_string (copy_string p1 ''='') fmt))"

definition leave_function :: "u32 \<Rightarrow> string \<Rightarrow> string \<Rightarrow> arg list \<Rightarrow> tracer \<Rightarrow> tracer option" where
  "leave_function lvl name fmt as t =
     (let t1 = t\<lparr>tr_indent := tr_indent t - 1\<rparr> in
      if lvl AND tr_lvl_function t1 = 0 then Some t1
      else put_line (leave_format (tr_indent t1) name (tr_prevname t1 = Some name) fmt) as (t1\<lparr>tr_prevname := None\<rparr>))"

section \<open>The ring keeps the newest characters\<close>

text \<open>
  The contract of a bounded log: what is put is appended, what no longer fits is dropped at the old
  end, and what is taken is taken from there.
\<close>

definition keep :: "nat \<Rightarrow> 'a list \<Rightarrow> 'a list" where
  "keep n xs = drop (length xs - n) xs"

lemma keep_keep_app [simp]: "keep n (keep n xs @ ys) = keep n (xs @ ys)"
proof (cases "length xs \<le> n")
  case False
  then have "length xs - n + (length xs + length ys - (n + (length xs - n))) = length xs + length ys - n" by simp
  then show ?thesis using False by (simp add: keep_def add.commute [of "length ys"])
qed (simp add: keep_def)

lemma keep_all [simp]: "length xs \<le> n \<Longrightarrow> keep n xs = xs"
  by (simp add: keep_def)

locale bounded_log =
  fixes put :: "'a \<Rightarrow> 's \<Rightarrow> 's" and get :: "nat \<Rightarrow> 's \<Rightarrow> 'a list \<times> 's" and log :: "'s \<Rightarrow> 'a list"
    and ok :: "'s \<Rightarrow> bool" and cap :: "'s \<Rightarrow> nat"
  assumes put_log: "ok s \<Longrightarrow> log (put x s) = keep (cap s) (log s @ [x])"
    and put_ok: "ok s \<Longrightarrow> ok (put x s)" and put_cap: "ok s \<Longrightarrow> cap (put x s) = cap s"
    and get_log: "ok s \<Longrightarrow> get n s = (xs, t) \<Longrightarrow> log s = xs @ log t \<and> length xs \<le> n \<and> ok t \<and> cap t = cap s"
    and get_some: "ok s \<Longrightarrow> 0 < n \<Longrightarrow> log s \<noteq> [] \<Longrightarrow> fst (get n s) \<noteq> []"
    and small: "ok s \<Longrightarrow> length (log s) \<le> cap s"
begin

lemma puts_log: "ok s \<Longrightarrow> ok (fold put xs s) \<and> cap (fold put xs s) = cap s \<and> log (fold put xs s) = keep (cap s) (log s @ xs)"
proof (induction xs arbitrary: s)
  case (Cons x xs)
  from Cons.IH [OF put_ok [OF Cons.prems]] show ?case
    using put_log [OF Cons.prems] put_cap [OF Cons.prems] by (metis append_Cons append_Nil append_assoc fold_simps(2) keep_keep_app)
qed (simp add: small)

text \<open>Reading again and again, at least a character at a time, gives the whole log.\<close>

fun drain :: "nat \<Rightarrow> nat \<Rightarrow> 's \<Rightarrow> 'a list" where
  "drain 0 n s = []"
| "drain (Suc k) n s = (let (xs, t) = get n s in xs @ drain k n t)"

lemma drain_all: "ok s \<Longrightarrow> 0 < n \<Longrightarrow> length (log s) \<le> k \<Longrightarrow> drain k n s = log s"
proof (induction k arbitrary: s)
  case (Suc k)
  obtain xs t where g: "get n s = (xs, t)" by fastforce
  note l = get_log [OF Suc.prems(1) g]
  have "length (log t) \<le> k"
  proof (cases "log s = []")
    case False
    then have "xs \<noteq> []" using get_some [OF Suc.prems(1,2)] g by simp
    then show ?thesis using l Suc.prems(3) by (cases xs) auto
  qed (use l in simp)
  then show ?case using Suc.IH [of t] l g Suc.prems(2) by simp
qed simp

end

definition ring_ok :: "ring \<Rightarrow> bool" where
  "ring_ok r \<longleftrightarrow> tb_buf r \<noteq> None \<and> tb_begin r < tb_size r \<and> tb_end r < tb_size r"

definition contents :: "ring \<Rightarrow> string" where
  "contents r =
     (case tb_buf r of None \<Rightarrow> []
      | Some b \<Rightarrow> map b (if tb_begin r \<le> tb_end r then [tb_begin r..<tb_end r] else [tb_begin r..<tb_size r] @ [0..<tb_end r]))"

text \<open>The five positions of the two ends.\<close>

lemma drop_full: "length xs = n \<Longrightarrow> 0 < n \<Longrightarrow> keep (n - 1) (xs) = tl xs"
  by (cases xs) (simp_all add: keep_def)

lemma write_end: "e \<notin> {i..<j} \<Longrightarrow> map (b(e := ch)) [i..<j] = map b [i..<j]"
  by auto

lemma print_char_room:
  assumes "a \<le> e" "e + 1 < n"
  shows "contents (print_char ch \<lparr>tb_buf = Some b, tb_size = n, tb_begin = a, tb_end = e\<rparr>) = map b [a..<e] @ [ch]"
    "ring_ok (print_char ch \<lparr>tb_buf = Some b, tb_size = n, tb_begin = a, tb_end = e\<rparr>)"
  using assms by (simp_all add: print_char_def contents_def ring_ok_def)

lemma print_char_turn:
  assumes "0 < a" "a \<le> e" "e + 1 = n"
  shows "contents (print_char ch \<lparr>tb_buf = Some b, tb_size = n, tb_begin = a, tb_end = e\<rparr>) = map b [a..<e] @ [ch]"
    "ring_ok (print_char ch \<lparr>tb_buf = Some b, tb_size = n, tb_begin = a, tb_end = e\<rparr>)"
  using assms by (auto simp: print_char_def contents_def ring_ok_def)

lemma print_char_turn_full:
  assumes "e + 1 = n"
  shows "contents (print_char ch \<lparr>tb_buf = Some b, tb_size = n, tb_begin = 0, tb_end = e\<rparr>) = tl (map b [0..<e] @ [ch])"
    "ring_ok (print_char ch \<lparr>tb_buf = Some b, tb_size = n, tb_begin = 0, tb_end = e\<rparr>)"
proof -
  have t: "map b [0..<e] = b 0 # map b [Suc 0..<e]" if "0 < e" using that by (simp add: upt_conv_Cons)
  show "contents (print_char ch \<lparr>tb_buf = Some b, tb_size = n, tb_begin = 0, tb_end = e\<rparr>) = tl (map b [0..<e] @ [ch])"
    using assms t by (cases "e = 0") (auto simp: print_char_def contents_def)
  show "ring_ok (print_char ch \<lparr>tb_buf = Some b, tb_size = n, tb_begin = 0, tb_end = e\<rparr>)"
    using assms by (auto simp: print_char_def ring_ok_def)
qed

lemma print_char_behind:
  assumes "e + 1 < a" "a < n"
  shows "contents (print_char ch \<lparr>tb_buf = Some b, tb_size = n, tb_begin = a, tb_end = e\<rparr>) = map b ([a..<n] @ [0..<e]) @ [ch]"
    "ring_ok (print_char ch \<lparr>tb_buf = Some b, tb_size = n, tb_begin = a, tb_end = e\<rparr>)"
  using assms by (auto simp: print_char_def contents_def ring_ok_def)

lemma print_char_full:
  assumes "a = e + 1" "a < n"
  shows "contents (print_char ch \<lparr>tb_buf = Some b, tb_size = n, tb_begin = a, tb_end = e\<rparr>) = tl (map b ([a..<n] @ [0..<e]) @ [ch])"
    "ring_ok (print_char ch \<lparr>tb_buf = Some b, tb_size = n, tb_begin = a, tb_end = e\<rparr>)"
proof -
  have t: "[Suc e..<n] = Suc e # [Suc (Suc e)..<n]" using assms by (intro upt_conv_Cons) simp
  have p: "print_char ch \<lparr>tb_buf = Some b, tb_size = n, tb_begin = a, tb_end = e\<rparr> =
      \<lparr>tb_buf = Some (b(e := ch)), tb_size = n, tb_begin = (if n \<le> a + 1 then 0 else a + 1), tb_end = e + 1\<rparr>"
    using assms by (simp add: print_char_def)
  show "contents (print_char ch \<lparr>tb_buf = Some b, tb_size = n, tb_begin = a, tb_end = e\<rparr>) = tl (map b ([a..<n] @ [0..<e]) @ [ch])"
    using assms write_end [of e "Suc a" n b ch] write_end [of e 0 e b ch] unfolding p
    by (cases "n = a + 1") (simp_all add: contents_def t)
  show "ring_ok (print_char ch \<lparr>tb_buf = Some b, tb_size = n, tb_begin = a, tb_end = e\<rparr>)"
    using assms unfolding p by (auto simp: ring_ok_def)
qed

lemma print_char_contents:
  assumes "ring_ok r"
  shows "contents (print_char ch r) = keep (tb_size r - 1) (contents r @ [ch])" "ring_ok (print_char ch r)"
proof -
  obtain b n a e where r: "r = \<lparr>tb_buf = Some b, tb_size = n, tb_begin = a, tb_end = e\<rparr>"
    using assms by (cases r) (auto simp: ring_ok_def)
  have lt: "a < n" "e < n" using assms by (simp_all add: ring_ok_def r)
  have C: "contents r = map b (if a \<le> e then [a..<e] else [a..<n] @ [0..<e])" by (simp add: contents_def r)
  consider "a \<le> e" "e + 1 < n" | "0 < a" "a \<le> e" "e + 1 = n" | "a = 0" "e + 1 = n" | "e + 1 < a" | "a = e + 1"
    using lt by linarith
  then have "contents (print_char ch r) = keep (n - 1) (contents r @ [ch]) \<and> ring_ok (print_char ch r)"
  proof cases
    case 1
    then show ?thesis unfolding C unfolding r by (simp only: print_char_room) simp
  next
    case 2
    then show ?thesis unfolding C unfolding r by (simp only: print_char_turn) simp
  next
    case 3
    then have "keep (n - 1) (map b [0..<e] @ [ch]) = tl (map b [0..<e] @ [ch])" by (intro drop_full) simp_all
    then show ?thesis using 3 unfolding C unfolding r by (simp only: print_char_turn_full) simp
  next
    case 4
    then show ?thesis using lt unfolding C unfolding r by (simp only: print_char_behind) simp
  next
    case 5
    then have "keep (n - 1) (map b ([a..<n] @ [0..<e]) @ [ch]) = tl (map b ([a..<n] @ [0..<e]) @ [ch])"
      using lt by (intro drop_full) simp_all
    then show ?thesis using 5 lt unfolding C unfolding r by (simp only: print_char_full) simp
  qed
  then show "contents (print_char ch r) = keep (tb_size r - 1) (contents r @ [ch])" "ring_ok (print_char ch r)"
    by (simp_all add: r)
qed

lemma print_char_size [simp]: "tb_size (print_char ch r) = tb_size r"
  by (simp add: print_char_def Let_def split: option.split)

lemma contents_short: "ring_ok r \<Longrightarrow> length (contents r) \<le> tb_size r - 1"
  by (auto simp: ring_ok_def contents_def)

lemma upt_split: "i \<le> j \<Longrightarrow> j \<le> k \<Longrightarrow> [i..<k] = [i..<j] @ [j..<k]"
  by (metis upt_add_eq_append le_add_diff_inverse)

lemma trace_read_contents:
  assumes "ring_ok r" "trace_read n r = (xs, t)"
  shows "contents r = xs @ contents t" "length xs \<le> n" "ring_ok t" "tb_size t = tb_size r"
    "0 < n \<Longrightarrow> contents r \<noteq> [] \<Longrightarrow> xs \<noteq> []"
proof -
  obtain b sz a e where r: "r = \<lparr>tb_buf = Some b, tb_size = sz, tb_begin = a, tb_end = e\<rparr>"
    using assms(1) by (cases r) (auto simp: ring_ok_def)
  have lt: "a < sz" "e < sz" using assms(1) by (simp_all add: ring_ok_def r)
  define m where "m = min (if e < a then sz - a else e - a) n"
  have m: "e < a \<Longrightarrow> a + m \<le> sz" "\<not> e < a \<Longrightarrow> a + m \<le> e" using lt by (simp_all add: m_def)
  have "trace_read n r = (map b [a..<a + m], \<lparr>tb_buf = Some b, tb_size = sz, tb_begin = (if sz \<le> a + m then 0 else a + m), tb_end = e\<rparr>)"
    by (simp add: trace_read_def r m_def Let_def) (auto simp: min_def)
  then have x: "xs = map b [a..<a + m]" and t: "t = \<lparr>tb_buf = Some b, tb_size = sz, tb_begin = (if sz \<le> a + m then 0 else a + m), tb_end = e\<rparr>"
    using assms(2) by simp_all
  show "length xs \<le> n" by (simp add: x m_def)
  show "ring_ok t" "tb_size t = tb_size r" using lt by (auto simp: t r ring_ok_def)
  show "contents r = xs @ contents t"
  proof (cases "e < a")
    case True
    have "[a..<sz] = [a..<a + m] @ [a + m..<sz]" using m(1) [OF True] by (intro upt_split) simp_all
    then show ?thesis using True lt m(1) [OF True] by (auto simp: r x t contents_def)
  next
    case False
    have "[a..<e] = [a..<a + m] @ [a + m..<e]" using m(2) [OF False] by (intro upt_split) simp_all
    then show ?thesis using False lt m(2) [OF False] by (simp add: r x t contents_def)
  qed
  show "0 < n \<Longrightarrow> contents r \<noteq> [] \<Longrightarrow> xs \<noteq> []"
    using lt by (auto simp: r x m_def contents_def split: if_splits)
qed

interpretation rg: bounded_log print_char trace_read contents ring_ok "\<lambda>r. tb_size r - 1"
proof (unfold_locales, goal_cases)
  case (5 s n)
  then show ?case using trace_read_contents(5) by (metis prod.collapse)
qed (use contents_short in \<open>auto simp: print_char_contents dest: trace_read_contents\<close>)

lemma print_string_fold: "print_string s r = fold print_char s r"
  by (induction s r rule: print_string.induct) simp_all

section \<open>Numbers can be read back\<close>

definition digit_value :: "char \<Rightarrow> int" where
  "digit_value ch = (if of_char ch \<le> (57 :: int) then of_char ch - 48 else of_char ch - 87)"

definition number :: "int \<Rightarrow> string \<Rightarrow> int" where
  "number base s = foldl (\<lambda>v ch. v * base + digit_value ch) 0 s"

lemma number_snoc [simp]: "number base [] = 0" "number base (s @ [ch]) = number base s * base + digit_value ch"
  by (simp_all add: number_def)

lemma number_single [simp]: "number base [ch] = digit_value ch"
  by (simp add: number_def)

lemma digit_value_digits: "k < 16 \<Longrightarrow> digit_value (digits ! k) = int k"
proof -
  have "\<forall>k \<in> {..<16}. digit_value (digits ! k) = int k" by code_simp
  then show "k < 16 \<Longrightarrow> digit_value (digits ! k) = int k" by simp
qed

lemma hex_loop_number: "number 16 (hex_loop n v) = v mod 16 ^ n"
proof (induction n arbitrary: v)
  case (Suc n)
  have d: "digit_value (digits ! nat (v mod 16)) = v mod 16" by (subst digit_value_digits) auto
  have m: "v mod 16 ^ Suc n = (v div 16) mod 16 ^ n * 16 + v mod 16"
    using zmod_zmult2_eq [of "16 ^ n" v 16] by (simp add: mult.commute)
  have z: "v div 16 = 0 \<Longrightarrow> v mod 16 = v" using mult_div_mod_eq [of 16 v] by simp
  show ?case
    using Suc [of "v div 16"] d m z by (cases "v div 16 = 0") (simp_all add: Let_def)
qed simp

lemma dec_loop_number:
  "0 \<le> v \<Longrightarrow> v < 10 ^ n \<Longrightarrow> 0 < n \<Longrightarrow> \<exists>s. dec_loop n v = Some s \<and> number 10 s = v"
proof (induction n arbitrary: v)
  case (Suc n)
  have d: "digit (c_mod v 10) = Some (digits ! nat (v mod 10))" "digit_value (digits ! nat (v mod 10)) = v mod 10"
    using Suc.prems by (auto simp: digit_def c_mod_def digit_value_digits)
  show ?case
  proof (cases "v div 10 = 0")
    case True
    then show ?thesis using d Suc.prems mult_div_mod_eq [of 10 v] by (simp add: c_div_def Let_def)
  next
    case False
    then have "0 < n" using Suc.prems by (cases n) (auto simp: zdiv_eq_0_iff)
    moreover have "v div 10 < 10 ^ n" using Suc.prems by (simp add: int_div_less_self)
    ultimately obtain s where "dec_loop n (v div 10) = Some s" "number 10 s = v div 10"
      using Suc.IH [of "v div 10"] Suc.prems by (auto simp: pos_imp_zdiv_nonneg_iff)
    then show ?thesis using False d Suc.prems by (simp add: c_div_def Let_def)
  qed
qed simp

section \<open>The length of a line\<close>

lemma copy_string_form: "length p \<le> NEWFMT - 2 \<Longrightarrow> \<exists>n. copy_string p s = p @ take n s \<and> length (copy_string p s) \<le> NEWFMT - 2"
proof (induction p s rule: copy_string.induct)
  case (2 p a s)
  show ?case
  proof (cases "0 < fmt_room p \<and> a \<noteq> CHR 0x00")
    case True
    then have "length (p @ [a]) \<le> NEWFMT - 2" by (simp add: fmt_room_def NEWFMT_def)
    from "2.IH" [OF _ _ this] True
    obtain n where "copy_string (p @ [a]) s = (p @ [a]) @ take n s" "length (copy_string (p @ [a]) s) \<le> NEWFMT - 2"
      by auto
    then show ?thesis using True by (intro exI [of _ "Suc n"]) simp
  next
    case False
    then show ?thesis using 2 by (intro exI [of _ 0]) auto
  qed
qed simp

lemma make_prefix_form:
  "length p \<le> NEWFMT - 2 \<Longrightarrow> \<exists>q. make_prefix p ind = p @ q \<and> CHR ''%'' \<notin> set q \<and> length (make_prefix p ind) \<le> NEWFMT - 2"
proof (induction p ind rule: make_prefix.induct)
  case (1 p ind)
  show ?case
  proof (cases "0 < fmt_room p")
    case False
    then show ?thesis using 1 by (subst make_prefix.simps) (auto intro!: exI [of _ "[]"] simp: make_prefix.simps [of p ind])
  next
    case True
    let ?ch = "if 10 < ind then CHR ''+'' else CHR '' ''" and ?i = "if 10 < ind then 10 else ind"
    have l: "length (p @ [?ch]) \<le> NEWFMT - 2" using True by (simp add: fmt_room_def NEWFMT_def)
    have pair: "(?ch, ?i) = (if 10 < ind then (CHR ''+'', 10) else (CHR '' '', ind))" by simp
    consider "ind < 0" | "ind = 0" | "0 < ind" by linarith
    then show ?thesis
    proof cases
      case 3
      have "?i \<noteq> 0" using 3 by simp
      then have e: "make_prefix p ind = make_prefix (p @ [?ch]) (?i - 1)"
        using True 3 by (subst make_prefix.simps) (simp add: Let_def)
      obtain q where "make_prefix (p @ [?ch]) (?i - 1) = (p @ [?ch]) @ q" "CHR ''%'' \<notin> set q"
        "length (make_prefix (p @ [?ch]) (?i - 1)) \<le> NEWFMT - 2"
        using "1.IH" [OF True _ pair refl \<open>?i \<noteq> 0\<close> l] 3 by auto
      then show ?thesis unfolding e by (intro exI [of _ "?ch # q"]) auto
    next
      case 1
      then show ?thesis using True l by (intro exI [of _ "''-''"]) (simp add: make_prefix.simps [of p ind])
    next
      case 2
      then show ?thesis using True l by (intro exI [of _ "'' ''"]) (simp add: make_prefix.simps [of p 0])
    qed
  qed
qed

text \<open>A format that is cut short and closed with a line feed asks for no more than the whole one.\<close>

lemma format_cut: "format fmt as \<noteq> None \<Longrightarrow> format (take n fmt @ [CHR 0x0A]) as \<noteq> None"
proof (induction fmt as arbitrary: n rule: format.induct)
  case (1 as)
  then show ?case by simp
next
  case (2 ch fmt as)
  show ?case
  proof (cases n)
    case 0
    then show ?thesis by simp
  next
    case n: (Suc m)
    show ?thesis
    proof (cases "ch = CHR ''%''")
      case False
      then show ?thesis using "2.IH"(1) "2.prems" n by simp
    next
      case True
      then obtain d fmt' s as' where f: "fmt = d # fmt'" "convert d as = Some (s, as')" "format fmt' as' \<noteq> None"
        using "2.prems" by (cases fmt) (auto split: option.splits)
      show ?thesis
      proof (cases m)
        case 0
        then show ?thesis using True f n by (simp add: convert_def)
      next
        case (Suc k)
        have "format (take k fmt' @ [CHR 0x0A]) as' \<noteq> None"
          by (rule "2.IH"(2) [of d fmt' "(s, as')" s as']) (use True f in simp_all)
        then show ?thesis using True f n Suc by simp
      qed
    qed
  qed
qed

lemma format_plain: "CHR ''%'' \<notin> set p \<Longrightarrow> format (p @ fmt) as = map_option ((@) p) (format fmt as)"
  by (induction p; cases "format fmt as") auto

section \<open>Properties\<close>

text \<open>
  C30. The ring buffer is a log of bounded length: tracing a line appends its text and drops what no
  longer fits at the old end, and reading takes characters from the old end, in order and each once.
\<close>

theorem trace_keeps_newest:
  assumes "ring_ok r" "format fmt as = Some s" "trace_vprintf fmt as r = Some r'"
  shows "contents r' = drop (length (contents r @ s) - (tb_size r - 1)) (contents r @ s) \<and> ring_ok r' \<and>
    (\<forall>n xs t. trace_read n r' = (xs, t) \<longrightarrow> contents r' = xs @ contents t \<and> length xs \<le> n \<and> ring_ok t)"
proof -
  have "r' = fold print_char s r"
    using assms by (auto simp: trace_vprintf_def print_string_fold ring_ok_def)
  then have "contents r' = keep (tb_size r - 1) (contents r @ s)" "ring_ok r'"
    using rg.puts_log [OF assms(1), of s] by simp_all
  then show ?thesis using rg.get_log [of r'] unfolding keep_def by blast
qed

definition demo_ring :: ring where
  "demo_ring = \<lparr>tb_buf = Some (\<lambda>_. CHR 0x00), tb_size = 5, tb_begin = 0, tb_end = 0\<rparr>"

theorem trace_keeps_newest_witness:
  "map_option contents (trace_vprintf ''a%x%%\<newline>'' [ArgInt 171] demo_ring) = Some ''ab%\<newline>''"
proof -
  have f: "format ''a%x%%\<newline>'' [ArgInt 171] = Some ''aab%\<newline>''" by code_simp
  have ok: "ring_ok demo_ring" by (simp add: ring_ok_def demo_ring_def)
  obtain r' where t: "trace_vprintf ''a%x%%\<newline>'' [ArgInt 171] demo_ring = Some r'"
    using f by (simp add: trace_vprintf_def demo_ring_def del: format.simps)
  have "contents r' = ''ab%\<newline>''"
    using trace_keeps_newest [OF ok f t] by (simp add: contents_def demo_ring_def)
  then show ?thesis using t by simp
qed

text \<open>
  The numbers in the trace can be read back: hexadecimal ones modulo \<open>2 ^ 32\<close>, since the sign is not
  printed, decimal ones exactly.
\<close>

theorem numbers_read_back:
  assumes "- (2 ^ 31) < v" "v < 2 ^ 31"
  shows "number 16 (print_hex v) = v mod 2 ^ 32 \<and>
    (\<exists>s. print_dec v = Some ((if v < 0 then ''-'' else []) @ s) \<and> number 10 s = \<bar>v\<bar>)"
proof -
  have "(16 :: int) ^ 8 = 2 ^ 32" by simp
  then have "number 16 (print_hex v) = v mod 2 ^ 32" unfolding print_hex_def hex_loop_number by simp
  moreover obtain s where "dec_loop 16 \<bar>v\<bar> = Some s" "number 10 s = \<bar>v\<bar>"
  proof -
    have "\<bar>v\<bar> < 10 ^ 16" using assms by simp
    then show ?thesis using dec_loop_number [of "\<bar>v\<bar>" 16] that by auto
  qed
  ultimately show ?thesis using assms by (auto simp: print_dec_def neg32_def)
qed

theorem numbers_read_back_witness: "number 16 (print_hex (- 2)) = 4294967294"
  using numbers_read_back [of "- 2"] by simp

text \<open>
  The smallest number has no negation in 32 bits: its last digit is looked up outside the table.
\<close>

theorem smallest_number_fails: "print_dec (- (2 ^ 31)) = None"
  by code_simp

text \<open>
  C33. A line of the trace never leaves its buffer: the format put together has at most 127 characters
  besides the terminating 0, and however it is cut short, printing it takes no argument that is not
  there and never reads behind the end, as long as the whole format does not.
\<close>

theorem trace_line_fits:
  assumes "CHR ''%'' \<notin> set name" "format fmt as \<noteq> None"
  shows "length (printf_format ind name fmt) \<le> NEWFMT - 1 \<and> format (printf_format ind name fmt) as \<noteq> None"
proof -
  obtain q where q: "make_prefix [] ind = q" "CHR ''%'' \<notin> set q" "length q \<le> NEWFMT - 2"
    using make_prefix_form [of "[]" ind] by auto
  obtain i where i: "copy_string q name = q @ take i name" "length (copy_string q name) \<le> NEWFMT - 2"
    using copy_string_form [OF q(3)] by blast
  obtain j where j: "copy_string (copy_string q name) '':'' = copy_string q name @ take j '':''"
    "length (copy_string (copy_string q name) '':'') \<le> NEWFMT - 2"
    using copy_string_form [OF i(2)] by blast
  let ?p = "copy_string (copy_string q name) '':''"
  obtain k where k: "copy_string ?p fmt = ?p @ take k fmt" "length (copy_string ?p fmt) \<le> NEWFMT - 2"
    using copy_string_form [OF j(2)] by blast
  have "set (take j '':'') \<subseteq> {CHR '':''}" using set_take_subset [of j "'':''"] by simp
  then have "CHR ''%'' \<notin> set ?p" using q(2) assms(1) i(1) j(1) by (auto dest: in_set_takeD)
  moreover have "printf_format ind name fmt = ?p @ take k fmt @ [CHR 0x0A]"
    unfolding printf_format_def end_line_def q(1) k(1) by simp
  ultimately have "format (printf_format ind name fmt) as \<noteq> None"
    using format_plain format_cut [OF assms(2), of k] by simp
  then show ?thesis using k(2) by (simp add: printf_format_def end_line_def q(1) NEWFMT_def)
qed

theorem trace_line_fits_witness:
  "length (printf_format 3 ''LevelingDispatch'' ''Irp=%p'') \<le> NEWFMT - 1"
proof -
  have "format ''Irp=%p'' [ArgPointer 7] \<noteq> None" by code_simp
  then show ?thesis using trace_line_fits [of "''LevelingDispatch''" "''Irp=%p''" "[ArgPointer 7]" 3] by simp
qed

end
