(* ===== verification/Vltl.thy ===== *)
theory Vltl
  imports Vcheck Registry Trace
begin

text \<open>
  \<open>driver/vltl.c\<close> and \<open>driver/control.c\<close>: the entry points of the driver. The state is that of one
  device with the allocator, the requests completed and the transfers issued.
\<close>

record sd =
  sd_dx :: dx
  sd_pool :: pool
  sd_Done :: "irp list"
  sd_Issued :: "rwreq list"
  sd_PowerPagable :: bool
  sd_Deleted :: bool

definition done_irp :: "irp \<Rightarrow> sd \<Rightarrow> sd" where
  "done_irp i s = s\<lparr>sd_Done := sd_Done s @ [i]\<rparr>"

text \<open>\<open>IoSkipCurrentIrpStackLocation\<close> and \<open>IoCallDriver\<close>.\<close>

definition pass_down :: "lower \<Rightarrow> irp \<Rightarrow> sd \<Rightarrow> ntstatus \<times> sd" where
  "pass_down lower i s =
     (let (st, i') = lower i in (st, if st = STATUS_PENDING then s else done_irp i' s))"

definition refuse :: "ntstatus \<Rightarrow> irp \<Rightarrow> sd \<Rightarrow> ntstatus \<times> sd" where
  "refuse st i s = (st, done_irp (i\<lparr>irp_Status := st\<rparr>) s)"

text \<open>\<open>LevelingDispatch\<close> on the device; \<open>None\<close> when \<open>fuel\<close> does not last.\<close>

definition gate_dispatch :: "nat \<Rightarrow> lower \<Rightarrow> ntstatus \<Rightarrow> (irp \<Rightarrow> mem) \<Rightarrow> bool \<Rightarrow> irp \<Rightarrow> sd \<Rightarrow> (ntstatus \<times> sd) option" where
  "gate_dispatch fuel lower u um IsRead i s =
     (let x = sd_dx s in
      case dx_Ctx x of
        None \<Rightarrow> map_option (\<lambda>(st, h). (st, s\<lparr>sd_Done := sd_Done s @ hs_Done h\<rparr>))
                  (LevelingDispatch fuel lower u um False i IsRead (hs_of x zero_ctx))
      | Some (obj, c) \<Rightarrow>
          map_option
            (\<lambda>(st, h). (st, s\<lparr>sd_dx := x\<lparr>dx_Mode := hs_Mode h, dx_Ctx := Some (obj, hs_Ctx h)\<rparr>,
                               sd_Done := sd_Done s @ hs_Done h, sd_Issued := sd_Issued s @ hs_Issued h\<rparr>))
            (LevelingDispatch fuel lower u um True i IsRead (hs_of x c)))"

section \<open>The control device\<close>

text \<open>
  \<open>ControlDispatch\<close> for a request of \<open>len\<close> bytes with \<open>data\<close> in its buffer: what is written to the
  caller's buffer is the second component. \<open>trace_control\<close> reads two words.
\<close>

record control_state =
  cs_tracer :: tracer
  cs_deleted :: bool

definition trace_control :: "u32 list \<Rightarrow> nat \<Rightarrow> control_state \<Rightarrow> control_state" where
  "trace_control dst len cs =
     (if len = 8
      then if dst ! 0 = 0 then cs\<lparr>cs_tracer := (cs_tracer cs)\<lparr>tr_lvl := dst ! 1\<rparr>\<rparr>
        else if dst ! 0 = 1 then cs\<lparr>cs_tracer := (cs_tracer cs)\<lparr>tr_lvl_function := dst ! 1\<rparr>\<rparr>
        else if dst ! 0 = 2 then cs\<lparr>cs_deleted := True\<rparr>
        else cs
      else cs)"

definition ControlDispatch :: "bool \<Rightarrow> irp \<Rightarrow> nat \<Rightarrow> u32 list \<Rightarrow> control_state \<Rightarrow> irp \<times> string \<times> control_state" where
  "ControlDispatch another i len data cs =
     (let done = (\<lambda>i. i\<lparr>irp_Status := STATUS_SUCCESS\<rparr>) in
      if another then (done i, [], cs)
      else if irp_Major i = IRP_MJ_READ
      then let (xs, r) = trace_read len (tr_ring (cs_tracer cs)) in
        (done (i\<lparr>irp_Information := length xs\<rparr>), xs, cs\<lparr>cs_tracer := (cs_tracer cs)\<lparr>tr_ring := r\<rparr>\<rparr>)
      else if irp_Major i = IRP_MJ_WRITE then (done i, [], trace_control data len cs)
      else (done i, [], cs))"

section \<open>Requests that are only passed on\<close>

text \<open>
  The routines below are for the device itself: for a control device each of them is
  \<open>ControlDispatch\<close>.
\<close>

definition VltlDispatchPassThrough :: "lower \<Rightarrow> irp \<Rightarrow> sd \<Rightarrow> ntstatus \<times> sd" where
  "VltlDispatchPassThrough lower i s = pass_down lower i s"

definition VltlDispatchDefault :: "lower \<Rightarrow> irp \<Rightarrow> sd \<Rightarrow> ntstatus \<times> sd" where
  "VltlDispatchDefault lower i s =
     (if VLTL_MODE_ACTIVE \<le> dx_Mode (sd_dx s) then refuse STATUS_NOT_SUPPORTED i s else pass_down lower i s)"

text \<open>Shutdown: \<open>another\<close> is the device that stands in for \<open>original\<close> in the shutdown list.\<close>

datatype device = Itself | Control | Another

definition VltlDispatchShutdown ::
    "nat \<Rightarrow> lower \<Rightarrow> ntstatus \<Rightarrow> (irp \<Rightarrow> mem) \<Rightarrow> device \<Rightarrow> irp \<Rightarrow> sd \<Rightarrow> (ntstatus \<times> sd) option" where
  "VltlDispatchShutdown fuel lower u um dev i s =
     (case dev of
        Itself \<Rightarrow> Some (VltlDispatchPassThrough lower i s)
      | Another \<Rightarrow> gate_dispatch fuel lower u um False i s
      | Control \<Rightarrow> Some (refuse STATUS_SUCCESS i s))"

text \<open>
  \<open>VltlDispatchPower\<close>: the first component says whether \<open>PoSetPowerState\<close> is called, for a request
  that sets the power state of the device. 2 is \<open>IRP_MN_SET_POWER\<close>.
\<close>

definition VltlDispatchPower :: "lower \<Rightarrow> bool \<Rightarrow> irp \<Rightarrow> sd \<Rightarrow> bool \<times> ntstatus \<times> sd" where
  "VltlDispatchPower lower DevicePowerState i s =
     (irp_Minor i = IRP_MN_OTHER 2 \<and> DevicePowerState, pass_down lower i s)"

section \<open>Plug and play\<close>

text \<open>
  \<open>es\<close> is what the rest of the system does while \<open>FreeLevelingCtx\<close> waits, \<open>pagable\<close> the flag of
  the attached device. The completion routine gets \<open>lower_pagable\<close>, the flag of the device below.
\<close>

definition remove_device :: "(dx \<Rightarrow> dx) list \<Rightarrow> lower \<Rightarrow> irp \<Rightarrow> sd \<Rightarrow> (ntstatus \<times> sd) option" where
  "remove_device es lower i s =
     (let (st, s1) = pass_down lower i s in
      map_option (\<lambda>(x, p). (st, s1\<lparr>sd_dx := x, sd_pool := p, sd_Deleted := True\<rparr>))
        (FreeLevelingCtx es True (sd_dx s1) (sd_pool s1)))"

definition VltlDispatchPnpCompletion :: "bool \<Rightarrow> irp \<Rightarrow> sd \<Rightarrow> sd" where
  "VltlDispatchPnpCompletion lower_pagable i s =
     (if irp_Minor i = IRP_MN_DEVICE_USAGE_NOTIFICATION \<and> \<not> lower_pagable
      then s\<lparr>sd_PowerPagable := False\<rparr> else s)"

definition VltlDispatchPnp ::
    "nat \<Rightarrow> (dx \<Rightarrow> dx) list \<Rightarrow> lower \<Rightarrow> ntstatus \<Rightarrow> (irp \<Rightarrow> mem) \<Rightarrow> bool \<Rightarrow> bool \<Rightarrow> irp \<Rightarrow> sd \<Rightarrow> (ntstatus \<times> sd) option" where
  "VltlDispatchPnp fuel es lower u um pagable lower_pagable i s =
     (if dx_Mode (sd_dx s) = VLTL_MODE_ACTIVE \<and> irp_Minor i = IRP_MN_QUERY_REMOVE_DEVICE
      then gate_dispatch fuel lower u um False i s
      else if irp_Minor i = IRP_MN_REMOVE_DEVICE then remove_device es lower i s
      else let s1 = (if irp_Minor i = IRP_MN_DEVICE_USAGE_NOTIFICATION \<and> pagable
                     then s\<lparr>sd_PowerPagable := True\<rparr> else s);
               (st, i') = lower i in
        Some (st, if st = STATUS_PENDING then s1
                  else done_irp i' (VltlDispatchPnpCompletion lower_pagable i' s1)))"

section \<open>Device control\<close>

datatype ioctl =
    IOCTL_SCSI_PASS_THROUGH | IOCTL_STORAGE_QUERY_PROPERTY | IOCTL_STORAGE_MANAGE_DATA_SET_ATTRIBUTES | IOCTL_OTHER nat

datatype property = StorageDeviceProperty | StorageAdapterProperty | PropertyOther nat

text \<open>
  A storage property query and the answer of the driver below: \<open>sq_Size\<close> is \<open>Property->Size\<close>, the
  lengths are of the structures of the interface.
\<close>

record storage_query =
  sq_Standard :: bool
  sq_Property :: property
  sq_Size :: nat
  sq_RemovableMedia :: bool
  sq_MaximumTransferLength :: nat

record storage_sizes =
  ss_query :: nat
  ss_header :: nat
  ss_device :: nat
  ss_adapter :: nat

definition HookStorageProperty :: "storage_sizes \<Rightarrow> ntstatus \<Rightarrow> nat \<Rightarrow> nat \<Rightarrow> storage_query \<Rightarrow> dx \<Rightarrow> storage_query \<times> dx" where
  "HookStorageProperty z status InputBufferLength len q x =
     (if \<not> NT_SUCCESS status \<or> InputBufferLength < ss_query z \<or> \<not> sq_Standard q \<or> len < ss_header z \<or> len < sq_Size q
      then (q, x)
      else (case sq_Property q of
              StorageDeviceProperty \<Rightarrow>
                if len < ss_device z then (q, x)
                else let q1 = (if dx_TobeRemovable x then q\<lparr>sq_RemovableMedia := True\<rparr> else q);
                         q2 = (if dx_TobeFixed x then q1\<lparr>sq_RemovableMedia := False\<rparr> else q1)
                  in (q2, x\<lparr>dx_RemovableMedia := sq_RemovableMedia q2\<rparr>)
            | StorageAdapterProperty \<Rightarrow>
                if len < ss_adapter z then (q, x)
                else (q, x\<lparr>dx_MaximumTransferLength := sq_MaximumTransferLength q\<rparr>)
            | PropertyOther n \<Rightarrow> (q, x)))"

text \<open>
  A device control request: \<open>ic_Spt\<close> is its buffer read as \<open>SCSI_PASS_THROUGH\<close>, \<open>ic_answer\<close> the
  property the driver below puts there.
\<close>

record ioctl_irp =
  ic_Code :: ioctl
  ic_InputBufferLength :: nat
  ic_OutputBufferLength :: nat
  ic_Spt :: spt
  ic_Query :: storage_query

definition VltlDispatchIoControlCompletion ::
    "storage_sizes \<Rightarrow> nat option \<Rightarrow> ioctl_irp \<Rightarrow> irp \<Rightarrow> sd \<Rightarrow> storage_query \<times> sd" where
  "VltlDispatchIoControlCompletion z Context ic i s =
     (let (q, x) = (if ic_Code ic = IOCTL_STORAGE_QUERY_PROPERTY \<and> Context \<noteq> None
                    then HookStorageProperty z (irp_Status i) (ic_InputBufferLength ic) (irp_Information i) (ic_Query ic) (sd_dx s)
                    else (ic_Query ic, sd_dx s))
      in (q, s\<lparr>sd_dx := x, sd_pool := dealloc_opt PoolMem Context (sd_pool s)\<rparr>))"

definition pass_ioctl :: "storage_sizes \<Rightarrow> lower \<Rightarrow> ioctl_irp \<Rightarrow> irp \<Rightarrow> sd \<Rightarrow> ntstatus \<times> sd" where
  "pass_ioctl z lower ic i s =
     (let (Context, p) = (if ic_Code ic = IOCTL_STORAGE_QUERY_PROPERTY then alloc PoolMem (sd_pool s) else (None, sd_pool s));
          s1 = s\<lparr>sd_pool := p\<rparr>; (st, i') = lower i in
      (st, if st = STATUS_PENDING then s1
           else done_irp i' (snd (VltlDispatchIoControlCompletion z Context ic i' s1))))"

text \<open>
  \<open>t\<close> and \<open>m\<close> are the device below and the contents of a fresh buffer, for \<open>LevelingControl\<close>.
\<close>

definition is_inquiry :: "nat \<Rightarrow> ioctl_irp \<Rightarrow> bool" where
  "is_inquiry hdr ic \<longleftrightarrow> ic_Code ic = IOCTL_SCSI_PASS_THROUGH \<and> hdr \<le> ic_InputBufferLength ic \<and> sp_op (ic_Spt ic) = SCSIOP_INQUIRY"

definition is_control :: "nat \<Rightarrow> ioctl_irp \<Rightarrow> dx \<Rightarrow> bool" where
  "is_control hdr ic x \<longleftrightarrow> ic_Code ic = IOCTL_SCSI_PASS_THROUGH \<and> hdr \<le> ic_InputBufferLength ic \<and>
     (sp_op (ic_Spt ic) = SCSIOP_MODE_SENSE \<or> sp_op (ic_Spt ic) = SCSIOP_MODE_SELECT) \<and> dx_LevelingCapable x"

definition ioctl_rest :: "storage_sizes \<Rightarrow> lower \<Rightarrow> ioctl_irp \<Rightarrow> irp \<Rightarrow> sd \<Rightarrow> ntstatus \<times> sd" where
  "ioctl_rest z lower ic i s =
     (if VLTL_MODE_ACTIVE \<le> dx_Mode (sd_dx s) \<and> ic_Code ic \<noteq> IOCTL_STORAGE_QUERY_PROPERTY
      then refuse STATUS_NOT_SUPPORTED i s else pass_ioctl z lower ic i s)"

definition VltlDispatchIoControl ::
    "storage_sizes \<Rightarrow> nat \<Rightarrow> 's sync \<Rightarrow> lower \<Rightarrow> ioctl_irp \<Rightarrow> irp \<Rightarrow> 's \<times> mem \<Rightarrow> sd \<Rightarrow> (ntstatus \<times> sd \<times> 's) option" where
  "VltlDispatchIoControl z hdr sync lower ic i tm s =
     (if is_inquiry hdr ic then (case pass_ioctl z lower ic i s of (st, s') \<Rightarrow> Some (st, s', fst tm))
      else if is_control hdr ic (sd_dx s)
      then (case LevelingControl sync hdr (ic_InputBufferLength ic) (ic_OutputBufferLength ic) (ic_Spt ic) (sd_dx s) (sd_pool s) tm of
              None \<Rightarrow> None
            | Some (st, info, sp, x, p, t, m) \<Rightarrow>
                let s1 = s\<lparr>sd_dx := x, sd_pool := p\<rparr> in
                (case info of
                   Some n \<Rightarrow> Some (st, done_irp (i\<lparr>irp_Status := st, irp_Information := n\<rparr>) s1, t)
                 | None \<Rightarrow> (case ioctl_rest z lower ic i s1 of (st', s') \<Rightarrow> Some (st', s', t))))
      else (case ioctl_rest z lower ic i s of (st, s') \<Rightarrow> Some (st, s', fst tm)))"

section \<open>SCSI requests\<close>

text \<open>\<open>FreeLevelingCtx(DeviceObject, FALSE)\<close>, which never waits.\<close>

definition free_now :: "sd \<Rightarrow> sd" where
  "free_now s =
     (case FreeLevelingCtx [] False (sd_dx s) (sd_pool s) of
        None \<Rightarrow> s | Some (x, p) \<Rightarrow> s\<lparr>sd_dx := x, sd_pool := p\<rparr>)"

definition tur_errors :: "dx \<Rightarrow> dx" where
  "tur_errors x =
     (let x1 = (if dx_Mode x = VLTL_MODE_DIRECT then ChangeMode VLTL_MODE_INITIAL x else x) in
      if dx_Mode x1 = VLTL_MODE_ACTIVE
      then let x2 = x1\<lparr>dx_TURErrors := wrap32 (dx_TURErrors x1 + 1)\<rparr> in
        if dx_TURErrors x2 > 5 then ChangeMode VLTL_MODE_ERROR x2 else x2
      else x1)"

definition VltlDispatchScsiTURCompletion :: "irp \<Rightarrow> sd \<Rightarrow> irp \<times> sd" where
  "VltlDispatchScsiTURCompletion i s =
     (if irp_Status i = STATUS_CANCELLED then (i, s)
      else let s1 = (if NT_SUCCESS (irp_Status i) \<and> SRB_SUCCESS (irp_Srb i)
                     then s\<lparr>sd_dx := (sd_dx s)\<lparr>dx_TURErrors := 0\<rparr>\<rparr>
                     else let s' = s\<lparr>sd_dx := tur_errors (sd_dx s)\<rparr> in
                       if dx_Mode (sd_dx s') = VLTL_MODE_ERROR then free_now s' else s');
               i1 = (if VLTL_MODE_ACTIVE < dx_Mode (sd_dx s1)
                     then i\<lparr>irp_Srb := SetCheckCondition SCSI_SENSE_NOT_READY SCSI_ADSENSE_NO_MEDIA_IN_DEVICE 0 (irp_Srb i),
                            irp_Status := STATUS_IO_DEVICE_ERROR\<rparr>
                     else i)
        in (i1, if dx_Mode (sd_dx s1) = VLTL_MODE_COMPLETED then free_now s1 else s1))"

text \<open>Where \<open>VltlDispatchScsi\<close> sends a request.\<close>

datatype route = ToTUR | ToGate bool | ToCheck | ToLower

definition scsi_route :: "srb \<Rightarrow> dx \<Rightarrow> route" where
  "scsi_route r x =
     (if srb_Function r = SRB_FUNCTION_EXECUTE_SCSI \<and> srb_op r = SCSIOP_TEST_UNIT_READY then ToTUR
      else if VLTL_MODE_ACTIVE \<le> dx_Mode x
      then if srb_Function r \<in> {SRB_FUNCTION_CLAIM_DEVICE, SRB_FUNCTION_LOCK_QUEUE, SRB_FUNCTION_UNLOCK_QUEUE,
                                 SRB_FUNCTION_FLUSH_QUEUE}
        then ToLower
        else ToGate (srb_Function r = SRB_FUNCTION_EXECUTE_SCSI \<and> srb_op r = SCSIOP_READ)
      else if dx_Mode x = VLTL_MODE_INITIAL \<and> srb_Function r = SRB_FUNCTION_EXECUTE_SCSI \<and> srb_op r = SCSIOP_READ_CAPACITY \<and>
        (dx_RemovableMedia x \<or> dx_AllowAlways x) \<and> 0x8000 \<le> dx_MaximumTransferLength x
      then ToCheck else ToLower)"

definition VltlDispatchScsi ::
    "nat \<Rightarrow> lower \<Rightarrow> ntstatus \<Rightarrow> (irp \<Rightarrow> mem) \<Rightarrow> ('s \<Rightarrow> bool \<times> 's \<times> mem) \<Rightarrow> 's sync \<Rightarrow> (dx \<Rightarrow> dx) \<Rightarrow> irp \<Rightarrow> 's \<Rightarrow> sd \<Rightarrow>
     (ntstatus \<times> sd \<times> 's) option" where
  "VltlDispatchScsi fuel lower u um cap sync at_lock i t s =
     (case scsi_route (irp_Srb i) (sd_dx s) of
        ToTUR \<Rightarrow>
          let (st, i') = lower i in
          if st = STATUS_PENDING then Some (st, s, t)
          else let (i1, s1) = VltlDispatchScsiTURCompletion i' s in Some (st, done_irp i1 s1, t)
      | ToGate IsRead \<Rightarrow> map_option (\<lambda>(st, s'). (st, s', t)) (gate_dispatch fuel lower u um IsRead i s)
      | ToCheck \<Rightarrow>
          let (st, i') = lower (i\<lparr>irp_Pending := True\<rparr>); (i1, t', x, p) = LevelingCheck cap sync at_lock i' t (sd_dx s) (sd_pool s) in
          Some (STATUS_PENDING, done_irp i1 (s\<lparr>sd_dx := x, sd_pool := p\<rparr>), t')
      | ToLower \<Rightarrow> let (st, s') = pass_down lower i s in Some (st, s', t))"

section \<open>Attaching to a device\<close>

text \<open>
  Which of the calls of \<open>VltlAddDevice\<close> succeed; the device objects that exist afterwards are the
  device, the one that stands in for it at shutdown, and whether it is attached.
\<close>

record add_results =
  ad_CreateDevice :: bool
  ad_CreateSecure :: bool
  ad_RegisterShutdown :: bool
  ad_Attach :: bool

record objects =
  ob_Device :: bool
  ob_Another :: bool
  ob_Shutdown :: bool
  ob_Attached :: bool

definition no_objects :: objects where
  "no_objects = \<lparr>ob_Device = False, ob_Another = False, ob_Shutdown = False, ob_Attached = False\<rparr>"

definition CreateAnotherDevice :: "add_results \<Rightarrow> objects \<Rightarrow> bool \<times> objects" where
  "CreateAnotherDevice a ob =
     (if \<not> ad_CreateSecure a then (False, ob)
      else let ob1 = ob\<lparr>ob_Another := True\<rparr> in
        if \<not> ad_RegisterShutdown a then (False, ob1\<lparr>ob_Another := False\<rparr>)
        else (True, ob1\<lparr>ob_Shutdown := True\<rparr>))"

definition new_dx :: "device_config \<Rightarrow> dx" where
  "new_dx f = ChangeMode VLTL_MODE_INITIAL
     \<lparr>dx_IsControlDevice = False, dx_IsAnotherDevice = False, dx_AllowAlways = dc_AllowAlways f,
      dx_TobeRemovable = dc_TobeRemovable f, dx_TobeFixed = dc_TobeFixed f, dx_Mode = VLTL_MODE_DIRECT,
      dx_RemovableMedia = False, dx_LevelingCapable = False, dx_MaximumTransferLength = 0, dx_LastLBA = 0,
      dx_TURErrors = 0, dx_Ctx = None\<rparr>"

text \<open>\<open>IoDeleteDevice\<close> of the stand-in also ends its shutdown notification.\<close>

definition VltlAddDevice :: "registry \<Rightarrow> property_reply list \<Rightarrow> add_results \<Rightarrow> pool \<Rightarrow> objects \<times> dx option \<times> pool" where
  "VltlAddDevice reg rs a p =
     (case CheckDeviceConfig reg rs p of
        (None, p1) \<Rightarrow> (no_objects, None, p1)
      | (Some f, p1) \<Rightarrow>
          if \<not> ad_CreateDevice a then (no_objects, None, p1)
          else let ob1 = no_objects\<lparr>ob_Device := True\<rparr>; (ok, ob2) = CreateAnotherDevice a ob1 in
          if \<not> ok then (ob2\<lparr>ob_Device := False\<rparr>, None, p1)
          else if \<not> ad_Attach a then (ob2\<lparr>ob_Another := False, ob_Shutdown := False, ob_Device := False\<rparr>, None, p1)
          else (ob2\<lparr>ob_Attached := True\<rparr>, Some (new_dx f), p1))"

section \<open>Loading the driver\<close>

text \<open>
  The table \<open>DriverEntry\<close> fills, by the numbers of the major functions: create 0, close 2, device
  control 14, SCSI 15, shutdown 16, power 22, plug and play 27 (the last).
\<close>

datatype handler =
    DispatchDefault | DispatchPower | DispatchPnp | DispatchIoControl | DispatchScsi | DispatchPassThrough | DispatchShutdown

definition MajorFunction :: "nat \<Rightarrow> handler" where
  "MajorFunction =
     ((\<lambda>_. DispatchDefault)(22 := DispatchPower))
       (27 := DispatchPnp, 14 := DispatchIoControl, 15 := DispatchScsi, 0 := DispatchPassThrough,
        2 := DispatchPassThrough, 16 := DispatchShutdown)"

text \<open>\<open>DriverEntry\<close>: the control device exists when there is a trace buffer and it could be made.\<close>

record driver =
  dr_Ring :: ring
  dr_Control :: bool
  dr_Symlink :: bool
  dr_Table :: "nat \<Rightarrow> handler"

definition CreateControlDevice :: "bool \<Rightarrow> bool \<Rightarrow> bool \<times> bool" where
  "CreateControlDevice created linked = (if \<not> created then (False, False) else (linked, linked))"

definition DriverEntry :: "nat \<Rightarrow> (nat \<Rightarrow> char) option \<Rightarrow> bool \<Rightarrow> bool \<Rightarrow> ring \<Rightarrow> driver" where
  "DriverEntry trace_buffer_size a created linked r =
     (let (dev, link) = (if 0 < trace_buffer_size then CreateControlDevice created linked else (False, False)) in
      \<lparr>dr_Ring = trace_start trace_buffer_size a r, dr_Control = dev, dr_Symlink = link, dr_Table = MajorFunction\<rparr>)"

definition VltlDriverUnload :: "driver \<Rightarrow> driver" where
  "VltlDriverUnload d = d\<lparr>dr_Ring := trace_stop (dr_Ring d)\<rparr>"

end
