(* ===== verification/ModeProps.thy ===== *)
theory ModeProps
  imports Vltl GateProps FormatProps
begin

text \<open>
  The modes of a device over its whole life: every entry point of the driver, run from any state that
  can be reached, keeps the mode and the presence of a context in step.
\<close>

section \<open>The gate leaves the mode alone\<close>

lemma clean_mode: "hs_Mode (LevelingCleanAfterModeChanged h) = hs_Mode h"
proof (induction h rule: LevelingCleanAfterModeChanged.induct)
  case (1 h)
  obtain j c where s: "clean_step (hs_Mode h) (hs_Ctx h) = (j, c)" by fastforce
  show ?case
  proof (cases j)
    case None
    then show ?thesis using s by (simp add: LevelingCleanAfterModeChanged.simps [of h])
  next
    case (Some i)
    then show ?thesis using "1.IH" [OF s [symmetric] Some] s by (simp add: LevelingCleanAfterModeChanged.simps [of h])
  qed
qed

lemma completion_mode:
  "LevelingThreadCompletion n lower u um t h = Some h' \<Longrightarrow> hs_Mode h' = hs_Mode h"
proof (induction n arbitrary: t h h')
  case (Suc n)
  obtain a c where l: "completion_locked t (hs_Mode h) (hs_Ctx h) = (a, c)" by fastforce
  let ?h1 = "h\<lparr>hs_Ctx := c\<rparr>"
  define h2 where "h2 = (if a_Clean a then LevelingCleanAfterModeChanged ?h1 else ?h1)"
  have m2: "hs_Mode h2 = hs_Mode h" by (simp add: h2_def clean_mode)
  obtain fin h2' where w: "WriteCompleteHandler lower h2 = (fin, h2')" by fastforce
  have mw: "hs_Mode h2' = hs_Mode h" using calm_WriteCompleteHandler [of h2 lower] w m2 by (simp add: calm_def)
  define woken where "woken = (if a_WriteComplete a
       then (if fin then LevelingThreadCompletion n lower u um TOther h2' else Some h2') else Some h2)"
  have m3: "hs_Mode h3 = hs_Mode h" if "woken = Some h3" for h3
    using that Suc.IH [of TOther h2' h3] mw m2 by (auto simp: woken_def split: if_splits)
  have e: "LevelingThreadCompletion (Suc n) lower u um t h =
     (case woken of None \<Rightarrow> None
      | Some h3 \<Rightarrow> (case a_Now a of
           Some i \<Rightarrow> let (st, h4) = ExecuteThread lower u um t i h3 in
             if st \<noteq> STATUS_PENDING then LevelingThreadCompletion n lower u um t h4 else Some h4
         | None \<Rightarrow> if a_Flush a then let (st, h4) = ExecuteFlush lower False h3 in
               if st \<noteq> STATUS_PENDING then LevelingThreadCompletion n lower u um t h4 else Some h4
             else Some h3))"
    by (simp only: LevelingThreadCompletion.simps l Let_def prod.case h2_def [symmetric] w woken_def) (cases fin; simp only: prod.case bool.case if_True if_False)
  note p = Suc.prems [unfolded e]
  obtain h3 where h3: "woken = Some h3" using p by (cases woken) simp_all
  have final: "hs_Mode h' = hs_Mode h"
    if "calm h3 h4" "(if st \<noteq> STATUS_PENDING then LevelingThreadCompletion n lower u um t h4 else Some h4) = Some h'" for st h4
    using that Suc.IH [of t h4 h'] m3 [OF h3] by (auto simp: calm_def split: if_splits)
  show ?case
  proof (cases "a_Now a")
    case (Some i)
    obtain st h4 where x: "ExecuteThread lower u um t i h3 = (st, h4)" by fastforce
    then have "calm h3 h4" using calm_ExecuteThread by (metis snd_conv)
    then show ?thesis by (rule final [where st = st]) (use p h3 Some x in simp)
  next
    case None
    obtain st h4 where x: "ExecuteFlush lower False h3 = (st, h4)" by fastforce
    then have c: "calm h3 h4" using calm_ExecuteFlush by (metis snd_conv)
    show ?thesis
    proof (cases "a_Flush a")
      case True
      show ?thesis by (rule final [OF c, where st = st]) (use p h3 None x True in simp)
    next
      case False
      then show ?thesis using p h3 None m3 [OF h3] by simp
    qed
  qed
qed simp

lemma dispatch_mode:
  assumes "LevelingDispatch fuel lower u um here i r h = Some (st, h')"
  shows "hs_Mode h' = hs_Mode h"
proof -
  obtain e c where d: "dispatch_enter r i (hs_Mode h) (hs_Ctx h) = (e, c)" by fastforce
  show ?thesis
  proof (cases e)
    case (Run t)
    obtain s2 h2 where x: "ExecuteThread lower u um t i (h\<lparr>hs_Ctx := c\<rparr>) = (s2, h2)" by fastforce
    then have "calm (h\<lparr>hs_Ctx := c\<rparr>) h2" using calm_ExecuteThread by (metis snd_conv)
    then show ?thesis using assms d Run x
      by (auto simp: LevelingDispatch_def Let_def calm_def split: if_splits prod.splits dest!: completion_mode)
  qed (use assms d in \<open>auto simp: LevelingDispatch_def Let_def split: if_splits prod.splits\<close>)
qed

section \<open>Mode and context in step\<close>

definition dev_inv :: "dx \<Rightarrow> bool" where
  "dev_inv x \<longleftrightarrow> (dx_Mode x \<in> {VLTL_MODE_ACTIVE, VLTL_MODE_RECOVERY} \<longrightarrow> dx_Ctx x \<noteq> None) \<and>
     (dx_Mode x \<in> {VLTL_MODE_INITIAL, VLTL_MODE_DIRECT} \<longrightarrow> dx_Ctx x = None) \<and> dx_Mode x \<noteq> VLTL_MODE_CONFIG"

lemma dev_inv_cong: "dx_Mode y = dx_Mode x \<Longrightarrow> dx_Ctx y = None \<longleftrightarrow> dx_Ctx x = None \<Longrightarrow> dev_inv x \<Longrightarrow> dev_inv y"
  by (simp add: dev_inv_def)

lemma dev_inv_gate:
  assumes "gate_dispatch fuel lower u um r i s = Some (st, s')" "dev_inv (sd_dx s)"
  shows "dev_inv (sd_dx s')"
proof (cases "dx_Ctx (sd_dx s)")
  case None
  then show ?thesis using assms by (auto simp: gate_dispatch_def)
next
  case (Some oc)
  obtain obj c where oc: "dx_Ctx (sd_dx s) = Some (obj, c)" using Some by (cases oc) simp
  then obtain h where h: "LevelingDispatch fuel lower u um True i r (hs_of (sd_dx s) c) = Some (st, h)"
    "sd_dx s' = (sd_dx s)\<lparr>dx_Mode := hs_Mode h, dx_Ctx := Some (obj, hs_Ctx h)\<rparr>"
    using assms(1) by (auto simp: gate_dispatch_def Let_def)
  have "hs_Mode h = dx_Mode (sd_dx s)" using dispatch_mode [OF h(1)] by (simp add: hs_of_def)
  then show ?thesis using assms(2) h(2) oc by (simp add: dev_inv_def)
qed

lemma dev_inv_free_round:
  assumes "free_round active x = (active', y, co)" "dev_inv x"
  shows "dev_inv y"
  using assms by (auto simp: free_round_def dev_inv_def split: option.splits prod.splits if_splits)

lemma dev_inv_free_loop:
  "free_loop es Wait active x p = Some (y, p') \<Longrightarrow> dev_inv x \<Longrightarrow> (\<And>e z. e \<in> set es \<Longrightarrow> dev_inv z \<Longrightarrow> dev_inv (e z)) \<Longrightarrow> dev_inv y"
proof (induction es arbitrary: active x)
  case Nil
  obtain a y2 co where f: "free_round active x = (a, y2, co)" by (metis prod_cases3)
  have "dev_inv y2" by (rule dev_inv_free_round [OF f Nil.prems(2)])
  then show ?case using Nil.prems(1) f by (auto simp: free_loop.simps [of "[]"] split: if_splits)
next
  case (Cons e es)
  obtain a y2 co where f: "free_round active x = (a, y2, co)" by (metis prod_cases3)
  have y2: "dev_inv y2" by (rule dev_inv_free_round [OF f Cons.prems(2)])
  show ?case
  proof (cases "Wait \<and> a")
    case True
    then have "free_loop es Wait a (e y2) p = Some (y, p')" using Cons.prems(1) f by (simp add: free_loop.simps [of "e # es"])
    from Cons.IH [OF this] Cons.prems(3) y2 show ?thesis by simp
  next
    case False
    then show ?thesis using Cons.prems(1) f y2 by (auto simp: free_loop.simps [of "e # es"] split: if_splits)
  qed
qed

lemma dev_inv_upd [simp]:
  "dev_inv (x\<lparr>dx_LastLBA := n\<rparr>) = dev_inv x" "dev_inv (x\<lparr>dx_LevelingCapable := b\<rparr>) = dev_inv x"
  "dev_inv (x\<lparr>dx_TURErrors := n\<rparr>) = dev_inv x" "dev_inv (x\<lparr>dx_RemovableMedia := b\<rparr>) = dev_inv x"
  "dev_inv (x\<lparr>dx_MaximumTransferLength := n\<rparr>) = dev_inv x"
  by (simp_all add: dev_inv_def)

lemma dev_inv_modes:
  "dev_inv x \<Longrightarrow> dev_inv (ChangeModeAtomic VLTL_MODE_INITIAL VLTL_MODE_DIRECT x)"
  "dev_inv (ChangeMode VLTL_MODE_ERROR x)" "dev_inv (ChangeMode VLTL_MODE_FORMAT x)"
  "dev_inv x \<Longrightarrow> m \<in> {VLTL_MODE_COMPLETED, VLTL_MODE_ERROR} \<Longrightarrow> dev_inv (ChangeModeAtomic VLTL_MODE_FORMAT m x)"
  "dev_inv x \<Longrightarrow> m \<in> {VLTL_MODE_ACTIVE, VLTL_MODE_ERROR} \<Longrightarrow> dev_inv (ChangeModeAtomic VLTL_MODE_RECOVERY m x)"
  by (auto simp: dev_inv_def)

lemma dev_inv_initialize:
  assumes "InitializeLevelingCtx MBR (\<lambda>_. z) x p = (ok, y, p')" "dev_inv x" "dev_inv z"
  shows "dev_inv y"
proof -
  have y: "y = fst (snd (InitializeLevelingCtx MBR (\<lambda>_. z) x p))" using assms(1) by simp
  have "y = x \<or> y = ChangeMode VLTL_MODE_ERROR x \<or> y = z \<or> (\<exists>oc. y = ChangeMode VLTL_MODE_RECOVERY (z\<lparr>dx_Ctx := Some oc\<rparr>))"
    unfolding y InitializeLevelingCtx_def Let_def by (simp split: prod.split option.split) (intro impI allI disjI2 exI, rule refl)
  then show ?thesis using assms(2,3) by (elim disjE exE) (simp_all add: dev_inv_def)
qed

lemma dev_inv_check:
  assumes c: "LevelingCheck cap sync (\<lambda>_. z) i t x p = (i', t', y, p')" and inv: "dev_inv x" "dev_inv z"
  shows "dev_inv y"
proof -
  have c2: "dev_inv (snd (CheckCompletion2 ok m x))" for ok m
    using inv(1) by (simp add: CheckCompletion2_def Let_def dev_inv_modes(1))
  have c3: "dev_inv (fst (snd (CheckCompletion3 ok MBR (\<lambda>_. z) i u q)))" if "dev_inv u" for ok MBR i u q
  proof -
    obtain st y1 p1 where a: "InitializeLevelingCtx MBR (\<lambda>_. z) (u\<lparr>dx_LevelingCapable := True\<rparr>) q = (st, y1, p1)" by (metis prod_cases3)
    have "dev_inv y1" by (rule dev_inv_initialize [OF a]) (simp_all add: that inv(2))
    then show ?thesis using a that by (simp add: CheckCompletion3_def dev_inv_modes(1))
  qed
  show ?thesis
  proof (cases "fst (CheckCompletion1 i x p)")
    case None
    then show ?thesis using c inv(1) by (auto simp: LevelingCheck_def split: prod.splits)
  next
    case (Some r)
    obtain p1 where 1: "CheckCompletion1 i x p = (Some r, p1)" using Some by (metis prod.collapse)
    obtain ok s1 m1 where 2: "cap t = (ok, s1, m1)" by (metis prod_cases3)
    obtain go x1 where 3: "CheckCompletion2 ok m1 x = (go, x1)" by fastforce
    obtain ok2 s2 m2 where 4: "sync OpRead 0 0 1 (s1, m1) = (ok2, s2, m2)" by (metis prod_cases3)
    obtain i2 x2 p2 where 5: "CheckCompletion3 ok2 (m2 0) (\<lambda>_. z) i x1 p1 = (i2, x2, p2)" by (metis prod_cases3)
    have "dev_inv x1" using c2 [of ok m1] 3 by simp
    moreover from this have "dev_inv x2" using c3 [of x1 ok2 "m2 0" i p1] 5 by simp
    ultimately show ?thesis using c 1 2 3 4 5 by (auto simp: LevelingCheck_def split: if_splits)
  qed
qed

lemma dev_inv_tur:
  assumes "dev_inv (sd_dx s)"
  shows "dev_inv (sd_dx (snd (VltlDispatchScsiTURCompletion i s)))"
proof -
  have f: "dev_inv (sd_dx (free_now s'))" if "dev_inv (sd_dx s')" for s'
  proof (cases "FreeLevelingCtx [] False (sd_dx s') (sd_pool s')")
    case None
    then show ?thesis using that by (simp add: free_now_def)
  next
    case (Some xp)
    obtain x p where xp: "FreeLevelingCtx [] False (sd_dx s') (sd_pool s') = Some (x, p)" using Some by (cases xp) simp
    then have "free_loop [] False False (sd_dx s') (sd_pool s') = Some (x, p)" by (simp add: FreeLevelingCtx_def)
    from dev_inv_free_loop [OF this that] show ?thesis using xp by (simp add: free_now_def)
  qed
  have t: "dev_inv (tur_errors (sd_dx s))" using assms by (auto simp: tur_errors_def Let_def dev_inv_def)
  show ?thesis using assms t f by (simp add: VltlDispatchScsiTURCompletion_def Let_def)
qed

lemma dev_inv_config:
  assumes "SetLevelingConfig sync b x p w = Some (ok, y, p', w')" "dev_inv x"
  shows "dev_inv y"
proof -
  have c: "dev_inv x'" if "do_config sync b x w = (ok', x', w2)" for ok' x' w2
    using that assms(2) unfolding do_config_def Let_def
    by (auto simp: dev_inv_def split: if_splits option.splits prod.splits)
  have f: "dev_inv x'" if "do_format sync b x q w = Some (ok', x', q', w2)" for ok' x' q q' w2
    using that assms(2) unfolding do_format_def Let_def SetFormatMode_def
    by (auto simp: dev_inv_def split: if_splits option.splits prod.splits vmode.splits)
  show ?thesis using assms c f by (auto simp: SetLevelingConfig_def split: if_splits option.splits prod.splits)
qed

lemma pass_down_dx [simp]: "sd_dx (snd (pass_down lower i s)) = sd_dx s" "sd_dx (snd (refuse st i s)) = sd_dx s"
  "sd_dx (done_irp i s) = sd_dx s" "sd_pool (snd (pass_down lower i s)) = sd_pool s" "sd_pool (done_irp i s) = sd_pool s"
  by (simp_all add: pass_down_def refuse_def done_irp_def split: prod.split)

lemma pass_down_eq:
  "pass_down lower i s = (st, s') \<Longrightarrow> sd_dx s' = sd_dx s \<and> sd_pool s' = sd_pool s"
  "refuse st2 i s = (st, s') \<Longrightarrow> sd_dx s' = sd_dx s"
  using pass_down_dx(1,4) [of lower i s] pass_down_dx(2) [where st = st2 and i = i and s = s] by simp_all

lemma dev_inv_hook: "dev_inv x \<Longrightarrow> dev_inv (snd (HookStorageProperty z st n len q x))"
  by (simp add: HookStorageProperty_def Let_def split: property.split)

lemma dev_inv_pass_ioctl: "dev_inv (sd_dx s) \<Longrightarrow> dev_inv (sd_dx (snd (pass_ioctl z lower ic i s)))"
  using dev_inv_hook [of "sd_dx s"]
  by (simp add: pass_ioctl_def VltlDispatchIoControlCompletion_def split_beta Let_def)

lemma dev_inv_ioctl_rest: "dev_inv (sd_dx s) \<Longrightarrow> dev_inv (sd_dx (snd (ioctl_rest z lower ic i s)))"
  by (simp add: ioctl_rest_def dev_inv_pass_ioctl)

lemma dev_inv_control:
  assumes "LevelingControl sync hdr inlen outlen sp x p w = Some (st, info, sp', y, p', w')" "dev_inv x"
  shows "dev_inv y"
  using assms by (auto simp: LevelingControl_def split: if_splits dest: dev_inv_config)

lemma dev_inv_ioctl:
  assumes i: "VltlDispatchIoControl z hdr sync lower ic i tm s = Some (st, s', t)" and inv: "dev_inv (sd_dx s)"
  shows "dev_inv (sd_dx s')"
proof (cases "\<not> is_inquiry hdr ic \<and> is_control hdr ic (sd_dx s)")
  case False
  then have "s' = snd (pass_ioctl z lower ic i s) \<or> s' = snd (ioctl_rest z lower ic i s)"
    using i by (auto simp: VltlDispatchIoControl_def split: prod.splits if_splits)
  then show ?thesis using dev_inv_pass_ioctl [OF inv] dev_inv_ioctl_rest [OF inv] by auto
next
  case True
  then obtain st1 info sp x p t1 m where c: "LevelingControl sync hdr (ic_InputBufferLength ic) (ic_OutputBufferLength ic) (ic_Spt ic)
      (sd_dx s) (sd_pool s) tm = Some (st1, info, sp, x, p, t1, m)"
    using i by (auto simp: VltlDispatchIoControl_def split: option.splits)
  let ?s1 = "s\<lparr>sd_dx := x, sd_pool := p\<rparr>"
  have x: "dev_inv (sd_dx ?s1)" using dev_inv_control [OF c inv] by simp
  show ?thesis
  proof (cases info)
    case (Some n)
    then have "sd_dx s' = sd_dx ?s1" using i True c by (auto simp: VltlDispatchIoControl_def)
    then show ?thesis using x by simp
  next
    case None
    then have "s' = snd (ioctl_rest z lower ic i ?s1)" using i True c by (auto simp: VltlDispatchIoControl_def split: prod.splits)
    then show ?thesis using dev_inv_ioctl_rest [OF x] by simp
  qed
qed

lemma dev_inv_scsi:
  assumes d: "VltlDispatchScsi fuel lower u um cap sync (\<lambda>_. z) i t s = Some (st, s', t')" and inv: "dev_inv (sd_dx s)" "dev_inv z"
  shows "dev_inv (sd_dx s')"
proof (cases "scsi_route (irp_Srb i) (sd_dx s)")
  case ToTUR
  then have "sd_dx s' = sd_dx s \<or> (\<exists>i'. sd_dx s' = sd_dx (snd (VltlDispatchScsiTURCompletion i' s)))"
    using d by (auto simp: VltlDispatchScsi_def split: prod.splits if_splits) (metis snd_conv)
  then show ?thesis using inv(1) dev_inv_tur by auto
next
  case (ToGate r)
  then show ?thesis using d inv(1) by (auto simp: VltlDispatchScsi_def dest: dev_inv_gate)
next
  case ToCheck
  obtain st2 i2 where l: "lower (i\<lparr>irp_Pending := True\<rparr>) = (st2, i2)" by fastforce
  obtain i1 t1 x p where c: "LevelingCheck cap sync (\<lambda>_. z) i2 t (sd_dx s) (sd_pool s) = (i1, t1, x, p)" by (metis prod_cases4)
  have "sd_dx s' = x" using d ToCheck l c by (auto simp: VltlDispatchScsi_def)
  then show ?thesis using dev_inv_check [OF c inv] by simp
next
  case ToLower
  then have "s' = snd (pass_down lower i s)" using d by (auto simp: VltlDispatchScsi_def split: prod.splits)
  then show ?thesis using inv(1) by simp
qed

lemma dev_inv_pnp:
  assumes p: "VltlDispatchPnp fuel (map (\<lambda>y _. y) ys) lower u um pg lpg i s = Some (st, s')" and inv: "dev_inv (sd_dx s)" "\<forall>y \<in> set ys. dev_inv y"
  shows "dev_inv (sd_dx s')"
proof -
  consider (Query) "gate_dispatch fuel lower u um False i s = Some (st, s')"
    | (Remove) "remove_device (map (\<lambda>y _. y) ys) lower i s = Some (st, s')"
    | (Pass) "sd_dx s' = sd_dx s"
    using p by (auto simp: VltlDispatchPnp_def VltlDispatchPnpCompletion_def Let_def split: if_splits prod.splits)
  then show ?thesis
  proof cases
    case Query
    then show ?thesis using inv(1) by (rule dev_inv_gate)
  next
    case Remove
    obtain s1 where s1: "pass_down lower i s = (st, s1)" "sd_dx s1 = sd_dx s" "sd_pool s1 = sd_pool s"
      using Remove by (auto simp: remove_device_def split: prod.splits dest: pass_down_eq(1))
    then obtain x q where f: "free_loop (map (\<lambda>y _. y) ys) True False (sd_dx s) (sd_pool s) = Some (x, q)" "sd_dx s' = x"
      using Remove by (auto simp: remove_device_def FreeLevelingCtx_def)
    have "dev_inv x" by (rule dev_inv_free_loop [OF f(1) inv(1)]) (use inv(2) in auto)
    then show ?thesis using f(2) by simp
  next
    case Pass
    then show ?thesis using inv(1) by simp
  qed
qed

lemma dev_inv_recovery:
  assumes "DoRecovery1 sync t x = (t', y)" "dev_inv x"
  shows "dev_inv y"
proof (cases "dx_Ctx x")
  case None
  then show ?thesis using assms by (simp add: DoRecovery1_def)
next
  case (Some oc)
  then show ?thesis using assms by (cases oc) (auto simp: DoRecovery1_def dev_inv_def split: prod.splits if_splits)
qed

section \<open>Everything that can happen to a device\<close>

text \<open>
  The states of the extension of one device: each rule is one routine of the driver, run on a state
  that can be reached; where a routine lets others in (the lock of \<open>InitializeLevelingCtx\<close>, the waits of
  \<open>FreeLevelingCtx\<close>) it goes on with another such state. \<open>transfer_failed\<close> is a completion routine
  that reports an error of the disk.
\<close>

inductive dev_reach :: "device_config \<Rightarrow> dx \<Rightarrow> bool" for f where
  added: "dev_reach f (new_dx f)"
| scsi: "dev_reach f (sd_dx s) \<Longrightarrow> dev_reach f z \<Longrightarrow>
    VltlDispatchScsi fuel lower u um (cap :: nat \<Rightarrow> bool \<times> nat \<times> mem) sync (\<lambda>_. z) i t s = Some (st, s', t') \<Longrightarrow> dev_reach f (sd_dx s')"
| ioctl: "dev_reach f (sd_dx s) \<Longrightarrow>
    VltlDispatchIoControl sz hdr (sync :: nat sync) lower ic i tm s = Some (st, s', t) \<Longrightarrow> dev_reach f (sd_dx s')"
| pnp: "dev_reach f (sd_dx s) \<Longrightarrow> \<forall>y \<in> set ys. dev_reach f y \<Longrightarrow>
    VltlDispatchPnp fuel (map (\<lambda>y _. y) ys) lower u um pg lpg i s = Some (st, s') \<Longrightarrow> dev_reach f (sd_dx s')"
| shutdown: "dev_reach f (sd_dx s) \<Longrightarrow>
    VltlDispatchShutdown fuel lower u um dev i s = Some (st, s') \<Longrightarrow> dev_reach f (sd_dx s')"
| recovered: "dev_reach f x \<Longrightarrow> DoRecovery1 (sync :: nat sync) t x = (t', y) \<Longrightarrow> dev_reach f y"
| transfer_failed: "dev_reach f x \<Longrightarrow> dx_Ctx x = Some (obj, c) \<Longrightarrow>
    dev_reach f (x\<lparr>dx_Mode := hs_Mode (mode_error (hs_of x c))\<rparr>)"

lemma dev_reach_inv: "dev_reach f x \<Longrightarrow> dev_inv x"
proof (induction rule: dev_reach.induct)
  case added
  show ?case by (simp add: dev_inv_def new_dx_def)
next
  case (scsi s z fuel lower u um cap sync i t st s' t')
  then show ?case by (intro dev_inv_scsi [OF scsi.hyps(3)])
next
  case (ioctl s sz hdr sync lower ic i tm st s' t)
  then show ?case by (intro dev_inv_ioctl [OF ioctl.hyps(2)])
next
  case (pnp s ys fuel lower u um pg lpg i st s')
  then show ?case by (intro dev_inv_pnp [OF pnp.hyps(2)]) auto
next
  case (shutdown s fuel lower u um dev i st s')
  then show ?case
    by (cases dev) (auto simp: VltlDispatchShutdown_def VltlDispatchPassThrough_def dest: dev_inv_gate pass_down_eq)
next
  case (recovered x sync t t' y)
  then show ?case by (intro dev_inv_recovery [OF recovered.hyps(2)])
next
  case (transfer_failed x obj c)
  then show ?case by (auto simp: mode_error_def hs_of_def dev_inv_def)
qed

section \<open>Lost units\<close>

definition unit_lost :: "irp \<Rightarrow> bool" where
  "unit_lost i \<longleftrightarrow> \<not> (NT_SUCCESS (irp_Status i) \<and> SRB_SUCCESS (irp_Srb i)) \<and> irp_Status i \<noteq> STATUS_CANCELLED"

lemma tur_lost:
  assumes "unit_lost i" "dx_Mode (sd_dx s) = VLTL_MODE_ACTIVE" "dx_TURErrors (sd_dx s) < 5"
  shows "VltlDispatchScsiTURCompletion i s = (i, s\<lparr>sd_dx := (sd_dx s)\<lparr>dx_TURErrors := dx_TURErrors (sd_dx s) + 1\<rparr>\<rparr>)"
  using assms by (auto simp: VltlDispatchScsiTURCompletion_def unit_lost_def tur_errors_def Let_def)

lemma tur_lost_many:
  assumes "unit_lost i" "dx_Mode (sd_dx s) = VLTL_MODE_ACTIVE" "dx_TURErrors (sd_dx s) = 0" "n \<le> 5"
  shows "((\<lambda>s. snd (VltlDispatchScsiTURCompletion i s)) ^^ n) s = s\<lparr>sd_dx := (sd_dx s)\<lparr>dx_TURErrors := n\<rparr>\<rparr>"
  using assms(4)
proof (induction n)
  case 0
  show ?case using assms(3) by simp
next
  case (Suc n)
  then show ?case using tur_lost [OF assms(1), of "s\<lparr>sd_dx := (sd_dx s)\<lparr>dx_TURErrors := n\<rparr>\<rparr>"] assms(2) by simp
qed

section \<open>Properties\<close>

text \<open>
  C10. Mode and context are in step in every state a device can reach: an active or recovering device has a
  context, so that no routine follows a null pointer there, an initial or direct one has none, so that
  none is lost, and the mode \<open>CONFIG\<close> of the interface is never a mode of a device.
\<close>

theorem mode_and_context:
  assumes "dev_reach f x"
  shows "(dx_Mode x = VLTL_MODE_ACTIVE \<or> dx_Mode x = VLTL_MODE_RECOVERY \<longrightarrow> dx_Ctx x \<noteq> None) \<and>
    (dx_Mode x = VLTL_MODE_INITIAL \<or> dx_Mode x = VLTL_MODE_DIRECT \<longrightarrow> dx_Ctx x = None) \<and>
    dx_Mode x \<noteq> VLTL_MODE_CONFIG"
  using dev_reach_inv [OF assms] by (simp add: dev_inv_def)

text \<open>A device that the driver looks at and leaves alone because it is too small.\<close>

definition demo_config :: device_config where
  "demo_config = \<lparr>dc_AllowAlways = True, dc_TobeRemovable = False, dc_TobeFixed = False\<rparr>"

definition ready_lower :: lower where
  "ready_lower i = (STATUS_SUCCESS, i\<lparr>irp_Status := STATUS_SUCCESS, irp_Information := 1000,
     irp_Srb := (irp_Srb i)\<lparr>srb_SrbStatus := SRB_STATUS_SUCCESS, srb_ScsiStatus := SCSISTAT_GOOD\<rparr>\<rparr>)"

definition demo_sd :: sd where
  "demo_sd = \<lparr>sd_dx = new_dx demo_config, sd_pool = full_pool, sd_Done = [], sd_Issued = [], sd_PowerPagable = False, sd_Deleted = False\<rparr>"

definition demo_ioctl :: ioctl_irp where
  "demo_ioctl = \<lparr>ic_Code = IOCTL_STORAGE_QUERY_PROPERTY, ic_InputBufferLength = 12, ic_OutputBufferLength = 1000, ic_Spt = demo_sense,
     ic_Query = \<lparr>sq_Standard = True, sq_Property = StorageAdapterProperty, sq_Size = 32, sq_RemovableMedia = False,
       sq_MaximumTransferLength = 65536\<rparr>\<rparr>"

definition demo_sizes :: storage_sizes where
  "demo_sizes = \<lparr>ss_query = 12, ss_header = 8, ss_device = 40, ss_adapter = 32\<rparr>"

lemma demo_queried:
  "\<exists>st s'. VltlDispatchIoControl demo_sizes 56 (\<lambda>_ _ _ _ w. (True, w)) ready_lower demo_ioctl verify_irp (0 :: nat, \<lambda>_. zero_sector) demo_sd =
     Some (st, s', 0) \<and> sd_dx s' = (new_dx demo_config)\<lparr>dx_MaximumTransferLength := 65536\<rparr>"
  by (simp add: VltlDispatchIoControl_def is_inquiry_def is_control_def ioctl_rest_def pass_ioctl_def ready_lower_def demo_ioctl_def
      demo_sizes_def demo_sd_def full_pool_def alloc_def VltlDispatchIoControlCompletion_def HookStorageProperty_def done_irp_def
      new_dx_def less_eq_vmode_def Let_def)

lemma demo_direct:
  assumes "sd_dx s = (new_dx demo_config)\<lparr>dx_MaximumTransferLength := 65536\<rparr>"
  shows "\<exists>st s'. VltlDispatchScsi 0 ready_lower STATUS_SUCCESS (\<lambda>_ _. zero_sector) (\<lambda>t. (True, t, \<lambda>_. zero_sector)) (\<lambda>_ _ _ _ w. (True, w))
     (\<lambda>_. new_dx demo_config) capacity_irp (0 :: nat) (s\<lparr>sd_pool := full_pool\<rparr>) = Some (st, s', 0) \<and>
     dx_Mode (sd_dx s') = VLTL_MODE_DIRECT"
proof -
  obtain r p where c: "CreateRequest 65536 512 full_pool = (Some r, p)" using CreateRequest_full by blast
  have z: "bswap32 0 = 0" by (simp add: bswap32_def le_word_def get_byte_def set_byte_def)
  have "scsi_route (irp_Srb capacity_irp) (sd_dx s) = ToCheck"
    by (simp add: scsi_route_def assms capacity_irp_def verify_irp_def verify_srb_def new_dx_def demo_config_def less_eq_vmode_def)
  then show ?thesis using c z
    by (simp add: VltlDispatchScsi_def ready_lower_def LevelingCheck_def CheckCompletion1_def SRB_SUCCESS_def assms new_dx_def
        CheckCompletion2_def zero_sector_def ChangeModeAtomic_def Let_def done_irp_def)
qed

lemma demo_reach: "\<exists>x. dev_reach demo_config x \<and> dx_Mode x = VLTL_MODE_DIRECT"
proof -
  obtain st s where q: "VltlDispatchIoControl demo_sizes 56 (\<lambda>_ _ _ _ w. (True, w)) ready_lower demo_ioctl verify_irp (0 :: nat, \<lambda>_. zero_sector) demo_sd =
     Some (st, s, 0)" "sd_dx s = (new_dx demo_config)\<lparr>dx_MaximumTransferLength := 65536\<rparr>" using demo_queried by blast
  have "dev_reach demo_config (sd_dx demo_sd)" by (simp add: demo_sd_def dev_reach.added)
  from dev_reach.ioctl [OF this q(1)] have r: "dev_reach demo_config (sd_dx (s\<lparr>sd_pool := full_pool\<rparr>))" by simp
  from demo_direct [OF q(2)] obtain st2 s' where d: "VltlDispatchScsi 0 ready_lower STATUS_SUCCESS (\<lambda>_ _. zero_sector) (\<lambda>t. (True, t, \<lambda>_. zero_sector))
      (\<lambda>_ _ _ _ w. (True, w)) (\<lambda>_. new_dx demo_config) capacity_irp (0 :: nat) (s\<lparr>sd_pool := full_pool\<rparr>) = Some (st2, s', 0)"
    "dx_Mode (sd_dx s') = VLTL_MODE_DIRECT" by blast
  from dev_reach.scsi [OF r dev_reach.added d(1)] d(2) show ?thesis by blast
qed

theorem mode_and_context_witness:
  "\<exists>x. dev_reach demo_config x \<and> dx_Mode x = VLTL_MODE_DIRECT \<and> dx_Ctx x = None"
  using demo_reach mode_and_context by blast

text \<open>
  C29. Five failing \<open>TEST_UNIT_READY\<close> in a row only count; the sixth takes the device out of service: when
  requests are pending it is left in error, otherwise its context is freed and it is a new device.
\<close>

theorem six_failures:
  assumes "unit_lost i" "dx_Mode (sd_dx s) = VLTL_MODE_ACTIVE" "dx_TURErrors (sd_dx s) = 0" "dx_Ctx (sd_dx s) = Some (obj, c)"
    and "\<not> TimerActive c"
  defines "step \<equiv> \<lambda>s. snd (VltlDispatchScsiTURCompletion i s)"
  shows "dx_Mode (sd_dx ((step ^^ 5) s)) = VLTL_MODE_ACTIVE \<and> dx_TURErrors (sd_dx ((step ^^ 5) s)) = 5 \<and>
    (if 0 < ReadPending c \<or> 0 < OtherPending c
     then dx_Mode (sd_dx ((step ^^ 6) s)) = VLTL_MODE_ERROR \<and> dx_Ctx (sd_dx ((step ^^ 6) s)) = Some (obj, c) \<and>
       sd_pool ((step ^^ 6) s) = sd_pool s
     else dx_Mode (sd_dx ((step ^^ 6) s)) = VLTL_MODE_INITIAL \<and> dx_Ctx (sd_dx ((step ^^ 6) s)) = None \<and>
       sd_pool ((step ^^ 6) s) = FreeLevelingCtx1 (Some obj) (sd_pool s))"
proof -
  let ?s5 = "s\<lparr>sd_dx := (sd_dx s)\<lparr>dx_TURErrors := 5\<rparr>\<rparr>"
  have five: "(step ^^ 5) s = ?s5" unfolding step_def by (rule tur_lost_many [OF assms(1-3)]) simp
  have six: "(step ^^ 6) s = step ?s5"
  proof -
    have six: "Suc 5 = (6 :: nat)" by simp
    have "(step ^^ Suc 5) s = step ?s5" by (simp only: funpow.simps o_apply five)
    then show ?thesis unfolding six .
  qed
  have e: "tur_errors (sd_dx ?s5) = ChangeMode VLTL_MODE_ERROR ((sd_dx s)\<lparr>dx_TURErrors := 6\<rparr>)"
    using assms(2) by (simp add: tur_errors_def Let_def)
  have "step ?s5 = free_now (s\<lparr>sd_dx := ChangeMode VLTL_MODE_ERROR ((sd_dx s)\<lparr>dx_TURErrors := 6\<rparr>)\<rparr>)"
  proof -
    let ?t = "free_now (s\<lparr>sd_dx := ChangeMode VLTL_MODE_ERROR ((sd_dx s)\<lparr>dx_TURErrors := 6\<rparr>)\<rparr>)"
    have "dx_Mode (sd_dx ?t) \<noteq> VLTL_MODE_COMPLETED"
      using assms(4) by (auto simp: free_now_def FreeLevelingCtx_def free_loop.simps free_round_def split: prod.split)
    moreover have "irp_Status i \<noteq> STATUS_CANCELLED" "\<not> (NT_SUCCESS (irp_Status i) \<and> SRB_SUCCESS (irp_Srb i))"
      using assms(1) by (auto simp: unit_lost_def)
    ultimately show ?thesis using e unfolding step_def VltlDispatchScsiTURCompletion_def Let_def
      by (cases "NT_SUCCESS (irp_Status i)") simp_all
  qed
  then show ?thesis unfolding five six using assms(2,4,5)
    by (simp add: free_now_def FreeLevelingCtx_def free_loop.simps free_round_def still_active_def)
qed

definition lost_sd :: sd where
  "lost_sd = demo_sd\<lparr>sd_dx := cfg_dx VLTL_MODE_ACTIVE (Some (demo_obj, new_ctx demo_conf 10))\<rparr>"

theorem six_failures_witness:
  "dx_Mode (sd_dx (((\<lambda>s. snd (VltlDispatchScsiTURCompletion (verify_irp\<lparr>irp_Status := STATUS_IO_DEVICE_ERROR\<rparr>) s)) ^^ 6) lost_sd)) =
   VLTL_MODE_INITIAL"
  using six_failures [of "verify_irp\<lparr>irp_Status := STATUS_IO_DEVICE_ERROR\<rparr>" lost_sd demo_obj "new_ctx demo_conf 10"]
  by (simp add: lost_sd_def cfg_dx_def unit_lost_def new_ctx_def zero_ctx_def)

text \<open>
  C28. Looking at a new device leaks nothing: afterwards what is allocated is what was allocated before, or
  a context has been published, the request is answered with an error so that the system asks again,
  and freeing the context gives everything back.
\<close>

theorem check_no_leak:
  assumes p: "pool_ok p" and c: "LevelingCheck cap sync at_lock i t x p = (i', t', y, p')"
  shows "live_objs p' = live_objs p \<or>
    (\<exists>obj d. dx_Ctx y = Some (obj, d) \<and> dx_Mode y = VLTL_MODE_RECOVERY \<and> irp_Status i' = STATUS_IO_DEVICE_ERROR \<and>
       live_objs (FreeLevelingCtx1 (Some obj) p') = live_objs p)"
proof (cases "NT_SUCCESS (irp_Status i) \<and> SRB_SUCCESS (irp_Srb i)")
  case False
  then show ?thesis using c by (auto simp: LevelingCheck_def CheckCompletion1_def)
next
  case True
  obtain ro p1 where r: "CreateRequest (dx_MaximumTransferLength x) 512 p = (ro, p1)" by fastforce
  note rr = CreateRequest_objs [OF p r]
  have 1: "CheckCompletion1 i x p = (ro, p1)" using True r by (simp add: CheckCompletion1_def)
  show ?thesis
  proof (cases ro)
    case None
    then show ?thesis using c 1 rr by (auto simp: LevelingCheck_def)
  next
    case (Some q)
    obtain ok s1 m1 where 2: "cap t = (ok, s1, m1)" by (metis prod_cases3)
    obtain go x1 where 3: "CheckCompletion2 ok m1 x = (go, x1)" by fastforce
    obtain ok2 s2 m2 where 4: "sync OpRead 0 0 1 (s1, m1) = (ok2, s2, m2)" by (metis prod_cases3)
    obtain st y1 p2 where 5: "InitializeLevelingCtx (m2 0) at_lock (x1\<lparr>dx_LevelingCapable := True\<rparr>) p1 = (st, y1, p2)" by (metis prod_cases3)
    have "pool_ok p1" using rr by simp
    note ini = initialize_objs [OF this 5]
    have free: "live_objs (FreeRequest ro q1) = live_objs p" if "live_objs q1 = live_objs p1" for q1 using rr that by auto
    have e: "(i', t', y, p') =
      (if \<not> go then (i, s1, x1, FreeRequest ro p1)
       else if \<not> ok2 then (i, s2, x1, FreeRequest ro p1)
       else if \<not> st then (i, s2, ChangeModeAtomic VLTL_MODE_INITIAL VLTL_MODE_DIRECT y1, FreeRequest ro p2)
       else (check_failed i, s2, y1, FreeRequest ro p2))"
      using c 1 unfolding LevelingCheck_def by (cases go; cases ok2; cases st) (simp_all add: Some 2 3 4 5 CheckCompletion3_def del: One_nat_def)
    show ?thesis
    proof (cases "go \<and> ok2 \<and> st")
      case True
      then obtain obj d where o: "dx_Ctx y1 = Some (obj, d)" "dx_Mode y1 = VLTL_MODE_RECOVERY"
        "live_objs p2 = live_objs p1 \<union> ctx_objs obj" "live_objs p1 \<inter> ctx_objs obj = {}" using ini by auto
      have y: "y = y1" "p' = FreeRequest ro p2" "i' = check_failed i" using e True by simp_all
      have "live_objs (FreeLevelingCtx1 (Some obj) (FreeRequest ro p2)) = live_objs p"
        using o(3,4) rr by (auto simp: live_FreeLevelingCtx1)
      then show ?thesis using o(1,2) by (simp add: y check_failed_def answer_bad_def)
    next
      case False
      then have "p' = FreeRequest ro p1 \<or> (\<not> st \<and> p' = FreeRequest ro p2)" using e by (auto split: if_splits)
      then show ?thesis using free ini by auto
    qed
  qed
qed

lemma demo_check:
  "\<exists>t' y p'. LevelingCheck (\<lambda>t. (True, t, \<lambda>_. zero_sector)) ideal_sync (\<lambda>x. x) (snd (ready_lower capacity_irp)) (\<lambda>_. zero_sector)
     (cfg_dx VLTL_MODE_INITIAL None) full_pool = (snd (ready_lower capacity_irp), t', y, p') \<and> dx_Ctx y = None"
proof -
  obtain r p where c: "CreateRequest 65536 512 full_pool = (Some r, p)" using CreateRequest_full by blast
  have z: "bswap32 0 = 0" by (simp add: bswap32_def le_word_def get_byte_def set_byte_def)
  show ?thesis using c z
    by (simp add: LevelingCheck_def ready_lower_def CheckCompletion1_def SRB_SUCCESS_def cfg_dx_def CheckCompletion2_def zero_sector_def
        ChangeModeAtomic_def Let_def)
qed

theorem check_no_leak_witness:
  "\<exists>t' y p'. LevelingCheck (\<lambda>t. (True, t, \<lambda>_. zero_sector)) ideal_sync (\<lambda>x. x) (snd (ready_lower capacity_irp)) (\<lambda>_. zero_sector)
     (cfg_dx VLTL_MODE_INITIAL None) full_pool = (snd (ready_lower capacity_irp), t', y, p') \<and> live_objs p' = {}"
proof -
  have p: "pool_ok full_pool" "live_objs full_pool = {}" by (simp_all add: full_pool_def pool_ok_def live_objs_def)
  show ?thesis using demo_check check_no_leak [OF p(1)] p(2) by fastforce
qed

end
