(* ===== verification/Worker.thy ===== *)
theory Worker
  imports Prelude
begin

text \<open>
  The recovery thread of \<open>driver/recovery.c\<close>: devices to recover wait in a queue, an event wakes the
  thread. Devices are told apart by a number.
\<close>

text \<open>
  \<open>wk_Waiting\<close>: the thread is in \<open>KeWaitForSingleObject\<close>. \<open>wk_Started\<close> are the devices whose
  recovery has begun, in order, with whether it runs in a thread of its own; \<open>wk_Queued\<close> is the
  history of the queue.
\<close>

record worker =
  wk_Queue :: "nat list"
  wk_Event :: bool
  wk_Stopped :: bool
  wk_Waiting :: bool
  wk_Ended :: bool
  wk_Started :: "(nat \<times> bool) list"
  wk_Queued :: "nat list"

definition StartRecoveryWorkerThread :: worker where
  "StartRecoveryWorkerThread = \<lparr>wk_Queue = [], wk_Event = False, wk_Stopped = False, wk_Waiting = False,
     wk_Ended = False, wk_Started = [], wk_Queued = []\<rparr>"

text \<open>\<open>InsertTailList\<close> and \<open>KeSetEvent\<close> at the end of \<open>InitializeLevelingCtx\<close>.\<close>

definition enqueue :: "nat \<Rightarrow> worker \<Rightarrow> worker" where
  "enqueue d w = w\<lparr>wk_Queue := wk_Queue w @ [d], wk_Event := True, wk_Queued := wk_Queued w @ [d]\<rparr>"

definition StopRecoveryWorkerThread :: "worker \<Rightarrow> worker" where
  "StopRecoveryWorkerThread w = w\<lparr>wk_Stopped := True, wk_Event := True\<rparr>"

text \<open>One round of \<open>RecoveryWorkerRoutine\<close>; \<open>created\<close> is whether \<open>PsCreateSystemThread\<close> succeeds.\<close>

definition worker_round :: "bool \<Rightarrow> worker \<Rightarrow> worker" where
  "worker_round created w =
     (if wk_Stopped w then w\<lparr>wk_Ended := True\<rparr>
      else (case wk_Queue w of
              [] \<Rightarrow> w\<lparr>wk_Waiting := True\<rparr>
            | d # q \<Rightarrow> w\<lparr>wk_Queue := q, wk_Started := wk_Started w @ [(d, created)]\<rparr>))"

text \<open>The wait ends when the event is set, and clears it (a synchronization event).\<close>

definition wake_up :: "worker \<Rightarrow> worker" where
  "wake_up w = w\<lparr>wk_Event := False, wk_Waiting := False\<rparr>"

inductive worker_step :: "worker \<Rightarrow> worker \<Rightarrow> bool" where
  put: "worker_step w (enqueue d w)"
| stop: "worker_step w (StopRecoveryWorkerThread w)"
| round: "\<not> wk_Waiting w \<Longrightarrow> \<not> wk_Ended w \<Longrightarrow> worker_step w (worker_round created w)"
| wake: "wk_Waiting w \<Longrightarrow> wk_Event w \<Longrightarrow> worker_step w (wake_up w)"

inductive_cases worker_stepE: "worker_step w w'"

definition worker_inv :: "worker \<Rightarrow> bool" where
  "worker_inv w \<longleftrightarrow> wk_Queued w = map fst (wk_Started w) @ wk_Queue w \<and>
     (wk_Waiting w \<and> (wk_Queue w \<noteq> [] \<or> wk_Stopped w) \<longrightarrow> wk_Event w) \<and> (wk_Ended w \<longrightarrow> wk_Stopped w \<and> \<not> wk_Waiting w)"

lemma worker_step_inv: "worker_step w w' \<Longrightarrow> worker_inv w \<Longrightarrow> worker_inv w'"
  by (erule worker_stepE)
     (auto simp: worker_inv_def enqueue_def StopRecoveryWorkerThread_def worker_round_def wake_up_def split: list.splits)

lemma worker_reachable: "worker_step\<^sup>*\<^sup>* StartRecoveryWorkerThread w \<Longrightarrow> worker_inv w"
  by (induction rule: rtranclp_induct) (auto simp: worker_inv_def StartRecoveryWorkerThread_def dest: worker_step_inv [unfolded worker_inv_def])

text \<open>The thread can always go on while there is something to do.\<close>

definition own_step :: "worker \<Rightarrow> worker" where
  "own_step w = (if wk_Waiting w then wake_up w else worker_round True w)"

lemma own_step_step:
  assumes "worker_inv w" "wk_Queue w \<noteq> []" "\<not> wk_Stopped w"
  shows "worker_step w (own_step w)" "\<not> wk_Stopped (own_step w)"
    "wk_Queue (own_step w) = wk_Queue w \<or> wk_Queue (own_step w) = tl (wk_Queue w)"
    "\<not> wk_Waiting (own_step w)" "wk_Waiting w \<or> wk_Queue (own_step w) = tl (wk_Queue w)"
proof -
  have w: "wk_Waiting w \<Longrightarrow> wk_Event w" "\<not> wk_Ended w" using assms by (auto simp: worker_inv_def)
  then show "worker_step w (own_step w)"
    unfolding own_step_def using worker_step.round [of w True] worker_step.wake [of w] by simp
qed (use assms in \<open>auto simp: own_step_def wake_up_def worker_round_def split: list.splits\<close>)

lemma queue_served:
  "worker_inv w \<Longrightarrow> \<not> wk_Stopped w \<Longrightarrow> \<exists>n w'. worker_step\<^sup>*\<^sup>* w w' \<and> wk_Queue w' = [] \<and> wk_Queued w' = wk_Queued w \<and> worker_inv w'"
proof (induction "2 * length (wk_Queue w) + (if wk_Waiting w then 1 else 0)" arbitrary: w rule: less_induct)
  case less
  show ?case
  proof (cases "wk_Queue w = []")
    case False
    note s = own_step_step [OF less.prems(1) False less.prems(2)]
    have len: "length (tl (wk_Queue w)) < length (wk_Queue w)" using False by (cases "wk_Queue w") simp_all
    have "length (wk_Queue (own_step w)) \<le> length (wk_Queue w)" using s(3) len by auto
    moreover have "\<not> wk_Waiting w \<Longrightarrow> length (wk_Queue (own_step w)) < length (wk_Queue w)" using s(5) len by simp
    ultimately have "2 * length (wk_Queue (own_step w)) + (if wk_Waiting (own_step w) then 1 else 0) <
        2 * length (wk_Queue w) + (if wk_Waiting w then 1 else 0)"
      using s(4) by (cases "wk_Waiting w") simp_all
    from less.hyps [OF this worker_step_inv [OF s(1) less.prems(1)] s(2)] obtain w' where
      w': "worker_step\<^sup>*\<^sup>* (own_step w) w'" "wk_Queue w' = []" "wk_Queued w' = wk_Queued (own_step w)" "worker_inv w'" by blast
    have "wk_Queued (own_step w) = wk_Queued w"
      by (auto simp: own_step_def wake_up_def worker_round_def split: list.split)
    then show ?thesis using w' converse_rtranclp_into_rtranclp [OF s(1) w'(1)] by auto
  qed (use less.prems in blast)
qed



end
