(* ===== verification/Names.thy ===== *)
theory Names
  imports Prelude
begin

text \<open>
  \<open>driver/names.c\<close>: the names of codes, for the lines of the trace. The codes themselves are constants of the
  Windows headers and a parameter \<open>code\<close>, from the symbol to its value; a table lists the symbols in the order
  of the \<open>case\<close> labels. \<open>KdBreakPoint\<close> in the \<open>default\<close> branches has no effect in a release build.
\<close>

type_synonym codes = "string \<Rightarrow> u32"

section \<open>The tables\<close>

definition system_state_names :: "string list" where
  "system_state_names = [
    ''PowerSystemUnspecified'', ''PowerSystemWorking'', ''PowerSystemSleeping1'', ''PowerSystemSleeping2'',
    ''PowerSystemSleeping3'', ''PowerSystemHibernate'', ''PowerSystemShutdown'']"

definition device_state_names :: "string list" where
  "device_state_names = [
    ''PowerDeviceUnspecified'', ''PowerDeviceD0'', ''PowerDeviceD1'', ''PowerDeviceD2'', ''PowerDeviceD3'']"

definition power_action_names :: "string list" where
  "power_action_names = [
    ''PowerActionNone'', ''PowerActionReserved'', ''PowerActionSleep'', ''PowerActionHibernate'',
    ''PowerActionShutdown'', ''PowerActionShutdownReset'', ''PowerActionShutdownOff'', ''PowerActionWarmEject'']"

definition ioctl_names :: "string list" where
  "ioctl_names = [
    ''IOCTL_SCSI_PASS_THROUGH'', ''IOCTL_SCSI_MINIPORT'', ''IOCTL_SCSI_GET_INQUIRY_DATA'',
    ''IOCTL_SCSI_GET_CAPABILITIES'', ''IOCTL_SCSI_PASS_THROUGH_DIRECT'', ''IOCTL_SCSI_GET_ADDRESS'',
    ''IOCTL_SCSI_RESCAN_BUS'', ''IOCTL_SCSI_GET_DUMP_POINTERS'', ''IOCTL_SCSI_FREE_DUMP_POINTERS'',
    ''IOCTL_IDE_PASS_THROUGH'', ''IOCTL_ATA_PASS_THROUGH'', ''IOCTL_ATA_PASS_THROUGH_DIRECT'',
    ''IOCTL_ATA_MINIPORT'', ''IOCTL_MINIPORT_PROCESS_SERVICE_IRP'', ''IOCTL_STORAGE_CHECK_VERIFY'',
    ''IOCTL_STORAGE_CHECK_VERIFY2'', ''IOCTL_STORAGE_MEDIA_REMOVAL'', ''IOCTL_STORAGE_EJECT_MEDIA'',
    ''IOCTL_STORAGE_LOAD_MEDIA'', ''IOCTL_STORAGE_LOAD_MEDIA2'', ''IOCTL_STORAGE_RESERVE'',
    ''IOCTL_STORAGE_RELEASE'', ''IOCTL_STORAGE_FIND_NEW_DEVICES'', ''IOCTL_STORAGE_EJECTION_CONTROL'',
    ''IOCTL_STORAGE_MCN_CONTROL'', ''IOCTL_STORAGE_GET_MEDIA_TYPES'', ''IOCTL_STORAGE_GET_MEDIA_TYPES_EX'',
    ''IOCTL_STORAGE_GET_MEDIA_SERIAL_NUMBER'', ''IOCTL_STORAGE_GET_HOTPLUG_INFO'',
    ''IOCTL_STORAGE_SET_HOTPLUG_INFO'', ''IOCTL_STORAGE_RESET_BUS'', ''IOCTL_STORAGE_RESET_DEVICE'',
    ''IOCTL_STORAGE_BREAK_RESERVATION'', ''IOCTL_STORAGE_PERSISTENT_RESERVE_IN'',
    ''IOCTL_STORAGE_PERSISTENT_RESERVE_OUT'', ''IOCTL_STORAGE_GET_DEVICE_NUMBER'', ''IOCTL_STORAGE_PREDICT_FAILURE'',
    ''IOCTL_STORAGE_READ_CAPACITY'', ''IOCTL_STORAGE_QUERY_PROPERTY'', ''IOCTL_STORAGE_MANAGE_DATA_SET_ATTRIBUTES'',
    ''IOCTL_STORAGE_GET_BC_PROPERTIES'', ''IOCTL_STORAGE_ALLOCATE_BC_STREAM'', ''IOCTL_STORAGE_FREE_BC_STREAM'',
    ''IOCTL_STORAGE_CHECK_PRIORITY_HINT_SUPPORT'', ''IOCTL_STORAGE_518c'', ''IOCTL_STORAGE_5190'',
    ''OBSOLETE_IOCTL_STORAGE_RESET_BUS'', ''OBSOLETE_IOCTL_STORAGE_RESET_DEVICE'', ''IOCTL_DISK_GET_DRIVE_GEOMETRY'',
    ''IOCTL_DISK_GET_PARTITION_INFO'', ''IOCTL_DISK_SET_PARTITION_INFO'', ''IOCTL_DISK_GET_DRIVE_LAYOUT'',
    ''IOCTL_DISK_SET_DRIVE_LAYOUT'', ''IOCTL_DISK_VERIFY'', ''IOCTL_DISK_FORMAT_TRACKS'',
    ''IOCTL_DISK_REASSIGN_BLOCKS'', ''IOCTL_DISK_PERFORMANCE'', ''IOCTL_DISK_IS_WRITABLE'', ''IOCTL_DISK_LOGGING'',
    ''IOCTL_DISK_FORMAT_TRACKS_EX'', ''IOCTL_DISK_HISTOGRAM_STRUCTURE'', ''IOCTL_DISK_HISTOGRAM_DATA'',
    ''IOCTL_DISK_HISTOGRAM_RESET'', ''IOCTL_DISK_REQUEST_STRUCTURE'', ''IOCTL_DISK_REQUEST_DATA'',
    ''IOCTL_DISK_PERFORMANCE_OFF'', ''IOCTL_DISK_CONTROLLER_NUMBER'', ''IOCTL_DISK_GET_PARTITION_INFO_EX'',
    ''IOCTL_DISK_SET_PARTITION_INFO_EX'', ''IOCTL_DISK_GET_DRIVE_LAYOUT_EX'', ''IOCTL_DISK_SET_DRIVE_LAYOUT_EX'',
    ''IOCTL_DISK_CREATE_DISK'', ''IOCTL_DISK_GET_LENGTH_INFO'', ''IOCTL_DISK_GET_DRIVE_GEOMETRY_EX'',
    ''IOCTL_DISK_UPDATE_DRIVE_SIZE'', ''IOCTL_DISK_GROW_PARTITION'', ''IOCTL_DISK_GET_CACHE_INFORMATION'',
    ''IOCTL_DISK_SET_CACHE_INFORMATION'', ''OBSOLETE_DISK_GET_WRITE_CACHE_STATE'',
    ''IOCTL_DISK_DELETE_DRIVE_LAYOUT'', ''IOCTL_DISK_UPDATE_PROPERTIES'', ''IOCTL_DISK_FORMAT_DRIVE'',
    ''IOCTL_DISK_SENSE_DEVICE'', ''IOCTL_DISK_CHECK_VERIFY'', ''IOCTL_DISK_MEDIA_REMOVAL'',
    ''IOCTL_DISK_EJECT_MEDIA'', ''IOCTL_DISK_LOAD_MEDIA'', ''IOCTL_DISK_RESERVE'', ''IOCTL_DISK_RELEASE'',
    ''IOCTL_DISK_FIND_NEW_DEVICES'', ''IOCTL_DISK_GET_MEDIA_TYPES'', ''IOCTL_ACPI_ASYNC_EVAL_METHOD'',
    ''IOCTL_ACPI_EVAL_METHOD'', ''IOCTL_ACPI_ACQUIRE_GLOBAL_LOCK'', ''IOCTL_ACPI_RELEASE_GLOBAL_LOCK'',
    ''IOCTL_MOUNTMGR_CREATE_POINT'', ''IOCTL_MOUNTMGR_DELETE_POINTS'', ''IOCTL_MOUNTMGR_QUERY_POINTS'',
    ''IOCTL_MOUNTMGR_DELETE_POINTS_DBONLY'', ''IOCTL_MOUNTMGR_NEXT_DRIVE_LETTER'',
    ''IOCTL_MOUNTMGR_AUTO_DL_ASSIGNMENTS'', ''IOCTL_MOUNTMGR_VOLUME_MOUNT_POINT_CREATED'',
    ''IOCTL_MOUNTMGR_VOLUME_MOUNT_POINT_DELETED'', ''IOCTL_MOUNTMGR_CHANGE_NOTIFY'',
    ''IOCTL_MOUNTMGR_KEEP_LINKS_WHEN_OFFLINE'', ''IOCTL_MOUNTMGR_CHECK_UNPROCESSED_VOLUMES'',
    ''IOCTL_MOUNTMGR_VOLUME_ARRIVAL_NOTIFICATION'', ''IOCTL_MOUNTMGR_0004'', ''IOCTL_MOUNTMGR_0010'',
    ''IOCTL_MOUNTMGR_0014'', ''IOCTL_MOUNTDEV_QUERY_UNIQUE_ID'', ''IOCTL_MOUNTDEV_QUERY_SUGGESTED_LINK_NAME'',
    ''IOCTL_MOUNTDEV_LINK_CREATED'', ''IOCTL_MOUNTDEV_LINK_DELETED'', ''IOCTL_MOUNTDEV_QUERY_STABLE_GUID'',
    ''IOCTL_MOUNTDEV_QUERY_DEVICE_NAME'', ''FT_SECONDARY_READ'', ''FT_PRIMARY_READ'', ''FT_BALANCED_READ_MODE'',
    ''FT_SYNC_REDUNDANT_COPY'', ''IOCTL_VOLSNAP_0018'', ''IOCTL_VOLUME_GET_VOLUME_DISK_EXTENTS'',
    ''IOCTL_VOLUME_ONLINE'', ''IOCTL_VOLUME_OFFLINE'', ''IOCTL_VOLUME_IS_CLUSTERED'',
    ''IOCTL_VOLUME_GET_GPT_ATTRIBUTES'', ''IOCTL_VOLUME_SUPPORTS_ONLINE_OFFLINE'', ''IOCTL_VOLUME_IS_OFFLINE'',
    ''IOCTL_VOLUME_IS_IO_CAPABLE'', ''IOCTL_VOLUME_QUERY_FAILOVER_SET'', ''IOCTL_VOLUME_QUERY_VOLUME_NUMBER'',
    ''IOCTL_VOLUME_LOGICAL_TO_PHYSICAL'', ''IOCTL_VOLUME_PHYSICAL_TO_LOGICAL'', ''IOCTL_VOLUME_IS_PARTITION'',
    ''IOCTL_VOLUME_READ_PLEX'', ''IOCTL_VOLUME_SET_GPT_ATTRIBUTES'']"

definition ioctl_names_vista :: "string list" where
  "ioctl_names_vista = [
    ''IOCTL_VOLUME_GET_BC_PROPERTIES'', ''IOCTL_VOLUME_ALLOCATE_BC_STREAM'', ''IOCTL_VOLUME_FREE_BC_STREAM'',
    ''IOCTL_VOLUME_IS_DYNAMIC'', ''IOCTL_VOLUME_PREPARE_FOR_CRITICAL_IO'', ''IOCTL_VOLUME_QUERY_ALLOCATION_HINT'',
    ''IOCTL_VOLUME_UPDATE_PROPERTIES'', ''IOCTL_VOLUME_QUERY_MINIMUM_SHRINK_SIZE'',
    ''IOCTL_VOLUME_PREPARE_FOR_SHRINK'']"

definition device_type_names :: "string list" where
  "device_type_names = [
    ''FILE_DEVICE_BEEP'', ''FILE_DEVICE_CD_ROM'', ''FILE_DEVICE_CD_ROM_FILE_SYSTEM'', ''FILE_DEVICE_CONTROLLER'',
    ''FILE_DEVICE_DATALINK'', ''FILE_DEVICE_DFS'', ''FILE_DEVICE_DISK'', ''FILE_DEVICE_DISK_FILE_SYSTEM'',
    ''FILE_DEVICE_FILE_SYSTEM'', ''FILE_DEVICE_INPORT_PORT'', ''FILE_DEVICE_KEYBOARD'', ''FILE_DEVICE_MAILSLOT'',
    ''FILE_DEVICE_MIDI_IN'', ''FILE_DEVICE_MIDI_OUT'', ''FILE_DEVICE_MOUSE'', ''FILE_DEVICE_MULTI_UNC_PROVIDER'',
    ''FILE_DEVICE_NAMED_PIPE'', ''FILE_DEVICE_NETWORK'', ''FILE_DEVICE_NETWORK_BROWSER'',
    ''FILE_DEVICE_NETWORK_FILE_SYSTEM'', ''FILE_DEVICE_NULL'', ''FILE_DEVICE_PARALLEL_PORT'',
    ''FILE_DEVICE_PHYSICAL_NETCARD'', ''FILE_DEVICE_PRINTER'', ''FILE_DEVICE_SCANNER'',
    ''FILE_DEVICE_SERIAL_MOUSE_PORT'', ''FILE_DEVICE_SERIAL_PORT'', ''FILE_DEVICE_SCREEN'', ''FILE_DEVICE_SOUND'',
    ''FILE_DEVICE_STREAMS'', ''FILE_DEVICE_TAPE'', ''FILE_DEVICE_TAPE_FILE_SYSTEM'', ''FILE_DEVICE_TRANSPORT'',
    ''FILE_DEVICE_UNKNOWN'', ''FILE_DEVICE_VIDEO'', ''FILE_DEVICE_VIRTUAL_DISK'', ''FILE_DEVICE_WAVE_IN'',
    ''FILE_DEVICE_WAVE_OUT'', ''FILE_DEVICE_8042_PORT'', ''FILE_DEVICE_NETWORK_REDIRECTOR'', ''FILE_DEVICE_BATTERY'',
    ''FILE_DEVICE_BUS_EXTENDER'', ''FILE_DEVICE_MODEM'', ''FILE_DEVICE_VDM'', ''FILE_DEVICE_MASS_STORAGE'',
    ''FILE_DEVICE_SMB'', ''FILE_DEVICE_KS'', ''FILE_DEVICE_CHANGER'', ''FILE_DEVICE_SMARTCARD'',
    ''FILE_DEVICE_ACPI'', ''FILE_DEVICE_DVD'', ''FILE_DEVICE_FULLSCREEN_VIDEO'', ''FILE_DEVICE_DFS_FILE_SYSTEM'',
    ''FILE_DEVICE_DFS_VOLUME'', ''FILE_DEVICE_SERENUM'', ''FILE_DEVICE_TERMSRV'', ''FILE_DEVICE_KSEC'',
    ''FILE_DEVICE_FIPS'', ''FILE_DEVICE_INFINIBAND'', ''FILE_DEVICE_VMBUS'', ''FILE_DEVICE_CRYPT_PROVIDER'',
    ''FILE_DEVICE_WPD'', ''FILE_DEVICE_BLUETOOTH'']"

definition scsi_op_names :: "string list" where
  "scsi_op_names = [
    ''SCSIOP_TEST_UNIT_READY'', ''SCSIOP_REWIND'', ''SCSIOP_REQUEST_BLOCK_ADDR'', ''SCSIOP_REQUEST_SENSE'',
    ''SCSIOP_FORMAT_UNIT'', ''SCSIOP_READ_BLOCK_LIMITS'', ''SCSIOP_REASSIGN_BLOCKS'', ''SCSIOP_READ6'',
    ''SCSIOP_WRITE6'', ''SCSIOP_SEEK6'', ''SCSIOP_SEEK_BLOCK'', ''SCSIOP_PARTITION'', ''SCSIOP_READ_REVERSE'',
    ''SCSIOP_FLUSH_BUFFER'', ''SCSIOP_SPACE'', ''SCSIOP_INQUIRY'', ''SCSIOP_VERIFY6'', ''SCSIOP_RECOVER_BUF_DATA'',
    ''SCSIOP_MODE_SELECT'', ''SCSIOP_RESERVE_UNIT'', ''SCSIOP_RELEASE_UNIT'', ''SCSIOP_COPY'', ''SCSIOP_ERASE'',
    ''SCSIOP_MODE_SENSE'', ''SCSIOP_START_STOP_UNIT'', ''SCSIOP_RECEIVE_DIAGNOSTIC'', ''SCSIOP_SEND_DIAGNOSTIC'',
    ''SCSIOP_MEDIUM_REMOVAL'', ''SCSIOP_READ_FORMATTED_CAPACITY'', ''SCSIOP_READ_CAPACITY'', ''SCSIOP_READ'',
    ''SCSIOP_WRITE'', ''SCSIOP_SEEK'', ''SCSIOP_WRITE_VERIFY'', ''SCSIOP_VERIFY'', ''SCSIOP_SEARCH_DATA_HIGH'',
    ''SCSIOP_SEARCH_DATA_EQUAL'', ''SCSIOP_SEARCH_DATA_LOW'', ''SCSIOP_SET_LIMITS'', ''SCSIOP_READ_POSITION'',
    ''SCSIOP_SYNCHRONIZE_CACHE'', ''SCSIOP_COMPARE'', ''SCSIOP_COPY_COMPARE'', ''SCSIOP_WRITE_DATA_BUFF'',
    ''SCSIOP_READ_DATA_BUFF'', ''SCSIOP_WRITE_LONG'', ''SCSIOP_CHANGE_DEFINITION'', ''SCSIOP_WRITE_SAME'',
    ''SCSIOP_READ_SUB_CHANNEL'', ''SCSIOP_READ_TOC'', ''SCSIOP_READ_HEADER'', ''SCSIOP_PLAY_AUDIO'',
    ''SCSIOP_GET_CONFIGURATION'', ''SCSIOP_PLAY_AUDIO_MSF'', ''SCSIOP_PLAY_TRACK_INDEX'',
    ''SCSIOP_PLAY_TRACK_RELATIVE'', ''SCSIOP_GET_EVENT_STATUS'', ''SCSIOP_PAUSE_RESUME'', ''SCSIOP_LOG_SELECT'',
    ''SCSIOP_LOG_SENSE'', ''SCSIOP_STOP_PLAY_SCAN'', ''SCSIOP_XDWRITE'', ''SCSIOP_XPWRITE'',
    ''SCSIOP_READ_TRACK_INFORMATION'', ''SCSIOP_XDWRITE_READ'', ''SCSIOP_SEND_OPC_INFORMATION'',
    ''SCSIOP_MODE_SELECT10'', ''SCSIOP_RESERVE_UNIT10'', ''SCSIOP_RELEASE_UNIT10'', ''SCSIOP_REPAIR_TRACK'',
    ''SCSIOP_MODE_SENSE10'', ''SCSIOP_CLOSE_TRACK_SESSION'', ''SCSIOP_READ_BUFFER_CAPACITY'',
    ''SCSIOP_SEND_CUE_SHEET'', ''SCSIOP_PERSISTENT_RESERVE_IN'', ''SCSIOP_PERSISTENT_RESERVE_OUT'',
    ''SCSIOP_REPORT_LUNS'', ''SCSIOP_BLANK'', ''SCSIOP_SEND_EVENT'', ''SCSIOP_SEND_KEY'', ''SCSIOP_REPORT_KEY'',
    ''SCSIOP_MOVE_MEDIUM'', ''SCSIOP_LOAD_UNLOAD_SLOT'', ''SCSIOP_SET_READ_AHEAD'', ''SCSIOP_READ12'',
    ''SCSIOP_SERVICE_ACTION_OUT12'', ''SCSIOP_WRITE12'', ''SCSIOP_SEND_MESSAGE'', ''SCSIOP_GET_PERFORMANCE'',
    ''SCSIOP_READ_DVD_STRUCTURE'', ''SCSIOP_WRITE_VERIFY12'', ''SCSIOP_VERIFY12'', ''SCSIOP_SEARCH_DATA_HIGH12'',
    ''SCSIOP_SEARCH_DATA_EQUAL12'', ''SCSIOP_SEARCH_DATA_LOW12'', ''SCSIOP_SET_LIMITS12'',
    ''SCSIOP_READ_ELEMENT_STATUS_ATTACHED'', ''SCSIOP_REQUEST_VOL_ELEMENT'', ''SCSIOP_SEND_VOLUME_TAG'',
    ''SCSIOP_READ_DEFECT_DATA'', ''SCSIOP_READ_ELEMENT_STATUS'', ''SCSIOP_READ_CD_MSF'', ''SCSIOP_SCAN_CD'',
    ''SCSIOP_SET_CD_SPEED'', ''SCSIOP_PLAY_CD'', ''SCSIOP_MECHANISM_STATUS'', ''SCSIOP_READ_CD'',
    ''SCSIOP_SEND_DVD_STRUCTURE'', ''SCSIOP_INIT_ELEMENT_RANGE'', ''SCSIOP_XDWRITE_EXTENDED16'',
    ''SCSIOP_REBUILD16'', ''SCSIOP_REGENERATE16'', ''SCSIOP_EXTENDED_COPY'', ''SCSIOP_RECEIVE_COPY_RESULTS'',
    ''SCSIOP_ATA_PASSTHROUGH16'', ''SCSIOP_ACCESS_CONTROL_IN'', ''SCSIOP_ACCESS_CONTROL_OUT'', ''SCSIOP_READ16'',
    ''SCSIOP_WRITE16'', ''SCSIOP_READ_ATTRIBUTES'', ''SCSIOP_WRITE_ATTRIBUTES'', ''SCSIOP_WRITE_VERIFY16'',
    ''SCSIOP_VERIFY16'', ''SCSIOP_PREFETCH16'', ''SCSIOP_SYNCHRONIZE_CACHE16'', ''SCSIOP_LOCK_UNLOCK_CACHE16'',
    ''SCSIOP_WRITE_SAME16'', ''SCSIOP_READ_CAPACITY16'', ''SCSIOP_SERVICE_ACTION_OUT16'']"

definition srb_function_names :: "string list" where
  "srb_function_names = [
    ''SRB_FUNCTION_CLAIM_DEVICE'', ''SRB_FUNCTION_IO_CONTROL'', ''SRB_FUNCTION_RECEIVE_EVENT'',
    ''SRB_FUNCTION_RELEASE_QUEUE'', ''SRB_FUNCTION_ATTACH_DEVICE'', ''SRB_FUNCTION_RELEASE_DEVICE'',
    ''SRB_FUNCTION_SHUTDOWN'', ''SRB_FUNCTION_FLUSH'', ''SRB_FUNCTION_ABORT_COMMAND'',
    ''SRB_FUNCTION_RELEASE_RECOVERY'', ''SRB_FUNCTION_RESET_BUS'', ''SRB_FUNCTION_RESET_DEVICE'',
    ''SRB_FUNCTION_TERMINATE_IO'', ''SRB_FUNCTION_FLUSH_QUEUE'', ''SRB_FUNCTION_REMOVE_DEVICE'',
    ''SRB_FUNCTION_WMI'', ''SRB_FUNCTION_LOCK_QUEUE'', ''SRB_FUNCTION_UNLOCK_QUEUE'',
    ''SRB_FUNCTION_RESET_LOGICAL_UNIT'', ''SRB_FUNCTION_SET_LINK_TIMEOUT'', ''SRB_FUNCTION_LINK_TIMEOUT_OCCURRED'',
    ''SRB_FUNCTION_LINK_TIMEOUT_COMPLETE'', ''SRB_FUNCTION_POWER'', ''SRB_FUNCTION_PNP'',
    ''SRB_FUNCTION_DUMP_POINTERS'']"

definition srb_status_names :: "string list" where
  "srb_status_names = [
    ''SRB_STATUS_PENDING'', ''SRB_STATUS_SUCCESS'', ''SRB_STATUS_ABORTED'', ''SRB_STATUS_ABORT_FAILED'',
    ''SRB_STATUS_ERROR'', ''SRB_STATUS_BUSY'', ''SRB_STATUS_INVALID_REQUEST'', ''SRB_STATUS_INVALID_PATH_ID'',
    ''SRB_STATUS_NO_DEVICE'', ''SRB_STATUS_TIMEOUT'', ''SRB_STATUS_SELECTION_TIMEOUT'',
    ''SRB_STATUS_COMMAND_TIMEOUT'', ''SRB_STATUS_MESSAGE_REJECTED'', ''SRB_STATUS_BUS_RESET'',
    ''SRB_STATUS_PARITY_ERROR'', ''SRB_STATUS_REQUEST_SENSE_FAILED'', ''SRB_STATUS_NO_HBA'',
    ''SRB_STATUS_DATA_OVERRUN'', ''SRB_STATUS_UNEXPECTED_BUS_FREE'', ''SRB_STATUS_PHASE_SEQUENCE_FAILURE'',
    ''SRB_STATUS_BAD_SRB_BLOCK_LENGTH'', ''SRB_STATUS_REQUEST_FLUSHED'', ''SRB_STATUS_INVALID_LUN'',
    ''SRB_STATUS_INVALID_TARGET_ID'', ''SRB_STATUS_BAD_FUNCTION'', ''SRB_STATUS_ERROR_RECOVERY'',
    ''SRB_STATUS_NOT_POWERED'', ''SRB_STATUS_LINK_DOWN'', ''SRB_STATUS_INTERNAL_ERROR'']"

definition sense_key_names :: "string list" where
  "sense_key_names = [
    ''SCSI_SENSE_NO_SENSE'', ''SCSI_SENSE_RECOVERED_ERROR'', ''SCSI_SENSE_NOT_READY'', ''SCSI_SENSE_MEDIUM_ERROR'',
    ''SCSI_SENSE_HARDWARE_ERROR'', ''SCSI_SENSE_ILLEGAL_REQUEST'', ''SCSI_SENSE_UNIT_ATTENTION'',
    ''SCSI_SENSE_DATA_PROTECT'', ''SCSI_SENSE_BLANK_CHECK'', ''SCSI_SENSE_UNIQUE'', ''SCSI_SENSE_COPY_ABORTED'',
    ''SCSI_SENSE_ABORTED_COMMAND'', ''SCSI_SENSE_EQUAL'', ''SCSI_SENSE_VOL_OVERFLOW'', ''SCSI_SENSE_MISCOMPARE'',
    ''SCSI_SENSE_RESERVED'']"

definition asc_names :: "string list" where
  "asc_names = [
    ''SCSI_ADSENSE_NO_SENSE'', ''SCSI_ADSENSE_NO_SEEK_COMPLETE'', ''SCSI_ADSENSE_LUN_NOT_READY'',
    ''SCSI_ADSENSE_LUN_COMMUNICATION'', ''SCSI_ADSENSE_WRITE_ERROR'', ''SCSI_ADSENSE_TRACK_ERROR'',
    ''SCSI_ADSENSE_SEEK_ERROR'', ''SCSI_ADSENSE_REC_DATA_NOECC'', ''SCSI_ADSENSE_REC_DATA_ECC'',
    ''SCSI_ADSENSE_PARAMETER_LIST_LENGTH'', ''SCSI_ADSENSE_ILLEGAL_COMMAND'', ''SCSI_ADSENSE_ILLEGAL_BLOCK'',
    ''SCSI_ADSENSE_INVALID_CDB'', ''SCSI_ADSENSE_INVALID_LUN'', ''SCSI_ADSENSE_INVALID_FIELD_PARAMETER_LIST'',
    ''SCSI_ADSENSE_WRITE_PROTECT'', ''SCSI_ADSENSE_MEDIUM_CHANGED'', ''SCSI_ADSENSE_BUS_RESET'',
    ''SCSI_ADSENSE_PARAMETERS_CHANGED'', ''SCSI_ADSENSE_INSUFFICIENT_TIME_FOR_OPERATION'',
    ''SCSI_ADSENSE_INVALID_MEDIA'', ''SCSI_ADSENSE_NO_MEDIA_IN_DEVICE'', ''SCSI_ADSENSE_POSITION_ERROR'',
    ''SCSI_ADSENSE_OPERATING_CONDITIONS_CHANGED'', ''SCSI_ADSENSE_OPERATOR_REQUEST'',
    ''SCSI_ADSENSE_FAILURE_PREDICTION_THRESHOLD_EXCEEDED'', ''SCSI_ADSENSE_ILLEGAL_MODE_FOR_THIS_TRACK'',
    ''SCSI_ADSENSE_COPY_PROTECTION_FAILURE'', ''SCSI_ADSENSE_POWER_CALIBRATION_ERROR'',
    ''SCSI_ADSENSE_VENDOR_UNIQUE'', ''SCSI_ADSENSE_MUSIC_AREA'', ''SCSI_ADSENSE_DATA_AREA'',
    ''SCSI_ADSENSE_VOLUME_OVERFLOW'']"

definition major_names :: "string list" where
  "major_names = [
    ''IRP_MJ_CREATE'', ''IRP_MJ_CREATE_NAMED_PIPE'', ''IRP_MJ_CLOSE'', ''IRP_MJ_READ'', ''IRP_MJ_WRITE'',
    ''IRP_MJ_QUERY_INFORMATION'', ''IRP_MJ_SET_INFORMATION'', ''IRP_MJ_QUERY_EA'', ''IRP_MJ_SET_EA'',
    ''IRP_MJ_FLUSH_BUFFERS'', ''IRP_MJ_QUERY_VOLUME_INFORMATION'', ''IRP_MJ_SET_VOLUME_INFORMATION'',
    ''IRP_MJ_DIRECTORY_CONTROL'', ''IRP_MJ_FILE_SYSTEM_CONTROL'', ''IRP_MJ_SHUTDOWN'', ''IRP_MJ_LOCK_CONTROL'',
    ''IRP_MJ_CLEANUP'', ''IRP_MJ_CREATE_MAILSLOT'', ''IRP_MJ_QUERY_SECURITY'', ''IRP_MJ_SET_SECURITY'',
    ''IRP_MJ_DEVICE_CHANGE'', ''IRP_MJ_QUERY_QUOTA'', ''IRP_MJ_SET_QUOTA'']"

definition wmi_minor_names :: "string list" where
  "wmi_minor_names = [
    ''IRP_MN_QUERY_ALL_DATA'', ''IRP_MN_QUERY_SINGLE_INSTANCE'', ''IRP_MN_CHANGE_SINGLE_INSTANCE'',
    ''IRP_MN_CHANGE_SINGLE_ITEM'', ''IRP_MN_ENABLE_EVENTS'', ''IRP_MN_DISABLE_EVENTS'', ''IRP_MN_ENABLE_COLLECTION'',
    ''IRP_MN_DISABLE_COLLECTION'', ''IRP_MN_REGINFO'', ''IRP_MN_EXECUTE_METHOD'', ''IRP_MN_REGINFO_EX'']"

definition pnp_minor_names :: "string list" where
  "pnp_minor_names = [
    ''IRP_MN_START_DEVICE'', ''IRP_MN_QUERY_REMOVE_DEVICE'', ''IRP_MN_REMOVE_DEVICE'',
    ''IRP_MN_CANCEL_REMOVE_DEVICE'', ''IRP_MN_STOP_DEVICE'', ''IRP_MN_QUERY_STOP_DEVICE'',
    ''IRP_MN_CANCEL_STOP_DEVICE'', ''IRP_MN_QUERY_DEVICE_RELATIONS'', ''IRP_MN_QUERY_INTERFACE'',
    ''IRP_MN_QUERY_CAPABILITIES'', ''IRP_MN_QUERY_RESOURCES'', ''IRP_MN_QUERY_RESOURCE_REQUIREMENTS'',
    ''IRP_MN_QUERY_DEVICE_TEXT'', ''IRP_MN_FILTER_RESOURCE_REQUIREMENTS'', ''IRP_MN_READ_CONFIG'',
    ''IRP_MN_WRITE_CONFIG'', ''IRP_MN_EJECT'', ''IRP_MN_SET_LOCK'', ''IRP_MN_QUERY_ID'',
    ''IRP_MN_QUERY_PNP_DEVICE_STATE'', ''IRP_MN_QUERY_BUS_INFORMATION'', ''IRP_MN_DEVICE_USAGE_NOTIFICATION'',
    ''IRP_MN_SURPRISE_REMOVAL'', ''IRP_MN_QUERY_LEGACY_BUS_INFORMATION'']"

definition power_minor_names :: "string list" where
  "power_minor_names = [
    ''IRP_MN_WAIT_WAKE'', ''IRP_MN_POWER_SEQUENCE'', ''IRP_MN_SET_POWER'', ''IRP_MN_QUERY_POWER'']"

definition nt_status_names_1 :: "string list" where
  "nt_status_names_1 = [
    ''STATUS_SUCCESS'', ''STATUS_WAIT_1'', ''STATUS_WAIT_2'', ''STATUS_WAIT_3'', ''STATUS_WAIT_63'',
    ''STATUS_ABANDONED'', ''STATUS_ABANDONED_WAIT_63'', ''STATUS_USER_APC'', ''STATUS_KERNEL_APC'',
    ''STATUS_ALERTED'', ''STATUS_TIMEOUT'', ''STATUS_PENDING'', ''STATUS_REPARSE'', ''STATUS_MORE_ENTRIES'',
    ''STATUS_NOT_ALL_ASSIGNED'', ''STATUS_SOME_NOT_MAPPED'', ''STATUS_OPLOCK_BREAK_IN_PROGRESS'',
    ''STATUS_VOLUME_MOUNTED'', ''STATUS_RXACT_COMMITTED'', ''STATUS_NOTIFY_CLEANUP'', ''STATUS_NOTIFY_ENUM_DIR'',
    ''STATUS_NO_QUOTAS_FOR_ACCOUNT'', ''STATUS_PRIMARY_TRANSPORT_CONNECT_FAILED'', ''STATUS_PAGE_FAULT_TRANSITION'',
    ''STATUS_PAGE_FAULT_DEMAND_ZERO'', ''STATUS_PAGE_FAULT_COPY_ON_WRITE'', ''STATUS_PAGE_FAULT_GUARD_PAGE'',
    ''STATUS_PAGE_FAULT_PAGING_FILE'', ''STATUS_CACHE_PAGE_LOCKED'', ''STATUS_CRASH_DUMP'',
    ''STATUS_BUFFER_ALL_ZEROS'', ''STATUS_REPARSE_OBJECT'', ''STATUS_RESOURCE_REQUIREMENTS_CHANGED'',
    ''STATUS_TRANSLATION_COMPLETE'', ''STATUS_DS_MEMBERSHIP_EVALUATED_LOCALLY'', ''STATUS_NOTHING_TO_TERMINATE'',
    ''STATUS_PROCESS_NOT_IN_JOB'', ''STATUS_PROCESS_IN_JOB'', ''STATUS_VOLSNAP_HIBERNATE_READY'',
    ''STATUS_FSFILTER_OP_COMPLETED_SUCCESSFULLY'', ''STATUS_INTERRUPT_VECTOR_ALREADY_CONNECTED'',
    ''STATUS_INTERRUPT_STILL_CONNECTED'', ''STATUS_PROCESS_CLONED'', ''STATUS_FILE_LOCKED_WITH_ONLY_READERS'',
    ''STATUS_FILE_LOCKED_WITH_WRITERS'', ''STATUS_RESOURCEMANAGER_READ_ONLY'', ''STATUS_RING_PREVIOUSLY_EMPTY'',
    ''STATUS_RING_PREVIOUSLY_FULL'', ''STATUS_RING_PREVIOUSLY_ABOVE_QUOTA'', ''STATUS_RING_NEWLY_EMPTY'',
    ''STATUS_RING_SIGNAL_OPPOSITE_ENDPOINT'', ''STATUS_FLT_IO_COMPLETE'', ''STATUS_OBJECT_NAME_EXISTS'',
    ''STATUS_THREAD_WAS_SUSPENDED'', ''STATUS_WORKING_SET_LIMIT_RANGE'', ''STATUS_IMAGE_NOT_AT_BASE'',
    ''STATUS_RXACT_STATE_CREATED'', ''STATUS_SEGMENT_NOTIFICATION'', ''STATUS_LOCAL_USER_SESSION_KEY'',
    ''STATUS_BAD_CURRENT_DIRECTORY'', ''STATUS_SERIAL_MORE_WRITES'', ''STATUS_REGISTRY_RECOVERED'',
    ''STATUS_FT_READ_RECOVERY_FROM_BACKUP'', ''STATUS_FT_WRITE_RECOVERY'', ''STATUS_SERIAL_COUNTER_TIMEOUT'',
    ''STATUS_NULL_LM_PASSWORD'', ''STATUS_IMAGE_MACHINE_TYPE_MISMATCH'', ''STATUS_RECEIVE_PARTIAL'',
    ''STATUS_RECEIVE_EXPEDITED'', ''STATUS_RECEIVE_PARTIAL_EXPEDITED'', ''STATUS_EVENT_DONE'',
    ''STATUS_EVENT_PENDING'', ''STATUS_CHECKING_FILE_SYSTEM'', ''STATUS_FATAL_APP_EXIT'',
    ''STATUS_PREDEFINED_HANDLE'', ''STATUS_WAS_UNLOCKED'', ''STATUS_SERVICE_NOTIFICATION'', ''STATUS_WAS_LOCKED'',
    ''STATUS_LOG_HARD_ERROR'', ''STATUS_ALREADY_WIN32'', ''STATUS_WX86_UNSIMULATE'', ''STATUS_WX86_CONTINUE'',
    ''STATUS_WX86_SINGLE_STEP'', ''STATUS_WX86_BREAKPOINT'', ''STATUS_WX86_EXCEPTION_CONTINUE'',
    ''STATUS_WX86_EXCEPTION_LASTCHANCE'', ''STATUS_WX86_EXCEPTION_CHAIN'',
    ''STATUS_IMAGE_MACHINE_TYPE_MISMATCH_EXE'', ''STATUS_NO_YIELD_PERFORMED'', ''STATUS_TIMER_RESUME_IGNORED'',
    ''STATUS_ARBITRATION_UNHANDLED'', ''STATUS_CARDBUS_NOT_SUPPORTED'', ''STATUS_WX86_CREATEWX86TIB'',
    ''STATUS_MP_PROCESSOR_MISMATCH'', ''STATUS_HIBERNATED'', ''STATUS_RESUME_HIBERNATION'',
    ''STATUS_FIRMWARE_UPDATED'', ''STATUS_DRIVERS_LEAKING_LOCKED_PAGES'', ''STATUS_MESSAGE_RETRIEVED'',
    ''STATUS_SYSTEM_POWERSTATE_TRANSITION'', ''STATUS_ALPC_CHECK_COMPLETION_LIST'',
    ''STATUS_SYSTEM_POWERSTATE_COMPLEX_TRANSITION'', ''STATUS_ACCESS_AUDIT_BY_POLICY'', ''STATUS_ABANDON_HIBERFILE'',
    ''STATUS_BIZRULES_NOT_ENABLED'', ''STATUS_FLT_BUFFER_TOO_SMALL'', ''STATUS_GUARD_PAGE_VIOLATION'',
    ''STATUS_DATATYPE_MISALIGNMENT'', ''STATUS_BREAKPOINT'', ''STATUS_SINGLE_STEP'', ''STATUS_BUFFER_OVERFLOW'',
    ''STATUS_NO_MORE_FILES'', ''STATUS_WAKE_SYSTEM_DEBUGGER'', ''STATUS_HANDLES_CLOSED'', ''STATUS_NO_INHERITANCE'',
    ''STATUS_GUID_SUBSTITUTION_MADE'', ''STATUS_PARTIAL_COPY'', ''STATUS_DEVICE_PAPER_EMPTY'',
    ''STATUS_DEVICE_POWERED_OFF'', ''STATUS_DEVICE_OFF_LINE'', ''STATUS_DEVICE_BUSY'', ''STATUS_NO_MORE_EAS'',
    ''STATUS_INVALID_EA_NAME'', ''STATUS_EA_LIST_INCONSISTENT'', ''STATUS_INVALID_EA_FLAG'',
    ''STATUS_VERIFY_REQUIRED'', ''STATUS_EXTRANEOUS_INFORMATION'', ''STATUS_RXACT_COMMIT_NECESSARY'',
    ''STATUS_NO_MORE_ENTRIES'', ''STATUS_FILEMARK_DETECTED'', ''STATUS_MEDIA_CHANGED'', ''STATUS_BUS_RESET'',
    ''STATUS_END_OF_MEDIA'', ''STATUS_BEGINNING_OF_MEDIA'', ''STATUS_MEDIA_CHECK'', ''STATUS_SETMARK_DETECTED'',
    ''STATUS_NO_DATA_DETECTED'', ''STATUS_REDIRECTOR_HAS_OPEN_HANDLES'', ''STATUS_SERVER_HAS_OPEN_HANDLES'',
    ''STATUS_ALREADY_DISCONNECTED'']"

definition nt_status_names_2 :: "string list" where
  "nt_status_names_2 = [
    ''STATUS_LONGJUMP'', ''STATUS_CLEANER_CARTRIDGE_INSTALLED'', ''STATUS_PLUGPLAY_QUERY_VETOED'',
    ''STATUS_UNWIND_CONSOLIDATE'', ''STATUS_REGISTRY_HIVE_RECOVERED'', ''STATUS_DLL_MIGHT_BE_INSECURE'',
    ''STATUS_DLL_MIGHT_BE_INCOMPATIBLE'', ''STATUS_STOPPED_ON_SYMLINK'', ''STATUS_CLUSTER_NODE_ALREADY_UP'',
    ''STATUS_CLUSTER_NODE_ALREADY_DOWN'', ''STATUS_CLUSTER_NETWORK_ALREADY_ONLINE'',
    ''STATUS_CLUSTER_NETWORK_ALREADY_OFFLINE'', ''STATUS_CLUSTER_NODE_ALREADY_MEMBER'',
    ''STATUS_FVE_PARTIAL_METADATA'', ''STATUS_UNSUCCESSFUL'', ''STATUS_NOT_IMPLEMENTED'',
    ''STATUS_INVALID_INFO_CLASS'', ''STATUS_INFO_LENGTH_MISMATCH'', ''STATUS_ACCESS_VIOLATION'',
    ''STATUS_IN_PAGE_ERROR'', ''STATUS_PAGEFILE_QUOTA'', ''STATUS_INVALID_HANDLE'', ''STATUS_BAD_INITIAL_STACK'',
    ''STATUS_BAD_INITIAL_PC'', ''STATUS_INVALID_CID'', ''STATUS_TIMER_NOT_CANCELED'', ''STATUS_INVALID_PARAMETER'',
    ''STATUS_NO_SUCH_DEVICE'', ''STATUS_NO_SUCH_FILE'', ''STATUS_INVALID_DEVICE_REQUEST'', ''STATUS_END_OF_FILE'',
    ''STATUS_WRONG_VOLUME'', ''STATUS_NO_MEDIA_IN_DEVICE'', ''STATUS_UNRECOGNIZED_MEDIA'',
    ''STATUS_NONEXISTENT_SECTOR'', ''STATUS_MORE_PROCESSING_REQUIRED'', ''STATUS_NO_MEMORY'',
    ''STATUS_CONFLICTING_ADDRESSES'', ''STATUS_NOT_MAPPED_VIEW'', ''STATUS_UNABLE_TO_FREE_VM'',
    ''STATUS_UNABLE_TO_DELETE_SECTION'', ''STATUS_INVALID_SYSTEM_SERVICE'', ''STATUS_ILLEGAL_INSTRUCTION'',
    ''STATUS_INVALID_LOCK_SEQUENCE'', ''STATUS_INVALID_VIEW_SIZE'', ''STATUS_INVALID_FILE_FOR_SECTION'',
    ''STATUS_ALREADY_COMMITTED'', ''STATUS_ACCESS_DENIED'', ''STATUS_BUFFER_TOO_SMALL'',
    ''STATUS_OBJECT_TYPE_MISMATCH'', ''STATUS_NONCONTINUABLE_EXCEPTION'', ''STATUS_INVALID_DISPOSITION'',
    ''STATUS_UNWIND'', ''STATUS_BAD_STACK'', ''STATUS_INVALID_UNWIND_TARGET'', ''STATUS_NOT_LOCKED'',
    ''STATUS_PARITY_ERROR'', ''STATUS_UNABLE_TO_DECOMMIT_VM'', ''STATUS_NOT_COMMITTED'',
    ''STATUS_INVALID_PORT_ATTRIBUTES'', ''STATUS_PORT_MESSAGE_TOO_LONG'', ''STATUS_INVALID_PARAMETER_MIX'',
    ''STATUS_INVALID_QUOTA_LOWER'', ''STATUS_DISK_CORRUPT_ERROR'', ''STATUS_OBJECT_NAME_INVALID'',
    ''STATUS_OBJECT_NAME_NOT_FOUND'', ''STATUS_OBJECT_NAME_COLLISION'', ''STATUS_PORT_DISCONNECTED'',
    ''STATUS_DEVICE_ALREADY_ATTACHED'', ''STATUS_OBJECT_PATH_INVALID'', ''STATUS_OBJECT_PATH_NOT_FOUND'',
    ''STATUS_OBJECT_PATH_SYNTAX_BAD'', ''STATUS_DATA_OVERRUN'', ''STATUS_DATA_LATE_ERROR'', ''STATUS_DATA_ERROR'',
    ''STATUS_CRC_ERROR'', ''STATUS_SECTION_TOO_BIG'', ''STATUS_PORT_CONNECTION_REFUSED'',
    ''STATUS_INVALID_PORT_HANDLE'', ''STATUS_SHARING_VIOLATION'', ''STATUS_QUOTA_EXCEEDED'',
    ''STATUS_INVALID_PAGE_PROTECTION'', ''STATUS_MUTANT_NOT_OWNED'', ''STATUS_SEMAPHORE_LIMIT_EXCEEDED'',
    ''STATUS_PORT_ALREADY_SET'', ''STATUS_SECTION_NOT_IMAGE'', ''STATUS_SUSPEND_COUNT_EXCEEDED'',
    ''STATUS_THREAD_IS_TERMINATING'', ''STATUS_BAD_WORKING_SET_LIMIT'', ''STATUS_INCOMPATIBLE_FILE_MAP'',
    ''STATUS_SECTION_PROTECTION'', ''STATUS_EAS_NOT_SUPPORTED'', ''STATUS_EA_TOO_LARGE'',
    ''STATUS_NONEXISTENT_EA_ENTRY'', ''STATUS_NO_EAS_ON_FILE'', ''STATUS_EA_CORRUPT_ERROR'',
    ''STATUS_FILE_LOCK_CONFLICT'', ''STATUS_LOCK_NOT_GRANTED'', ''STATUS_DELETE_PENDING'',
    ''STATUS_CTL_FILE_NOT_SUPPORTED'', ''STATUS_UNKNOWN_REVISION'', ''STATUS_REVISION_MISMATCH'',
    ''STATUS_INVALID_OWNER'', ''STATUS_INVALID_PRIMARY_GROUP'', ''STATUS_NO_IMPERSONATION_TOKEN'',
    ''STATUS_CANT_DISABLE_MANDATORY'', ''STATUS_NO_LOGON_SERVERS'', ''STATUS_NO_SUCH_LOGON_SESSION'',
    ''STATUS_NO_SUCH_PRIVILEGE'', ''STATUS_PRIVILEGE_NOT_HELD'', ''STATUS_INVALID_ACCOUNT_NAME'',
    ''STATUS_USER_EXISTS'', ''STATUS_NO_SUCH_USER'', ''STATUS_GROUP_EXISTS'', ''STATUS_NO_SUCH_GROUP'',
    ''STATUS_MEMBER_IN_GROUP'', ''STATUS_MEMBER_NOT_IN_GROUP'', ''STATUS_LAST_ADMIN'', ''STATUS_WRONG_PASSWORD'',
    ''STATUS_ILL_FORMED_PASSWORD'', ''STATUS_PASSWORD_RESTRICTION'', ''STATUS_LOGON_FAILURE'',
    ''STATUS_ACCOUNT_RESTRICTION'', ''STATUS_INVALID_LOGON_HOURS'', ''STATUS_INVALID_WORKSTATION'',
    ''STATUS_PASSWORD_EXPIRED'', ''STATUS_ACCOUNT_DISABLED'', ''STATUS_NONE_MAPPED'',
    ''STATUS_TOO_MANY_LUIDS_REQUESTED'', ''STATUS_LUIDS_EXHAUSTED'', ''STATUS_INVALID_SUB_AUTHORITY'',
    ''STATUS_INVALID_ACL'', ''STATUS_INVALID_SID'', ''STATUS_INVALID_SECURITY_DESCR'',
    ''STATUS_PROCEDURE_NOT_FOUND'', ''STATUS_INVALID_IMAGE_FORMAT'', ''STATUS_NO_TOKEN'',
    ''STATUS_BAD_INHERITANCE_ACL'', ''STATUS_RANGE_NOT_LOCKED'', ''STATUS_DISK_FULL'']"

definition nt_status_names_3 :: "string list" where
  "nt_status_names_3 = [
    ''STATUS_SERVER_DISABLED'', ''STATUS_SERVER_NOT_DISABLED'', ''STATUS_TOO_MANY_GUIDS_REQUESTED'',
    ''STATUS_GUIDS_EXHAUSTED'', ''STATUS_INVALID_ID_AUTHORITY'', ''STATUS_AGENTS_EXHAUSTED'',
    ''STATUS_INVALID_VOLUME_LABEL'', ''STATUS_SECTION_NOT_EXTENDED'', ''STATUS_NOT_MAPPED_DATA'',
    ''STATUS_RESOURCE_DATA_NOT_FOUND'', ''STATUS_RESOURCE_TYPE_NOT_FOUND'', ''STATUS_RESOURCE_NAME_NOT_FOUND'',
    ''STATUS_ARRAY_BOUNDS_EXCEEDED'', ''STATUS_FLOAT_DENORMAL_OPERAND'', ''STATUS_FLOAT_DIVIDE_BY_ZERO'',
    ''STATUS_FLOAT_INEXACT_RESULT'', ''STATUS_FLOAT_INVALID_OPERATION'', ''STATUS_FLOAT_OVERFLOW'',
    ''STATUS_FLOAT_STACK_CHECK'', ''STATUS_FLOAT_UNDERFLOW'', ''STATUS_INTEGER_DIVIDE_BY_ZERO'',
    ''STATUS_INTEGER_OVERFLOW'', ''STATUS_PRIVILEGED_INSTRUCTION'', ''STATUS_TOO_MANY_PAGING_FILES'',
    ''STATUS_FILE_INVALID'', ''STATUS_ALLOTTED_SPACE_EXCEEDED'', ''STATUS_INSUFFICIENT_RESOURCES'',
    ''STATUS_DFS_EXIT_PATH_FOUND'', ''STATUS_DEVICE_DATA_ERROR'', ''STATUS_DEVICE_NOT_CONNECTED'',
    ''STATUS_DEVICE_POWER_FAILURE'', ''STATUS_FREE_VM_NOT_AT_BASE'', ''STATUS_MEMORY_NOT_ALLOCATED'',
    ''STATUS_WORKING_SET_QUOTA'', ''STATUS_MEDIA_WRITE_PROTECTED'', ''STATUS_DEVICE_NOT_READY'',
    ''STATUS_INVALID_GROUP_ATTRIBUTES'', ''STATUS_BAD_IMPERSONATION_LEVEL'', ''STATUS_CANT_OPEN_ANONYMOUS'',
    ''STATUS_BAD_VALIDATION_CLASS'', ''STATUS_BAD_TOKEN_TYPE'', ''STATUS_BAD_MASTER_BOOT_RECORD'',
    ''STATUS_INSTRUCTION_MISALIGNMENT'', ''STATUS_INSTANCE_NOT_AVAILABLE'', ''STATUS_PIPE_NOT_AVAILABLE'',
    ''STATUS_INVALID_PIPE_STATE'', ''STATUS_PIPE_BUSY'', ''STATUS_ILLEGAL_FUNCTION'', ''STATUS_PIPE_DISCONNECTED'',
    ''STATUS_PIPE_CLOSING'', ''STATUS_PIPE_CONNECTED'', ''STATUS_PIPE_LISTENING'', ''STATUS_INVALID_READ_MODE'',
    ''STATUS_IO_TIMEOUT'', ''STATUS_FILE_FORCED_CLOSED'', ''STATUS_PROFILING_NOT_STARTED'',
    ''STATUS_PROFILING_NOT_STOPPED'', ''STATUS_COULD_NOT_INTERPRET'', ''STATUS_FILE_IS_A_DIRECTORY'',
    ''STATUS_NOT_SUPPORTED'', ''STATUS_REMOTE_NOT_LISTENING'', ''STATUS_DUPLICATE_NAME'',
    ''STATUS_BAD_NETWORK_PATH'', ''STATUS_NETWORK_BUSY'', ''STATUS_DEVICE_DOES_NOT_EXIST'',
    ''STATUS_TOO_MANY_COMMANDS'', ''STATUS_ADAPTER_HARDWARE_ERROR'', ''STATUS_INVALID_NETWORK_RESPONSE'',
    ''STATUS_UNEXPECTED_NETWORK_ERROR'', ''STATUS_BAD_REMOTE_ADAPTER'', ''STATUS_PRINT_QUEUE_FULL'',
    ''STATUS_NO_SPOOL_SPACE'', ''STATUS_PRINT_CANCELLED'', ''STATUS_NETWORK_NAME_DELETED'',
    ''STATUS_NETWORK_ACCESS_DENIED'', ''STATUS_BAD_DEVICE_TYPE'', ''STATUS_BAD_NETWORK_NAME'',
    ''STATUS_TOO_MANY_NAMES'', ''STATUS_TOO_MANY_SESSIONS'', ''STATUS_SHARING_PAUSED'',
    ''STATUS_REQUEST_NOT_ACCEPTED'', ''STATUS_REDIRECTOR_PAUSED'', ''STATUS_NET_WRITE_FAULT'',
    ''STATUS_PROFILING_AT_LIMIT'', ''STATUS_NOT_SAME_DEVICE'', ''STATUS_FILE_RENAMED'',
    ''STATUS_VIRTUAL_CIRCUIT_CLOSED'', ''STATUS_NO_SECURITY_ON_OBJECT'', ''STATUS_CANT_WAIT'', ''STATUS_PIPE_EMPTY'',
    ''STATUS_CANT_ACCESS_DOMAIN_INFO'', ''STATUS_CANT_TERMINATE_SELF'', ''STATUS_INVALID_SERVER_STATE'',
    ''STATUS_INVALID_DOMAIN_STATE'', ''STATUS_INVALID_DOMAIN_ROLE'', ''STATUS_NO_SUCH_DOMAIN'',
    ''STATUS_DOMAIN_EXISTS'', ''STATUS_DOMAIN_LIMIT_EXCEEDED'', ''STATUS_OPLOCK_NOT_GRANTED'',
    ''STATUS_INVALID_OPLOCK_PROTOCOL'', ''STATUS_INTERNAL_DB_CORRUPTION'', ''STATUS_INTERNAL_ERROR'',
    ''STATUS_GENERIC_NOT_MAPPED'', ''STATUS_BAD_DESCRIPTOR_FORMAT'', ''STATUS_INVALID_USER_BUFFER'',
    ''STATUS_UNEXPECTED_IO_ERROR'', ''STATUS_UNEXPECTED_MM_CREATE_ERR'', ''STATUS_UNEXPECTED_MM_MAP_ERROR'',
    ''STATUS_UNEXPECTED_MM_EXTEND_ERR'', ''STATUS_NOT_LOGON_PROCESS'', ''STATUS_LOGON_SESSION_EXISTS'',
    ''STATUS_INVALID_PARAMETER_1'', ''STATUS_INVALID_PARAMETER_2'', ''STATUS_INVALID_PARAMETER_3'',
    ''STATUS_INVALID_PARAMETER_4'', ''STATUS_INVALID_PARAMETER_5'', ''STATUS_INVALID_PARAMETER_6'',
    ''STATUS_INVALID_PARAMETER_7'', ''STATUS_INVALID_PARAMETER_8'', ''STATUS_INVALID_PARAMETER_9'',
    ''STATUS_INVALID_PARAMETER_10'', ''STATUS_INVALID_PARAMETER_11'', ''STATUS_INVALID_PARAMETER_12'',
    ''STATUS_REDIRECTOR_NOT_STARTED'', ''STATUS_REDIRECTOR_STARTED'', ''STATUS_STACK_OVERFLOW'',
    ''STATUS_NO_SUCH_PACKAGE'', ''STATUS_BAD_FUNCTION_TABLE'', ''STATUS_VARIABLE_NOT_FOUND'',
    ''STATUS_DIRECTORY_NOT_EMPTY'', ''STATUS_FILE_CORRUPT_ERROR'', ''STATUS_NOT_A_DIRECTORY'',
    ''STATUS_BAD_LOGON_SESSION_STATE'', ''STATUS_LOGON_SESSION_COLLISION'', ''STATUS_NAME_TOO_LONG'',
    ''STATUS_FILES_OPEN'', ''STATUS_CONNECTION_IN_USE'', ''STATUS_MESSAGE_NOT_FOUND'',
    ''STATUS_PROCESS_IS_TERMINATING'', ''STATUS_INVALID_LOGON_TYPE'']"

definition nt_status_names_4 :: "string list" where
  "nt_status_names_4 = [
    ''STATUS_NO_GUID_TRANSLATION'', ''STATUS_CANNOT_IMPERSONATE'', ''STATUS_IMAGE_ALREADY_LOADED'',
    ''STATUS_ABIOS_NOT_PRESENT'', ''STATUS_ABIOS_LID_NOT_EXIST'', ''STATUS_ABIOS_LID_ALREADY_OWNED'',
    ''STATUS_ABIOS_NOT_LID_OWNER'', ''STATUS_ABIOS_INVALID_COMMAND'', ''STATUS_ABIOS_INVALID_LID'',
    ''STATUS_ABIOS_SELECTOR_NOT_AVAILABLE'', ''STATUS_ABIOS_INVALID_SELECTOR'', ''STATUS_NO_LDT'',
    ''STATUS_INVALID_LDT_SIZE'', ''STATUS_INVALID_LDT_OFFSET'', ''STATUS_INVALID_LDT_DESCRIPTOR'',
    ''STATUS_INVALID_IMAGE_NE_FORMAT'', ''STATUS_RXACT_INVALID_STATE'', ''STATUS_RXACT_COMMIT_FAILURE'',
    ''STATUS_MAPPED_FILE_SIZE_ZERO'', ''STATUS_TOO_MANY_OPENED_FILES'', ''STATUS_CANCELLED'',
    ''STATUS_CANNOT_DELETE'', ''STATUS_INVALID_COMPUTER_NAME'', ''STATUS_FILE_DELETED'', ''STATUS_SPECIAL_ACCOUNT'',
    ''STATUS_SPECIAL_GROUP'', ''STATUS_SPECIAL_USER'', ''STATUS_MEMBERS_PRIMARY_GROUP'', ''STATUS_FILE_CLOSED'',
    ''STATUS_TOO_MANY_THREADS'', ''STATUS_THREAD_NOT_IN_PROCESS'', ''STATUS_TOKEN_ALREADY_IN_USE'',
    ''STATUS_PAGEFILE_QUOTA_EXCEEDED'', ''STATUS_COMMITMENT_LIMIT'', ''STATUS_INVALID_IMAGE_LE_FORMAT'',
    ''STATUS_INVALID_IMAGE_NOT_MZ'', ''STATUS_INVALID_IMAGE_PROTECT'', ''STATUS_INVALID_IMAGE_WIN_16'',
    ''STATUS_LOGON_SERVER_CONFLICT'', ''STATUS_TIME_DIFFERENCE_AT_DC'', ''STATUS_SYNCHRONIZATION_REQUIRED'',
    ''STATUS_DLL_NOT_FOUND'', ''STATUS_OPEN_FAILED'', ''STATUS_IO_PRIVILEGE_FAILED'', ''STATUS_ORDINAL_NOT_FOUND'',
    ''STATUS_ENTRYPOINT_NOT_FOUND'', ''STATUS_CONTROL_C_EXIT'', ''STATUS_LOCAL_DISCONNECT'',
    ''STATUS_REMOTE_DISCONNECT'', ''STATUS_REMOTE_RESOURCES'', ''STATUS_LINK_FAILED'', ''STATUS_LINK_TIMEOUT'',
    ''STATUS_INVALID_CONNECTION'', ''STATUS_INVALID_ADDRESS'', ''STATUS_DLL_INIT_FAILED'',
    ''STATUS_MISSING_SYSTEMFILE'', ''STATUS_UNHANDLED_EXCEPTION'', ''STATUS_APP_INIT_FAILURE'',
    ''STATUS_PAGEFILE_CREATE_FAILED'', ''STATUS_NO_PAGEFILE'', ''STATUS_INVALID_LEVEL'',
    ''STATUS_WRONG_PASSWORD_CORE'', ''STATUS_ILLEGAL_FLOAT_CONTEXT'', ''STATUS_PIPE_BROKEN'',
    ''STATUS_REGISTRY_CORRUPT'', ''STATUS_REGISTRY_IO_FAILED'', ''STATUS_NO_EVENT_PAIR'',
    ''STATUS_UNRECOGNIZED_VOLUME'', ''STATUS_SERIAL_NO_DEVICE_INITED'', ''STATUS_NO_SUCH_ALIAS'',
    ''STATUS_MEMBER_NOT_IN_ALIAS'', ''STATUS_MEMBER_IN_ALIAS'', ''STATUS_ALIAS_EXISTS'',
    ''STATUS_LOGON_NOT_GRANTED'', ''STATUS_TOO_MANY_SECRETS'', ''STATUS_SECRET_TOO_LONG'',
    ''STATUS_INTERNAL_DB_ERROR'', ''STATUS_FULLSCREEN_MODE'', ''STATUS_TOO_MANY_CONTEXT_IDS'',
    ''STATUS_LOGON_TYPE_NOT_GRANTED'', ''STATUS_NOT_REGISTRY_FILE'', ''STATUS_NT_CROSS_ENCRYPTION_REQUIRED'',
    ''STATUS_DOMAIN_CTRLR_CONFIG_ERROR'', ''STATUS_FT_MISSING_MEMBER'', ''STATUS_ILL_FORMED_SERVICE_ENTRY'',
    ''STATUS_ILLEGAL_CHARACTER'', ''STATUS_UNMAPPABLE_CHARACTER'', ''STATUS_UNDEFINED_CHARACTER'',
    ''STATUS_FLOPPY_VOLUME'', ''STATUS_FLOPPY_ID_MARK_NOT_FOUND'', ''STATUS_FLOPPY_WRONG_CYLINDER'',
    ''STATUS_FLOPPY_UNKNOWN_ERROR'', ''STATUS_FLOPPY_BAD_REGISTERS'', ''STATUS_DISK_RECALIBRATE_FAILED'',
    ''STATUS_DISK_OPERATION_FAILED'', ''STATUS_DISK_RESET_FAILED'', ''STATUS_SHARED_IRQ_BUSY'',
    ''STATUS_FT_ORPHANING'', ''STATUS_BIOS_FAILED_TO_CONNECT_INTERRUPT'', ''STATUS_PARTITION_FAILURE'',
    ''STATUS_INVALID_BLOCK_LENGTH'', ''STATUS_DEVICE_NOT_PARTITIONED'', ''STATUS_UNABLE_TO_LOCK_MEDIA'',
    ''STATUS_UNABLE_TO_UNLOAD_MEDIA'', ''STATUS_EOM_OVERFLOW'', ''STATUS_NO_MEDIA'', ''STATUS_NO_SUCH_MEMBER'',
    ''STATUS_INVALID_MEMBER'', ''STATUS_KEY_DELETED'', ''STATUS_NO_LOG_SPACE'', ''STATUS_TOO_MANY_SIDS'',
    ''STATUS_LM_CROSS_ENCRYPTION_REQUIRED'', ''STATUS_KEY_HAS_CHILDREN'', ''STATUS_CHILD_MUST_BE_VOLATILE'',
    ''STATUS_DEVICE_CONFIGURATION_ERROR'', ''STATUS_DRIVER_INTERNAL_ERROR'', ''STATUS_INVALID_DEVICE_STATE'',
    ''STATUS_IO_DEVICE_ERROR'', ''STATUS_DEVICE_PROTOCOL_ERROR'', ''STATUS_BACKUP_CONTROLLER'',
    ''STATUS_LOG_FILE_FULL'', ''STATUS_TOO_LATE'', ''STATUS_NO_TRUST_LSA_SECRET'', ''STATUS_NO_TRUST_SAM_ACCOUNT'',
    ''STATUS_TRUSTED_DOMAIN_FAILURE'', ''STATUS_TRUSTED_RELATIONSHIP_FAILURE'', ''STATUS_EVENTLOG_FILE_CORRUPT'',
    ''STATUS_EVENTLOG_CANT_START'', ''STATUS_TRUST_FAILURE'', ''STATUS_MUTANT_LIMIT_EXCEEDED'',
    ''STATUS_NETLOGON_NOT_STARTED'', ''STATUS_ACCOUNT_EXPIRED'', ''STATUS_POSSIBLE_DEADLOCK'',
    ''STATUS_NETWORK_CREDENTIAL_CONFLICT'', ''STATUS_REMOTE_SESSION_LIMIT'', ''STATUS_EVENTLOG_FILE_CHANGED'',
    ''STATUS_NOLOGON_INTERDOMAIN_TRUST_ACCOUNT'', ''STATUS_NOLOGON_WORKSTATION_TRUST_ACCOUNT'',
    ''STATUS_NOLOGON_SERVER_TRUST_ACCOUNT'', ''STATUS_DOMAIN_TRUST_INCONSISTENT'']"

definition nt_status_names_5 :: "string list" where
  "nt_status_names_5 = [
    ''STATUS_FS_DRIVER_REQUIRED'', ''STATUS_IMAGE_ALREADY_LOADED_AS_DLL'', ''STATUS_NETWORK_OPEN_RESTRICTION'',
    ''STATUS_NO_USER_SESSION_KEY'', ''STATUS_USER_SESSION_DELETED'', ''STATUS_RESOURCE_LANG_NOT_FOUND'',
    ''STATUS_INSUFF_SERVER_RESOURCES'', ''STATUS_INVALID_BUFFER_SIZE'', ''STATUS_INVALID_ADDRESS_COMPONENT'',
    ''STATUS_INVALID_ADDRESS_WILDCARD'', ''STATUS_TOO_MANY_ADDRESSES'', ''STATUS_ADDRESS_ALREADY_EXISTS'',
    ''STATUS_ADDRESS_CLOSED'', ''STATUS_CONNECTION_DISCONNECTED'', ''STATUS_CONNECTION_RESET'',
    ''STATUS_TOO_MANY_NODES'', ''STATUS_TRANSACTION_ABORTED'', ''STATUS_TRANSACTION_TIMED_OUT'',
    ''STATUS_TRANSACTION_NO_RELEASE'', ''STATUS_TRANSACTION_NO_MATCH'', ''STATUS_TRANSACTION_RESPONDED'',
    ''STATUS_TRANSACTION_INVALID_ID'', ''STATUS_TRANSACTION_INVALID_TYPE'', ''STATUS_NOT_SERVER_SESSION'',
    ''STATUS_NOT_CLIENT_SESSION'', ''STATUS_CANNOT_LOAD_REGISTRY_FILE'', ''STATUS_DEBUG_ATTACH_FAILED'',
    ''STATUS_SYSTEM_PROCESS_TERMINATED'', ''STATUS_DATA_NOT_ACCEPTED'', ''STATUS_NO_BROWSER_SERVERS_FOUND'',
    ''STATUS_VDM_HARD_ERROR'', ''STATUS_DRIVER_CANCEL_TIMEOUT'', ''STATUS_REPLY_MESSAGE_MISMATCH'',
    ''STATUS_MAPPED_ALIGNMENT'', ''STATUS_IMAGE_CHECKSUM_MISMATCH'', ''STATUS_LOST_WRITEBEHIND_DATA'',
    ''STATUS_CLIENT_SERVER_PARAMETERS_INVALID'', ''STATUS_PASSWORD_MUST_CHANGE'', ''STATUS_NOT_FOUND'',
    ''STATUS_NOT_TINY_STREAM'', ''STATUS_RECOVERY_FAILURE'', ''STATUS_STACK_OVERFLOW_READ'', ''STATUS_FAIL_CHECK'',
    ''STATUS_DUPLICATE_OBJECTID'', ''STATUS_OBJECTID_EXISTS'', ''STATUS_CONVERT_TO_LARGE'', ''STATUS_RETRY'',
    ''STATUS_FOUND_OUT_OF_SCOPE'', ''STATUS_ALLOCATE_BUCKET'', ''STATUS_PROPSET_NOT_FOUND'',
    ''STATUS_MARSHALL_OVERFLOW'', ''STATUS_INVALID_VARIANT'', ''STATUS_DOMAIN_CONTROLLER_NOT_FOUND'',
    ''STATUS_ACCOUNT_LOCKED_OUT'', ''STATUS_HANDLE_NOT_CLOSABLE'', ''STATUS_CONNECTION_REFUSED'',
    ''STATUS_GRACEFUL_DISCONNECT'', ''STATUS_ADDRESS_ALREADY_ASSOCIATED'', ''STATUS_ADDRESS_NOT_ASSOCIATED'',
    ''STATUS_CONNECTION_INVALID'', ''STATUS_CONNECTION_ACTIVE'', ''STATUS_NETWORK_UNREACHABLE'',
    ''STATUS_HOST_UNREACHABLE'', ''STATUS_PROTOCOL_UNREACHABLE'', ''STATUS_PORT_UNREACHABLE'',
    ''STATUS_REQUEST_ABORTED'', ''STATUS_CONNECTION_ABORTED'', ''STATUS_BAD_COMPRESSION_BUFFER'',
    ''STATUS_USER_MAPPED_FILE'', ''STATUS_AUDIT_FAILED'', ''STATUS_TIMER_RESOLUTION_NOT_SET'',
    ''STATUS_CONNECTION_COUNT_LIMIT'', ''STATUS_LOGIN_TIME_RESTRICTION'', ''STATUS_LOGIN_WKSTA_RESTRICTION'',
    ''STATUS_IMAGE_MP_UP_MISMATCH'', ''STATUS_INSUFFICIENT_LOGON_INFO'', ''STATUS_BAD_DLL_ENTRYPOINT'',
    ''STATUS_BAD_SERVICE_ENTRYPOINT'', ''STATUS_LPC_REPLY_LOST'', ''STATUS_IP_ADDRESS_CONFLICT1'',
    ''STATUS_IP_ADDRESS_CONFLICT2'', ''STATUS_REGISTRY_QUOTA_LIMIT'', ''STATUS_PATH_NOT_COVERED'',
    ''STATUS_NO_CALLBACK_ACTIVE'', ''STATUS_LICENSE_QUOTA_EXCEEDED'', ''STATUS_PWD_TOO_SHORT'',
    ''STATUS_PWD_TOO_RECENT'', ''STATUS_PWD_HISTORY_CONFLICT'', ''STATUS_PLUGPLAY_NO_DEVICE'',
    ''STATUS_UNSUPPORTED_COMPRESSION'', ''STATUS_INVALID_HW_PROFILE'', ''STATUS_INVALID_PLUGPLAY_DEVICE_PATH'',
    ''STATUS_DRIVER_ORDINAL_NOT_FOUND'', ''STATUS_DRIVER_ENTRYPOINT_NOT_FOUND'', ''STATUS_RESOURCE_NOT_OWNED'',
    ''STATUS_TOO_MANY_LINKS'', ''STATUS_QUOTA_LIST_INCONSISTENT'', ''STATUS_FILE_IS_OFFLINE'',
    ''STATUS_EVALUATION_EXPIRATION'', ''STATUS_ILLEGAL_DLL_RELOCATION'', ''STATUS_LICENSE_VIOLATION'',
    ''STATUS_DLL_INIT_FAILED_LOGOFF'', ''STATUS_DRIVER_UNABLE_TO_LOAD'', ''STATUS_DFS_UNAVAILABLE'',
    ''STATUS_VOLUME_DISMOUNTED'', ''STATUS_WX86_INTERNAL_ERROR'', ''STATUS_WX86_FLOAT_STACK_CHECK'',
    ''STATUS_VALIDATE_CONTINUE'', ''STATUS_NO_MATCH'', ''STATUS_NO_MORE_MATCHES'', ''STATUS_NOT_A_REPARSE_POINT'',
    ''STATUS_IO_REPARSE_TAG_INVALID'', ''STATUS_IO_REPARSE_TAG_MISMATCH'', ''STATUS_IO_REPARSE_DATA_INVALID'',
    ''STATUS_IO_REPARSE_TAG_NOT_HANDLED'', ''STATUS_REPARSE_POINT_NOT_RESOLVED'',
    ''STATUS_DIRECTORY_IS_A_REPARSE_POINT'', ''STATUS_RANGE_LIST_CONFLICT'', ''STATUS_SOURCE_ELEMENT_EMPTY'',
    ''STATUS_DESTINATION_ELEMENT_FULL'', ''STATUS_ILLEGAL_ELEMENT_ADDRESS'', ''STATUS_MAGAZINE_NOT_PRESENT'',
    ''STATUS_REINITIALIZATION_NEEDED'', ''STATUS_DEVICE_REQUIRES_CLEANING'', ''STATUS_DEVICE_DOOR_OPEN'',
    ''STATUS_ENCRYPTION_FAILED'', ''STATUS_DECRYPTION_FAILED'', ''STATUS_RANGE_NOT_FOUND'',
    ''STATUS_NO_RECOVERY_POLICY'', ''STATUS_NO_EFS'', ''STATUS_WRONG_EFS'', ''STATUS_NO_USER_KEYS'',
    ''STATUS_FILE_NOT_ENCRYPTED'', ''STATUS_NOT_EXPORT_FORMAT'', ''STATUS_FILE_ENCRYPTED'', ''STATUS_WAKE_SYSTEM'',
    ''STATUS_WMI_GUID_NOT_FOUND'', ''STATUS_WMI_INSTANCE_NOT_FOUND'', ''STATUS_WMI_ITEMID_NOT_FOUND'',
    ''STATUS_WMI_TRY_AGAIN'']"

definition nt_status_names_6 :: "string list" where
  "nt_status_names_6 = [
    ''STATUS_SHARED_POLICY'', ''STATUS_POLICY_OBJECT_NOT_FOUND'', ''STATUS_POLICY_ONLY_IN_DS'',
    ''STATUS_VOLUME_NOT_UPGRADED'', ''STATUS_REMOTE_STORAGE_NOT_ACTIVE'', ''STATUS_REMOTE_STORAGE_MEDIA_ERROR'',
    ''STATUS_NO_TRACKING_SERVICE'', ''STATUS_SERVER_SID_MISMATCH'', ''STATUS_DS_NO_ATTRIBUTE_OR_VALUE'',
    ''STATUS_DS_INVALID_ATTRIBUTE_SYNTAX'', ''STATUS_DS_ATTRIBUTE_TYPE_UNDEFINED'',
    ''STATUS_DS_ATTRIBUTE_OR_VALUE_EXISTS'', ''STATUS_DS_BUSY'', ''STATUS_DS_UNAVAILABLE'',
    ''STATUS_DS_NO_RIDS_ALLOCATED'', ''STATUS_DS_NO_MORE_RIDS'', ''STATUS_DS_INCORRECT_ROLE_OWNER'',
    ''STATUS_DS_RIDMGR_INIT_ERROR'', ''STATUS_DS_OBJ_CLASS_VIOLATION'', ''STATUS_DS_CANT_ON_NON_LEAF'',
    ''STATUS_DS_CANT_ON_RDN'', ''STATUS_DS_CANT_MOD_OBJ_CLASS'', ''STATUS_DS_CROSS_DOM_MOVE_FAILED'',
    ''STATUS_DS_GC_NOT_AVAILABLE'', ''STATUS_DIRECTORY_SERVICE_REQUIRED'', ''STATUS_REPARSE_ATTRIBUTE_CONFLICT'',
    ''STATUS_CANT_ENABLE_DENY_ONLY'', ''STATUS_FLOAT_MULTIPLE_FAULTS'', ''STATUS_FLOAT_MULTIPLE_TRAPS'',
    ''STATUS_DEVICE_REMOVED'', ''STATUS_JOURNAL_DELETE_IN_PROGRESS'', ''STATUS_JOURNAL_NOT_ACTIVE'',
    ''STATUS_NOINTERFACE'', ''STATUS_DS_ADMIN_LIMIT_EXCEEDED'', ''STATUS_DRIVER_FAILED_SLEEP'',
    ''STATUS_MUTUAL_AUTHENTICATION_FAILED'', ''STATUS_CORRUPT_SYSTEM_FILE'', ''STATUS_DATATYPE_MISALIGNMENT_ERROR'',
    ''STATUS_WMI_READ_ONLY'', ''STATUS_WMI_SET_FAILURE'', ''STATUS_COMMITMENT_MINIMUM'',
    ''STATUS_REG_NAT_CONSUMPTION'', ''STATUS_TRANSPORT_FULL'', ''STATUS_DS_SAM_INIT_FAILURE'',
    ''STATUS_ONLY_IF_CONNECTED'', ''STATUS_DS_SENSITIVE_GROUP_VIOLATION'', ''STATUS_PNP_RESTART_ENUMERATION'',
    ''STATUS_JOURNAL_ENTRY_DELETED'', ''STATUS_DS_CANT_MOD_PRIMARYGROUPID'', ''STATUS_SYSTEM_IMAGE_BAD_SIGNATURE'',
    ''STATUS_PNP_REBOOT_REQUIRED'', ''STATUS_POWER_STATE_INVALID'', ''STATUS_DS_INVALID_GROUP_TYPE'',
    ''STATUS_DS_NO_NEST_GLOBALGROUP_IN_MIXEDDOMAIN'', ''STATUS_DS_NO_NEST_LOCALGROUP_IN_MIXEDDOMAIN'',
    ''STATUS_DS_GLOBAL_CANT_HAVE_LOCAL_MEMBER'', ''STATUS_DS_GLOBAL_CANT_HAVE_UNIVERSAL_MEMBER'',
    ''STATUS_DS_UNIVERSAL_CANT_HAVE_LOCAL_MEMBER'', ''STATUS_DS_GLOBAL_CANT_HAVE_CROSSDOMAIN_MEMBER'',
    ''STATUS_DS_LOCAL_CANT_HAVE_CROSSDOMAIN_LOCAL_MEMBER'', ''STATUS_DS_HAVE_PRIMARY_MEMBERS'',
    ''STATUS_WMI_NOT_SUPPORTED'', ''STATUS_INSUFFICIENT_POWER'', ''STATUS_SAM_NEED_BOOTKEY_PASSWORD'',
    ''STATUS_SAM_NEED_BOOTKEY_FLOPPY'', ''STATUS_DS_CANT_START'', ''STATUS_DS_INIT_FAILURE'',
    ''STATUS_SAM_INIT_FAILURE'', ''STATUS_DS_GC_REQUIRED'', ''STATUS_DS_LOCAL_MEMBER_OF_LOCAL_ONLY'',
    ''STATUS_DS_NO_FPO_IN_UNIVERSAL_GROUPS'', ''STATUS_DS_MACHINE_ACCOUNT_QUOTA_EXCEEDED'',
    ''STATUS_MULTIPLE_FAULT_VIOLATION'', ''STATUS_CURRENT_DOMAIN_NOT_ALLOWED'', ''STATUS_CANNOT_MAKE'',
    ''STATUS_SYSTEM_SHUTDOWN'', ''STATUS_DS_INIT_FAILURE_CONSOLE'', ''STATUS_DS_SAM_INIT_FAILURE_CONSOLE'',
    ''STATUS_UNFINISHED_CONTEXT_DELETED'', ''STATUS_NO_TGT_REPLY'', ''STATUS_OBJECTID_NOT_FOUND'',
    ''STATUS_NO_IP_ADDRESSES'', ''STATUS_WRONG_CREDENTIAL_HANDLE'', ''STATUS_CRYPTO_SYSTEM_INVALID'',
    ''STATUS_MAX_REFERRALS_EXCEEDED'', ''STATUS_MUST_BE_KDC'', ''STATUS_STRONG_CRYPTO_NOT_SUPPORTED'',
    ''STATUS_TOO_MANY_PRINCIPALS'', ''STATUS_NO_PA_DATA'', ''STATUS_PKINIT_NAME_MISMATCH'',
    ''STATUS_SMARTCARD_LOGON_REQUIRED'', ''STATUS_KDC_INVALID_REQUEST'', ''STATUS_KDC_UNABLE_TO_REFER'',
    ''STATUS_KDC_UNKNOWN_ETYPE'', ''STATUS_SHUTDOWN_IN_PROGRESS'', ''STATUS_SERVER_SHUTDOWN_IN_PROGRESS'',
    ''STATUS_NOT_SUPPORTED_ON_SBS'', ''STATUS_WMI_GUID_DISCONNECTED'', ''STATUS_WMI_ALREADY_DISABLED'',
    ''STATUS_WMI_ALREADY_ENABLED'', ''STATUS_MFT_TOO_FRAGMENTED'', ''STATUS_COPY_PROTECTION_FAILURE'',
    ''STATUS_CSS_AUTHENTICATION_FAILURE'', ''STATUS_CSS_KEY_NOT_PRESENT'', ''STATUS_CSS_KEY_NOT_ESTABLISHED'',
    ''STATUS_CSS_SCRAMBLED_SECTOR'', ''STATUS_CSS_REGION_MISMATCH'', ''STATUS_CSS_RESETS_EXHAUSTED'',
    ''STATUS_PKINIT_FAILURE'', ''STATUS_SMARTCARD_SUBSYSTEM_FAILURE'', ''STATUS_NO_KERB_KEY'', ''STATUS_HOST_DOWN'',
    ''STATUS_UNSUPPORTED_PREAUTH'', ''STATUS_EFS_ALG_BLOB_TOO_BIG'', ''STATUS_PORT_NOT_SET'',
    ''STATUS_DEBUGGER_INACTIVE'', ''STATUS_DS_VERSION_CHECK_FAILURE'', ''STATUS_AUDITING_DISABLED'',
    ''STATUS_PRENT4_MACHINE_ACCOUNT'', ''STATUS_DS_AG_CANT_HAVE_UNIVERSAL_MEMBER'', ''STATUS_INVALID_IMAGE_WIN_32'',
    ''STATUS_INVALID_IMAGE_WIN_64'', ''STATUS_BAD_BINDINGS'', ''STATUS_NETWORK_SESSION_EXPIRED'',
    ''STATUS_APPHELP_BLOCK'', ''STATUS_ALL_SIDS_FILTERED'', ''STATUS_NOT_SAFE_MODE_DRIVER'',
    ''STATUS_ACCESS_DISABLED_BY_POLICY_DEFAULT'', ''STATUS_ACCESS_DISABLED_BY_POLICY_PATH'',
    ''STATUS_ACCESS_DISABLED_BY_POLICY_PUBLISHER'', ''STATUS_ACCESS_DISABLED_BY_POLICY_OTHER'',
    ''STATUS_FAILED_DRIVER_ENTRY'', ''STATUS_DEVICE_ENUMERATION_ERROR'', ''STATUS_WAIT_FOR_OPLOCK'',
    ''STATUS_MOUNT_POINT_NOT_RESOLVED'', ''STATUS_INVALID_DEVICE_OBJECT_PARAMETER'', ''STATUS_MCA_OCCURED'',
    ''STATUS_DRIVER_BLOCKED_CRITICAL'', ''STATUS_DRIVER_BLOCKED'', ''STATUS_DRIVER_DATABASE_ERROR'']"

definition nt_status_names_7 :: "string list" where
  "nt_status_names_7 = [
    ''STATUS_SYSTEM_HIVE_TOO_LARGE'', ''STATUS_INVALID_IMPORT_OF_NON_DLL'', ''STATUS_DS_SHUTTING_DOWN'',
    ''STATUS_NO_SECRETS'', ''STATUS_ACCESS_DISABLED_NO_SAFER_UI_BY_POLICY'', ''STATUS_FAILED_STACK_SWITCH'',
    ''STATUS_HEAP_CORRUPTION'', ''STATUS_SMARTCARD_WRONG_PIN'', ''STATUS_SMARTCARD_CARD_BLOCKED'',
    ''STATUS_SMARTCARD_CARD_NOT_AUTHENTICATED'', ''STATUS_SMARTCARD_NO_CARD'', ''STATUS_SMARTCARD_NO_KEY_CONTAINER'',
    ''STATUS_SMARTCARD_NO_CERTIFICATE'', ''STATUS_SMARTCARD_NO_KEYSET'', ''STATUS_SMARTCARD_IO_ERROR'',
    ''STATUS_DOWNGRADE_DETECTED'', ''STATUS_SMARTCARD_CERT_REVOKED'', ''STATUS_ISSUING_CA_UNTRUSTED'',
    ''STATUS_REVOCATION_OFFLINE_C'', ''STATUS_PKINIT_CLIENT_FAILURE'', ''STATUS_SMARTCARD_CERT_EXPIRED'',
    ''STATUS_DRIVER_FAILED_PRIOR_UNLOAD'', ''STATUS_SMARTCARD_SILENT_CONTEXT'',
    ''STATUS_PER_USER_TRUST_QUOTA_EXCEEDED'', ''STATUS_ALL_USER_TRUST_QUOTA_EXCEEDED'',
    ''STATUS_USER_DELETE_TRUST_QUOTA_EXCEEDED'', ''STATUS_DS_NAME_NOT_UNIQUE'', ''STATUS_DS_DUPLICATE_ID_FOUND'',
    ''STATUS_DS_GROUP_CONVERSION_ERROR'', ''STATUS_VOLSNAP_PREPARE_HIBERNATE'', ''STATUS_USER2USER_REQUIRED'',
    ''STATUS_STACK_BUFFER_OVERRUN'', ''STATUS_NO_S4U_PROT_SUPPORT'', ''STATUS_CROSSREALM_DELEGATION_FAILURE'',
    ''STATUS_REVOCATION_OFFLINE_KDC'', ''STATUS_ISSUING_CA_UNTRUSTED_KDC'', ''STATUS_KDC_CERT_EXPIRED'',
    ''STATUS_KDC_CERT_REVOKED'', ''STATUS_PARAMETER_QUOTA_EXCEEDED'', ''STATUS_HIBERNATION_FAILURE'',
    ''STATUS_DELAY_LOAD_FAILED'', ''STATUS_AUTHENTICATION_FIREWALL_FAILED'', ''STATUS_VDM_DISALLOWED'',
    ''STATUS_HUNG_DISPLAY_DRIVER_THREAD'', ''STATUS_INSUFFICIENT_RESOURCE_FOR_SPECIFIED_SHARED_SECTION_SIZE'',
    ''STATUS_INVALID_CRUNTIME_PARAMETER'', ''STATUS_NTLM_BLOCKED'', ''STATUS_ASSERTION_FAILURE'',
    ''STATUS_VERIFIER_STOP'', ''STATUS_CALLBACK_POP_STACK'', ''STATUS_INCOMPATIBLE_DRIVER_BLOCKED'',
    ''STATUS_HIVE_UNLOADED'', ''STATUS_COMPRESSION_DISABLED'', ''STATUS_FILE_SYSTEM_LIMITATION'',
    ''STATUS_INVALID_IMAGE_HASH'', ''STATUS_NOT_CAPABLE'', ''STATUS_REQUEST_OUT_OF_SEQUENCE'',
    ''STATUS_IMPLEMENTATION_LIMIT'', ''STATUS_ELEVATION_REQUIRED'', ''STATUS_BEYOND_VDL'',
    ''STATUS_ENCOUNTERED_WRITE_IN_PROGRESS'', ''STATUS_PTE_CHANGED'', ''STATUS_PURGE_FAILED'',
    ''STATUS_CRED_REQUIRES_CONFIRMATION'', ''STATUS_CS_ENCRYPTION_INVALID_SERVER_RESPONSE'',
    ''STATUS_CS_ENCRYPTION_UNSUPPORTED_SERVER'', ''STATUS_CS_ENCRYPTION_EXISTING_ENCRYPTED_FILE'',
    ''STATUS_CS_ENCRYPTION_NEW_ENCRYPTED_FILE'', ''STATUS_CS_ENCRYPTION_FILE_NOT_CSE'', ''STATUS_INVALID_LABEL'',
    ''STATUS_DRIVER_PROCESS_TERMINATED'', ''STATUS_AMBIGUOUS_SYSTEM_DEVICE'', ''STATUS_SYSTEM_DEVICE_NOT_FOUND'',
    ''STATUS_RESTART_BOOT_APPLICATION'', ''STATUS_INVALID_TASK_NAME'', ''STATUS_INVALID_TASK_INDEX'',
    ''STATUS_THREAD_ALREADY_IN_TASK'', ''STATUS_CALLBACK_BYPASS'', ''STATUS_PORT_CLOSED'', ''STATUS_MESSAGE_LOST'',
    ''STATUS_INVALID_MESSAGE'', ''STATUS_REQUEST_CANCELED'', ''STATUS_RECURSIVE_DISPATCH'',
    ''STATUS_LPC_RECEIVE_BUFFER_EXPECTED'', ''STATUS_LPC_INVALID_CONNECTION_USAGE'',
    ''STATUS_LPC_REQUESTS_NOT_ALLOWED'', ''STATUS_RESOURCE_IN_USE'', ''STATUS_HARDWARE_MEMORY_ERROR'',
    ''STATUS_THREADPOOL_HANDLE_EXCEPTION'', ''STATUS_THREADPOOL_SET_EVENT_ON_COMPLETION_FAILED'',
    ''STATUS_THREADPOOL_RELEASE_SEMAPHORE_ON_COMPLETION_FAILED'',
    ''STATUS_THREADPOOL_RELEASE_MUTEX_ON_COMPLETION_FAILED'',
    ''STATUS_THREADPOOL_FREE_LIBRARY_ON_COMPLETION_FAILED'', ''STATUS_THREADPOOL_RELEASED_DURING_OPERATION'',
    ''STATUS_CALLBACK_RETURNED_WHILE_IMPERSONATING'', ''STATUS_APC_RETURNED_WHILE_IMPERSONATING'',
    ''STATUS_PROCESS_IS_PROTECTED'', ''STATUS_MCA_EXCEPTION'', ''STATUS_CERTIFICATE_MAPPING_NOT_UNIQUE'',
    ''STATUS_SYMLINK_CLASS_DISABLED'', ''STATUS_INVALID_IDN_NORMALIZATION'', ''STATUS_NO_UNICODE_TRANSLATION'',
    ''STATUS_ALREADY_REGISTERED'', ''STATUS_CONTEXT_MISMATCH'', ''STATUS_PORT_ALREADY_HAS_COMPLETION_LIST'',
    ''STATUS_CALLBACK_RETURNED_THREAD_PRIORITY'', ''STATUS_INVALID_THREAD'',
    ''STATUS_CALLBACK_RETURNED_TRANSACTION'', ''STATUS_CALLBACK_RETURNED_LDR_LOCK'',
    ''STATUS_CALLBACK_RETURNED_LANG'', ''STATUS_CALLBACK_RETURNED_PRI_BACK'',
    ''STATUS_CALLBACK_RETURNED_THREAD_AFFINITY'', ''STATUS_DISK_REPAIR_DISABLED'',
    ''STATUS_DS_DOMAIN_RENAME_IN_PROGRESS'', ''STATUS_DISK_QUOTA_EXCEEDED'', ''STATUS_DATA_LOST_REPAIR'',
    ''STATUS_CONTENT_BLOCKED'', ''STATUS_BAD_CLUSTERS'', ''STATUS_VOLUME_DIRTY'', ''STATUS_FILE_CHECKED_OUT'',
    ''STATUS_CHECKOUT_REQUIRED'', ''STATUS_BAD_FILE_TYPE'', ''STATUS_FILE_TOO_LARGE'',
    ''STATUS_FORMS_AUTH_REQUIRED'', ''STATUS_VIRUS_INFECTED'', ''STATUS_VIRUS_DELETED'', ''STATUS_BAD_MCFG_TABLE'']"

definition scsi_status_names :: "string list" where
  "scsi_status_names = [
    ''SCSISTAT_GOOD'', ''SCSISTAT_CHECK_CONDITION'', ''SCSISTAT_CONDITION_MET'', ''SCSISTAT_BUSY'',
    ''SCSISTAT_INTERMEDIATE'', ''SCSISTAT_INTERMEDIATE_COND_MET'', ''SCSISTAT_RESERVATION_CONFLICT'',
    ''SCSISTAT_COMMAND_TERMINATED'', ''SCSISTAT_QUEUE_FULL'']"

definition DeviceControlNames :: "bool \<Rightarrow> string list" where
  "DeviceControlNames vista = ioctl_names @ (if vista then ioctl_names_vista else [])"

definition nt_status_names :: "string list" where
  "nt_status_names = concat [nt_status_names_1, nt_status_names_2, nt_status_names_3, nt_status_names_4,
     nt_status_names_5, nt_status_names_6, nt_status_names_7]"

text \<open>The codes \<open>names.h\<close> defines itself.\<close>

definition own_ioctls :: "(string \<times> u32) list" where
  "own_ioctls = [(''IOCTL_STORAGE_518c'', 0x2d518c), (''IOCTL_STORAGE_5190'', 0x2d5190), (''IOCTL_MOUNTMGR_0004'', 0x4d0004),
     (''IOCTL_MOUNTMGR_0010'', 0x4d0010), (''IOCTL_MOUNTMGR_0014'', 0x4d0014), (''IOCTL_VOLSNAP_0018'', 0x530018)]"

section \<open>The functions\<close>

text \<open>\<open>CASERETURN\<close>: the label is looked up by its value and its text is returned.\<close>

definition case_return :: "codes \<Rightarrow> string list \<Rightarrow> u32 \<Rightarrow> string option" where
  "case_return code labels x = find (\<lambda>n. code n = x) labels"

definition name_or :: "string \<Rightarrow> string option \<Rightarrow> string" where
  "name_or d r = (case r of Some n \<Rightarrow> n | None \<Rightarrow> d)"

definition PowerStateName :: "codes \<Rightarrow> u32 \<Rightarrow> u32 \<Rightarrow> string" where
  "PowerStateName code Type State =
     (if Type = code ''SystemPowerState'' then name_or ''SystemState=UNKNOWN'' (case_return code system_state_names State)
      else name_or ''DeviceState=UNKNOWN'' (case_return code device_state_names State))"

definition PowerActionName :: "codes \<Rightarrow> u32 \<Rightarrow> string" where
  "PowerActionName code a = name_or ''PowerAction=UNKNOWN'' (case_return code power_action_names a)"

definition DeviceControlName :: "codes \<Rightarrow> bool \<Rightarrow> u32 \<Rightarrow> string" where
  "DeviceControlName code vista c = name_or ''IoControlCode=UNKNOWN'' (case_return code (DeviceControlNames vista) c)"

definition DeviceTypeName :: "codes \<Rightarrow> u32 \<Rightarrow> string" where
  "DeviceTypeName code t = name_or ''DeviceType=UNKNOWN'' (case_return code device_type_names t)"

definition SrbName :: "codes \<Rightarrow> u32 \<Rightarrow> u32 \<Rightarrow> string" where
  "SrbName code Function ScsiOp =
     (if Function = code ''SRB_FUNCTION_EXECUTE_SCSI'' then name_or ''ScsiOp=UNKNOWN'' (case_return code scsi_op_names ScsiOp)
      else name_or ''SrbFunction=UNKNOWN'' (case_return code srb_function_names Function))"

text \<open>The two flags in the status of a request are masked off first.\<close>

definition plain_status :: "codes \<Rightarrow> u32 \<Rightarrow> u32" where
  "plain_status code s =
     and (and s (not (code ''SRB_STATUS_QUEUE_FROZEN''))) (not (code ''SRB_STATUS_AUTOSENSE_VALID''))"

definition SrbStatusName :: "codes \<Rightarrow> u32 \<Rightarrow> string" where
  "SrbStatusName code s = name_or ''SrbStatus=UNKNOWN'' (case_return code srb_status_names (plain_status code s))"

definition ScsiStatusName :: "codes \<Rightarrow> u32 \<Rightarrow> string" where
  "ScsiStatusName code s = name_or ''ScsiStatus=UNKNOWN'' (case_return code scsi_status_names s)"

definition ScsiSenseKeyName :: "codes \<Rightarrow> u32 \<Rightarrow> string" where
  "ScsiSenseKeyName code k = name_or ''SenseKey=UNKNOWN'' (case_return code sense_key_names k)"

definition ScsiASCName :: "codes \<Rightarrow> u32 \<Rightarrow> string" where
  "ScsiASCName code a = name_or ''ASC=UNKNOWN'' (case_return code asc_names a)"

text \<open>
  The stack location of an \<open>IRP\<close>: its two functions and, for the kinds that have them, the control code and
  the request block (function and first byte of the command). The labels are tried in the order of the source.
\<close>

definition IrpStackName :: "codes \<Rightarrow> bool \<Rightarrow> u32 \<Rightarrow> u32 \<Rightarrow> u32 \<Rightarrow> u32 \<times> u32 \<Rightarrow> string" where
  "IrpStackName code vista Major Minor IoControlCode Srb =
     (case case_return code major_names Major of Some n \<Rightarrow> n
      | None \<Rightarrow>
        if Major = code ''IRP_MJ_SYSTEM_CONTROL''
        then name_or ''IRP_MJ_SYSTEM_CONTROL MinorFunction=UNKNOWN'' (case_return code wmi_minor_names Minor)
        else if Major = code ''IRP_MJ_PNP''
        then name_or ''IRP_MJ_PNP MinorFunction=UNKNOWN'' (case_return code pnp_minor_names Minor)
        else if Major = code ''IRP_MJ_POWER''
        then name_or ''IRP_MJ_POWER MinorFunction=UNKNOWN'' (case_return code power_minor_names Minor)
        else if Major = code ''IRP_MJ_DEVICE_CONTROL'' then DeviceControlName code vista IoControlCode
        else if Major = code ''IRP_MJ_SCSI'' then SrbName code (fst Srb) (snd Srb)
        else ''MajorFunction=UNKNOWN'')"

definition NtStatusName :: "codes \<Rightarrow> u32 \<Rightarrow> string" where
  "NtStatusName code s = name_or ''NtStatus=UNKNOWN'' (case_return code nt_status_names s)"

section \<open>What a name says\<close>

text \<open>\<open>n\<close> is the label of the code \<open>x\<close>, or, when no label has that code, the text \<open>d\<close>.\<close>

definition tells :: "codes \<Rightarrow> string list \<Rightarrow> string \<Rightarrow> u32 \<Rightarrow> string \<Rightarrow> bool" where
  "tells code labels d x n \<longleftrightarrow> (if x \<in> code ` set labels then n \<in> set labels \<and> code n = x else n = d)"

lemma name_or_tells: "tells code labels d x (name_or d (case_return code labels x))"
proof (cases "case_return code labels x")
  case None
  then have "x \<notin> code ` set labels" by (auto simp: case_return_def find_None_iff)
  then show ?thesis using None by (simp add: tells_def name_or_def)
next
  case (Some n)
  then have "n \<in> set labels" "code n = x" by (auto simp: case_return_def find_Some_iff in_set_conv_nth)
  then show ?thesis using Some by (auto simp: tells_def name_or_def)
qed

text \<open>Masking twice changes nothing more, so a status and the status without its flags have the same name.\<close>

lemma plain_status_twice: "plain_status code (plain_status code s) = plain_status code s"
  unfolding plain_status_def by (rule bit_word_eqI) (auto simp: bit_simps)

section \<open>Property\<close>


end
