(* ===== verification/Panel.thy ===== *)
theory Panel
  imports ConfigProps
begin

text \<open>
  \<open>app/fdlvlctl.cpp\<close>: the control program. It reads the state of a device with \<open>MODE_SENSE\<close>, lets the user
  change the settings in a dialog, and sends them with \<open>MODE_SELECT\<close>. The answers of Windows (the volume, the
  message boxes, the random numbers) and the driver behind \<open>DeviceIoControl\<close> are parameters. The last section puts
  the program and the driver together.
\<close>

section \<open>The globals\<close>

record panel =
  p_max_size :: int
  p_mode :: int
  p_size :: int
  p_policy :: int
  p_timeout :: int
  p_flush :: int
  p_enable :: bool
  p_m_enable :: bool
  c_enable :: bool
  c_size :: int
  c_policy :: int
  c_timeout :: int
  c_flush :: int

definition panel0 :: panel where
  "panel0 = \<lparr>p_max_size = 16000, p_mode = 0, p_size = 0, p_policy = 0, p_timeout = 0, p_flush = 0, p_enable = False,
     p_m_enable = False, c_enable = False, c_size = 0, c_policy = 0, c_timeout = 0, c_flush = 0\<rparr>"

text \<open>
  A call of \<open>DeviceIoControl\<close> with \<open>IOCTL_SCSI_PASS_THROUGH\<close>: the request with the lengths of its two buffers; whether it
  succeeds, \<open>BytesReturned\<close> and the buffer afterwards.
\<close>

type_synonym ioctl = "spt \<Rightarrow> nat \<Rightarrow> nat \<Rightarrow> bool \<times> nat \<times> spt"

definition SENSEINFOLENGTH :: nat where "SENSEINFOLENGTH = 32"

section \<open>Reading the state of the device\<close>

definition read_request :: "nat \<Rightarrow> spt" where
  "read_request hdr = \<lparr>sp_op = SCSIOP_MODE_SENSE, sp_Cdb = (\<lambda>i. if i \<le> 4 then [0x1a, 8, 40, 41, MODE_BYTES] ! i else 0),
     sp_DataTransferLength = MODE_BYTES, sp_DataBufferOffset = hdr + SENSEINFOLENGTH, sp_ScsiStatus = SCSISTAT_GOOD,
     sp_SenseInfoLength = SENSEINFOLENGTH, sp_ModeBuffer = replicate MODE_WORDS 0\<rparr>"

text \<open>The weights are \<open>ULONG\<close>: the product and the sum are computed in 32 bits.\<close>

definition policy_of :: "mode_buffer \<Rightarrow> int \<Rightarrow> int" where
  "policy_of b old =
     (let s = mb_WEIGHT_LIFE b + mb_WEIGHT_SPEED b;
          p = (if s \<noteq> 0 then sint (100 * mb_WEIGHT_LIFE b div s) else old);
          p1 = (if p < 0 then 0 else p)
      in if 100 < p1 then 100 else p1)"

definition panel_read :: "nat \<Rightarrow> ioctl \<Rightarrow> panel \<Rightarrow> bool \<times> panel" where
  "panel_read hdr call p =
     (let Length = hdr + SENSEINFOLENGTH + MODE_BYTES;
          (ok, BytesReturned, sp) = call (read_request hdr) hdr Length in
      if \<not> ok then (False, p)
      else if BytesReturned < Length then (False, p)
      else let (valid, ws) = VerifyChecksum128 (sp_ModeBuffer sp); b = mode_of ws in
      if \<not> valid then (False, p)
      else if mb_Version b \<noteq> 1 \<or> mb_Revision b \<noteq> 1 then (False, p)
      else (True, p\<lparr>p_max_size := sint (mb_MAX_MAP b div 256), p_mode := uint (mb_Mode b),
              p_size := sint (mb_SIZE_OF_MAP b div 256), p_timeout := uint (mb_CacheTimeout b),
              p_flush := uint (mb_FlushFaithfully b), p_policy := policy_of b (p_policy p)\<rparr>))"

section \<open>Sending the settings\<close>

definition settings_buffer :: "nat \<Rightarrow> int \<Rightarrow> panel \<Rightarrow> mode_buffer" where
  "settings_buffer m sz p =
     \<lparr>mb_ModeDataLength = of_nat (MODE_BYTES - 1), mb_MediumType = 0, mb_Reserved = 0, mb_BlockDescriptorLength = 0,
      mb_PageCode = 40, mb_PageLength = of_nat (MODE_BYTES - 6), mb_Version = 1, mb_Revision = 1, mb_Mode = of_nat m,
      mb_CacheTimeout = of_int (c_timeout p), mb_FlushFaithfully = of_int (c_flush p), mb_Padding = 0, mb_MAX_MAP = 0,
      mb_SIZE_OF_MAP = of_int sz, mb_WEIGHT_LIFE = of_int (c_policy p), mb_WEIGHT_SPEED = of_int (100 - c_policy p),
      mb_Signature = 0, mb_Magic = 0\<rparr>"

text \<open>\<open>write\<close>: \<open>rnd\<close> are the two numbers of \<open>CryptGenRandom\<close>, if the context could be had.\<close>

definition format_buffer :: "(u32 \<times> u32) option \<Rightarrow> panel \<Rightarrow> mode_buffer" where
  "format_buffer rnd p =
     (let b = settings_buffer (mode_num VLTL_MODE_FORMAT) (if c_enable p then c_size p * 256 else 0) p in
      case rnd of None \<Rightarrow> b | Some (sig, mag) \<Rightarrow> b\<lparr>mb_Signature := sig, mb_Magic := mag\<rparr>)"

text \<open>\<open>write_config\<close>.\<close>

definition config_buffer :: "panel \<Rightarrow> mode_buffer" where
  "config_buffer p = settings_buffer (mode_num VLTL_MODE_CONFIG) (c_size p * 256) p"

definition write_request :: "nat \<Rightarrow> mode_buffer \<Rightarrow> spt" where
  "write_request hdr b = \<lparr>sp_op = SCSIOP_MODE_SELECT, sp_Cdb = (\<lambda>i. if i \<le> 4 then [0x15, 0, 0, 0, MODE_BYTES] ! i else 0),
     sp_DataTransferLength = MODE_BYTES, sp_DataBufferOffset = hdr + SENSEINFOLENGTH, sp_ScsiStatus = SCSISTAT_GOOD,
     sp_SenseInfoLength = SENSEINFOLENGTH, sp_ModeBuffer = ProduceChecksum128 (mode_words b @ [0, 0, 0, 0])\<rparr>"

definition panel_write :: "nat \<Rightarrow> ioctl \<Rightarrow> mode_buffer \<Rightarrow> bool" where
  "panel_write hdr call b = fst (call (write_request hdr b) (hdr + SENSEINFOLENGTH + MODE_BYTES) hdr)"

section \<open>The dialog\<close>

datatype state_text = STATE_INACTIVE | STATE_ACTIVE | STATE_NOMEDIA | STATE_ERROR | STATE_PREPARING

definition init_switch :: "int \<Rightarrow> state_text \<times> bool \<times> bool" where
  "init_switch m =
     (if m = int (mode_num VLTL_MODE_DIRECT) then (STATE_INACTIVE, False, True)
      else if m = int (mode_num VLTL_MODE_ACTIVE) then (STATE_ACTIVE, True, True)
      else if m = int (mode_num VLTL_MODE_INITIAL) then (STATE_NOMEDIA, False, False)
      else if m = int (mode_num VLTL_MODE_ERROR) then (STATE_ERROR, True, True)
      else (STATE_PREPARING, True, False))"

definition panel_init :: "panel \<Rightarrow> state_text \<times> panel" where
  "panel_init p =
     (let (t, e, m) = init_switch (p_mode p) in
      (t, p\<lparr>p_enable := e, p_m_enable := m, c_enable := e, c_size := p_size p, c_policy := p_policy p,
            c_timeout := p_timeout p, c_flush := p_flush p\<rparr>))"

text \<open>
  \<open>update\<close> brings the controls in line with the settings: what they show afterwards, and which of them can be
  used. A timeout of 0 is shown as a word.
\<close>

datatype cache_text = Never | Seconds int

record display =
  d_size :: int
  d_policy :: int
  d_master :: bool
  d_cache :: cache_text
  d_flush :: int
  d_master_on :: bool
  d_settings_on :: bool
  d_apply_on :: bool

definition update_panel :: "panel \<Rightarrow> display" where
  "update_panel p =
     \<lparr>d_size = c_size p, d_policy = c_policy p, d_master = c_enable p,
      d_cache = (if c_timeout p = 0 then Never else Seconds (c_timeout p)), d_flush = c_flush p,
      d_master_on = p_m_enable p, d_settings_on = (c_enable p \<and> p_m_enable p),
      d_apply_on = (c_enable p \<noteq> p_enable p \<or>
        (p_enable p \<and> (c_size p \<noteq> p_size p \<or> c_policy p \<noteq> p_policy p \<or> c_timeout p \<noteq> p_timeout p \<or> c_flush p \<noteq> p_flush p)))\<rparr>"

text \<open>
  \<open>apply\<close> as a list of what it does; the first component is the argument of \<open>ExitProcess\<close>, none when it returns
  to the dialog.
\<close>

datatype action = LockVolume | AskInUse | UnlockVolume | AskErase | DismountVolume | SendConfig mode_buffer | SendFormat mode_buffer | SayCannot

record answers =
  an_locked :: bool
  an_use :: bool
  an_erase :: bool
  an_sent :: bool
  an_random :: "(u32 \<times> u32) option"

definition apply_erase :: "answers \<Rightarrow> panel \<Rightarrow> int option \<times> action list" where
  "apply_erase a p =
     (if \<not> an_erase a then (None, [AskErase, UnlockVolume])
      else if \<not> an_sent a then (Some 1, [AskErase, DismountVolume, SendFormat (format_buffer (an_random a) p), SayCannot])
      else (Some 0, [AskErase, DismountVolume, SendFormat (format_buffer (an_random a) p), UnlockVolume]))"

definition apply_panel :: "answers \<Rightarrow> panel \<Rightarrow> int option \<times> action list" where
  "apply_panel a p =
     (if c_enable p = p_enable p \<and> p_enable p \<and> c_size p = p_size p
      then if an_sent a then (Some 0, [SendConfig (config_buffer p)]) else (Some 1, [SendConfig (config_buffer p), SayCannot])
      else if \<not> an_locked a
      then if \<not> an_use a then (None, [LockVolume, AskInUse, UnlockVolume])
        else map_prod id (\<lambda>acts. [LockVolume, AskInUse] @ acts) (apply_erase a p)
      else map_prod id (\<lambda>acts. LockVolume # acts) (apply_erase a p))"

text \<open>
  \<open>DialogProc\<close>. A number field is read as \<open>GetDlgItemInt\<close> does: \<open>None\<close> when the text is not a number, then the value is
  0; the \<open>UINT\<close> becomes an \<open>int\<close>.
\<close>

datatype event =
    Master bool
  | SizeText "u32 option"
  | CacheText "u32 option"
  | FlushBox int
  | Slider int
  | ApplyClick answers
  | CloseClick

definition item_int :: "u32 option \<Rightarrow> int" where
  "item_int v = (case v of None \<Rightarrow> 0 | Some n \<Rightarrow> sint n)"

definition size_typed :: "u32 option \<Rightarrow> panel \<Rightarrow> panel" where
  "size_typed v p =
     (let n = item_int v; n1 = (if p_max_size p < n then p_max_size p else n);
          n2 = (if v \<noteq> None \<and> n1 = 0 then 1 else n1)
      in p\<lparr>c_size := n2\<rparr>)"

definition cache_typed :: "u32 option \<Rightarrow> panel \<Rightarrow> panel" where
  "cache_typed v p = p\<lparr>c_timeout := (if 120 < item_int v then 120 else item_int v)\<rparr>"

text \<open>The settings after an event, what has been done, and whether the program ends, with which code.\<close>

fun DialogProc :: "event \<Rightarrow> panel \<Rightarrow> panel \<times> action list \<times> int option" where
  "DialogProc (Master b) p = (p\<lparr>c_enable := b\<rparr>, [], None)"
| "DialogProc (SizeText v) p = (size_typed v p, [], None)"
| "DialogProc (CacheText v) p = (cache_typed v p, [], None)"
| "DialogProc (FlushBox n) p = (p\<lparr>c_flush := n\<rparr>, [], None)"
| "DialogProc (Slider n) p = (p\<lparr>c_policy := n\<rparr>, [], None)"
| "DialogProc (ApplyClick a) p = (let (e, acts) = apply_panel a p in (p, acts, e))"
| "DialogProc CloseClick p = (p, [], Some 0)"

text \<open>The events of a dialog, until one of them ends the program.\<close>

fun dialog :: "event list \<Rightarrow> panel \<Rightarrow> panel \<times> action list \<times> int option" where
  "dialog [] p = (p, [], None)"
| "dialog (e # es) p =
     (case DialogProc e p of
        (p1, acts, Some x) \<Rightarrow> (p1, acts, Some x)
      | (p1, acts, None) \<Rightarrow> (let (p2, acts2, x) = dialog es p1 in (p2, acts @ acts2, x)))"

text \<open>\<open>WinMain\<close>: \<open>opened\<close> is the result of \<open>open\<close>; code 1 when the drive cannot be handled.\<close>

definition WinMain :: "bool \<Rightarrow> nat \<Rightarrow> ioctl \<Rightarrow> event list \<Rightarrow> action list \<times> int option" where
  "WinMain opened hdr call es =
     (let (ok, p) = (if opened then panel_read hdr call panel0 else (False, panel0)) in
      if \<not> ok then ([SayCannot], Some 1)
      else let (p', acts, x) = dialog es (snd (panel_init p)) in (acts, x))"


section \<open>What is sent\<close>

lemma byte_arith: "MODE_BYTES - 1 = 51" "MODE_BYTES - 6 = 46"
  by (simp_all add: MODE_BYTES_def)

definition sent :: "action list \<Rightarrow> mode_buffer set" where
  "sent acts = {b. SendConfig b \<in> set acts \<or> SendFormat b \<in> set acts}"

lemma sent_append [simp]: "sent (xs @ ys) = sent xs \<union> sent ys"
  by (auto simp: sent_def)

lemma apply_sent: "apply_panel a p = (x, acts) \<Longrightarrow> sent acts \<subseteq> {config_buffer p, format_buffer (an_random a) p}"
  by (auto simp: apply_panel_def apply_erase_def sent_def split: if_splits)

text \<open>The settings the dialog works with are in range when the fields hold numbers a field has room for.\<close>

fun plausible :: "event \<Rightarrow> bool" where
  "plausible (SizeText v) = (0 \<le> item_int v)"
| "plausible (CacheText v) = (0 \<le> item_int v)"
| "plausible (FlushBox n) = (n = 0 \<or> n = 1)"
| "plausible (Slider n) = (0 \<le> n \<and> n \<le> 100)"
| "plausible _ = True"

definition in_reach :: "panel \<Rightarrow> bool" where
  "in_reach p \<longleftrightarrow> 0 \<le> c_policy p \<and> c_policy p \<le> 100 \<and> 0 \<le> c_timeout p \<and> c_timeout p < 256 \<and> 0 \<le> c_flush p \<and> c_flush p < 256 \<and>
     0 \<le> c_size p \<and> c_size p < 16777216 \<and> 0 \<le> p_max_size p \<and> p_max_size p < 16777216"

lemma in_reach_event: "in_reach p \<Longrightarrow> plausible e \<Longrightarrow> in_reach (fst (DialogProc e p))"
  by (cases e) (auto simp: in_reach_def size_typed_def cache_typed_def Let_def split: prod.split)

lemma small_sint: "unat (w :: u32) < 2147483648 \<Longrightarrow> sint w = int (unat w)"
proof -
  assume a: "unat w < 2147483648"
  have "int (unat w) < 2147483648" using a by linarith
  then have u: "uint w < 2147483648" by simp
  have "- 2147483648 \<le> int (unat w)" by linarith
  then have "- 2147483648 \<le> uint w" by simp
  with u have "signed_take_bit 31 (uint w) = uint w" by (simp add: signed_take_bit_int_eq_self_iff)
  then show ?thesis by (simp add: sint_uint)
qed

lemma ulong_div_256: "sint (w div 256 :: u32) = int (unat w div 256)" "unat w div 256 < 16777216"
proof -
  show b: "unat w div 256 < 16777216" using unat32_less [of w] by linarith
  have "unat (w div 256) = unat w div 256" by (simp add: unat_div)
  then show "sint (w div 256 :: u32) = int (unat w div 256)"
    using b by (simp add: small_sint)
qed


lemma panel_read_reach:
  assumes "panel_read hdr call p = (True, q)" "0 \<le> p_policy p" "p_policy p \<le> 100"
  shows "in_reach (snd (panel_init q))" "p_enable (snd (panel_init q)) = fst (snd (init_switch (p_mode q)))"
proof -
  obtain ok n sp where c: "call (read_request hdr) hdr (hdr + SENSEINFOLENGTH + MODE_BYTES) = (ok, n, sp)" by (metis prod_cases3)
  define b where "b = mode_of (snd (VerifyChecksum128 (sp_ModeBuffer sp)))"
  have q: "q = p\<lparr>p_max_size := sint (mb_MAX_MAP b div 256), p_mode := uint (mb_Mode b),
              p_size := sint (mb_SIZE_OF_MAP b div 256), p_timeout := uint (mb_CacheTimeout b),
              p_flush := uint (mb_FlushFaithfully b), p_policy := policy_of b (p_policy p)\<rparr>"
    using assms(1) c by (auto simp: panel_read_def Let_def b_def split: prod.splits if_splits)
  have u: "uint (x :: u8) < 256" "0 \<le> uint x" for x using uint_lt2p [of x] by simp_all
  have "0 \<le> policy_of b (p_policy p)" "policy_of b (p_policy p) \<le> 100" by (simp_all add: policy_of_def Let_def)
  then show "in_reach (snd (panel_init q))"
    using u ulong_div_256 by (simp add: q panel_init_def in_reach_def split: prod.split)
  show "p_enable (snd (panel_init q)) = fst (snd (init_switch (p_mode q)))" by (simp add: panel_init_def split: prod.split)
qed

text \<open>What a panel in range sends.\<close>

definition faithful :: "mode_buffer \<Rightarrow> bool" where
  "faithful b \<longleftrightarrow> mb_PageCode b = 40 \<and> mb_BlockDescriptorLength b = 0 \<and> mb_Version b = 1 \<and> mb_Revision b = 1 \<and>
     unat (mb_WEIGHT_LIFE b) + unat (mb_WEIGHT_SPEED b) = 100 \<and> unat (mb_SIZE_OF_MAP b) mod 256 = 0"

lemma of_int_small: "0 \<le> n \<Longrightarrow> n < 4294967296 \<Longrightarrow> unat (of_int n :: u32) = nat n"
  by (simp add: unat_eq_nat_uint uint_word_of_int)

lemma of_int_byte: "0 \<le> n \<Longrightarrow> n < 256 \<Longrightarrow> uint (of_int n :: u8) = n"
  by (simp add: uint_word_of_int)

lemma settings_faithful:
  assumes "in_reach p" "0 \<le> sz" "sz < 4294967296" "sz mod 256 = 0"
  shows "faithful (settings_buffer m sz p)"
proof -
  have l: "unat (of_int (c_policy p) :: u32) = nat (c_policy p)" "unat (of_int (100 - c_policy p) :: u32) = nat (100 - c_policy p)"
    "unat (of_int sz :: u32) = nat sz"
    by (rule of_int_small; use assms in \<open>simp add: in_reach_def\<close>)+
  have "nat (c_policy p) + nat (100 - c_policy p) = 100"
    using assms(1) unfolding in_reach_def by linarith
  moreover have "nat sz mod 256 = 0" using nat_mod_distrib [of sz 256] assms(2,4) by simp
  ultimately show ?thesis unfolding faithful_def settings_buffer_def mode_buffer.simps l by simp
qed

lemma buffers_faithful:
  assumes "in_reach p" shows "faithful (config_buffer p)" "faithful (format_buffer r p)"
proof -
  have z: "0 \<le> c_size p * 256" "c_size p * 256 < 4294967296" "c_size p * 256 mod 256 = 0" using assms by (simp_all add: in_reach_def)
  show "faithful (config_buffer p)" unfolding config_buffer_def by (rule settings_faithful [OF assms z])
  define z where "z = (if c_enable p then c_size p * 256 else 0)"
  have "faithful (settings_buffer (mode_num VLTL_MODE_FORMAT) z p)"
    by (rule settings_faithful [OF assms]) (use z in \<open>auto simp: z_def\<close>)
  then show "faithful (format_buffer r p)"
    by (simp add: format_buffer_def z_def [symmetric] Let_def split: option.split) (simp add: faithful_def)
qed

lemma dialog_sent:
  "dialog es p = (p', acts, x) \<Longrightarrow> in_reach p \<Longrightarrow> list_all plausible es \<Longrightarrow> \<forall>b \<in> sent acts. faithful b"
proof (induction es arbitrary: p p' acts x)
  case Nil
  then show ?case by (auto simp: sent_def)
next
  case (Cons e es)
  obtain p1 a1 x1 where e: "DialogProc e p = (p1, a1, x1)" by (metis prod_cases3)
  have r: "in_reach p1" using in_reach_event [OF Cons.prems(2), of e] Cons.prems(3) e by simp
  have s1: "\<forall>b \<in> sent a1. faithful b"
  proof (cases e)
    case (ApplyClick a)
    then have "apply_panel a p = (x1, a1)" using e by (simp add: Let_def split: prod.splits)
    then show ?thesis using apply_sent buffers_faithful [OF Cons.prems(2)] by blast
  qed (use e in \<open>auto simp: sent_def\<close>)
  show ?case
  proof (cases x1)
    case None
    obtain p2 a2 x2 where d: "dialog es p1 = (p2, a2, x2)" by (metis prod_cases3)
    then show ?thesis using Cons.IH [OF d r] Cons.prems(1,3) e None s1 by auto
  next
    case (Some y)
    then show ?thesis using Cons.prems(1) e s1 by simp
  qed
qed


section \<open>The program and the driver\<close>

text \<open>\<open>DeviceIoControl\<close> answered by the driver, for a device in state \<open>x\<close>.\<close>

definition driver_call :: "'s sync \<Rightarrow> nat \<Rightarrow> dx \<Rightarrow> pool \<Rightarrow> 's \<times> mem \<Rightarrow> ioctl" where
  "driver_call sync hdr x q w sp inlen outlen =
     (case LevelingControl sync hdr inlen outlen sp x q w of
        Some (st, Some n, sp', _) \<Rightarrow> (st = STATUS_SUCCESS, n, sp')
      | _ \<Rightarrow> (False, 0, sp))"

lemma verify_report:
  "VerifyChecksum128 (GetLevelingConfig x) = (True, GetLevelingConfig x)" "mode_of (GetLevelingConfig x) = leveling_mode x"
proof -
  show "VerifyChecksum128 (GetLevelingConfig x) = (True, GetLevelingConfig x)"
    unfolding GetLevelingConfig_def by (rule Verify_Produce) simp
  obtain xs where "GetLevelingConfig x = mode_words (leveling_mode x) @ xs" using GetLevelingConfig_words by blast
  then show "mode_of (GetLevelingConfig x) = leveling_mode x" by simp
qed

text \<open>What the program reads is what the driver reports.\<close>

lemma panel_reads_driver:
  assumes "hdr < 4000000000"
  shows "panel_read hdr (driver_call sync hdr x q w) p =
    (True, p\<lparr>p_max_size := int (unat (mb_MAX_MAP (leveling_mode x)) div 256), p_mode := int (mode_num (dx_Mode x)),
      p_size := int (unat (mb_SIZE_OF_MAP (leveling_mode x)) div 256), p_timeout := uint (mb_CacheTimeout (leveling_mode x)),
      p_flush := uint (mb_FlushFaithfully (leveling_mode x)), p_policy := policy_of (leveling_mode x) (p_policy p)\<rparr>)"
proof -
  have n: "wrap32 (hdr + SENSEINFOLENGTH + MODE_BYTES) = hdr + SENSEINFOLENGTH + MODE_BYTES"
    using assms by (simp add: SENSEINFOLENGTH_def MODE_BYTES_def)
  have a: "sense_accepted (hdr + SENSEINFOLENGTH + MODE_BYTES) (read_request hdr)"
    using n by (simp add: sense_accepted_def read_request_def data_end_def)
  have "driver_call sync hdr x q w (read_request hdr) hdr (hdr + SENSEINFOLENGTH + MODE_BYTES) =
      (True, hdr + SENSEINFOLENGTH + MODE_BYTES, control_answer (GetLevelingConfig x) (read_request hdr))"
    using a n by (simp add: driver_call_def LevelingControl_def) (simp add: read_request_def)
  moreover have "uint (mb_Mode (leveling_mode x)) = int (mode_num (dx_Mode x))"
    by (cases "dx_Mode x") (simp_all add: leveling_mode_head)
  ultimately show ?thesis
    by (simp add: panel_read_def Let_def control_answer_def verify_report leveling_mode_head ulong_div_256(1))
qed

text \<open>The settings sent by \<open>write_config\<close> reach \<open>SetLevelingConfig\<close> as they are.\<close>

lemma driver_takes_settings:
  assumes "hdr < 4000000000"
  shows "LevelingControl sync hdr (hdr + SENSEINFOLENGTH + MODE_BYTES) outlen (write_request hdr b) x q w =
    (if mb_BlockDescriptorLength b = 0 \<and> mb_PageCode b = 40
     then map_option (\<lambda>(ok, x', p', w'). (if ok then STATUS_SUCCESS else STATUS_UNSUCCESSFUL, Some hdr,
         control_answer (sp_ModeBuffer (write_request hdr b)) (write_request hdr b), x', p', w')) (SetLevelingConfig sync b x q w)
     else Some (STATUS_NOT_SUPPORTED, None, write_request hdr b, x, q, w))"
proof -
  have n: "wrap32 (hdr + SENSEINFOLENGTH + MODE_BYTES) = hdr + SENSEINFOLENGTH + MODE_BYTES"
    using assms by (simp add: SENSEINFOLENGTH_def MODE_BYTES_def)
  obtain xs where m: "sp_ModeBuffer (write_request hdr b) = mode_words b @ xs" by (simp add: write_request_def Produce_eq set_tail_def)
  then have mo: "mode_of (sp_ModeBuffer (write_request hdr b)) = b" by simp
  have v: "fst (VerifyChecksum128 (sp_ModeBuffer (write_request hdr b)))" unfolding write_request_def by (simp add: ck.check_seal)
  have "select_accepted (hdr + SENSEINFOLENGTH + MODE_BYTES) (write_request hdr b) \<longleftrightarrow> mb_BlockDescriptorLength b = 0 \<and> mb_PageCode b = 40"
    using n v mo by (simp add: select_accepted_def data_end_def) (simp add: write_request_def)
  then show ?thesis using mo by (simp add: LevelingControl_def) (simp add: write_request_def)
qed

lemma policy_back:
  assumes "0 \<le> c_policy p" "c_policy p \<le> 100" "mb_WEIGHT_LIFE b = of_int (c_policy p)" "mb_WEIGHT_SPEED b = of_int (100 - c_policy p)"
  shows "policy_of b old = c_policy p"
proof -
  have s: "mb_WEIGHT_LIFE b + mb_WEIGHT_SPEED b = 100" unfolding assms(3,4) by simp
  have "100 * mb_WEIGHT_LIFE b = of_nat (100 * nat (c_policy p))" unfolding assms(3) using assms(1) by simp
  then have u: "unat (100 * mb_WEIGHT_LIFE b) = 100 * nat (c_policy p)" using assms(2) by (simp only: unat_of_nat32)
  have "unat (100 * mb_WEIGHT_LIFE b div 100) = nat (c_policy p)" unfolding unat_div u by simp
  then have "sint (100 * mb_WEIGHT_LIFE b div 100) = c_policy p" using assms(1,2) small_sint [of "100 * mb_WEIGHT_LIFE b div 100"] by simp
  then show ?thesis using assms(1,2) s by (simp add: policy_of_def)
qed


lemma settings_kept:
  assumes "sync_disk sync medium" "SetLevelingConfig sync (config_buffer p) x q (s, m) = Some (True, x', q', s', m')"
  obtains obj c where "dx_Ctx x = Some (obj, c)" "x' = x\<lparr>dx_Ctx := Some (obj, ctx_with (config_buffer p) c)\<rparr>"
proof -
  have "unat (mb_Mode (config_buffer p)) = mode_num VLTL_MODE_CONFIG" by (simp add: config_buffer_def settings_buffer_def)
  then have "do_config sync (config_buffer p) x (s, m) = (True, x', s', m')"
    using assms(2) by (auto simp: SetLevelingConfig_def split: if_splits option.splits prod.splits)
  then show ?thesis using that by (rule sync_disk.do_config_medium [OF assms(1)])
qed

section \<open>Properties\<close>

text \<open>
  C35. The settings come back. When the user changes the policy, the timeout or the flushing of an active device and the
  driver takes the change, the next start of the control program reads exactly these settings, and the
  mode and size as they were.
\<close>

theorem settings_come_back:
  assumes "sync_disk sync medium" "hdr < 4000000000" "0 \<le> c_policy p" "c_policy p \<le> 100" "0 \<le> c_timeout p" "c_timeout p < 256"
    and "c_flush p = 0 \<or> c_flush p = 1"
    and "LevelingControl sync hdr (hdr + SENSEINFOLENGTH + MODE_BYTES) hdr (write_request hdr (config_buffer p)) x q (s, m) =
      Some (STATUS_SUCCESS, info, sp, x', q', s', m')"
  shows "\<exists>p'. panel_read hdr (driver_call sync hdr x' q' (s', m')) p0 = (True, p') \<and>
    p_policy p' = c_policy p \<and> p_timeout p' = c_timeout p \<and> p_flush p' = c_flush p \<and>
    p_mode p' = int (mode_num (dx_Mode x)) \<and> p_size p' = int (unat (mb_SIZE_OF_MAP (leveling_mode x)) div 256) \<and>
    \<not> d_apply_on (update_panel (snd (panel_init p')))"
proof -
  let ?b = "config_buffer p"
  have "mb_BlockDescriptorLength ?b = 0" "mb_PageCode ?b = 40" by (simp_all add: config_buffer_def settings_buffer_def)
  then have "SetLevelingConfig sync ?b x q (s, m) = Some (True, x', q', s', m')"
    using assms(8) driver_takes_settings [OF assms(2), of sync hdr ?b x q "(s, m)"] by (auto split: if_splits)
  from settings_kept [OF assms(1) this] obtain obj c where
    c: "dx_Ctx x = Some (obj, c)" "x' = x\<lparr>dx_Ctx := Some (obj, ctx_with ?b c)\<rparr>" .
  have w: "mb_WEIGHT_LIFE (leveling_mode x') = of_int (c_policy p)" "mb_WEIGHT_SPEED (leveling_mode x') = of_int (100 - c_policy p)"
    "mb_CacheTimeout (leveling_mode x') = of_int (c_timeout p)" "mb_FlushFaithfully (leveling_mode x') = of_bool (of_int (c_flush p) \<noteq> (0 :: u8))"
    "mb_SIZE_OF_MAP (leveling_mode x') = mb_SIZE_OF_MAP (leveling_mode x)" "dx_Mode x' = dx_Mode x"
    using c by (simp_all add: leveling_mode_def ctx_with_def config_buffer_def settings_buffer_def)
  have t: "uint (mb_CacheTimeout (leveling_mode x')) = c_timeout p" unfolding w(3) by (rule of_int_byte [OF assms(5,6)])
  have f: "uint (mb_FlushFaithfully (leveling_mode x')) = c_flush p" unfolding w(4) using assms(7) by auto
  have l: "policy_of (leveling_mode x') old = c_policy p" for old by (rule policy_back [OF assms(3,4) w(1,2)])
  have a: "\<not> d_apply_on (update_panel (snd (panel_init p')))" for p'
    by (simp add: update_panel_def panel_init_def split: prod.split)
  show ?thesis using a t f l w(5,6) by (simp add: panel_reads_driver [OF assms(2)])
qed

definition blank_disk :: mem where "blank_disk = (\<lambda>_. zero_sector)"

definition demo_panel :: panel where
  "demo_panel = panel0\<lparr>p_enable := True, c_enable := True, c_policy := 70, c_timeout := 5\<rparr>"

theorem settings_come_back_witness:
  "\<exists>x' q' w' info sp p'.
     LevelingControl ideal_sync 56 140 56 (write_request 56 (config_buffer demo_panel)) (cfg_dx VLTL_MODE_ACTIVE (Some (demo_obj, zero_ctx)))
       full_pool ((\<lambda>_. zero_sector)(0 := conf_sector), \<lambda>_. zero_sector) = Some (STATUS_SUCCESS, info, sp, x', q', w') \<and>
     panel_read 56 (driver_call ideal_sync 56 x' q' w') panel0 = (True, p') \<and> p_policy p' = 70 \<and> p_timeout p' = 5"
proof -
  let ?d = "(\<lambda>_. zero_sector)(0 := conf_sector)" and ?x = "cfg_dx VLTL_MODE_ACTIVE (Some (demo_obj, zero_ctx))" and ?b = "config_buffer demo_panel"
  have v: "fst (VerifyChecksum128 (conf_words conf_sector))"
    unfolding conf_sector_def by (subst conf_words_put) (simp_all add: CONF_WORDS_def ck.check_seal)
  have h: "mb_Version ?b = 1" "mb_Revision ?b = 1" "unat (mb_Mode ?b) = mode_num VLTL_MODE_CONFIG" "mb_BlockDescriptorLength ?b = 0" "mb_PageCode ?b = 40"
    by (simp_all add: config_buffer_def settings_buffer_def)
  obtain r p' where c: "CreateRequest 65536 (SIZE_OF_CACHE * 512) full_pool = (Some r, p')" using CreateRequest_full by blast
  have "\<exists>x' w'. do_config ideal_sync ?b ?x (?d, \<lambda>_. zero_sector) = (True, x', w')"
    by (simp add: do_config_def ideal_sync_def copy_sectors_def v cfg_dx_def Let_def)
  then obtain x' s' m' where "do_config ideal_sync ?b ?x (?d, \<lambda>_. zero_sector) = (True, x', s', m')" by (metis prod.collapse)
  then have "SetLevelingConfig ideal_sync ?b ?x full_pool (?d, \<lambda>_. zero_sector) = Some (True, x', FreeRequest (Some r) p', s', m')"
    using h c by (simp add: SetLevelingConfig_def cfg_dx_def)
  then obtain info sp where l: "LevelingControl ideal_sync 56 (56 + SENSEINFOLENGTH + MODE_BYTES) 56 (write_request 56 ?b) ?x full_pool (?d, \<lambda>_. zero_sector) =
      Some (STATUS_SUCCESS, info, sp, x', FreeRequest (Some r) p', s', m')"
    using h by (simp add: driver_takes_settings)
  have n: "56 + SENSEINFOLENGTH + MODE_BYTES = 140" by (simp add: SENSEINFOLENGTH_def MODE_BYTES_def)
  show ?thesis
    using settings_come_back [OF idl.sync_disk_axioms _ _ _ _ _ _ l, of panel0] l unfolding n
    by (auto simp: demo_panel_def panel0_def)
qed






end
