(* ===== verification/VltlCtl.thy ===== *)
theory VltlCtl
  imports Vltl "HOL-Library.Sublist"
begin

text \<open>
  \<open>vltlctl/vltlctl.c\<close>: the program for the trace. Without operands it prints the trace until a read fails; with
  one or two it sends two words that the control device takes as a command. The second section puts the
  program and the control device together.
\<close>

section \<open>The program\<close>

text \<open>\<open>sscanf\<close> with \<open>%x\<close> into a variable that is 0: white space, a sign, \<open>0x\<close>, digits. A number too large keeps its low 32 bits.\<close>

definition is_space :: "char \<Rightarrow> bool" where
  "is_space ch \<longleftrightarrow> (let n = (of_char ch :: nat) in n = 32 \<or> 9 \<le> n \<and> n \<le> 13)"

definition hex_digit :: "char \<Rightarrow> u32 option" where
  "hex_digit ch =
     (let n = (of_char ch :: nat) in
      if 48 \<le> n \<and> n \<le> 57 then Some (of_nat n - 48)
      else if 97 \<le> n \<and> n \<le> 102 then Some (of_nat n - 87)
      else if 65 \<le> n \<and> n \<le> 70 then Some (of_nat n - 55)
      else None)"

fun hex_run :: "string \<Rightarrow> u32 \<Rightarrow> u32" where
  "hex_run [] v = v"
| "hex_run (ch # s) v = (case hex_digit ch of None \<Rightarrow> v | Some d \<Rightarrow> hex_run s (v * 16 + d))"

definition skip_0x :: "string \<Rightarrow> string" where
  "skip_0x s = (if take 2 s = ''0x'' \<or> take 2 s = ''0X'' then drop 2 s else s)"

definition scan_x :: "string \<Rightarrow> u32" where
  "scan_x s =
     (let s1 = dropWhile is_space s in
      if take 1 s1 = ''-'' then - hex_run (skip_0x (drop 1 s1)) 0
      else if take 1 s1 = ''+'' then hex_run (skip_0x (drop 1 s1)) 0
      else hex_run (skip_0x s1) 0)"

definition write_control1 :: "string \<Rightarrow> u32 list option" where
  "write_control1 op = (if op = ''-stop'' then Some [2, 1] else None)"

definition write_control2 :: "string \<Rightarrow> string \<Rightarrow> u32 list option" where
  "write_control2 op v =
     (let x = scan_x v in
      if op = ''-trace'' then Some [0, x] else if op = ''-ftrace'' then Some [1, x] else None)"

text \<open>
  \<open>read_control\<close> on the answers of \<open>ReadFile\<close>, up to the first that fails: what is printed. An empty answer is
  only waited for.
\<close>

fun read_control :: "string option list \<Rightarrow> string list" where
  "read_control [] = []"
| "read_control (None # as) = []"
| "read_control (Some xs # as) = (if xs = [] then read_control as else xs # read_control as)"

text \<open>\<open>main\<close> on \<open>argv\<close>: the exit code, what it prints and what it writes to the device.\<close>

definition control_main :: "bool \<Rightarrow> string option list \<Rightarrow> string list \<Rightarrow> int \<times> string list \<times> u32 list option" where
  "control_main opened as argv =
     (if \<not> opened then (- 1, [], None)
      else (0, if length argv = 1 then read_control as else [],
            if length argv = 2 then write_control1 (argv ! 1)
            else if length argv = 3 then write_control2 (argv ! 1) (argv ! 2) else None))"

section \<open>The program and the control device\<close>

text \<open>\<open>ReadFile\<close> and \<open>WriteFile\<close> on the control device; \<open>i\<close> is the request the system makes of them.\<close>

definition READ_BUFFER :: nat where "READ_BUFFER = 4096"

definition device_read :: "irp \<Rightarrow> control_state \<Rightarrow> string option \<times> control_state" where
  "device_read i cs =
     (let (i', xs, cs') = ControlDispatch False (i\<lparr>irp_Major := IRP_MJ_READ\<rparr>) READ_BUFFER [] cs in
      (if irp_Status i' = STATUS_SUCCESS then Some (take (irp_Information i') xs) else None, cs'))"

definition device_write :: "irp \<Rightarrow> u32 list option \<Rightarrow> control_state \<Rightarrow> control_state" where
  "device_write i w cs =
     (case w of None \<Rightarrow> cs
      | Some ws \<Rightarrow> snd (snd (ControlDispatch False (i\<lparr>irp_Major := IRP_MJ_WRITE\<rparr>) (4 * length ws) ws cs)))"

text \<open>A run of the reading program while the driver traces \<open>s\<close> before each read.\<close>

definition traced :: "string \<Rightarrow> control_state \<Rightarrow> control_state" where
  "traced s cs = cs\<lparr>cs_tracer := (cs_tracer cs)\<lparr>tr_ring := print_string s (tr_ring (cs_tracer cs))\<rparr>\<rparr>"

fun watched :: "irp \<Rightarrow> string list \<Rightarrow> control_state \<Rightarrow> string option list \<times> control_state" where
  "watched i [] cs = ([], cs)"
| "watched i (s # ss) cs =
     (let (a, cs1) = device_read i (traced s cs); (as, cs2) = watched i ss cs1 in (a # as, cs2))"

section \<open>Reading back a number\<close>

lemma hex_digit_digits: "k < 16 \<Longrightarrow> hex_digit (digits ! k) = Some (of_nat k)"
proof -
  have "\<forall>k \<in> {..<16}. hex_digit (digits ! k) = Some (of_nat k)" by code_simp
  then show "k < 16 \<Longrightarrow> hex_digit (digits ! k) = Some (of_nat k)" by simp
qed

definition hexes :: "string \<Rightarrow> bool" where
  "hexes s \<longleftrightarrow> (\<forall>ch \<in> set s. \<exists>k < 16. ch = digits ! k)"

lemma hexes_simps [simp]: "hexes []" "hexes (ch # s) = ((\<exists>k < 16. ch = digits ! k) \<and> hexes s)" "hexes (s @ t) = (hexes s \<and> hexes t)"
  by (auto simp: hexes_def)

lemma hexes_loop: "hexes (hex_loop n v)"
proof (induction n arbitrary: v)
  case (Suc n)
  have "nat (v mod 16) < 16" by simp
  then show ?case using Suc by (auto simp: Let_def)
qed simp

lemma hex_run_number: "hexes s \<Longrightarrow> hex_run s (of_int v) = of_int (foldl (\<lambda>v ch. v * 16 + digit_value ch) v s)"
proof (induction s arbitrary: v)
  case (Cons ch s)
  then obtain k where k: "k < 16" "ch = digits ! k" by auto
  have "(of_int v * 16 + of_nat k :: u32) = of_int (v * 16 + digit_value ch)"
    using k by (simp add: digit_value_digits)
  then have "hex_run (ch # s) (of_int v) = hex_run s (of_int (v * 16 + digit_value ch))"
    using k by (simp add: hex_digit_digits del: of_int_add of_int_mult)
  then show ?case using Cons.IH [of "v * 16 + digit_value ch"] Cons.prems by simp
qed simp

lemma plain_digit:
  "k < 16 \<Longrightarrow> \<not> is_space (digits ! k)" "k < 16 \<Longrightarrow> digits ! k \<noteq> CHR ''-''" "k < 16 \<Longrightarrow> digits ! k \<noteq> CHR ''+''"
  "k < 16 \<Longrightarrow> digits ! k \<noteq> CHR ''x''" "k < 16 \<Longrightarrow> digits ! k \<noteq> CHR ''X''"
proof -
  have "\<forall>k \<in> {..<16}. \<not> is_space (digits ! k) \<and> digits ! k \<noteq> CHR ''-'' \<and> digits ! k \<noteq> CHR ''+'' \<and> digits ! k \<noteq> CHR ''x'' \<and> digits ! k \<noteq> CHR ''X''"
    by code_simp
  then show "k < 16 \<Longrightarrow> \<not> is_space (digits ! k)" "k < 16 \<Longrightarrow> digits ! k \<noteq> CHR ''-''" "k < 16 \<Longrightarrow> digits ! k \<noteq> CHR ''+''"
    "k < 16 \<Longrightarrow> digits ! k \<noteq> CHR ''x''" "k < 16 \<Longrightarrow> digits ! k \<noteq> CHR ''X''" by simp_all
qed

lemma scan_hexes: "hexes s \<Longrightarrow> scan_x s = hex_run s 0"
proof -
  assume h: "hexes s"
  then have a: "dropWhile is_space s = s" "take 1 s \<noteq> ''-''" "take 1 s \<noteq> ''+''" by (cases s; auto dest: plain_digit)+
  have "skip_0x s = s" using h by (cases s; cases "tl s") (auto simp: skip_0x_def dest: plain_digit)
  with a show ?thesis by (simp add: scan_x_def)
qed

lemma scan_print_hex: "scan_x (print_hex v) = of_int v"
proof -
  have "number 16 (print_hex v) = v mod 2 ^ 32" unfolding print_hex_def hex_loop_number by simp
  then have "scan_x (print_hex v) = of_int (v mod 2 ^ 32)"
    using hex_run_number [of "print_hex v" 0] scan_hexes [of "print_hex v"] hexes_loop [of 8 v]
    by (simp add: print_hex_def number_def)
  also have "\<dots> = (of_int v :: u32)" by (simp add: word_of_int_eq_iff take_bit_eq_mod)
  finally show ?thesis .
qed

text \<open>
  C39. The number the trace prints for a level, given to the control program, sets exactly this level in the
  driver; the other commands do what they say, and anything else changes nothing.
\<close>

theorem levels_set:
  "device_write i (snd (snd (control_main True as [prog, ''-trace'', print_hex v]))) cs = cs\<lparr>cs_tracer := (cs_tracer cs)\<lparr>tr_lvl := of_int v\<rparr>\<rparr> \<and>
   device_write i (snd (snd (control_main True as [prog, ''-ftrace'', print_hex v]))) cs = cs\<lparr>cs_tracer := (cs_tracer cs)\<lparr>tr_lvl_function := of_int v\<rparr>\<rparr> \<and>
   device_write i (snd (snd (control_main True as [prog, ''-stop'']))) cs = cs\<lparr>cs_deleted := True\<rparr> \<and>
   snd (snd (control_main True as [prog])) = None \<and> snd (snd (control_main False as argv)) = None"
  by (simp add: control_main_def write_control1_def write_control2_def device_write_def ControlDispatch_def
      trace_control_def scan_print_hex Let_def)

section \<open>Reading the trace\<close>

lemma device_read_ring:
  "device_read i cs = (let (xs, r) = trace_read READ_BUFFER (tr_ring (cs_tracer cs)) in
     (Some xs, cs\<lparr>cs_tracer := (cs_tracer cs)\<lparr>tr_ring := r\<rparr>\<rparr>))"
  by (simp add: device_read_def ControlDispatch_def Let_def split: prod.split)

lemma printed_all: "None \<notin> set as \<Longrightarrow> concat (read_control as) = concat (map the as)"
  by (induction as rule: read_control.induct) auto

lemma keep_subseq: "subseq (keep n xs) xs"
  by (metis append_take_drop_id keep_def subseq_drop_many subseq_order.refl)

lemma watched_log:
  assumes "ring_ok (tr_ring (cs_tracer cs))" "watched i ss cs = (as, cs2)"
  shows "None \<notin> set as \<and> length as = length ss \<and> ring_ok (tr_ring (cs_tracer cs2)) \<and>
    subseq (concat (map the as) @ contents (tr_ring (cs_tracer cs2))) (contents (tr_ring (cs_tracer cs)) @ concat ss) \<and>
    (length (contents (tr_ring (cs_tracer cs)) @ concat ss) < tb_size (tr_ring (cs_tracer cs)) \<longrightarrow>
      concat (map the as) @ contents (tr_ring (cs_tracer cs2)) = contents (tr_ring (cs_tracer cs)) @ concat ss)"
  using assms
proof (induction ss arbitrary: cs as cs2)
  case (Cons s ss)
  define r where "r = tr_ring (cs_tracer cs)"
  define r1 where "r1 = fold print_char s r"
  obtain xs r2 where g: "trace_read READ_BUFFER r1 = (xs, r2)" by fastforce
  define cs1 where "cs1 = cs\<lparr>cs_tracer := (cs_tracer cs)\<lparr>tr_ring := r2\<rparr>\<rparr>"
  obtain as' where w: "watched i ss cs1 = (as', cs2)" "as = Some xs # as'"
    using Cons.prems(2) g by (simp add: device_read_ring traced_def print_string_fold cs1_def r1_def r_def split: prod.splits)
  have p: "ring_ok r1" "tb_size r1 - 1 = tb_size r - 1" "contents r1 = keep (tb_size r - 1) (contents r @ s)"
    using rg.puts_log [of r s] Cons.prems(1) unfolding r1_def r_def by simp_all
  note q = rg.get_log [OF p(1) g]
  have n: "tr_ring (cs_tracer cs1) = r2" by (simp add: cs1_def)
  have ih: "None \<notin> set as' \<and> length as' = length ss \<and> ring_ok (tr_ring (cs_tracer cs2)) \<and>
    subseq (concat (map the as') @ contents (tr_ring (cs_tracer cs2))) (contents r2 @ concat ss) \<and>
    (length (contents r2 @ concat ss) < tb_size r2 \<longrightarrow>
      concat (map the as') @ contents (tr_ring (cs_tracer cs2)) = contents r2 @ concat ss)"
    using Cons.IH [of cs1, OF _ w(1)] q n by simp
  have "subseq (xs @ concat (map the as') @ contents (tr_ring (cs_tracer cs2))) (xs @ contents r2 @ concat ss)"
    using ih by (simp add: subseq_append')
  also have "subseq (xs @ contents r2 @ concat ss) ((contents r @ s) @ concat ss)"
  proof -
    have "keep (tb_size r - 1) (contents r @ s) = xs @ contents r2" using p(3) q by metis
    then have "subseq (xs @ contents r2) (contents r @ s)" using keep_subseq by metis
    then have "subseq ((xs @ contents r2) @ concat ss) ((contents r @ s) @ concat ss)" by (simp only: subseq_append)
    then show ?thesis by (simp only: append_assoc)
  qed
  finally have sub: "subseq (concat (map the as) @ contents (tr_ring (cs_tracer cs2))) (contents r @ concat (s # ss))"
    using w(2) by simp
  have "concat (map the as) @ contents (tr_ring (cs_tracer cs2)) = contents r @ concat (s # ss)"
    if l: "length (contents r @ concat (s # ss)) < tb_size r"
  proof -
    have "length (contents r @ s) \<le> tb_size r - 1" using l by simp
    then have c: "xs @ contents r2 = contents r @ s" using p(3) q by (metis keep_all)
    have "length (xs @ contents r2) = length (contents r @ s)" by (simp only: c)
    then have "length (contents r2) \<le> length (contents r) + length s" by simp
    moreover have "0 < tb_size r" "0 < tb_size r2" using Cons.prems(1) q by (auto simp: ring_ok_def r_def)
    ultimately have "length (contents r2 @ concat ss) < tb_size r2" using l p(2) q [THEN conjunct2, THEN conjunct2, THEN conjunct2] by simp
    then have "concat (map the as') @ contents (tr_ring (cs_tracer cs2)) = contents r2 @ concat ss" using ih by blast
    then show ?thesis using w(2) c by simp
  qed
  then show ?case using ih w(2) sub unfolding r_def by simp
qed simp

text \<open>
  C38. The reading program prints the trace: characters in their order and each at most once, and all of them
  when the ring buffer has room for what is traced.
\<close>

theorem trace_watched:
  assumes "ring_ok (tr_ring (cs_tracer cs))" "watched i ss cs = (as, cs2)"
  shows "subseq (concat (fst (snd (control_main True as [prog]))) @ contents (tr_ring (cs_tracer cs2)))
      (contents (tr_ring (cs_tracer cs)) @ concat ss) \<and>
    (length (contents (tr_ring (cs_tracer cs)) @ concat ss) < tb_size (tr_ring (cs_tracer cs)) \<longrightarrow>
      concat (fst (snd (control_main True as [prog]))) @ contents (tr_ring (cs_tracer cs2)) =
        contents (tr_ring (cs_tracer cs)) @ concat ss)"
  using watched_log [OF assms] by (simp add: control_main_def printed_all)

definition demo_control :: control_state where
  "demo_control = \<lparr>cs_tracer = \<lparr>tr_ring = \<lparr>tb_buf = Some (\<lambda>_. CHR 0x00), tb_size = 12, tb_begin = 8, tb_end = 8\<rparr>,
     tr_lvl = 2, tr_lvl_function = 1, tr_indent = 0, tr_prevname = None\<rparr>, cs_deleted = False\<rparr>"

theorem trace_watched_witness:
  "\<forall>i. case watched i [''active'', ''go''] demo_control of (as, cs2) \<Rightarrow>
     concat (fst (snd (control_main True as [''vltlctl'']))) @ contents (tr_ring (cs_tracer cs2)) = ''activego''"
proof
  fix i
  obtain as cs2 where w: "watched i [''active'', ''go''] demo_control = (as, cs2)" by fastforce
  have "ring_ok (tr_ring (cs_tracer demo_control))" "contents (tr_ring (cs_tracer demo_control)) = []"
    "tb_size (tr_ring (cs_tracer demo_control)) = 12"
    by (simp_all add: ring_ok_def demo_control_def contents_def)
  with trace_watched [OF _ w, of "''vltlctl''"] w
  show "case watched i [''active'', ''go''] demo_control of (as, cs2) \<Rightarrow>
     concat (fst (snd (control_main True as [''vltlctl'']))) @ contents (tr_ring (cs_tracer cs2)) = ''activego''" by simp
qed

end
