(* ===== verification/Spec2Isabelle.thy ===== *)
theory Spec2Isabelle
  imports Disk ModeProps Worker Names Panel VltlCtl
begin

text \<open>
  A verification of the leveling driver.

  The program (\<open>src/driver\<close>, with \<open>src/lib/common.c\<close>) is a filter driver between the file systems of
  Windows and a flash disk. It keeps a map from the blocks of the device the system sees (eight sectors
  of 512 bytes) to places on the disk, gathers everything that is written in a cache of 512 sectors and
  writes full caches one behind the other into chunks of 128 MB, so that the disk is only written
  sequentially. Before it goes on to another chunk it moves the blocks that are still in use there. The
  tables are rebuilt from the directories in the chunks when the device is started.

  \<^bold>\<open>Theories and sources.\<close> One theory stands for each part; definitions carry the names of the C functions
  they translate, records have the fields of the structures.
  \<^item> \<open>Prelude\<close>, \<open>Bytes\<close>, \<open>Pool\<close>: arithmetic of \<open>ULONG\<close> with wrap-around, sectors and memory by words and by
    bytes, the allocators of the kernel (locale \<open>allocator\<close>).
  \<^item> \<open>Checksum\<close> (\<open>lib/common.c\<close>): the checksum of the control blocks (locale \<open>sealed_block\<close>).
  \<^item> \<open>Leveling\<close> (\<open>driver/config.h\<close>, \<open>vscsi.h\<close>, \<open>vreq.h\<close>): constants, requests, threads and \<open>LEVELING_CTX\<close>, the record
    \<open>ctx\<close>. \<open>hs\<close> is the state the handlers run on: mode, context, the transfers issued and the requests
    completed, in order.
  \<^item> \<open>Tables\<close> (\<open>driver/vscsi.c\<close>): cache directory (locale \<open>tag_lookup\<close>), block map with use counts, choice of the
    next chunk. \<open>Requests\<close>: answers and buffers. \<open>Relocation\<close> (\<open>driver/vrelocation.c\<close>): moving blocks. \<open>Vscsi\<close>
    (\<open>driver/vscsi.c\<close>): the read and write handlers with the completion routines of their transfers. \<open>Vflush\<close>
    (\<open>driver/vflush.c\<close>): flushing, and what runs when a transfer has ended.
  \<^item> \<open>Gate\<close> (\<open>driver/vgate.c\<close>): admission of requests to ten read threads and one other thread, completion, the
    flush timer, the execution of one request. Each section under the spin lock is one function.
  \<^item> \<open>Vreq\<close>, \<open>VreqAlloc\<close> (\<open>driver/vreq.c\<close>): the transfers the driver sends to the disk, with splitting and retries.
  \<^item> \<open>Extension\<close>, \<open>Vltl\<close> (\<open>driver/vltl.c\<close>, \<open>control.c\<close>): the device extension, its mode, and the entry points.
    \<open>CtxLife\<close>: creation and release of a context. \<open>Vcheck\<close> (\<open>driver/vcheck.c\<close>): the check of a new device.
  \<^item> \<open>Config\<close> (\<open>driver/config.c\<close>): formatting and configuration. \<open>Recovery\<close>, \<open>Worker\<close> (\<open>driver/recovery.c\<close>):
    rebuilding the tables, and the thread that starts it. \<open>Registry\<close> (\<open>driver/registry.c\<close>): which devices the
    driver attaches to. \<open>Trace\<close> (\<open>driver/trace.c\<close>): the trace buffer (locale \<open>bounded_log\<close>). \<open>Names\<close>
    (\<open>driver/names.c\<close>): the names of codes for the trace.
  \<^item> \<open>Panel\<close> (\<open>app/fdlvlctl.cpp\<close>): the control program with its dialog. \<open>VltlCtl\<close> (\<open>vltlctl/vltlctl.c\<close>): the program that
    reads the trace. Both end with the program put together with the part of the driver it talks to.

  \<^bold>\<open>How the parts interact.\<close> An entry point of \<open>Vltl\<close> hands a request to \<open>LevelingDispatch\<close>, which gives it to a
  thread or queues it. \<open>ExecuteThread\<close> runs the handler of its kind. A handler runs until the request is
  completed or a transfer is issued (\<open>hs_Issued\<close>); it does nothing after it has issued one. \<open>transfer\<close> carries
  out the last transfer on the medium, \<open>run_completion\<close> runs its completion routine, which runs the handler again.
  When the request is completed, \<open>LevelingThreadCompletion\<close> takes the next one from a queue. That a transfer is one
  step is justified in \<open>Transfers\<close> and \<open>SyncIo\<close> (\<open>transfer_refined\<close>): \<open>ScsiCallRW\<close>, with a disk below that may fail in
  any way and any number of times, either moves all sectors or reports an error.

  \<^bold>\<open>What is shown.\<close>
  \<^item> The handlers. \<open>vread\<close> (\<open>Ftl\<close>) is the contents of a sector of the mapped device in a state; \<open>ftl_inv\<close>
    says that cache directory, map, use counts and directories on the medium agree and that relocation keeps
    its pace. \<open>Ftl\<close> shows that each step keeps it and what it does to \<open>vread\<close>, \<open>FtlWrite\<close> and \<open>Device\<close> that a write
    request changes exactly its sectors, \<open>WriteEnds\<close> that it ends, \<open>FtlRead\<close> that a read request ends with the
    contents of its sectors and changes nothing, \<open>FlushEnds\<close> that a flush ends and puts a dirty cache on the medium.
  \<^item> The device is a disk. \<open>Serve\<close> runs a request from its arrival at the gate to the end of its completion and
    compares it with \<open>disk_request\<close>, one request to an array of sectors; \<open>Disk\<close> adds the timer, composes the
    requests of a sequence, and starts the sequence from a formatted medium.
  \<^item> The gate: \<open>GateInv\<close> (an invariant of every interleaving of the locked sections, \<open>gate_step\<close>), \<open>GateRun\<close> (handlers
    only mark readers and stop the timer; the routines return), \<open>GateProps\<close>, \<open>ModeProps\<close> (modes over the life of a
    device), \<open>Worker\<close>.
  \<^item> From a medium to a device: \<open>ConfigProps\<close>, \<open>RecoveryProps\<close> (consistent tables whatever is on the medium),
    \<open>FormatProps\<close> (format, start, recovery give an empty device in a state from which write requests end).
  \<^item> Round trips, bounds and error behaviour of the smaller parts, in their own theories.

  \<^bold>\<open>Bounds and fuel.\<close> \<open>LevelingThreadCompletion\<close> has fuel, one unit for each round; \<open>work\<close> (queued requests, a
  pending flush, a waiting writer) bounds the rounds, and any fuel above it is enough (\<open>dispatch_returns\<close>).
  \<open>ScsiCallRW\<close> is given as many calls as wanted, \<open>LEN * (RetryLimit + 1) + 1\<close> are enough for a disk that does not
  answer success with no data (\<open>progressing\<close>). A read request needs \<open>LEN\<close> transfers at most, a write request less
  than \<open>(LEN + 1) * MUCH\<close>, a flush three: the bound of the write only serves to show that there is one. All other loops of the
  code are recursive functions with a proof of termination.

  \<^bold>\<open>Hypotheses.\<close> The requests of \<open>device_is_a_disk\<close> come one after the other (\<open>idle\<close> in between; the gate's own theorems
  have no such restriction), their buffers can be mapped and the end of their range is below \<open>2 ^ 32\<close> (\<open>rw_irp\<close>).
  The kernel, the disk and the driver below are parameters. \<open>lower\<close> is the driver requests are passed
  to. \<open>block_device\<close> and \<open>sync_disk\<close> are a disk whose failed commands touch only sectors of the request and whose
  successful ones move what they report; \<open>flaky_sync\<close> shows that they can hold of a disk that fails. \<open>alone\<close>: a write
  is not overlapped by reads (the interleaving with readers is the subject of \<open>GateInv\<close>). \<open>brisk\<close> is the pace
  of relocation, which a formatted device has and every write keeps. The sequence number of the
  chunks is 32 bits wide; the properties of writes assume that it does not wrap.

  \<^bold>\<open>Not modelled.\<close> \<open>InitializeParameters\<close> and \<open>HookDeviceCapabilities\<close> hand constants to the kernel. The texts and
  the layout of the dialog, the name of the volume \<open>open\<close> puts together, resource files, installers and the programs
  under \<open>test\<close> have no state of the driver. Interrupt levels and reference counts of the kernel's
  objects are not state of the driver's own and are left out. \<open>ASSERT\<close> has no effect in a release
  build; what the assertions of the write path say is part of \<open>ftl_inv\<close>.
\<close>

end
